(* ===== verification/Go_Prelude.thy ===== *)
theory Go_Prelude
  imports Main "HOL-Library.Sublist" "HOL-Library.Char_ord" "HOL-Library.List_Lexorder"
begin

text \<open>
  Shared prelude: the part of Go's \<open>strings\<close>, \<open>slices\<close> and \<open>strconv\<close> packages that the
  modelled code uses, and the generic lemmas about it.

  A Go string is a sequence of bytes; it is modelled by HOL's \<open>string\<close>, a list of 8-bit
  characters, so indices and lengths are byte indices and byte lengths, as in Go. With
  \<open>List_Lexorder\<close> over \<open>Char_ord\<close> the order of HOL strings is Go's bytewise order.

  The collection \<open>go_str\<close> holds the rewrite rules that evaluate these functions on
  constructor terms, the collection \<open>go_len\<close> the length bounds that termination proofs use.
\<close>

named_theorems go_str "evaluation rules of the Go string functions"
named_theorems go_len "length bounds of the Go string functions"

section \<open>Prefixes and suffixes\<close>

text \<open>\<open>strings.HasPrefix\<close>, \<open>strings.HasSuffix\<close>, \<open>strings.Contains\<close>\<close>

abbreviation hasPrefix :: "string \<Rightarrow> string \<Rightarrow> bool" where
  "hasPrefix s p \<equiv> prefix p s"

abbreviation hasSuffix :: "string \<Rightarrow> string \<Rightarrow> bool" where
  "hasSuffix s p \<equiv> suffix p s"

abbreviation contains :: "string \<Rightarrow> string \<Rightarrow> bool" where
  "contains s p \<equiv> sublist p s"

text \<open>\<open>strings.TrimPrefix\<close>, \<open>strings.TrimSuffix\<close> and \<open>strings.CutPrefix\<close>\<close>

definition trimPrefix :: "string \<Rightarrow> string \<Rightarrow> string" where
  "trimPrefix s p = (if prefix p s then drop (length p) s else s)"

definition trimSuffix :: "string \<Rightarrow> string \<Rightarrow> string" where
  "trimSuffix s p = (if suffix p s then take (length s - length p) s else s)"

definition cutPrefix :: "string \<Rightarrow> string \<Rightarrow> string option" where
  "cutPrefix s p = (if prefix p s then Some (drop (length p) s) else None)"

lemma cutPrefix_append [simp]: "cutPrefix (p @ s) p = Some s"
  by (simp add: cutPrefix_def)

lemma cutPrefix_SomeD: "cutPrefix s p = Some t \<Longrightarrow> s = p @ t"
  by (auto simp: cutPrefix_def prefix_def split: if_splits)

lemma cutPrefix_eq_Some [simp]: "cutPrefix s p = Some t \<longleftrightarrow> s = p @ t"
  by (auto dest: cutPrefix_SomeD)

lemma cutPrefix_eq_None [simp]: "cutPrefix s p = None \<longleftrightarrow> \<not> prefix p s"
  by (simp add: cutPrefix_def)

lemma trimSuffix_append [simp]: "trimSuffix (s @ p) p = s"
  by (simp add: trimSuffix_def suffix_def)

lemma trimPrefix_append [simp]: "trimPrefix (p @ s) p = s"
  by (simp add: trimPrefix_def)

section \<open>Lists\<close>

text \<open>An element of a concatenation that is not in its first part is in the second.\<close>

lemma append_eq_append_ConsE:
  assumes "us @ vs = xs @ y # ys" and "y \<notin> set us"
  obtains xs' where "xs = us @ xs'" "vs = xs' @ y # ys"
  using assms by (auto simp: append_eq_append_conv2 append_eq_Cons_conv Cons_eq_append_conv)

text \<open>Scanning up to the first occurrence of an element, and over elements that all pass\<close>

lemma scan_until [simp]:
  assumes "c \<notin> set b"
  shows "takeWhile (\<lambda>x. x \<noteq> c) (b @ c # r) = b" "dropWhile (\<lambda>x. x \<noteq> c) (b @ c # r) = c # r"
    and "takeWhile (\<lambda>x. x \<noteq> c) b = b" "dropWhile (\<lambda>x. x \<noteq> c) b = []"
  using assms by (induction b) auto

lemma scan_over [simp]:
  assumes "list_all P b"
  shows "\<not> P d \<Longrightarrow> takeWhile P (b @ d # r) = b" "\<not> P d \<Longrightarrow> dropWhile P (b @ d # r) = d # r"
    and "takeWhile P b = b" "dropWhile P b = []"
  using assms by (induction b) auto

section \<open>Results\<close>

text \<open>A step that passes an error on succeeds when both parts do.\<close>

lemma case_sum_Inl_eq_Inr [simp]:
  "(case x of Inl e \<Rightarrow> Inl e | Inr y \<Rightarrow> f y) = Inr z \<longleftrightarrow> (\<exists>y. x = Inr y \<and> f y = Inr z)"
  by (cases x) auto

section \<open>Searching for a byte\<close>

text \<open>
  \<open>strings.IndexByte\<close>, \<open>strings.LastIndexByte\<close> and \<open>strings.IndexAny\<close> over a set of
  ASCII characters; \<open>None\<close> is Go's \<open>-1\<close>.
\<close>

fun indexWhere :: "('a \<Rightarrow> bool) \<Rightarrow> 'a list \<Rightarrow> nat option" where
  "indexWhere P [] = None"
| "indexWhere P (x # xs) = (if P x then Some 0 else map_option Suc (indexWhere P xs))"

definition indexByte :: "string \<Rightarrow> char \<Rightarrow> nat option" where
  "indexByte s c = indexWhere (\<lambda>x. x = c) s"

definition indexAny :: "string \<Rightarrow> string \<Rightarrow> nat option" where
  "indexAny s cs = indexWhere (\<lambda>x. x \<in> set cs) s"

definition lastIndexByte :: "string \<Rightarrow> char \<Rightarrow> nat option" where
  "lastIndexByte s c = map_option (\<lambda>i. length s - Suc i) (indexByte (rev s) c)"

lemma indexWhere_None_iff [simp]: "indexWhere P xs = None \<longleftrightarrow> (\<forall>x \<in> set xs. \<not> P x)"
  by (induction xs) auto

lemma indexWhere_SomeD:
  "indexWhere P xs = Some i \<Longrightarrow> i < length xs \<and> P (xs ! i) \<and> (\<forall>x \<in> set (take i xs). \<not> P x)"
  by (induction xs arbitrary: i) (auto split: if_splits)

lemma indexWhere_append:
  "\<forall>x \<in> set xs. \<not> P x \<Longrightarrow> P y \<Longrightarrow> indexWhere P (xs @ y # ys) = Some (length xs)"
  by (induction xs) auto

lemma indexWhere_eq_Some_iff:
  "indexWhere P xs = Some i \<longleftrightarrow>
     i < length xs \<and> P (xs ! i) \<and> (\<forall>x \<in> set (take i xs). \<not> P x)"
proof
  assume "i < length xs \<and> P (xs ! i) \<and> (\<forall>x \<in> set (take i xs). \<not> P x)"
  moreover from this have "xs = take i xs @ xs ! i # drop (Suc i) xs"
    by (simp add: id_take_nth_drop)
  ultimately show "indexWhere P xs = Some i"
    by (metis indexWhere_append length_take less_or_eq_imp_le min.absorb2)
qed (rule indexWhere_SomeD)

lemma indexByte_None_iff [simp]: "indexByte s c = None \<longleftrightarrow> c \<notin> set s"
  by (auto simp: indexByte_def)

lemma indexAny_None_iff [simp]: "indexAny s cs = None \<longleftrightarrow> set s \<inter> set cs = {}"
  by (auto simp: indexAny_def)

lemma lastIndexByte_None_iff [simp]: "lastIndexByte s c = None \<longleftrightarrow> c \<notin> set s"
  by (simp add: lastIndexByte_def)

lemma indexByte_None [simp]: "c \<notin> set s \<Longrightarrow> indexByte s c = None"
  by simp

lemma lastIndexByte_None [simp]: "c \<notin> set s \<Longrightarrow> lastIndexByte s c = None"
  by simp

lemma indexByte_append [simp]: "c \<notin> set s \<Longrightarrow> indexByte (s @ c # t) c = Some (length s)"
  by (auto simp: indexByte_def intro!: indexWhere_append)

lemma lastIndexByte_append [simp]: "c \<notin> set t \<Longrightarrow> lastIndexByte (s @ c # t) c = Some (length s)"
  by (simp add: lastIndexByte_def)

lemma lastIndexByte_append_Cons [simp]:
  "c \<notin> set t \<Longrightarrow> lastIndexByte (d # s @ c # t) c = Some (Suc (length s))"
  using lastIndexByte_append [of c t "d # s"] by simp

lemma indexByte_SomeD:
  "indexByte s c = Some i \<Longrightarrow> s = take i s @ c # drop (Suc i) s \<and> c \<notin> set (take i s) \<and> i < length s"
  by (auto simp: indexByte_def dest!: indexWhere_SomeD) (metis id_take_nth_drop)

lemma indexByte_lt [go_len]: "indexByte s c = Some i \<Longrightarrow> i < length s"
  by (blast dest: indexByte_SomeD)

lemma lastIndexByte_split:
  assumes "lastIndexByte s c = Some i"
  obtains a b where "s = a @ c # b" "c \<notin> set b" "length a = i"
proof -
  have "c \<in> set s"
    using assms by (metis lastIndexByte_None_iff option.distinct(1))
  then obtain a b where s: "s = a @ c # b" "c \<notin> set b"
    by (meson split_list_last)
  moreover have "length a = i"
    using assms s by simp
  ultimately show ?thesis using that by blast
qed

lemma indexByte_split:
  assumes "indexByte s c = Some i"
  obtains a b where "s = a @ c # b" "c \<notin> set a" "length a = i"
  using assms indexByte_SomeD [OF assms] that
  by (metis length_take less_or_eq_imp_le min.absorb2)

lemma lastIndexByte_lt [go_len]: "lastIndexByte s c = Some i \<Longrightarrow> i < length s"
  by (erule lastIndexByte_split) auto

section \<open>Cutting, splitting and joining\<close>

text \<open>\<open>strings.Cut(s, sep)\<close> for a one-byte separator: (before, after, found)\<close>

definition strCut :: "string \<Rightarrow> char \<Rightarrow> string \<times> string \<times> bool" where
  "strCut s c = (case indexByte s c of
     None \<Rightarrow> (s, [], False)
   | Some i \<Rightarrow> (take i s, drop (Suc i) s, True))"

lemma strCut_found [simp]: "c \<notin> set s \<Longrightarrow> strCut (s @ c # t) c = (s, t, True)"
  by (simp add: strCut_def)

lemma strCut_not_found [simp]: "c \<notin> set s \<Longrightarrow> strCut s c = (s, [], False)"
  by (simp add: strCut_def)

lemma strCut_TrueD: "strCut s c = (a, b, True) \<Longrightarrow> s = a @ c # b \<and> c \<notin> set a"
  by (auto simp: strCut_def split: option.splits dest: indexByte_SomeD)

lemma strCut_FalseD: "strCut s c = (a, b, False) \<Longrightarrow> a = s \<and> b = [] \<and> c \<notin> set s"
  by (auto simp: strCut_def split: option.splits)

text \<open>\<open>strings.Split(s, sep)\<close> for a one-byte separator\<close>

fun splitOn :: "char \<Rightarrow> string \<Rightarrow> string list" where
  "splitOn c [] = [[]]"
| "splitOn c (x # xs) =
     (if x = c then [] # splitOn c xs
      else case splitOn c xs of [] \<Rightarrow> [[x]] | w # ws \<Rightarrow> (x # w) # ws)"

text \<open>\<open>strings.Join\<close>\<close>

fun joinWith :: "string \<Rightarrow> string list \<Rightarrow> string" where
  "joinWith sep [] = []"
| "joinWith sep [x] = x"
| "joinWith sep (x # y # ys) = x @ sep @ joinWith sep (y # ys)"

lemma splitOn_not_Nil [simp]: "splitOn c s \<noteq> []"
  by (induction s) (auto split: list.splits)

lemma splitOn_no_sep: "c \<notin> set s \<Longrightarrow> splitOn c s = [s]"
  by (induction s) auto

lemma splitOn_append: "c \<notin> set s \<Longrightarrow> splitOn c (s @ c # t) = s # splitOn c t"
  by (induction s) auto

lemma joinWith_Cons: "ys \<noteq> [] \<Longrightarrow> joinWith sep (x # ys) = x @ sep @ joinWith sep ys"
  by (cases ys) auto

lemma joinWith_nil_sep [simp]: "joinWith [] xs = concat xs"
  by (induction xs rule: induct_list012) auto

lemma join_split: "joinWith [c] (splitOn c s) = s"
proof (induction s)
  case (Cons x xs)
  obtain w ws where "splitOn c xs = w # ws"
    using splitOn_not_Nil by (metis neq_Nil_conv)
  with Cons show ?case by (cases ws) auto
qed simp

lemma split_join:
  "xs \<noteq> [] \<Longrightarrow> (\<And>x. x \<in> set xs \<Longrightarrow> c \<notin> set x) \<Longrightarrow> splitOn c (joinWith [c] xs) = xs"
  by (induction xs rule: induct_list012) (auto simp: splitOn_no_sep splitOn_append)

section \<open>White space and case\<close>

text \<open>
  The UTF-8 encodings of the code points for which \<open>unicode.IsSpace\<close> holds. UTF-8 is
  self-synchronising, so a string starts (ends) with a space rune exactly when one of these
  encodings is a prefix (suffix) of it.
\<close>

definition unicodeSpaces :: "string list" where
  "unicodeSpaces =
     [[CHR 0x09], [CHR 0x0A], [CHR 0x0B], [CHR 0x0C], [CHR 0x0D], [CHR 0x20],
      [CHR 0xC2, CHR 0x85], [CHR 0xC2, CHR 0xA0], [CHR 0xE1, CHR 0x9A, CHR 0x80],
      [CHR 0xE2, CHR 0x80, CHR 0x80], [CHR 0xE2, CHR 0x80, CHR 0x81],
      [CHR 0xE2, CHR 0x80, CHR 0x82], [CHR 0xE2, CHR 0x80, CHR 0x83],
      [CHR 0xE2, CHR 0x80, CHR 0x84], [CHR 0xE2, CHR 0x80, CHR 0x85],
      [CHR 0xE2, CHR 0x80, CHR 0x86], [CHR 0xE2, CHR 0x80, CHR 0x87],
      [CHR 0xE2, CHR 0x80, CHR 0x88], [CHR 0xE2, CHR 0x80, CHR 0x89],
      [CHR 0xE2, CHR 0x80, CHR 0x8A], [CHR 0xE2, CHR 0x80, CHR 0xA8],
      [CHR 0xE2, CHR 0x80, CHR 0xA9], [CHR 0xE2, CHR 0x80, CHR 0xAF],
      [CHR 0xE2, CHR 0x81, CHR 0x9F], [CHR 0xE3, CHR 0x80, CHR 0x80]]"

definition leadingSpace :: "string \<Rightarrow> string option" where
  "leadingSpace s = find (\<lambda>sp. prefix sp s) unicodeSpaces"

definition trailingSpace :: "string \<Rightarrow> string option" where
  "trailingSpace s = find (\<lambda>sp. suffix sp s) unicodeSpaces"

lemma unicodeSpaces_not_Nil: "sp \<in> set unicodeSpaces \<Longrightarrow> sp \<noteq> []"
  by (auto simp: unicodeSpaces_def)

lemma find_SomeD: "find P xs = Some x \<Longrightarrow> x \<in> set xs \<and> P x"
  by (auto simp: find_Some_iff)

lemma leadingSpace_SomeD: "leadingSpace s = Some sp \<Longrightarrow> sp \<noteq> [] \<and> prefix sp s"
  unfolding leadingSpace_def by (blast dest: find_SomeD unicodeSpaces_not_Nil)

lemma trailingSpace_SomeD: "trailingSpace s = Some sp \<Longrightarrow> sp \<noteq> [] \<and> suffix sp s"
  unfolding trailingSpace_def by (blast dest: find_SomeD unicodeSpaces_not_Nil)

lemma leadingSpace_shrinks [go_len]:
  "leadingSpace s = Some sp \<Longrightarrow> length (drop (length sp) s) < length s"
  by (auto dest!: leadingSpace_SomeD simp: prefix_def)

lemma trailingSpace_shrinks [go_len]:
  "trailingSpace s = Some sp \<Longrightarrow> length (take (length s - length sp) s) < length s"
  by (auto dest!: trailingSpace_SomeD simp: suffix_def)

text \<open>\<open>strings.TrimSpace\<close>, one side at a time\<close>

function trimLeftSpace :: "string \<Rightarrow> string" where
  "trimLeftSpace s = (case leadingSpace s of
     None \<Rightarrow> s | Some sp \<Rightarrow> trimLeftSpace (drop (length sp) s))"
  by pat_completeness auto
termination
  by (relation "measure length") (auto simp del: length_drop intro: leadingSpace_shrinks)

function trimRightSpace :: "string \<Rightarrow> string" where
  "trimRightSpace s = (case trailingSpace s of
     None \<Rightarrow> s | Some sp \<Rightarrow> trimRightSpace (take (length s - length sp) s))"
  by pat_completeness auto
termination
  by (relation "measure length") (auto simp del: length_take intro: trailingSpace_shrinks)

declare trimLeftSpace.simps [simp del] trimRightSpace.simps [simp del]

definition trimSpace :: "string \<Rightarrow> string" where
  "trimSpace s = trimRightSpace (trimLeftSpace s)"

text \<open>The test \<open>strings.TrimSpace(s) == ""\<close> of the validators\<close>

abbreviation blank :: "string \<Rightarrow> bool" where
  "blank s \<equiv> trimSpace s = []"

text \<open>
  \<open>strings.ToLower\<close>, used by the modelled code only to compare with ASCII constants. ASCII
  letters are lowered; of the other code points only U+212A (Kelvin sign) and U+0130 (capital
  I with dot above) have an ASCII lower case, \<open>k\<close> and \<open>i\<close>. Every other code point keeps a
  non-ASCII image in Go and is left as it is here, which no comparison with an ASCII constant
  can tell apart.
\<close>

definition lowerByte :: "char \<Rightarrow> char" where
  "lowerByte c = (let n = of_char c :: nat in
     if 65 \<le> n \<and> n \<le> 90 then char_of (n + 32) else c)"

fun toLower :: "string \<Rightarrow> string" where
  "toLower [] = []"
| "toLower (c # s) =
     (if c = CHR 0xE2 \<and> prefix [CHR 0x84, CHR 0xAA] s then CHR ''k'' # toLower (drop 2 s)
      else if c = CHR 0xC4 \<and> prefix [CHR 0xB0] s then CHR ''i'' # toLower (drop 1 s)
      else lowerByte c # toLower s)"

definition isAsciiDigit :: "char \<Rightarrow> bool" where
  "isAsciiDigit c \<longleftrightarrow> 48 \<le> (of_char c :: nat) \<and> (of_char c :: nat) \<le> 57"

section \<open>Decimal numbers\<close>

text \<open>\<open>strconv.Itoa\<close> of a length, and reading the digits back\<close>

definition digitChar :: "nat \<Rightarrow> char" where
  "digitChar d = char_of (48 + d)"

fun itoa :: "nat \<Rightarrow> string" where
  "itoa n = (if n < 10 then [digitChar n] else itoa (n div 10) @ [digitChar (n mod 10)])"

declare itoa.simps [simp del]

definition digitValue :: "char \<Rightarrow> nat" where
  "digitValue c = of_char c - 48"

definition readDigits :: "string \<Rightarrow> nat" where
  "readDigits s = foldl (\<lambda>n c. 10 * n + digitValue c) 0 s"

lemma digitValue_digitChar [simp]: "d < 10 \<Longrightarrow> digitValue (digitChar d) = d"
  by (simp add: digitValue_def digitChar_def)

lemma isAsciiDigit_digitChar [simp]: "d < 10 \<Longrightarrow> isAsciiDigit (digitChar d)"
  by (simp add: isAsciiDigit_def digitChar_def)

lemma readDigits_itoa [simp]: "readDigits (itoa n) = n"
proof (induction n rule: itoa.induct)
  case (1 n)
  then show ?case
    by (cases "n < 10") (simp_all add: itoa.simps [of n] readDigits_def)
qed

lemma itoa_digits: "list_all isAsciiDigit (itoa n)"
proof (induction n rule: itoa.induct)
  case (1 n)
  then show ?case by (cases "n < 10") (simp_all add: itoa.simps [of n])
qed

end
