(* ===== verification/Args.thy ===== *)
theory Args
  imports Go_Prelude
begin

text \<open>
  Command-line classification, \<open>tool/internal/setup/args.go\<close>: every argument of a
  \<open>go build\<close>, \<open>go install\<close> or \<open>go test\<close> command line gets a semantic kind. The two
  scanners are loops over an index into the argument list; the model keeps the index, the
  tokens they consume at a time and, for \<open>go test\<close>, the mutable \<open>testArgState\<close>.

  Shown: the scanners classify every argument exactly once and in order (so they can
  rewrite a command line through the indices), no target is found behind a delimiter or a
  custom test flag, and a value argument always follows the flag that takes it.
\<close>

section \<open>Data\<close>

datatype ArgKind =
    ArgTarget | ArgBuildFlag | ArgBuildFlagValue | ArgTestFlag | ArgTestFlagValue
  | ArgTestDelimiter | ArgTestBinary | ArgFlagTerminator

record ClassifiedArg =
  argIndex :: nat
  argRaw :: string
  argKind :: ArgKind
  argFlagName :: string
  argHasValue :: bool
  argValue :: string

text \<open>The composite literal \<open>ClassifiedArg{Index: i, Raw: raw, Kind: k}\<close>, other fields zero\<close>

definition plainArg :: "nat \<Rightarrow> string \<Rightarrow> ArgKind \<Rightarrow> ClassifiedArg" where
  "plainArg i raw k = \<lparr>argIndex = i, argRaw = raw, argKind = k, argFlagName = [],
     argHasValue = False, argValue = []\<rparr>"

record flagToken =
  normName :: string
  tokHasValue :: bool
  tokValue :: string

record testArgState =
  packageListStarted :: bool
  pkgDiscoveryClosed :: bool
  testArgsFinalized :: bool

section \<open>Flag tables\<close>

definition isBuildFlagWithValue :: "string \<Rightarrow> bool" where
  "isBuildFlagWithValue name \<longleftrightarrow> name \<in> set
     [''-C'', ''-o'', ''-p'', ''-covermode'', ''-coverpkg'', ''-asmflags'', ''-buildmode'',
      ''-buildvcs'', ''-compiler'', ''-gccgoflags'', ''-gcflags'', ''-installsuffix'',
      ''-ldflags'', ''-mod'', ''-modfile'', ''-overlay'', ''-pgo'', ''-pkgdir'', ''-tags'',
      ''-toolexec'']"

definition isBuildBoolFlag :: "string \<Rightarrow> bool" where
  "isBuildBoolFlag name \<longleftrightarrow> name \<in> set
     [''-a'', ''-n'', ''-v'', ''-x'', ''-race'', ''-msan'', ''-asan'', ''-cover'',
      ''-trimpath'', ''-work'', ''-linkshared'', ''-json'']"

definition isTestFlagWithValue :: "string \<Rightarrow> bool" where
  "isTestFlagWithValue name \<longleftrightarrow> name \<in> set
     [''-bench'', ''-benchtime'', ''-blockprofile'', ''-blockprofilerate'', ''-count'',
      ''-coverprofile'', ''-cpu'', ''-cpuprofile'', ''-exec'', ''-fuzz'',
      ''-fuzzminimizetime'', ''-fuzztime'', ''-list'', ''-memprofile'',
      ''-memprofilerate'', ''-mutexprofile'', ''-mutexprofilefraction'', ''-outputdir'',
      ''-parallel'', ''-run'', ''-shuffle'', ''-skip'', ''-timeout'', ''-trace'', ''-vet'']"

definition isTestBoolFlag :: "string \<Rightarrow> bool" where
  "isTestBoolFlag name \<longleftrightarrow> name \<in> set
     [''-artifacts'', ''-benchmem'', ''-c'', ''-failfast'', ''-fullpath'', ''-short'']"

definition isTestAliasFlagWithValue :: "string \<Rightarrow> bool" where
  "isTestAliasFlagWithValue name \<longleftrightarrow> name \<in> set
     [''-test.bench'', ''-test.benchtime'', ''-test.blockprofile'',
      ''-test.blockprofilerate'', ''-test.count'', ''-test.coverprofile'', ''-test.cpu'',
      ''-test.cpuprofile'', ''-test.fuzz'', ''-test.fuzzminimizetime'', ''-test.fuzztime'',
      ''-test.list'', ''-test.memprofile'', ''-test.memprofilerate'',
      ''-test.mutexprofile'', ''-test.mutexprofilefraction'', ''-test.outputdir'',
      ''-test.parallel'', ''-test.run'', ''-test.shuffle'', ''-test.skip'',
      ''-test.timeout'', ''-test.trace'']"

definition isTestAliasBoolFlag :: "string \<Rightarrow> bool" where
  "isTestAliasBoolFlag name \<longleftrightarrow> name \<in> set
     [''-test.artifacts'', ''-test.benchmem'', ''-test.failfast'', ''-test.fullpath'',
      ''-test.short'', ''-test.v'']"

definition isBuildContextFlagWithValue :: "string \<Rightarrow> bool" where
  "isBuildContextFlagWithValue name \<longleftrightarrow> name \<in> set
     [''-C'', ''-overlay'', ''-tags'', ''-mod'', ''-modfile'']"

definition isBuildContextBoolFlag :: "string \<Rightarrow> bool" where
  "isBuildContextBoolFlag name \<longleftrightarrow> name \<in> set
     [''-race'', ''-msan'', ''-cover'', ''-asan'', ''-trimpath'']"


definition flagName :: "string \<Rightarrow> string" where
  "flagName arg = (let (name, _, _) = strCut arg (CHR ''='') in
     if hasPrefix name ''--'' then drop 1 name else name)"

definition isTestDelimiter :: "string \<Rightarrow> bool" where
  "isTestDelimiter arg \<longleftrightarrow> arg = ''--'' \<or> arg = ''-args'' \<or> arg = ''--args''"

definition takesValue :: "string \<Rightarrow> bool" where
  "takesValue name \<longleftrightarrow>
     isBuildFlagWithValue name \<or> isTestFlagWithValue name \<or> isTestAliasFlagWithValue name"

section \<open>Classifying one token\<close>

text \<open>
  These functions run at an index inside the argument list. They return the number of
  arguments consumed and the classified items.
\<close>

definition classifyValueFlag ::
    "string list \<Rightarrow> nat \<Rightarrow> flagToken \<Rightarrow> bool \<Rightarrow> nat \<times> ClassifiedArg list" where
  "classifyValueFlag args i tok isTest =
     (let flagKind = (if isTest then ArgTestFlag else ArgBuildFlag);
          valKind = (if isTest then ArgTestFlagValue else ArgBuildFlagValue)
      in if tokHasValue tok
         then (1, [\<lparr>argIndex = i, argRaw = args ! i, argKind = flagKind,
                    argFlagName = normName tok, argHasValue = True, argValue = tokValue tok\<rparr>])
         else
           let res = [\<lparr>argIndex = i, argRaw = args ! i, argKind = flagKind,
                       argFlagName = normName tok, argHasValue = False, argValue = []\<rparr>] @
                     (if i + 1 < length args
                      then [\<lparr>argIndex = i + 1, argRaw = args ! (i + 1), argKind = valKind,
                             argFlagName = normName tok, argHasValue = False,
                             argValue = args ! (i + 1)\<rparr>]
                      else [])
           in (length res, res))"

text \<open>The \<open>flagToken\<close> that both scanners build from an argument\<close>

definition flagTokenOf :: "string \<Rightarrow> flagToken" where
  "flagTokenOf arg = (let (rawName, value, hasValue) = strCut arg (CHR ''='') in
     \<lparr>normName = flagName rawName, tokHasValue = hasValue, tokValue = value\<rparr>)"

definition joinedFlag :: "nat \<Rightarrow> string \<Rightarrow> ArgKind \<Rightarrow> flagToken \<Rightarrow> ClassifiedArg" where
  "joinedFlag i arg k tok = \<lparr>argIndex = i, argRaw = arg, argKind = k,
     argFlagName = normName tok, argHasValue = tokHasValue tok, argValue = tokValue tok\<rparr>"

definition classifyBuildFlagToken :: "string list \<Rightarrow> nat \<Rightarrow> nat \<times> ClassifiedArg list" where
  "classifyBuildFlagToken args i =
     (let arg = args ! i; tok = flagTokenOf arg in
      if isBuildFlagWithValue (normName tok) then classifyValueFlag args i tok False
      else (1, [joinedFlag i arg ArgBuildFlag tok]))"

definition classifyTestFlagToken ::
    "string list \<Rightarrow> nat \<Rightarrow> testArgState \<Rightarrow>
     nat \<times> ClassifiedArg list \<times> bool \<times> string \<times> testArgState" where
  "classifyTestFlagToken args i state =
     (let arg = args ! i; tok = flagTokenOf arg in
      if isBuildFlagWithValue (normName tok) then
        (let (c, it) = classifyValueFlag args i tok False in (c, it, False, [], state))
      else if isBuildBoolFlag (normName tok) then
        (1, [joinedFlag i arg ArgBuildFlag tok], False, [], state)
      else if isTestFlagWithValue (normName tok) \<or> isTestAliasFlagWithValue (normName tok) then
        (let (c, it) = classifyValueFlag args i tok True in (c, it, False, [], state))
      else if isTestBoolFlag (normName tok) \<or> isTestAliasBoolFlag (normName tok) then
        (1, [joinedFlag i arg ArgTestFlag tok], False, [], state)
      else
        (1, [joinedFlag i arg ArgTestBinary tok], \<not> tokHasValue tok, normName tok,
         state\<lparr>pkgDiscoveryClosed := True\<rparr>))"

definition classifyPositionalTestArg ::
    "string \<Rightarrow> nat \<Rightarrow> testArgState \<Rightarrow> bool \<Rightarrow> string \<Rightarrow> ClassifiedArg \<times> testArgState" where
  "classifyPositionalTestArg arg i state wasAfterUnknown unknownName =
     (if pkgDiscoveryClosed state then
        if wasAfterUnknown then
          (\<lparr>argIndex = i, argRaw = arg, argKind = ArgTestBinary, argFlagName = unknownName,
            argHasValue = False, argValue = arg\<rparr>, state)
        else (plainArg i arg ArgTestBinary, state\<lparr>testArgsFinalized := True\<rparr>)
      else (plainArg i arg ArgTarget, state\<lparr>packageListStarted := True\<rparr>))"

section \<open>The scanners\<close>

lemma classifyValueFlag_pos [go_len]: "0 < fst (classifyValueFlag args i tok isTest)"
  by (simp add: classifyValueFlag_def Let_def)

lemma classifyBuildFlagToken_pos [go_len]: "0 < fst (classifyBuildFlagToken args i)"
  by (simp add: classifyBuildFlagToken_def Let_def classifyValueFlag_pos)

lemma classifyTestFlagToken_pos [go_len]: "0 < fst (classifyTestFlagToken args i state)"
  by (auto simp: classifyTestFlagToken_def Let_def case_prod_beta classifyValueFlag_pos)

text \<open>
  One round of the loop of \<open>classifyBuildArgs\<close>: the number of arguments consumed, the items
  appended to \<open>classified\<close>, and the new value of \<open>flagParsingClosed\<close>.
\<close>

definition classifyBuildStep ::
    "string list \<Rightarrow> nat \<Rightarrow> bool \<Rightarrow> nat \<times> ClassifiedArg list \<times> bool" where
  "classifyBuildStep args i flagParsingClosed =
     (let arg = args ! i in
      if flagParsingClosed then (1, [plainArg i arg ArgTarget], True)
      else if arg = ''--'' then (1, [plainArg i arg ArgFlagTerminator], True)
      else if hasPrefix arg ''-'' then
        (let (consumed, items) = classifyBuildFlagToken args i in (consumed, items, False))
      else (1, [plainArg i arg ArgTarget], False))"

lemma classifyBuildStep_pos [go_len]: "0 < fst (classifyBuildStep args i c)"
  by (auto simp: classifyBuildStep_def Let_def case_prod_beta classifyBuildFlagToken_pos)

function (sequential) classifyBuildFrom :: "string list \<Rightarrow> nat \<Rightarrow> bool \<Rightarrow> ClassifiedArg list" where
  "classifyBuildFrom args i flagParsingClosed =
     (if i < length args then
        let r = classifyBuildStep args i flagParsingClosed
        in fst (snd r) @ classifyBuildFrom args (i + fst r) (snd (snd r))
      else [])"
  by pat_completeness auto
termination
  by (relation "measure (\<lambda>(args, i, _). length args - i)")
    (auto intro!: diff_less_mono2 simp: classifyBuildStep_pos)

definition classifyBuildArgs :: "string list \<Rightarrow> ClassifiedArg list" where
  "classifyBuildArgs args = classifyBuildFrom args 0 False"

text \<open>
  One round of the loop of \<open>classifyTestArgs\<close>. Its state is \<open>testState\<close> and the variables
  \<open>afterUnknownFlagWithoutValue\<close> and \<open>unknownFlagName\<close>, which a round saves
  (\<open>wasAfterUnknown\<close>, \<open>lastUnknownName\<close>) and clears before it looks at the argument.
\<close>

type_synonym testLoopState = "testArgState \<times> bool \<times> string"

fun classifyTestStep ::
    "string list \<Rightarrow> nat \<Rightarrow> testLoopState \<Rightarrow> nat \<times> ClassifiedArg list \<times> testLoopState" where
  "classifyTestStep args i (testState, wasAfterUnknown, lastUnknownName) =
     (let arg = args ! i in
      if testArgsFinalized testState then
        (1, [plainArg i arg ArgTestBinary], (testState, False, []))
      else if isTestDelimiter arg then
        (1, [plainArg i arg ArgTestDelimiter],
         (testState\<lparr>testArgsFinalized := True\<rparr>, False, []))
      else if hasPrefix arg ''-'' then
        (let testState = (if packageListStarted testState
                          then testState\<lparr>pkgDiscoveryClosed := True\<rparr> else testState);
             (consumed, items, unjoinedUnknown, name, testState) =
               classifyTestFlagToken args i testState
         in (consumed, items, (testState, unjoinedUnknown, name)))
      else
        (let (item, testState) =
               classifyPositionalTestArg arg i testState wasAfterUnknown lastUnknownName
         in (1, [item], (testState, False, []))))"

lemma classifyTestStep_pos [go_len]: "0 < fst (classifyTestStep args i s)"
  by (cases s) (auto simp: Let_def case_prod_beta classifyTestFlagToken_pos)

function (sequential) classifyTestFrom ::
    "string list \<Rightarrow> nat \<Rightarrow> testLoopState \<Rightarrow> ClassifiedArg list" where
  "classifyTestFrom args i st =
     (if i < length args then
        let r = classifyTestStep args i st
        in fst (snd r) @ classifyTestFrom args (i + fst r) (snd (snd r))
      else [])"
  by pat_completeness auto
termination
  by (relation "measure (\<lambda>(args, i, _). length args - i)")
    (auto intro!: diff_less_mono2 simp: classifyTestStep_pos simp del: classifyTestStep.simps)

declare classifyBuildFrom.simps [simp del] classifyTestFrom.simps [simp del]
  classifyTestStep.simps [simp del]

definition classifyTestArgs :: "string list \<Rightarrow> ClassifiedArg list" where
  "classifyTestArgs args = classifyTestFrom args 0
     (\<lparr>packageListStarted = False, pkgDiscoveryClosed = False, testArgsFinalized = False\<rparr>,
      False, [])"

definition classifyArgs :: "string \<Rightarrow> string list \<Rightarrow> ClassifiedArg list" where
  "classifyArgs subcommand args =
     (if subcommand = ''test'' then classifyTestArgs args else classifyBuildArgs args)"

section \<open>The contract the two scanners share\<close>

text \<open>
  Both loops consume the command line in blocks of one or two arguments, one item per
  argument. A client of a scanner needs only that, so its lemmas are proved once.
\<close>

definition itemsAt :: "string list \<Rightarrow> nat \<Rightarrow> nat \<Rightarrow> ClassifiedArg list \<Rightarrow> bool" where
  "itemsAt args i n items \<longleftrightarrow> 0 < n \<and> i + n \<le> length args \<and>
     map argIndex items = [i..<i + n] \<and> map argRaw items = take n (drop i args)"

text \<open>
  A flag that takes a value and has none joined to it is followed by that value, unless the
  command line ends there.
\<close>

definition needsValue :: "ClassifiedArg \<Rightarrow> bool" where
  "needsValue x \<longleftrightarrow> \<not> argHasValue x \<and>
     (argKind x = ArgBuildFlag \<and> isBuildFlagWithValue (argFlagName x) \<or>
      argKind x = ArgTestFlag \<and>
        (isTestFlagWithValue (argFlagName x) \<or> isTestAliasFlagWithValue (argFlagName x)))"

definition isValueArg :: "ClassifiedArg \<Rightarrow> bool" where
  "isValueArg x \<longleftrightarrow> argKind x = ArgBuildFlagValue \<or> argKind x = ArgTestFlagValue"

definition isValueOf :: "ClassifiedArg \<Rightarrow> ClassifiedArg \<Rightarrow> bool" where
  "isValueOf x y \<longleftrightarrow> argFlagName y = argFlagName x \<and> argValue y = argRaw y \<and>
     argKind y = (if argKind x = ArgTestFlag then ArgTestFlagValue else ArgBuildFlagValue)"

fun valuesPaired :: "ClassifiedArg list \<Rightarrow> bool" where
  "valuesPaired [] = True"
| "valuesPaired [x] = (\<not> isValueArg x)"
| "valuesPaired (x # y # zs) = (\<not> isValueArg x \<and>
     (if needsValue x then isValueOf x y \<and> valuesPaired zs else valuesPaired (y # zs)))"

text \<open>What one round of a scanner yields: a lone item, or a flag and its value\<close>

fun valueBlock :: "ClassifiedArg list \<Rightarrow> bool \<Rightarrow> bool" where
  "valueBlock [x] atEnd \<longleftrightarrow> \<not> isValueArg x \<and> (needsValue x \<longrightarrow> atEnd)"
| "valueBlock [x, y] atEnd \<longleftrightarrow> \<not> isValueArg x \<and> needsValue x \<and> isValueOf x y"
| "valueBlock items atEnd \<longleftrightarrow> False"

lemma valuesPaired_Cons: "\<not> isValueArg x \<Longrightarrow> \<not> needsValue x \<Longrightarrow> valuesPaired (x # xs) = valuesPaired xs"
  by (cases xs) auto

lemma valuesPaired_block:
  "valueBlock items atEnd \<Longrightarrow> (atEnd \<Longrightarrow> rest = []) \<Longrightarrow> valuesPaired rest \<Longrightarrow> valuesPaired (items @ rest)"
  by (cases "(items, atEnd)" rule: valueBlock.cases) (auto simp: valuesPaired_Cons)

locale arg_scanner =
  fixes step :: "string list \<Rightarrow> nat \<Rightarrow> 's \<Rightarrow> nat \<times> ClassifiedArg list \<times> 's"
    and scan :: "string list \<Rightarrow> nat \<Rightarrow> 's \<Rightarrow> ClassifiedArg list"
  assumes step_itemsAt: "i < length args \<Longrightarrow> step args i s = (n, items, s') \<Longrightarrow> itemsAt args i n items"
    and scan_end: "\<not> i < length args \<Longrightarrow> scan args i s = []"
    and scan_step: "i < length args \<Longrightarrow> step args i s = (n, items, s') \<Longrightarrow>
      scan args i s = items @ scan args (i + n) s'"
begin

lemma step_pos: "i < length args \<Longrightarrow> step args i s = (n, items, s') \<Longrightarrow> 0 < n \<and> i + n \<le> length args"
  using step_itemsAt by (auto simp: itemsAt_def)

lemma scan_induct [case_names End Step]:
  assumes "\<And>i s. \<not> i < length args \<Longrightarrow> P i s"
    and "\<And>i s n items s'. i < length args \<Longrightarrow> step args i s = (n, items, s') \<Longrightarrow> P (i + n) s' \<Longrightarrow> P i s"
  shows "P i s"
proof (induction "length args - i" arbitrary: i s rule: less_induct)
  case (less i s)
  obtain n items s' where st: "step args i s = (n, items, s')"
    by (cases "step args i s")
  show ?case
  proof (cases "i < length args")
    case True
    with st step_pos have "length args - (i + n) < length args - i" by fastforce
    then have "P (i + n) s'" by (rule less)
    then show ?thesis by (rule assms(2) [OF True st])
  qed (rule assms(1))
qed

lemma scan_covers:
  "i \<le> length args \<Longrightarrow>
   map argIndex (scan args i s) = [i..<length args] \<and> map argRaw (scan args i s) = drop i args"
proof (induction i s rule: scan_induct [of args])
  case (End i s)
  then show ?case by (simp add: scan_end)
next
  case (Step i s n items s')
  note it = step_itemsAt [OF Step(1,2), unfolded itemsAt_def]
  have "[i..<length args] = [i..<i + n] @ [i + n..<length args]"
    using it by (metis le_add1 le_add_diff_inverse upt_add_eq_append)
  moreover have "drop i args = take n (drop i args) @ drop (i + n) args"
    by (metis add.commute append_take_drop_id drop_drop)
  ultimately show ?case using Step it by (simp add: scan_step [OF Step(1,2)])
qed

lemma scan_all:
  assumes "\<And>i s n items s'. i < length args \<Longrightarrow> step args i s = (n, items, s') \<Longrightarrow> P s \<Longrightarrow>
      P s' \<and> (\<forall>x \<in> set items. Q x)"
    and "P s"
  shows "\<forall>x \<in> set (scan args i s). Q x"
  using assms(2)
proof (induction i s rule: scan_induct [of args])
  case (End i s)
  then show ?case by (simp add: scan_end)
next
  case (Step i s n items s')
  then show ?case using assms(1) [OF Step(1,2)] by (auto simp: scan_step [OF Step(1,2)])
qed

lemma scan_after:
  assumes trigger: "\<And>i s n items s' y. i < length args \<Longrightarrow> step args i s = (n, items, s') \<Longrightarrow>
      y \<in> set items \<Longrightarrow> T y \<Longrightarrow> items = [y] \<and> P s'"
    and keeps: "\<And>i s n items s'. i < length args \<Longrightarrow> step args i s = (n, items, s') \<Longrightarrow> P s \<Longrightarrow>
      P s' \<and> (\<forall>x \<in> set items. Q x)"
    and "scan args i s = xs @ y # ys" and "T y"
  shows "\<forall>z \<in> set ys. Q z"
  using assms(3)
proof (induction i s arbitrary: xs rule: scan_induct [of args])
  case (End i s)
  then show ?case by (simp add: scan_end)
next
  case (Step i s n items s')
  from Step(4) have eq: "items @ scan args (i + n) s' = xs @ y # ys"
    by (simp add: scan_step [OF Step(1,2)])
  show ?case
  proof (cases "y \<in> set items")
    case True
    with trigger [OF Step(1,2)] \<open>T y\<close> have y: "items = [y]" "P s'" by auto
    have after: "\<forall>z \<in> set (scan args (i + n) s'). Q z"
      by (rule scan_all [where P = P, OF keeps \<open>P s'\<close>])
    with eq y show ?thesis by (cases xs) auto
  next
    case False
    with eq obtain xs' where "xs = items @ xs'" "scan args (i + n) s' = xs' @ y # ys"
      by (rule append_eq_append_ConsE)
    then show ?thesis using Step(3) by blast
  qed
qed

lemma scan_paired:
  assumes "\<And>i s n items s'. i < length args \<Longrightarrow> step args i s = (n, items, s') \<Longrightarrow>
      valueBlock items (i + n = length args)"
  shows "valuesPaired (scan args i s)"
proof (induction i s rule: scan_induct [of args])
  case (End i s)
  then show ?case by (simp add: scan_end)
next
  case (Step i s n items s')
  then show ?case
    by (auto simp: scan_step [OF Step(1,2)] scan_end intro!: valuesPaired_block [OF assms])
qed

end

lemma itemsAt_single:
  "itemsAt args i 1 [x] \<longleftrightarrow> i < length args \<and> argIndex x = i \<and> argRaw x = args ! i"
  by (auto simp: itemsAt_def take_Suc hd_drop_conv_nth)

lemma itemsAt_pair:
  "itemsAt args i 2 [x, y] \<longleftrightarrow> i + 1 < length args \<and>
     argIndex x = i \<and> argIndex y = i + 1 \<and> argRaw x = args ! i \<and> argRaw y = args ! (i + 1)"
proof (cases "i + 1 < length args")
  case True
  then have "take 2 (drop i args) = [args ! i, args ! (i + 1)]"
    by (simp add: numeral_2_eq_2 take_Suc_conv_app_nth hd_drop_conv_nth)
  with True show ?thesis by (auto simp: itemsAt_def numeral_2_eq_2 upt_rec)
qed (auto simp: itemsAt_def)

lemmas itemsAt_simps = itemsAt_single itemsAt_single [simplified] itemsAt_pair
  itemsAt_pair [unfolded numeral_2_eq_2]

lemma classifyValueFlag_itemsAt:
  "i < length args \<Longrightarrow> classifyValueFlag args i tok isTest = (n, items) \<Longrightarrow> itemsAt args i n items"
  by (auto simp: classifyValueFlag_def Let_def itemsAt_simps split: if_splits)

lemma classifyBuildStep_itemsAt:
  "i < length args \<Longrightarrow> classifyBuildStep args i s = (n, items, s') \<Longrightarrow> itemsAt args i n items"
  by (auto simp: classifyBuildStep_def classifyBuildFlagToken_def Let_def plainArg_def joinedFlag_def
      itemsAt_simps split: if_splits prod.splits dest: classifyValueFlag_itemsAt)

lemma classifyTestStep_itemsAt:
  "i < length args \<Longrightarrow> classifyTestStep args i s = (n, items, s') \<Longrightarrow> itemsAt args i n items"
  by (cases s) (auto simp: classifyTestStep.simps classifyTestFlagToken_def
      classifyPositionalTestArg_def Let_def plainArg_def joinedFlag_def itemsAt_simps
      split: if_splits prod.splits dest: classifyValueFlag_itemsAt)

interpretation build_scan: arg_scanner classifyBuildStep classifyBuildFrom
  by unfold_locales
    (auto simp: classifyBuildStep_itemsAt classifyBuildFrom.simps Let_def)

interpretation test_scan: arg_scanner classifyTestStep classifyTestFrom
  by unfold_locales
    (auto simp: classifyTestStep_itemsAt classifyTestFrom.simps Let_def)

section \<open>Facts about the two scanners\<close>

lemmas classified_defs = Let_def plainArg_def joinedFlag_def needsValue_def isValueArg_def isValueOf_def

lemma classifyValueFlag_block:
  assumes "classifyValueFlag args i tok isTest = (n, items)" and "i < length args"
    and "if isTest then isTestFlagWithValue (normName tok) \<or> isTestAliasFlagWithValue (normName tok)
         else isBuildFlagWithValue (normName tok)"
  shows "valueBlock items (i + n = length args)"
  using assms by (auto simp: classifyValueFlag_def classified_defs split: if_splits)

lemma classifyBuildStep_block:
  "i < length args \<Longrightarrow> classifyBuildStep args i s = (n, items, s') \<Longrightarrow>
   valueBlock items (i + n = length args)"
  by (auto simp: classifyBuildStep_def classifyBuildFlagToken_def classified_defs
      split: if_splits prod.splits dest!: classifyValueFlag_block)

lemma classifyTestStep_block:
  "i < length args \<Longrightarrow> classifyTestStep args i s = (n, items, s') \<Longrightarrow>
   valueBlock items (i + n = length args)"
  by (cases s) (auto simp: classifyTestStep.simps classifyTestFlagToken_def
      classifyPositionalTestArg_def classified_defs
      split: if_splits prod.splits dest!: classifyValueFlag_block)

text \<open>The state in which the test scanner finds no more targets\<close>

definition targetsClosed :: "testLoopState \<Rightarrow> bool" where
  "targetsClosed s \<longleftrightarrow> testArgsFinalized (fst s) \<or> pkgDiscoveryClosed (fst s)"

lemma classifyTestStep_closed:
  "classifyTestStep args i s = (n, items, s') \<Longrightarrow> targetsClosed s \<Longrightarrow>
   targetsClosed s' \<and> (\<forall>x \<in> set items. argKind x \<noteq> ArgTarget)"
  by (cases s) (auto simp: classifyTestStep.simps classifyTestFlagToken_def targetsClosed_def
      classifyPositionalTestArg_def classifyValueFlag_def Let_def plainArg_def joinedFlag_def
      split: if_splits prod.splits)

lemma classifyTestStep_binary:
  "classifyTestStep args i s = (n, items, s') \<Longrightarrow> y \<in> set items \<Longrightarrow> argKind y = ArgTestBinary \<Longrightarrow>
   items = [y] \<and> targetsClosed s'"
  by (cases s) (auto simp: classifyTestStep.simps classifyTestFlagToken_def targetsClosed_def
      classifyPositionalTestArg_def classifyValueFlag_def Let_def plainArg_def joinedFlag_def
      split: if_splits prod.splits)

lemma classifyTestStep_delimiter:
  "classifyTestStep args i s = (n, items, s') \<Longrightarrow> y \<in> set items \<Longrightarrow> argKind y = ArgTestDelimiter \<Longrightarrow>
   items = [y] \<and> testArgsFinalized (fst s')"
  by (cases s) (auto simp: classifyTestStep.simps classifyTestFlagToken_def
      classifyPositionalTestArg_def classifyValueFlag_def Let_def plainArg_def joinedFlag_def
      split: if_splits prod.splits)

lemma classifyTestStep_final:
  "classifyTestStep args i s = (n, items, s') \<Longrightarrow> testArgsFinalized (fst s) \<Longrightarrow>
   testArgsFinalized (fst s') \<and> (\<forall>x \<in> set items. argKind x = ArgTestBinary)"
  by (cases s) (auto simp: classifyTestStep.simps Let_def plainArg_def)

lemma classifyBuildStep_terminator:
  "classifyBuildStep args i s = (n, items, s') \<Longrightarrow> y \<in> set items \<Longrightarrow> argKind y = ArgFlagTerminator \<Longrightarrow>
   items = [y] \<and> s'"
  by (auto simp: classifyBuildStep_def classifyBuildFlagToken_def classifyValueFlag_def Let_def
      plainArg_def joinedFlag_def split: if_splits prod.splits)

lemma classifyBuildStep_closed:
  "classifyBuildStep args i s = (n, items, s') \<Longrightarrow> s \<Longrightarrow> s' \<and> (\<forall>x \<in> set items. argKind x = ArgTarget)"
  by (auto simp: classifyBuildStep_def Let_def plainArg_def)

section \<open>Properties\<close>

text \<open>
  The classification covers the command line. For every subcommand and every argument
  list, the raw texts of the classified arguments are the arguments themselves, in order, and
  their indices are \<open>0\<close> to \<open>len(args)-1\<close>: no token is lost, invented, moved or read twice, so
  a rewrite through \<open>Index\<close> changes exactly the token it looked at.
\<close>

theorem classifyArgs_covers:
  "map argRaw (classifyArgs subcommand args) = args \<and>
   map argIndex (classifyArgs subcommand args) = [0..<length args]"
  using build_scan.scan_covers [of 0 args] test_scan.scan_covers [of 0 args]
  by (auto simp: classifyArgs_def classifyBuildArgs_def classifyTestArgs_def)

text \<open>
  A flag that takes a value and has none joined with \<open>=\<close> is always followed by the
  argument that is its value, classified as such under the same flag name, unless the command
  line ends at the flag; and a value argument occurs nowhere else.
\<close>

theorem classifyArgs_valuesPaired: "valuesPaired (classifyArgs subcommand args)"
  by (simp add: classifyArgs_def classifyBuildArgs_def classifyTestArgs_def
      build_scan.scan_paired test_scan.scan_paired classifyBuildStep_block classifyTestStep_block)

text \<open>
  In \<open>go build\<close> and \<open>go install\<close>, every argument behind the terminator \<open>--\<close> is a target,
  even one that looks like a flag.
\<close>

theorem classifyBuildArgs_after_terminator:
  assumes "classifyBuildArgs args = xs @ y # ys" and "argKind y = ArgFlagTerminator"
  shows "\<forall>z \<in> set ys. argKind z = ArgTarget"
  by (rule build_scan.scan_after [where P = "\<lambda>s. s" and T = "\<lambda>y. argKind y = ArgFlagTerminator"])
    (use assms in \<open>auto simp: classifyBuildArgs_def dest: classifyBuildStep_terminator classifyBuildStep_closed\<close>)

theorem classifyBuildArgs_after_terminator_witness:
  "classifyBuildArgs [''-v'', ''--'', ''-x''] =
     [joinedFlag 0 ''-v'' ArgBuildFlag (flagTokenOf ''-v'')] @
     plainArg 1 ''--'' ArgFlagTerminator # [plainArg 2 ''-x'' ArgTarget] \<and>
   argKind (plainArg 2 ''-x'' ArgTarget) = ArgTarget"
proof
  show eq: "classifyBuildArgs [''-v'', ''--'', ''-x''] =
     [joinedFlag 0 ''-v'' ArgBuildFlag (flagTokenOf ''-v'')] @
     plainArg 1 ''--'' ArgFlagTerminator # [plainArg 2 ''-x'' ArgTarget]"
    by code_simp
  show "argKind (plainArg 2 ''-x'' ArgTarget) = ArgTarget"
    using classifyBuildArgs_after_terminator [OF eq] by (simp add: plainArg_def)
qed

text \<open>
  In \<open>go test\<close>, once an argument belongs to the test binary (a custom flag, its value, a
  late positional) no later argument is taken for a package, and behind an explicit delimiter
  every argument belongs to the test binary.
\<close>

theorem classifyTestArgs_tail:
  assumes "classifyTestArgs args = xs @ y # ys"
  shows "(argKind y = ArgTestBinary \<longrightarrow> (\<forall>z \<in> set ys. argKind z \<noteq> ArgTarget)) \<and>
         (argKind y = ArgTestDelimiter \<longrightarrow> (\<forall>z \<in> set ys. argKind z = ArgTestBinary))"
proof (intro conjI impI)
  assume "argKind y = ArgTestBinary"
  then show "\<forall>z \<in> set ys. argKind z \<noteq> ArgTarget"
    by (intro test_scan.scan_after [where P = targetsClosed and T = "\<lambda>y. argKind y = ArgTestBinary"
        , OF _ _ assms [unfolded classifyTestArgs_def]])
      (auto dest: classifyTestStep_binary classifyTestStep_closed)
next
  assume "argKind y = ArgTestDelimiter"
  then show "\<forall>z \<in> set ys. argKind z = ArgTestBinary"
    by (intro test_scan.scan_after [where P = "\<lambda>s. testArgsFinalized (fst s)"
        and T = "\<lambda>y. argKind y = ArgTestDelimiter", OF _ _ assms [unfolded classifyTestArgs_def]])
      (auto dest: classifyTestStep_delimiter classifyTestStep_final)
qed

theorem classifyTestArgs_tail_witness:
  "classifyTestArgs [''./p'', ''--'', ''-run''] =
     [plainArg 0 ''./p'' ArgTarget] @ plainArg 1 ''--'' ArgTestDelimiter #
     [plainArg 2 ''-run'' ArgTestBinary] \<and>
   argKind (plainArg 2 ''-run'' ArgTestBinary) = ArgTestBinary"
proof
  show eq: "classifyTestArgs [''./p'', ''--'', ''-run''] =
     [plainArg 0 ''./p'' ArgTarget] @ plainArg 1 ''--'' ArgTestDelimiter #
     [plainArg 2 ''-run'' ArgTestBinary]"
    by code_simp
  show "argKind (plainArg 2 ''-run'' ArgTestBinary) = ArgTestBinary"
    using classifyTestArgs_tail [OF eq] by (simp add: plainArg_def)
qed

end
