(* ===== verification/Codec.thy ===== *)
theory Codec
  imports Go_Prelude
begin

text \<open>
  The contracts of the program's textual formats. A writer and a reader form a
  \<open>text_codec\<close> when reading back what was written yields the value; the reader of a
  \<open>prefix_codec\<close> also returns the unread rest, so encodings can be put one behind the other
  without separators. The clients (rule identities, \<open>GOFLAGS\<close> values, importcfg files) use the
  consequences proved here once: an encoding determines its value.
\<close>

locale text_codec =
  fixes valid :: "'a \<Rightarrow> bool"
    and enc :: "'a \<Rightarrow> string"
    and dec :: "string \<Rightarrow> 'a option"
  assumes dec_enc: "valid x \<Longrightarrow> dec (enc x) = Some x"
begin

lemma enc_inject: "valid x \<Longrightarrow> valid y \<Longrightarrow> enc x = enc y \<longleftrightarrow> x = y"
  by (metis dec_enc option.inject)

lemma dec_enc_again: "valid x \<Longrightarrow> map_option enc (dec (enc x)) = Some (enc x)"
  by (simp add: dec_enc)

end

locale prefix_codec =
  fixes valid :: "'a \<Rightarrow> bool"
    and enc :: "'a \<Rightarrow> string"
    and dec :: "string \<Rightarrow> ('a \<times> string) option"
  assumes dec_enc_rest: "valid x \<Longrightarrow> dec (enc x @ rest) = Some (x, rest)"
begin

lemma enc_append_inject:
  "valid x \<Longrightarrow> valid y \<Longrightarrow> enc x @ r = enc y @ s \<longleftrightarrow> x = y \<and> r = s"
  by (metis dec_enc_rest option.inject prod.inject)

lemma concat_enc_append_inject:
  "list_all valid xs \<Longrightarrow> list_all valid ys \<Longrightarrow> length xs = length ys \<Longrightarrow>
   concat (map enc xs) @ r = concat (map enc ys) @ s \<longleftrightarrow> xs = ys \<and> r = s"
  by (induction xs ys rule: list_induct2') (auto simp: enc_append_inject)

end

text \<open>A prefix codec is a codec: read, and accept when nothing is left.\<close>

definition readAll :: "(string \<Rightarrow> ('a \<times> string) option) \<Rightarrow> string \<Rightarrow> 'a option" where
  "readAll dec s = (case dec s of Some (x, []) \<Rightarrow> Some x | _ \<Rightarrow> None)"

sublocale prefix_codec \<subseteq> whole: text_codec valid enc "readAll dec"
proof
  fix x
  assume "valid x"
  then show "readAll dec (enc x) = Some x"
    using dec_enc_rest [of x "[]"] by (simp add: readAll_def)
qed

end
