(* ===== verification/Goflags.thy ===== *)
theory Goflags
  imports Codec
begin

text \<open>
  Tool command lines and \<open>GOFLAGS\<close> values, \<open>tool/util/go.go\<close>: recognising the compile, link
  and cgo commands of a build plan, splitting logged command lines, and reading and writing
  the quoted tokens of a \<open>GOFLAGS\<close> value. \<open>isWindows\<close> is a parameter: the code asks the
  runtime on which system it runs.

  Shown: quoting and splitting are inverse, stripping \<open>-toolexec\<close> keeps every other token
  verbatim, and the \<open>-toolexec\<close> flag otelc passes reads back as the executable and its
  argument.
\<close>

section \<open>Recognising tool commands\<close>

definition isCompileTool :: "string \<Rightarrow> bool" where
  "isCompileTool toolPath \<longleftrightarrow> hasSuffix toolPath ''/compile'' \<or> hasSuffix toolPath ''compile.exe''"

definition isLinkTool :: "string \<Rightarrow> bool" where
  "isLinkTool toolPath \<longleftrightarrow> hasSuffix toolPath ''/link'' \<or> hasSuffix toolPath ''link.exe''"

fun hasFlag :: "string list \<Rightarrow> string \<Rightarrow> bool" where
  "hasFlag [] flag = False"
| "hasFlag (arg # args) flag =
     (if arg = flag \<or> hasPrefix arg (flag @ ''='') then True else hasFlag args flag)"

definition isCompileCommandWithArgs :: "string list \<Rightarrow> bool" where
  "isCompileCommandWithArgs args =
     (case args of
        [] \<Rightarrow> False
      | tool # _ \<Rightarrow>
          if \<not> isCompileTool tool then False
          else if \<not> list_all (hasFlag args) [''-o'', ''-p'', ''-buildid''] then False
          else if hasFlag args ''-pgoprofile'' then False
          else True)"

definition isLinkCommandWithArgs :: "string list \<Rightarrow> bool" where
  "isLinkCommandWithArgs args =
     (case args of
        [] \<Rightarrow> False
      | tool # _ \<Rightarrow>
          if \<not> isLinkTool tool then False
          else if \<not> list_all (hasFlag args) [''-o'', ''-buildid'', ''-importcfg''] then False
          else True)"

definition isCgoCommand :: "string \<Rightarrow> bool" where
  "isCgoCommand line \<longleftrightarrow> contains line ''cgo'' \<and> contains line ''-objdir'' \<and>
     contains line ''-importpath'' \<and> \<not> contains line ''-dynimport''"

text \<open>The value of a flag, separate or joined; \<open>None\<close>-free as in the code, which returns \<open>""\<close>\<close>

fun findFlagValue :: "string list \<Rightarrow> string \<Rightarrow> string" where
  "findFlagValue [] flag = []"
| "findFlagValue (v # rest) flag =
     (if v = flag then (case rest of [] \<Rightarrow> [] | w # _ \<Rightarrow> w)
      else case cutPrefix v (flag @ ''='') of
             Some suf \<Rightarrow> suf
           | None \<Rightarrow> findFlagValue rest flag)"

definition isGoFile :: "string \<Rightarrow> bool" where
  "isGoFile path \<longleftrightarrow> hasSuffix (toLower path) ''.go''"

section \<open>Splitting a logged command line\<close>

text \<open>
  \<open>SplitCompileCmds\<close> scans the bytes with two variables, \<open>inQuotes\<close> and the argument
  collected so far; the argument is kept in order.
\<close>

fun splitCompileLoop :: "string \<Rightarrow> bool \<Rightarrow> string \<Rightarrow> string list" where
  "splitCompileLoop [] inQuotes arg = (if arg \<noteq> [] then [arg] else [])"
| "splitCompileLoop (c # input) inQuotes arg =
     (if c = CHR 0x22 then splitCompileLoop input (\<not> inQuotes) arg
      else if c = CHR '' '' \<and> \<not> inQuotes then
        (if arg \<noteq> [] then arg # splitCompileLoop input inQuotes []
         else splitCompileLoop input inQuotes [])
      else splitCompileLoop input inQuotes (arg @ [c]))"

definition isWindowsDrivePrefix :: "string \<Rightarrow> bool" where
  "isWindowsDrivePrefix arg =
     (if length arg < 3 then False
      else let firstChar = arg ! 0;
               isLetter = (CHR ''A'' \<le> firstChar \<and> firstChar \<le> CHR ''Z'') \<or>
                          (CHR ''a'' \<le> firstChar \<and> firstChar \<le> CHR ''z'')
           in isLetter \<and> arg ! 1 = CHR '':'' \<and> (arg ! 2 = CHR ''/'' \<or> arg ! 2 = CHR 0x5C))"

text \<open>The search for the end of the executable path, from index \<open>i\<close>; \<open>None\<close> is \<open>mergeEnd == -1\<close>\<close>

fun findExeEnd :: "nat \<Rightarrow> string list \<Rightarrow> nat option" where
  "findExeEnd i [] = None"
| "findExeEnd i (a # as) =
     (if hasPrefix a ''-'' then None
      else if hasSuffix (toLower a) ''.exe'' then Some i
      else findExeEnd (Suc i) as)"

definition mergeWindowsPathsWithSpaces :: "string list \<Rightarrow> string list" where
  "mergeWindowsPathsWithSpaces args =
     (if length args < 2 then args
      else if \<not> isWindowsDrivePrefix (args ! 0) \<or> hasSuffix (toLower (args ! 0)) ''.exe'' then args
      else case findExeEnd 1 (drop 1 args) of
             None \<Rightarrow> args
           | Some mergeEnd \<Rightarrow>
               joinWith '' '' (take (mergeEnd + 1) args) # drop (mergeEnd + 1) args)"

text \<open>\<open>strings.ReplaceAll\<close> of two backslashes by one\<close>

fun unescapeBackslashes :: "string \<Rightarrow> string" where
  "unescapeBackslashes (a # b # s) =
     (if a = CHR 0x5C \<and> b = CHR 0x5C then CHR 0x5C # unescapeBackslashes s
      else a # unescapeBackslashes (b # s))"
| "unescapeBackslashes s = s"

definition splitCompileCmds :: "bool \<Rightarrow> string \<Rightarrow> string list" where
  "splitCompileCmds isWindows input =
     (let args = mergeWindowsPathsWithSpaces (splitCompileLoop input False [])
      in if isWindows then map unescapeBackslashes args else args)"

section \<open>GOFLAGS tokens\<close>

definition isGoflagsSpace :: "char \<Rightarrow> bool" where
  "isGoflagsSpace c \<longleftrightarrow> c \<in> set [CHR '' '', CHR 0x09, CHR 0x0A, CHR 0x0D]"

definition isQuoteByte :: "char \<Rightarrow> bool" where
  "isQuoteByte c \<longleftrightarrow> c = CHR 0x27 \<or> c = CHR 0x22"

text \<open>
  \<open>SplitGoflags\<close>: one round of the outer loop skips white space, then takes a token: from a
  quote to the matching close quote, which is included, or to the next white space.
\<close>

function splitGoflags :: "string \<Rightarrow> string list" where
  "splitGoflags goflags =
     (case dropWhile isGoflagsSpace goflags of
        [] \<Rightarrow> []
      | q # s \<Rightarrow>
          if isQuoteByte q then
            (case dropWhile (\<lambda>c. c \<noteq> q) s of
               [] \<Rightarrow> [q # takeWhile (\<lambda>c. c \<noteq> q) s]
             | _ # s' \<Rightarrow> (q # takeWhile (\<lambda>c. c \<noteq> q) s @ [q]) # splitGoflags s')
          else takeWhile (\<lambda>c. \<not> isGoflagsSpace c) (q # s) #
                 splitGoflags (dropWhile (\<lambda>c. \<not> isGoflagsSpace c) (q # s)))"
  by pat_completeness auto

lemma dropWhile_Cons_length: "dropWhile P xs = y # ys \<Longrightarrow> length ys < length xs"
  by (metis length_Cons length_dropWhile_le less_eq_Suc_le)

termination splitGoflags
proof (relation "measure length", goal_cases)
  case (2 goflags q s q' s')
  then show ?case by (auto dest!: dropWhile_Cons_length)
next
  case (3 goflags q s)
  then have "\<not> isGoflagsSpace q"
    by (metis hd_dropWhile list.distinct(1) list.sel(1))
  then have "length (dropWhile (\<lambda>c. \<not> isGoflagsSpace c) (q # s)) \<le> length s"
    by (simp add: length_dropWhile_le)
  with 3 show ?case by (auto dest!: dropWhile_Cons_length)
qed simp

declare splitGoflags.simps [simp del]

definition unquoteGoflagsToken :: "string \<Rightarrow> string" where
  "unquoteGoflagsToken token =
     (if 2 \<le> length token then
        let q = token ! 0
        in if isQuoteByte q \<and> token ! (length token - 1) = q
           then take (length token - 2) (drop 1 token) else token
      else token)"

definition isToolexecToken :: "string \<Rightarrow> bool" where
  "isToolexecToken token \<longleftrightarrow> (let unquoted = unquoteGoflagsToken token
     in unquoted = ''-toolexec'' \<or> hasPrefix unquoted ''-toolexec='')"

definition stripToolexecFromGoflags :: "string \<Rightarrow> string" where
  "stripToolexecFromGoflags goflags =
     joinWith '' '' (filter (\<lambda>token. \<not> isToolexecToken token) (splitGoflags goflags))"

text \<open>\<open>QuoteGoflagsToken\<close>; \<open>None\<close> is its error\<close>

definition quoteGoflagsToken :: "string \<Rightarrow> string option" where
  "quoteGoflagsToken token =
     (if indexAny token [CHR '' '', CHR 0x09, CHR 0x0A, CHR 0x0D] = None \<and>
         \<not> hasPrefix token [CHR 0x27] \<and> \<not> hasPrefix token [CHR 0x22]
      then Some token
      else if CHR 0x27 \<notin> set token then Some (CHR 0x27 # token @ [CHR 0x27])
      else if CHR 0x22 \<notin> set token then Some (CHR 0x22 # token @ [CHR 0x22])
      else None)"

definition buildToolexecFlag :: "string \<Rightarrow> string option" where
  "buildToolexecFlag execPath =
     (case quoteGoflagsToken execPath of
        None \<Rightarrow> None
      | Some quotedPath \<Rightarrow> Some (''-toolexec='' @ quotedPath @ '' toolexec''))"

section \<open>Splitting what was joined\<close>

text \<open>
  A complete token: quoted with its closing quote and no such quote inside, or free of white
  space. Only the last token of a value can be open, that is, lack its closing quote.
\<close>

fun completeToken :: "string \<Rightarrow> bool" where
  "completeToken [] = False"
| "completeToken (q # s) =
     (if isQuoteByte q then s \<noteq> [] \<and> last s = q \<and> q \<notin> set (butlast s)
      else list_all (\<lambda>c. \<not> isGoflagsSpace c) (q # s))"

fun openToken :: "string \<Rightarrow> bool" where
  "openToken [] = False"
| "openToken (q # s) = (isQuoteByte q \<and> q \<notin> set s)"

fun goflagsTokens :: "string list \<Rightarrow> bool" where
  "goflagsTokens [] = True"
| "goflagsTokens [t] = (completeToken t \<or> openToken t)"
| "goflagsTokens (t # u # ts) = (completeToken t \<and> goflagsTokens (u # ts))"

lemma quote_not_space: "isQuoteByte q \<Longrightarrow> \<not> isGoflagsSpace q"
  by (auto simp: isQuoteByte_def isGoflagsSpace_def)

lemma splitGoflags_Nil [simp]: "splitGoflags [] = []"
  by (simp add: splitGoflags.simps)

lemma splitGoflags_space [simp]: "isGoflagsSpace c \<Longrightarrow> splitGoflags (c # s) = splitGoflags s"
  by (simp add: splitGoflags.simps [of "c # s"] splitGoflags.simps [of s])

lemma splitGoflags_quoted:
  "isQuoteByte q \<Longrightarrow> q \<notin> set b \<Longrightarrow> splitGoflags (q # b @ q # rest) = (q # b @ [q]) # splitGoflags rest"
  by (subst splitGoflags.simps) (auto simp: quote_not_space)

lemma splitGoflags_open: "isQuoteByte q \<Longrightarrow> q \<notin> set b \<Longrightarrow> splitGoflags (q # b) = [q # b]"
  by (subst splitGoflags.simps)
    (auto simp: quote_not_space)

lemma splitGoflags_plain:
  assumes "list_all (\<lambda>c. \<not> isGoflagsSpace c) (x # t)" and "\<not> isQuoteByte x"
  shows "splitGoflags (x # t) = [x # t]"
    and "isGoflagsSpace d \<Longrightarrow> splitGoflags (x # t @ d # rest) = (x # t) # splitGoflags rest"
  using assms
  by (simp_all add: splitGoflags.simps [of "x # t"] splitGoflags.simps [of "x # t @ d # rest"])

lemma splitGoflags_complete:
  assumes "completeToken t"
  shows "splitGoflags t = [t]"
    and "isGoflagsSpace d \<Longrightarrow> splitGoflags (t @ d # rest) = t # splitGoflags rest"
proof -
  obtain q s where t: "t = q # s" using assms by (cases t) auto
  have "splitGoflags t = [t] \<and>
    (isGoflagsSpace d \<longrightarrow> splitGoflags (t @ d # rest) = t # splitGoflags rest)"
  proof (cases "isQuoteByte q")
    case True
    with assms t obtain b where "s = b @ [q]" "q \<notin> set b"
      by (metis append_butlast_last_id completeToken.simps(2))
    with True t splitGoflags_quoted [of q b "[]"] splitGoflags_quoted [of q b "d # rest"]
    show ?thesis by simp
  next
    case False
    with assms t show ?thesis using splitGoflags_plain [of q s] by simp
  qed
  then show "splitGoflags t = [t]"
    and "isGoflagsSpace d \<Longrightarrow> splitGoflags (t @ d # rest) = t # splitGoflags rest"
    by simp_all
qed

lemma splitGoflags_openToken: "openToken t \<Longrightarrow> splitGoflags t = [t]"
  by (cases t) (auto simp: splitGoflags_open)

lemma split_join_goflags: "goflagsTokens ts \<Longrightarrow> splitGoflags (joinWith '' '' ts) = ts"
  by (induction ts rule: goflagsTokens.induct)
    (auto simp: splitGoflags_complete splitGoflags_openToken isGoflagsSpace_def)

lemma goflagsTokens_Cons:
  "goflagsTokens (t # ts) \<longleftrightarrow>
     (if ts = [] then completeToken t \<or> openToken t else completeToken t \<and> goflagsTokens ts)"
  by (cases ts) auto

lemma goflagsTokens_filter: "goflagsTokens ts \<Longrightarrow> goflagsTokens (filter P ts)"
  by (induction ts rule: goflagsTokens.induct) (auto simp: goflagsTokens_Cons)

lemma takeWhile_complete:
  "\<not> isGoflagsSpace q \<Longrightarrow> \<not> isQuoteByte q \<Longrightarrow> completeToken (q # takeWhile (\<lambda>c. \<not> isGoflagsSpace c) s)"
  by (auto simp: list_all_iff dest: set_takeWhileD)

lemma goflagsTokens_split: "goflagsTokens (splitGoflags s)"
proof (induction s rule: splitGoflags.induct)
  case (1 s)
  show ?case
  proof (cases "dropWhile isGoflagsSpace s")
    case Nil
    then show ?thesis by (simp add: splitGoflags.simps [of s] del: dropWhile_eq_Nil_conv)
  next
    case (Cons q r)
    then have q: "\<not> isGoflagsSpace q"
      by (metis hd_dropWhile list.distinct(1) list.sel(1))
    show ?thesis
    proof (cases "isQuoteByte q")
      case True
      show ?thesis
      proof (cases "dropWhile (\<lambda>c. c \<noteq> q) r")
        case Nil
        with Cons True show ?thesis
          by (subst splitGoflags.simps) (auto dest: set_takeWhileD)
      next
        case (Cons q' s')
        have "goflagsTokens (splitGoflags s')"
          using 1(1) [OF \<open>dropWhile isGoflagsSpace s = q # r\<close> True Cons] .
        with Cons True \<open>dropWhile isGoflagsSpace s = q # r\<close> show ?thesis
          by (subst splitGoflags.simps) (auto simp: goflagsTokens_Cons butlast_append dest: set_takeWhileD)
      qed
    next
      case False
      with 1(2) [OF Cons] Cons q takeWhile_complete [OF q False] show ?thesis
        by (subst splitGoflags.simps) (auto simp: goflagsTokens_Cons)
    qed
  qed
qed

text \<open>A \<open>GOFLAGS\<close> value is a codec for its tokens.\<close>

interpretation goflags: text_codec goflagsTokens "joinWith '' ''" "\<lambda>s. Some (splitGoflags s)"
  by unfold_locales (simp add: split_join_goflags)

lemma unquote_quoted [simp]:
  "isQuoteByte q \<Longrightarrow> unquoteGoflagsToken (q # t @ [q]) = t"
  by (simp add: unquoteGoflagsToken_def nth_append)

lemma unquote_plain: "\<not> isQuoteByte c \<Longrightarrow> unquoteGoflagsToken (c # t) = c # t"
  by (simp add: unquoteGoflagsToken_def)

text \<open>What \<open>quoteGoflagsToken\<close> writes is one complete token that unquotes to its input.\<close>

lemma quoteGoflagsToken_complete:
  assumes "token \<noteq> []" and "quoteGoflagsToken token = Some q"
  shows "completeToken q \<and> unquoteGoflagsToken q = token"
proof -
  obtain c t where token: "token = c # t" using assms(1) by (cases token) auto
  consider (plain) "q = token" "set token \<inter> {CHR '' '', CHR 0x09, CHR 0x0A, CHR 0x0D} = {}"
      "\<not> isQuoteByte c"
    | (quoted) b where "q = b # token @ [b]" "isQuoteByte b" "b \<notin> set token"
    using assms(2) token
    by (auto simp: quoteGoflagsToken_def isQuoteByte_def split: if_splits)
  then show ?thesis
  proof cases
    case plain
    then show ?thesis
      using token by (auto simp: isGoflagsSpace_def list_all_iff unquote_plain)
  next
    case quoted
    then show ?thesis by simp
  qed
qed

section \<open>Command lines written and split\<close>

text \<open>An argument as a build plan shows it: in double quotes when it holds a space\<close>

definition showCmdArg :: "string \<Rightarrow> string" where
  "showCmdArg a = (if CHR '' '' \<in> set a then CHR 0x22 # a @ [CHR 0x22] else a)"

definition cmdArg :: "string \<Rightarrow> bool" where
  "cmdArg a \<longleftrightarrow> a \<noteq> [] \<and> CHR 0x22 \<notin> set a"

lemma splitCompileLoop_plain:
  "CHR 0x22 \<notin> set a \<Longrightarrow> CHR '' '' \<notin> set a \<Longrightarrow>
   splitCompileLoop (a @ r) False arg = splitCompileLoop r False (arg @ a)"
  by (induction a arbitrary: arg) auto

lemma splitCompileLoop_inQuotes:
  "CHR 0x22 \<notin> set a \<Longrightarrow> splitCompileLoop (a @ r) True arg = splitCompileLoop r True (arg @ a)"
  by (induction a arbitrary: arg) auto

lemma splitCompileLoop_showCmdArg:
  "cmdArg a \<Longrightarrow> splitCompileLoop (showCmdArg a @ r) False [] = splitCompileLoop r False a"
  using splitCompileLoop_inQuotes [of a "CHR 0x22 # r" "[]"] splitCompileLoop_plain [of a r "[]"]
  by (auto simp: cmdArg_def showCmdArg_def)

lemma splitCompileLoop_join:
  "list_all cmdArg args \<Longrightarrow>
   splitCompileLoop (joinWith '' '' (map showCmdArg args)) False [] = args"
proof (induction args rule: induct_list012)
  case (2 a)
  then show ?case
    using splitCompileLoop_showCmdArg [of a "[]"] by (simp add: cmdArg_def)
next
  case (3 a b args)
  then show ?case by (simp add: splitCompileLoop_showCmdArg) (simp add: cmdArg_def)
qed simp

text \<open>The command lines the Windows repair leaves alone\<close>

definition noWindowsMerge :: "string list \<Rightarrow> bool" where
  "noWindowsMerge args \<longleftrightarrow> (case args of [] \<Rightarrow> True
     | a # _ \<Rightarrow> \<not> isWindowsDrivePrefix a \<or> hasSuffix (toLower a) ''.exe'')"

interpretation compile_cmds: text_codec "\<lambda>args. list_all cmdArg args \<and> noWindowsMerge args"
    "\<lambda>args. joinWith '' '' (map showCmdArg args)" "\<lambda>s. Some (splitCompileCmds False s)"
  by unfold_locales
    (auto simp: splitCompileCmds_def splitCompileLoop_join mergeWindowsPathsWithSpaces_def
      noWindowsMerge_def split: list.splits)

section \<open>Properties\<close>

text \<open>
  C1: \<open>StripToolexecFromGoflags\<close> removes exactly the \<open>-toolexec\<close> entries. Read again as a
  \<open>GOFLAGS\<close> value, its result has the other tokens of the input, verbatim (quotes included)
  and in order, for every input, also a malformed one with an unclosed quote.
\<close>

theorem stripToolexec_tokens:
  "splitGoflags (stripToolexecFromGoflags goflags) =
     filter (\<lambda>token. \<not> isToolexecToken token) (splitGoflags goflags)"
  by (simp add: stripToolexecFromGoflags_def split_join_goflags goflagsTokens_filter
      goflagsTokens_split)

text \<open>
  A quoted token reads back. If \<open>QuoteGoflagsToken\<close> accepts a non-empty token, splitting
  its result gives one field, which unquotes to the token; and it fails exactly on the tokens
  that need quotes and contain both kinds.
\<close>

theorem quoteGoflagsToken_roundtrip:
  assumes "token \<noteq> []"
  shows "(case quoteGoflagsToken token of
            Some q \<Rightarrow> splitGoflags q = [q] \<and> unquoteGoflagsToken q = token
          | None \<Rightarrow> CHR 0x27 \<in> set token \<and> CHR 0x22 \<in> set token \<and>
              (isQuoteByte (hd token) \<or> (\<exists>c \<in> set token. isGoflagsSpace c)))"
proof (cases "quoteGoflagsToken token")
  case None
  then show ?thesis
    using assms by (cases token)
      (auto simp: quoteGoflagsToken_def isQuoteByte_def isGoflagsSpace_def split: if_splits)
next
  case (Some q)
  then show ?thesis
    using quoteGoflagsToken_complete [OF assms Some] by (simp add: splitGoflags_complete)
qed

lemma quoteGoflagsToken_roundtrip_witness:
  "quoteGoflagsToken ''my dir'' = Some (CHR 0x27 # ''my dir'' @ [CHR 0x27]) \<and>
   unquoteGoflagsToken (CHR 0x27 # ''my dir'' @ [CHR 0x27]) = ''my dir''"
proof -
  have q: "quoteGoflagsToken ''my dir'' = Some (CHR 0x27 # ''my dir'' @ [CHR 0x27])" by code_simp
  show ?thesis using quoteGoflagsToken_roundtrip [of "''my dir''"] q by simp
qed

text \<open>The empty token is the exception: written bare, it reads back as no field at all.\<close>

lemma quoteGoflagsToken_empty: "quoteGoflagsToken [] = Some [] \<and> splitGoflags [] = []"
  by (simp add: quoteGoflagsToken_def indexAny_def)

text \<open>
  The \<open>-toolexec\<close> flag otelc hands to the go command names its own executable: the
  flag's value splits into two fields, the executable's path (whatever spaces it holds) and
  the argument \<open>toolexec\<close>.
\<close>

theorem buildToolexecFlag_fields:
  assumes "execPath \<noteq> []" and "buildToolexecFlag execPath = Some f"
  shows "\<exists>v. f = ''-toolexec='' @ v \<and>
    map unquoteGoflagsToken (splitGoflags v) = [execPath, ''toolexec'']"
proof -
  obtain q where q: "quoteGoflagsToken execPath = Some q"
    and f: "f = ''-toolexec='' @ q @ CHR '' '' # ''toolexec''"
    using assms(2) by (auto simp: buildToolexecFlag_def split: option.splits)
  have c: "completeToken q \<and> unquoteGoflagsToken q = execPath"
    by (rule quoteGoflagsToken_complete [OF assms(1) q])
  have t: "completeToken ''toolexec''" "unquoteGoflagsToken ''toolexec'' = ''toolexec''"
    by (simp_all add: isQuoteByte_def isGoflagsSpace_def unquote_plain)
  have "splitGoflags (q @ CHR '' '' # ''toolexec'') = [q, ''toolexec'']"
    using c t splitGoflags_complete(2) [of q "CHR '' ''" "''toolexec''"] splitGoflags_complete(1) [of "''toolexec''"]
    by (simp add: isGoflagsSpace_def)
  with c t f show ?thesis by (intro exI [of _ "q @ CHR '' '' # ''toolexec''"]) simp
qed

lemma buildToolexecFlag_fields_witness:
  "\<exists>f v. buildToolexecFlag ''/a b/otelc'' = Some f \<and> f = ''-toolexec='' @ v \<and>
     map unquoteGoflagsToken (splitGoflags v) = [''/a b/otelc'', ''toolexec'']"
proof -
  have q: "quoteGoflagsToken ''/a b/otelc'' = Some (CHR 0x27 # ''/a b/otelc'' @ [CHR 0x27])" by code_simp
  then obtain f where "buildToolexecFlag ''/a b/otelc'' = Some f"
    by (simp add: buildToolexecFlag_def)
  then show ?thesis using buildToolexecFlag_fields [of "''/a b/otelc''" f] by simp
qed

text \<open>
  \<open>SplitCompileCmds\<close> recovers a command line from its printed form: arguments that hold a
  space are printed in double quotes, the others bare, joined by spaces.
\<close>

theorem splitCompileCmds_roundtrip:
  assumes "list_all cmdArg args" and "noWindowsMerge args"
  shows "splitCompileCmds False (joinWith '' '' (map showCmdArg args)) = args"
  using compile_cmds.dec_enc [of args] assms by simp

lemma splitCompileCmds_roundtrip_witness:
  "splitCompileCmds False (joinWith '' '' (map showCmdArg [''/go/compile'', ''-o'', ''/my dir/x.a''])) =
     [''/go/compile'', ''-o'', ''/my dir/x.a'']"
  by (rule splitCompileCmds_roundtrip) code_simp+

end
