(* ===== verification/Go_Path.thy ===== *)
theory Go_Path
  imports Go_Prelude
begin

text \<open>
  The functions of Go's package \<open>path/filepath\<close> the program uses, as they are on a Unix system:
  the separator is \<open>/\<close> and there are no volume names. A path is cleaned by reading its elements
  from left to right on a stack.
\<close>

section \<open>Clean\<close>

fun cleanStep :: "bool \<Rightarrow> string list \<Rightarrow> string \<Rightarrow> string list" where
  "cleanStep rooted out e =
     (if e = [] \<or> e = ''.'' then out
      else if e = ''..'' then
        (if out \<noteq> [] \<and> last out \<noteq> ''..'' then butlast out
         else if rooted then out
         else out @ [e])
      else out @ [e])"

definition isAbs :: "string \<Rightarrow> bool" where
  "isAbs path \<longleftrightarrow> hasPrefix path ''/''"

definition cleanElems :: "string \<Rightarrow> string list" where
  "cleanElems path = foldl (cleanStep (isAbs path)) [] (splitOn (CHR ''/'') path)"

definition renderPath :: "bool \<Rightarrow> string list \<Rightarrow> string" where
  "renderPath rooted es =
     (if rooted then CHR ''/'' # joinWith ''/'' es
      else if es = [] then ''.'' else joinWith ''/'' es)"

definition pathClean :: "string \<Rightarrow> string" where
  "pathClean path = renderPath (isAbs path) (cleanElems path)"

section \<open>Base, Dir, Ext, Join, Abs and ToSlash\<close>

fun stripTrailingSlashes :: "string \<Rightarrow> string" where
  "stripTrailingSlashes path = rev (dropWhile (\<lambda>c. c = CHR ''/'') (rev path))"

definition afterLastSlash :: "string \<Rightarrow> string" where
  "afterLastSlash path = rev (takeWhile (\<lambda>c. c \<noteq> CHR ''/'') (rev path))"

definition uptoLastSlash :: "string \<Rightarrow> string" where
  "uptoLastSlash path = rev (dropWhile (\<lambda>c. c \<noteq> CHR ''/'') (rev path))"

definition pathBase :: "string \<Rightarrow> string" where
  "pathBase path =
     (if path = [] then ''.''
      else let base = afterLastSlash (stripTrailingSlashes path)
           in if base = [] then ''/'' else base)"

definition pathDir :: "string \<Rightarrow> string" where
  "pathDir path = pathClean (uptoLastSlash path)"

text \<open>The extension: the suffix from the last dot of the last element, empty without a dot\<close>

definition pathExt :: "string \<Rightarrow> string" where
  "pathExt path =
     (let base = afterLastSlash path
      in if CHR ''.'' \<in> set base
         then CHR ''.'' # rev (takeWhile (\<lambda>c. c \<noteq> CHR ''.'') (rev base)) else [])"

definition pathJoin :: "string list \<Rightarrow> string" where
  "pathJoin elems =
     (case dropWhile (\<lambda>e. e = []) elems of
        [] \<Rightarrow> []
      | es \<Rightarrow> pathClean (joinWith ''/'' es))"

text \<open>
  \<open>filepath.Abs\<close>; its argument \<open>wd\<close> is the working directory, \<open>None\<close> when the system cannot
  tell it, which is the only error.
\<close>

definition pathAbs :: "string option \<Rightarrow> string \<Rightarrow> string option" where
  "pathAbs wd path =
     (if isAbs path then Some (pathClean path)
      else case wd of None \<Rightarrow> None | Some d \<Rightarrow> Some (pathJoin [d, path]))"

text \<open>\<open>filepath.ToSlash\<close> replaces backslashes on Windows and is the identity elsewhere.\<close>

definition toSlash :: "bool \<Rightarrow> string \<Rightarrow> string" where
  "toSlash isWindows path =
     (if isWindows then map (\<lambda>c. if c = CHR 0x5C then CHR ''/'' else c) path else path)"

definition normalizePath :: "string \<Rightarrow> string" where
  "normalizePath path = toSlash False (pathClean path)"

section \<open>Clean paths\<close>

text \<open>
  The elements of a clean path: no empty element, no \<open>.\<close>, and \<open>..\<close> only at the front of a
  path that is not rooted.
\<close>

definition plainElem :: "string \<Rightarrow> bool" where
  "plainElem e \<longleftrightarrow> e \<noteq> [] \<and> e \<noteq> ''.'' \<and> CHR ''/'' \<notin> set e"

fun cleanList :: "bool \<Rightarrow> string list \<Rightarrow> bool" where
  "cleanList rooted [] = True"
| "cleanList rooted (e # es) =
     (plainElem e \<and>
      (if e = ''..'' then \<not> rooted \<and> cleanList rooted es
       else ''..'' \<notin> set es \<and> list_all plainElem es))"

lemma cleanList_plain: "cleanList rooted es \<Longrightarrow> list_all plainElem es"
  by (induction es) (auto split: if_splits)

lemma cleanList_no_dotdot: "''..'' \<notin> set es \<Longrightarrow> list_all plainElem es \<Longrightarrow> cleanList rooted es"
  by (cases es) auto

lemma cleanList_append:
  "cleanList rooted (es @ [e]) \<longleftrightarrow>
     cleanList rooted es \<and> plainElem e \<and>
     (e = ''..'' \<longrightarrow> \<not> rooted \<and> set es \<subseteq> {''..''})"
  by (induction es) (auto simp: plainElem_def)

lemma cleanList_last_dotdot:
  "cleanList rooted es \<Longrightarrow> es \<noteq> [] \<Longrightarrow> last es = ''..'' \<Longrightarrow> \<not> rooted \<and> set es \<subseteq> {''..''}"
  by (induction es) (auto split: if_splits dest: last_in_set)

lemma cleanStep_cleanList:
  assumes "cleanList rooted out" and "CHR ''/'' \<notin> set e"
  shows "cleanList rooted (cleanStep rooted out e)"
proof (cases "out = []")
  case True
  with assms show ?thesis by (auto simp: plainElem_def)
next
  case False
  then obtain os x where "out = os @ [x]" by (metis append_butlast_last_id)
  with assms show ?thesis
    using cleanList_append [of rooted out e]
    by (auto simp: cleanList_append plainElem_def)
qed

lemma foldl_cleanStep_cleanList:
  "cleanList rooted out \<Longrightarrow> \<forall>e \<in> set es. CHR ''/'' \<notin> set e \<Longrightarrow>
   cleanList rooted (foldl (cleanStep rooted) out es)"
  by (induction es arbitrary: out) (auto simp del: cleanStep.simps intro!: cleanStep_cleanList)

lemma splitOn_elems: "e \<in> set (splitOn c s) \<Longrightarrow> c \<notin> set e"
  by (induction s arbitrary: e) (auto split: if_splits list.splits)

lemma cleanElems_clean: "cleanList (isAbs path) (cleanElems path)"
  unfolding cleanElems_def
  by (rule foldl_cleanStep_cleanList) (auto dest: splitOn_elems)

lemma foldl_cleanStep_clean:
  "cleanList rooted (out @ es) \<Longrightarrow> foldl (cleanStep rooted) out es = out @ es"
proof (induction es arbitrary: out)
  case (Cons e es)
  have "cleanStep rooted out e = out @ [e]"
  proof (cases "e = ''..''")
    case True
    have "cleanList rooted (out @ [e])"
      using Cons.prems by (induction out) (auto simp: cleanList_no_dotdot split: if_splits)
    with True show ?thesis
      by (cases "out = []") (auto simp: cleanList_append dest: subsetD [OF _ last_in_set])
  next
    case False
    have "plainElem e"
      using cleanList_plain [OF Cons.prems] by simp
    with False show ?thesis by (simp add: plainElem_def)
  qed
  with Cons show ?case by simp
qed simp

lemma joinWith_slash_not_rooted:
  "list_all plainElem es \<Longrightarrow> es \<noteq> [] \<Longrightarrow> \<not> prefix ''/'' (joinWith ''/'' es)"
  by (cases es; cases "hd es"; cases "tl es") (auto simp: plainElem_def prefix_def)

lemma cleanElems_render:
  assumes "cleanList rooted es"
  shows "isAbs (renderPath rooted es) = rooted" and "cleanElems (renderPath rooted es) = es"
proof -
  have plain: "list_all plainElem es" using assms by (rule cleanList_plain)
  show abs: "isAbs (renderPath rooted es) = rooted"
    using joinWith_slash_not_rooted [OF plain]
    by (cases rooted; cases "es = []") (auto simp: renderPath_def isAbs_def)
  have fold: "foldl (cleanStep rooted) [] es = es"
    using foldl_cleanStep_clean [of rooted "[]" es] assms by simp
  have split: "es \<noteq> [] \<Longrightarrow> splitOn (CHR ''/'') (joinWith ''/'' es) = es"
    using plain by (intro split_join) (auto simp: plainElem_def list_all_iff)
  show "cleanElems (renderPath rooted es) = es"
    unfolding cleanElems_def abs using fold split
    by (cases "es = []") (auto simp: renderPath_def)
qed

lemma pathClean_idem [simp]: "pathClean (pathClean path) = pathClean path"
  using cleanElems_render [OF cleanElems_clean [of path]]
  by (simp add: pathClean_def)

lemma isAbs_pathClean [simp]: "isAbs (pathClean path) = isAbs path"
  using cleanElems_render [OF cleanElems_clean [of path]]
  by (simp add: pathClean_def)

lemma cleanElems_pathClean [simp]: "cleanElems (pathClean path) = cleanElems path"
  using cleanElems_render [OF cleanElems_clean [of path]]
  by (simp add: pathClean_def)

text \<open>The elements of a joined path\<close>

lemma splitOn_append_sep: "splitOn c (s @ c # t) = splitOn c s @ splitOn c t"
proof (induction s)
  case (Cons x s)
  obtain w ws where "splitOn c s = w # ws"
    using splitOn_not_Nil by (metis neq_Nil_conv)
  with Cons show ?case by simp
qed simp

lemma isAbs_append: "d \<noteq> [] \<Longrightarrow> isAbs (d @ x) = isAbs d"
  by (cases d) (auto simp: isAbs_def)

lemma cleanElems_append:
  "d \<noteq> [] \<Longrightarrow> cleanElems (d @ CHR ''/'' # x) =
     foldl (cleanStep (isAbs d)) (cleanElems d) (splitOn (CHR ''/'') x)"
  by (simp add: cleanElems_def isAbs_append splitOn_append_sep)

lemma cleanElems_snoc:
  "d \<noteq> [] \<Longrightarrow> plainElem x \<Longrightarrow> x \<noteq> ''..'' \<Longrightarrow> cleanElems (d @ CHR ''/'' # x) = cleanElems d @ [x]"
  by (auto simp: cleanElems_append plainElem_def splitOn_no_sep)

lemma cleanElems_join2:
  "d \<noteq> [] \<Longrightarrow> plainElem x \<Longrightarrow> x \<noteq> ''..'' \<Longrightarrow> cleanElems (pathJoin [d, x]) = cleanElems d @ [x]"
  by (simp add: pathJoin_def cleanElems_snoc)

lemma cleanElems_join3:
  assumes "d \<noteq> []" "plainElem x" "x \<noteq> ''..''" "plainElem y" "y \<noteq> ''..''"
  shows "cleanElems (pathJoin [d, x, y]) = cleanElems d @ [x, y]"
  using cleanElems_snoc [of "d @ CHR ''/'' # x" y] assms
  by (simp add: pathJoin_def cleanElems_snoc)

lemma pathJoin_not_Nil: "d \<noteq> [] \<Longrightarrow> pathJoin (d # ds) \<noteq> []"
  by (auto simp: pathJoin_def pathClean_def renderPath_def)
    (metis cleanElems_clean cleanList_plain joinWith.elims list.pred_inject(2) list.discI
      append_is_Nil_conv plainElem_def)

lemma pathClean_pathJoin: "d \<noteq> [] \<Longrightarrow> pathClean (pathJoin (d # ds)) = pathJoin (d # ds)"
  by (simp add: pathJoin_def)

lemma pathAbs_clean: "pathAbs wd path = Some a \<Longrightarrow> wd \<noteq> Some [] \<Longrightarrow> pathClean a = a"
  by (auto simp: pathAbs_def pathClean_pathJoin split: if_splits option.splits)

lemma pathBase_no_slash: "pathBase path \<noteq> ''/'' \<Longrightarrow> CHR ''/'' \<notin> set (pathBase path)"
  by (auto simp: pathBase_def afterLastSlash_def Let_def split: if_splits dest: set_takeWhileD)

lemma pathBase_not_Nil [simp]: "pathBase path \<noteq> []"
  by (simp add: pathBase_def Let_def)

lemma splitOn_clean_abs:
  assumes "isAbs p" and "pathClean p = p" and "cleanElems p \<noteq> []"
  shows "splitOn (CHR ''/'') p = [] # cleanElems p"
proof -
  have "p = CHR ''/'' # joinWith ''/'' (cleanElems p)"
    using assms by (metis pathClean_def renderPath_def)
  moreover have "splitOn (CHR ''/'') (joinWith ''/'' (cleanElems p)) = cleanElems p"
    using cleanList_plain [OF cleanElems_clean [of p]] assms(3)
    by (intro split_join) (auto simp: plainElem_def list_all_iff)
  ultimately show ?thesis by (metis splitOn.simps(2))
qed

text \<open>A clean path below a directory has the directory's elements at its front.\<close>

lemma cleanElems_below:
  assumes "isAbs (d @ CHR ''/'' # x)" and "pathClean (d @ CHR ''/'' # x) = d @ CHR ''/'' # x"
    and "d \<noteq> []" and "pathClean d = d" and "cleanElems d \<noteq> []"
  shows "prefix (cleanElems d) (cleanElems (d @ CHR ''/'' # x))"
proof -
  let ?p = "d @ CHR ''/'' # x"
  have d: "isAbs d" using assms(1,3) by (simp add: isAbs_append)
  have split: "splitOn (CHR ''/'') ?p = ([] # cleanElems d) @ splitOn (CHR ''/'') x"
    using splitOn_clean_abs [OF d assms(4,5)] by (simp add: splitOn_append_sep)
  have "cleanElems ?p \<noteq> []"
  proof
    assume "cleanElems ?p = []"
    then have "pathClean ?p = ''/''"
      using assms(1) unfolding pathClean_def renderPath_def by simp
    then show False using assms(2,3) by (cases d) auto
  qed
  from splitOn_clean_abs [OF assms(1,2) this] split
  have "cleanElems ?p = cleanElems d @ splitOn (CHR ''/'') x" by simp
  then show ?thesis by (metis prefixI)
qed

lemma isAbs_pathAbs: "pathAbs wd p = Some a \<Longrightarrow> (\<And>d. wd = Some d \<Longrightarrow> isAbs d) \<Longrightarrow> isAbs a"
  by (auto simp: pathAbs_def pathJoin_def isAbs_append split: if_splits option.splits list.splits)
    (auto simp: isAbs_def)

end
