(* ===== verification/Build_Args.thy ===== *)
theory Build_Args
  imports Args Goflags Go_Path "HOL-Library.AList"
begin

text \<open>
  Reading and rewriting the command line of a wrapped go command:
  \<open>tool/internal/setup/vendor.go\<close>, the argument functions of \<open>tool/internal/setup/setup.go\<close> and
  \<open>disableJSONOutput\<close> of \<open>tool/internal/setup/find.go\<close>. The file system is a parameter
  (\<open>pathExists\<close>), as is the working directory \<open>wd\<close>.

  Shown: the rewritings of flags leave the classification of every other argument alone, force
  module mode, and the targets found agree with the classification.
\<close>

section \<open>Module mode, vendor.go\<close>

definition isModFlag :: "string \<Rightarrow> bool" where
  "isModFlag tok \<longleftrightarrow> tok = ''-mod'' \<or> tok = ''--mod''"

definition isModVendorToken :: "string \<Rightarrow> bool" where
  "isModVendorToken tok \<longleftrightarrow> tok = ''-mod=vendor'' \<or> tok = ''--mod=vendor''"

definition isModToken :: "string \<Rightarrow> bool" where
  "isModToken tok \<longleftrightarrow> isModFlag tok \<or> hasPrefix tok ''-mod='' \<or> hasPrefix tok ''--mod=''"

text \<open>The loop of \<open>forceModMod\<close>: the rewritten fields and whether a \<open>-mod\<close> token was seen\<close>

fun forceModLoop :: "string list \<Rightarrow> string list \<times> bool" where
  "forceModLoop [] = ([], False)"
| "forceModLoop (f # fs) =
     (let (out, hasMod) = forceModLoop fs; tok = unquoteGoflagsToken f
      in if isModVendorToken tok then (''-mod=mod'' # out, True)
         else if isModToken tok then (f # out, True)
         else (f # out, hasMod))"

definition forceModMod :: "string \<Rightarrow> string" where
  "forceModMod goflags =
     (let (fs, hasMod) = forceModLoop (splitGoflags goflags)
      in joinWith '' '' (if hasMod then fs else fs @ [''-mod=mod'']))"

text \<open>
  \<open>moduleAndWorkspace\<close> is the answer of \<open>go env GOMOD GOWORK\<close> for the working directory: the
  module root and whether a workspace is active; \<open>None\<close> when the command fails.
\<close>

definition vendoringActive ::
    "(string \<Rightarrow> bool) \<Rightarrow> (string \<times> bool) option \<Rightarrow> bool" where
  "vendoringActive pathExists moduleAndWorkspace =
     (case moduleAndWorkspace of
        None \<Rightarrow> False
      | Some (root, workspace) \<Rightarrow>
          if workspace then False
          else if root = [] then False
          else pathExists (pathJoin [root, ''vendor'', ''modules.txt'']))"

text \<open>
  The loop of \<open>rewriteModVendor\<close> over the classified arguments, with the array \<open>out\<close> written
  by index.
\<close>

definition rewriteModStep :: "ClassifiedArg \<Rightarrow> ClassifiedArg list \<Rightarrow> string list \<Rightarrow> string list" where
  "rewriteModStep a rest out =
     (if argKind a = ArgBuildFlag \<and> argFlagName a = ''-mod'' then
        (if argHasValue a \<and> isModVendorToken (argRaw a) then out[argIndex a := ''-mod=mod'']
         else case rest of
                b # _ \<Rightarrow>
                  if \<not> argHasValue a \<and> argKind b = ArgBuildFlagValue \<and> argRaw b = ''vendor''
                  then out[argIndex b := ''mod''] else out
              | [] \<Rightarrow> out)
      else out)"

fun rewriteModLoop :: "ClassifiedArg list \<Rightarrow> string list \<Rightarrow> string list" where
  "rewriteModLoop [] out = out"
| "rewriteModLoop (a # rest) out = rewriteModLoop rest (rewriteModStep a rest out)"

definition rewriteModVendor :: "string \<Rightarrow> string list \<Rightarrow> string list" where
  "rewriteModVendor subcommand args =
     (let subcommand' = (if subcommand = [] then ''build'' else subcommand)
      in rewriteModLoop (classifyArgs subcommand' args) args)"

section \<open>JSON output, find.go\<close>

fun disableJSONLoop :: "ClassifiedArg list \<Rightarrow> string list \<Rightarrow> string list" where
  "disableJSONLoop [] out = out"
| "disableJSONLoop (a # rest) out =
     disableJSONLoop rest
       (if argKind a = ArgBuildFlag \<and> argFlagName a = ''-json''
        then out[argIndex a := ''-json=false''] else out)"

definition disableJSONOutput :: "string \<Rightarrow> string list \<Rightarrow> string list" where
  "disableJSONOutput subcommand args = disableJSONLoop (classifyArgs subcommand args) args"

section \<open>Targets, setup.go\<close>

definition isFileTarget :: "ClassifiedArg \<Rightarrow> bool" where
  "isFileTarget a \<longleftrightarrow> argKind a = ArgTarget \<and> pathExt (argRaw a) = ''.go''"

text \<open>\<open>None\<close> is the index \<open>-1\<close> of the code.\<close>

definition lastFileTargetIndex :: "string \<Rightarrow> string list \<Rightarrow> nat option" where
  "lastFileTargetIndex subcommand args =
     foldl (\<lambda>last a. if isFileTarget a then Some (argIndex a) else last) None
       (classifyArgs subcommand args)"

datatype targetsError =
    FlagRequiresValue string
  | MixedFilesAndPackages
  | NoAbsoluteDir
  | NoAbsoluteDirFor string
  | FilesInDifferentDirs

definition missingValue :: "ClassifiedArg \<Rightarrow> ClassifiedArg list \<Rightarrow> bool" where
  "missingValue a rest \<longleftrightarrow>
     (argKind a = ArgBuildFlag \<or> argKind a = ArgTestFlag) \<and> \<not> argHasValue a \<and>
     takesValue (argFlagName a) \<and>
     (case rest of [] \<Rightarrow> True
      | b # _ \<Rightarrow> argKind b \<noteq> ArgBuildFlagValue \<and> argKind b \<noteq> ArgTestFlagValue)"

fun splitTargetsLoop ::
    "ClassifiedArg list \<Rightarrow> string list \<Rightarrow> string list \<Rightarrow>
     targetsError + (string list \<times> string list)" where
  "splitTargetsLoop [] pkgs files = Inr (pkgs, files)"
| "splitTargetsLoop (a # rest) pkgs files =
     (if missingValue a rest then Inl (FlagRequiresValue (argRaw a))
      else if argKind a = ArgTarget then
        (if pathExt (argRaw a) = ''.go'' then splitTargetsLoop rest pkgs (files @ [argRaw a])
         else splitTargetsLoop rest (pkgs @ [argRaw a]) files)
      else splitTargetsLoop rest pkgs files)"

fun checkSameDir :: "string option \<Rightarrow> string \<Rightarrow> string list \<Rightarrow> targetsError option" where
  "checkSameDir wd dir [] = None"
| "checkSameDir wd dir (f # fs) =
     (case pathAbs wd (pathDir f) of
        None \<Rightarrow> Some (NoAbsoluteDirFor f)
      | Some fdir \<Rightarrow> if fdir \<noteq> dir then Some FilesInDifferentDirs else checkSameDir wd dir fs)"

definition splitBuildTargets ::
    "string option \<Rightarrow> string \<Rightarrow> string list \<Rightarrow>
     targetsError + (string list \<times> string list)" where
  "splitBuildTargets wd subcommand args =
     (case splitTargetsLoop (classifyArgs subcommand args) [] [] of
        Inl e \<Rightarrow> Inl e
      | Inr (pkgs, files) \<Rightarrow>
          if files \<noteq> [] \<and> pkgs \<noteq> [] then Inl MixedFilesAndPackages
          else case files of
                 [] \<Rightarrow> Inr (pkgs, files)
               | f # fs \<Rightarrow>
                   (case pathAbs wd (pathDir f) of
                      None \<Rightarrow> Inl NoAbsoluteDir
                    | Some dir \<Rightarrow>
                        (case checkSameDir wd dir fs of
                           Some e \<Rightarrow> Inl e
                         | None \<Rightarrow> Inr (pkgs, files))))"

section \<open>Build flags, setup.go\<close>

text \<open>\<open>strconv.ParseBool\<close>\<close>

definition parseBool :: "string \<Rightarrow> bool option" where
  "parseBool s =
     (if s \<in> set [''1'', ''t'', ''T'', ''TRUE'', ''true'', ''True''] then Some True
      else if s \<in> set [''0'', ''f'', ''F'', ''FALSE'', ''false'', ''False''] then Some False
      else None)"

text \<open>
  The loop of \<open>extractBuildFlags\<close>: the flags with values in order and the map
  \<open>boolFlagState\<close>, whose entries are all set.
\<close>

fun extractLoop ::
    "ClassifiedArg list \<Rightarrow> string list \<Rightarrow> (string \<times> bool) list \<Rightarrow>
     string list \<times> (string \<times> bool) list" where
  "extractLoop [] valueFlags boolFlagState = (valueFlags, boolFlagState)"
| "extractLoop (a # rest) valueFlags boolFlagState =
     (if argKind a \<noteq> ArgBuildFlag then extractLoop rest valueFlags boolFlagState
      else if isBuildContextFlagWithValue (argFlagName a) then
        (if argHasValue a then extractLoop rest (valueFlags @ [argRaw a]) boolFlagState
         else case rest of
                b # _ \<Rightarrow>
                  if argKind b = ArgBuildFlagValue
                  then extractLoop rest (valueFlags @ [argRaw a, argRaw b]) boolFlagState
                  else extractLoop rest valueFlags boolFlagState
              | [] \<Rightarrow> extractLoop rest valueFlags boolFlagState)
      else if isBuildContextBoolFlag (argFlagName a) then
        (if argHasValue a then
           (case parseBool (argValue a) of
              Some enabled \<Rightarrow>
                extractLoop rest valueFlags (AList.update (argFlagName a) enabled boolFlagState)
            | None \<Rightarrow> extractLoop rest valueFlags boolFlagState)
         else extractLoop rest valueFlags (AList.update (argFlagName a) True boolFlagState))
      else extractLoop rest valueFlags boolFlagState)"

definition boolFlagText :: "string \<times> bool \<Rightarrow> string" where
  "boolFlagText = (\<lambda>(flag, value). if value then flag else flag @ ''=false'')"

definition extractBuildFlags :: "string \<Rightarrow> string list \<Rightarrow> string list" where
  "extractBuildFlags subcommand args =
     (let subcommand' = (if subcommand = [] then ''build'' else subcommand);
          (valueFlags, boolFlagState) = extractLoop (classifyArgs subcommand' args) [] []
      in valueFlags @ sort (map boolFlagText boolFlagState))"

definition addBuildFlags :: "string list \<Rightarrow> string list \<Rightarrow> string list" where
  "addBuildFlags args flags =
     (let insertAt =
        (case args of
           [] \<Rightarrow> 0
         | a # _ \<Rightarrow>
             if (a = ''-C'' \<or> a = ''--C'') \<and> 1 < length args then 2
             else if hasPrefix a ''-C='' \<or> hasPrefix a ''--C='' then 1
             else 0)
      in take insertAt args @ flags @ drop insertAt args)"

section \<open>The instrumented build's command line, setup.go\<close>

text \<open>
  \<open>toolexecBuildArgs\<close>; \<open>None\<close> is its error. The code slices \<open>args[:1]\<close>, which panics without
  arguments; \<open>GoBuild\<close> has rejected that command line before.
\<close>

definition toolexecBuildArgs ::
    "(string \<Rightarrow> bool) \<Rightarrow> string option \<Rightarrow> string list \<Rightarrow> string \<Rightarrow> bool \<Rightarrow>
     string list option" where
  "toolexecBuildArgs pathExists wd args execPath vendored =
     (case args of
        [] \<Rightarrow> None
      | subcommand # rest \<Rightarrow>
          (case buildToolexecFlag execPath of
             None \<Rightarrow> None
           | Some flag \<Rightarrow>
               let rest1 = (if vendored then rewriteModVendor subcommand rest else rest);
                   rest2 =
                     (case splitBuildTargets wd subcommand rest1 of
                        Inr (_, f # fs) \<Rightarrow>
                          (let runtimePath = pathJoin [pathDir f, ''otelc.runtime.go'']
                           in if pathExists runtimePath then
                                let k = (case lastFileTargetIndex subcommand rest1 of
                                           None \<Rightarrow> 0 | Some i \<Rightarrow> Suc i)
                                in take k rest1 @ runtimePath # drop k rest1
                              else rest1)
                      | _ \<Rightarrow> rest1)
               in Some (''go'' # subcommand # addBuildFlags rest2 [''-work'', flag])))"

definition forwardedBuildFlags :: "string list \<Rightarrow> bool \<Rightarrow> string list" where
  "forwardedBuildFlags args vendored =
     (let subcommand = hd args; buildFlags = extractBuildFlags subcommand (tl args)
      in if vendored then rewriteModVendor subcommand buildFlags else buildFlags)"

datatype goBuildError = NoCommand | UnsupportedCommand string

definition checkGoCommand :: "string list \<Rightarrow> goBuildError option" where
  "checkGoCommand args =
     (case args of
        [] \<Rightarrow> Some NoCommand
      | first # _ \<Rightarrow>
          if first \<in> set [''build'', ''install'', ''test''] then None
          else Some (UnsupportedCommand first))"

section \<open>Edits that keep the classification\<close>

text \<open>
  A flag edit changes the text of build flags and of their values, and nothing else: an edited
  flag keeps its name, and a flag that takes a value is only edited when its value is joined,
  and then keeps one.
\<close>

definition sameFlag :: "string \<Rightarrow> string \<Rightarrow> bool" where
  "sameFlag arg raw \<longleftrightarrow> raw = arg \<or>
     hasPrefix raw ''-'' \<and> \<not> isTestDelimiter raw \<and>
     normName (flagTokenOf raw) = normName (flagTokenOf arg) \<and>
     (isBuildFlagWithValue (normName (flagTokenOf arg)) \<longrightarrow>
        tokHasValue (flagTokenOf arg) \<and> tokHasValue (flagTokenOf raw))"

definition valueItem :: "nat \<Rightarrow> string \<Rightarrow> string \<Rightarrow> ArgKind \<Rightarrow> ClassifiedArg" where
  "valueItem i name v k = \<lparr>argIndex = i, argRaw = v, argKind = k, argFlagName = name,
     argHasValue = False, argValue = v\<rparr>"

definition flagEdit :: "(ClassifiedArg \<Rightarrow> ClassifiedArg) \<Rightarrow> bool" where
  "flagEdit f \<longleftrightarrow>
     (\<forall>x. argKind x \<notin> {ArgBuildFlag, ArgBuildFlagValue} \<longrightarrow> f x = x) \<and>
     (\<forall>i arg. \<exists>raw. sameFlag arg raw \<and>
        f (joinedFlag i arg ArgBuildFlag (flagTokenOf arg)) =
          joinedFlag i raw ArgBuildFlag (flagTokenOf raw)) \<and>
     (\<forall>i name v. \<exists>w. f (valueItem i name v ArgBuildFlagValue) = valueItem i name w ArgBuildFlagValue)"

lemma flagEdit_other:
  "flagEdit f \<Longrightarrow> argKind x \<noteq> ArgBuildFlag \<Longrightarrow> argKind x \<noteq> ArgBuildFlagValue \<Longrightarrow> f x = x"
  by (simp add: flagEdit_def)

lemma flagEdit_flag:
  assumes "flagEdit f"
  obtains raw where "sameFlag arg raw"
    "f (joinedFlag i arg ArgBuildFlag (flagTokenOf arg)) = joinedFlag i raw ArgBuildFlag (flagTokenOf raw)"
  using assms unfolding flagEdit_def by blast

lemma flagEdit_value:
  assumes "flagEdit f"
  obtains w where "f (valueItem i name v ArgBuildFlagValue) = valueItem i name w ArgBuildFlagValue"
  using assms unfolding flagEdit_def by blast

lemma item_sel [simp]:
  "argRaw (joinedFlag i raw k tok) = raw" "argKind (joinedFlag i raw k tok) = k"
  "argIndex (joinedFlag i raw k tok) = i" "argFlagName (joinedFlag i raw k tok) = normName tok"
  "argHasValue (joinedFlag i raw k tok) = tokHasValue tok"
  "argValue (joinedFlag i raw k tok) = tokValue tok"
  "argRaw (valueItem i name v k) = v" "argKind (valueItem i name v k) = k"
  "argIndex (valueItem i name v k) = i" "argFlagName (valueItem i name v k) = name"
  "argHasValue (valueItem i name v k) = False" "argValue (valueItem i name v k) = v"
  "argRaw (plainArg i raw k) = raw" "argKind (plainArg i raw k) = k"
  "argIndex (plainArg i raw k) = i" "argFlagName (plainArg i raw k) = []"
  by (simp_all add: joinedFlag_def valueItem_def plainArg_def)

lemma flagTokenOf_no_value: "\<not> tokHasValue (flagTokenOf arg) \<Longrightarrow> tokValue (flagTokenOf arg) = []"
  by (auto simp: flagTokenOf_def strCut_def split: option.splits)

lemma classifyValueFlag_items:
  "tok = flagTokenOf (args ! i) \<Longrightarrow>
   classifyValueFlag args i tok isTest =
     (let k = (if isTest then ArgTestFlag else ArgBuildFlag);
          vk = (if isTest then ArgTestFlagValue else ArgBuildFlagValue)
      in if tokHasValue tok \<or> length args \<le> i + 1 then (1, [joinedFlag i (args ! i) k tok])
         else (2, [joinedFlag i (args ! i) k tok, valueItem (i + 1) (normName tok) (args ! (i + 1)) vk]))"
  by (auto simp: classifyValueFlag_def Let_def joinedFlag_def valueItem_def flagTokenOf_no_value)

text \<open>The texts \<open>ys\<close> stand at index \<open>i\<close> of the arguments.\<close>

fun textsAt :: "string list \<Rightarrow> nat \<Rightarrow> string list \<Rightarrow> bool" where
  "textsAt args i [] = True"
| "textsAt args i (y # ys) = (args ! i = y \<and> textsAt args (Suc i) ys)"

lemma textsAt_drop: "i \<le> length args \<Longrightarrow> drop i args = ys @ zs \<Longrightarrow> textsAt args i ys"
proof (induction ys arbitrary: i)
  case (Cons y ys)
  then have "i < length args" by (cases "i < length args") auto
  with Cons show ?case
    by (auto simp: Cons_nth_drop_Suc [symmetric])
qed simp

lemma valueFlag_edit:
  assumes "flagEdit f" and "length args' = length args"
    and "tok = flagTokenOf (args ! i)" and "i < length args"
    and "isBuildFlagWithValue (normName tok)"
    and "classifyValueFlag args i tok False = (n, items)"
    and "textsAt args' i (map (argRaw \<circ> f) items)"
  shows "normName (flagTokenOf (args' ! i)) = normName tok \<and> sameFlag (args ! i) (args' ! i) \<and>
    classifyValueFlag args' i (flagTokenOf (args' ! i)) False = (n, map f items)"
proof -
  obtain raw where raw: "sameFlag (args ! i) raw"
    "f (joinedFlag i (args ! i) ArgBuildFlag tok) = joinedFlag i raw ArgBuildFlag (flagTokenOf raw)"
    using flagEdit_flag [OF assms(1)] assms(3) by metis
  obtain w where w: "f (valueItem (i + 1) (normName tok) (args ! (i + 1)) ArgBuildFlagValue) =
      valueItem (i + 1) (normName tok) w ArgBuildFlagValue"
    using flagEdit_value [OF assms(1)] by metis
  show ?thesis
    using assms(2-) raw w
    by (auto simp: classifyValueFlag_items Let_def sameFlag_def split: if_splits)
qed

lemma joinedFlag_edit:
  assumes "flagEdit f" and "length args' = length args" and "i < length args"
    and "textsAt args' i [argRaw (f (joinedFlag i (args ! i) ArgBuildFlag (flagTokenOf (args ! i))))]"
  shows "sameFlag (args ! i) (args' ! i) \<and>
    f (joinedFlag i (args ! i) ArgBuildFlag (flagTokenOf (args ! i))) =
      joinedFlag i (args' ! i) ArgBuildFlag (flagTokenOf (args' ! i))"
proof -
  obtain raw where raw: "sameFlag (args ! i) raw"
    "f (joinedFlag i (args ! i) ArgBuildFlag (flagTokenOf (args ! i))) =
       joinedFlag i raw ArgBuildFlag (flagTokenOf raw)"
    using flagEdit_flag [OF assms(1)] by metis
  with assms(4) show ?thesis by simp
qed

lemma sameFlag_text:
  "sameFlag arg raw \<Longrightarrow> hasPrefix arg ''-'' \<Longrightarrow> \<not> isTestDelimiter arg \<Longrightarrow>
   hasPrefix raw ''-'' \<and> \<not> isTestDelimiter raw \<and> normName (flagTokenOf raw) = normName (flagTokenOf arg)"
  by (auto simp: sameFlag_def)

lemma classifyBuildStep_plain:
  "s \<or> arg = ''--'' \<or> \<not> hasPrefix arg ''-'' \<Longrightarrow> arg = args ! i \<Longrightarrow>
   classifyBuildStep args i s =
     (1, [plainArg i arg (if \<not> s \<and> arg = ''--'' then ArgFlagTerminator else ArgTarget)], s \<or> arg = ''--'')"
  by (auto simp: classifyBuildStep_def Let_def)

lemma classifyBuildStep_flag:
  "hasPrefix arg ''-'' \<Longrightarrow> arg \<noteq> ''--'' \<Longrightarrow> arg = args ! i \<Longrightarrow>
   classifyBuildStep args i False =
     (if isBuildFlagWithValue (normName (flagTokenOf arg))
      then (case classifyValueFlag args i (flagTokenOf arg) False of (n, items) \<Rightarrow> (n, items, False))
      else (1, [joinedFlag i arg ArgBuildFlag (flagTokenOf arg)], False))"
  by (simp add: classifyBuildStep_def classifyBuildFlagToken_def Let_def)

lemma classifyBuildStep_edit:
  assumes f: "flagEdit f" and len: "length args' = length args" "i < length args"
    and st: "classifyBuildStep args i s = (n, items, s')"
    and raws: "textsAt args' i (map (argRaw \<circ> f) items)"
  shows "classifyBuildStep args' i s = (n, map f items, s')"
proof (cases "s \<or> args ! i = ''--'' \<or> \<not> hasPrefix (args ! i) ''-''")
  case True
  from classifyBuildStep_plain [OF True refl] st raws
  show ?thesis
    by (simp add: flagEdit_other [OF f] classifyBuildStep_plain [OF True])
next
  case False
  then have arg: "hasPrefix (args ! i) ''-''" "args ! i \<noteq> ''--''" "\<not> s" by simp_all
  note step = classifyBuildStep_flag [OF arg(1,2) refl]
  have new: "hasPrefix (args' ! i) ''-'' \<and> args' ! i \<noteq> ''--''"
    if "sameFlag (args ! i) (args' ! i)"
    using that arg by (auto simp: sameFlag_def isTestDelimiter_def)
  show ?thesis
  proof (cases "isBuildFlagWithValue (normName (flagTokenOf (args ! i)))")
    case True
    with step st arg have cv: "classifyValueFlag args i (flagTokenOf (args ! i)) False = (n, items)" "\<not> s'"
      by (simp_all split: prod.splits)
    note v = valueFlag_edit [OF f len(1) refl len(2) True cv(1) raws]
    with new have "hasPrefix (args' ! i) ''-''" "args' ! i \<noteq> ''--''" by simp_all
    from classifyBuildStep_flag [OF this refl] v True cv arg show ?thesis by simp
  next
    case False
    with step st arg have it: "n = 1" "items = [joinedFlag i (args ! i) ArgBuildFlag (flagTokenOf (args ! i))]" "\<not> s'"
      by simp_all
    have v: "sameFlag (args ! i) (args' ! i)" "map f items = [joinedFlag i (args' ! i) ArgBuildFlag (flagTokenOf (args' ! i))]"
      using joinedFlag_edit [OF f len] raws it by simp_all
    with new have "hasPrefix (args' ! i) ''-''" "args' ! i \<noteq> ''--''" by simp_all
    from classifyBuildStep_flag [OF this refl] v it False arg show ?thesis
      by (auto simp: sameFlag_def)
  qed
qed

lemma isTestDelimiter_sameFlag:
  "sameFlag arg raw \<Longrightarrow> hasPrefix arg ''-'' \<Longrightarrow> \<not> isTestDelimiter arg \<Longrightarrow>
   hasPrefix raw ''-'' \<and> \<not> isTestDelimiter raw"
  by (auto simp: sameFlag_def)

lemma classifyTestFlagToken_other:
  "tok = flagTokenOf (args ! i) \<Longrightarrow> \<not> isBuildFlagWithValue (normName tok) \<Longrightarrow>
   \<not> isBuildBoolFlag (normName tok) \<Longrightarrow> classifyTestFlagToken args i state = (n, items, r) \<Longrightarrow>
   x \<in> set items \<Longrightarrow> argKind x \<notin> {ArgBuildFlag, ArgBuildFlagValue}"
  by (auto simp: classifyTestFlagToken_def Let_def classifyValueFlag_items split: if_splits)

lemma classifyTestFlagToken_same:
  assumes "length args' = length args"
    and "\<not> isBuildFlagWithValue (normName (flagTokenOf (args ! i)))"
    and "\<not> isBuildBoolFlag (normName (flagTokenOf (args ! i)))"
    and ct: "classifyTestFlagToken args i state = (n, items, r)"
    and raws: "textsAt args' i (map argRaw items)"
  shows "args' ! i = args ! i \<and> classifyTestFlagToken args' i state = (n, items, r)"
proof (cases "isTestFlagWithValue (normName (flagTokenOf (args ! i))) \<or>
    isTestAliasFlagWithValue (normName (flagTokenOf (args ! i)))")
  case True
  with assms(2,3) ct have cv: "classifyValueFlag args i (flagTokenOf (args ! i)) True = (n, items)"
    "r = (False, [], state)"
    by (auto simp: classifyTestFlagToken_def Let_def split: prod.splits)
  then have "args' ! i = args ! i \<and> classifyValueFlag args' i (flagTokenOf (args ! i)) True = (n, items)"
    using raws assms(1) by (auto simp: classifyValueFlag_items Let_def split: if_splits)
  with True assms(2,3) cv(2) show ?thesis
    by (simp add: classifyTestFlagToken_def Let_def)
next
  case False
  with assms show ?thesis
    by (auto simp: classifyTestFlagToken_def Let_def split: if_splits)
qed

lemma classifyTestFlagToken_edit:
  assumes f: "flagEdit f" and len: "length args' = length args" "i < length args"
    and ct: "classifyTestFlagToken args i state = (n, items, r)"
    and raws: "textsAt args' i (map (argRaw \<circ> f) items)"
  shows "(sameFlag (args ! i) (args' ! i)) \<and>
    classifyTestFlagToken args' i state = (n, map f items, r)"
proof -
  define tok where tok: "tok = flagTokenOf (args ! i)"
  consider (val) "isBuildFlagWithValue (normName tok)"
    | (bool) "\<not> isBuildFlagWithValue (normName tok)" "isBuildBoolFlag (normName tok)"
    | (other) "\<not> isBuildFlagWithValue (normName tok)" "\<not> isBuildBoolFlag (normName tok)"
    by blast
  then show ?thesis
  proof cases
    case val
    with ct tok have cv: "classifyValueFlag args i tok False = (n, items)" "r = (False, [], state)"
      by (auto simp: classifyTestFlagToken_def Let_def split: prod.splits)
    from valueFlag_edit [OF f len(1) tok len(2) val cv(1) raws] val cv(2) show ?thesis
      by (simp add: classifyTestFlagToken_def Let_def tok)
  next
    case bool
    with ct tok have it: "n = 1" "items = [joinedFlag i (args ! i) ArgBuildFlag tok]" "r = (False, [], state)"
      by (auto simp: classifyTestFlagToken_def Let_def)
    have "sameFlag (args ! i) (args' ! i)" "map f items = [joinedFlag i (args' ! i) ArgBuildFlag (flagTokenOf (args' ! i))]"
      using joinedFlag_edit [OF f len] raws it tok by simp_all
    with bool it tok show ?thesis
      by (auto simp: classifyTestFlagToken_def Let_def sameFlag_def)
  next
    case other
    have same: "map f items = items"
      using classifyTestFlagToken_other [OF tok other ct] by (auto intro!: map_idI flagEdit_other [OF f])
    then have raws': "textsAt args' i (map argRaw items)"
      using raws by (metis map_map)
    from same classifyTestFlagToken_same [OF len(1) other [unfolded tok] ct raws'] show ?thesis
      by (simp add: sameFlag_def)
  qed
qed

lemma classifyPositional_kind:
  "classifyPositionalTestArg arg i state w u = (item, state') \<Longrightarrow>
   argRaw item = arg \<and> argKind item \<notin> {ArgBuildFlag, ArgBuildFlagValue}"
  by (auto simp: classifyPositionalTestArg_def split: if_splits)

lemma classifyTestStep_edit:
  assumes f: "flagEdit f" and len: "length args' = length args" "i < length args"
    and st: "classifyTestStep args i s = (n, items, s')"
    and raws: "textsAt args' i (map (argRaw \<circ> f) items)"
  shows "classifyTestStep args' i s = (n, map f items, s')"
proof -
  obtain ts w u where s: "s = (ts, w, u)" by (cases s)
  show ?thesis
  proof (cases "testArgsFinalized ts \<or> isTestDelimiter (args ! i) \<or> \<not> hasPrefix (args ! i) ''-''")
    case True
    have "\<exists>item. items = [item] \<and> n = 1 \<and> argRaw item = args ! i \<and> argKind item \<notin> {ArgBuildFlag, ArgBuildFlagValue}"
      using st True unfolding s
      by (auto simp: classifyTestStep.simps Let_def split: if_splits prod.splits dest: classifyPositional_kind)
    then obtain item where item: "items = [item]" "argRaw item = args ! i" "f item = item"
      using flagEdit_other [OF f] by auto
    then have "args' ! i = args ! i" using raws by simp
    with st True item show ?thesis
      unfolding s by (auto simp: classifyTestStep.simps Let_def split: if_splits prod.splits)
  next
    case False
    define ts' where "ts' = (if packageListStarted ts then ts\<lparr>pkgDiscoveryClosed := True\<rparr> else ts)"
    from False st obtain a b c where ct: "classifyTestFlagToken args i ts' = (n, items, a, b, c)"
      and s': "s' = (c, a, b)"
      unfolding s by (auto simp: classifyTestStep.simps Let_def ts'_def split: prod.splits)
    from classifyTestFlagToken_edit [OF f len ct raws]
    have e: "sameFlag (args ! i) (args' ! i)" "classifyTestFlagToken args' i ts' = (n, map f items, a, b, c)"
      by simp_all
    from isTestDelimiter_sameFlag [OF e(1)] False
    have "hasPrefix (args' ! i) ''-''" "\<not> isTestDelimiter (args' ! i)" by simp_all
    with False e(2) show ?thesis
      unfolding s s' by (simp add: classifyTestStep.simps Let_def ts'_def [symmetric])
  qed
qed

text \<open>What holds for one step of a scanner holds for the whole scan.\<close>

context arg_scanner
begin

lemma scan_edit:
  assumes edit: "\<And>i s n items s'. i < length args \<Longrightarrow> step args i s = (n, items, s') \<Longrightarrow>
      textsAt args' i (map (argRaw \<circ> f) items) \<Longrightarrow> step args' i s = (n, map f items, s')"
    and len: "length args' = length args"
  shows "i \<le> length args \<Longrightarrow> drop i args' = map (argRaw \<circ> f) (scan args i s) \<Longrightarrow>
    scan args' i s = map f (scan args i s)"
proof (induction i s rule: scan_induct [of args])
  case (End i s)
  then show ?case using len by (simp add: scan_end)
next
  case (Step i s n items s')
  note sc = scan_step [OF Step(1,2)] and pos = step_pos [OF Step(1,2)]
  have it: "length items = n"
    using step_itemsAt [OF Step(1,2)] by (auto simp: itemsAt_def dest: arg_cong [where f = length])
  have d: "drop i args' = map (argRaw \<circ> f) items @ map (argRaw \<circ> f) (scan args (i + n) s')"
    using Step.prems(2) sc by simp
  have "textsAt args' i (map (argRaw \<circ> f) items)"
    by (rule textsAt_drop [OF _ d]) (use Step.prems len in simp)
  from edit [OF Step(1,2) this] have st: "step args' i s = (n, map f items, s')" .
  have "drop n (drop i args') = map (argRaw \<circ> f) (scan args (i + n) s')"
    unfolding d using it by simp
  then have "scan args' (i + n) s' = map f (scan args (i + n) s')"
    using Step.IH pos by (simp add: add.commute)
  with sc scan_step [OF _ st] Step(1) len show ?case by simp
qed

end

lemma classifyArgs_edit:
  assumes "flagEdit f" and "args' = map (argRaw \<circ> f) (classifyArgs subcommand args)"
  shows "classifyArgs subcommand args' = map f (classifyArgs subcommand args)"
proof -
  have raws: "map argRaw (classifyArgs subcommand args) = args"
    using build_scan.scan_covers [of 0 args] test_scan.scan_covers [of 0 args]
    by (auto simp: classifyArgs_def classifyBuildArgs_def classifyTestArgs_def)
  then have len: "length args' = length args"
    using assms(2) by (metis length_map)
  show ?thesis
    using assms(2) build_scan.scan_edit [OF classifyBuildStep_edit [OF assms(1) len] len, of 0]
      test_scan.scan_edit [OF classifyTestStep_edit [OF assms(1) len] len, of 0]
    by (auto simp: classifyArgs_def classifyBuildArgs_def classifyTestArgs_def)
qed

section \<open>The edits of the program\<close>

text \<open>\<open>selectsVendor\<close>: the argument chooses \<open>-mod=vendor\<close>; \<open>moduleMode\<close> rewrites it.\<close>

definition selectsVendor :: "ClassifiedArg \<Rightarrow> bool" where
  "selectsVendor x \<longleftrightarrow> argFlagName x = ''-mod'' \<and> argValue x = ''vendor'' \<and>
     (argKind x = ArgBuildFlag \<and> argHasValue x \<or> argKind x = ArgBuildFlagValue)"

definition moduleMode :: "ClassifiedArg \<Rightarrow> ClassifiedArg" where
  "moduleMode x =
     (if selectsVendor x then
        (if argKind x = ArgBuildFlag
         then joinedFlag (argIndex x) ''-mod=mod'' ArgBuildFlag (flagTokenOf ''-mod=mod'')
         else valueItem (argIndex x) ''-mod'' ''mod'' ArgBuildFlagValue)
      else x)"

definition jsonOff :: "ClassifiedArg \<Rightarrow> ClassifiedArg" where
  "jsonOff x =
     (if argKind x = ArgBuildFlag \<and> argFlagName x = ''-json''
      then joinedFlag (argIndex x) ''-json=false'' ArgBuildFlag (flagTokenOf ''-json=false'')
      else x)"

lemma flagTokenOf_joined:
  assumes "CHR ''='' \<notin> set name" and "\<not> hasPrefix name ''--''"
  shows "flagTokenOf (name @ CHR ''='' # v) = \<lparr>normName = name, tokHasValue = True, tokValue = v\<rparr>"
  using assms by (simp add: flagTokenOf_def flagName_def)

lemma flagTokenOf_modMod:
  "flagTokenOf ''-mod=mod'' = \<lparr>normName = ''-mod'', tokHasValue = True, tokValue = ''mod''\<rparr>"
  using flagTokenOf_joined [of "''-mod''" "''mod''"] by simp

lemma flagTokenOf_jsonFalse:
  "flagTokenOf ''-json=false'' = \<lparr>normName = ''-json'', tokHasValue = True, tokValue = ''false''\<rparr>"
  using flagTokenOf_joined [of "''-json''" "''false''"] by simp

text \<open>A joined flag's text is its name, with one or two dashes, and its value.\<close>

lemma flagTokenOf_valueD:
  assumes "tokHasValue (flagTokenOf arg)" and "normName (flagTokenOf arg) = CHR ''-'' # name"
  shows "arg = (CHR ''-'' # name) @ CHR ''='' # tokValue (flagTokenOf arg) \<or>
         arg = (''--'' @ name) @ CHR ''='' # tokValue (flagTokenOf arg)"
proof -
  obtain raw v where cut: "strCut arg (CHR ''='') = (raw, v, True)"
    using assms(1) by (auto simp: flagTokenOf_def split: prod.splits)
  then have arg: "arg = raw @ CHR ''='' # v" "CHR ''='' \<notin> set raw"
    by (auto dest: strCut_TrueD)
  then have "flagName raw = CHR ''-'' # name" "v = tokValue (flagTokenOf arg)"
    using cut assms(2) by (simp_all add: flagTokenOf_def)
  then have "raw = CHR ''-'' # name \<or> raw = ''--'' @ name"
    using arg(2) by (auto simp: flagName_def prefix_def split: if_splits)
  with arg(1) \<open>v = tokValue (flagTokenOf arg)\<close> show ?thesis by auto
qed

lemma isModVendorToken_iff:
  assumes "normName (flagTokenOf arg) = ''-mod''"
  shows "tokHasValue (flagTokenOf arg) \<and> isModVendorToken arg \<longleftrightarrow>
    tokHasValue (flagTokenOf arg) \<and> tokValue (flagTokenOf arg) = ''vendor''"
proof -
  have "flagTokenOf ''-mod=vendor'' = \<lparr>normName = ''-mod'', tokHasValue = True, tokValue = ''vendor''\<rparr>"
    using flagTokenOf_joined [of "''-mod''" "''vendor''"] by simp
  moreover have "flagTokenOf ''--mod=vendor'' = \<lparr>normName = ''-mod'', tokHasValue = True, tokValue = ''vendor''\<rparr>"
    using strCut_found [of "CHR ''=''" "''--mod''" "''vendor''"] by (simp add: flagTokenOf_def flagName_def)
  ultimately show ?thesis
    using flagTokenOf_valueD [of arg "''mod''"] assms by (auto simp: isModVendorToken_def)
qed

lemma sameFlagI:
  assumes "raw = CHR ''-'' # r" and "\<not> isTestDelimiter raw"
    and "normName (flagTokenOf raw) = normName (flagTokenOf arg)" and "tokHasValue (flagTokenOf raw)"
    and "isBuildFlagWithValue (normName (flagTokenOf arg)) \<Longrightarrow> tokHasValue (flagTokenOf arg)"
  shows "sameFlag arg raw"
  using assms by (simp add: sameFlag_def)

lemma moduleMode_edit: "flagEdit moduleMode"
proof -
  have flag: "\<exists>raw. sameFlag arg raw \<and>
      moduleMode (joinedFlag i arg ArgBuildFlag (flagTokenOf arg)) = joinedFlag i raw ArgBuildFlag (flagTokenOf raw)" for i arg
  proof (cases "selectsVendor (joinedFlag i arg ArgBuildFlag (flagTokenOf arg))")
    case True
    then have "sameFlag arg ''-mod=mod''"
      by (intro sameFlagI) (auto simp: selectsVendor_def flagTokenOf_modMod isTestDelimiter_def)
    with True show ?thesis by (auto simp: moduleMode_def)
  next
    case False
    then show ?thesis by (auto simp: moduleMode_def sameFlag_def)
  qed
  then show ?thesis
    unfolding flagEdit_def by (auto simp: moduleMode_def selectsVendor_def)
qed

lemma jsonOff_edit: "flagEdit jsonOff"
proof -
  have flag: "\<exists>raw. sameFlag arg raw \<and>
      jsonOff (joinedFlag i arg ArgBuildFlag (flagTokenOf arg)) = joinedFlag i raw ArgBuildFlag (flagTokenOf raw)" for i arg
  proof (cases "normName (flagTokenOf arg) = ''-json''")
    case True
    then have "sameFlag arg ''-json=false''"
      by (intro sameFlagI) (auto simp: flagTokenOf_jsonFalse isTestDelimiter_def isBuildFlagWithValue_def)
    with True show ?thesis by (auto simp: jsonOff_def)
  next
    case False
    then show ?thesis by (auto simp: jsonOff_def sameFlag_def)
  qed
  then show ?thesis
    unfolding flagEdit_def by (auto simp: jsonOff_def)
qed

section \<open>The loops write the edited texts\<close>

text \<open>The shape of the build items of a classification\<close>

definition wellShaped :: "ClassifiedArg \<Rightarrow> bool" where
  "wellShaped x \<longleftrightarrow>
     (argKind x = ArgBuildFlag \<longrightarrow>
        x = joinedFlag (argIndex x) (argRaw x) ArgBuildFlag (flagTokenOf (argRaw x))) \<and>
     (argKind x = ArgBuildFlagValue \<longrightarrow>
        x = valueItem (argIndex x) (argFlagName x) (argRaw x) ArgBuildFlagValue)"

lemma wellShaped_other [simp]:
  "argKind x \<noteq> ArgBuildFlag \<Longrightarrow> argKind x \<noteq> ArgBuildFlagValue \<Longrightarrow> wellShaped x"
  by (simp add: wellShaped_def)

lemma wellShaped_items [simp]:
  "k \<noteq> ArgBuildFlagValue \<Longrightarrow> wellShaped (joinedFlag i arg k (flagTokenOf arg))"
  "k \<noteq> ArgBuildFlag \<Longrightarrow> wellShaped (valueItem i name v k)"
  "k \<noteq> ArgBuildFlag \<Longrightarrow> k \<noteq> ArgBuildFlagValue \<Longrightarrow> wellShaped (plainArg i arg k)"
  by (auto simp: wellShaped_def joinedFlag_def valueItem_def plainArg_def)

lemma classifyValueFlag_shaped:
  "classifyValueFlag args i (flagTokenOf (args ! i)) isTest = (n, items) \<Longrightarrow> x \<in> set items \<Longrightarrow> wellShaped x"
  by (auto simp: classifyValueFlag_items Let_def split: if_splits)

lemma classifyBuildStep_shaped:
  "classifyBuildStep args i s = (n, items, s') \<Longrightarrow> x \<in> set items \<Longrightarrow> wellShaped x"
  by (auto simp: classifyBuildStep_def classifyBuildFlagToken_def Let_def
      split: if_splits prod.splits dest: classifyValueFlag_shaped)

lemma classifyPositional_shaped:
  "classifyPositionalTestArg arg i state w u = (item, state') \<Longrightarrow> wellShaped item"
  by (drule classifyPositional_kind) simp

lemma classifyTestFlagToken_shaped:
  "classifyTestFlagToken args i state = (n, items, r) \<Longrightarrow> x \<in> set items \<Longrightarrow> wellShaped x"
  by (auto simp: classifyTestFlagToken_def Let_def
      split: if_splits prod.splits dest: classifyValueFlag_shaped)

lemma classifyTestStep_shaped:
  assumes "classifyTestStep args i s = (n, items, s')" and "x \<in> set items"
  shows "wellShaped x"
proof -
  obtain ts w u where s: "s = (ts, w, u)" by (cases s)
  consider (fin) "testArgsFinalized ts \<or> isTestDelimiter (args ! i)"
    | (flag) "\<not> testArgsFinalized ts" "\<not> isTestDelimiter (args ! i)" "hasPrefix (args ! i) ''-''"
    | (pos) "\<not> testArgsFinalized ts" "\<not> isTestDelimiter (args ! i)" "\<not> hasPrefix (args ! i) ''-''"
    by blast
  then show ?thesis
  proof cases
    case fin
    with assms show ?thesis
      unfolding s by (auto simp: classifyTestStep.simps Let_def split: if_splits)
  next
    case flag
    with assms show ?thesis
      unfolding s by (auto simp: classifyTestStep.simps Let_def split: prod.splits dest: classifyTestFlagToken_shaped)
  next
    case pos
    with assms show ?thesis
      unfolding s by (auto simp: classifyTestStep.simps Let_def split: prod.splits dest: classifyPositional_shaped)
  qed
qed

lemma build_scan_shaped: "\<forall>x \<in> set (classifyBuildFrom args i s). wellShaped x"
  by (rule build_scan.scan_all [where P = "\<lambda>_. True"]) (blast intro: classifyBuildStep_shaped)+

lemma test_scan_shaped: "\<forall>x \<in> set (classifyTestFrom args i s). wellShaped x"
  by (rule test_scan.scan_all [where P = "\<lambda>_. True"]) (blast intro: classifyTestStep_shaped)+

lemma classifyArgs_shaped: "x \<in> set (classifyArgs subcommand args) \<Longrightarrow> wellShaped x"
  by (cases "subcommand = ''test''")
    (simp_all add: classifyArgs_def classifyBuildArgs_def classifyTestArgs_def
      build_scan_shaped [rule_format] test_scan_shaped [rule_format])

lemma classifyArgs_raws:
  "map argRaw (classifyArgs subcommand args) = args"
  "map argIndex (classifyArgs subcommand args) = [0..<length args]"
  using build_scan.scan_covers [of 0 args] test_scan.scan_covers [of 0 args]
  by (auto simp: classifyArgs_def classifyBuildArgs_def classifyTestArgs_def)

lemma classifyArgs_length [simp]: "length (classifyArgs subcommand args) = length args"
  using arg_cong [OF classifyArgs_raws(1), of length] by simp

lemma classifyArgs_paired: "valuesPaired (classifyArgs subcommand args)"
  by (simp add: classifyArgs_def classifyBuildArgs_def classifyTestArgs_def
      build_scan.scan_paired test_scan.scan_paired classifyBuildStep_block classifyTestStep_block)

lemma classifyArgs_default: "classifyArgs (if s = [] then ''build'' else s) = classifyArgs s"
  by (auto simp: classifyArgs_def)

text \<open>Items with consecutive indices\<close>

fun indexedFrom :: "nat \<Rightarrow> ClassifiedArg list \<Rightarrow> bool" where
  "indexedFrom k [] = True"
| "indexedFrom k (x # xs) = (argIndex x = k \<and> indexedFrom (Suc k) xs)"

lemma indexedFrom_map: "map argIndex cl = [k..<k + length cl] \<Longrightarrow> indexedFrom k cl"
  by (induction cl arbitrary: k) (auto simp: upt_conv_Cons simp del: upt_Suc)

lemma classifyArgs_indexed: "indexedFrom 0 (classifyArgs subcommand args)"
  by (rule indexedFrom_map) (simp add: classifyArgs_raws)

lemma disableJSONLoop_map:
  "indexedFrom (length pre) cl \<Longrightarrow>
   disableJSONLoop cl (pre @ map argRaw cl) = pre @ map (argRaw \<circ> jsonOff) cl"
proof (induction cl arbitrary: pre)
  case (Cons a cl)
  then show ?case
    using Cons.IH [of "pre @ [argRaw (jsonOff a)]"]
    by (auto simp: jsonOff_def list_update_append)
qed simp

lemma disableJSONOutput_map:
  "disableJSONOutput subcommand args = map (argRaw \<circ> jsonOff) (classifyArgs subcommand args)"
  using disableJSONLoop_map [of "[]" "classifyArgs subcommand args"]
  by (simp add: disableJSONOutput_def classifyArgs_raws classifyArgs_indexed)

lemma selectsVendor_flag:
  assumes "wellShaped a" and "argKind a = ArgBuildFlag" and "argFlagName a = ''-mod''"
  shows "selectsVendor a \<longleftrightarrow> argHasValue a \<and> isModVendorToken (argRaw a)"
proof -
  obtain i arg where a: "a = joinedFlag i arg ArgBuildFlag (flagTokenOf arg)"
    using assms(1,2) unfolding wellShaped_def by blast
  with assms(3) isModVendorToken_iff [of arg] show ?thesis
    by (auto simp: selectsVendor_def)
qed

lemma selectsVendor_value:
  assumes "wellShaped b" and "argKind b = ArgBuildFlagValue"
  shows "selectsVendor b \<longleftrightarrow> argFlagName b = ''-mod'' \<and> argRaw b = ''vendor''"
proof -
  obtain i name v where "b = valueItem i name v ArgBuildFlagValue"
    using assms unfolding wellShaped_def by blast
  then show ?thesis by (auto simp: selectsVendor_def)
qed

lemma needsValue_mod: "argKind a = ArgBuildFlag \<Longrightarrow> argFlagName a = ''-mod'' \<Longrightarrow> needsValue a \<longleftrightarrow> \<not> argHasValue a"
  by (simp add: needsValue_def isBuildFlagWithValue_def)

text \<open>One flag without a separate value, and one flag with its value\<close>

lemma rewriteModStep_single:
  assumes "wellShaped a" and "\<not> isValueArg a" and "argIndex a = length pre"
    and "needsValue a \<Longrightarrow> rest = []"
  shows "rewriteModStep a rest (pre @ argRaw a # raws) = pre @ argRaw (moduleMode a) # raws"
proof (cases "argKind a = ArgBuildFlag \<and> argFlagName a = ''-mod''")
  case True
  with assms selectsVendor_flag [OF assms(1)] show ?thesis
    by (cases rest)
      (auto simp: rewriteModStep_def moduleMode_def needsValue_mod list_update_append)
next
  case False
  with assms(2) show ?thesis
    by (auto simp: rewriteModStep_def moduleMode_def selectsVendor_def isValueArg_def)
qed

lemma rewriteModStep_pair:
  assumes "wellShaped a" "wellShaped b" and "\<not> isValueArg a" and "needsValue a" and "isValueOf a b"
    and "argIndex b = Suc (length pre)"
  shows "rewriteModStep b rest (rewriteModStep a (b # rest) (pre @ argRaw a # argRaw b # raws)) =
    pre @ argRaw (moduleMode a) # argRaw (moduleMode b) # raws"
proof -
  have a: "moduleMode a = a"
    using assms(3,4) by (auto simp: moduleMode_def selectsVendor_def needsValue_def isValueArg_def)
  have b: "argKind b \<noteq> ArgBuildFlag" using assms(5) by (simp add: isValueOf_def)
  have kind: "argKind a = ArgBuildFlag \<longleftrightarrow> argKind b = ArgBuildFlagValue"
    using assms(4,5) by (auto simp: isValueOf_def needsValue_def)
  have name: "argFlagName b = argFlagName a" using assms(5) by (simp add: isValueOf_def)
  show ?thesis
  proof (cases "argKind b = ArgBuildFlagValue \<and> argFlagName b = ''-mod'' \<and> argRaw b = ''vendor''")
    case True
    then have "selectsVendor b" using selectsVendor_value [OF assms(2)] by simp
    then have "argRaw (moduleMode b) = ''mod''" using b by (simp add: moduleMode_def)
    with True a b kind name assms show ?thesis
      by (simp add: rewriteModStep_def list_update_append needsValue_mod)
  next
    case False
    then have "moduleMode b = b"
      using selectsVendor_value [OF assms(2)] b by (auto simp: moduleMode_def selectsVendor_def)
    with False a b kind name assms show ?thesis
      by (auto simp: rewriteModStep_def needsValue_mod)
  qed
qed

lemma rewriteModLoop_map:
  "valuesPaired cl \<Longrightarrow> list_all wellShaped cl \<Longrightarrow>
   indexedFrom (length pre) cl \<Longrightarrow>
   rewriteModLoop cl (pre @ map argRaw cl) = pre @ map (argRaw \<circ> moduleMode) cl"
proof (induction cl arbitrary: pre rule: valuesPaired.induct)
  case (2 x)
  then show ?case using rewriteModStep_single [of x pre "[]" "[]"] by simp
next
  case (3 x y zs)
  show ?case
  proof (cases "needsValue x")
    case True
    with 3 rewriteModStep_pair [of x y pre zs "map argRaw zs"]
      "3.IH"(1) [of "pre @ [argRaw (moduleMode x), argRaw (moduleMode y)]"]
    show ?thesis by simp
  next
    case False
    with 3 rewriteModStep_single [of x pre "y # zs" "map argRaw (y # zs)"]
      "3.IH"(2) [of "pre @ [argRaw (moduleMode x)]"]
    show ?thesis by simp
  qed
qed simp

lemma rewriteModVendor_map:
  "rewriteModVendor subcommand args = map (argRaw \<circ> moduleMode) (classifyArgs subcommand args)"
  using rewriteModLoop_map [of "classifyArgs subcommand args" "[]"]
  by (simp add: rewriteModVendor_def classifyArgs_default classifyArgs_raws classifyArgs_paired
      classifyArgs_shaped classifyArgs_indexed list_all_iff)

section \<open>Module mode in GOFLAGS\<close>

lemma isModVendorToken_isModToken: "isModVendorToken tok \<Longrightarrow> isModToken tok"
  by (auto simp: isModVendorToken_def isModToken_def)

definition vendorToMod :: "string \<Rightarrow> string" where
  "vendorToMod f = (if isModVendorToken (unquoteGoflagsToken f) then ''-mod=mod'' else f)"

lemma vendorToMod_isModToken:
  "isModToken (unquoteGoflagsToken (vendorToMod t)) = isModToken (unquoteGoflagsToken t)"
  using isModVendorToken_isModToken
  by (simp add: vendorToMod_def isModToken_def unquote_plain isQuoteByte_def)

lemma forceModLoop_eq:
  "forceModLoop ts = (map vendorToMod ts, \<exists>t \<in> set ts. isModToken (unquoteGoflagsToken t))"
  by (induction ts) (auto simp: Let_def vendorToMod_def dest: isModVendorToken_isModToken)

lemma completeToken_modMod: "completeToken ''-mod=mod''"
  by (simp add: isQuoteByte_def isGoflagsSpace_def)

lemma unquote_modMod [simp]: "unquoteGoflagsToken ''-mod=mod'' = ''-mod=mod''"
  by (simp add: unquote_plain isQuoteByte_def)

lemma modMod_token [simp]: "isModToken ''-mod=mod''" "\<not> isModVendorToken ''-mod=mod''"
  by (simp_all add: isModToken_def isModVendorToken_def)

lemma goflagsTokens_complete: "list_all completeToken ts \<Longrightarrow> goflagsTokens ts"
  by (induction ts rule: goflagsTokens.induct) auto

lemma forceModMod_split:
  assumes "list_all completeToken (splitGoflags goflags)"
  shows "splitGoflags (forceModMod goflags) =
    (let ts = map vendorToMod (splitGoflags goflags)
     in if \<exists>t \<in> set ts. isModToken (unquoteGoflagsToken t) then ts else ts @ [''-mod=mod''])"
proof -
  have "list_all completeToken (map vendorToMod (splitGoflags goflags))"
    using assms completeToken_modMod by (auto simp: list_all_iff vendorToMod_def)
  then have ok: "goflagsTokens (map vendorToMod (splitGoflags goflags))"
    "goflagsTokens (map vendorToMod (splitGoflags goflags) @ [''-mod=mod''])"
    using completeToken_modMod by (simp_all add: goflagsTokens_complete del: completeToken.simps)
  have ex: "(\<exists>t \<in> set (map vendorToMod ts). isModToken (unquoteGoflagsToken t)) \<longleftrightarrow>
      (\<exists>t \<in> set ts. isModToken (unquoteGoflagsToken t))" for ts
    by (simp add: vendorToMod_isModToken)
  show ?thesis
    unfolding forceModMod_def forceModLoop_eq ex Let_def
    using ok by (simp add: split_join_goflags)
qed

lemma vendorToMod_id:
  "\<forall>t \<in> set ts. \<not> isModVendorToken (unquoteGoflagsToken t) \<Longrightarrow> map vendorToMod ts = ts"
  by (simp add: map_idI vendorToMod_def)

text \<open>The text in front of the first \<open>=\<close> is \<open>-mod\<close> or \<open>--mod\<close>.\<close>

lemma isModToken_name: "isModToken tok \<longleftrightarrow> takeWhile (\<lambda>c. c \<noteq> CHR ''='') tok \<in> {''-mod'', ''--mod''}"
proof
  assume "isModToken tok"
  then show "takeWhile (\<lambda>c. c \<noteq> CHR ''='') tok \<in> {''-mod'', ''--mod''}"
    by (auto simp: isModToken_def isModFlag_def prefix_def)
next
  assume t: "takeWhile (\<lambda>c. c \<noteq> CHR ''='') tok \<in> {''-mod'', ''--mod''}"
  obtain h r where hr: "takeWhile (\<lambda>c. c \<noteq> CHR ''='') tok = h" "dropWhile (\<lambda>c. c \<noteq> CHR ''='') tok = r"
    by blast
  then have split: "tok = h @ r" by (metis takeWhile_dropWhile_id)
  show "isModToken tok"
  proof (cases r)
    case Nil
    then have "tok \<in> {''-mod'', ''--mod''}" using t split hr(1) by (metis append_Nil2)
    then show ?thesis by (auto simp: isModToken_def isModFlag_def)
  next
    case (Cons c rest)
    then have "c = CHR ''=''" using hd_dropWhile [of "\<lambda>c. c \<noteq> CHR ''=''" tok] hr(2) by simp
    then have "tok = h @ CHR ''='' # rest" using split Cons by metis
    moreover have "h \<in> {''-mod'', ''--mod''}" using t hr(1) by metis
    ultimately show ?thesis by (auto simp: isModToken_def)
  qed
qed

text \<open>
  C2: \<open>forceModMod\<close> puts the build into module mode and leaves everything else alone. Hypothesis: every
  quote that the value of \<open>GOFLAGS\<close> opens is closed again. An entry stands for a \<open>-mod\<close> flag if,
  without its quotes, the text in front of the first \<open>=\<close> is \<open>-mod\<close> or \<open>--mod\<close>. The entries of the
  result are those of the value, in order, with each \<open>-mod=vendor\<close> and \<open>--mod=vendor\<close> replaced by
  \<open>-mod=mod\<close> and every other entry verbatim, another \<open>-mod\<close> choice included; \<open>-mod=mod\<close> is added
  at the end only when there is no \<open>-mod\<close> entry. So no vendor entry is left, there is a \<open>-mod\<close>
  entry, and applying it again changes nothing.
\<close>

theorem forceModMod_module_mode:
  assumes "list_all completeToken (splitGoflags goflags)"
  shows "splitGoflags (forceModMod goflags) =
      map (\<lambda>t. if unquoteGoflagsToken t = ''-mod=vendor'' \<or> unquoteGoflagsToken t = ''--mod=vendor'' then ''-mod=mod'' else t)
        (splitGoflags goflags) @
      (if \<exists>t \<in> set (splitGoflags goflags). takeWhile (\<lambda>c. c \<noteq> CHR ''='') (unquoteGoflagsToken t) \<in> {''-mod'', ''--mod''}
       then [] else [''-mod=mod''])
    \<and> list_all (\<lambda>t. \<not> isModVendorToken (unquoteGoflagsToken t)) (splitGoflags (forceModMod goflags))
    \<and> list_ex (\<lambda>t. isModToken (unquoteGoflagsToken t)) (splitGoflags (forceModMod goflags))
    \<and> filter (\<lambda>t. \<not> isModToken (unquoteGoflagsToken t)) (splitGoflags (forceModMod goflags)) =
        filter (\<lambda>t. \<not> isModToken (unquoteGoflagsToken t)) (splitGoflags goflags)
    \<and> forceModMod (forceModMod goflags) = forceModMod goflags"
proof -
  let ?ts = "splitGoflags (forceModMod goflags)"
  have vend: "\<not> isModVendorToken (unquoteGoflagsToken (vendorToMod t))" for t
    by (simp add: vendorToMod_def)
  have 1: "\<forall>t \<in> set ?ts. \<not> isModVendorToken (unquoteGoflagsToken t)"
    using vend by (auto simp: forceModMod_split [OF assms] Let_def)
  have 2: "\<exists>t \<in> set ?ts. isModToken (unquoteGoflagsToken t)"
    by (auto simp: forceModMod_split [OF assms] Let_def)
  have "filter (\<lambda>t. \<not> isModToken (unquoteGoflagsToken t)) (map vendorToMod ts) =
      filter (\<lambda>t. \<not> isModToken (unquoteGoflagsToken t)) ts" for ts
    by (induction ts) (auto simp: vendorToMod_def dest: isModVendorToken_isModToken)
  then have 3: "filter (\<lambda>t. \<not> isModToken (unquoteGoflagsToken t)) ?ts =
      filter (\<lambda>t. \<not> isModToken (unquoteGoflagsToken t)) (splitGoflags goflags)"
    by (simp add: forceModMod_split [OF assms] Let_def)
  have "forceModMod (forceModMod goflags) = joinWith '' '' ?ts"
    unfolding forceModMod_def [of "forceModMod goflags"] forceModLoop_eq
    using 2 by (simp add: vendorToMod_id [OF 1])
  also have "joinWith '' '' ?ts = forceModMod goflags"
  proof -
    define ms where "ms = map vendorToMod (splitGoflags goflags)"
    define hasMod where "hasMod = (\<exists>t \<in> set (splitGoflags goflags). isModToken (unquoteGoflagsToken t))"
    have "list_all completeToken ms"
      unfolding ms_def using assms completeToken_modMod by (auto simp: list_all_iff vendorToMod_def)
    moreover have "forceModMod goflags = joinWith '' '' (if hasMod then ms else ms @ [''-mod=mod''])"
      by (simp add: forceModMod_def forceModLoop_eq ms_def hasMod_def)
    ultimately have "\<exists>us. list_all completeToken us \<and> forceModMod goflags = joinWith '' '' us"
      using completeToken_modMod
      by (intro exI [of _ "if hasMod then ms else ms @ [''-mod=mod'']"]) (simp del: completeToken.simps)
    then obtain us where "list_all completeToken us" "forceModMod goflags = joinWith '' '' us"
      by blast
    then show ?thesis
      by (simp add: split_join_goflags goflagsTokens_complete)
  qed
  finally have 4: "forceModMod (forceModMod goflags) = forceModMod goflags" .
  have ex: "(\<exists>t \<in> set (map vendorToMod ts). isModToken (unquoteGoflagsToken t)) \<longleftrightarrow>
      (\<exists>t \<in> set ts. isModToken (unquoteGoflagsToken t))" for ts
    by (simp add: vendorToMod_isModToken)
  have vm: "map vendorToMod ts = map (\<lambda>t. if unquoteGoflagsToken t = ''-mod=vendor'' \<or>
      unquoteGoflagsToken t = ''--mod=vendor'' then ''-mod=mod'' else t) ts" for ts
    by (simp add: vendorToMod_def isModVendorToken_def)
  have "?ts = map (\<lambda>t. if unquoteGoflagsToken t = ''-mod=vendor'' \<or> unquoteGoflagsToken t = ''--mod=vendor'' then ''-mod=mod'' else t)
        (splitGoflags goflags) @
      (if \<exists>t \<in> set (splitGoflags goflags). takeWhile (\<lambda>c. c \<noteq> CHR ''='') (unquoteGoflagsToken t) \<in> {''-mod'', ''--mod''}
       then [] else [''-mod=mod''])"
    unfolding isModToken_name [symmetric] forceModMod_split [OF assms] Let_def
    using ex [of "splitGoflags goflags"] vm by simp
  then show ?thesis
    using 1 2 3 4 by (simp add: list_all_iff list_ex_iff del: set_map)
qed

lemma forceModMod_module_mode_witness:
  "forceModMod ''-v -mod=vendor'' = ''-v -mod=mod'' \<and>
   forceModMod (forceModMod ''-v -mod=vendor'') = forceModMod ''-v -mod=vendor''"
proof -
  have "forceModMod ''-v -mod=vendor'' = ''-v -mod=mod''"
    "list_all completeToken (splitGoflags ''-v -mod=vendor'')" by code_simp+
  then show ?thesis using forceModMod_module_mode [of "''-v -mod=vendor''"] by blast
qed

section \<open>Properties of the argument rewritings\<close>

text \<open>
  \<open>rewriteModVendor\<close> neutralises every vendor selection and nothing else. Classified again,
  the rewritten command line has the same arguments with the same kinds and flag names, except
  that the build flags (joined, or with a separate value) which chose \<open>-mod=vendor\<close> now choose
  \<open>-mod=mod\<close>; no argument selects vendoring any more.
\<close>

theorem rewriteModVendor_classified:
  "classifyArgs subcommand (rewriteModVendor subcommand args) =
     map moduleMode (classifyArgs subcommand args) \<and>
   list_all (\<lambda>x. \<not> selectsVendor x) (classifyArgs subcommand (rewriteModVendor subcommand args))"
proof -
  have eq: "classifyArgs subcommand (rewriteModVendor subcommand args) =
      map moduleMode (classifyArgs subcommand args)"
    by (rule classifyArgs_edit [OF moduleMode_edit rewriteModVendor_map])
  have "\<not> selectsVendor (moduleMode x)" for x
    by (auto simp: moduleMode_def selectsVendor_def flagTokenOf_modMod)
  then show ?thesis unfolding eq by (simp add: list_all_iff)
qed

text \<open>
  \<open>disableJSONOutput\<close> turns off exactly the go command's own \<open>-json\<close> flags: classified
  again, each of them reads \<open>-json=false\<close> at its old position, and every other argument, in
  particular a \<open>-json\<close> meant for the test binary, is as it was.
\<close>

theorem disableJSONOutput_classified:
  "classifyArgs subcommand (disableJSONOutput subcommand args) =
     map jsonOff (classifyArgs subcommand args)"
  by (rule classifyArgs_edit [OF jsonOff_edit disableJSONOutput_map])

section \<open>The targets of a command line\<close>

definition targetsOf :: "ClassifiedArg list \<Rightarrow> string list" where
  "targetsOf cl = map argRaw (filter (\<lambda>a. argKind a = ArgTarget) cl)"

fun noMissingValue :: "ClassifiedArg list \<Rightarrow> bool" where
  "noMissingValue [] = True"
| "noMissingValue (a # rest) = (\<not> missingValue a rest \<and> noMissingValue rest)"

lemma splitTargetsLoop_Inr:
  "splitTargetsLoop cl pkgs files = Inr (p, f) \<longleftrightarrow>
     noMissingValue cl \<and>
     p = pkgs @ filter (\<lambda>t. pathExt t \<noteq> ''.go'') (targetsOf cl) \<and>
     f = files @ filter (\<lambda>t. pathExt t = ''.go'') (targetsOf cl)"
  by (induction cl arbitrary: pkgs files) (auto simp: targetsOf_def)

lemma splitTargetsLoop_Inl:
  "splitTargetsLoop cl pkgs files = Inl e \<Longrightarrow> \<exists>raw. e = FlagRequiresValue raw"
  by (induction cl arbitrary: pkgs files) (auto split: if_splits)

lemma checkSameDir_None:
  "checkSameDir wd dir fs = None \<longleftrightarrow> list_all (\<lambda>f. pathAbs wd (pathDir f) = Some dir) fs"
  by (induction fs) (auto split: option.splits)

text \<open>
  \<open>splitBuildTargets\<close> accepts a command line exactly when no flag lacks its value, the
  targets are all packages or all \<open>.go\<close> files, and the files lie in one directory; it then
  returns the classified targets in order, split by their extension.
\<close>

theorem splitBuildTargets_accepts:
  "splitBuildTargets wd subcommand args = Inr (pkgs, files) \<longleftrightarrow>
     (let cl = classifyArgs subcommand args
      in noMissingValue cl \<and>
         pkgs = filter (\<lambda>t. pathExt t \<noteq> ''.go'') (targetsOf cl) \<and>
         files = filter (\<lambda>t. pathExt t = ''.go'') (targetsOf cl) \<and>
         (files = [] \<or> pkgs = [] \<and>
            (\<exists>dir. list_all (\<lambda>f. pathAbs wd (pathDir f) = Some dir) files)))"
proof (cases "splitTargetsLoop (classifyArgs subcommand args) [] []")
  case (Inl e)
  moreover have "\<not> noMissingValue (classifyArgs subcommand args)"
    using Inl splitTargetsLoop_Inr [of "classifyArgs subcommand args" "[]" "[]"] by auto
  ultimately show ?thesis by (simp add: splitBuildTargets_def)
next
  case (Inr r)
  obtain p f where r: "r = (p, f)" by (cases r)
  have pf: "noMissingValue (classifyArgs subcommand args)"
    "filter (\<lambda>t. pathExt t \<noteq> ''.go'') (targetsOf (classifyArgs subcommand args)) = p"
    "filter (\<lambda>t. pathExt t = ''.go'') (targetsOf (classifyArgs subcommand args)) = f"
    using Inr by (auto simp: r splitTargetsLoop_Inr)
  show ?thesis
    unfolding splitBuildTargets_def Inr r Let_def pf
    by (cases f) (auto simp: pf(1) simp flip: checkSameDir_None split: option.splits)
qed

end
