(* ===== verification/Build_State.thy ===== *)
theory Build_State
  imports Go_Path "HOL-Library.AList" "HOL-Library.Multiset"
begin

text \<open>
  The state manager of the setup phase, \<open>tool/internal/setup/state.go\<close>, with
  \<open>cleanupLocked\<close> of \<open>tool/internal/setup/cleanup.go\<close>, \<open>CopyFile\<close> of \<open>tool/util/sys.go\<close> and
  \<open>normalizeModuleDirs\<close> of \<open>tool/internal/setup/moduledirs.go\<close>. Setup changes files of the
  user's module (go.mod, go.sum, generated files); the manager snapshots each of them before
  and puts them back at the end, also in a later process when the build was killed.

  The file system is a map from paths to files; directories and hard links are not modelled.
  The manifest is a JSON array of strings, kept here as the array. The environment says which
  paths cannot be written or removed, what the working directories are and what SHA-256 digests
  are. A Go map is iterated in any order, so the loop of \<open>Revert\<close> takes the order as an argument.

  Shown: along every run of tracking and of arbitrary changes outside the build directory,
  reverting restores exactly the tracked paths to their state before tracking; the manifest
  on disk is enough to do so in a new process.
\<close>

section \<open>Files and faults\<close>

datatype content = Bytes string | JsonStrings "string list"

record fileEntry =
  fcontent :: content
  fmode :: nat

type_synonym world = "string \<rightharpoonup> fileEntry"

text \<open>
  What happens when a path is written: all is well, the file cannot be created, or the copy
  breaks off and leaves some partial content.
\<close>

datatype ioFault = NoFault | CannotCreate | CopyBreaks content

record env =
  workDir :: string
  getwd :: "string option"
  sha256hex :: "string \<Rightarrow> string"
  writeFault :: "string \<Rightarrow> ioFault"
  cannotRemove :: "string \<Rightarrow> bool"

definition modeAt :: "world \<Rightarrow> string \<Rightarrow> nat" where
  "modeAt w p = (case w p of None \<Rightarrow> 420 | Some f \<Rightarrow> fmode f)"

text \<open>\<open>util.CopyFile\<close>: the new world and whether it succeeded\<close>

definition copyFile :: "env \<Rightarrow> world \<Rightarrow> string \<Rightarrow> string \<Rightarrow> world \<times> bool" where
  "copyFile env w src dst =
     (case w src of
        None \<Rightarrow> (w, False)
      | Some f \<Rightarrow>
          if src = dst then (w, True)
          else case writeFault env dst of
                 NoFault \<Rightarrow> (w(dst \<mapsto> f), True)
               | CannotCreate \<Rightarrow> (w, False)
               | CopyBreaks c \<Rightarrow> (w(dst \<mapsto> \<lparr>fcontent = c, fmode = modeAt w dst\<rparr>), False))"

definition pathExists :: "world \<Rightarrow> string \<Rightarrow> bool" where
  "pathExists w p \<longleftrightarrow> w p \<noteq> None"

text \<open>\<open>os.Remove\<close> and \<open>os.RemoveAll\<close>\<close>

definition osRemove :: "env \<Rightarrow> world \<Rightarrow> string \<Rightarrow> world \<times> bool" where
  "osRemove env w p =
     (if w p = None \<or> cannotRemove env p then (w, False) else (w(p := None), True))"

definition underDir :: "string \<Rightarrow> string \<Rightarrow> bool" where
  "underDir d p \<longleftrightarrow> hasPrefix p (d @ ''/'')"

definition removeAll :: "env \<Rightarrow> world \<Rightarrow> string \<Rightarrow> world" where
  "removeAll env w d = (\<lambda>p. if underDir d p \<and> \<not> cannotRemove env p then None else w p)"

section \<open>The state manager\<close>

text \<open>\<open>files map[string]bool\<close>: the tracked paths with whether they existed\<close>

record stateManager =
  smFiles :: "(string \<times> bool) list"

definition newStateManager :: stateManager where
  "newStateManager = \<lparr>smFiles = []\<rparr>"

datatype stateError =
    NoAbsolutePath string
  | SnapshotFailed string
  | CommitFailed
  | DecodeFailed
  | RemoveFailed string
  | RestoreFailed string

definition getBuildTemp :: "env \<Rightarrow> string \<Rightarrow> string" where
  "getBuildTemp env name = pathJoin [workDir env, ''.otelc-build'', name]"

definition getBuildTempDir :: "env \<Rightarrow> string" where
  "getBuildTempDir env = pathJoin [workDir env, ''.otelc-build'']"

definition stateSnapshotPath :: "env \<Rightarrow> string \<Rightarrow> string" where
  "stateSnapshotPath env path =
     (let p = pathClean path in pathBase p @ ''.'' @ sha256hex env p)"

abbreviation manifestPath :: "env \<Rightarrow> string" where
  "manifestPath env \<equiv> getBuildTemp env ''state.json''"

definition snapshotOf :: "env \<Rightarrow> string \<Rightarrow> string" where
  "snapshotOf env path = pathJoin [getBuildTemp env ''state'', stateSnapshotPath env path]"

text \<open>One entry of the manifest, written and read\<close>

definition stateEntry :: "string \<times> bool \<Rightarrow> string" where
  "stateEntry = (\<lambda>(path, existed). if existed then path else ''-'' @ path)"

definition parseEntry :: "string \<Rightarrow> string \<times> bool" where
  "parseEntry entry = (case cutPrefix entry ''-'' of Some e \<Rightarrow> (e, False) | None \<Rightarrow> (entry, True))"

definition commit :: "env \<Rightarrow> world \<Rightarrow> stateManager \<Rightarrow> world \<times> stateError option" where
  "commit env w s =
     (if smFiles s = [] then (w, None)
      else
        let entries = sort (map stateEntry (smFiles s)); f = manifestPath env
        in if writeFault env f = NoFault
           then (w(f \<mapsto> \<lparr>fcontent = JsonStrings entries, fmode = modeAt w f\<rparr>), None)
           else (w, Some CommitFailed))"

text \<open>\<open>loadStateManager\<close>: \<open>Inr None\<close> when no state has been committed\<close>

definition loadStateManager :: "env \<Rightarrow> world \<Rightarrow> stateError + stateManager option" where
  "loadStateManager env w =
     (case w (manifestPath env) of
        None \<Rightarrow> Inr None
      | Some f \<Rightarrow>
          (case fcontent f of
             Bytes _ \<Rightarrow> Inl DecodeFailed
           | JsonStrings entries \<Rightarrow>
               Inr (Some \<lparr>smFiles =
                 foldl (\<lambda>fs entry. case parseEntry entry of (p, b) \<Rightarrow> AList.update p b fs) [] entries\<rparr>)))"

definition addTracked :: "stateManager \<Rightarrow> string \<Rightarrow> bool \<Rightarrow> stateManager" where
  "addTracked s p b = s\<lparr>smFiles := smFiles s @ [(p, b)]\<rparr>"

definition track ::
    "env \<Rightarrow> world \<Rightarrow> stateManager \<Rightarrow> string \<Rightarrow> world \<times> stateManager \<times> stateError option" where
  "track env w s path =
     (case pathAbs (getwd env) path of
        None \<Rightarrow> (w, s, Some (NoAbsolutePath path))
      | Some a \<Rightarrow>
          let p = pathClean a
          in if map_of (smFiles s) p \<noteq> None then (w, s, None)
             else if \<not> pathExists w p then
               (let s' = addTracked s p False; (w', e) = commit env w s' in (w', s', e))
             else
               (case copyFile env w p (snapshotOf env p) of
                  (w1, ok) \<Rightarrow>
                    if \<not> ok then (w1, s, Some (SnapshotFailed p))
                    else let s' = addTracked s p True; (w', e) = commit env w1 s' in (w', s', e)))"

fun trackAll ::
    "env \<Rightarrow> world \<Rightarrow> stateManager \<Rightarrow> string list \<Rightarrow> world \<times> stateManager \<times> stateError list" where
  "trackAll env w s [] = (w, s, [])"
| "trackAll env w s (path # paths) =
     (let (w1, s1, e) = track env w s path; (w2, s2, es) = trackAll env w1 s1 paths
      in (w2, s2, (case e of None \<Rightarrow> es | Some x \<Rightarrow> x # es)))"

text \<open>The loop of \<open>Revert\<close> over the entries in some order, with the errors joined\<close>

definition revertEntry :: "env \<Rightarrow> world \<Rightarrow> string \<times> bool \<Rightarrow> world \<times> stateError list" where
  "revertEntry env w = (\<lambda>(path, existed).
     if \<not> existed then
       (if pathExists w path then
          (case osRemove env w path of (w', ok) \<Rightarrow> (w', if ok then [] else [RemoveFailed path]))
        else (w, []))
     else
       (case copyFile env w (snapshotOf env path) path of
          (w', ok) \<Rightarrow> (w', if ok then [] else [RestoreFailed path])))"

fun revertLoop :: "env \<Rightarrow> world \<Rightarrow> (string \<times> bool) list \<Rightarrow> world \<times> stateError list" where
  "revertLoop env w [] = (w, [])"
| "revertLoop env w (x # xs) =
     (let (w1, e1) = revertEntry env w x; (w2, e2) = revertLoop env w1 xs in (w2, e1 @ e2))"

definition discard :: "env \<Rightarrow> world \<Rightarrow> stateManager \<Rightarrow> world" where
  "discard env w s =
     (if smFiles s = [] then w
      else removeAll env (fst (osRemove env w (manifestPath env))) (getBuildTemp env ''state''))"

text \<open>
  \<open>cleanupLocked\<close>: the manager is the one of the context, if there is one, or the committed one.
  \<open>order\<close> arranges the entries for the loop of \<open>Revert\<close>.
\<close>

definition cleanupLocked ::
    "env \<Rightarrow> ((string \<times> bool) list \<Rightarrow> (string \<times> bool) list) \<Rightarrow> world \<Rightarrow>
     stateManager option \<Rightarrow> bool \<Rightarrow> world \<times> stateError option" where
  "cleanupLocked env order w fromContext cleanAll =
     (case (case fromContext of Some s \<Rightarrow> Inr (Some s) | None \<Rightarrow> loadStateManager env w) of
        Inl e \<Rightarrow> (w, Some e)
      | Inr m \<Rightarrow>
          let (w1, reverted) =
                (case m of
                   None \<Rightarrow> (w, True)
                 | Some s \<Rightarrow>
                     (case revertLoop env w (order (smFiles s)) of
                        (w', errs) \<Rightarrow> if errs = [] then (discard env w' s, True) else (w', False)));
              w2 = (if cleanAll \<and> reverted then removeAll env w1 (getBuildTempDir env) else w1)
          in (w2, None))"

section \<open>Module directories and files to back up\<close>

text \<open>\<open>slices.Compact\<close> of a sorted slice\<close>

definition normalizeModuleDirs :: "string list \<Rightarrow> string list" where
  "normalizeModuleDirs dirs = remdups_adj (sort dirs)"

definition moduleBackups :: "(string \<Rightarrow> bool) \<Rightarrow> string \<Rightarrow> string list" where
  "moduleBackups exist moduleDir =
     (let goMod = pathJoin [moduleDir, ''go.mod''];
          goSum = pathJoin [moduleDir, ''go.sum''];
          canonical = pathJoin [moduleDir, ''otel.instrumentation.go''];
          alias = pathJoin [moduleDir, ''otelc.tool.go'']
      in if exist goMod
         then [goMod, goSum, if \<not> exist canonical \<and> exist alias then alias else canonical]
         else [])"

text \<open>\<open>goWork\<close> is the output of \<open>go env GOWORK\<close>, \<open>None\<close> when the command fails.\<close>

definition getBackupFiles ::
    "(string \<Rightarrow> bool) \<Rightarrow> string option \<Rightarrow> string list \<Rightarrow> string list option" where
  "getBackupFiles exist goWork moduleDirs =
     (let fs = concat (map (moduleBackups exist) (normalizeModuleDirs moduleDirs))
      in case goWork of
           None \<Rightarrow> None
         | Some out \<Rightarrow>
             let p = trimSpace out
             in Some (if p \<noteq> [] \<and> p \<noteq> ''off''
                      then fs @ [pathJoin [pathDir p, ''go.work.sum'']] else fs))"

section \<open>The build directory\<close>

text \<open>Paths inside \<open>.otelc-build\<close> of the working directory\<close>

definition inBuildDir :: "env \<Rightarrow> string \<Rightarrow> bool" where
  "inBuildDir env p \<longleftrightarrow> prefix (cleanElems (workDir env) @ [''.otelc-build'']) (cleanElems p)"

text \<open>What the code relies on: a working directory, and digests in hexadecimal\<close>

definition envOK :: "env \<Rightarrow> bool" where
  "envOK env \<longleftrightarrow> workDir env \<noteq> [] \<and>
     (\<forall>p. sha256hex env p \<noteq> [] \<and> list_all (\<lambda>c. c \<in> set ''0123456789abcdef'') (sha256hex env p))"

text \<open>An absolute clean path of a file (not the root) that is not the build's own\<close>

definition plainFile :: "env \<Rightarrow> string \<Rightarrow> bool" where
  "plainFile env p \<longleftrightarrow> isAbs p \<and> pathClean p = p \<and> pathBase p \<noteq> ''/'' \<and> \<not> inBuildDir env p"

lemma buildDir_plain: "plainElem ''.otelc-build''" "plainElem ''state''" "plainElem ''state.json''"
  by (simp_all add: plainElem_def)

lemma not_in_alphabet: "list_all (\<lambda>c. c \<in> set alphabet) s \<Longrightarrow> x \<notin> set alphabet \<Longrightarrow> x \<notin> set s"
  by (auto simp: list_all_iff)

lemma snapshotPath_plain:
  assumes "envOK env" and "plainFile env p"
  shows "plainElem (stateSnapshotPath env p)" "stateSnapshotPath env p \<noteq> ''..''"
proof -
  have p: "stateSnapshotPath env p = pathBase p @ CHR ''.'' # sha256hex env p"
    using assms(2) by (simp add: stateSnapshotPath_def plainFile_def)
  have hex: "sha256hex env p \<noteq> []" "list_all (\<lambda>c. c \<in> set ''0123456789abcdef'') (sha256hex env p)"
    using assms(1) unfolding envOK_def by blast+
  have h: "CHR ''/'' \<notin> set (sha256hex env p)" "CHR ''.'' \<notin> set (sha256hex env p)"
    by (rule not_in_alphabet [OF hex(2)]; simp)+
  have b: "CHR ''/'' \<notin> set (pathBase p)"
    using assms(2) by (intro pathBase_no_slash) (simp add: plainFile_def)
  have l: "last (stateSnapshotPath env p) \<noteq> CHR ''.''"
    unfolding p using hex(1) h(2) by (metis last_ConsR last_appendR last_in_set list.distinct(1))
  have "stateSnapshotPath env p \<noteq> []" "CHR ''/'' \<notin> set (stateSnapshotPath env p)"
    unfolding p using b h(1) by simp_all
  with l show "plainElem (stateSnapshotPath env p)" "stateSnapshotPath env p \<noteq> ''..''"
    unfolding plainElem_def by auto
qed

lemma cleanElems_manifest:
  "envOK env \<Longrightarrow> cleanElems (manifestPath env) = cleanElems (workDir env) @ [''.otelc-build'', ''state.json'']"
  by (simp add: getBuildTemp_def cleanElems_join3 buildDir_plain envOK_def)

lemma cleanElems_snapshot:
  assumes "envOK env" and "plainFile env p"
  shows "cleanElems (snapshotOf env p) =
    cleanElems (workDir env) @ [''.otelc-build'', ''state'', stateSnapshotPath env p]"
proof -
  have wd: "workDir env \<noteq> []" using assms(1) by (simp add: envOK_def)
  have d: "getBuildTemp env ''state'' \<noteq> []"
    unfolding getBuildTemp_def by (rule pathJoin_not_Nil [OF wd])
  have "cleanElems (getBuildTemp env ''state'') = cleanElems (workDir env) @ [''.otelc-build'', ''state'']"
    unfolding getBuildTemp_def by (rule cleanElems_join3 [OF wd]) (simp_all add: buildDir_plain)
  then show ?thesis
    unfolding snapshotOf_def cleanElems_join2 [OF d snapshotPath_plain [OF assms]] by simp
qed

lemma state_files_in_buildDir:
  assumes "envOK env"
  shows "inBuildDir env (manifestPath env)"
    and "plainFile env p \<Longrightarrow> inBuildDir env (snapshotOf env p)"
    and "plainFile env p \<Longrightarrow> snapshotOf env p \<noteq> manifestPath env"
proof -
  show "inBuildDir env (manifestPath env)"
    using cleanElems_manifest [OF assms] by (simp add: inBuildDir_def)
  assume p: "plainFile env p"
  note e = cleanElems_snapshot [OF assms p]
  from e show "inBuildDir env (snapshotOf env p)" by (simp add: inBuildDir_def)
  from e cleanElems_manifest [OF assms] have "cleanElems (snapshotOf env p) \<noteq> cleanElems (manifestPath env)"
    by simp
  then show "snapshotOf env p \<noteq> manifestPath env" by metis
qed

lemma plainFile_not_state:
  assumes "envOK env" and "plainFile env p"
  shows "p \<noteq> manifestPath env" and "plainFile env q \<Longrightarrow> p \<noteq> snapshotOf env q"
  using state_files_in_buildDir [OF assms(1)] assms(2) by (auto simp: plainFile_def)

section \<open>Reverting\<close>

definition revertible :: "env \<Rightarrow> world \<Rightarrow> (string \<times> bool) list \<Rightarrow> bool" where
  "revertible env w es \<longleftrightarrow> distinct (map fst es) \<and>
     (\<forall>(p, existed) \<in> set es. plainFile env p \<and> (existed \<longrightarrow> w (snapshotOf env p) \<noteq> None))"

lemma revertEntry_world:
  assumes "envOK env" and "plainFile env p" and "revertEntry env w (p, b) = (w', [])"
  shows "w' = w(p := (if b then w (snapshotOf env p) else None))"
  using assms plainFile_not_state(2) [OF assms(1,2,2)]
  by (auto simp: revertEntry_def copyFile_def osRemove_def pathExists_def
      split: if_splits option.splits prod.splits ioFault.splits)

lemma revertEntry_ok:
  assumes "b \<longrightarrow> w (snapshotOf env p) \<noteq> None"
    and "writeFault env p = NoFault" and "\<not> cannotRemove env p"
  shows "snd (revertEntry env w (p, b)) = []"
proof (cases b)
  case True
  then obtain f where "w (snapshotOf env p) = Some f" using assms(1) by blast
  with True assms(2) show ?thesis by (simp add: revertEntry_def copyFile_def)
next
  case False
  with assms(3) show ?thesis by (simp add: revertEntry_def osRemove_def pathExists_def)
qed

lemma revertible_Cons:
  "revertible env w ((p, b) # es) \<longleftrightarrow>
     plainFile env p \<and> (b \<longrightarrow> w (snapshotOf env p) \<noteq> None) \<and> p \<notin> fst ` set es \<and> revertible env w es"
  by (auto simp: revertible_def)

lemma revertible_other:
  assumes "envOK env" and "plainFile env p" and "revertible env w es"
  shows "revertible env (w(p := x)) es"
  using assms plainFile_not_state(2) [OF assms(1,2)]
  by (fastforce simp: revertible_def)

text \<open>Every entry is put back, whatever the order; nothing else is touched.\<close>

lemma revertLoop_restores:
  assumes "envOK env"
  shows "revertible env w es \<Longrightarrow> revertLoop env w es = (w', []) \<Longrightarrow>
    w' q = (case map_of es q of None \<Rightarrow> w q
            | Some existed \<Rightarrow> if existed then w (snapshotOf env q) else None)"
proof (induction es arbitrary: w)
  case (Cons x es)
  obtain p b where x: "x = (p, b)" by (cases x)
  obtain w1 where w1: "revertEntry env w (p, b) = (w1, [])" and w2: "revertLoop env w1 es = (w', [])"
    using Cons.prems(2) unfolding x by (auto split: prod.splits)
  have p: "plainFile env p" "p \<notin> fst ` set es" "revertible env w es"
    using Cons.prems(1) unfolding x by (simp_all add: revertible_Cons)
  note w1 = revertEntry_world [OF assms p(1) w1]
  have "revertible env w1 es"
    unfolding w1 by (rule revertible_other [OF assms p(1,3)])
  note IH = Cons.IH [OF this w2]
  have "map_of es p = None" using p(2) by (simp add: map_of_eq_None_iff)
  moreover have "map_of es q = Some e \<Longrightarrow> snapshotOf env q \<noteq> p" for e
    using p(3) plainFile_not_state(2) [OF assms p(1)]
    by (auto simp: revertible_def dest!: map_of_SomeD)
  ultimately show ?case
    unfolding IH x by (auto simp: w1 split: option.splits)
qed simp

lemma revertLoop_ok:
  assumes "envOK env"
  shows "revertible env w es \<Longrightarrow>
    \<forall>p \<in> fst ` set es. writeFault env p = NoFault \<and> \<not> cannotRemove env p \<Longrightarrow>
    snd (revertLoop env w es) = []"
proof (induction es arbitrary: w)
  case (Cons x es)
  obtain p b where x: "x = (p, b)" by (cases x)
  have p: "plainFile env p" "b \<longrightarrow> w (snapshotOf env p) \<noteq> None" "revertible env w es"
    using Cons.prems(1) unfolding x by (auto simp: revertible_Cons)
  have e: "snd (revertEntry env w (p, b)) = []"
    using revertEntry_ok [of b w env p] p(2) Cons.prems(2) x by simp
  then obtain w1 where w1: "revertEntry env w (p, b) = (w1, [])"
    by (cases "revertEntry env w (p, b)") auto
  have "revertible env w1 es"
    unfolding revertEntry_world [OF assms p(1) w1] by (rule revertible_other [OF assms p(1,3)])
  from Cons.IH [OF this] Cons.prems(2) w1 show ?case
    unfolding x by (auto split: prod.splits)
qed simp

section \<open>Runs of a build\<close>

text \<open>
  A configuration: the file system, the manager of the running process, and, as a history
  variable, what every tracked path held when it was first tracked.
\<close>

record conf =
  cworld :: world
  cmanager :: stateManager
  corig :: "string \<rightharpoonup> fileEntry option"

definition remember :: "world \<Rightarrow> stateManager \<Rightarrow> stateManager \<Rightarrow> (string \<rightharpoonup> fileEntry option) \<Rightarrow>
    (string \<rightharpoonup> fileEntry option)" where
  "remember w s s' orig =
     (\<lambda>p. if map_of (smFiles s) p = None \<and> map_of (smFiles s') p \<noteq> None then Some (w p) else orig p)"

text \<open>
  A step tracks a file outside the build directory, whose snapshot does not collide with the
  one of another tracked file, or changes any path outside the build directory.
\<close>

definition mayTrack :: "env \<Rightarrow> stateManager \<Rightarrow> string \<Rightarrow> bool" where
  "mayTrack env s path \<longleftrightarrow> (case pathAbs (getwd env) path of None \<Rightarrow> True
     | Some a \<Rightarrow> plainFile env a \<and>
         list_all (\<lambda>q. snapshotOf env q = snapshotOf env a \<longrightarrow> q = a) (map fst (smFiles s)))"

inductive buildStep :: "env \<Rightarrow> conf \<Rightarrow> conf \<Rightarrow> bool" for env where
  Track: "mayTrack env s path \<Longrightarrow> track env w s path = (w', s', e) \<Longrightarrow>
    buildStep env \<lparr>cworld = w, cmanager = s, corig = orig\<rparr>
                  \<lparr>cworld = w', cmanager = s', corig = remember w s s' orig\<rparr>"
| Change: "\<not> inBuildDir env p \<Longrightarrow>
    buildStep env \<lparr>cworld = w, cmanager = s, corig = orig\<rparr>
                  \<lparr>cworld = w(p := x), cmanager = s, corig = orig\<rparr>"

inductive buildRun :: "env \<Rightarrow> conf \<Rightarrow> conf \<Rightarrow> bool" for env where
  Start: "buildRun env c c"
| More: "buildRun env c c' \<Longrightarrow> buildStep env c' c'' \<Longrightarrow> buildRun env c c''"

text \<open>Every tracked path has an entry, and its snapshot holds what it held then.\<close>

definition snapshotsOK :: "env \<Rightarrow> conf \<Rightarrow> bool" where
  "snapshotsOK env c \<longleftrightarrow> distinct (map fst (smFiles (cmanager c))) \<and>
     (\<forall>p. corig c p \<noteq> None \<longleftrightarrow> p \<in> fst ` set (smFiles (cmanager c))) \<and>
     (\<forall>(p, existed) \<in> set (smFiles (cmanager c)). plainFile env p \<and>
        (\<exists>x. corig c p = Some x \<and> (existed \<longleftrightarrow> x \<noteq> None) \<and>
             (x \<noteq> None \<longrightarrow> cworld c (snapshotOf env p) = x)))"

lemma mayTrack_fresh:
  assumes "mayTrack env s path" and "pathAbs (getwd env) path = Some a"
  shows "plainFile env a" and "pathClean a = a"
    and "q \<in> fst ` set (smFiles s) \<Longrightarrow> snapshotOf env q = snapshotOf env a \<Longrightarrow> q = a"
  using assms by (auto simp: mayTrack_def plainFile_def list_all_iff)

lemma snapshotsOK_start:
  "snapshotsOK env \<lparr>cworld = w, cmanager = newStateManager, corig = Map.empty\<rparr>"
  by (simp add: snapshotsOK_def newStateManager_def)

text \<open>Changes of the file system outside the snapshots keep the invariant.\<close>

lemma snapshotsOK_world:
  assumes "snapshotsOK env \<lparr>cworld = w, cmanager = s, corig = orig\<rparr>"
    and "\<And>p. p \<in> fst ` set (smFiles s) \<Longrightarrow> plainFile env p \<Longrightarrow> w' (snapshotOf env p) = w (snapshotOf env p)"
  shows "snapshotsOK env \<lparr>cworld = w', cmanager = s, corig = orig\<rparr>"
  using assms by (force simp: snapshotsOK_def)

lemma commit_world:
  "commit env w s = (w', e) \<Longrightarrow> p \<noteq> manifestPath env \<Longrightarrow> w' p = w p"
  by (auto simp: commit_def Let_def split: if_splits)

lemma snapshotsOK_commit:
  assumes "envOK env" and "snapshotsOK env \<lparr>cworld = w, cmanager = s, corig = orig\<rparr>"
    and "commit env w s = (w', e)"
  shows "snapshotsOK env \<lparr>cworld = w', cmanager = s, corig = orig\<rparr>"
  using state_files_in_buildDir(3) [OF assms(1)] commit_world [OF assms(3)]
  by (intro snapshotsOK_world [OF assms(2)]) blast

lemma snapshotsOK_add:
  assumes "snapshotsOK env \<lparr>cworld = w, cmanager = s, corig = orig\<rparr>"
    and "map_of (smFiles s) p = None" and "plainFile env p" and "b \<longleftrightarrow> w0 p \<noteq> None"
    and "w0 p \<noteq> None \<longrightarrow> w (snapshotOf env p) = w0 p"
  shows "snapshotsOK env \<lparr>cworld = w, cmanager = addTracked s p b,
           corig = remember w0 s (addTracked s p b) orig\<rparr>"
proof -
  have p: "p \<notin> fst ` set (smFiles s)" using assms(2) by (simp add: map_of_eq_None_iff)
  have r: "remember w0 s (addTracked s p b) orig = orig(p \<mapsto> w0 p)"
    using assms(2) by (auto simp: remember_def addTracked_def map_add_def split: option.splits)
  show ?thesis
    using assms p unfolding r by (auto simp: snapshotsOK_def addTracked_def)
qed

lemma track_cases:
  assumes "track env w s path = (w', s', e)"
  obtains (abs) "pathAbs (getwd env) path = None" "w' = w" "s' = s"
  | (known) a where "pathAbs (getwd env) path = Some a" "map_of (smFiles s) (pathClean a) \<noteq> None"
      "w' = w" "s' = s" "e = None"
  | (fresh) a where "pathAbs (getwd env) path = Some a" "map_of (smFiles s) (pathClean a) = None"
      "w (pathClean a) = None" "s' = addTracked s (pathClean a) False" "commit env w s' = (w', e)"
  | (failed) a where "pathAbs (getwd env) path = Some a" "map_of (smFiles s) (pathClean a) = None"
      "copyFile env w (pathClean a) (snapshotOf env (pathClean a)) = (w', False)" "s' = s" "e \<noteq> None"
  | (copied) a w1 where "pathAbs (getwd env) path = Some a" "map_of (smFiles s) (pathClean a) = None"
      "w (pathClean a) \<noteq> None" "copyFile env w (pathClean a) (snapshotOf env (pathClean a)) = (w1, True)"
      "s' = addTracked s (pathClean a) True" "commit env w1 s' = (w', e)"
proof (cases "pathAbs (getwd env) path")
  case None
  with assms show ?thesis by (intro abs) (auto simp: track_def)
next
  case a: (Some a)
  let ?p = "pathClean a"
  show ?thesis
  proof (cases "map_of (smFiles s) ?p")
    case (Some b)
    with assms a show ?thesis by (intro known [of a]) (auto simp: track_def Let_def)
  next
    case None
    show ?thesis
    proof (cases "w ?p = None")
      case True
      with assms a None show ?thesis
        by (intro fresh [of a]) (auto simp: track_def Let_def pathExists_def split: prod.splits)
    next
      case False
      obtain w1 ok where cp: "copyFile env w ?p (snapshotOf env ?p) = (w1, ok)" by fastforce
      show ?thesis
      proof (cases ok)
        case True
        with False assms a None cp show ?thesis
          by (intro copied [of a w1]) (auto simp: track_def Let_def pathExists_def split: prod.splits)
      next
        case notok: False
        with False assms a None cp show ?thesis
          by (intro failed [of a]) (auto simp: track_def Let_def pathExists_def)
      qed
    qed
  qed
qed

lemma copyFile_other: "copyFile env w p q = (w', ok) \<Longrightarrow> r \<noteq> q \<Longrightarrow> w' r = w r"
  by (auto simp: copyFile_def split: option.splits if_splits ioFault.splits)

lemma copyFile_copied: "copyFile env w p q = (w', True) \<Longrightarrow> w' q = w p"
  by (auto simp: copyFile_def split: option.splits if_splits ioFault.splits)

lemma remember_same [simp]: "remember w s s orig = orig"
  by (auto simp: remember_def fun_eq_iff)

lemma buildStep_snapshotsOK:
  assumes "envOK env" and "buildStep env c c'" and inv: "snapshotsOK env c"
  shows "snapshotsOK env c'"
  using assms(2)
proof (cases rule: buildStep.cases)
  case (Track s path w w' s' e orig)
  note inv = inv [unfolded Track(1)]
  have other: "\<And>w2. (\<And>r. r \<noteq> snapshotOf env a \<Longrightarrow> w2 r = w r) \<Longrightarrow> pathAbs (getwd env) path = Some a \<Longrightarrow>
      map_of (smFiles s) a = None \<Longrightarrow> snapshotsOK env \<lparr>cworld = w2, cmanager = s, corig = orig\<rparr>" for a
    by (rule snapshotsOK_world [OF inv])
      (metis map_of_eq_None_iff mayTrack_fresh(3) [OF Track(3)])
  from Track(4) show ?thesis
  proof (cases rule: track_cases)
    case (fresh a)
    note p = mayTrack_fresh(2,1) [OF Track(3) fresh(1)]
    from p fresh have "snapshotsOK env \<lparr>cworld = w, cmanager = s', corig = remember w s s' orig\<rparr>"
      by (simp add: snapshotsOK_add [OF inv])
    then show ?thesis
      unfolding Track(2) by (rule snapshotsOK_commit [OF assms(1) _ fresh(5)])
  next
    case (failed a)
    note p = mayTrack_fresh(2) [OF Track(3) failed(1)]
    show ?thesis
      unfolding Track(2) failed(4) remember_same
      by (rule other [of a]) (use failed p in \<open>auto dest: copyFile_other\<close>)
  next
    case (copied a w1)
    note p = mayTrack_fresh(2,1) [OF Track(3) copied(1)]
    have "snapshotsOK env \<lparr>cworld = w1, cmanager = s, corig = orig\<rparr>"
      by (rule other [of a]) (use copied p in \<open>auto dest: copyFile_other\<close>)
    then have "snapshotsOK env \<lparr>cworld = w1, cmanager = s', corig = remember w s s' orig\<rparr>"
      unfolding copied(5) by (rule snapshotsOK_add)
        (use copied p in \<open>auto dest: copyFile_copied\<close>)
    then show ?thesis
      unfolding Track(2) by (rule snapshotsOK_commit [OF assms(1) _ copied(6)])
  qed (use inv in \<open>simp_all add: Track(2)\<close>)
next
  case (Change p w s orig x)
  then show ?thesis
    using inv state_files_in_buildDir(2) [OF assms(1)]
    by (auto intro!: snapshotsOK_world [of env w])
qed

lemma buildRun_snapshotsOK:
  assumes "envOK env" and "buildRun env c c'" and "snapshotsOK env c"
  shows "snapshotsOK env c'"
  using assms(2,3) by (induction rule: buildRun.induct) (auto intro: buildStep_snapshotsOK [OF assms(1)])

lemma snapshotsOK_revertible:
  assumes "snapshotsOK env c" and "mset es = mset (smFiles (cmanager c))"
  shows "revertible env (cworld c) es"
proof -
  have "distinct (map fst es)"
    using assms mset_eq_imp_distinct_iff [of "map fst es" "map fst (smFiles (cmanager c))"]
    by (simp add: snapshotsOK_def)
  then show ?thesis
    using assms mset_eq_setD [OF assms(2)] by (fastforce simp: snapshotsOK_def revertible_def)
qed

section \<open>The manifest\<close>

lemma parse_stateEntry: "\<not> prefix ''-'' (fst x) \<Longrightarrow> parseEntry (stateEntry x) = x"
  by (cases x) (auto simp: parseEntry_def stateEntry_def cutPrefix_def split: if_splits)

lemma update_fresh: "p \<notin> fst ` set fs \<Longrightarrow> AList.update p b fs = fs @ [(p, b)]"
  by (induction fs) auto

lemma foldl_update_fresh:
  "distinct (map fst (fs @ map parseEntry es)) \<Longrightarrow>
   foldl (\<lambda>fs entry. case parseEntry entry of (p, b) \<Rightarrow> AList.update p b fs) fs es = fs @ map parseEntry es"
proof (induction es arbitrary: fs)
  case (Cons e es)
  obtain p b where e: "parseEntry e = (p, b)" by (cases "parseEntry e")
  with Cons.prems have "p \<notin> fst ` set fs" by auto
  with e Cons.prems Cons.IH [of "fs @ [(p, b)]"] show ?case by (simp add: update_fresh)
qed simp

text \<open>What a committed manager reads back as: the same entries, in the order of the manifest\<close>

lemma load_committed:
  assumes "distinct (map fst (smFiles s))" and "\<forall>p \<in> fst ` set (smFiles s). \<not> prefix ''-'' p"
    and "w (manifestPath env) = Some \<lparr>fcontent = JsonStrings (sort (map stateEntry (smFiles s))), fmode = m\<rparr>"
  obtains s' where "loadStateManager env w = Inr (Some s')" "mset (smFiles s') = mset (smFiles s)"
proof -
  let ?es = "sort (map stateEntry (smFiles s))"
  have "mset (map parseEntry ?es) = mset (map (parseEntry \<circ> stateEntry) (smFiles s))"
    by (simp add: image_mset.compositionality)
  also have "map (parseEntry \<circ> stateEntry) (smFiles s) = smFiles s"
    using assms(2) by (auto intro!: map_idI parse_stateEntry)
  finally have m: "mset (map parseEntry ?es) = mset (smFiles s)" .
  have "mset (map fst (map parseEntry ?es)) = mset (map fst (smFiles s))"
    using arg_cong [OF m, of "image_mset fst"] by (simp only: mset_map)
  then have "distinct (map fst (map parseEntry ?es))"
    using assms(1) mset_eq_imp_distinct_iff by blast
  then have "loadStateManager env w = Inr (Some \<lparr>smFiles = map parseEntry ?es\<rparr>)"
    using assms(3) foldl_update_fresh [of "[]" ?es] by (simp add: loadStateManager_def)
  with m that show ?thesis by simp
qed

lemma commit_manifest:
  "commit env w s = (w', None) \<Longrightarrow> smFiles s \<noteq> [] \<Longrightarrow>
   \<exists>m. w' (manifestPath env) = Some \<lparr>fcontent = JsonStrings (sort (map stateEntry (smFiles s))), fmode = m\<rparr>"
  by (auto simp: commit_def Let_def split: if_splits)

lemma track_commits:
  assumes "track env w s path = (w', s', None)" and "s' \<noteq> s"
  shows "smFiles s' \<noteq> [] \<and> (\<exists>w1. commit env w1 s' = (w', None))"
  using assms(1) by (cases rule: track_cases) (use assms(2) in \<open>auto simp: addTracked_def\<close>)

lemma plainFile_no_dash: "plainFile env p \<Longrightarrow> \<not> prefix ''-'' p"
  by (auto simp: plainFile_def isAbs_def prefix_def)

lemma track_manifest:
  assumes "track env w s path = (w1, s1, None)" and "s1 \<noteq> s"
    and "snapshotsOK env \<lparr>cworld = w1, cmanager = s1, corig = orig\<rparr>"
    and "w2 (manifestPath env) = w1 (manifestPath env)"
  obtains s' where "loadStateManager env w2 = Inr (Some s')" "mset (smFiles s') = mset (smFiles s1)"
proof -
  obtain m where "w2 (manifestPath env) =
      Some \<lparr>fcontent = JsonStrings (sort (map stateEntry (smFiles s1))), fmode = m\<rparr>"
    using track_commits [OF assms(1,2)] commit_manifest assms(4) by metis
  moreover have "distinct (map fst (smFiles s1))" "\<forall>p \<in> fst ` set (smFiles s1). \<not> prefix ''-'' p"
    using assms(3) plainFile_no_dash by (fastforce simp: snapshotsOK_def)+
  ultimately show ?thesis using that load_committed by metis
qed

section \<open>Cleaning up\<close>

lemma below_buildDir:
  assumes "envOK env" and "plainFile env p"
  shows "\<not> underDir (getBuildTempDir env) p" and "\<not> underDir (getBuildTemp env ''state'') p"
proof -
  have wd: "workDir env \<noteq> []" using assms(1) by (simp add: envOK_def)
  have below: "\<not> underDir d p"
    if d: "d \<noteq> []" "pathClean d = d" "prefix (cleanElems (workDir env) @ [''.otelc-build'']) (cleanElems d)" for d
  proof
    assume "underDir d p"
    then obtain x where p: "p = d @ CHR ''/'' # x" by (auto simp: underDir_def prefix_def)
    have "prefix (cleanElems d) (cleanElems p)"
      unfolding p by (rule cleanElems_below) (use assms(2) d p in \<open>auto simp: plainFile_def\<close>)
    with d(3) have "inBuildDir env p"
      unfolding inBuildDir_def by (rule prefix_order.trans)
    with assms(2) show False by (simp add: plainFile_def)
  qed
  show "\<not> underDir (getBuildTempDir env) p"
    by (rule below) (simp_all add: getBuildTempDir_def wd pathJoin_not_Nil pathClean_pathJoin
        cleanElems_join2 buildDir_plain)
  show "\<not> underDir (getBuildTemp env ''state'') p"
    by (rule below) (simp_all add: getBuildTemp_def wd pathJoin_not_Nil pathClean_pathJoin
        cleanElems_join3 buildDir_plain)
qed

lemma discard_keeps:
  assumes "envOK env" and "plainFile env p"
  shows "discard env w s p = w p"
  using below_buildDir [OF assms] plainFile_not_state(1) [OF assms]
  by (auto simp: discard_def removeAll_def osRemove_def)

lemma removeAll_keeps:
  "envOK env \<Longrightarrow> plainFile env p \<Longrightarrow> removeAll env w (getBuildTempDir env) p = w p"
  using below_buildDir by (simp add: removeAll_def)

lemma cleanupLocked_reverted:
  assumes "envOK env" and "loadStateManager env w = Inr (Some s)"
    and "revertLoop env w (order (smFiles s)) = (w1, [])" and "plainFile env p"
  shows "\<exists>w3. cleanupLocked env order w None cleanAll = (w3, None) \<and> w3 p = w1 p"
  using assms discard_keeps [OF assms(1,4)] removeAll_keeps [OF assms(1,4)]
  by (simp add: cleanupLocked_def Let_def)

text \<open>With the snapshots in place, reverting yields the original state.\<close>

lemma revert_value:
  assumes "snapshotsOK env c" and "mset es = mset (smFiles (cmanager c))"
  shows "(case map_of es p of None \<Rightarrow> cworld c p
      | Some existed \<Rightarrow> if existed then cworld c (snapshotOf env p) else None) =
    (case corig c p of None \<Rightarrow> cworld c p | Some x \<Rightarrow> x)"
proof (cases "map_of es p")
  case None
  then have "corig c p = None"
    using assms(1) mset_eq_setD [OF assms(2)] by (auto simp: snapshotsOK_def map_of_eq_None_iff)
  with None show ?thesis by simp
next
  case (Some b)
  then have "(p, b) \<in> set (smFiles (cmanager c))"
    using mset_eq_setD [OF assms(2)] by (auto dest: map_of_SomeD)
  then obtain x where "corig c p = Some x" "b \<longleftrightarrow> x \<noteq> None"
    "x \<noteq> None \<longrightarrow> cworld c (snapshotOf env p) = x"
    using assms(1) by (auto simp: snapshotsOK_def)
  with Some show ?thesis by auto
qed

section \<open>Properties\<close>

abbreviation startOn :: "world \<Rightarrow> conf" where
  "startOn w \<equiv> \<lparr>cworld = w, cmanager = newStateManager, corig = Map.empty\<rparr>"

text \<open>A small build for the instances below: go.mod is tracked, then overwritten.\<close>

definition sampleEnv :: env where
  "sampleEnv = \<lparr>workDir = ''/w'', getwd = Some ''/w'', sha256hex = (\<lambda>_. ''ab''),
     writeFault = (\<lambda>_. NoFault), cannotRemove = (\<lambda>_. False)\<rparr>"

definition sampleFile :: "string \<Rightarrow> fileEntry" where
  "sampleFile text = \<lparr>fcontent = Bytes text, fmode = 420\<rparr>"

definition sampleTracked :: "world" where
  "sampleTracked = [''/w/go.mod'' \<mapsto> sampleFile ''old'', ''/w/.otelc-build/state/go.mod.ab'' \<mapsto> sampleFile ''old'',
     ''/w/.otelc-build/state.json'' \<mapsto> \<lparr>fcontent = JsonStrings [''/w/go.mod''], fmode = 420\<rparr>]"

lemma sample_facts:
  "envOK sampleEnv" "plainFile sampleEnv ''/w/go.mod''"
  "snapshotOf sampleEnv ''/w/go.mod'' = ''/w/.otelc-build/state/go.mod.ab''"
  "manifestPath sampleEnv = ''/w/.otelc-build/state.json''"
  "pathAbs (getwd sampleEnv) ''go.mod'' = Some ''/w/go.mod''"
  "pathClean ''/w/go.mod'' = ''/w/go.mod''"
proof -
  show "envOK sampleEnv" by (simp add: envOK_def sampleEnv_def)
  have "isAbs ''/w/go.mod'' \<and> pathClean ''/w/go.mod'' = ''/w/go.mod'' \<and> pathBase ''/w/go.mod'' \<noteq> ''/'' \<and>
      \<not> prefix (cleanElems ''/w'' @ [''.otelc-build'']) (cleanElems ''/w/go.mod'')" by code_simp
  then show "plainFile sampleEnv ''/w/go.mod''" "pathClean ''/w/go.mod'' = ''/w/go.mod''"
    by (simp_all add: plainFile_def inBuildDir_def sampleEnv_def)
  show "snapshotOf sampleEnv ''/w/go.mod'' = ''/w/.otelc-build/state/go.mod.ab''"
    "manifestPath sampleEnv = ''/w/.otelc-build/state.json''"
    "pathAbs (getwd sampleEnv) ''go.mod'' = Some ''/w/go.mod''" by code_simp+
qed

lemma sample_mayTrack: "mayTrack sampleEnv newStateManager ''go.mod''"
  by (simp add: mayTrack_def sample_facts newStateManager_def)

lemma sample_track:
  "track sampleEnv [''/w/go.mod'' \<mapsto> sampleFile ''old''] newStateManager ''go.mod'' =
     (sampleTracked, addTracked newStateManager ''/w/go.mod'' True, None)"
proof -
  have "writeFault sampleEnv = (\<lambda>_. NoFault)" by (simp add: sampleEnv_def)
  then show ?thesis
    by (simp add: track_def sample_facts Let_def newStateManager_def pathExists_def copyFile_def commit_def
        addTracked_def stateEntry_def modeAt_def sampleTracked_def sampleFile_def)
qed

lemma cleanup_restores:
  assumes "envOK env" and "buildRun env (startOn w0) c" and "mayTrack env (cmanager c) path"
    and "track env (cworld c) (cmanager c) path = (w1, s1, None)" and "s1 \<noteq> cmanager c"
    and "\<And>p. inBuildDir env p \<Longrightarrow> w2 p = w1 p"
    and "\<And>p. writeFault env p = NoFault \<and> \<not> cannotRemove env p"
    and "\<And>xs. mset (order xs) = mset xs"
    and "plainFile env p"
  shows "\<exists>w3. cleanupLocked env order w2 None cleanAll = (w3, None) \<and>
    w3 p = (case remember (cworld c) (cmanager c) s1 (corig c) p of None \<Rightarrow> w2 p | Some x \<Rightarrow> x)"
proof -
  let ?orig = "remember (cworld c) (cmanager c) s1 (corig c)"
  let ?c2 = "\<lparr>cworld = w2, cmanager = s1, corig = ?orig\<rparr>"
  have "snapshotsOK env c"
    by (rule buildRun_snapshotsOK [OF assms(1,2) snapshotsOK_start])
  then have inv1: "snapshotsOK env \<lparr>cworld = w1, cmanager = s1, corig = ?orig\<rparr>"
    using buildStep.Track [OF assms(3,4), of "corig c"] buildStep_snapshotsOK [OF assms(1)]
    by (metis conf.surjective old.unit.exhaust)
  have inv: "snapshotsOK env ?c2"
    using state_files_in_buildDir(2) [OF assms(1)] assms(6)
    by (intro snapshotsOK_world [OF inv1]) simp
  have "w2 (manifestPath env) = w1 (manifestPath env)"
    using state_files_in_buildDir(1) [OF assms(1)] assms(6) by simp
  then obtain s' where load: "loadStateManager env w2 = Inr (Some s')"
    "mset (smFiles s') = mset (smFiles s1)"
    using track_manifest [OF assms(4,5) inv1, of w2] by metis
  have es: "mset (order (smFiles s')) = mset (smFiles (cmanager ?c2))"
    using load(2) assms(8) by simp
  note rev = snapshotsOK_revertible [OF inv es]
  obtain w' where w': "revertLoop env w2 (order (smFiles s')) = (w', [])"
    using revertLoop_ok [OF assms(1) rev] assms(7)
    by (cases "revertLoop env w2 (order (smFiles s'))") auto
  have rev2: "revertible env w2 (order (smFiles s'))" using rev by simp
  have "w' p = (case map_of (order (smFiles s')) p of None \<Rightarrow> w2 p
      | Some existed \<Rightarrow> if existed then w2 (snapshotOf env p) else None)"
    by (rule revertLoop_restores [OF assms(1) rev2 w'])
  also have "\<dots> = (case ?orig p of None \<Rightarrow> w2 p | Some x \<Rightarrow> x)"
    using revert_value [OF inv es, of p] by (simp only: conf.simps)
  finally show ?thesis
    using cleanupLocked_reverted [where order = order, OF assms(1) load(1) w' assms(9)] by metis
qed

text \<open>
  C3: at any point of a build, whatever was tracked and whatever files were changed in between,
  a \<open>Revert\<close> that reports no error puts every tracked path back to what it held when it was
  first tracked (removing it if it did not exist), and touches nothing else. The order in which
  the map is iterated does not matter, and failed snapshots and commits on the way do no harm.
\<close>

theorem revert_restores:
  assumes "envOK env" and "buildRun env (startOn w0) c"
    and "mset es = mset (smFiles (cmanager c))"
    and "revertLoop env (cworld c) es = (w', [])"
  shows "w' p = (case corig c p of None \<Rightarrow> cworld c p | Some x \<Rightarrow> x)"
proof -
  have inv: "snapshotsOK env c"
    by (rule buildRun_snapshotsOK [OF assms(1,2) snapshotsOK_start])
  note rev = snapshotsOK_revertible [OF inv assms(3)]
  have w': "w' p = (case map_of es p of None \<Rightarrow> cworld c p
      | Some existed \<Rightarrow> if existed then cworld c (snapshotOf env p) else None)"
    by (rule revertLoop_restores [OF assms(1) rev assms(4)])
  show ?thesis unfolding w' by (rule revert_value [OF inv assms(3)])
qed

lemma revert_restores_witness:
  "\<exists>w' c. buildRun sampleEnv (startOn [''/w/go.mod'' \<mapsto> sampleFile ''old'']) c \<and>
     cworld c ''/w/go.mod'' = Some (sampleFile ''new'') \<and>
     revertLoop sampleEnv (cworld c) (smFiles (cmanager c)) = (w', []) \<and>
     w' ''/w/go.mod'' = Some (sampleFile ''old'')"
proof -
  let ?w0 = "[''/w/go.mod'' \<mapsto> sampleFile ''old'']"
  let ?s1 = "addTracked newStateManager ''/w/go.mod'' True"
  let ?orig = "remember ?w0 newStateManager ?s1 Map.empty"
  let ?c1 = "\<lparr>cworld = sampleTracked, cmanager = ?s1, corig = ?orig\<rparr>"
  let ?c2 = "\<lparr>cworld = sampleTracked(''/w/go.mod'' \<mapsto> sampleFile ''new''), cmanager = ?s1, corig = ?orig\<rparr>"
  have "buildStep sampleEnv (startOn ?w0) ?c1"
    by (rule buildStep.Track [OF sample_mayTrack sample_track])
  moreover have "buildStep sampleEnv ?c1 ?c2"
    using sample_facts(2) by (intro buildStep.Change) (simp add: plainFile_def)
  ultimately have run: "buildRun sampleEnv (startOn ?w0) ?c2"
    by (meson buildRun.intros)
  have wf: "writeFault sampleEnv = (\<lambda>_. NoFault)" by (simp add: sampleEnv_def)
  have rev: "revertLoop sampleEnv (cworld ?c2) (smFiles (cmanager ?c2)) =
      (sampleTracked(''/w/go.mod'' \<mapsto> sampleFile ''old''), [])"
    by (simp add: addTracked_def newStateManager_def revertEntry_def copyFile_def sample_facts wf)
      (simp add: sampleTracked_def wf)
  have "?orig ''/w/go.mod'' = Some (Some (sampleFile ''old''))"
    by (auto simp: remember_def addTracked_def newStateManager_def)
  with revert_restores [OF sample_facts(1) run refl rev, of "''/w/go.mod''"] run rev
  show ?thesis by (intro exI [of _ "sampleTracked(''/w/go.mod'' \<mapsto> sampleFile ''old'')"] exI [of _ ?c2]) simp
qed

text \<open>
  C4: a killed build can be cleaned up by a later process. After a \<open>Track\<close> that recorded a new
  path without an error, whatever happens to files outside the build directory, a cleanup that
  finds no manager in its context and can write the tracked files loads the manifest and brings
  every tracked file back to its original state, and leaves the user's other files alone.
\<close>

theorem cleanup_after_crash:
  assumes "envOK env" and "buildRun env (startOn w0) c" and "mayTrack env (cmanager c) path"
    and "track env (cworld c) (cmanager c) path = (w1, s1, None)" and "s1 \<noteq> cmanager c"
    and "\<And>p. inBuildDir env p \<Longrightarrow> w2 p = w1 p"
    and "\<And>p. writeFault env p = NoFault \<and> \<not> cannotRemove env p"
    and "\<And>xs. mset (order xs) = mset xs"
    and "plainFile env p"
  shows "\<exists>w3. cleanupLocked env order w2 None cleanAll = (w3, None) \<and>
    w3 p = (case remember (cworld c) (cmanager c) s1 (corig c) p of None \<Rightarrow> w2 p | Some x \<Rightarrow> x)"
  using assms by (rule cleanup_restores)

lemma cleanup_after_crash_witness:
  "\<exists>w3. cleanupLocked sampleEnv rev (sampleTracked(''/w/go.mod'' := None)) None True = (w3, None) \<and>
     w3 ''/w/go.mod'' = Some (sampleFile ''old'')"
proof -
  let ?w0 = "[''/w/go.mod'' \<mapsto> sampleFile ''old'']"
  let ?s1 = "addTracked newStateManager ''/w/go.mod'' True"
  have ne: "?s1 \<noteq> newStateManager" by (auto simp: addTracked_def newStateManager_def)
  have faults: "writeFault sampleEnv p = NoFault \<and> \<not> cannotRemove sampleEnv p" for p
    by (simp add: sampleEnv_def)
  have out: "inBuildDir sampleEnv p \<Longrightarrow> (sampleTracked(''/w/go.mod'' := None)) p = sampleTracked p" for p
    using sample_facts(2) by (auto simp: plainFile_def)
  have "remember ?w0 newStateManager ?s1 Map.empty ''/w/go.mod'' = Some (Some (sampleFile ''old''))"
    by (auto simp: remember_def addTracked_def newStateManager_def)
  moreover have "\<exists>w3. cleanupLocked sampleEnv rev (sampleTracked(''/w/go.mod'' := None)) None True = (w3, None) \<and>
      w3 ''/w/go.mod'' = (case remember ?w0 newStateManager ?s1 Map.empty ''/w/go.mod'' of
         None \<Rightarrow> (sampleTracked(''/w/go.mod'' := None)) ''/w/go.mod'' | Some x \<Rightarrow> x)"
    using cleanup_after_crash [OF sample_facts(1) buildRun.Start [of _ "startOn ?w0"], of "''go.mod''" sampleTracked ?s1
        "sampleTracked(''/w/go.mod'' := None)" rev "''/w/go.mod''" True]
      sample_mayTrack sample_track ne out faults sample_facts(2)
    by (simp only: conf.simps mset_rev simp_thms)
  ultimately show ?thesis by simp
qed

lemma track_fresh_file:
  assumes "envOK env" and "plainFile env p" and "w p = Some f" and "\<And>q. writeFault env q = NoFault"
  obtains w' where "track env w newStateManager p = (w', addTracked newStateManager p True, None)"
    and "w' p = Some f" and "mayTrack env newStateManager p"
proof -
  have p: "pathAbs (getwd env) p = Some p" "pathClean p = p"
    using assms(2) by (simp_all add: pathAbs_def plainFile_def)
  let ?w1 = "w(snapshotOf env p \<mapsto> f)"
  have ne: "p \<noteq> snapshotOf env p" "p \<noteq> manifestPath env"
    using plainFile_not_state [OF assms(1,2)] assms(2) by blast+
  have "copyFile env w p (snapshotOf env p) = (?w1, True)"
    using ne(1) by (simp add: copyFile_def assms(3,4))
  moreover obtain w' where c: "commit env ?w1 (addTracked newStateManager p True) = (w', None)"
    by (simp add: commit_def Let_def assms(4) addTracked_def)
  ultimately have "track env w newStateManager p = (w', addTracked newStateManager p True, None)"
    by (simp add: track_def p Let_def newStateManager_def pathExists_def assms(3))
  moreover have "w' p = Some f" using commit_world [OF c ne(2)] ne(1) assms(3) by simp
  moreover have "mayTrack env newStateManager p"
    by (simp add: mayTrack_def p assms(2) newStateManager_def)
  ultimately show ?thesis using that by blast
qed

text \<open>
  A second setup loses the originals of the first. Setup starts from an empty manager and
  does not read the committed state; when a file that a first setup tracked and changed (from
  \<open>f\<close> to \<open>g\<close>) is tracked again before any cleanup, the snapshot is overwritten, and the later
  cleanup restores \<open>g\<close>: the original content is gone.
\<close>

theorem second_setup_loses_original:
  assumes "envOK env" and "plainFile env p" and "\<And>q. writeFault env q = NoFault \<and> \<not> cannotRemove env q"
    and "\<And>xs. mset (order xs) = mset xs" and "w p = Some f"
  shows "\<exists>w1 s1 w2 s2 w3. track env w newStateManager p = (w1, s1, None) \<and>
    track env (w1(p \<mapsto> g)) newStateManager p = (w2, s2, None) \<and>
    cleanupLocked env order w2 None False = (w3, None) \<and> w3 p = Some g"
proof -
  note nf = assms(3) [THEN conjunct1]
  obtain w1 where t1: "track env w newStateManager p = (w1, addTracked newStateManager p True, None)"
    using track_fresh_file [of env p w f] assms(1,2,5) nf by metis
  obtain w2 where t2: "track env (w1(p \<mapsto> g)) newStateManager p = (w2, addTracked newStateManager p True, None)"
    and may: "mayTrack env newStateManager p"
    using track_fresh_file [of env p "w1(p \<mapsto> g)" g] assms(1,2) nf by (metis fun_upd_same)
  let ?s = "addTracked newStateManager p True"
  let ?c = "startOn (w1(p \<mapsto> g))"
  have ne: "?s \<noteq> newStateManager" by (auto simp: addTracked_def newStateManager_def)
  have "\<exists>w3. cleanupLocked env order w2 None False = (w3, None) \<and>
      w3 p = (case remember (cworld ?c) (cmanager ?c) ?s (corig ?c) p of None \<Rightarrow> w2 p | Some x \<Rightarrow> x)"
    by (rule cleanup_restores [where order = order and path = p, OF assms(1) buildRun.Start _ _ _ _ assms(3,4,2)])
      (simp_all add: may t2 ne)
  moreover have "remember (w1(p \<mapsto> g)) newStateManager ?s Map.empty p = Some (Some g)"
    by (auto simp: remember_def addTracked_def newStateManager_def)
  ultimately show ?thesis using t1 t2 by (auto simp del: fun_upd_apply)
qed

lemma second_setup_loses_original_witness:
  "\<exists>w1 s1 w2 s2 w3. track sampleEnv [''/w/go.mod'' \<mapsto> sampleFile ''old''] newStateManager ''/w/go.mod'' = (w1, s1, None) \<and>
    track sampleEnv (w1(''/w/go.mod'' \<mapsto> sampleFile ''new'')) newStateManager ''/w/go.mod'' = (w2, s2, None) \<and>
    cleanupLocked sampleEnv rev w2 None False = (w3, None) \<and> w3 ''/w/go.mod'' = Some (sampleFile ''new'')"
  by (rule second_setup_loses_original [where f = "sampleFile ''old''"])
    (simp_all add: sample_facts, simp_all add: sampleEnv_def)

end
