(* ===== verification/Build_Lock.thy ===== *)
theory Build_Lock
  imports Go_Prelude
begin

text \<open>
  The build lock, \<open>tool/internal/setup/lock.go\<close>: processes that change the same module take an
  advisory lock on a file next to the build directory. The holder removes the file on release,
  so a process can lock a file that the path no longer names; it notices this and retries. The
  model is a step relation over any number of processes, one step per system call, with the
  file at the lock path identified by an inode number. Crashes are steps: the kernel drops the
  locks of a dead process, and the file stays.

  \<open>windows\<close> selects the removal semantics: on Windows an open file cannot be removed, on Unix it
  can. The work directory is taken to exist (without one the code locks nothing).

  Shown: at most one process is inside the critical section, at any time and under any
  interleaving, and a process that runs alone gets the lock whatever files were left behind.
\<close>

section \<open>Processes and the lock file\<close>

text \<open>
  Where a process is: outside, with a fresh handle (\<open>tryAcquire\<close> opens the path), with the
  flock on it, inside, or in the release function, after its first removal (and whether that
  removed the file) or after the unlock with the second removal still to come.
\<close>

datatype lockPc =
    Outside
  | Opened nat
  | Locked nat
  | Inside nat
  | Releasing nat bool
  | Unlocked

record lockSys =
  lockEntry :: "nat option"
  lockOwner :: "nat \<Rightarrow> nat option"
  nextInode :: nat
  procPc :: "nat \<Rightarrow> lockPc"

definition initialLock :: "nat option \<Rightarrow> lockSys" where
  "initialLock leftover = \<lparr>lockEntry = leftover, lockOwner = (\<lambda>_. None),
     nextInode = (case leftover of None \<Rightarrow> 0 | Some i \<Rightarrow> Suc i), procPc = (\<lambda>_. Outside)\<rparr>"

fun handleOf :: "lockPc \<Rightarrow> nat option" where
  "handleOf Outside = None"
| "handleOf (Opened i) = Some i"
| "handleOf (Locked i) = Some i"
| "handleOf (Inside i) = Some i"
| "handleOf (Releasing i r) = Some i"
| "handleOf Unlocked = None"

text \<open>\<open>os.Remove\<close> of the lock path succeeds.\<close>

definition canRemove :: "bool \<Rightarrow> lockSys \<Rightarrow> bool" where
  "canRemove windows s \<longleftrightarrow> lockEntry s \<noteq> None \<and>
     (windows \<longrightarrow> (\<forall>q. handleOf (procPc s q) \<noteq> lockEntry s))"

text \<open>\<open>moveTo\<close> changes the place of a process, \<open>dropLock\<close> releases the flock on an inode.\<close>

definition moveTo :: "nat \<Rightarrow> lockPc \<Rightarrow> lockSys \<Rightarrow> lockSys" where
  "moveTo p c s = s\<lparr>procPc := (procPc s)(p := c)\<rparr>"

definition dropLock :: "nat \<Rightarrow> lockSys \<Rightarrow> lockSys" where
  "dropLock i s = s\<lparr>lockOwner := (lockOwner s)(i := None)\<rparr>"

inductive lockStep :: "bool \<Rightarrow> lockSys \<Rightarrow> lockSys \<Rightarrow> bool" for windows where
  OpenExisting: "procPc s p = Outside \<Longrightarrow> lockEntry s = Some i \<Longrightarrow>
    lockStep windows s (moveTo p (Opened i) s)"
| OpenCreate: "procPc s p = Outside \<Longrightarrow> lockEntry s = None \<Longrightarrow>
    lockStep windows s (moveTo p (Opened (nextInode s))
      (s\<lparr>lockEntry := Some (nextInode s), nextInode := Suc (nextInode s)\<rparr>))"
| FlockGranted: "procPc s p = Opened i \<Longrightarrow> lockOwner s i = None \<Longrightarrow>
    lockStep windows s (moveTo p (Locked i) (s\<lparr>lockOwner := (lockOwner s)(i \<mapsto> p)\<rparr>))"
| FlockRefused: "procPc s p = Opened i \<Longrightarrow> lockStep windows s (moveTo p Outside s)"
| CurrentFile: "procPc s p = Locked i \<Longrightarrow> lockEntry s = Some i \<Longrightarrow>
    lockStep windows s (moveTo p (Inside i) s)"
| StaleFile: "procPc s p = Locked i \<Longrightarrow> lockEntry s \<noteq> Some i \<Longrightarrow>
    lockStep windows s (moveTo p Outside (dropLock i s))"
| StatError: "procPc s p = Locked i \<Longrightarrow> lockStep windows s (moveTo p Outside (dropLock i s))"
| RemoveFirst: "procPc s p = Inside i \<Longrightarrow> canRemove windows s \<Longrightarrow>
    lockStep windows s (moveTo p (Releasing i True) (s\<lparr>lockEntry := None\<rparr>))"
| RemoveFirstFails: "procPc s p = Inside i \<Longrightarrow> \<not> canRemove windows s \<Longrightarrow>
    lockStep windows s (moveTo p (Releasing i False) s)"
| Unlock: "procPc s p = Releasing i removed \<Longrightarrow>
    lockStep windows s (moveTo p (if removed then Outside else Unlocked) (dropLock i s))"
| RemoveAgain: "procPc s p = Unlocked \<Longrightarrow> canRemove windows s \<Longrightarrow>
    lockStep windows s (moveTo p Outside (s\<lparr>lockEntry := None\<rparr>))"
| RemoveAgainFails: "procPc s p = Unlocked \<Longrightarrow> \<not> canRemove windows s \<Longrightarrow>
    lockStep windows s (moveTo p Outside s)"
| Crash: "lockStep windows s (moveTo p Outside
    (s\<lparr>lockOwner := (\<lambda>i. if lockOwner s i = Some p then None else lockOwner s i)\<rparr>))"

inductive lockRun :: "bool \<Rightarrow> lockSys \<Rightarrow> lockSys \<Rightarrow> bool" for windows where
  Stop: "lockRun windows s s"
| Next: "lockRun windows s t \<Longrightarrow> lockStep windows t u \<Longrightarrow> lockRun windows s u"

inductive_cases lockStepE: "lockStep windows s t"

lemma lockRun_trans: "lockRun windows t u \<Longrightarrow> lockRun windows s t \<Longrightarrow> lockRun windows s u"
  by (induction rule: lockRun.induct) (auto intro: lockRun.intros)

lemma lockRun_step: "lockStep windows s t \<Longrightarrow> lockRun windows s t"
  by (meson lockRun.intros)

section \<open>The invariant\<close>

fun ownsLock :: "lockPc \<Rightarrow> nat \<Rightarrow> bool" where
  "ownsLock (Locked i) j = (i = j)"
| "ownsLock (Inside i) j = (i = j)"
| "ownsLock (Releasing i r) j = (i = j)"
| "ownsLock _ j = False"

text \<open>
  A process owns exactly the flock its place says; the file a process inside has locked is the
  one at the path; on Unix the first removal never fails; inode numbers are fresh.
\<close>

definition lockInv :: "bool \<Rightarrow> lockSys \<Rightarrow> bool" where
  "lockInv windows s \<longleftrightarrow>
     (\<forall>p i. lockOwner s i = Some p \<longleftrightarrow> ownsLock (procPc s p) i) \<and>
     (\<forall>p i. procPc s p = Inside i \<longrightarrow> lockEntry s = Some i) \<and>
     (\<forall>p. \<not> windows \<longrightarrow> procPc s p \<noteq> Unlocked \<and> (\<forall>i. procPc s p \<noteq> Releasing i False)) \<and>
     (\<forall>i. lockEntry s = Some i \<longrightarrow> i < nextInode s) \<and>
     (\<forall>p i. handleOf (procPc s p) = Some i \<longrightarrow> i < nextInode s)"

lemma lockInv_initial: "lockInv windows (initialLock leftover)"
  by (auto simp: lockInv_def initialLock_def)

lemma lockSys_sel [simp]:
  "procPc (moveTo p c s) = (procPc s)(p := c)" "lockEntry (moveTo p c s) = lockEntry s"
  "lockOwner (moveTo p c s) = lockOwner s" "nextInode (moveTo p c s) = nextInode s"
  "procPc (dropLock i s) = procPc s" "lockEntry (dropLock i s) = lockEntry s"
  "lockOwner (dropLock i s) = (lockOwner s)(i := None)" "nextInode (dropLock i s) = nextInode s"
  by (simp_all add: moveTo_def dropLock_def)

lemma ownsLock_handle: "ownsLock c i \<Longrightarrow> handleOf c = Some i"
  by (cases c) auto

lemma ownsLock_unique: "ownsLock c i \<Longrightarrow> ownsLock c j \<Longrightarrow> i = j"
  by (cases c) auto

lemma lockInv_owner:
  "lockInv windows s \<Longrightarrow> ownsLock (procPc s p) i \<Longrightarrow> ownsLock (procPc s q) i \<Longrightarrow> p = q"
  by (metis lockInv_def option.inject)

lemma lockInv_no_owner: "lockInv windows s \<Longrightarrow> lockOwner s (nextInode s) = None"
  by (metis lockInv_def not_Some_eq ownsLock_handle less_irrefl)

lemma lockInv_inode: "lockInv windows s \<Longrightarrow> handleOf (procPc s p) = Some i \<Longrightarrow> i < nextInode s"
  by (simp add: lockInv_def)

lemma lockInv_iff: "lockInv windows s \<Longrightarrow> lockOwner s i = Some p \<longleftrightarrow> ownsLock (procPc s p) i"
  by (simp add: lockInv_def)

lemma lockInv_inside: "lockInv windows s \<Longrightarrow> procPc s p = Inside i \<Longrightarrow> lockEntry s = Some i"
  by (simp add: lockInv_def)

lemma lockInv_one_inside:
  assumes "lockInv windows s" and "procPc s p = Inside i" and "procPc s q = Inside j"
  shows "p = q"
proof -
  have "i = j"
    using lockInv_inside [OF assms(1)] assms(2,3) by (metis option.inject)
  then show ?thesis
    using lockInv_owner [OF assms(1), of p i q] assms(2,3) by simp
qed

lemma lockInv_outside:
  assumes inv: "lockInv windows s" and own: "ownsLock (procPc s p) i"
    and c: "c = Outside \<or> c = Unlocked \<and> procPc s p = Releasing i False"
  shows "lockInv windows (moveTo p c (dropLock i s))"
proof -
  have owner: "((lockOwner s)(i := None)) j = Some q \<longleftrightarrow> ownsLock (((procPc s)(p := c)) q) j" for q j
  proof (cases "q = p")
    case True
    have "\<not> ownsLock c j" using c by auto
    with True show ?thesis
      using lockInv_iff [OF inv, of j p] ownsLock_unique [OF own, of j] by auto
  next
    case False
    with lockInv_owner [OF inv own, of q] have "\<not> ownsLock (procPc s q) i" by blast
    with False show ?thesis
      using lockInv_iff [OF inv, of j q] by auto
  qed
  have "((procPc s)(p := c)) q = Inside j \<Longrightarrow> lockEntry s = Some j" for q j
    using lockInv_inside [OF inv, of q j] c by (auto split: if_splits)
  moreover have "handleOf (((procPc s)(p := c)) q) = Some j \<Longrightarrow> j < nextInode s" for q j
    using lockInv_inode [OF inv, of q j] c by (auto split: if_splits)
  moreover have "\<not> windows \<Longrightarrow> ((procPc s)(p := c)) q \<noteq> Unlocked \<and> ((procPc s)(p := c)) q \<noteq> Releasing j False" for q j
    using inv c unfolding lockInv_def by auto
  ultimately show ?thesis
    using owner inv unfolding lockInv_def lockSys_sel by blast
qed

lemma lockStep_inv: "lockStep windows s t \<Longrightarrow> lockInv windows s \<Longrightarrow> lockInv windows t"
proof (induction rule: lockStep.induct)
  case (OpenCreate s p)
  then show ?case by (auto simp: lockInv_def intro: less_SucI)
next
  case (FlockGranted s p i)
  then have "\<not> ownsLock (procPc s q) i" for q
    by (metis lockInv_def option.distinct(1))
  moreover have "i < nextInode s"
    by (rule lockInv_inode [OF FlockGranted(3), of p]) (simp add: FlockGranted(1))
  ultimately show ?case
    using FlockGranted by (auto simp: lockInv_def)
next
  case (RemoveFirst s p i)
  then have "procPc s q \<noteq> Inside j" if "q \<noteq> p" for q j
    using lockInv_one_inside that by blast
  with RemoveFirst show ?case by (simp add: lockInv_def)
next
  case (RemoveFirstFails s p i)
  have e: "lockEntry s = Some i" by (rule lockInv_inside [OF RemoveFirstFails(3,1)])
  then have "windows" using RemoveFirstFails(2) by (simp add: canRemove_def)
  moreover have "procPc s q \<noteq> Inside j" if "q \<noteq> p" for q j
    using lockInv_one_inside [OF RemoveFirstFails(3,1)] that by blast
  ultimately show ?case
    using RemoveFirstFails(1,3) by (simp add: lockInv_def)
next
  case (RemoveAgain s p)
  then have "windows" by (meson lockInv_def)
  with RemoveAgain(2) have "procPc s q \<noteq> Inside j" for q j
    using RemoveAgain(3) by (metis canRemove_def handleOf.simps(4) lockInv_def)
  with RemoveAgain show ?case by (simp add: lockInv_def)
next
  case (StaleFile s p i)
  then show ?case by (intro lockInv_outside) simp_all
next
  case (StatError s p i)
  then show ?case by (intro lockInv_outside) simp_all
next
  case (Unlock s p i removed)
  then show ?case by (intro lockInv_outside) simp_all
next
  case (Crash s p)
  have "(if lockOwner s i = Some p then None else lockOwner s i) = Some q \<longleftrightarrow>
      ownsLock (((procPc s)(p := Outside)) q) i" for q i
    using lockInv_iff [OF Crash, of i p] lockInv_iff [OF Crash, of i q] by auto
  with Crash show ?case by (auto simp: lockInv_def simp del: fun_upd_apply simp: fun_upd_def)
qed (auto simp: lockInv_def)

lemma lockRun_inv: "lockRun windows s t \<Longrightarrow> lockInv windows s \<Longrightarrow> lockInv windows t"
  by (induction rule: lockRun.induct) (auto intro: lockStep_inv)

section \<open>Properties\<close>

text \<open>
  C5: mutual exclusion. However many processes run, crash and are restarted, on Unix and on
  Windows, from any leftover lock file: two processes inside the critical section are the same
  process, and the file it has locked is the one at the lock path.
\<close>

theorem lock_mutual_exclusion:
  assumes "lockRun windows (initialLock leftover) s"
    and "procPc s p = Inside i" and "procPc s q = Inside j"
  shows "p = q \<and> lockEntry s = Some i"
proof -
  have inv: "lockInv windows s"
    by (rule lockRun_inv [OF assms(1) lockInv_initial])
  then show ?thesis
    using lockInv_one_inside lockInv_inside assms(2,3) by blast
qed

lemma lock_mutual_exclusion_witness:
  "\<exists>s. lockRun False (initialLock None) s \<and> procPc s 7 = Inside 0 \<and> lockEntry s = Some 0"
proof -
  define s1 where "s1 = moveTo 7 (Opened 0) ((initialLock None)\<lparr>lockEntry := Some 0, nextInode := 1\<rparr>)"
  define s2 where "s2 = moveTo 7 (Locked 0) (s1\<lparr>lockOwner := (lockOwner s1)(0 \<mapsto> 7)\<rparr>)"
  have "lockStep False (initialLock None) s1"
    using lockStep.OpenCreate [of "initialLock None" 7 False] by (simp add: s1_def initialLock_def)
  moreover have "lockStep False s1 s2"
    unfolding s2_def by (rule lockStep.FlockGranted) (simp_all add: s1_def initialLock_def)
  moreover have "lockStep False s2 (moveTo 7 (Inside 0) s2)"
    by (rule lockStep.CurrentFile) (simp_all add: s2_def s1_def)
  ultimately have run: "lockRun False (initialLock None) (moveTo 7 (Inside 0) s2)"
    by (meson lockRun.intros)
  then show ?thesis
    using lock_mutual_exclusion [OF run, of 7 0 7 0] by (intro exI [of _ "moveTo 7 (Inside 0) s2"]) simp
qed

text \<open>
  C6: no leftover blocks the lock. In any state that can arise, if all other processes are
  outside (having finished or crashed at any point), a process outside gets into the critical
  section by its own steps: it opens the path (or creates the file), takes the flock, and finds
  the file current.
\<close>

theorem lock_available:
  assumes "lockRun windows (initialLock leftover) s" and "\<And>q. procPc s q = Outside"
  shows "\<exists>t i. lockRun windows s t \<and> procPc t p = Inside i \<and> (\<forall>q. q \<noteq> p \<longrightarrow> procPc t q = Outside)"
proof -
  have inv: "lockInv windows s"
    by (rule lockRun_inv [OF assms(1) lockInv_initial])
  obtain s1 i where s1: "lockStep windows s s1" "procPc s1 = (procPc s)(p := Opened i)" "lockEntry s1 = Some i"
  proof (cases "lockEntry s")
    case None
    from that [OF lockStep.OpenCreate [OF assms(2) None]] show ?thesis by simp
  next
    case (Some i)
    from that [OF lockStep.OpenExisting [OF assms(2) Some]] Some show ?thesis by simp
  qed
  have "lockInv windows s1" by (rule lockStep_inv [OF s1(1) inv])
  then have free: "lockOwner s1 i = None"
    using s1(2) assms(2) by (metis fun_upd_apply lockInv_def not_Some_eq ownsLock.simps(4,5))
  let ?s2 = "moveTo p (Locked i) (s1\<lparr>lockOwner := (lockOwner s1)(i \<mapsto> p)\<rparr>)"
  have s2: "lockStep windows s1 ?s2"
    by (rule lockStep.FlockGranted [OF _ free]) (simp add: s1(2))
  have s3: "lockStep windows ?s2 (moveTo p (Inside i) ?s2)"
    by (rule lockStep.CurrentFile) (simp_all add: s1)
  have "lockRun windows s (moveTo p (Inside i) ?s2)"
    using s1(1) s2 s3 by (meson lockRun.intros)
  then show ?thesis
    using s1(2) assms(2) by (intro exI [of _ "moveTo p (Inside i) ?s2"] exI [of _ i]) simp
qed

lemma lock_available_witness:
  "\<exists>t i. lockRun True (initialLock (Some 4)) t \<and> procPc t 1 = Inside i"
  using lock_available [OF lockRun.Stop [of True "initialLock (Some 4)"], of 1]
  by (auto simp: initialLock_def)

end
