(* ===== verification/Rule_Target.thy ===== *)
theory Rule_Target
  imports Codec
begin

text \<open>
  The packages a rule applies to, \<open>tool/internal/rule/target.go\<close> and
  \<open>tool/internal/rule/target_glob.go\<close>. A target has included and excluded patterns, each an
  import path, a glob, or \<open>$root\<close>. The glob library (doublestar) is a parameter: \<open>globMatch\<close>
  (\<open>None\<close> is an error) and \<open>validGlob\<close>. YAML documents are node trees as the YAML library
  parses them; JSON documents are trees read by the rules of \<open>encoding/json\<close>. Strings are
  valid UTF-8, as the YAML library guarantees (JSON would replace other bytes).

  Shown: a validated target survives being written and read, in YAML and in JSON; the key
  lookup that \<open>Exact\<close> allows agrees with matching; the rendering of targets is ambiguous.
\<close>

record Target =
  Include :: "string list"
  Exclude :: "string list"

definition newTarget :: "string list \<Rightarrow> Target" where
  "newTarget patterns = \<lparr>Include = patterns, Exclude = []\<rparr>"

definition isZero :: "Target \<Rightarrow> bool" where
  "isZero t \<longleftrightarrow> Include t = [] \<and> Exclude t = []"

definition singular :: "Target \<Rightarrow> bool" where
  "singular t \<longleftrightarrow> length (Include t) \<le> 1 \<and> Exclude t = []"

definition firstPattern :: "Target \<Rightarrow> string" where
  "firstPattern t = (case Include t of [] \<Rightarrow> [] | p # _ \<Rightarrow> p)"

definition targetString :: "Target \<Rightarrow> string" where
  "targetString t =
     (if singular t then firstPattern t
      else ''['' @ joinWith '', '' (Include t @ map (\<lambda>p. ''not '' @ p) (Exclude t)) @ '']'')"

section \<open>Patterns, target_glob.go\<close>

definition isRootTarget :: "string \<Rightarrow> bool" where
  "isRootTarget target \<longleftrightarrow> target = ''$root''"

definition isGlobTarget :: "string \<Rightarrow> bool" where
  "isGlobTarget target \<longleftrightarrow> indexAny target ''*?[{'' \<noteq> None"

datatype targetError =
    NotExactlyRoot string
  | InvalidGlob string
  | OnlyNotEntries
  | TargetRequired
  | EmptyPattern

definition validateTarget :: "(string \<Rightarrow> bool) \<Rightarrow> string \<Rightarrow> targetError option" where
  "validateTarget validGlob target =
     (if contains (toLower target) ''$root'' \<and> target \<noteq> ''$root'' then Some (NotExactlyRoot target)
      else if \<not> isGlobTarget target then None
      else if \<not> validGlob target then Some (InvalidGlob target)
      else None)"

definition matchGlobTarget :: "(string \<Rightarrow> string \<Rightarrow> bool option) \<Rightarrow> string \<Rightarrow> string \<Rightarrow> bool" where
  "matchGlobTarget globMatch pattern importPath \<longleftrightarrow> globMatch pattern importPath = Some True"

section \<open>Selecting packages, target.go\<close>

definition exactTarget :: "Target \<Rightarrow> string option" where
  "exactTarget t =
     (if length (Include t) \<noteq> 1 \<or> length (Exclude t) \<noteq> 0 then None
      else let p = Include t ! 0
           in if isRootTarget p \<or> isGlobTarget p then None else Some p)"

definition includesRoot :: "Target \<Rightarrow> bool" where
  "includesRoot t \<longleftrightarrow> ''$root'' \<in> set (Include t)"

definition usesRoot :: "Target \<Rightarrow> bool" where
  "usesRoot t \<longleftrightarrow> includesRoot t \<or> ''$root'' \<in> set (Exclude t)"

fun validatePatterns :: "(string \<Rightarrow> bool) \<Rightarrow> string list \<Rightarrow> targetError option" where
  "validatePatterns validGlob [] = None"
| "validatePatterns validGlob (p # ps) =
     (if blank p then Some EmptyPattern
      else case validateTarget validGlob p of
             Some e \<Rightarrow> Some e
           | None \<Rightarrow> validatePatterns validGlob ps)"

definition targetValidate :: "(string \<Rightarrow> bool) \<Rightarrow> Target \<Rightarrow> targetError option" where
  "targetValidate validGlob t =
     (if Include t = [] then
        (if Exclude t \<noteq> [] then Some OnlyNotEntries else Some TargetRequired)
      else validatePatterns validGlob (Include t @ Exclude t))"

definition matchPattern ::
    "(string \<Rightarrow> string \<Rightarrow> bool option) \<Rightarrow> string \<Rightarrow> string \<Rightarrow> string list \<Rightarrow> bool" where
  "matchPattern globMatch pattern importPath roots =
     (if isRootTarget pattern then
        list_ex (\<lambda>root. matchGlobTarget globMatch (root @ ''/**'') importPath) roots
      else if isGlobTarget pattern then matchGlobTarget globMatch pattern importPath
      else pattern = importPath)"

definition matchesAnyPattern ::
    "(string \<Rightarrow> string \<Rightarrow> bool option) \<Rightarrow> string list \<Rightarrow> string \<Rightarrow> string list \<Rightarrow> bool" where
  "matchesAnyPattern globMatch patterns importPath roots =
     list_ex (\<lambda>p. matchPattern globMatch p importPath roots) patterns"

definition targetMatches ::
    "(string \<Rightarrow> string \<Rightarrow> bool option) \<Rightarrow> Target \<Rightarrow> string \<Rightarrow> string list \<Rightarrow> bool" where
  "targetMatches globMatch t importPath roots \<longleftrightarrow>
     matchesAnyPattern globMatch (Include t) importPath roots \<and>
     \<not> matchesAnyPattern globMatch (Exclude t) importPath roots"

section \<open>YAML\<close>

text \<open>
  Go values as the YAML library produces and accepts them (maps in some iteration order), and
  the nodes of a parsed document. The content of a mapping node alternates keys and values.
\<close>

datatype yval =
    VNull
  | VBool bool
  | VNum string
  | VStr string
  | VSeq "yval list"
  | VMap "(string \<times> yval) list"

datatype ynode =
    ScalarNode (nodeTag: string) (nodeValue: string)
  | SequenceNode "ynode list"
  | MappingNode "ynode list"
  | DocumentNode "ynode list"
  | AliasNode "ynode option"

fun resolveAlias :: "ynode \<Rightarrow> ynode" where
  "resolveAlias (AliasNode (Some n)) = n"
| "resolveAlias n = n"

datatype shapeError = BadListEntry | NotPatternOrList

text \<open>The value of a node that is not a scalar is empty.\<close>

fun valueOf :: "ynode \<Rightarrow> string" where
  "valueOf (ScalarNode tag v) = v"
| "valueOf n = []"

fun readEntries :: "ynode list \<Rightarrow> Target \<Rightarrow> shapeError + Target" where
  "readEntries [] t = Inr t"
| "readEntries (raw # rest) t =
     (case resolveAlias raw of
        ScalarNode tag v \<Rightarrow>
          if tag \<noteq> ''!!null'' then readEntries rest (t\<lparr>Include := Include t @ [v]\<rparr>)
          else Inl BadListEntry
      | MappingNode [k, v] \<Rightarrow>
          if valueOf k = ''not'' then
            (case resolveAlias v of
               ScalarNode tag p \<Rightarrow>
                 if tag = ''!!null'' then Inl BadListEntry
                 else readEntries rest (t\<lparr>Exclude := Exclude t @ [p]\<rparr>)
             | _ \<Rightarrow> Inl BadListEntry)
          else Inl BadListEntry
      | _ \<Rightarrow> Inl BadListEntry)"

definition unmarshalYAML :: "ynode \<Rightarrow> shapeError + Target" where
  "unmarshalYAML node =
     (case resolveAlias node of
        ScalarNode tag v \<Rightarrow>
          if tag \<noteq> ''!!null'' \<and> \<not> blank v then Inr \<lparr>Include = [v], Exclude = []\<rparr>
          else Inr \<lparr>Include = [], Exclude = []\<rparr>
      | SequenceNode items \<Rightarrow> readEntries items \<lparr>Include = [], Exclude = []\<rparr>
      | _ \<Rightarrow> Inl NotPatternOrList)"

definition targetEntries :: "Target \<Rightarrow> yval list" where
  "targetEntries t = map VStr (Include t) @ map (\<lambda>p. VMap [(''not'', VStr p)]) (Exclude t)"

definition marshalYAML :: "Target \<Rightarrow> yval" where
  "marshalYAML t = (if singular t then VStr (firstPattern t) else VSeq (targetEntries t))"

section \<open>JSON\<close>

text \<open>
  A JSON document. Decoding into a Go string accepts a string, and \<open>null\<close>, which leaves the
  variable empty; decoding into a map of strings accepts an object of such values, where a
  later duplicate key wins, and \<open>null\<close>, which leaves the map empty.
\<close>

datatype jval =
    JNull
  | JBool bool
  | JNum string
  | JStr string
  | JArr "jval list"
  | JObj "(string \<times> jval) list"

fun jsonString :: "jval \<Rightarrow> string option" where
  "jsonString (JStr s) = Some s"
| "jsonString JNull = Some []"
| "jsonString _ = None"

fun jsonStringMap :: "jval \<Rightarrow> (string \<times> string) list option" where
  "jsonStringMap (JObj kvs) =
     foldl (\<lambda>m (k, v). case (m, jsonString v) of
         (Some m, Some s) \<Rightarrow> Some ((k, s) # filter (\<lambda>(k', _). k' \<noteq> k) m)
       | _ \<Rightarrow> None) (Some []) kvs"
| "jsonStringMap JNull = Some []"
| "jsonStringMap _ = None"

fun readItems :: "jval list \<Rightarrow> Target \<Rightarrow> shapeError + Target" where
  "readItems [] t = Inr t"
| "readItems (item # rest) t =
     (case jsonString item of
        Some pattern \<Rightarrow> readItems rest (t\<lparr>Include := Include t @ [pattern]\<rparr>)
      | None \<Rightarrow>
          (case jsonStringMap item of
             Some [(k, v)] \<Rightarrow>
               if k = ''not'' \<and> v \<noteq> [] then readItems rest (t\<lparr>Exclude := Exclude t @ [v]\<rparr>)
               else Inl BadListEntry
           | _ \<Rightarrow> Inl BadListEntry))"

definition unmarshalJSON :: "jval \<Rightarrow> shapeError + Target" where
  "unmarshalJSON data =
     (case jsonString data of
        Some single \<Rightarrow>
          if \<not> blank single then Inr \<lparr>Include = [single], Exclude = []\<rparr>
          else Inr \<lparr>Include = [], Exclude = []\<rparr>
      | None \<Rightarrow>
          (case data of
             JArr items \<Rightarrow> readItems items \<lparr>Include = [], Exclude = []\<rparr>
           | _ \<Rightarrow> Inl NotPatternOrList))"

text \<open>\<open>json.Marshal\<close> of the values the code builds\<close>

fun toJson :: "yval \<Rightarrow> jval" where
  "toJson VNull = JNull"
| "toJson (VBool b) = JBool b"
| "toJson (VNum n) = JNum n"
| "toJson (VStr s) = JStr s"
| "toJson (VSeq xs) = JArr (map toJson xs)"
| "toJson (VMap kvs) = JObj (map (\<lambda>(k, v). (k, toJson v)) kvs)"

definition marshalJSON :: "Target \<Rightarrow> jval" where
  "marshalJSON t = toJson (if singular t then VStr (firstPattern t) else VSeq (targetEntries t))"

section \<open>Lemmas\<close>

lemma validatePatterns_None:
  "validatePatterns validGlob ps = None \<longleftrightarrow>
     list_all (\<lambda>p. \<not> blank p \<and> validateTarget validGlob p = None) ps"
  by (induction ps) (auto split: option.splits)

lemma targetValidate_None:
  "targetValidate validGlob t = None \<longleftrightarrow> Include t \<noteq> [] \<and>
     list_all (\<lambda>p. \<not> blank p \<and> validateTarget validGlob p = None) (Include t @ Exclude t)"
  by (simp add: targetValidate_def validatePatterns_None)

lemma blank_Nil [simp]: "blank []"
  by (simp add: trimSpace_def trimLeftSpace.simps trimRightSpace.simps leadingSpace_def
      trailingSpace_def unicodeSpaces_def)

lemma singular_validated:
  assumes "targetValidate validGlob t = None" and "singular t"
  obtains p where "t = \<lparr>Include = [p], Exclude = []\<rparr>" "\<not> blank p"
proof -
  from assms obtain p where "Include t = [p]" "Exclude t = []"
    by (cases "Include t") (auto simp: targetValidate_None singular_def)
  with assms(1) that show ?thesis by (cases t) (auto simp: targetValidate_None)
qed

lemma exclude_not_empty:
  "targetValidate validGlob t = None \<Longrightarrow> list_all (\<lambda>p. p \<noteq> []) (Exclude t)"
  using blank_Nil by (metis (mono_tags, lifting) list_all_append list_all_iff targetValidate_None)

text \<open>What the YAML library does with the values a target is written as\<close>

definition yamlNodes :: "(yval \<Rightarrow> ynode) \<Rightarrow> bool" where
  "yamlNodes nodeOf \<longleftrightarrow>
     (\<forall>s. nodeOf (VStr s) = ScalarNode ''!!str'' s) \<and>
     (\<forall>xs. nodeOf (VSeq xs) = SequenceNode (map nodeOf xs)) \<and>
     (\<forall>k v. nodeOf (VMap [(k, v)]) = MappingNode [ScalarNode ''!!str'' k, nodeOf v])"

lemma readEntries_include:
  "yamlNodes nodeOf \<Longrightarrow>
   readEntries (map nodeOf (map VStr ps) @ rest) t = readEntries rest (t\<lparr>Include := Include t @ ps\<rparr>)"
  by (induction ps arbitrary: t) (auto simp: yamlNodes_def)

lemma readEntries_exclude:
  "yamlNodes nodeOf \<Longrightarrow>
   readEntries (map nodeOf (map (\<lambda>p. VMap [(''not'', VStr p)]) ps)) t = Inr (t\<lparr>Exclude := Exclude t @ ps\<rparr>)"
  by (induction ps arbitrary: t) (auto simp: yamlNodes_def)

lemma readItems_include:
  "readItems (map toJson (map VStr ps) @ rest) t = readItems rest (t\<lparr>Include := Include t @ ps\<rparr>)"
  by (induction ps arbitrary: t) auto

lemma readItems_exclude:
  "list_all (\<lambda>p. p \<noteq> []) ps \<Longrightarrow>
   readItems (map toJson (map (\<lambda>p. VMap [(''not'', VStr p)]) ps)) t = Inr (t\<lparr>Exclude := Exclude t @ ps\<rparr>)"
  by (induction ps arbitrary: t) auto

section \<open>Properties\<close>

text \<open>
  A validated target survives YAML. Rules are normalized and written out again before they
  are decoded; \<open>UnmarshalYAML\<close> reads from what \<open>MarshalYAML\<close> writes the same included and
  excluded patterns, in order, for single patterns and for lists.
\<close>

theorem target_yaml_roundtrip:
  assumes "yamlNodes nodeOf" and "targetValidate validGlob t = None"
  shows "unmarshalYAML (nodeOf (marshalYAML t)) = Inr t"
proof (cases "singular t")
  case True
  with assms(2) obtain p where "t = \<lparr>Include = [p], Exclude = []\<rparr>" "\<not> blank p"
    by (rule singular_validated)
  with True assms(1) show ?thesis
    by (simp add: marshalYAML_def firstPattern_def unmarshalYAML_def yamlNodes_def)
next
  case False
  have "nodeOf (VSeq (targetEntries t)) =
      SequenceNode (map nodeOf (map VStr (Include t)) @
        map nodeOf (map (\<lambda>p. VMap [(''not'', VStr p)]) (Exclude t)))"
    using assms(1) by (simp add: yamlNodes_def targetEntries_def)
  with False show ?thesis
    by (simp only: marshalYAML_def unmarshalYAML_def resolveAlias.simps ynode.case if_False
        readEntries_include [OF assms(1)] readEntries_exclude [OF assms(1)]) simp
qed

definition sampleTarget :: Target where
  "sampleTarget = \<lparr>Include = [''net/http'', ''example.com/**''], Exclude = [''example.com/gen'']\<rparr>"

fun sampleNodes :: "yval \<Rightarrow> ynode" where
  "sampleNodes VNull = ScalarNode ''!!null'' ''null''"
| "sampleNodes (VBool b) = ScalarNode ''!!bool'' (if b then ''true'' else ''false'')"
| "sampleNodes (VNum n) = ScalarNode ''!!int'' n"
| "sampleNodes (VStr s) = ScalarNode ''!!str'' s"
| "sampleNodes (VSeq xs) = SequenceNode (map sampleNodes xs)"
| "sampleNodes (VMap kvs) = MappingNode (concat (map (\<lambda>(k, v). [ScalarNode ''!!str'' k, sampleNodes v]) kvs))"

lemma sampleTarget_valid: "targetValidate (\<lambda>_. True) sampleTarget = None"
  by code_simp

lemma target_yaml_roundtrip_witness:
  "unmarshalYAML (sampleNodes (marshalYAML sampleTarget)) = Inr sampleTarget"
  by (rule target_yaml_roundtrip [OF _ sampleTarget_valid]) (simp add: yamlNodes_def)

text \<open>
  A validated target survives JSON, the format in which matched rules go from the setup
  phase to the instrument phase.
\<close>

theorem target_json_roundtrip:
  assumes "targetValidate validGlob t = None"
  shows "unmarshalJSON (marshalJSON t) = Inr t"
proof (cases "singular t")
  case True
  with assms obtain p where "t = \<lparr>Include = [p], Exclude = []\<rparr>" "\<not> blank p"
    by (rule singular_validated)
  with True show ?thesis
    by (simp add: marshalJSON_def firstPattern_def unmarshalJSON_def)
next
  case False
  have "toJson (VSeq (targetEntries t)) =
      JArr (map toJson (map VStr (Include t)) @
        map toJson (map (\<lambda>p. VMap [(''not'', VStr p)]) (Exclude t)))"
    by (simp add: targetEntries_def)
  with False show ?thesis
    by (simp only: marshalJSON_def unmarshalJSON_def jval.case if_False jsonString.simps option.case
        readItems_include readItems_exclude [OF exclude_not_empty [OF assms]]) simp
qed

lemma target_json_roundtrip_witness: "unmarshalJSON (marshalJSON sampleTarget) = Inr sampleTarget"
  by (rule target_json_roundtrip [OF sampleTarget_valid])

lemma exactTarget_selects:
  assumes "exactTarget t = Some p"
  shows "targetMatches globMatch t importPath roots \<longleftrightarrow> importPath = p"
proof -
  from assms have "Include t = [p]" "Exclude t = []" "\<not> isRootTarget p" "\<not> isGlobTarget p"
    by (cases "Include t"; auto simp: exactTarget_def Let_def split: if_splits)+
  then show ?thesis
    by (auto simp: targetMatches_def matchesAnyPattern_def matchPattern_def)
qed

text \<open>
  The fast path is sound. When \<open>Exact\<close> returns an import path, the target selects that
  package and no other, whatever the root modules are, so looking the rule up by key gives the
  same answer as testing its patterns.
\<close>

theorem exact_agrees_with_matches:
  assumes "exactTarget t = Some p"
  shows "targetMatches globMatch t importPath roots \<longleftrightarrow> importPath = p"
  using assms by (rule exactTarget_selects)

lemma exact_agrees_with_matches_witness:
  "\<not> targetMatches (\<lambda>_ _. None) (newTarget [''net/http'']) ''net'' [''m'']"
proof -
  have "exactTarget (newTarget [''net/http'']) = Some ''net/http''" by code_simp
  from exact_agrees_with_matches [OF this, of "\<lambda>_ _. None" "''net''" "[''m'']"] show ?thesis by simp
qed

text \<open>
  The text of a target does not determine it. There are two validated targets, neither of
  them a glob, which render to the same string although one selects the package \<open>a\<close> and the
  other does not: a list entry that holds a comma and a space looks like two entries.
\<close>

theorem targetString_ambiguous:
  "\<exists>t u. targetValidate validGlob t = None \<and> targetValidate validGlob u = None \<and>
     targetString t = targetString u \<and>
     targetMatches globMatch t ''a'' roots \<and> \<not> targetMatches globMatch u ''a'' roots"
proof (intro exI conjI)
  let ?t = "newTarget [''a'', ''b'', ''c'']" and ?u = "newTarget [''a, b'', ''c'']"
  have plain: "list_all (\<lambda>p. \<not> blank p \<and> \<not> isGlobTarget p \<and> \<not> isRootTarget p \<and>
      \<not> contains (toLower p) ''$root'') [''a'', ''b'', ''c'', ''a, b'']" by code_simp
  then show "targetValidate validGlob ?t = None" "targetValidate validGlob ?u = None"
    by (simp_all add: targetValidate_None newTarget_def validateTarget_def)
  show "targetString ?t = targetString ?u" by code_simp
  from plain show "targetMatches globMatch ?t ''a'' roots" "\<not> targetMatches globMatch ?u ''a'' roots"
    by (simp_all add: targetMatches_def matchesAnyPattern_def matchPattern_def newTarget_def)
qed

end
