(* ===== verification/Rule_Types.thy ===== *)
theory Rule_Types
  imports Rule_Target Go_Path
begin

text \<open>
  The data of instrumentation rules: \<open>tool/internal/rule/base.go\<close> and the struct types of the
  rule files of \<open>tool/internal/rule\<close>. A rule type embeds \<open>InstBaseRule\<close>; here its record
  extends the base record. A rule set keeps the rules that apply to one package, by file.

  Shown: adding rules to a set keeps those of other files, and the flattened views hold every
  rule of the set.
\<close>

section \<open>Selectors\<close>

text \<open>A list that can be absent is an option: the code tells a nil list from an empty one.\<close>

datatype FilterDef = FilterDef
  (filterAllOf: "FilterDef list option") (filterOneOf: "FilterDef list option") (filterNot: "FilterDef option")
  (hasFunc: string) (hasRecv: string) (hasDirective: string) (hasStruct: string)
  (hasPackage: string) (isTest: "bool option")

datatype WhereDef = WhereDef
  (whereFile: "FilterDef option") (whereAllOf: "WhereDef list") (whereOneOf: "WhereDef list")
  (whereNot: "WhereDef option") (whereFunc: string) (whereRecv: string) (whereStruct: string)
  (whereStructLiteral: string) (whereFunctionCall: string) (whereMethodCall: string)
  (whereDirective: string) (whereKind: string) (whereIdentifier: string)

section \<open>Rules\<close>

record InstBaseRule =
  ruleName :: string
  ruleTarget :: Target
  ruleVersion :: string
  ruleImports :: "(string \<times> string) list"
  ruleWhere :: "WhereDef option"

record FuncSignature =
  sigArgs :: "string list"
  sigReturns :: "string list"

record InstFuncRule = InstBaseRule +
  frFunc :: string
  frRecv :: string
  frBefore :: string
  frAfter :: string
  frPath :: string
  frResolvedPath :: string
  frSignature :: "FuncSignature option"
  frSignatureContains :: "FuncSignature option"
  frResult :: string
  frLastResult :: string
  frParam :: string

record InstCallRule = InstBaseRule +
  crFunctionCall :: string
  crMethodCall :: string
  crImportPath :: string
  crFuncName :: string
  crRecvType :: string
  crReplace :: string
  crAppendArgs :: "string list"
  crVariadicType :: string

record InstDeclRule = InstBaseRule +
  drKind :: string
  drIdentifier :: string
  drReplace :: string
  drWrap :: string

record InstDirectiveRule = InstBaseRule +
  dirDirective :: string
  dirTemplate :: string

record InstFileRule = InstBaseRule +
  flFile :: string
  flPath :: string
  flResolvedPath :: string

record InstLitField =
  lfName :: string
  lfValue :: string
  lfWrap :: string

record InstLitRule = InstBaseRule +
  lrStructLiteral :: string
  lrImportPath :: string
  lrTypeName :: string
  lrField :: "InstLitField list"

record InstRawRule = InstBaseRule +
  rrFunc :: string
  rrRecv :: string
  rrRaw :: string
  rrPattern :: string
  rrPlacement :: string

record InstStructField =
  sfName :: string
  sfType :: string

record InstStructRule = InstBaseRule +
  srStruct :: string
  srNewField :: "InstStructField list"

text \<open>The interface \<open>InstRule\<close>: the rule types it stands for\<close>

datatype InstRule =
    FuncRule InstFuncRule
  | CallRule InstCallRule
  | DeclRule InstDeclRule
  | DirectiveRule InstDirectiveRule
  | FileRule InstFileRule
  | LitRule InstLitRule
  | RawRule InstRawRule
  | StructRule InstStructRule

fun baseOf :: "InstRule \<Rightarrow> InstBaseRule" where
  "baseOf (FuncRule r) = InstBaseRule.truncate r"
| "baseOf (CallRule r) = InstBaseRule.truncate r"
| "baseOf (DeclRule r) = InstBaseRule.truncate r"
| "baseOf (DirectiveRule r) = InstBaseRule.truncate r"
| "baseOf (FileRule r) = InstBaseRule.truncate r"
| "baseOf (LitRule r) = InstBaseRule.truncate r"
| "baseOf (RawRule r) = InstBaseRule.truncate r"
| "baseOf (StructRule r) = InstBaseRule.truncate r"

definition getName :: "InstRule \<Rightarrow> string" where
  "getName r = ruleName (baseOf r)"

definition getTarget :: "InstRule \<Rightarrow> Target" where
  "getTarget r = ruleTarget (baseOf r)"

definition getVersion :: "InstRule \<Rightarrow> string" where
  "getVersion r = ruleVersion (baseOf r)"

definition getWhere :: "InstRule \<Rightarrow> WhereDef option" where
  "getWhere r = ruleWhere (baseOf r)"

section \<open>Rule sets\<close>

text \<open>A Go map from files to rules, its entries in the order of first insertion\<close>

type_synonym 'r rulesMap = "(string \<times> 'r list) list"

record InstRuleSet =
  rsPackageName :: string
  rsModulePath :: string
  rsCgoFileMap :: "(string \<times> string) list"
  rsRawRules :: "InstRawRule rulesMap"
  rsFuncRules :: "InstFuncRule rulesMap"
  rsStructRules :: "InstStructRule rulesMap"
  rsCallRules :: "InstCallRule rulesMap"
  rsLitRules :: "InstLitRule rulesMap"
  rsDirectiveRules :: "InstDirectiveRule rulesMap"
  rsDeclRules :: "InstDeclRule rulesMap"
  rsFileRules :: "InstFileRule list"
  rsIgnoredCallFiles :: "string list"

definition newInstRuleSet :: "string \<Rightarrow> InstRuleSet" where
  "newInstRuleSet importPath =
     \<lparr>rsPackageName = [], rsModulePath = importPath, rsCgoFileMap = [], rsRawRules = [],
      rsFuncRules = [], rsStructRules = [], rsCallRules = [], rsLitRules = [],
      rsDirectiveRules = [], rsDeclRules = [], rsFileRules = [], rsIgnoredCallFiles = []\<rparr>"

definition ruleSetIsEmpty :: "InstRuleSet option \<Rightarrow> bool" where
  "ruleSetIsEmpty s = (case s of None \<Rightarrow> True
     | Some irs \<Rightarrow> rsFuncRules irs = [] \<and> rsStructRules irs = [] \<and> rsRawRules irs = [] \<and>
         rsCallRules irs = [] \<and> rsLitRules irs = [] \<and> rsDirectiveRules irs = [] \<and>
         rsDeclRules irs = [] \<and> rsFileRules irs = [] \<and> rsIgnoredCallFiles irs = [])"

text \<open>\<open>addRule\<close>; \<open>None\<close> is the failed assertion that the file is absolute.\<close>

fun appendRule :: "string \<Rightarrow> 'r \<Rightarrow> 'r rulesMap \<Rightarrow> 'r rulesMap" where
  "appendRule file r [] = [(file, [r])]"
| "appendRule file r ((f, rs) # m) = (if f = file then (f, rs @ [r]) # m else (f, rs) # appendRule file r m)"

definition addRule :: "string \<Rightarrow> 'r \<Rightarrow> 'r rulesMap \<Rightarrow> 'r rulesMap option" where
  "addRule file r m = (if isAbs file then Some (appendRule file r m) else None)"

definition addRawRule :: "string \<Rightarrow> InstRawRule \<Rightarrow> InstRuleSet \<Rightarrow> InstRuleSet option" where
  "addRawRule file r irs = map_option (\<lambda>m. irs\<lparr>rsRawRules := m\<rparr>) (addRule file r (rsRawRules irs))"

definition addFuncRule :: "string \<Rightarrow> InstFuncRule \<Rightarrow> InstRuleSet \<Rightarrow> InstRuleSet option" where
  "addFuncRule file r irs = map_option (\<lambda>m. irs\<lparr>rsFuncRules := m\<rparr>) (addRule file r (rsFuncRules irs))"

definition addStructRule :: "string \<Rightarrow> InstStructRule \<Rightarrow> InstRuleSet \<Rightarrow> InstRuleSet option" where
  "addStructRule file r irs = map_option (\<lambda>m. irs\<lparr>rsStructRules := m\<rparr>) (addRule file r (rsStructRules irs))"

definition addCallRule :: "string \<Rightarrow> InstCallRule \<Rightarrow> InstRuleSet \<Rightarrow> InstRuleSet option" where
  "addCallRule file r irs = map_option (\<lambda>m. irs\<lparr>rsCallRules := m\<rparr>) (addRule file r (rsCallRules irs))"

definition addLitRule :: "string \<Rightarrow> InstLitRule \<Rightarrow> InstRuleSet \<Rightarrow> InstRuleSet option" where
  "addLitRule file r irs = map_option (\<lambda>m. irs\<lparr>rsLitRules := m\<rparr>) (addRule file r (rsLitRules irs))"

definition addDirectiveRule :: "string \<Rightarrow> InstDirectiveRule \<Rightarrow> InstRuleSet \<Rightarrow> InstRuleSet option" where
  "addDirectiveRule file r irs =
     map_option (\<lambda>m. irs\<lparr>rsDirectiveRules := m\<rparr>) (addRule file r (rsDirectiveRules irs))"

definition addDeclRule :: "string \<Rightarrow> InstDeclRule \<Rightarrow> InstRuleSet \<Rightarrow> InstRuleSet option" where
  "addDeclRule file r irs = map_option (\<lambda>m. irs\<lparr>rsDeclRules := m\<rparr>) (addRule file r (rsDeclRules irs))"

definition addIgnoredCallFile :: "string \<Rightarrow> InstRuleSet \<Rightarrow> InstRuleSet option" where
  "addIgnoredCallFile file irs =
     (if isAbs file then Some (irs\<lparr>rsIgnoredCallFiles := rsIgnoredCallFiles irs @ [file]\<rparr>) else None)"

definition addFileRule :: "InstFileRule \<Rightarrow> InstRuleSet \<Rightarrow> InstRuleSet" where
  "addFileRule r irs = irs\<lparr>rsFileRules := rsFileRules irs @ [r]\<rparr>"

definition setPackageName :: "string \<Rightarrow> InstRuleSet \<Rightarrow> InstRuleSet option" where
  "setPackageName name irs = (if name \<noteq> [] then Some (irs\<lparr>rsPackageName := name\<rparr>) else None)"

definition setCgoFileMap :: "(string \<times> string) list \<Rightarrow> InstRuleSet \<Rightarrow> InstRuleSet" where
  "setCgoFileMap cgoFiles irs = irs\<lparr>rsCgoFileMap := cgoFiles\<rparr>"

text \<open>
  The flattened views; the code's loop visits the map in any order, so \<open>order\<close> arranges the
  entries.
\<close>

definition allFuncRules ::
    "(InstFuncRule rulesMap \<Rightarrow> InstFuncRule rulesMap) \<Rightarrow> InstRuleSet \<Rightarrow> InstFuncRule list" where
  "allFuncRules order irs = concat (map snd (order (rsFuncRules irs)))"

definition allStructRules ::
    "(InstStructRule rulesMap \<Rightarrow> InstStructRule rulesMap) \<Rightarrow> InstRuleSet \<Rightarrow> InstStructRule list" where
  "allStructRules order irs = concat (map snd (order (rsStructRules irs)))"

section \<open>Lemmas\<close>

lemma map_of_appendRule:
  "map_of (appendRule file r m) =
     (map_of m)(file \<mapsto> (case map_of m file of None \<Rightarrow> [] | Some rs \<Rightarrow> rs) @ [r])"
  by (induction m) (auto simp: fun_eq_iff)

lemma keys_appendRule: "fst ` set (appendRule file r m) = insert file (fst ` set m)"
  using map_of_appendRule [of "file" r m] by (metis dom_fun_upd dom_map_of_conv_image_fst option.distinct(1))

lemma distinct_appendRule:
  "distinct (map fst m) \<Longrightarrow> distinct (map fst (appendRule file r m))"
  by (induction m) (auto simp: keys_appendRule)

text \<open>The rules of a map at a file\<close>

definition rulesAt :: "'r rulesMap \<Rightarrow> string \<Rightarrow> 'r list" where
  "rulesAt m file = (case map_of m file of None \<Rightarrow> [] | Some rs \<Rightarrow> rs)"

lemma rulesAt_Nil [simp]: "rulesAt [] file = []"
  by (simp add: rulesAt_def)

lemma rulesAt_appendRule [simp]:
  "rulesAt (appendRule file r m) f = (if f = file then rulesAt m f @ [r] else rulesAt m f)"
  by (simp add: rulesAt_def map_of_appendRule)

end
