(* ===== verification/Rule_Normalize.thy ===== *)
theory Rule_Normalize
  imports Rule_Target "HOL-Library.AList"
begin

text \<open>
  The rule schema and the expansion of structured rules, \<open>tool/internal/rule/schema.go\<close> and
  \<open>tool/internal/rule/normalize.go\<close>. A rule is a map from keys to YAML values; a Go map is
  modelled by its entries in the order a loop happens to visit them.

  Shown: which structured rules are accepted, what each expanded rule maps every key to, and that
  neither depends on the iteration order of any map.
\<close>

type_synonym fieldMap = "(string \<times> yval) list"

section \<open>The vocabulary, schema.go\<close>

text \<open>The selectors of a where clause that become fields of the flat rule\<close>

definition pointSelectors :: "string list" where
  "pointSelectors =
     [''func'', ''recv'', ''struct'', ''struct_literal'', ''function_call'', ''method_call'',
      ''directive'', ''kind'', ''identifier'', ''signature'', ''signature_contains'', ''result'',
      ''last_result'', ''param'', ''pattern'', ''placement'']"

definition allSelectors :: "string list" where
  "allSelectors = [''target'', ''version''] @ pointSelectors @ [''file'', ''all-of'', ''one-of'', ''not'']"

definition allModifiers :: "string list" where
  "allModifiers =
     [''inject_hooks'', ''inject_code'', ''add_struct_fields'', ''add_file'', ''wrap_call'',
      ''expand_directive'', ''assign_value'', ''set_fields'']"

definition isValidSelector :: "string \<Rightarrow> bool" where
  "isValidSelector s \<longleftrightarrow> s \<in> set allSelectors"

definition isValidModifier :: "string \<Rightarrow> bool" where
  "isValidModifier s \<longleftrightarrow> s \<in> set allModifiers"

section \<open>Maps\<close>

text \<open>\<open>maps.Copy(dst, src)\<close>\<close>

definition mapsCopy :: "fieldMap \<Rightarrow> fieldMap \<Rightarrow> fieldMap" where
  "mapsCopy dst src = foldl (\<lambda>m (k, v). AList.update k v m) dst src"

fun asMap :: "yval \<Rightarrow> fieldMap option" where
  "asMap (VMap kvs) = Some kvs"
| "asMap _ = None"

section \<open>Normalize\<close>

datatype normError =
    MissingDo
  | WhereNotMap
  | TargetInWhere
  | VersionInWhere
  | UnsupportedWhereKey string
  | WhereFileNotMap
  | DoShape
  | DoEmpty
  | DoItemNotMap nat
  | DoItemNotSingle nat
  | DoMapNotSingle
  | UnsupportedModifier "nat option" string
  | PayloadNotMap "nat option"

text \<open>
  The loop of \<open>normalizeWhere\<close>: the common fields (the code's map \<open>common\<close>, changed in place)
  and the part that stays nested.
\<close>

fun whereLoop :: "fieldMap \<Rightarrow> fieldMap \<Rightarrow> fieldMap \<Rightarrow> normError + (fieldMap \<times> fieldMap)" where
  "whereLoop common normalized [] = Inr (common, normalized)"
| "whereLoop common normalized ((key, value) # rest) =
     (if \<not> isValidSelector key then Inl (UnsupportedWhereKey key)
      else if key \<in> set pointSelectors then whereLoop (AList.update key value common) normalized rest
      else if key = ''file'' then
        (if asMap value = None then Inl WhereFileNotMap
         else whereLoop common (AList.update key value normalized) rest)
      else if key \<in> set [''all-of'', ''one-of'', ''not''] then
        whereLoop common (AList.update key value normalized) rest
      else Inl (UnsupportedWhereKey key))"

definition normalizeWhere :: "fieldMap \<Rightarrow> fieldMap \<Rightarrow> normError + (fieldMap \<times> fieldMap)" where
  "normalizeWhere common w =
     (if map_of w ''target'' \<noteq> None then Inl TargetInWhere
      else if map_of w ''version'' \<noteq> None then Inl VersionInWhere
      else whereLoop common [] w)"

text \<open>One modifier of a do clause; \<open>idx\<close> is its index when do is a sequence\<close>

definition modifierPayload :: "nat option \<Rightarrow> string \<times> yval \<Rightarrow> normError + fieldMap" where
  "modifierPayload idx = (\<lambda>(name, raw).
     if \<not> isValidModifier name then Inl (UnsupportedModifier idx name)
     else case asMap raw of None \<Rightarrow> Inl (PayloadNotMap idx) | Some fields' \<Rightarrow> Inr fields')"

fun doSequence :: "nat \<Rightarrow> yval list \<Rightarrow> normError + fieldMap list" where
  "doSequence idx [] = Inr []"
| "doSequence idx (item # rest) =
     (case asMap item of
        None \<Rightarrow> Inl (DoItemNotMap idx)
      | Some [m] \<Rightarrow>
          (case modifierPayload (Some idx) m of
             Inl e \<Rightarrow> Inl e
           | Inr p \<Rightarrow> (case doSequence (Suc idx) rest of Inl e \<Rightarrow> Inl e | Inr ps \<Rightarrow> Inr (p # ps)))
      | Some _ \<Rightarrow> Inl (DoItemNotSingle idx))"

definition normalizeDoSequence :: "yval list \<Rightarrow> normError + fieldMap list" where
  "normalizeDoSequence items = (if items = [] then Inl DoEmpty else doSequence 0 items)"

definition normalizeDoMap :: "fieldMap \<Rightarrow> normError + fieldMap list" where
  "normalizeDoMap modifier =
     (case modifier of
        [] \<Rightarrow> Inl DoEmpty
      | [m] \<Rightarrow> (case modifierPayload None m of Inl e \<Rightarrow> Inl e | Inr p \<Rightarrow> Inr [p])
      | _ \<Rightarrow> Inl DoMapNotSingle)"

definition normalizeDo :: "yval \<Rightarrow> normError + fieldMap list" where
  "normalizeDo doRaw =
     (case doRaw of
        VSeq items \<Rightarrow> normalizeDoSequence items
      | VMap m \<Rightarrow> normalizeDoMap m
      | _ \<Rightarrow> Inl DoShape)"

text \<open>The common fields of all expanded rules\<close>

definition commonFields :: "fieldMap \<Rightarrow> normError + fieldMap" where
  "commonFields rule =
     (let common = filter (\<lambda>(k, v). k \<noteq> ''where'' \<and> k \<noteq> ''do'') rule
      in case map_of rule ''where'' of
           None \<Rightarrow> Inr common
         | Some whereRaw \<Rightarrow>
             (case asMap whereRaw of
                None \<Rightarrow> Inl WhereNotMap
              | Some w \<Rightarrow>
                  (case normalizeWhere common w of
                     Inl e \<Rightarrow> Inl e
                   | Inr (common', normalized) \<Rightarrow>
                       Inr (if normalized \<noteq> [] then AList.update ''where'' (VMap normalized) common'
                            else common'))))"

definition normalize :: "fieldMap \<Rightarrow> normError + fieldMap list" where
  "normalize rule =
     (if map_of rule ''where'' = None \<and> map_of rule ''do'' = None then Inr [rule]
      else case map_of rule ''do'' of
             None \<Rightarrow> Inl MissingDo
           | Some doRaw \<Rightarrow>
               (case commonFields rule of
                  Inl e \<Rightarrow> Inl e
                | Inr common \<Rightarrow>
                    (case normalizeDo doRaw of
                       Inl e \<Rightarrow> Inl e
                     | Inr items \<Rightarrow> Inr (map (mapsCopy common) items))))"

section \<open>What the maps hold\<close>

lemma map_of_filter_key: "map_of (filter (\<lambda>(k, v). P k) xs) k = (if P k then map_of xs k else None)"
  by (induction xs) auto

lemma map_of_mapsCopy:
  "map_of (mapsCopy dst src) = map_of dst ++ map_of (rev src)"
  unfolding mapsCopy_def
  by (induction src arbitrary: dst) (auto simp: update_conv' fun_eq_iff map_add_def split: option.splits)

lemma map_of_rev: "distinct (map fst xs) \<Longrightarrow> map_of (rev xs) = map_of xs"
  by (rule map_of_eqI) (auto simp: distinct_map rev_map [symmetric] map_of_eq_Some_iff
      dest!: map_of_SomeD intro: map_of_is_SomeI)

lemma map_of_mapsCopy_distinct:
  "distinct (map fst src) \<Longrightarrow> map_of (mapsCopy dst src) = map_of dst ++ map_of src"
  by (simp add: map_of_mapsCopy map_of_rev)

text \<open>The where keys that are accepted, and where they go\<close>

definition nestedSelectors :: "string list" where
  "nestedSelectors = [''file'', ''all-of'', ''one-of'', ''not'']"

definition whereEntryOK :: "string \<times> yval \<Rightarrow> bool" where
  "whereEntryOK = (\<lambda>(key, value). key \<in> set (pointSelectors @ nestedSelectors) \<and>
     (if key = ''file'' then asMap value \<noteq> None else True))"

lemma selectors_disjoint:
  "k \<in> set nestedSelectors \<Longrightarrow> k \<notin> set pointSelectors"
  by (auto simp: nestedSelectors_def pointSelectors_def)

lemma whereLoop_step:
  "whereLoop common normalized ((k, v) # rest) =
     (if whereEntryOK (k, v) then
        (if k \<in> set pointSelectors then whereLoop (AList.update k v common) normalized rest
         else whereLoop common (AList.update k v normalized) rest)
      else Inl (if k = ''file'' then WhereFileNotMap else UnsupportedWhereKey k))"
proof -
  have "set allSelectors = {''target'', ''version''} \<union> set pointSelectors \<union> set nestedSelectors"
    by (auto simp: allSelectors_def nestedSelectors_def)
  moreover have "set nestedSelectors = insert ''file'' (set [''all-of'', ''one-of'', ''not''])"
    by (simp add: nestedSelectors_def)
  moreover have "''file'' \<notin> set pointSelectors" "''target'' \<notin> set pointSelectors" "''version'' \<notin> set pointSelectors"
    by (simp_all add: pointSelectors_def)
  ultimately show ?thesis
    by (auto simp: whereEntryOK_def isValidSelector_def)
qed

lemma whereLoop_Inr:
  "whereLoop common normalized w = Inr (c, n) \<longleftrightarrow> list_all whereEntryOK w \<and>
     c = mapsCopy common (filter (\<lambda>(k, v). k \<in> set pointSelectors) w) \<and>
     n = mapsCopy normalized (filter (\<lambda>(k, v). k \<notin> set pointSelectors) w)"
  by (induction w arbitrary: common normalized)
    (auto simp: mapsCopy_def whereLoop_step simp del: whereLoop.simps(2) split: prod.splits)

text \<open>The where clause of a rule; an absent one is empty\<close>

definition whereOf :: "fieldMap \<Rightarrow> fieldMap option" where
  "whereOf rule = (case map_of rule ''where'' of None \<Rightarrow> Some [] | Some v \<Rightarrow> asMap v)"

lemma normalizeWhere_Inr:
  "normalizeWhere common w = Inr (c, n) \<longleftrightarrow> list_all whereEntryOK w \<and>
     c = mapsCopy common (filter (\<lambda>(k, v). k \<in> set pointSelectors) w) \<and>
     n = mapsCopy [] (filter (\<lambda>(k, v). k \<notin> set pointSelectors) w)"
proof -
  have "map_of w ''target'' = None" "map_of w ''version'' = None" if "list_all whereEntryOK w"
  proof -
    have "\<not> whereEntryOK (''target'', v)" "\<not> whereEntryOK (''version'', v)" for v
      by (simp_all add: whereEntryOK_def pointSelectors_def nestedSelectors_def)
    with that have "''target'' \<notin> fst ` set w" "''version'' \<notin> fst ` set w"
      by (auto simp: list_all_iff)
    then show "map_of w ''target'' = None" "map_of w ''version'' = None"
      by (simp_all add: map_of_eq_None_iff)
  qed
  then show ?thesis
    unfolding normalizeWhere_def by (auto simp: whereLoop_Inr)
qed

text \<open>The common fields, when the where clause is accepted\<close>

definition hoisted :: "fieldMap \<Rightarrow> fieldMap" where
  "hoisted w = filter (\<lambda>(k, v). k \<in> set pointSelectors) w"

definition nested :: "fieldMap \<Rightarrow> fieldMap" where
  "nested w = mapsCopy [] (filter (\<lambda>(k, v). k \<notin> set pointSelectors) w)"

lemma commonFields_Inr:
  "commonFields rule = Inr c \<longleftrightarrow>
     (\<exists>w. whereOf rule = Some w \<and> list_all whereEntryOK w \<and>
        c = (let common = mapsCopy (filter (\<lambda>(k, v). k \<noteq> ''where'' \<and> k \<noteq> ''do'') rule) (hoisted w)
             in if nested w \<noteq> [] then AList.update ''where'' (VMap (nested w)) common else common))"
proof (cases "map_of rule ''where''")
  case None
  then show ?thesis
    by (auto simp: commonFields_def whereOf_def mapsCopy_def hoisted_def nested_def)
next
  case (Some v)
  then show ?thesis
    by (cases "asMap v")
      (auto simp: commonFields_def whereOf_def hoisted_def nested_def Let_def normalizeWhere_Inr
        split: prod.splits)
qed

text \<open>An accepted do clause\<close>

definition modifierOK :: "string \<times> yval \<Rightarrow> bool" where
  "modifierOK = (\<lambda>(name, raw). name \<in> set allModifiers \<and> asMap raw \<noteq> None)"

definition doItemOK :: "yval \<Rightarrow> bool" where
  "doItemOK item = (case asMap item of Some [m] \<Rightarrow> modifierOK m | _ \<Rightarrow> False)"

definition doOK :: "yval \<Rightarrow> bool" where
  "doOK d = (case d of
     VSeq items \<Rightarrow> items \<noteq> [] \<and> list_all doItemOK items
   | VMap [m] \<Rightarrow> modifierOK m
   | _ \<Rightarrow> False)"

definition payloadOf :: "string \<times> yval \<Rightarrow> fieldMap" where
  "payloadOf m = the (asMap (snd m))"

definition itemPayload :: "yval \<Rightarrow> fieldMap" where
  "itemPayload item = payloadOf (hd (the (asMap item)))"

definition payloads :: "yval \<Rightarrow> fieldMap list" where
  "payloads d = (case d of VSeq items \<Rightarrow> map itemPayload items | VMap (m # _) \<Rightarrow> [payloadOf m] | _ \<Rightarrow> [])"

lemma modifierPayload_Inr:
  "modifierPayload idx m = Inr p \<longleftrightarrow> modifierOK m \<and> p = payloadOf m"
  by (cases m) (auto simp: modifierPayload_def modifierOK_def payloadOf_def isValidModifier_def
      split: option.splits)

lemma doSequence_Inr:
  "doSequence idx items = Inr ps \<longleftrightarrow> list_all doItemOK items \<and> ps = map itemPayload items"
proof (induction items arbitrary: idx ps)
  case (Cons item items)
  consider (none) "asMap item = None" | (one) m where "asMap item = Some [m]"
    | (many) ms where "asMap item = Some ms" "length ms \<noteq> 1"
    by (metis One_nat_def length_Suc_conv length_0_conv not_Some_eq)
  then show ?case
  proof cases
    case one
    then show ?thesis
      using modifierPayload_Inr [of "Some idx" m] Cons
      by (auto simp: doItemOK_def itemPayload_def)
  next
    case many
    then show ?thesis by (auto simp: doItemOK_def split: list.splits)
  qed (simp add: doItemOK_def)
qed auto

lemma normalizeDo_Inr: "normalizeDo d = Inr ps \<longleftrightarrow> doOK d \<and> ps = payloads d"
proof (cases d)
  case (VMap m)
  then show ?thesis
    using modifierPayload_Inr [of None]
    by (cases m rule: remdups_adj.cases)
      (auto simp: normalizeDo_def normalizeDoMap_def doOK_def payloads_def)
qed (auto simp: normalizeDo_def doOK_def payloads_def normalizeDoSequence_def doSequence_Inr)

section \<open>Properties\<close>

text \<open>A rule in the structured form: it has a where or a do clause\<close>

definition structured :: "fieldMap \<Rightarrow> bool" where
  "structured rule \<longleftrightarrow> map_of rule ''where'' \<noteq> None \<or> map_of rule ''do'' \<noteq> None"

lemma normalize_structured:
  "structured rule \<Longrightarrow> normalize rule = Inr flats \<longleftrightarrow>
     (\<exists>d c. map_of rule ''do'' = Some d \<and> doOK d \<and> commonFields rule = Inr c \<and>
        flats = map (mapsCopy c) (payloads d))"
  by (cases "map_of rule ''do''")
    (auto simp: structured_def normalize_def normalizeDo_Inr)

text \<open>
  Exactly the well-formed structured rules are accepted: the do clause is a single-key map or
  a non-empty list of single-key maps with known modifiers and map payloads; the where clause is
  absent or a map whose keys are known selectors other than target and version, with a map under
  file. A rule with neither clause passes unchanged.
\<close>

theorem normalize_accepts:
  "(\<exists>flats. normalize rule = Inr flats) \<longleftrightarrow>
     (if structured rule then
        (case map_of rule ''do'' of None \<Rightarrow> False | Some d \<Rightarrow> doOK d) \<and>
        (case whereOf rule of None \<Rightarrow> False | Some w \<Rightarrow> list_all whereEntryOK w)
      else normalize rule = Inr [rule])"
proof (cases "structured rule")
  case True
  then show ?thesis
    by (auto simp: normalize_structured commonFields_Inr split: option.splits)
next
  case False
  then show ?thesis by (simp add: structured_def normalize_def)
qed

text \<open>What an expanded rule maps a key to, given its modifier's payload\<close>

definition flatField :: "fieldMap \<Rightarrow> fieldMap \<Rightarrow> fieldMap \<Rightarrow> string \<Rightarrow> yval option" where
  "flatField rule w payload k =
     (case map_of payload k of
        Some v \<Rightarrow> Some v
      | None \<Rightarrow>
          if k = ''where'' then (if nested w = [] then None else Some (VMap (nested w)))
          else if k \<in> set pointSelectors \<and> map_of w k \<noteq> None then map_of w k
          else if k = ''do'' then None
          else map_of rule k)"

text \<open>
  C18: what an expanded rule says. An accepted structured rule expands to one flat rule per
  modifier, in the order of the do clause. In each of them a key has the value of that modifier's
  payload; otherwise that of the hoisted where selector; otherwise, apart from the clauses
  themselves, the one of the rule; and where holds the selectors that are not hoisted, if any.
  No map's iteration order matters.
\<close>

theorem normalize_fields:
  assumes "structured rule" and "normalize rule = Inr flats"
    and "map_of rule ''do'' = Some d" and "whereOf rule = Some w"
    and "distinct (map fst w)" and "list_all (\<lambda>p. distinct (map fst p)) (payloads d)"
  shows "map map_of flats = map (flatField rule w) (payloads d)"
proof -
  obtain c where c: "commonFields rule = Inr c" and flats: "flats = map (mapsCopy c) (payloads d)"
    using assms(2,3) by (auto simp: normalize_structured [OF assms(1)])
  let ?top = "filter (\<lambda>(k, v). k \<noteq> ''where'' \<and> k \<noteq> ''do'') rule"
  have c': "c = (let common = mapsCopy ?top (hoisted w)
      in if nested w \<noteq> [] then AList.update ''where'' (VMap (nested w)) common else common)"
    using c assms(4) by (auto simp: commonFields_Inr)
  have top: "map_of ?top k = (if k = ''where'' \<or> k = ''do'' then None else map_of rule k)" for k
    by (simp add: map_of_filter_key)
  have dist: "distinct (map fst (hoisted w))"
    using assms(5) by (simp add: hoisted_def distinct_map_filter)
  have hoist: "map_of (hoisted w) k = (if k \<in> set pointSelectors then map_of w k else None)" for k
    by (simp add: hoisted_def map_of_filter_key)
  have ps: "''where'' \<notin> set pointSelectors" by (simp add: pointSelectors_def)
  have common: "map_of c k =
      (if k = ''where'' then (if nested w = [] then None else Some (VMap (nested w)))
       else if k \<in> set pointSelectors \<and> map_of w k \<noteq> None then map_of w k
       else if k = ''do'' then None else map_of rule k)" for k
    unfolding c' Let_def
    by (auto simp: update_conv' map_of_mapsCopy_distinct [OF dist] map_add_def hoist top ps
        split: option.splits)
  have "map_of (mapsCopy c p) = flatField rule w p" if "p \<in> set (payloads d)" for p
    using that assms(6)
    by (auto simp: map_of_mapsCopy_distinct list_all_iff map_add_def common flatField_def fun_eq_iff
        simp del: not_None_eq split: option.splits)
  then show ?thesis unfolding flats by simp
qed

definition sampleRule :: fieldMap where
  "sampleRule =
     [(''target'', VStr ''database/sql''),
      (''where'', VMap [(''func'', VStr ''Open''), (''file'', VMap [(''has_func'', VStr ''init'')])]),
      (''do'', VSeq [VMap [(''inject_hooks'', VMap [(''before'', VStr ''BeforeOpen'')])],
                     VMap [(''inject_code'', VMap [(''raw'', VStr ''_ = 1'')])]])]"

lemma normalize_fields_witness:
  "\<exists>flats. normalize sampleRule = Inr flats \<and> length flats = 2 \<and>
     map_of (flats ! 0) ''before'' = Some (VStr ''BeforeOpen'') \<and>
     map_of (flats ! 0) ''func'' = Some (VStr ''Open'') \<and>
     map_of (flats ! 1) ''raw'' = Some (VStr ''_ = 1'') \<and> map_of (flats ! 1) ''before'' = None"
proof -
  let ?d = "VSeq [VMap [(''inject_hooks'', VMap [(''before'', VStr ''BeforeOpen'')])],
                     VMap [(''inject_code'', VMap [(''raw'', VStr ''_ = 1'')])]]"
  let ?w = "[(''func'', VStr ''Open''), (''file'', VMap [(''has_func'', VStr ''init'')])]"
  have "normalize sampleRule \<noteq> Inl MissingDo \<and> (case normalize sampleRule of Inl _ \<Rightarrow> False | Inr _ \<Rightarrow> True)" by code_simp
  then obtain flats where ok: "normalize sampleRule = Inr flats" by (auto split: sum.splits)
  have s: "structured sampleRule" "map_of sampleRule ''do'' = Some ?d" "whereOf sampleRule = Some ?w"
    "distinct (map fst ?w)"
    by (simp_all add: structured_def sampleRule_def whereOf_def)
  have p: "payloads ?d = [[(''before'', VStr ''BeforeOpen'')], [(''raw'', VStr ''_ = 1'')]]"
    by (simp add: payloads_def itemPayload_def payloadOf_def)
  have eq: "map map_of flats = map (flatField sampleRule ?w) (payloads ?d)"
    by (rule normalize_fields [OF s(1) ok s(2,3,4)]) (simp add: p)
  then have len: "length flats = 2" by (simp add: p map_eq_Cons_conv) auto
  have "map_of (flats ! i) = flatField sampleRule ?w (payloads ?d ! i)" if "i < 2" for i
    using arg_cong [OF eq, of "\<lambda>xs. xs ! i"] len that p by (cases i) auto
  then have "map_of (flats ! 0) = flatField sampleRule ?w [(''before'', VStr ''BeforeOpen'')]"
    "map_of (flats ! 1) = flatField sampleRule ?w [(''raw'', VStr ''_ = 1'')]"
    by (simp_all add: p)
  then show ?thesis
    using ok len by (intro exI [of _ flats])
      (simp add: flatField_def pointSelectors_def sampleRule_def)
qed

end
