(* ===== verification/Version_Range.thy ===== *)
theory Version_Range
  imports Go_Prelude
begin

text \<open>
  Version ranges of rules, \<open>ValidateVersionRange\<close> and \<open>VersionInRange\<close> of
  \<open>tool/util/shared.go\<close>, and \<open>CheckVersion\<close> of \<open>tool/internal/rule/file.go\<close>. The semver library
  is a parameter: \<open>valid\<close> and \<open>cmp\<close>, a three-way comparison.

  Shown: a validated range contains its lower bound, excludes its upper bound, and has no gaps.
\<close>

datatype versionError =
    TooManyCommas
  | EmptyBound
  | InvalidBound
  | BoundsNotOrdered
  | InvalidVersion

definition validateVersionRange ::
    "(string \<Rightarrow> bool) \<Rightarrow> (string \<Rightarrow> string \<Rightarrow> int) \<Rightarrow> string \<Rightarrow> versionError option" where
  "validateVersionRange valid cmp versionRange =
     (if versionRange = [] then None
      else if 1 < length (filter (\<lambda>c. c = CHR '','') versionRange) then Some TooManyCommas
      else
        case strCut versionRange (CHR '','') of (startInclusive, endExclusive, ok) \<Rightarrow>
          if ok then
            (if blank startInclusive \<or> blank endExclusive then Some EmptyBound
             else if \<not> valid startInclusive \<or> \<not> valid endExclusive then Some InvalidBound
             else if 0 \<le> cmp startInclusive endExclusive then Some BoundsNotOrdered
             else None)
          else if \<not> valid versionRange then Some InvalidVersion
          else None)"

definition versionInRange :: "(string \<Rightarrow> string \<Rightarrow> int) \<Rightarrow> string \<Rightarrow> string \<Rightarrow> bool" where
  "versionInRange cmp version versionRange =
     (if versionRange = [] then True
      else case strCut versionRange (CHR '','') of (startInclusive, endExclusive, ok) \<Rightarrow>
        if ok then 0 \<le> cmp version startInclusive \<and> cmp version endExclusive < 0
        else 0 \<le> cmp version versionRange)"

text \<open>\<open>CheckVersion\<close>: whether the running otelc may read a rule file\<close>

definition checkVersion ::
    "(string \<Rightarrow> bool) \<Rightarrow> (string \<Rightarrow> bool) \<Rightarrow> (string \<Rightarrow> string \<Rightarrow> int) \<Rightarrow> string \<Rightarrow> string \<Rightarrow> bool" where
  "checkVersion valid isPseudo cmp current required =
     (if \<not> valid current \<or> current = ''v0.0.0'' \<or> isPseudo current then True
      else \<not> cmp current required < 0)"

text \<open>What \<open>semver.Compare\<close> promises: a three-way comparison of a preorder\<close>

definition threeWay :: "(string \<Rightarrow> string \<Rightarrow> int) \<Rightarrow> bool" where
  "threeWay cmp \<longleftrightarrow> (\<forall>x y. cmp y x = - cmp x y) \<and>
     (\<forall>x y z. cmp x y \<le> 0 \<longrightarrow> cmp y z \<le> 0 \<longrightarrow> cmp x z \<le> 0)"

lemma threeWay_refl: "threeWay cmp \<Longrightarrow> cmp x x = 0"
  by (metis add.inverse_inverse threeWay_def neg_equal_zero)

lemma threeWay_flip: "threeWay cmp \<Longrightarrow> 0 \<le> cmp x y \<longleftrightarrow> cmp y x \<le> 0"
  by (metis neg_le_0_iff_le threeWay_def)

lemma threeWay_trans: "threeWay cmp \<Longrightarrow> cmp x y \<le> 0 \<Longrightarrow> cmp y z \<le> 0 \<Longrightarrow> cmp x z \<le> 0"
  unfolding threeWay_def by blast

lemma threeWay_trans_less: "threeWay cmp \<Longrightarrow> cmp x y \<le> 0 \<Longrightarrow> cmp y z < 0 \<Longrightarrow> cmp x z < 0"
  by (metis linorder_not_less threeWay_flip threeWay_trans less_imp_le)

lemma validated_bounds:
  assumes "validateVersionRange valid cmp (lo @ CHR '','' # hi) = None"
  shows "valid lo \<and> valid hi \<and> \<not> blank lo \<and> \<not> blank hi \<and> CHR '','' \<notin> set lo \<and> CHR '','' \<notin> set hi \<and> cmp lo hi < 0 \<and>
    strCut (lo @ CHR '','' # hi) (CHR '','') = (lo, hi, True)"
proof -
  have "length (filter (\<lambda>c. c = CHR '','') (lo @ CHR '','' # hi)) \<le> 1"
    using assms by (auto simp: validateVersionRange_def split: if_splits)
  then have single: "CHR '','' \<notin> set lo" "CHR '','' \<notin> set hi" by (auto simp: filter_empty_conv)
  then have "strCut (lo @ CHR '','' # hi) (CHR '','') = (lo, hi, True)" by (rule_tac strCut_found)
  then show ?thesis using assms single by (auto simp: validateVersionRange_def split: if_splits)
qed

lemma validated_single:
  "validateVersionRange valid cmp r = None \<Longrightarrow> r \<noteq> [] \<Longrightarrow> CHR '','' \<notin> set r \<Longrightarrow>
     valid r \<and> strCut r (CHR '','') = (r, [], False)"
  by (auto simp: validateVersionRange_def split: if_splits)

text \<open>
  C19: a validated range means exactly what it says. The empty range contains every version; a range
  \<open>lo\<close> is a valid version and contains exactly the versions from it on; in a range \<open>lo,hi\<close> the bounds
  are valid versions, \<open>lo\<close> before \<open>hi\<close>, with no third, and it contains exactly the versions that are
  at least \<open>lo\<close> and before \<open>hi\<close>. So it contains \<open>lo\<close> and not \<open>hi\<close>, and with two versions every one
  between them.
\<close>

theorem versionRange_interval:
  assumes "threeWay cmp" and "validateVersionRange valid cmp r = None"
  shows "(r = [] \<longrightarrow> versionInRange cmp v r) \<and>
    (r \<noteq> [] \<and> CHR '','' \<notin> set r \<longrightarrow>
      valid r \<and> versionInRange cmp r r \<and> (versionInRange cmp v r \<longleftrightarrow> cmp r v \<le> 0)) \<and>
    (\<forall>lo hi. r = lo @ CHR '','' # hi \<longrightarrow>
      valid lo \<and> valid hi \<and> CHR '','' \<notin> set lo \<and> CHR '','' \<notin> set hi \<and> cmp lo hi < 0 \<and>
      versionInRange cmp lo r \<and> \<not> versionInRange cmp hi r \<and>
      (versionInRange cmp v r \<longleftrightarrow> cmp lo v \<le> 0 \<and> cmp v hi < 0)) \<and>
    (versionInRange cmp u r \<and> versionInRange cmp w r \<and> cmp u v \<le> 0 \<and> cmp v w \<le> 0 \<longrightarrow> versionInRange cmp v r)"
proof -
  note refl = threeWay_refl [OF assms(1)] and flip = threeWay_flip [OF assms(1)]
    and trans = threeWay_trans [OF assms(1)] and trans_less = threeWay_trans_less [OF assms(1)]
  consider "r = []" | "r \<noteq> []" "CHR '','' \<notin> set r" | lo hi where "r = lo @ CHR '','' # hi"
    by (metis split_list)
  then show ?thesis
  proof cases
    case 1
    then show ?thesis by (simp add: versionInRange_def)
  next
    case 2
    have "versionInRange cmp x r \<longleftrightarrow> cmp r x \<le> 0" for x
      using 2 validated_single [OF assms(2) 2] flip by (simp add: versionInRange_def)
    moreover have "cmp r u \<le> 0 \<Longrightarrow> cmp u v \<le> 0 \<Longrightarrow> cmp r v \<le> 0" by (rule trans)
    ultimately show ?thesis using 2 validated_single [OF assms(2) 2] refl by auto
  next
    case (3 lo hi)
    note b = validated_bounds [OF assms(2) [unfolded 3]]
    have only: "lo' = lo \<and> hi' = hi" if "r = lo' @ CHR '','' # hi'" for lo' hi'
    proof -
      have "strCut r (CHR '','') = (lo', hi', True)" using validated_bounds [OF assms(2) [unfolded that]] that by simp
      then show ?thesis using b 3 by simp
    qed
    have within: "versionInRange cmp x r \<longleftrightarrow> cmp lo x \<le> 0 \<and> cmp x hi < 0" for x
      using b flip by (simp add: versionInRange_def 3)
    have gap: "versionInRange cmp u r \<and> versionInRange cmp w r \<and> cmp u v \<le> 0 \<and> cmp v w \<le> 0 \<longrightarrow> versionInRange cmp v r"
      unfolding within using trans [of lo u v] trans_less [of v w hi] by blast
    have bounds: "valid lo' \<and> valid hi' \<and> CHR '','' \<notin> set lo' \<and> CHR '','' \<notin> set hi' \<and> cmp lo' hi' < 0 \<and>
        versionInRange cmp lo' r \<and> \<not> versionInRange cmp hi' r \<and> (versionInRange cmp v r \<longleftrightarrow> cmp lo' v \<le> 0 \<and> cmp v hi' < 0)"
      if "r = lo' @ CHR '','' # hi'" for lo' hi'
      using b only [OF that] refl [of lo] refl [of hi] by (simp add: within)
    have "r \<noteq> []" "CHR '','' \<in> set r" by (simp_all add: 3)
    with gap bounds show ?thesis by blast
  qed
qed

text \<open>A comparison of the witness: by length\<close>

lemma versionRange_interval_witness:
  "versionInRange (\<lambda>x y. int (length x) - int (length y)) ''v1'' ''v1,v20'' \<and>
   \<not> versionInRange (\<lambda>x y. int (length x) - int (length y)) ''v'' ''v1,v20'' \<and>
   \<not> versionInRange (\<lambda>x y. int (length x) - int (length y)) ''v20'' ''v1,v20''"
proof -
  let ?cmp = "\<lambda>x y. int (length x) - int (length y)"
  have t: "threeWay ?cmp" by (auto simp: threeWay_def)
  have "strCut ''v1,v20'' (CHR '','') = (''v1'', ''v20'', True)"
    using strCut_found [of "CHR '',''" "''v1''" "''v20''"] by simp
  moreover have "\<not> blank ''v1''" "\<not> blank ''v20''" by code_simp+
  ultimately have valid: "validateVersionRange (\<lambda>_. True) ?cmp ''v1,v20'' = None"
    by (simp add: validateVersionRange_def)
  have "''v1,v20'' = ''v1'' @ CHR '','' # ''v20''" by simp
  with versionRange_interval [OF t valid, of "''v''"]
  have "(versionInRange ?cmp ''v'' ''v1,v20'' \<longleftrightarrow> ?cmp ''v1'' ''v'' \<le> 0 \<and> ?cmp ''v'' ''v20'' < 0) \<and>
      versionInRange ?cmp ''v1'' ''v1,v20'' \<and> \<not> versionInRange ?cmp ''v20'' ''v1,v20''" by blast
  then show ?thesis by simp
qed

end
