(* ===== verification/Rule_Rules.thy ===== *)
theory Rule_Rules
  imports Rule_Types Rule_Normalize Version_Range
begin

text \<open>
  Loading rules: the constructors and validations of the rule files of
  \<open>tool/internal/rule\<close>, their identities, and \<open>file.go\<close>, which reads a rule file. The
  libraries are parameters, collected in a record: the YAML decoder of each rule type, the
  parsers of Go expressions and templates, regular expressions, semantic versions, and CRC-32.
  The regular expressions of the code itself are written out.

  Shown: only valid rules come out of a rule file; qualified names are split as documented; the
  identity key of a rule is injective in the strings it is built from.
\<close>

section \<open>Regular expressions of the code\<close>

definition isWordStart :: "char \<Rightarrow> bool" where
  "isWordStart c \<longleftrightarrow> (let n = of_char c :: nat in
     65 \<le> n \<and> n \<le> 90 \<or> 97 \<le> n \<and> n \<le> 122 \<or> c = CHR ''_'')"

definition isWordChar :: "char \<Rightarrow> bool" where
  "isWordChar c \<longleftrightarrow> isWordStart c \<or> isAsciiDigit c"

text \<open>\<open>identPattern\<close>\<close>

fun isIdent :: "string \<Rightarrow> bool" where
  "isIdent [] = False"
| "isIdent (c # s) = (isWordStart c \<and> list_all isWordChar s)"

text \<open>
  \<open>funcNamePattern\<close> and \<open>typeNamePattern\<close>. An identifier has no dot, so the separating dot is
  the last one; the prefix is not empty and, as \<open>.\<close> does not match it, has no newline.
\<close>

definition matchQualified :: "string \<Rightarrow> (string \<times> string) option" where
  "matchQualified s = (case lastIndexByte s (CHR ''.'') of
     None \<Rightarrow> None
   | Some i \<Rightarrow>
       let p = take i s; n = drop (Suc i) s
       in if p \<noteq> [] \<and> CHR 0x0A \<notin> set p \<and> isIdent n then Some (p, n) else None)"

text \<open>
  \<open>replacePlaceholderPattern\<close>. \<open>placeholderAt\<close> matches it at the start of a string and returns
  the rest; no part of the pattern can give back what it has taken, so there is no backtracking.
\<close>

definition isRegexSpace :: "char \<Rightarrow> bool" where
  "isRegexSpace c \<longleftrightarrow> c \<in> set [CHR 0x09, CHR 0x0A, CHR 0x0C, CHR 0x0D, CHR '' '']"

fun optionalDash :: "string \<Rightarrow> string" where
  "optionalDash (c # s) = (if c = CHR ''-'' then s else c # s)"
| "optionalDash [] = []"

definition placeholderAt :: "string \<Rightarrow> string option" where
  "placeholderAt s =
     (case cutPrefix s ''{{'' of
        None \<Rightarrow> None
      | Some s1 \<Rightarrow>
          (case cutPrefix (dropWhile isRegexSpace (optionalDash s1)) ''.'' of
             None \<Rightarrow> None
           | Some s2 \<Rightarrow> cutPrefix (optionalDash (dropWhile isRegexSpace s2)) ''}}''))"

fun hasPlaceholder :: "string \<Rightarrow> bool" where
  "hasPlaceholder [] = False"
| "hasPlaceholder (c # s) = (placeholderAt (c # s) \<noteq> None \<or> hasPlaceholder s)"

lemma placeholderAt_shrinks:
  assumes "placeholderAt s = Some r"
  shows "length r < length s"
proof -
  have od: "length (optionalDash x) \<le> length x" for x by (cases x) auto
  from assms obtain s1 s2 where 1: "s = ''{{'' @ s1"
    and 2: "dropWhile isRegexSpace (optionalDash s1) = ''.'' @ s2"
    and 3: "optionalDash (dropWhile isRegexSpace s2) = ''}}'' @ r"
    unfolding placeholderAt_def by (auto simp del: append.simps split: option.splits)
  have "length s2 < length s1"
    using arg_cong [OF 2, of length] length_dropWhile_le [of isRegexSpace "optionalDash s1"] od [of s1] by simp
  moreover have "length r < length s2"
    using arg_cong [OF 3, of length] length_dropWhile_le [of isRegexSpace s2] od [of "dropWhile isRegexSpace s2"] by simp
  ultimately show ?thesis using 1 by simp
qed

function replacePlaceholders :: "string \<Rightarrow> string \<Rightarrow> string" where
  "replacePlaceholders by s =
     (case s of [] \<Rightarrow> []
      | c # rest \<Rightarrow>
          (case placeholderAt s of
             Some r \<Rightarrow> by @ replacePlaceholders by r
           | None \<Rightarrow> c # replacePlaceholders by rest))"
  by pat_completeness auto
termination
  by (relation "measure (\<lambda>(by, s). length s)") (auto dest: placeholderAt_shrinks)

section \<open>Validation\<close>

record ruleLibs =
  validGlob :: "string \<Rightarrow> bool"
  parseExprOK :: "string \<Rightarrow> bool"
  fastTemplateOK :: "string \<Rightarrow> bool"
  funcTemplateOK :: "string \<Rightarrow> bool"
  regexpOK :: "string \<Rightarrow> bool"
  semverValid :: "string \<Rightarrow> bool"
  semverCompare :: "string \<Rightarrow> string \<Rightarrow> int"
  isPseudoVersion :: "string \<Rightarrow> bool"

datatype ruleError =
    EDecode | ENormalize normError
  | EEmpty string
  | EBeforeAfter
  | ECallBoth | ECallNone | EBadFunctionCall | EBadMethodCall
  | EReplaceOrArgs | ENoPlaceholder | EEmptyArg nat | EBadTemplate
  | EBadKind | EKindReplace | EKindWrap | EKindNoAdvice | EReplaceOrWrap | EReplaceAndWrap | EBadExpr
  | EDirectiveSpace | EDirectiveSlashes | EDirectiveReserved
  | EBadStructLiteral | ENoFields | EFieldEmpty nat | EFieldTwice string
  | EBadRegexp | EBadPlacement
  | ENoSelector
  | ETargetEmpty | ETarget targetError | EVersion

definition validateFuncRule :: "InstFuncRule \<Rightarrow> ruleError option" where
  "validateFuncRule r =
     (if blank (frFunc r) then Some (EEmpty ''func'')
      else if blank (frBefore r) \<and> blank (frAfter r) then Some EBeforeAfter
      else if blank (frPath r) then Some (EEmpty ''path'')
      else None)"

definition parseMethodCall :: "string \<Rightarrow> (string \<times> string \<times> string) option" where
  "parseMethodCall methodCall =
     (case matchQualified methodCall of
        None \<Rightarrow> None
      | Some (recvQualified, funcName) \<Rightarrow>
          (case lastIndexByte recvQualified (CHR ''.'') of
             None \<Rightarrow> None
           | Some dot \<Rightarrow>
               let importPath = take dot recvQualified;
                   typeSeg = drop (Suc dot) recvQualified;
                   bareType = trimPrefix typeSeg ''*''
               in if importPath = [] \<or> \<not> isIdent bareType then None
                  else Some (importPath, typeSeg, funcName)))"

definition parseSelector :: "InstCallRule \<Rightarrow> ruleError + InstCallRule" where
  "parseSelector r =
     (if crFunctionCall r \<noteq> [] \<and> crMethodCall r \<noteq> [] then Inl ECallBoth
      else if crFunctionCall r \<noteq> [] then
        (case matchQualified (crFunctionCall r) of
           None \<Rightarrow> Inl EBadFunctionCall
         | Some (p, n) \<Rightarrow> Inr (r\<lparr>crImportPath := p, crFuncName := n\<rparr>))
      else if crMethodCall r \<noteq> [] then
        (case parseMethodCall (crMethodCall r) of
           None \<Rightarrow> Inl EBadMethodCall
         | Some (p, t, n) \<Rightarrow> Inr (r\<lparr>crImportPath := p, crRecvType := t, crFuncName := n\<rparr>))
      else Inl ECallNone)"

fun firstBlank :: "nat \<Rightarrow> string list \<Rightarrow> nat option" where
  "firstBlank i [] = None"
| "firstBlank i (a # as) = (if blank a then Some i else firstBlank (Suc i) as)"

definition validateCallRule :: "InstCallRule \<Rightarrow> ruleError option" where
  "validateCallRule r =
     (if blank (crReplace r) \<and> crAppendArgs r = [] then Some EReplaceOrArgs
      else if \<not> blank (crReplace r) \<and> \<not> hasPlaceholder (crReplace r) then Some ENoPlaceholder
      else map_option EEmptyArg (firstBlank 0 (crAppendArgs r)))"

text \<open>\<open>UnmarshalJSON\<close> of a call rule, after the plain fields are decoded\<close>

definition callFromJson :: "InstCallRule \<Rightarrow> ruleError + InstCallRule" where
  "callFromJson r = (if crImportPath r = [] \<or> crFuncName r = [] then parseSelector r else Inr r)"

definition validateDeclRule :: "ruleLibs \<Rightarrow> InstDeclRule \<Rightarrow> ruleError option" where
  "validateDeclRule L r =
     (let hasReplace = \<not> blank (drReplace r); hasWrap = \<not> blank (drWrap r)
      in if blank (drIdentifier r) then Some (EEmpty ''identifier'')
         else if drKind r \<notin> set [[], ''func'', ''var'', ''const'', ''type''] then Some EBadKind
         else if drKind r = ''func'' \<or> drKind r = ''type'' then
           (if hasReplace then Some EKindReplace else if hasWrap then Some EKindWrap else Some EKindNoAdvice)
         else if \<not> hasReplace \<and> \<not> hasWrap then Some EReplaceOrWrap
         else if hasReplace \<and> hasWrap then Some EReplaceAndWrap
         else if hasReplace \<and> \<not> parseExprOK L (drReplace r) then Some EBadExpr
         else if hasWrap \<and> \<not> hasPlaceholder (drWrap r) then Some ENoPlaceholder
         else if hasWrap \<and> \<not> fastTemplateOK L (drWrap r) then Some EBadTemplate
         else if hasWrap \<and> \<not> parseExprOK L (replacePlaceholders ''__otelc_orig__'' (drWrap r))
              then Some EBadExpr
         else None)"

definition builtinDirectives :: "string list" where
  "builtinDirectives = [''otelc:ignore'', ''otelc:instrument'']"

definition validateDirectiveRule :: "ruleLibs \<Rightarrow> InstDirectiveRule \<Rightarrow> ruleError option" where
  "validateDirectiveRule L r =
     (if blank (dirDirective r) then Some (EEmpty ''directive'')
      else if contains (dirDirective r) '' '' then Some EDirectiveSpace
      else if hasPrefix (dirDirective r) ''//'' then Some EDirectiveSlashes
      else if dirDirective r \<in> set builtinDirectives then Some EDirectiveReserved
      else if blank (dirTemplate r) then Some (EEmpty ''template'')
      else if \<not> funcTemplateOK L (dirTemplate r) then Some EBadTemplate
      else None)"

definition validateFileRule :: "InstFileRule \<Rightarrow> ruleError option" where
  "validateFileRule r =
     (if blank (flFile r) then Some (EEmpty ''file'')
      else if blank (flPath r) then Some (EEmpty ''path'')
      else None)"

fun validateLitFields :: "nat \<Rightarrow> string list \<Rightarrow> InstLitField list \<Rightarrow> ruleError option" where
  "validateLitFields i seen [] = None"
| "validateLitFields i seen (f # fs) =
     (if blank (lfName f) then Some (EFieldEmpty i)
      else if blank (lfValue f) \<and> blank (lfWrap f) then Some EReplaceOrWrap
      else if \<not> blank (lfWrap f) \<and> \<not> hasPlaceholder (lfWrap f) then Some ENoPlaceholder
      else if lfName f \<in> set seen then Some (EFieldTwice (lfName f))
      else validateLitFields (Suc i) (lfName f # seen) fs)"

definition validateLitRule :: "InstLitRule \<Rightarrow> ruleError option" where
  "validateLitRule r =
     (if blank (lrStructLiteral r) then Some (EEmpty ''struct_literal'')
      else if lrField r = [] then Some ENoFields
      else validateLitFields 0 [] (lrField r))"

definition parseStructLiteral :: "InstLitRule \<Rightarrow> ruleError + InstLitRule" where
  "parseStructLiteral r = (case matchQualified (lrStructLiteral r) of
     None \<Rightarrow> Inl EBadStructLiteral
   | Some (p, n) \<Rightarrow> Inr (r\<lparr>lrImportPath := p, lrTypeName := n\<rparr>))"

definition litFromJson :: "InstLitRule \<Rightarrow> ruleError + InstLitRule" where
  "litFromJson r = (if lrImportPath r = [] \<or> lrTypeName r = [] then parseStructLiteral r else Inr r)"

definition validateRawRule :: "ruleLibs \<Rightarrow> InstRawRule \<Rightarrow> ruleError option" where
  "validateRawRule L r =
     (if blank (rrRaw r) then Some (EEmpty ''raw'')
      else if contains (rrRaw r) ''{{'' \<and> \<not> funcTemplateOK L (rrRaw r) then Some EBadTemplate
      else if \<not> regexpOK L (rrPattern r) then Some EBadRegexp
      else if rrPlacement r \<noteq> [] \<and> rrPlacement r \<noteq> ''before'' \<and> rrPlacement r \<noteq> ''after''
           then Some EBadPlacement
      else None)"

definition validateStructRule :: "InstStructRule \<Rightarrow> ruleError option" where
  "validateStructRule r = (if blank (srStruct r) then Some (EEmpty ''struct'') else None)"

section \<open>Constructors\<close>

text \<open>
  The decoders: \<open>yaml.Marshal\<close> of the flat fields followed by \<open>yaml.Unmarshal\<close> into the rule
  type, \<open>None\<close> on an error. \<open>decodeFields\<close> decodes the node of a file entry into a field map.
\<close>

record ruleDecoders =
  decodeFields :: "ynode \<Rightarrow> fieldMap option"
  decodeFunc :: "fieldMap \<Rightarrow> InstFuncRule option"
  decodeCall :: "fieldMap \<Rightarrow> InstCallRule option"
  decodeDecl :: "fieldMap \<Rightarrow> InstDeclRule option"
  decodeDirective :: "fieldMap \<Rightarrow> InstDirectiveRule option"
  decodeFile :: "fieldMap \<Rightarrow> InstFileRule option"
  decodeLit :: "fieldMap \<Rightarrow> InstLitRule option"
  decodeRaw :: "fieldMap \<Rightarrow> InstRawRule option"
  decodeStruct :: "fieldMap \<Rightarrow> InstStructRule option"

definition defaultName :: "string \<Rightarrow> 'a InstBaseRule_scheme \<Rightarrow> 'a InstBaseRule_scheme" where
  "defaultName name r = (if ruleName r = [] then r\<lparr>ruleName := name\<rparr> else r)"

text \<open>The common end of the constructors: the validated rule or the error\<close>

definition checked :: "ruleError option \<Rightarrow> 'r \<Rightarrow> ruleError + 'r" where
  "checked err r = (case err of Some e \<Rightarrow> Inl e | None \<Rightarrow> Inr r)"

definition newInstFuncRule :: "ruleDecoders \<Rightarrow> fieldMap \<Rightarrow> string \<Rightarrow> ruleError + InstFuncRule" where
  "newInstFuncRule D data name = (case decodeFunc D data of None \<Rightarrow> Inl EDecode
     | Some r0 \<Rightarrow> let r = defaultName name r0 in checked (validateFuncRule r) r)"

definition newInstCallRule :: "ruleLibs \<Rightarrow> ruleDecoders \<Rightarrow> fieldMap \<Rightarrow> string \<Rightarrow> ruleError + InstCallRule" where
  "newInstCallRule L D data name = (case decodeCall D data of None \<Rightarrow> Inl EDecode
     | Some r0 \<Rightarrow>
         (case parseSelector (defaultName name r0) of
            Inl e \<Rightarrow> Inl e
          | Inr r \<Rightarrow>
              (case validateCallRule r of
                 Some e \<Rightarrow> Inl e
               | None \<Rightarrow>
                   if crReplace r \<noteq> [] \<and> \<not> fastTemplateOK L (crReplace r) then Inl EBadTemplate
                   else Inr r)))"

definition newInstDeclRule :: "ruleLibs \<Rightarrow> ruleDecoders \<Rightarrow> fieldMap \<Rightarrow> string \<Rightarrow> ruleError + InstDeclRule" where
  "newInstDeclRule L D data name = (case decodeDecl D data of None \<Rightarrow> Inl EDecode
     | Some r0 \<Rightarrow> let r = defaultName name r0 in checked (validateDeclRule L r) r)"

definition newInstDirectiveRule ::
    "ruleLibs \<Rightarrow> ruleDecoders \<Rightarrow> fieldMap \<Rightarrow> string \<Rightarrow> ruleError + InstDirectiveRule" where
  "newInstDirectiveRule L D data name = (case decodeDirective D data of None \<Rightarrow> Inl EDecode
     | Some r0 \<Rightarrow> let r = defaultName name r0 in checked (validateDirectiveRule L r) r)"

definition newInstFileRule :: "ruleDecoders \<Rightarrow> fieldMap \<Rightarrow> string \<Rightarrow> ruleError + InstFileRule" where
  "newInstFileRule D data name = (case decodeFile D data of None \<Rightarrow> Inl EDecode
     | Some r0 \<Rightarrow> let r = defaultName name r0 in checked (validateFileRule r) r)"

definition newInstLitRule :: "ruleDecoders \<Rightarrow> fieldMap \<Rightarrow> string \<Rightarrow> ruleError + InstLitRule" where
  "newInstLitRule D data name = (case decodeLit D data of None \<Rightarrow> Inl EDecode
     | Some r0 \<Rightarrow>
         (case parseStructLiteral (defaultName name r0) of
            Inl e \<Rightarrow> Inl e
          | Inr r \<Rightarrow> checked (validateLitRule r) r))"

definition newInstRawRule :: "ruleLibs \<Rightarrow> ruleDecoders \<Rightarrow> fieldMap \<Rightarrow> string \<Rightarrow> ruleError + InstRawRule" where
  "newInstRawRule L D data name = (case decodeRaw D data of None \<Rightarrow> Inl EDecode
     | Some r0 \<Rightarrow> let r = defaultName name r0 in checked (validateRawRule L r) r)"

definition newInstStructRule :: "ruleDecoders \<Rightarrow> fieldMap \<Rightarrow> string \<Rightarrow> ruleError + InstStructRule" where
  "newInstStructRule D data name = (case decodeStruct D data of None \<Rightarrow> Inl EDecode
     | Some r0 \<Rightarrow> let r = defaultName name r0 in checked (validateStructRule r) r)"

section \<open>Rule files, file.go\<close>

text \<open>\<open>fields[key] != nil\<close>\<close>

definition isSet :: "fieldMap \<Rightarrow> string \<Rightarrow> bool" where
  "isSet fm key = (case map_of fm key of None \<Rightarrow> False | Some v \<Rightarrow> v \<noteq> VNull)"

definition newRule :: "ruleLibs \<Rightarrow> ruleDecoders \<Rightarrow> string \<Rightarrow> fieldMap \<Rightarrow> ruleError + InstRule" where
  "newRule L D name fm =
     (if isSet fm ''struct'' then map_sum id StructRule (newInstStructRule D fm name)
      else if isSet fm ''file'' then map_sum id FileRule (newInstFileRule D fm name)
      else if isSet fm ''directive'' then map_sum id DirectiveRule (newInstDirectiveRule L D fm name)
      else if isSet fm ''raw'' then map_sum id RawRule (newInstRawRule L D fm name)
      else if isSet fm ''func'' then map_sum id FuncRule (newInstFuncRule D fm name)
      else if isSet fm ''function_call'' \<or> isSet fm ''method_call'' then
        map_sum id CallRule (newInstCallRule L D fm name)
      else if isSet fm ''struct_literal'' then map_sum id LitRule (newInstLitRule D fm name)
      else if isSet fm ''identifier'' then map_sum id DeclRule (newInstDeclRule L D fm name)
      else Inl ENoSelector)"

record ruleEntry =
  entryName :: string
  entryNode :: ynode

record ruleFile =
  minimumVersion :: string
  legacy :: bool
  entries :: "ruleEntry list"

datatype fileError =
    RootNotMapping
  | KeyNotString
  | KeyTwice string
  | VersionNotString
  | VersionNotRelease string

definition scalarString :: "ynode \<Rightarrow> string option" where
  "scalarString n = (case n of ScalarNode tag v \<Rightarrow> if tag = ''!!str'' then Some v else None | _ \<Rightarrow> None)"

text \<open>The loop of \<open>ParseFile\<close> over the keys and values of the root mapping\<close>

fun parseEntries ::
    "ruleLibs \<Rightarrow> string list \<Rightarrow> ynode list \<Rightarrow> ruleFile \<Rightarrow> fileError + ruleFile" where
  "parseEntries L seen (key # val # rest) f =
     (case scalarString key of
        None \<Rightarrow> Inl KeyNotString
      | Some name \<Rightarrow>
          if name \<in> set seen then Inl (KeyTwice name)
          else if name \<noteq> ''version'' then
            parseEntries L (name # seen) rest
              (f\<lparr>entries := entries f @ [\<lparr>entryName = name, entryNode = val\<rparr>]\<rparr>)
          else case scalarString val of
                 None \<Rightarrow> Inl VersionNotString
               | Some v \<Rightarrow>
                   if \<not> semverValid L v \<or> isPseudoVersion L v then Inl (VersionNotRelease v)
                   else parseEntries L (name # seen) rest (f\<lparr>minimumVersion := v, legacy := False\<rparr>))"
| "parseEntries L seen _ f = Inr f"

text \<open>\<open>ParseFile\<close> on the content of the parsed document (empty for an empty file)\<close>

definition parseFile :: "ruleLibs \<Rightarrow> ynode list \<Rightarrow> fileError + ruleFile" where
  "parseFile L content =
     (let start = \<lparr>minimumVersion = ''v1.0.0'', legacy = True, entries = []\<rparr>
      in case content of
           [] \<Rightarrow> Inr start
         | doc # _ \<Rightarrow>
             (case doc of
                MappingNode kvs \<Rightarrow>
                  map_sum id (\<lambda>f. f\<lparr>entries := sort_key entryName (entries f)\<rparr>) (parseEntries L [] kvs start)
              | _ \<Rightarrow> Inl RootNotMapping))"

definition checkRule :: "ruleLibs \<Rightarrow> InstRule \<Rightarrow> ruleError option" where
  "checkRule L r =
     (if isZero (getTarget r) then Some ETargetEmpty
      else case targetValidate (validGlob L) (getTarget r) of
             Some e \<Rightarrow> Some (ETarget e)
           | None \<Rightarrow>
               if validateVersionRange (semverValid L) (semverCompare L) (getVersion r) \<noteq> None
               then Some EVersion else None)"

fun flatRules :: "ruleLibs \<Rightarrow> ruleDecoders \<Rightarrow> string \<Rightarrow> fieldMap list \<Rightarrow> ruleError + InstRule list" where
  "flatRules L D name [] = Inr []"
| "flatRules L D name (flat # flats) =
     (case newRule L D name flat of
        Inl e \<Rightarrow> Inl e
      | Inr r \<Rightarrow>
          (case checkRule L r of
             Some e \<Rightarrow> Inl e
           | None \<Rightarrow> map_sum id (\<lambda>rs. r # rs) (flatRules L D name flats)))"

fun entriesRules :: "ruleLibs \<Rightarrow> ruleDecoders \<Rightarrow> ruleEntry list \<Rightarrow> ruleError + InstRule list" where
  "entriesRules L D [] = Inr []"
| "entriesRules L D (e # es) =
     (case decodeFields D (entryNode e) of
        None \<Rightarrow> Inl EDecode
      | Some fm \<Rightarrow>
          (case normalize fm of
             Inl err \<Rightarrow> Inl (ENormalize err)
           | Inr flats \<Rightarrow>
               (case flatRules L D (entryName e) flats of
                  Inl err \<Rightarrow> Inl err
                | Inr rs \<Rightarrow> map_sum id (\<lambda>rs'. rs @ rs') (entriesRules L D es))))"

definition fileRules :: "ruleLibs \<Rightarrow> ruleDecoders \<Rightarrow> ruleFile \<Rightarrow> ruleError + InstRule list" where
  "fileRules L D f = entriesRules L D (entries f)"

section \<open>Identities\<close>

text \<open>The encodings of a string, a list of strings and a signature in an identity key\<close>

definition encField :: "string \<Rightarrow> string" where
  "encField s = itoa (length s) @ '':'' @ s"

definition encList :: "string list \<Rightarrow> string" where
  "encList xs = itoa (length xs) @ '';'' @ concat (map encField xs)"

definition encSig :: "FuncSignature option \<Rightarrow> string" where
  "encSig s = (case s of None \<Rightarrow> ''-'' | Some sig \<Rightarrow> ''+'' @ encList (sigArgs sig) @ encList (sigReturns sig))"

text \<open>The keys whose checksums (\<open>crc32\<close>) are the identities\<close>

definition funcIdentityKey :: "InstFuncRule \<Rightarrow> string" where
  "funcIdentityKey r =
     concat [encField (targetString (ruleTarget r)), encField (ruleVersion r), encField (frFunc r),
       encField (frRecv r), encField (frBefore r), encField (frAfter r), encField (frPath r),
       encField (frResult r), encField (frLastResult r), encField (frParam r),
       encSig (frSignature r), encSig (frSignatureContains r)]"

definition funcIdentity :: "(string \<Rightarrow> string) \<Rightarrow> InstFuncRule \<Rightarrow> string" where
  "funcIdentity crc32 r = crc32 (funcIdentityKey r)"

definition directiveIdentity :: "(string \<Rightarrow> string) \<Rightarrow> InstDirectiveRule \<Rightarrow> string" where
  "directiveIdentity crc32 r = crc32 (concat
     [encField (targetString (ruleTarget r)), encField (ruleVersion r), encField (dirDirective r),
      encField (dirTemplate r)])"

definition rawIdentity :: "(string \<Rightarrow> string) \<Rightarrow> InstRawRule \<Rightarrow> string" where
  "rawIdentity crc32 r = crc32 (concat
     [encField (targetString (ruleTarget r)), encField (ruleVersion r), encField (rrFunc r),
      encField (rrRecv r), encField (rrRaw r)])"

text \<open>Readers of the encodings\<close>

definition readCount :: "char \<Rightarrow> string \<Rightarrow> (nat \<times> string) option" where
  "readCount sep s = (case dropWhile isAsciiDigit s of
     [] \<Rightarrow> None
   | c # r \<Rightarrow> if c = sep then Some (readDigits (takeWhile isAsciiDigit s), r) else None)"

definition decField :: "string \<Rightarrow> (string \<times> string) option" where
  "decField s = (case readCount (CHR '':'') s of
     None \<Rightarrow> None | Some (n, r) \<Rightarrow> if n \<le> length r then Some (take n r, drop n r) else None)"

fun decFields :: "nat \<Rightarrow> string \<Rightarrow> (string list \<times> string) option" where
  "decFields 0 s = Some ([], s)"
| "decFields (Suc n) s = (case decField s of
     None \<Rightarrow> None
   | Some (x, r) \<Rightarrow> (case decFields n r of None \<Rightarrow> None | Some (xs, r') \<Rightarrow> Some (x # xs, r')))"

definition decList :: "string \<Rightarrow> (string list \<times> string) option" where
  "decList s = (case readCount (CHR '';'') s of None \<Rightarrow> None | Some (n, r) \<Rightarrow> decFields n r)"

fun decSig :: "string \<Rightarrow> (FuncSignature option \<times> string) option" where
  "decSig [] = None"
| "decSig (c # s) =
     (if c = CHR ''-'' then Some (None, s)
      else if c = CHR ''+'' then
        (case decList s of
           None \<Rightarrow> None
         | Some (as, r) \<Rightarrow>
             (case decList r of
                None \<Rightarrow> None
              | Some (rs, r') \<Rightarrow> Some (Some \<lparr>sigArgs = as, sigReturns = rs\<rparr>, r')))
      else None)"

lemma readCount_itoa: "\<not> isAsciiDigit sep \<Longrightarrow> readCount sep (itoa n @ sep # r) = Some (n, r)"
  by (simp add: readCount_def itoa_digits)

lemma not_digit [simp]: "\<not> isAsciiDigit (CHR '':'')" "\<not> isAsciiDigit (CHR '';'')"
  by (simp_all add: isAsciiDigit_def)

interpretation field: prefix_codec "\<lambda>_. True" encField decField
  by unfold_locales (simp add: encField_def decField_def readCount_itoa)

lemma decFields_enc: "decFields (length xs) (concat (map encField xs) @ r) = Some (xs, r)"
  by (induction xs) (simp_all add: field.dec_enc_rest)

interpretation stringList: prefix_codec "\<lambda>_. True" encList decList
  by unfold_locales (simp add: encList_def decList_def readCount_itoa decFields_enc)

interpretation signature: prefix_codec "\<lambda>_. True" encSig decSig
proof
  fix x :: "FuncSignature option" and rest
  show "decSig (encSig x @ rest) = Some (x, rest)"
    by (cases x) (simp_all add: encSig_def stringList.dec_enc_rest)
qed

lemmas identity_inject = field.enc_append_inject signature.enc_append_inject
  signature.whole.enc_inject field.whole.enc_inject

section \<open>Properties\<close>

text \<open>
  The identity key of a func rule determines what the rule is built from. Two func rules have
  the same key exactly when they agree on the text of the target, version, function, receiver,
  hooks, path, result filters and both signatures, whatever characters these contain; an absent
  signature differs from an empty one.
\<close>

theorem funcIdentityKey_injective:
  "funcIdentityKey r = funcIdentityKey q \<longleftrightarrow>
     targetString (ruleTarget r) = targetString (ruleTarget q) \<and> ruleVersion r = ruleVersion q \<and>
     frFunc r = frFunc q \<and> frRecv r = frRecv q \<and> frBefore r = frBefore q \<and>
     frAfter r = frAfter q \<and> frPath r = frPath q \<and> frResult r = frResult q \<and>
     frLastResult r = frLastResult q \<and> frParam r = frParam q \<and>
     frSignature r = frSignature q \<and> frSignatureContains r = frSignatureContains q"
  unfolding funcIdentityKey_def by (simp add: identity_inject)

text \<open>A qualified name is split at its last dot. The pattern accepts exactly the strings made of a
  non-empty import path on one line, a dot and an identifier, and returns these parts.
\<close>

theorem matchQualified_iff:
  "matchQualified s = Some (p, n) \<longleftrightarrow>
     s = p @ CHR ''.'' # n \<and> p \<noteq> [] \<and> CHR 0x0A \<notin> set p \<and> isIdent n"
proof
  assume "matchQualified s = Some (p, n)"
  then show "s = p @ CHR ''.'' # n \<and> p \<noteq> [] \<and> CHR 0x0A \<notin> set p \<and> isIdent n"
    by (auto simp: matchQualified_def Let_def split: option.splits if_splits elim!: lastIndexByte_split)
next
  assume r: "s = p @ CHR ''.'' # n \<and> p \<noteq> [] \<and> CHR 0x0A \<notin> set p \<and> isIdent n"
  then have "CHR ''.'' \<notin> set n"
    by (cases n) (auto simp: list_all_iff isWordChar_def isWordStart_def isAsciiDigit_def)
  with r show "matchQualified s = Some (p, n)"
    by (simp add: matchQualified_def)
qed

lemma isIdent_no_dot: "isIdent n \<Longrightarrow> CHR ''.'' \<notin> set n \<and> CHR 0x0A \<notin> set n \<and> CHR ''*'' \<notin> set n"
  by (cases n) (auto simp: list_all_iff isWordChar_def isWordStart_def isAsciiDigit_def)

text \<open>A receiver type: an identifier, behind a star for a pointer\<close>

definition isRecvType :: "string \<Rightarrow> bool" where
  "isRecvType t \<longleftrightarrow> isIdent t \<or> (\<exists>u. t = CHR ''*'' # u \<and> isIdent u)"

lemma isRecvType_bare: "isIdent (trimPrefix t ''*'') \<longleftrightarrow> isRecvType t"
  by (cases t) (auto simp: trimPrefix_def isRecvType_def isWordStart_def dest: isIdent_no_dot)

lemma matchQualified_parts:
  assumes "CHR ''.'' \<notin> set t"
  shows "lastIndexByte (p @ CHR ''.'' # t) (CHR ''.'') = Some (length p)"
  using assms by simp

text \<open>
  A method selector is split into import path, receiver type and method. \<open>parseMethodCall\<close>
  accepts exactly the texts \<open>path.Type.Method\<close> and \<open>path.*Type.Method\<close> with a non-empty path on
  one line and identifiers, and the type keeps its star.
\<close>

theorem parseMethodCall_iff:
  "parseMethodCall s = Some (p, t, m) \<longleftrightarrow>
     s = p @ CHR ''.'' # t @ CHR ''.'' # m \<and> p \<noteq> [] \<and> CHR 0x0A \<notin> set p \<and>
     isRecvType t \<and> isIdent m"
proof
  assume "parseMethodCall s = Some (p, t, m)"
  then obtain q i where q: "matchQualified s = Some (q, m)" and i: "lastIndexByte q (CHR ''.'') = Some i"
    and pt: "p = take i q" "t = drop (Suc i) q" "p \<noteq> []" "isRecvType t"
    by (auto simp: parseMethodCall_def Let_def isRecvType_bare split: option.splits if_splits)
  from i have "q = p @ CHR ''.'' # t"
    using pt(1,2) by (auto elim!: lastIndexByte_split)
  moreover have "s = q @ CHR ''.'' # m \<and> CHR 0x0A \<notin> set q \<and> isIdent m"
    using q by (auto simp: matchQualified_def Let_def split: option.splits if_splits elim!: lastIndexByte_split)
  ultimately show "s = p @ CHR ''.'' # t @ CHR ''.'' # m \<and> p \<noteq> [] \<and> CHR 0x0A \<notin> set p \<and>
     isRecvType t \<and> isIdent m"
    using pt(3,4) by auto
next
  assume r: "s = p @ CHR ''.'' # t @ CHR ''.'' # m \<and> p \<noteq> [] \<and> CHR 0x0A \<notin> set p \<and>
     isRecvType t \<and> isIdent m"
  then have t: "CHR ''.'' \<notin> set t" "CHR 0x0A \<notin> set t" and m: "CHR ''.'' \<notin> set m"
    by (auto simp: isRecvType_def dest: isIdent_no_dot)
  have "lastIndexByte s (CHR ''.'') = Some (length (p @ CHR ''.'' # t))"
    using r m lastIndexByte_append [of "CHR ''.''" m "p @ CHR ''.'' # t"] by simp
  then have "matchQualified s = Some (p @ CHR ''.'' # t, m)"
    using r t by (simp add: matchQualified_def)
  with r t show "parseMethodCall s = Some (p, t, m)"
    by (simp add: parseMethodCall_def isRecvType_bare)
qed

section \<open>Only valid rules come out of a file\<close>

text \<open>
  What a rule of each kind has to be like, written without the functions of the code that check
  it. A placeholder is \<open>{{\<close>, an optional dash, blanks, a dot, blanks, an optional dash and \<open>}}\<close>
  somewhere in the text.
\<close>

definition placeholderIn :: "string \<Rightarrow> bool" where
  "placeholderIn s \<longleftrightarrow> (\<exists>pre d1 w1 w2 d2 post.
     s = pre @ ''{{'' @ d1 @ w1 @ ''.'' @ w2 @ d2 @ ''}}'' @ post \<and>
     d1 \<in> {[], ''-''} \<and> d2 \<in> {[], ''-''} \<and> list_all isRegexSpace w1 \<and> list_all isRegexSpace w2)"

definition litFieldOK :: "InstLitField \<Rightarrow> bool" where
  "litFieldOK f \<longleftrightarrow> \<not> blank (lfName f) \<and> (blank (lfValue f) \<longrightarrow> \<not> blank (lfWrap f)) \<and>
     (\<not> blank (lfWrap f) \<longrightarrow> placeholderIn (lfWrap f))"

fun kindOK :: "ruleLibs \<Rightarrow> InstRule \<Rightarrow> bool" where
  "kindOK L (FuncRule r) =
     (\<not> blank (frFunc r) \<and> \<not> (blank (frBefore r) \<and> blank (frAfter r)) \<and> \<not> blank (frPath r))"
| "kindOK L (CallRule r) =
     ((crMethodCall r = [] \<and> crFunctionCall r = crImportPath r @ ''.'' @ crFuncName r \<or>
       crFunctionCall r = [] \<and> crMethodCall r = crImportPath r @ ''.'' @ crRecvType r @ ''.'' @ crFuncName r \<and>
         isRecvType (crRecvType r)) \<and>
      crImportPath r \<noteq> [] \<and> CHR 0x0A \<notin> set (crImportPath r) \<and> isIdent (crFuncName r) \<and>
      \<not> (blank (crReplace r) \<and> crAppendArgs r = []) \<and>
      (\<not> blank (crReplace r) \<longrightarrow> placeholderIn (crReplace r)) \<and>
      (crReplace r \<noteq> [] \<longrightarrow> fastTemplateOK L (crReplace r)) \<and>
      list_all (\<lambda>a. \<not> blank a) (crAppendArgs r))"
| "kindOK L (DeclRule r) =
     (\<not> blank (drIdentifier r) \<and> drKind r \<in> {[], ''var'', ''const''} \<and>
      (blank (drReplace r) \<longleftrightarrow> \<not> blank (drWrap r)) \<and>
      (\<not> blank (drReplace r) \<longrightarrow> parseExprOK L (drReplace r)) \<and>
      (\<not> blank (drWrap r) \<longrightarrow> placeholderIn (drWrap r) \<and> fastTemplateOK L (drWrap r) \<and>
         parseExprOK L (replacePlaceholders ''__otelc_orig__'' (drWrap r))))"
| "kindOK L (DirectiveRule r) =
     (\<not> blank (dirDirective r) \<and> CHR '' '' \<notin> set (dirDirective r) \<and> take 2 (dirDirective r) \<noteq> ''//'' \<and>
      dirDirective r \<notin> {''otelc:ignore'', ''otelc:instrument''} \<and>
      \<not> blank (dirTemplate r) \<and> funcTemplateOK L (dirTemplate r))"
| "kindOK L (FileRule r) = (\<not> blank (flFile r) \<and> \<not> blank (flPath r))"
| "kindOK L (LitRule r) =
     (lrStructLiteral r = lrImportPath r @ ''.'' @ lrTypeName r \<and> lrImportPath r \<noteq> [] \<and>
      CHR 0x0A \<notin> set (lrImportPath r) \<and> isIdent (lrTypeName r) \<and>
      lrField r \<noteq> [] \<and> list_all litFieldOK (lrField r) \<and> distinct (map lfName (lrField r)))"
| "kindOK L (RawRule r) =
     (\<not> blank (rrRaw r) \<and> ((\<exists>a b. rrRaw r = a @ ''{{'' @ b) \<longrightarrow> funcTemplateOK L (rrRaw r)) \<and>
      regexpOK L (rrPattern r) \<and> rrPlacement r \<in> {[], ''before'', ''after''})"
| "kindOK L (StructRule r) = (\<not> blank (srStruct r))"

text \<open>The packages a rule may select, and the version ranges it may have\<close>

definition targetOK :: "ruleLibs \<Rightarrow> Target \<Rightarrow> bool" where
  "targetOK L t \<longleftrightarrow> Include t \<noteq> [] \<and>
     (\<forall>p \<in> set (Include t) \<union> set (Exclude t). \<not> blank p \<and>
        ((\<exists>a b. toLower p = a @ ''$root'' @ b) \<longrightarrow> p = ''$root'') \<and>
        (set p \<inter> set ''*?[{'' \<noteq> {} \<longrightarrow> validGlob L p))"

definition rangeOK :: "ruleLibs \<Rightarrow> string \<Rightarrow> bool" where
  "rangeOK L v \<longleftrightarrow> v = [] \<or> CHR '','' \<notin> set v \<and> semverValid L v \<or>
     (\<exists>lo hi. v = lo @ CHR '','' # hi \<and> CHR '','' \<notin> set lo \<union> set hi \<and> \<not> blank lo \<and> \<not> blank hi \<and>
        semverValid L lo \<and> semverValid L hi \<and> semverCompare L lo hi < 0)"

definition ruleOK :: "ruleLibs \<Rightarrow> InstRule \<Rightarrow> bool" where
  "ruleOK L r \<longleftrightarrow> kindOK L r \<and> targetOK L (getTarget r) \<and> rangeOK L (getVersion r)"

lemma optionalDash_split: "\<exists>d. s = d @ optionalDash s \<and> d \<in> {[], ''-''}"
  by (cases s) auto

lemma dropWhile_split: "\<exists>w. s = w @ dropWhile P s \<and> list_all P w"
  by (rule exI [of _ "takeWhile P s"]) (auto simp: list_all_iff dest: set_takeWhileD)

lemma placeholderAt_split:
  assumes "placeholderAt s = Some r"
  shows "\<exists>d1 w1 w2 d2. s = ''{{'' @ d1 @ w1 @ ''.'' @ w2 @ d2 @ ''}}'' @ r \<and>
    d1 \<in> {[], ''-''} \<and> d2 \<in> {[], ''-''} \<and> list_all isRegexSpace w1 \<and> list_all isRegexSpace w2"
proof -
  from assms obtain s1 s2 where 1: "s = ''{{'' @ s1"
    and 2: "dropWhile isRegexSpace (optionalDash s1) = ''.'' @ s2"
    and 3: "optionalDash (dropWhile isRegexSpace s2) = ''}}'' @ r"
    unfolding placeholderAt_def by (auto simp del: append.simps split: option.splits)
  obtain d1 where d1: "s1 = d1 @ optionalDash s1" "d1 \<in> {[], ''-''}" using optionalDash_split by blast
  obtain w1 where w1: "optionalDash s1 = w1 @ ''.'' @ s2" "list_all isRegexSpace w1"
    using dropWhile_split [of "optionalDash s1" isRegexSpace] 2 by metis
  obtain w2 where w2: "s2 = w2 @ dropWhile isRegexSpace s2" "list_all isRegexSpace w2" using dropWhile_split by blast
  obtain d2 where d2: "dropWhile isRegexSpace s2 = d2 @ ''}}'' @ r" "d2 \<in> {[], ''-''}"
    using optionalDash_split [of "dropWhile isRegexSpace s2"] 3 by metis
  have "s = ''{{'' @ d1 @ w1 @ ''.'' @ w2 @ d2 @ ''}}'' @ r"
    using 1 d1(1) w1(1) w2(1) d2(1) by metis
  with d1(2) w1(2) w2(2) d2(2) show ?thesis by blast
qed

lemma hasPlaceholder_in: "hasPlaceholder s \<Longrightarrow> placeholderIn s"
proof (induction s)
  case (Cons c s)
  show ?case
  proof (cases "placeholderAt (c # s)")
    case None
    then have "placeholderIn s" using Cons by simp
    then show ?thesis unfolding placeholderIn_def by (metis append_Cons)
  next
    case (Some r)
    then show ?thesis unfolding placeholderIn_def using placeholderAt_split [OF Some] by (metis append_Nil)
  qed
qed simp

lemma matchQualified_SomeD:
  "matchQualified s = Some (p, n) \<Longrightarrow>
     s = p @ ''.'' @ n \<and> p \<noteq> [] \<and> CHR 0x0A \<notin> set p \<and> isIdent n"
  by (simp add: matchQualified_iff)

lemma parseSelector_OK:
  "parseSelector r = Inr r' \<Longrightarrow>
     (crMethodCall r' = [] \<and> crFunctionCall r' = crImportPath r' @ ''.'' @ crFuncName r' \<or>
      crFunctionCall r' = [] \<and> crMethodCall r' = crImportPath r' @ ''.'' @ crRecvType r' @ ''.'' @ crFuncName r' \<and>
        isRecvType (crRecvType r')) \<and>
     crImportPath r' \<noteq> [] \<and> CHR 0x0A \<notin> set (crImportPath r') \<and> isIdent (crFuncName r')"
  by (auto simp: parseSelector_def parseMethodCall_iff matchQualified_iff split: if_splits option.splits prod.splits)

lemma firstBlank_None: "firstBlank i as = None \<Longrightarrow> list_all (\<lambda>a. \<not> blank a) as"
  by (induction as arbitrary: i) (auto split: if_splits)

lemma validateLitFields_None:
  "validateLitFields i seen fs = None \<Longrightarrow>
     list_all litFieldOK fs \<and> distinct (map lfName fs) \<and> set (map lfName fs) \<inter> set seen = {}"
proof (induction fs arbitrary: i seen)
  case (Cons f fs)
  then have f: "\<not> blank (lfName f)" "\<not> (blank (lfValue f) \<and> blank (lfWrap f))"
    "\<not> blank (lfWrap f) \<longrightarrow> hasPlaceholder (lfWrap f)" "lfName f \<notin> set seen"
    and rest: "validateLitFields (Suc i) (lfName f # seen) fs = None"
    by (auto split: if_splits)
  have "litFieldOK f" unfolding litFieldOK_def using f hasPlaceholder_in by blast
  then show ?case using Cons.IH [OF rest] f(4) by simp
qed simp

lemma checked_Inr [simp]: "checked e r = Inr q \<longleftrightarrow> e = None \<and> q = r"
  by (auto simp: checked_def split: option.splits)

lemma map_sum_Inr [simp]: "map_sum id f x = Inr y \<longleftrightarrow> (\<exists>z. x = Inr z \<and> y = f z)"
  by (cases x) auto

lemma newInstFuncRule_OK: "newInstFuncRule D fm name = Inr r \<Longrightarrow> kindOK L (FuncRule r)"
  by (auto simp: newInstFuncRule_def validateFuncRule_def Let_def split: option.splits if_splits)

lemma newInstCallRule_OK: "newInstCallRule L D fm name = Inr r \<Longrightarrow> kindOK L (CallRule r)"
proof -
  assume new: "newInstCallRule L D fm name = Inr r"
  then obtain r0 where "parseSelector r0 = Inr r" and v: "validateCallRule r = None"
    and t: "crReplace r \<noteq> [] \<longrightarrow> fastTemplateOK L (crReplace r)"
    by (auto simp: newInstCallRule_def split: option.splits if_splits)
  note s = parseSelector_OK [OF this(1)]
  have "\<not> (blank (crReplace r) \<and> crAppendArgs r = [])"
    and "\<not> blank (crReplace r) \<longrightarrow> hasPlaceholder (crReplace r)" and "firstBlank 0 (crAppendArgs r) = None"
    using v by (auto simp: validateCallRule_def split: if_splits)
  with s t show ?thesis unfolding kindOK.simps using hasPlaceholder_in firstBlank_None by blast
qed

lemma newInstDeclRule_OK: "newInstDeclRule L D fm name = Inr r \<Longrightarrow> kindOK L (DeclRule r)"
  by (auto simp: newInstDeclRule_def validateDeclRule_def Let_def hasPlaceholder_in split: option.splits if_splits)

lemma sublist_one: "sublist [c] s \<longleftrightarrow> c \<in> set s"
  by (auto simp: sublist_def in_set_conv_decomp)

lemma take_two: "take 2 s = [a, b] \<longleftrightarrow> prefix [a, b] s"
proof
  assume "take 2 s = [a, b]"
  then show "prefix [a, b] s" by (metis append_take_drop_id prefix_def)
qed (auto simp: prefix_def)

lemma newInstDirectiveRule_OK: "newInstDirectiveRule L D fm name = Inr r \<Longrightarrow> kindOK L (DirectiveRule r)"
  by (auto simp: newInstDirectiveRule_def validateDirectiveRule_def builtinDirectives_def Let_def
      sublist_one take_two split: option.splits if_splits)

lemma newInstLitRule_OK: "newInstLitRule D fm name = Inr r \<Longrightarrow> kindOK L (LitRule r)"
  by (auto simp: newInstLitRule_def parseStructLiteral_def validateLitRule_def matchQualified_iff
      split: option.splits if_splits dest: validateLitFields_None)

lemma newInstRawRule_OK: "newInstRawRule L D fm name = Inr r \<Longrightarrow> kindOK L (RawRule r)"
  by (auto simp: newInstRawRule_def validateRawRule_def Let_def sublist_def split: option.splits if_splits)

lemma newRule_kindOK: "newRule L D name fm = Inr r \<Longrightarrow> kindOK L r"
  by (auto simp: newRule_def newInstFileRule_def newInstStructRule_def validateFileRule_def
      validateStructRule_def Let_def split: if_splits option.splits simp del: kindOK.simps(1-4,6,7)
      intro: newInstFuncRule_OK newInstCallRule_OK newInstDeclRule_OK newInstDirectiveRule_OK
        newInstLitRule_OK newInstRawRule_OK)

lemma targetValidate_OK:
  assumes "targetValidate (validGlob L) t = None"
  shows "targetOK L t"
  unfolding targetOK_def
proof (intro conjI ballI)
  show "Include t \<noteq> []" using assms by (simp add: targetValidate_None)
next
  fix p
  assume "p \<in> set (Include t) \<union> set (Exclude t)"
  then have p: "\<not> blank p" "validateTarget (validGlob L) p = None"
    using assms by (auto simp only: targetValidate_None list_all_iff set_append)
  then have root: "contains (toLower p) ''$root'' \<longrightarrow> p = ''$root''" and glob: "isGlobTarget p \<longrightarrow> validGlob L p"
    by (auto simp: validateTarget_def simp del: toLower.simps split: if_splits)
  show "\<not> blank p" by (rule p(1))
  show "(\<exists>a b. toLower p = a @ ''$root'' @ b) \<longrightarrow> p = ''$root''" using root unfolding sublist_def .
  have "isGlobTarget p \<longleftrightarrow> set p \<inter> set ''*?[{'' \<noteq> {}" unfolding isGlobTarget_def indexAny_def by auto
  then show "set p \<inter> set ''*?[{'' \<noteq> {} \<longrightarrow> validGlob L p" using glob by blast
qed

lemma versionRange_OK: "validateVersionRange (semverValid L) (semverCompare L) v = None \<Longrightarrow> rangeOK L v"
proof -
  assume ok: "validateVersionRange (semverValid L) (semverCompare L) v = None"
  consider "v = []" | "v \<noteq> []" "CHR '','' \<notin> set v" | lo hi where "v = lo @ CHR '','' # hi"
    by (metis split_list)
  then show ?thesis
  proof cases
    case 3
    then show ?thesis using validated_bounds [OF ok [unfolded 3]] unfolding rangeOK_def by blast
  qed (use ok validated_single in \<open>auto simp: rangeOK_def\<close>)
qed

lemma checkRule_None: "checkRule L r = None \<Longrightarrow> targetOK L (getTarget r) \<and> rangeOK L (getVersion r)"
  by (auto simp: checkRule_def split: option.splits if_splits intro: targetValidate_OK versionRange_OK)

lemma flatRules_OK: "flatRules L D name flats = Inr rs \<Longrightarrow> r \<in> set rs \<Longrightarrow> ruleOK L r"
  by (induction flats arbitrary: rs)
    (auto simp: ruleOK_def split: option.splits dest: newRule_kindOK checkRule_None)

lemma entriesRules_OK: "entriesRules L D es = Inr rs \<Longrightarrow> r \<in> set rs \<Longrightarrow> ruleOK L r"
  by (induction es arbitrary: rs) (auto split: option.splits sum.splits dest: flatRules_OK)

text \<open>
  C20: every rule that a rule file yields is valid, stated condition by condition in
  \<open>ruleOK\<close>. A func rule names a function, a hook and the path of its hooks. A call rule has
  exactly one of \<open>function_call\<close> and \<open>method_call\<close>, which reads import path, receiver type and name
  as the rule has them; it replaces or appends, a replacement contains a placeholder and compiles,
  and no appended argument is blank. A declaration rule is about a variable or constant and has
  exactly one of value and wrapper; a directive rule a directive without blanks and slashes that is not
  otelc's own; a literal rule a type and at least one field, the fields with distinct names and
  each with a value or a wrapper; a raw rule code, a valid pattern and placement; file and struct
  rules their names. Every pattern of the target is not blank, spells \<open>$root\<close> exactly and is a
  valid glob if it is a glob, and there is an included one. The version range is empty, one
  valid version, or two valid versions in order.
\<close>

theorem fileRules_valid:
  assumes "fileRules L D f = Inr rs" and "r \<in> set rs"
  shows "ruleOK L r"
  using entriesRules_OK assms unfolding fileRules_def by blast

definition sampleLibs :: ruleLibs where
  "sampleLibs = \<lparr>validGlob = \<lambda>p. True, parseExprOK = \<lambda>e. True, fastTemplateOK = \<lambda>t. True,
     funcTemplateOK = \<lambda>t. True, regexpOK = \<lambda>p. True, semverValid = \<lambda>v. hasPrefix v ''v'',
     semverCompare = \<lambda>a b. 0, isPseudoVersion = \<lambda>v. False\<rparr>"

definition sampleFuncRule :: InstFuncRule where
  "sampleFuncRule = \<lparr>ruleName = [], ruleTarget = newTarget [''net/http''], ruleVersion = [], ruleImports = [],
     ruleWhere = None, frFunc = ''Serve'', frRecv = ''*Server'', frBefore = ''OnServe'', frAfter = [],
     frPath = ''hooks'', frResolvedPath = [], frSignature = None, frSignatureContains = None,
     frResult = [], frLastResult = [], frParam = []\<rparr>"

definition sampleDecoders :: ruleDecoders where
  "sampleDecoders = \<lparr>
     decodeFields = \<lambda>n. case n of
         ScalarNode t v \<Rightarrow> Some [(''target'', VStr ''net/http''), (''func'', VStr v)] | _ \<Rightarrow> None,
     decodeFunc = \<lambda>fm. Some sampleFuncRule, decodeCall = \<lambda>fm. None, decodeDecl = \<lambda>fm. None,
     decodeDirective = \<lambda>fm. None, decodeFile = \<lambda>fm. None, decodeLit = \<lambda>fm. None,
     decodeRaw = \<lambda>fm. None, decodeStruct = \<lambda>fm. None\<rparr>"

definition sampleFile :: ruleFile where
  "sampleFile = \<lparr>minimumVersion = ''v1.0.0'', legacy = True,
     entries = [\<lparr>entryName = ''serve'', entryNode = ScalarNode ''!!str'' ''Serve''\<rparr>]\<rparr>"

lemma sampleFile_rules:
  "fileRules sampleLibs sampleDecoders sampleFile = Inr [FuncRule (sampleFuncRule\<lparr>ruleName := ''serve''\<rparr>)]"
  by code_simp

theorem fileRules_valid_witness:
  "ruleOK sampleLibs (FuncRule (sampleFuncRule\<lparr>ruleName := ''serve''\<rparr>))"
  by (rule fileRules_valid [OF sampleFile_rules]) simp

section \<open>Reading a rule file\<close>

text \<open>What the \<open>version\<close> entry of a file does to the header of the file\<close>

definition withVersion :: "ruleLibs \<Rightarrow> ynode option \<Rightarrow> ruleFile \<Rightarrow> ruleFile option" where
  "withVersion L n f = (case n of
     None \<Rightarrow> Some f
   | Some val \<Rightarrow>
       (case scalarString val of
          None \<Rightarrow> None
        | Some v \<Rightarrow> if semverValid L v \<and> \<not> isPseudoVersion L v
                     then Some (f\<lparr>minimumVersion := v, legacy := False\<rparr>) else None))"

definition ruleEntries :: "(string \<times> ynode) list \<Rightarrow> ruleEntry list" where
  "ruleEntries ps = map (\<lambda>(k, v). \<lparr>entryName = k, entryNode = v\<rparr>) (filter (\<lambda>p. fst p \<noteq> ''version'') ps)"

definition flatPairs :: "(ynode \<times> ynode) list \<Rightarrow> ynode list" where
  "flatPairs kvs = concat (map (\<lambda>(k, v). [k, v]) kvs)"

lemma flatPairs_simps [simp]:
  "flatPairs [] = []" "flatPairs ((k, v) # kvs) = k # v # flatPairs kvs"
  by (simp_all add: flatPairs_def)

text \<open>The keys of a mapping that are all strings\<close>

fun stringPairs :: "(ynode \<times> ynode) list \<Rightarrow> (string \<times> ynode) list option" where
  "stringPairs [] = Some []"
| "stringPairs ((k, v) # kvs) = (case (scalarString k, stringPairs kvs) of
     (Some name, Some ps) \<Rightarrow> Some ((name, v) # ps) | _ \<Rightarrow> None)"

lemma map_of_eq_None: "k \<notin> fst ` set ps \<Longrightarrow> map_of ps k = None"
  by (simp add: map_of_eq_None_iff)

lemma parseEntries_iff:
  "parseEntries L seen (flatPairs kvs) f = Inr g \<longleftrightarrow>
     (\<exists>ps f'. stringPairs kvs = Some ps \<and> distinct (map fst ps) \<and> set (map fst ps) \<inter> set seen = {} \<and>
        withVersion L (map_of ps ''version'') f = Some f' \<and>
        g = f'\<lparr>entries := entries f @ ruleEntries ps\<rparr>)"
proof (induction kvs arbitrary: seen f)
  case Nil
  show ?case by (auto simp: withVersion_def ruleEntries_def)
next
  case (Cons kv kvs)
  obtain k v where kv: "kv = (k, v)" by (cases kv)
  show ?case
  proof (cases "scalarString k")
    case None
    then show ?thesis by (simp add: kv)
  next
    case name: (Some name)
    consider "name \<in> set seen" | "name \<notin> set seen" "name \<noteq> ''version''" | "name \<notin> set seen" "name = ''version''"
      by blast
    then show ?thesis
    proof cases
      case 1
      then show ?thesis using name by (auto simp: kv split: option.splits)
    next
      case 2
      then show ?thesis using name
        by (auto simp: kv Cons.IH withVersion_def ruleEntries_def split: option.splits if_splits)
    next
      case 3
      show ?thesis
      proof (cases "stringPairs kvs")
        case None
        then show ?thesis using 3 name by (auto simp: kv Cons.IH split: option.splits)
      next
        case (Some ps)
        then show ?thesis using 3 name
          by (auto simp: kv Cons.IH map_of_eq_None withVersion_def ruleEntries_def split: option.splits)
      qed
    qed
  qed
qed

text \<open>
  \<open>ParseFile\<close> reads exactly the files whose root mapping has distinct string keys and whose
  \<open>version\<close>, if given, is a release version. The entries are the other keys with their values,
  sorted by name, and a file without a version is marked legacy.
\<close>

theorem parseFile_iff:
  "parseFile L (MappingNode (flatPairs kvs) # docs) = Inr f \<longleftrightarrow>
     (\<exists>ps f'. stringPairs kvs = Some ps \<and> distinct (map fst ps) \<and>
        withVersion L (map_of ps ''version'')
          \<lparr>minimumVersion = ''v1.0.0'', legacy = True, entries = []\<rparr> = Some f' \<and>
        f = f'\<lparr>entries := sort_key entryName (ruleEntries ps)\<rparr>)"
  by (auto simp: parseFile_def parseEntries_iff)

end
