(* ===== verification/Go_Syntax.thy ===== *)
theory Go_Syntax
  imports Go_Prelude
begin

text \<open>
  Go source files as the dst library presents them, and the searches of
  \<open>tool/internal/ast/shared.go\<close>: declarations by name and kind, receivers, struct types, and
  the calls of a file with their enclosing statements. Also \<open>strconv.Unquote\<close>.

  Of an expression the forms are kept that the code tells apart; any other is \<open>OtherExpr\<close>.
  Beside its declarations a file has a tree of nodes, each with its leading and trailing
  comments, as \<open>dst.Walk\<close> and \<open>dst.Inspect\<close> visit it.

  Shown: the visitor that tracks the statements around a call finds the nearest one, and the
  searches return the first declaration that fits.
\<close>

section \<open>Unquoting\<close>

fun hexValue :: "char \<Rightarrow> nat option" where
  "hexValue c = (let n = of_char c :: nat in
     if 48 \<le> n \<and> n \<le> 57 then Some (n - 48)
     else if 97 \<le> n \<and> n \<le> 102 then Some (n - 87)
     else if 65 \<le> n \<and> n \<le> 70 then Some (n - 55)
     else None)"

fun hexDigits :: "nat \<Rightarrow> nat \<Rightarrow> string \<Rightarrow> (nat \<times> string) option" where
  "hexDigits 0 acc s = Some (acc, s)"
| "hexDigits (Suc k) acc [] = None"
| "hexDigits (Suc k) acc (c # s) =
     (case hexValue c of None \<Rightarrow> None | Some d \<Rightarrow> hexDigits k (16 * acc + d) s)"

definition octalValue :: "char \<Rightarrow> nat option" where
  "octalValue c = (let n = of_char c :: nat in if 48 \<le> n \<and> n \<le> 55 then Some (n - 48) else None)"

text \<open>The UTF-8 encoding of a code point\<close>

definition utf8Encode :: "nat \<Rightarrow> string" where
  "utf8Encode r = map (char_of :: nat \<Rightarrow> char)
     (if r < 0x80 then [r]
      else if r < 0x800 then [0xC0 + r div 0x40, 0x80 + r mod 0x40]
      else if r < 0x10000 then [0xE0 + r div 0x1000, 0x80 + r div 0x40 mod 0x40, 0x80 + r mod 0x40]
      else [0xF0 + r div 0x40000, 0x80 + r div 0x1000 mod 0x40, 0x80 + r div 0x40 mod 0x40, 0x80 + r mod 0x40])"

definition validRune :: "nat \<Rightarrow> bool" where
  "validRune r \<longleftrightarrow> r < 0xD800 \<or> (0xDFFF < r \<and> r \<le> 0x10FFFF)"

text \<open>What follows a backslash in a double-quoted string: the bytes it stands for, and the rest\<close>

definition runeEscape :: "nat \<Rightarrow> string \<Rightarrow> (string \<times> string) option" where
  "runeEscape k s = (case hexDigits k 0 s of
     None \<Rightarrow> None | Some (r, t) \<Rightarrow> if validRune r then Some (utf8Encode r, t) else None)"

definition octalEscape :: "string \<Rightarrow> (string \<times> string) option" where
  "octalEscape s = (case s of
     a # b # c # t \<Rightarrow>
       (case (octalValue a, octalValue b, octalValue c) of
          (Some x, Some y, Some z) \<Rightarrow>
            if 64 * x + 8 * y + z \<le> 255 then Some ([char_of (64 * x + 8 * y + z)], t) else None
        | _ \<Rightarrow> None)
   | _ \<Rightarrow> None)"

definition simpleEscapes :: "(char \<times> char) list" where
  "simpleEscapes =
     [(CHR ''a'', CHR 0x07), (CHR ''b'', CHR 0x08), (CHR ''f'', CHR 0x0C), (CHR ''n'', CHR 0x0A),
      (CHR ''r'', CHR 0x0D), (CHR ''t'', CHR 0x09), (CHR ''v'', CHR 0x0B),
      (CHR 0x5C, CHR 0x5C), (CHR 0x22, CHR 0x22)]"

definition unescape :: "string \<Rightarrow> (string \<times> string) option" where
  "unescape s = (case s of
     [] \<Rightarrow> None
   | c # t \<Rightarrow>
       (case map_of simpleEscapes c of
          Some b \<Rightarrow> Some ([b], t)
        | None \<Rightarrow>
            if c = CHR ''x'' then map_option (\<lambda>(r, u). ([char_of r], u)) (hexDigits 2 0 t)
            else if c = CHR ''u'' then runeEscape 4 t
            else if c = CHR ''U'' then runeEscape 8 t
            else octalEscape s))"

lemma hexDigits_shrinks: "hexDigits k acc s = Some (r, t) \<Longrightarrow> length t \<le> length s"
  by (induction k acc s rule: hexDigits.induct) (auto simp del: hexValue.simps split: option.splits)

lemma unescape_shrinks: "unescape s = Some (b, t) \<Longrightarrow> length t < length s"
  by (auto simp: unescape_def runeEscape_def octalEscape_def less_Suc_eq_le dest: hexDigits_shrinks
      split: list.splits option.splits if_splits)

text \<open>The inside of a double-quoted string; the closing quote is the last character.\<close>

function unquoteBody :: "string \<Rightarrow> string option" where
  "unquoteBody [] = None"
| "unquoteBody (c # s) =
     (if c = CHR 0x22 then (if s = [] then Some [] else None)
      else if c = CHR 0x0A then None
      else if c = CHR 0x5C then
        (case unescape s of
           None \<Rightarrow> None
         | Some (b, t) \<Rightarrow> map_option (append b) (unquoteBody t))
      else map_option (Cons c) (unquoteBody s))"
  by pat_completeness auto
termination by (relation "measure length") (auto dest!: unescape_shrinks)

text \<open>
  \<open>strconv.Unquote\<close> on string literals: interpreted and raw ones. A rune literal does not occur
  where the code unquotes.
\<close>

definition unquote :: "string \<Rightarrow> string option" where
  "unquote s = (case s of
     [] \<Rightarrow> None
   | q # t \<Rightarrow>
       if q = CHR 0x22 then unquoteBody t
       else if q = CHR 0x60 \<and> t \<noteq> [] \<and> last t = CHR 0x60 \<and> CHR 0x60 \<notin> set (butlast t)
            then Some (filter (\<lambda>c. c \<noteq> CHR 0x0D) (butlast t))
       else None)"

section \<open>Expressions and declarations\<close>

datatype expr =
    Ident (identPath: string) (identName: string)
  | SelectorExpr expr string
  | StarExpr expr
  | ParenExpr expr
  | IndexExpr expr expr
  | IndexListExpr expr "expr list"
  | InterfaceType nat
  | StructType "(string list \<times> expr) list"
  | Ellipsis expr
  | OtherExpr string

type_synonym goField = "string list \<times> expr"

record funcType =
  ftParams :: "goField list option"
  ftResults :: "goField list option"

record funcDecl =
  fdName :: string
  fdRecv :: "goField list option"
  fdType :: funcType
  fdStart :: "string list"

record importSpec =
  impName :: "string option"
  impPath :: "string option"

datatype spec =
    ValueSpec "string list"
  | TypeSpec string expr
  | ImportSpec importSpec

datatype declToken = ImportTok | ConstTok | TypeTok | VarTok

datatype decl =
    FuncDecl funcDecl
  | GenDecl declToken "spec list"

text \<open>
  A node of the tree of a file. The kind tells statements and calls from the rest; a call carries
  the identity of its node.
\<close>

datatype nodeKind = StmtNode | CallNode nat | OtherNode

datatype dnode = DNode (nodeKind: nodeKind) (nodeStart: "string list") (nodeEnd: "string list")
  (nodeChildren: "dnode list")

record dstFile =
  fileName :: string
  fileDecls :: "decl list"
  fileImports :: "importSpec list"
  fileStart :: "string list"
  fileTree :: dnode

section \<open>Searching declarations\<close>

definition listFuncDecls :: "dstFile \<Rightarrow> funcDecl list" where
  "listFuncDecls root = List.map_filter (\<lambda>d. case d of FuncDecl f \<Rightarrow> Some f | _ \<Rightarrow> None) (fileDecls root)"

definition findFuncDecls :: "dstFile \<Rightarrow> (funcDecl \<Rightarrow> bool) \<Rightarrow> funcDecl list" where
  "findFuncDecls root lam = filter lam (listFuncDecls root)"

definition hasReceiver :: "funcDecl \<Rightarrow> bool" where
  "hasReceiver fn \<longleftrightarrow> (case fdRecv fn of None \<Rightarrow> False | Some l \<Rightarrow> l \<noteq> [])"

definition firstOf :: "'a list \<Rightarrow> 'a option" where
  "firstOf xs = (case xs of [] \<Rightarrow> None | x # _ \<Rightarrow> Some x)"

definition findFuncDeclWithoutRecv :: "dstFile \<Rightarrow> string \<Rightarrow> funcDecl option" where
  "findFuncDeclWithoutRecv root funcName =
     firstOf (findFuncDecls root (\<lambda>fn. fdName fn = funcName \<and> \<not> hasReceiver fn))"

fun stripGenericTypes :: "expr \<Rightarrow> string" where
  "stripGenericTypes (StarExpr x) =
     (let inner = stripGenericTypes x in if inner \<noteq> [] then CHR ''*'' # inner else [])"
| "stripGenericTypes (ParenExpr x) = stripGenericTypes x"
| "stripGenericTypes (Ident p n) = n"
| "stripGenericTypes (IndexExpr (Ident p n) i) = n"
| "stripGenericTypes (IndexListExpr (Ident p n) is) = n"
| "stripGenericTypes _ = []"

definition findFuncDecl :: "dstFile \<Rightarrow> string \<Rightarrow> string \<Rightarrow> funcDecl option" where
  "findFuncDecl root funcName recv = firstOf (findFuncDecls root (\<lambda>fn.
     if recv = [] then fdName fn = funcName \<and> \<not> hasReceiver fn
     else if \<not> hasReceiver fn then False
     else let baseType = stripGenericTypes (snd (hd (the (fdRecv fn))))
          in if baseType = [] then False else baseType = recv \<and> fdName fn = funcName))"

fun specNamed :: "string \<Rightarrow> spec \<Rightarrow> bool" where
  "specNamed name (ValueSpec ns) = (name \<in> set ns)"
| "specNamed name _ = False"

fun findValueDecl :: "decl list \<Rightarrow> string \<Rightarrow> declToken \<Rightarrow> (decl \<times> spec) option" where
  "findValueDecl [] name tok = None"
| "findValueDecl (GenDecl t specs # ds) name tok =
     (if t \<noteq> tok then findValueDecl ds name tok
      else case find (specNamed name) specs of
             Some s \<Rightarrow> Some (GenDecl t specs, s)
           | None \<Rightarrow> findValueDecl ds name tok)"
| "findValueDecl (FuncDecl f # ds) name tok = findValueDecl ds name tok"

definition findVarDecl :: "dstFile \<Rightarrow> string \<Rightarrow> (decl \<times> spec) option" where
  "findVarDecl root name = findValueDecl (fileDecls root) name VarTok"

definition findConstDecl :: "dstFile \<Rightarrow> string \<Rightarrow> (decl \<times> spec) option" where
  "findConstDecl root name = findValueDecl (fileDecls root) name ConstTok"

fun typeSpecNamed :: "string \<Rightarrow> spec \<Rightarrow> bool" where
  "typeSpecNamed name (TypeSpec n e) = (n = name)"
| "typeSpecNamed name _ = False"

fun declaresType :: "string \<Rightarrow> decl \<Rightarrow> bool" where
  "declaresType name (GenDecl t specs) = (t = TypeTok \<and> list_ex (typeSpecNamed name) specs)"
| "declaresType name (FuncDecl f) = False"

definition findTypeDecl :: "dstFile \<Rightarrow> string \<Rightarrow> decl option" where
  "findTypeDecl root name = find (declaresType name) (fileDecls root)"

datatype foundDecl = FoundFunc funcDecl | FoundValue spec | FoundType decl

text \<open>The first of several searches that finds something\<close>

fun firstSome :: "'a option list \<Rightarrow> 'a option" where
  "firstSome [] = None"
| "firstSome (Some x # xs) = Some x"
| "firstSome (None # xs) = firstSome xs"

definition findNamedDecl :: "dstFile \<Rightarrow> string \<Rightarrow> string \<Rightarrow> foundDecl option" where
  "findNamedDecl root name kind =
     (let fn = map_option FoundFunc (findFuncDeclWithoutRecv root name);
          var = map_option (\<lambda>(g, s). FoundValue s) (findVarDecl root name);
          const = map_option (\<lambda>(g, s). FoundValue s) (findConstDecl root name);
          typ = map_option FoundType (findTypeDecl root name)
      in if kind = ''func'' then fn
         else if kind = ''var'' then var
         else if kind = ''const'' then const
         else if kind = ''type'' then typ
         else firstSome [fn, var, const, typ])"

definition isInterfaceType :: "expr \<Rightarrow> bool" where
  "isInterfaceType t = (case t of InterfaceType n \<Rightarrow> True | Ident p n \<Rightarrow> n = ''any'' | _ \<Rightarrow> False)"

definition isEllipsis :: "expr \<Rightarrow> bool" where
  "isEllipsis t = (case t of Ellipsis e \<Rightarrow> True | _ \<Rightarrow> False)"

definition findStructType :: "dstFile \<Rightarrow> string \<Rightarrow> goField list option" where
  "findStructType root name =
     (case findTypeDecl root name of
        Some (GenDecl t specs) \<Rightarrow>
          (case find (typeSpecNamed name) specs of
             Some (TypeSpec n (StructType fs)) \<Rightarrow> Some fs
           | _ \<Rightarrow> None)
      | _ \<Rightarrow> None)"

text \<open>\<open>SplitMultiNameFields\<close>: one field per name\<close>

definition splitField :: "string list \<times> 'e \<Rightarrow> (string list \<times> 'e) list" where
  "splitField f = (if fst f = [] then [([], snd f)] else map (\<lambda>n. ([n], snd f)) (fst f))"

definition splitMultiNameFields :: "(string list \<times> 'e) list option \<Rightarrow> (string list \<times> 'e) list option" where
  "splitMultiNameFields fs = map_option (\<lambda>l. concat (map splitField l)) fs"

lemma splitMultiNameFields_types:
  "splitMultiNameFields (Some l) = Some l' \<Longrightarrow>
     map snd l' = concat (map (\<lambda>f. replicate (max 1 (length (fst f))) (snd f)) l) \<and>
     (\<forall>f \<in> set l'. length (fst f) \<le> 1)"
  by (auto simp: splitMultiNameFields_def splitField_def map_concat comp_def map_replicate_const
      Suc_leI max_def intro!: arg_cong [of _ _ concat] split: if_splits)

section \<open>Calls and their enclosing statements\<close>

text \<open>
  \<open>dst.Walk\<close> calls \<open>Visit\<close> on a node, then walks its children, then calls \<open>Visit(nil)\<close>. A visitor
  is a state change per call; \<open>None\<close> stands for nil. \<open>walkWith\<close> and the visitor's state may fail
  as the code's indexing of an empty stack would.
\<close>

record enclosing =
  encStmts :: "(nat \<times> dnode) list"
  encStack :: "dnode list"
  encPushed :: "bool list"

text \<open>The stacks grow at the head of the lists.\<close>

definition visit :: "dnode option \<Rightarrow> enclosing \<Rightarrow> enclosing option" where
  "visit node v =
     (case node of
        None \<Rightarrow>
          (case encPushed v of
             [] \<Rightarrow> None
           | lastPushed # rest \<Rightarrow>
               if lastPushed then
                 (case encStack v of
                    [] \<Rightarrow> None
                  | _ # st \<Rightarrow> Some (v\<lparr>encPushed := rest, encStack := st\<rparr>))
               else Some (v\<lparr>encPushed := rest\<rparr>))
      | Some n \<Rightarrow>
          let didPush = (nodeKind n = StmtNode);
              v1 = (if didPush then v\<lparr>encStack := n # encStack v\<rparr> else v);
              v2 = v1\<lparr>encPushed := didPush # encPushed v1\<rparr>
          in Some (case nodeKind n of
               CallNode c \<Rightarrow> (case encStack v2 of
                   [] \<Rightarrow> v2
                 | s # _ \<Rightarrow> v2\<lparr>encStmts := (c, s) # encStmts v2\<rparr>)
             | _ \<Rightarrow> v2))"

fun walkWith :: "dnode \<Rightarrow> enclosing \<Rightarrow> enclosing option"
  and walkAll :: "dnode list \<Rightarrow> enclosing \<Rightarrow> enclosing option" where
  "walkWith (DNode k a b cs) v =
     Option.bind (visit (Some (DNode k a b cs)) v) (\<lambda>v1. Option.bind (walkAll cs v1) (visit None))"
| "walkAll [] v = Some v"
| "walkAll (c # cs) v = Option.bind (walkWith c v) (walkAll cs)"

definition callEnclosingStmts :: "dstFile \<Rightarrow> (nat \<times> dnode) list option" where
  "callEnclosingStmts root =
     map_option encStmts (walkWith (fileTree root) \<lparr>encStmts = [], encStack = [], encPushed = []\<rparr>)"

text \<open>The nearest enclosing statement of every call, by recursion on the tree\<close>

fun enclosed :: "dnode option \<Rightarrow> dnode \<Rightarrow> (nat \<times> dnode) list" where
  "enclosed outer (DNode k a b cs) =
     (let here = (if k = StmtNode then Some (DNode k a b cs) else outer)
      in (case (k, here) of (CallNode c, Some s) \<Rightarrow> [(c, s)] | _ \<Rightarrow> []) @
         concat (map (enclosed here) cs))"

lemma walk_enclosed:
  "walkWith n v = Some (v\<lparr>encStmts := rev (enclosed (firstOf (encStack v)) n) @ encStmts v\<rparr>)"
  "walkAll ns v = Some (v\<lparr>encStmts := rev (concat (map (enclosed (firstOf (encStack v))) ns)) @ encStmts v\<rparr>)"
proof (induction n v and ns v rule: walkWith_walkAll.induct)
  case (1 k a b cs v)
  then show ?case
    by (cases k) (auto simp: visit_def Let_def firstOf_def split: list.splits)
next
  case (2 v)
  then show ?case by simp
next
  case (3 c cs v)
  then show ?case by simp
qed

lemma callEnclosingStmts_enclosed:
  "callEnclosingStmts root = Some (rev (enclosed None (fileTree root)))"
  by (simp add: callEnclosingStmts_def walk_enclosed firstOf_def)

end
