(* ===== verification/Type_Names.thy ===== *)
theory Type_Names
  imports Go_Syntax Rule_Types Codec
begin

text \<open>
  Type names in rules, \<open>tool/internal/ast/typename.go\<close>, and the signature filters of
  \<open>tool/internal/ast/shared.go\<close>: parsing a type name, matching it against the syntax of a type
  under the imports of a file, the local names of imports, and the search for the function a
  rule targets.

  Shown: matching is naming. Under the imports of a file an expression stands for at most one
  type name, and a filter matches it exactly when it is that name; so an exact signature is a
  comparison of two lists of names.
\<close>

section \<open>Type names\<close>

record parsedTypeName =
  tnImportPath :: string
  tnName :: string
  tnPointer :: bool

text \<open>
  \<open>typeNameRe\<close>: an optional star, spaces, an optional import path in front of a dot, and a name.
  A name has no dot, so the dot is the last one.
\<close>

definition isSpaceClass :: "char \<Rightarrow> bool" where
  "isSpaceClass c \<longleftrightarrow> c \<in> set [CHR 0x09, CHR 0x0A, CHR 0x0C, CHR 0x0D, CHR '' '']"

definition isLetter :: "char \<Rightarrow> bool" where
  "isLetter c \<longleftrightarrow> (let n = of_char c :: nat in 65 \<le> n \<and> n \<le> 90 \<or> 97 \<le> n \<and> n \<le> 122)"

definition isNameStart :: "char \<Rightarrow> bool" where
  "isNameStart c \<longleftrightarrow> isLetter c \<or> c = CHR ''_''"

definition isNameChar :: "char \<Rightarrow> bool" where
  "isNameChar c \<longleftrightarrow> isNameStart c \<or> isAsciiDigit c"

definition isPathChar :: "char \<Rightarrow> bool" where
  "isPathChar c \<longleftrightarrow> isNameChar c \<or> c = CHR ''.'' \<or> c = CHR ''-''"

definition isTypeIdent :: "string \<Rightarrow> bool" where
  "isTypeIdent s \<longleftrightarrow> (case s of [] \<Rightarrow> False | c # t \<Rightarrow> isNameStart c \<and> list_all isNameChar t)"

definition isImportPath :: "string \<Rightarrow> bool" where
  "isImportPath s \<longleftrightarrow> list_all (\<lambda>seg. seg \<noteq> [] \<and> list_all isPathChar seg) (splitOn (CHR ''/'') s)"

definition parseTypeName :: "string \<Rightarrow> parsedTypeName option" where
  "parseTypeName s =
     (let pointer = hasPrefix s ''*'';
          r = dropWhile isSpaceClass (trimPrefix s ''*'')
      in case lastIndexByte r (CHR ''.'') of
           None \<Rightarrow>
             if isTypeIdent r then Some \<lparr>tnImportPath = [], tnName = r, tnPointer = pointer\<rparr> else None
         | Some i \<Rightarrow>
             if isImportPath (take i r) \<and> isTypeIdent (drop (Suc i) r)
             then Some \<lparr>tnImportPath = take i r, tnName = drop (Suc i) r, tnPointer = pointer\<rparr>
             else None)"

section \<open>Local names of imports\<close>

definition isMajorVersion :: "string \<Rightarrow> bool" where
  "isMajorVersion s \<longleftrightarrow> length s \<ge> 2 \<and> hd s = CHR ''v'' \<and> list_all isAsciiDigit (tl s)"

definition defaultImportAlias :: "string \<Rightarrow> string" where
  "defaultImportAlias path0 =
     (let p = trimSpace path0
      in if p = [] \<or> p = ''.'' \<or> p = ''/'' then []
         else
           let p1 = (case lastIndexByte p (CHR ''/'') of
                       Some i \<Rightarrow> if isMajorVersion (drop (Suc i) p) then take i p else p
                     | None \<Rightarrow> p);
               p2 = (case lastIndexByte p1 (CHR ''/'') of Some i \<Rightarrow> drop (Suc i) p1 | None \<Rightarrow> p1);
               p3 = (case lastIndexByte p2 (CHR ''.'') of
                       Some i \<Rightarrow> if isMajorVersion (drop (Suc i) p2) then take i p2 else p2
                     | None \<Rightarrow> p2)
           in if p3 = ''.'' \<or> p3 = ''/'' then [] else p3)"

definition importSpecs :: "dstFile \<Rightarrow> importSpec list" where
  "importSpecs root =
     (if fileImports root \<noteq> [] then fileImports root
      else concat (map (\<lambda>d. case d of
             GenDecl ImportTok specs \<Rightarrow>
               List.map_filter (\<lambda>s. case s of ImportSpec i \<Rightarrow> Some i | _ \<Rightarrow> None) specs
           | _ \<Rightarrow> []) (fileDecls root)))"

text \<open>The local name and the path that one import adds to the map, if any\<close>

definition importAlias ::
    "(string \<Rightarrow> string option) \<Rightarrow> bool \<Rightarrow> importSpec \<Rightarrow> (string \<times> string) option" where
  "importAlias resolvedNames allowGuess imp =
     (case Option.bind (impPath imp) unquote of
        None \<Rightarrow> None
      | Some path \<Rightarrow>
          let alias1 = (case resolvedNames path of
                          Some name \<Rightarrow> if name \<noteq> [] then name else defaultImportAlias path
                        | None \<Rightarrow> defaultImportAlias path);
              alias = (case impName imp of Some n \<Rightarrow> n | None \<Rightarrow> alias1);
              resolved = (resolvedNames path \<noteq> None \<or> impName imp \<noteq> None)
          in if \<not> allowGuess \<and> \<not> resolved then None
             else if alias = [] \<or> alias = ''_'' \<or> alias = ''.'' then None
             else Some (alias, path))"

definition importAliasMap ::
    "dstFile option \<Rightarrow> (string \<Rightarrow> string option) \<Rightarrow> bool \<Rightarrow> (string \<Rightarrow> string option) option" where
  "importAliasMap root resolvedNames allowGuess =
     map_option (\<lambda>f. foldl (\<lambda>m imp. case importAlias resolvedNames allowGuess imp of
         None \<Rightarrow> m | Some (alias, path) \<Rightarrow> m(alias \<mapsto> path)) Map.empty (importSpecs f)) root"

definition ImportAliasMap where
  "ImportAliasMap root resolvedNames = importAliasMap root resolvedNames True"

definition ResolvedImportAliasMap where
  "ResolvedImportAliasMap root resolvedNames = importAliasMap root resolvedNames False"

section \<open>Matching types\<close>

fun typeMatches :: "parsedTypeName \<Rightarrow> expr \<Rightarrow> (string \<Rightarrow> string option) option \<Rightarrow> bool" where
  "typeMatches t (Ident p n) imports \<longleftrightarrow> \<not> tnPointer t \<and> tnImportPath t = p \<and> tnName t = n"
| "typeMatches t (SelectorExpr x sel) imports \<longleftrightarrow>
     (case x of
        Ident p n \<Rightarrow>
          if tnPointer t then False
          else if p \<noteq> [] then tnImportPath t = p \<and> tnName t = sel
          else (case imports of
                  Some m \<Rightarrow>
                    (case m n of
                       Some resolved \<Rightarrow> tnImportPath t = resolved \<and> tnName t = sel
                     | None \<Rightarrow> False)
                | None \<Rightarrow> defaultImportAlias (tnImportPath t) = n \<and> tnName t = sel)
      | _ \<Rightarrow> False)"
| "typeMatches t (StarExpr x) imports \<longleftrightarrow>
     tnPointer t \<and> typeMatches \<lparr>tnImportPath = tnImportPath t, tnName = tnName t, tnPointer = False\<rparr> x imports"
| "typeMatches t (IndexExpr x i) imports \<longleftrightarrow> \<not> tnPointer t \<and> typeMatches t x imports"
| "typeMatches t (IndexListExpr x is) imports \<longleftrightarrow> \<not> tnPointer t \<and> typeMatches t x imports"
| "typeMatches t (InterfaceType methods) imports \<longleftrightarrow>
     methods = 0 \<and> tnImportPath t = [] \<and> tnName t = ''any''"
| "typeMatches t _ imports \<longleftrightarrow> False"

text \<open>The checks return \<open>Inl\<close> of a type name that cannot be parsed.\<close>

definition fieldListContainsType ::
    "goField list option \<Rightarrow> string \<Rightarrow> (string \<Rightarrow> string option) option \<Rightarrow> string + bool" where
  "fieldListContainsType fields' typeStr imports =
     (case fields' of
        None \<Rightarrow> Inr False
      | Some l \<Rightarrow>
          if l = [] then Inr False
          else case parseTypeName typeStr of
                 None \<Rightarrow> Inl typeStr
               | Some tn \<Rightarrow> Inr (list_ex (\<lambda>f. typeMatches tn (snd f) imports) l))"

definition MatchesTypeName :: "expr \<Rightarrow> string \<Rightarrow> (string \<Rightarrow> string option) option \<Rightarrow> string + bool" where
  "MatchesTypeName node typeStr imports =
     (case parseTypeName typeStr of None \<Rightarrow> Inl typeStr | Some tn \<Rightarrow> Inr (typeMatches tn node imports))"

definition fieldTypes :: "goField list option \<Rightarrow> expr list" where
  "fieldTypes fields' = (case fields' of
     None \<Rightarrow> []
   | Some l \<Rightarrow> concat (map (\<lambda>(names, t). if names = [] then [t] else map (\<lambda>_. t) names) l))"

fun matchTypes :: "string list \<Rightarrow> expr list \<Rightarrow> (string \<Rightarrow> string option) option \<Rightarrow> string + bool" where
  "matchTypes (typeStr # expected) (t # ts) imports =
     (case parseTypeName typeStr of
        None \<Rightarrow> Inl typeStr
      | Some tn \<Rightarrow> if typeMatches tn t imports then matchTypes expected ts imports else Inr False)"
| "matchTypes _ _ imports = Inr True"

definition matchesFieldList ::
    "string list \<Rightarrow> goField list option \<Rightarrow> (string \<Rightarrow> string option) option \<Rightarrow> string + bool" where
  "matchesFieldList expected fields' imports =
     (if expected = [] then Inr (case fields' of None \<Rightarrow> True | Some l \<Rightarrow> l = [])
      else if length expected \<noteq> length (fieldTypes fields') then Inr False
      else matchTypes expected (fieldTypes fields') imports)"

definition matchesExactSignature ::
    "funcType \<Rightarrow> FuncSignature \<Rightarrow> (string \<Rightarrow> string option) option \<Rightarrow> string + bool" where
  "matchesExactSignature ft sig imports =
     (case matchesFieldList (sigArgs sig) (ftParams ft) imports of
        Inl e \<Rightarrow> Inl e
      | Inr ok \<Rightarrow> if \<not> ok then Inr False else matchesFieldList (sigReturns sig) (ftResults ft) imports)"

fun containsAnyType ::
    "goField list option \<Rightarrow> string list \<Rightarrow> (string \<Rightarrow> string option) option \<Rightarrow> string + bool" where
  "containsAnyType fields' [] imports = Inr False"
| "containsAnyType fields' (expected # es) imports =
     (case fieldListContainsType fields' expected imports of
        Inl e \<Rightarrow> Inl e
      | Inr ok \<Rightarrow> if ok then Inr True else containsAnyType fields' es imports)"

definition matchesSignatureContains ::
    "funcType \<Rightarrow> FuncSignature \<Rightarrow> (string \<Rightarrow> string option) option \<Rightarrow> string + bool" where
  "matchesSignatureContains ft sig imports =
     (case containsAnyType (ftParams ft) (sigArgs sig) imports of
        Inl e \<Rightarrow> Inl e
      | Inr ok \<Rightarrow> if ok then Inr True else containsAnyType (ftResults ft) (sigReturns sig) imports)"

definition matchesLastResult ::
    "goField list option \<Rightarrow> string \<Rightarrow> (string \<Rightarrow> string option) option \<Rightarrow> string + bool" where
  "matchesLastResult fields' typeStr imports =
     (case fields' of
        None \<Rightarrow> Inr False
      | Some l \<Rightarrow>
          if l = [] then Inr False
          else case parseTypeName typeStr of
                 None \<Rightarrow> Inl typeStr
               | Some tn \<Rightarrow> Inr (typeMatches tn (snd (last l)) imports))"

text \<open>The checks that apply, in order; the first that fails or errs decides.\<close>

fun allMatch :: "(string + bool) list \<Rightarrow> string + bool" where
  "allMatch [] = Inr True"
| "allMatch (c # cs) = (case c of Inl e \<Rightarrow> Inl e | Inr ok \<Rightarrow> if ok then allMatch cs else Inr False)"

definition funcDeclMatchesFilters ::
    "funcDecl \<Rightarrow> InstFuncRule \<Rightarrow> dstFile \<Rightarrow> (string \<Rightarrow> string option) \<Rightarrow> string + bool" where
  "funcDeclMatchesFilters fn r root resolvedNames =
     (let imports = ImportAliasMap (Some root) resolvedNames; ft = fdType fn
      in allMatch (concat
           [case frSignature r of None \<Rightarrow> [] | Some sig \<Rightarrow> [matchesExactSignature ft sig imports],
            case frSignatureContains r of None \<Rightarrow> [] | Some sig \<Rightarrow> [matchesSignatureContains ft sig imports],
            if frResult r = [] then [] else [fieldListContainsType (ftResults ft) (frResult r) imports],
            if frLastResult r = [] then [] else [matchesLastResult (ftResults ft) (frLastResult r) imports],
            if frParam r = [] then [] else [fieldListContainsType (ftParams ft) (frParam r) imports]]))"

section \<open>Finding the function of a rule\<close>

text \<open>\<open>FindFuncDecl\<close> is generic in the rule; a func rule also has signature filters.\<close>

datatype funcSelector = SelectFunc InstFuncRule | SelectRaw InstRawRule | SelectFilter FilterDef

definition FindFuncDecl ::
    "dstFile \<Rightarrow> funcSelector \<Rightarrow> (string \<Rightarrow> string option) \<Rightarrow> string + funcDecl option" where
  "FindFuncDecl root r resolvedNames =
     (let (funcName, recv, funcRule) = (case r of
            SelectFunc rr \<Rightarrow> (frFunc rr, frRecv rr, Some rr)
          | SelectRaw rr \<Rightarrow> (rrFunc rr, rrRecv rr, None)
          | SelectFilter rr \<Rightarrow> (hasFunc rr, hasRecv rr, None))
      in case findFuncDecl root funcName recv of
           None \<Rightarrow> Inr None
         | Some fn \<Rightarrow>
             (case funcRule of
                None \<Rightarrow> Inr (Some fn)
              | Some rr \<Rightarrow>
                  (case funcDeclMatchesFilters fn rr root resolvedNames of
                     Inl e \<Rightarrow> Inl e
                   | Inr ok \<Rightarrow> Inr (if ok then Some fn else None))))"

section \<open>What an expression stands for\<close>

text \<open>The type name of an expression under the imports of its file\<close>

fun typeNameOf :: "(string \<Rightarrow> string option) \<Rightarrow> expr \<Rightarrow> parsedTypeName option" where
  "typeNameOf m (Ident p n) = Some \<lparr>tnImportPath = p, tnName = n, tnPointer = False\<rparr>"
| "typeNameOf m (SelectorExpr x sel) = (case x of
     Ident p n \<Rightarrow> map_option (\<lambda>q. \<lparr>tnImportPath = q, tnName = sel, tnPointer = False\<rparr>)
                    (if p \<noteq> [] then Some p else m n)
   | _ \<Rightarrow> None)"
| "typeNameOf m (StarExpr x) = (case typeNameOf m x of
     Some t \<Rightarrow> if tnPointer t then None else Some (t\<lparr>tnPointer := True\<rparr>) | None \<Rightarrow> None)"
| "typeNameOf m (IndexExpr x i) = (case typeNameOf m x of
     Some t \<Rightarrow> if tnPointer t then None else Some t | None \<Rightarrow> None)"
| "typeNameOf m (IndexListExpr x is) = (case typeNameOf m x of
     Some t \<Rightarrow> if tnPointer t then None else Some t | None \<Rightarrow> None)"
| "typeNameOf m (InterfaceType methods) =
     (if methods = 0 then Some \<lparr>tnImportPath = [], tnName = ''any'', tnPointer = False\<rparr> else None)"
| "typeNameOf m _ = None"

text \<open>How a type name is written\<close>

definition renderTypeName :: "parsedTypeName \<Rightarrow> string" where
  "renderTypeName t = (if tnPointer t then ''*'' else []) @
     (if tnImportPath t = [] then [] else tnImportPath t @ ''.'') @ tnName t"

definition validTypeName :: "parsedTypeName \<Rightarrow> bool" where
  "validTypeName t \<longleftrightarrow> isTypeIdent (tnName t) \<and> (tnImportPath t = [] \<or> isImportPath (tnImportPath t))"

section \<open>Lemmas\<close>

lemma isNameChar_facts:
  "isNameChar c \<Longrightarrow> c \<noteq> CHR ''.'' \<and> c \<noteq> CHR ''*'' \<and> \<not> isSpaceClass c"
  by (auto simp: isNameChar_def isNameStart_def isLetter_def isAsciiDigit_def isSpaceClass_def Let_def)

lemma isPathChar_facts: "isPathChar c \<Longrightarrow> c \<noteq> CHR ''*'' \<and> \<not> isSpaceClass c"
  by (auto simp: isPathChar_def dest: isNameChar_facts) (auto simp: isSpaceClass_def)

lemma isTypeIdent_chars: "isTypeIdent s \<Longrightarrow> s \<noteq> [] \<and> list_all isNameChar s"
  by (cases s) (auto simp: isTypeIdent_def isNameChar_def)

lemma isTypeIdent_no_dot: "isTypeIdent s \<Longrightarrow> CHR ''.'' \<notin> set s"
  using isTypeIdent_chars [of s] isNameChar_facts by (auto simp: list_all_iff)

lemma isImportPath_head: "isImportPath s \<Longrightarrow> \<exists>c t. s = c # t \<and> isPathChar c"
  by (cases s) (auto simp: isImportPath_def split: if_splits list.splits)

lemma isTypeIdent_head: "isTypeIdent s \<Longrightarrow> \<exists>c t. s = c # t \<and> isPathChar c"
  by (cases s) (auto simp: isTypeIdent_def isPathChar_def isNameChar_def)

lemma strip_none:
  assumes "r = c # t" and "isPathChar c"
  shows "dropWhile isSpaceClass r = r" and "trimPrefix r ''*'' = r" and "\<not> hasPrefix r ''*''"
  using assms isPathChar_facts by (auto simp: trimPrefix_def)

text \<open>The text of a type name without its star starts neither with a star nor with a space.\<close>

lemma bare_head:
  assumes "validTypeName t"
  obtains c u where "(if tnImportPath t = [] then [] else tnImportPath t @ ''.'') @ tnName t = c # u"
    and "isPathChar c"
  using assms that unfolding validTypeName_def
  by (cases "tnImportPath t = []") (auto dest!: isTypeIdent_head isImportPath_head)

lemma parse_render: "validTypeName t \<Longrightarrow> parseTypeName (renderTypeName t) = Some t"
proof -
  assume v: "validTypeName t"
  define bare where "bare = (if tnImportPath t = [] then [] else tnImportPath t @ ''.'') @ tnName t"
  obtain c u where cu: "bare = c # u" "isPathChar c"
    using bare_head [OF v] unfolding bare_def by metis
  note strip = strip_none [OF cu]
  have "trimPrefix (renderTypeName t) ''*'' = bare" "hasPrefix (renderTypeName t) ''*'' = tnPointer t"
    using strip trimPrefix_append [of "''*''" bare] by (simp_all add: renderTypeName_def bare_def [symmetric])
  then have "parseTypeName (renderTypeName t) =
      (case lastIndexByte bare (CHR ''.'') of
           None \<Rightarrow>
             if isTypeIdent bare then Some \<lparr>tnImportPath = [], tnName = bare, tnPointer = tnPointer t\<rparr> else None
         | Some i \<Rightarrow>
             if isImportPath (take i bare) \<and> isTypeIdent (drop (Suc i) bare)
             then Some \<lparr>tnImportPath = take i bare, tnName = drop (Suc i) bare, tnPointer = tnPointer t\<rparr>
             else None)"
    by (simp add: parseTypeName_def Let_def strip)
  also have "\<dots> = Some t"
    using v isTypeIdent_no_dot [of "tnName t"]
    by (cases "tnImportPath t = []") (auto simp: bare_def validTypeName_def)
  finally show ?thesis .
qed

interpretation typeName: text_codec validTypeName renderTypeName parseTypeName
  by unfold_locales (rule parse_render)

lemma parseTypeName_valid: "parseTypeName s = Some t \<Longrightarrow> validTypeName t"
  by (auto simp: parseTypeName_def validTypeName_def Let_def split: option.splits if_splits)

text \<open>The type \<open>*any\<close>, and the one expression it matches beside those it names\<close>

abbreviation pointerToAny :: parsedTypeName where
  "pointerToAny \<equiv> \<lparr>tnImportPath = [], tnName = ''any'', tnPointer = True\<rparr>"

lemma matches_named:
  "typeMatches t e (Some m) \<longleftrightarrow>
     typeNameOf m e = Some t \<or> (e = InterfaceType 0 \<and> t = pointerToAny)"
proof (induction t e "Some m" rule: typeMatches.induct)
  case (2 t x sel)
  then show ?case by (cases t) (auto split: expr.splits option.splits)
next
  case (3 t x)
  show ?case
  proof (cases "typeNameOf m x")
    case None
    then show ?thesis using 3 by (cases t) auto
  next
    case (Some u)
    then show ?thesis using 3 by (cases t; cases u) auto
  qed
next
  case (4 t x i)
  then show ?case by (cases t) (auto split: option.splits)
next
  case (5 t x "is")
  then show ?case by (cases t) (auto split: option.splits)
next
  case (6 t methods)
  then show ?case by (cases t) auto
qed (auto intro: parsedTypeName.equality)

lemma matchTypes_True:
  assumes "length expected = length ts"
  shows "matchTypes expected ts imports = Inr True \<longleftrightarrow>
    list_all2 (\<lambda>s e. MatchesTypeName e s imports = Inr True) expected ts"
  using assms
  by (induction expected ts rule: list_induct2)
    (auto simp: MatchesTypeName_def split: option.splits)

lemma fieldTypes_Nil_iff: "fieldTypes fs = [] \<longleftrightarrow> (case fs of None \<Rightarrow> True | Some l \<Rightarrow> l = [])"
proof (cases fs)
  case None
  then show ?thesis by (simp add: fieldTypes_def)
next
  case (Some l)
  then show ?thesis by (cases l) (auto simp: fieldTypes_def split: if_splits)
qed

lemma matchesFieldList_True:
  "matchesFieldList expected fs imports = Inr True \<longleftrightarrow>
     list_all2 (\<lambda>s e. MatchesTypeName e s imports = Inr True) expected (fieldTypes fs)"
proof (cases "expected = []")
  case True
  then show ?thesis
    using fieldTypes_Nil_iff [of fs] by (cases fs) (auto simp: matchesFieldList_def)
next
  case False
  then show ?thesis
    by (auto simp: matchesFieldList_def matchTypes_True dest: list_all2_lengthD)
qed

section \<open>Properties\<close>

text \<open>
  A type filter compares names. Under the imports of a file, a filter matches an expression
  exactly when the expression stands for the type name that the filter parses to. The exception
  is the filter \<open>*any\<close>, which also matches a plain \<open>interface{}\<close>, that is no pointer.
\<close>

theorem typeFilter_iff:
  "MatchesTypeName e s (Some m) = Inr b \<longleftrightarrow>
     (\<exists>t. parseTypeName s = Some t \<and>
        b = (typeNameOf m e = Some t \<or> e = InterfaceType 0 \<and> t = pointerToAny))"
  by (auto simp: MatchesTypeName_def matches_named split: option.splits)

text \<open>A signature filter is exact. It accepts a function exactly when its parameters and its
  results, a field with several names counted once per name, are in number and order those of
  the rule, each matching its type name.
\<close>

theorem exactSignature_iff:
  "matchesExactSignature ft sig imports = Inr True \<longleftrightarrow>
     list_all2 (\<lambda>s e. MatchesTypeName e s imports = Inr True) (sigArgs sig) (fieldTypes (ftParams ft)) \<and>
     list_all2 (\<lambda>s e. MatchesTypeName e s imports = Inr True) (sigReturns sig) (fieldTypes (ftResults ft))"
  by (auto simp: matchesExactSignature_def matchesFieldList_True [symmetric] split: sum.splits)

end
