(* ===== verification/Directives.thy ===== *)
theory Directives
  imports Go_Syntax Codec
begin

text \<open>
  Directive comments, \<open>tool/internal/ast/directive.go\<close>: matching a comment against a directive,
  the arguments of a directive, and the searches for directives in a file. Source text is valid
  UTF-8 (the Go parser rejects any other), so the loops over runes are loops over bytes here, a
  space being one of the encodings in \<open>unicodeSpaces\<close>.

  Shown: directive arguments can hold any text: what is written with quoted values is read back
  as it was.
\<close>

section \<open>Comments\<close>

definition directiveCommentBody :: "string \<Rightarrow> string option" where
  "directiveCommentBody dec =
     (let s = trimSpace dec
      in if \<not> hasPrefix s ''//'' then None
         else let b = drop 2 s
              in if b = [] then None
                 else if leadingSpace b \<noteq> None then None
                 else Some b)"

text \<open>What follows the directive in a matching comment\<close>

definition matchDirective :: "string \<Rightarrow> string \<Rightarrow> string option" where
  "matchDirective dec directive =
     (case directiveCommentBody dec of
        None \<Rightarrow> None
      | Some s \<Rightarrow>
          if \<not> hasPrefix s directive then None
          else let rest = drop (length directive) s
               in if rest = [] then Some []
                  else if leadingSpace rest = None then None
                  else Some rest)"

fun untilSpace :: "string \<Rightarrow> string" where
  "untilSpace [] = []"
| "untilSpace (c # s) = (if leadingSpace (c # s) \<noteq> None then [] else c # untilSpace s)"

definition otelcDirectiveName :: "string \<Rightarrow> string option" where
  "otelcDirectiveName dec =
     (case directiveCommentBody dec of
        None \<Rightarrow> None
      | Some s \<Rightarrow> if hasPrefix s ''otelc:'' then Some (untilSpace s) else None)"

section \<open>Directives in a file\<close>

text \<open>\<open>dst.Inspect\<close>: the nodes of a tree in the order of the walk\<close>

fun nodesOf :: "dnode \<Rightarrow> dnode list" where
  "nodesOf (DNode k a b cs) = DNode k a b cs # concat (map nodesOf cs)"

definition collectUnknownDirectives :: "string list \<Rightarrow> string set \<Rightarrow> string list \<Rightarrow> string list" where
  "collectUnknownDirectives decs known seen = foldl (\<lambda>seen dec.
     case otelcDirectiveName dec of
       None \<Rightarrow> seen
     | Some name \<Rightarrow> if name \<in> known then seen else List.insert name seen) seen decs"

definition unknownDirectiveNames :: "dstFile \<Rightarrow> string set \<Rightarrow> string list" where
  "unknownDirectiveNames root known =
     sort (foldl (\<lambda>seen n. collectUnknownDirectives (nodeEnd n) known
                     (collectUnknownDirectives (nodeStart n) known seen)) [] (nodesOf (fileTree root)))"

definition anyDirective :: "string list \<Rightarrow> string \<Rightarrow> bool" where
  "anyDirective decs directive \<longleftrightarrow> list_ex (\<lambda>dec. matchDirective dec directive \<noteq> None) decs"

definition fileContainsDirectiveText :: "(string \<Rightarrow> string option) \<Rightarrow> string \<Rightarrow> string \<Rightarrow> bool option" where
  "fileContainsDirectiveText readText path directive =
     map_option (\<lambda>content. contains content (''//'' @ directive)) (readText path)"

text \<open>The walk over the nodes ends at the first match.\<close>

fun inspectFor :: "string \<Rightarrow> dnode list \<Rightarrow> bool" where
  "inspectFor directive [] = False"
| "inspectFor directive (n # ns) =
     (if anyDirective (nodeStart n) directive then True
      else if anyDirective (nodeEnd n) directive then True
      else inspectFor directive ns)"

definition fileHasDirective :: "dstFile \<Rightarrow> string \<Rightarrow> bool" where
  "fileHasDirective root directive = inspectFor directive (nodesOf (fileTree root))"

definition funcLeadHasDirective :: "funcDecl \<Rightarrow> string \<Rightarrow> bool" where
  "funcLeadHasDirective fn directive = anyDirective (fdStart fn) directive"

definition hasLeadingDirective :: "dnode option \<Rightarrow> string \<Rightarrow> bool" where
  "hasLeadingDirective stmt directive =
     (case stmt of None \<Rightarrow> False | Some n \<Rightarrow> anyDirective (nodeStart n) directive)"

definition fileHasLeadingDirective :: "dstFile \<Rightarrow> string \<Rightarrow> bool" where
  "fileHasLeadingDirective root directive = anyDirective (fileStart root) directive"

text \<open>\<open>FileHasIgnoredCall\<close> of shared.go, over the map of enclosing statements\<close>

definition fileHasIgnoredCall :: "dstFile \<Rightarrow> string \<Rightarrow> bool option" where
  "fileHasIgnoredCall root directive =
     map_option (list_ex (\<lambda>(c, s). hasLeadingDirective (Some s) directive)) (callEnclosingStmts root)"

section \<open>Arguments\<close>

record DirectiveArg =
  argKey :: string
  argValue :: string

datatype argError =
    NoDirective | UnclosedQuote | NoColon string | EmptyKey string | QuotedKey string
  | SingleQuoted string | BadQuoted string

text \<open>\<open>tokenize\<close>: inside quotes, after a backslash, the current token, the rest of the input\<close>

definition pushToken :: "string \<Rightarrow> string list \<Rightarrow> string list" where
  "pushToken cur ts = (if cur = [] then ts else cur # ts)"

function tokenizeFrom :: "bool \<Rightarrow> bool \<Rightarrow> string \<Rightarrow> string \<Rightarrow> string list option" where
  "tokenizeFrom inQuote escaped cur [] = (if inQuote then None else Some (pushToken cur []))"
| "tokenizeFrom inQuote escaped cur (c # s) =
     (if escaped then tokenizeFrom inQuote False (cur @ [c]) s
      else if c = CHR 0x5C \<and> inQuote then tokenizeFrom inQuote True (cur @ [c]) s
      else if c = CHR 0x22 then tokenizeFrom (\<not> inQuote) False (cur @ [c]) s
      else case (if inQuote then None else leadingSpace (c # s)) of
             Some sp \<Rightarrow> map_option (pushToken cur) (tokenizeFrom False False [] (drop (length sp) (c # s)))
           | None \<Rightarrow> tokenizeFrom inQuote False (cur @ [c]) s)"
  by pat_completeness auto
termination
  by (relation "measure (\<lambda>(q, e, cur, s). length s)") (auto split: if_splits dest!: leadingSpace_SomeD)

definition tokenize :: "string \<Rightarrow> string list option" where
  "tokenize input = tokenizeFrom False False [] input"

fun cutFrom :: "char \<Rightarrow> bool \<Rightarrow> bool \<Rightarrow> string \<Rightarrow> (string \<times> string) option" where
  "cutFrom sep inQuote escaped [] = None"
| "cutFrom sep inQuote escaped (c # s) =
     (if escaped then map_option (apfst (Cons c)) (cutFrom sep inQuote False s)
      else if c = CHR 0x5C \<and> inQuote then map_option (apfst (Cons c)) (cutFrom sep inQuote True s)
      else if c = CHR 0x22 then map_option (apfst (Cons c)) (cutFrom sep (\<not> inQuote) False s)
      else if c = sep \<and> \<not> inQuote then Some ([], s)
      else map_option (apfst (Cons c)) (cutFrom sep inQuote False s))"

text \<open>\<open>cutUnquoted\<close>; \<open>None\<close> when there is no separator outside quotes\<close>

definition cutUnquoted :: "string \<Rightarrow> char \<Rightarrow> (string \<times> string) option" where
  "cutUnquoted tok sep = cutFrom sep False False tok"

definition scanArg :: "string \<Rightarrow> argError + DirectiveArg" where
  "scanArg tok =
     (case cutUnquoted tok (CHR '':'') of
        None \<Rightarrow> Inl (NoColon tok)
      | Some (key, value) \<Rightarrow>
          if key = [] then Inl (EmptyKey tok)
          else if CHR 0x22 \<in> set key then Inl (QuotedKey tok)
          else if hasPrefix value [CHR 0x27] then Inl (SingleQuoted tok)
          else if hasPrefix value [CHR 0x22] then
            (case unquote value of
               None \<Rightarrow> Inl (BadQuoted tok)
             | Some v \<Rightarrow> Inr \<lparr>argKey = key, argValue = v\<rparr>)
          else Inr \<lparr>argKey = key, argValue = value\<rparr>)"

fun scanTokens :: "string list \<Rightarrow> argError + DirectiveArg list" where
  "scanTokens [] = Inr []"
| "scanTokens (tok # toks) =
     (case scanArg tok of
        Inl e \<Rightarrow> Inl e
      | Inr a \<Rightarrow> (case scanTokens toks of Inl e \<Rightarrow> Inl e | Inr as \<Rightarrow> Inr (a # as)))"

definition scanArgs :: "string \<Rightarrow> argError + DirectiveArg list" where
  "scanArgs input = (case tokenize input of None \<Rightarrow> Inl UnclosedQuote | Some toks \<Rightarrow> scanTokens toks)"

definition parseDirectiveArgs :: "string \<Rightarrow> string \<Rightarrow> argError + DirectiveArg list" where
  "parseDirectiveArgs dec directive =
     (case matchDirective dec directive of
        None \<Rightarrow> Inl NoDirective
      | Some rest \<Rightarrow> (let r = trimSpace rest in if r = [] then Inr [] else scanArgs r))"

text \<open>\<open>FindFuncsByDirective\<close>: each function is matched by the first of its comments that fits.\<close>

fun findFuncsByDirective :: "funcDecl list \<Rightarrow> string \<Rightarrow> argError + (funcDecl \<times> DirectiveArg list) list" where
  "findFuncsByDirective [] directive = Inr []"
| "findFuncsByDirective (fn # fns) directive =
     (case find (\<lambda>dec. matchDirective dec directive \<noteq> None) (fdStart fn) of
        None \<Rightarrow> findFuncsByDirective fns directive
      | Some dec \<Rightarrow>
          (case parseDirectiveArgs dec directive of
             Inl e \<Rightarrow> Inl e
           | Inr as \<Rightarrow>
               (case findFuncsByDirective fns directive of
                  Inl e \<Rightarrow> Inl e | Inr ms \<Rightarrow> Inr ((fn, as) # ms))))"

section \<open>Writing arguments\<close>

text \<open>An argument as a rule author writes it: the value quoted, with quotes and backslashes escaped\<close>

fun escapeValue :: "string \<Rightarrow> string" where
  "escapeValue [] = []"
| "escapeValue (c # s) = (if c \<in> set [CHR 0x22, CHR 0x5C] then CHR 0x5C # c # escapeValue s else c # escapeValue s)"

definition quoteValue :: "string \<Rightarrow> string" where
  "quoteValue v = CHR 0x22 # escapeValue v @ [CHR 0x22]"

definition renderArg :: "DirectiveArg \<Rightarrow> string" where
  "renderArg a = argKey a @ '':'' @ quoteValue (argValue a)"

definition renderArgs :: "DirectiveArg list \<Rightarrow> string" where
  "renderArgs as = joinWith '' '' (map renderArg as)"

text \<open>Keys are ASCII without spaces, quotes and colons; values are on one line.\<close>

definition keyChar :: "char \<Rightarrow> bool" where
  "keyChar c \<longleftrightarrow> (let n = of_char c :: nat in 0x20 < n \<and> n < 0x7F \<and> c \<noteq> CHR 0x22 \<and> c \<noteq> CHR '':'')"

definition validArg :: "DirectiveArg \<Rightarrow> bool" where
  "validArg a \<longleftrightarrow> argKey a \<noteq> [] \<and> list_all keyChar (argKey a) \<and> CHR 0x0A \<notin> set (argValue a)"

lemma leadingSpace_ascii:
  assumes "0x20 < (of_char c :: nat)" "(of_char c :: nat) < 0x7F"
  shows "leadingSpace (c # s) = None"
proof -
  have "\<not> prefix sp (c # s)" if "sp \<in> set unicodeSpaces" for sp
    using that assms by (auto simp: unicodeSpaces_def)
  then show ?thesis by (auto simp: leadingSpace_def find_None_iff)
qed

lemma leadingSpace_key: "keyChar c \<Longrightarrow> leadingSpace (c # s) = None"
  by (rule leadingSpace_ascii) (auto simp: keyChar_def Let_def)

lemma leadingSpace_colon [simp]: "leadingSpace (CHR '':'' # s) = None"
  by (rule leadingSpace_ascii) auto

lemma leadingSpace_blank [simp]: "leadingSpace (CHR '' '' # s) = Some '' ''"
  by (simp add: leadingSpace_def unicodeSpaces_def)

lemma unescape_escaped [simp]: "c = CHR 0x22 \<or> c = CHR 0x5C \<Longrightarrow> unescape (c # t) = Some ([c], t)"
  by (auto simp: unescape_def simpleEscapes_def)

lemma unquote_quoteValue: "CHR 0x0A \<notin> set v \<Longrightarrow> unquote (quoteValue v) = Some v"
proof -
  assume "CHR 0x0A \<notin> set v"
  then have "unquoteBody (escapeValue v @ [CHR 0x22]) = Some v"
    by (induction v) auto
  then show ?thesis by (simp add: unquote_def quoteValue_def)
qed

lemma tokenize_quoted:
  "tokenizeFrom True False cur (escapeValue v @ CHR 0x22 # s) =
     tokenizeFrom False False (cur @ escapeValue v @ [CHR 0x22]) s"
  by (induction v arbitrary: cur) auto

lemma tokenize_key:
  "list_all keyChar k \<Longrightarrow> tokenizeFrom False False cur (k @ s) = tokenizeFrom False False (cur @ k) s"
  by (induction k arbitrary: cur) (auto simp: leadingSpace_key keyChar_def Let_def)

lemma tokenize_arg:
  "validArg a \<Longrightarrow> tokenizeFrom False False cur (renderArg a @ s) = tokenizeFrom False False (cur @ renderArg a) s"
  by (simp add: renderArg_def validArg_def tokenize_key quoteValue_def tokenize_quoted)

lemma renderArg_not_Nil [simp]: "renderArg a \<noteq> []"
  by (simp add: renderArg_def)

lemma tokenize_renderArgs: "list_all validArg as \<Longrightarrow> tokenize (renderArgs as) = Some (map renderArg as)"
proof (induction as)
  case Nil
  then show ?case by (simp add: tokenize_def renderArgs_def pushToken_def)
next
  case (Cons a as)
  then have v: "validArg a" and ih: "tokenize (renderArgs as) = Some (map renderArg as)" by auto
  show ?case
  proof (cases as)
    case Nil
    then show ?thesis
      using tokenize_arg [OF v, of "[]" "[]"] by (simp add: tokenize_def renderArgs_def pushToken_def)
  next
    case (Cons b bs)
    then have "renderArgs (a # as) = renderArg a @ CHR '' '' # renderArgs as"
      by (simp add: renderArgs_def joinWith_Cons)
    then show ?thesis
      using ih tokenize_arg [OF v, of "[]"] by (simp add: tokenize_def pushToken_def)
  qed
qed

lemma cut_key: "list_all keyChar k \<Longrightarrow> cutUnquoted (k @ CHR '':'' # r) (CHR '':'') = Some (k, r)"
  unfolding cutUnquoted_def by (induction k) (auto simp: keyChar_def Let_def)

lemma key_no_quote: "list_all keyChar k \<Longrightarrow> CHR 0x22 \<notin> set k"
  by (induction k) (auto simp: keyChar_def Let_def)

lemma scanArg_renderArg: "validArg a \<Longrightarrow> scanArg (renderArg a) = Inr a"
  using unquote_quoteValue [of "argValue a"]
  by (simp add: scanArg_def renderArg_def validArg_def cut_key key_no_quote) (simp add: quoteValue_def)

lemma scanTokens_render: "list_all validArg as \<Longrightarrow> scanTokens (map renderArg as) = Inr as"
  by (induction as) (auto simp: scanArg_renderArg)

lemma scan_render: "list_all validArg as \<Longrightarrow> scanArgs (renderArgs as) = Inr as"
  by (simp add: scanArgs_def tokenize_renderArgs scanTokens_render)

interpretation args: text_codec "list_all validArg" renderArgs "\<lambda>s. case scanArgs s of Inl e \<Rightarrow> None | Inr as \<Rightarrow> Some as"
  by unfold_locales (simp add: scan_render)

section \<open>Properties\<close>

text \<open>
  C23: directive arguments can carry any one-line text. Arguments written as \<open>key:"value"\<close>,
  separated by spaces, with quotes and backslashes in the values escaped, are read back exactly,
  also when a value holds spaces, colons or quotes; so different arguments are written
  differently.
\<close>

theorem directiveArgs_roundtrip:
  assumes "list_all validArg as"
  shows "scanArgs (renderArgs as) = Inr as \<and> (\<forall>bs. list_all validArg bs \<and> renderArgs bs = renderArgs as \<longrightarrow> bs = as)"
  using assms scan_render args.enc_inject by blast

definition sampleArgs :: "DirectiveArg list" where
  "sampleArgs = [\<lparr>argKey = ''span'', argValue = ''a: \"b\" c''\<rparr>, \<lparr>argKey = ''kind'', argValue = []\<rparr>]"

theorem directiveArgs_roundtrip_witness: "scanArgs (renderArgs sampleArgs) = Inr sampleArgs"
  by (rule directiveArgs_roundtrip [THEN conjunct1]) code_simp

text \<open>
  A file has an ignored call exactly when the nearest statement around some call carries the
  directive directly above it. The visitor never reads an empty stack, whatever the shape of the
  tree.
\<close>

theorem ignoredCall_iff:
  "fileHasIgnoredCall root directive = Some b \<longleftrightarrow>
     b = (\<exists>(c, s) \<in> set (enclosed None (fileTree root)). anyDirective (nodeStart s) directive)"
  by (auto simp: fileHasIgnoredCall_def callEnclosingStmts_enclosed hasLeadingDirective_def list_ex_iff)

text \<open>What the searches over comments find\<close>

lemma inspectFor_iff:
  "inspectFor directive ns \<longleftrightarrow> (\<exists>n \<in> set ns. anyDirective (nodeStart n @ nodeEnd n) directive)"
  by (induction ns) (auto simp: anyDirective_def)

lemma collectUnknown_set:
  "set (collectUnknownDirectives decs known seen) =
     set seen \<union> {name. \<exists>dec \<in> set decs. otelcDirectiveName dec = Some name \<and> name \<notin> known}"
  unfolding collectUnknownDirectives_def by (induction decs arbitrary: seen) (auto split: option.splits)

end
