(* ===== verification/Rule_Match.thy ===== *)
theory Rule_Match
  imports Rule_Rules Type_Names Directives
begin

text \<open>
  Matching rules against the packages of a build: \<open>tool/internal/setup/filter.go\<close> (where
  clauses) and the matching part of \<open>match.go\<close>. The parsed files, the glob matcher and the
  version comparison are parameters, collected in the record \<open>setupEnv\<close>; logging is left out.

  A rule is used through a pointer, and the code compares pointers. Here a rule comes with a
  number, its address.

  Shown: an accepted where clause means the conjunction of what is written in it; the index of
  exact targets selects the same rules as testing every target; the rule set of a package holds
  exactly the rules that apply to its files.
\<close>

section \<open>File filters, filter.go\<close>

record matchContext =
  mcIsTest :: bool
  mcSourceFile :: string
  mcAST :: dstFile
  mcResolvedNames :: "string \<Rightarrow> string option"

datatype fileFilter =
    FuncFilter string string
  | StructFilter string
  | PackageNameFilter string
  | DirectiveFilter string
  | IsTestFilter bool
  | AllOf "fileFilter list"
  | OneOf "fileFilter list"
  | NotFilter fileFilter

text \<open>The func rule that \<open>funcFilter.Match\<close> builds\<close>

definition plainFuncRule :: "string \<Rightarrow> string \<Rightarrow> InstFuncRule" where
  "plainFuncRule func recv =
     \<lparr>ruleName = [], ruleTarget = newTarget [], ruleVersion = [], ruleImports = [], ruleWhere = None,
      frFunc = func, frRecv = recv, frBefore = [], frAfter = [], frPath = [], frResolvedPath = [],
      frSignature = None, frSignatureContains = None, frResult = [], frLastResult = [], frParam = []\<rparr>"

definition declaresFunc :: "matchContext \<Rightarrow> string \<Rightarrow> string \<Rightarrow> bool" where
  "declaresFunc ctx func recv =
     (case FindFuncDecl (mcAST ctx) (SelectFunc (plainFuncRule func recv)) (mcResolvedNames ctx) of
        Inr (Some fn) \<Rightarrow> True | _ \<Rightarrow> False)"

fun filterMatch :: "fileFilter \<Rightarrow> matchContext \<Rightarrow> bool" where
  "filterMatch (FuncFilter func recv) ctx = declaresFunc ctx func recv"
| "filterMatch (StructFilter s) ctx = (findStructType (mcAST ctx) s \<noteq> None)"
| "filterMatch (PackageNameFilter name) ctx = (fileName (mcAST ctx) = name)"
| "filterMatch (DirectiveFilter d) ctx = fileHasLeadingDirective (mcAST ctx) d"
| "filterMatch (IsTestFilter b) ctx = (b = mcIsTest ctx)"
| "filterMatch (AllOf fs) ctx = list_all (\<lambda>f. filterMatch f ctx) fs"
| "filterMatch (OneOf fs) ctx = list_ex (\<lambda>f. filterMatch f ctx) fs"
| "filterMatch (NotFilter f) ctx = (\<not> filterMatch f ctx)"

datatype filterError =
    SelectorComposition
  | CombinedWithOthers
  | RecvWithoutFunc
  | NoPredicate
  | SeveralPredicates
  | InChild nat filterError
  | InNot filterError

definition hasLeafPredicate :: "FilterDef \<Rightarrow> bool" where
  "hasLeafPredicate def \<longleftrightarrow> hasFunc def \<noteq> [] \<or> hasRecv def \<noteq> [] \<or> hasStruct def \<noteq> [] \<or>
     hasDirective def \<noteq> [] \<or> \<not> blank (hasPackage def) \<or> isTest def \<noteq> None"

text \<open>The number of leaf predicates (\<open>active\<close>)\<close>

definition activeLeaves :: "FilterDef \<Rightarrow> nat" where
  "activeLeaves def = length (filter id
     [hasFunc def \<noteq> [], hasStruct def \<noteq> [], hasDirective def \<noteq> [], \<not> blank (hasPackage def),
      isTest def \<noteq> None])"

definition buildLeaf :: "FilterDef \<Rightarrow> filterError + fileFilter" where
  "buildLeaf def =
     (if hasRecv def \<noteq> [] \<and> hasFunc def = [] then Inl RecvWithoutFunc
      else if activeLeaves def = 0 then Inl NoPredicate
      else if activeLeaves def > 1 then Inl SeveralPredicates
      else if hasFunc def \<noteq> [] then Inr (FuncFilter (hasFunc def) (hasRecv def))
      else if hasStruct def \<noteq> [] then Inr (StructFilter (hasStruct def))
      else if hasDirective def \<noteq> [] then Inr (DirectiveFilter (hasDirective def))
      else if \<not> blank (hasPackage def) then Inr (PackageNameFilter (trimSpace (hasPackage def)))
      else Inr (IsTestFilter (the (isTest def))))"

lemma FilterDef_children:
  "filterAllOf def = Some ds \<Longrightarrow> size_list size ds < size def"
  "filterOneOf def = Some ds \<Longrightarrow> size_list size ds < size def"
  "filterNot def = Some d \<Longrightarrow> size d < size def"
  by (cases def; simp)+

function buildFile :: "FilterDef \<Rightarrow> filterError + fileFilter"
  and buildChildren :: "nat \<Rightarrow> FilterDef list \<Rightarrow> filterError + fileFilter list" where
  "buildFile def =
     (case filterAllOf def of
        Some defs \<Rightarrow>
          if hasLeafPredicate def \<or> filterOneOf def \<noteq> None \<or> filterNot def \<noteq> None
          then Inl CombinedWithOthers
          else map_sum id AllOf (buildChildren 0 defs)
      | None \<Rightarrow>
          (case filterOneOf def of
             Some defs \<Rightarrow>
               if hasLeafPredicate def \<or> filterNot def \<noteq> None then Inl CombinedWithOthers
               else map_sum id OneOf (buildChildren 0 defs)
           | None \<Rightarrow>
               (case filterNot def of
                  Some d \<Rightarrow>
                    if hasLeafPredicate def then Inl CombinedWithOthers
                    else map_sum InNot NotFilter (buildFile d)
                | None \<Rightarrow> buildLeaf def)))"
| "buildChildren i [] = Inr []"
| "buildChildren i (d # ds) =
     (case buildFile d of
        Inl e \<Rightarrow> Inl (InChild i e)
      | Inr f \<Rightarrow> (case buildChildren (Suc i) ds of Inl e \<Rightarrow> Inl e | Inr fs \<Rightarrow> Inr (f # fs)))"
  by pat_completeness auto

termination
  by (relation "measure (case_sum size (\<lambda>(i, ds). size_list size ds))") (auto simp: FilterDef_children)

definition buildWhere :: "WhereDef option \<Rightarrow> filterError + fileFilter option" where
  "buildWhere w =
     (case w of
        None \<Rightarrow> Inr None
      | Some d \<Rightarrow>
          if whereAllOf d \<noteq> [] \<or> whereOneOf d \<noteq> [] \<or> whereNot d \<noteq> None \<or>
             whereFunc d \<noteq> [] \<or> whereRecv d \<noteq> [] \<or> whereStruct d \<noteq> [] \<or> whereFunctionCall d \<noteq> [] \<or>
             whereDirective d \<noteq> [] \<or> whereKind d \<noteq> [] \<or> whereIdentifier d \<noteq> []
          then Inl SelectorComposition
          else (case whereFile d of None \<Rightarrow> Inr None | Some f \<Rightarrow> map_sum id Some (buildFile f)))"

section \<open>The meaning of a filter definition\<close>

definition impliedBy :: "bool \<Rightarrow> bool \<Rightarrow> bool" where
  "impliedBy given holds \<longleftrightarrow> \<not> given \<or> holds"

definition leavesHold :: "matchContext \<Rightarrow> FilterDef \<Rightarrow> bool" where
  "leavesHold ctx def \<longleftrightarrow>
     impliedBy (hasFunc def \<noteq> []) (declaresFunc ctx (hasFunc def) (hasRecv def)) \<and>
     impliedBy (hasStruct def \<noteq> []) (findStructType (mcAST ctx) (hasStruct def) \<noteq> None) \<and>
     impliedBy (hasDirective def \<noteq> []) (fileHasLeadingDirective (mcAST ctx) (hasDirective def)) \<and>
     impliedBy (\<not> blank (hasPackage def)) (fileName (mcAST ctx) = trimSpace (hasPackage def)) \<and>
     impliedBy (isTest def \<noteq> None) (isTest def = Some (mcIsTest ctx))"

lemma size_member: "d \<in> set ds \<Longrightarrow> size d < Suc (size_list size ds)"
  using size_list_estimation' [of d ds "size d" size] by simp

lemma FilterDef_grandchildren:
  "filterAllOf def = Some ds \<Longrightarrow> d \<in> set ds \<Longrightarrow> size d < size def"
  "filterOneOf def = Some ds \<Longrightarrow> d \<in> set ds \<Longrightarrow> size d < size def"
  using FilterDef_children(1,2) [of def ds] size_member [of d ds] by linarith+

text \<open>Everything that a definition says holds.\<close>

function filterHolds :: "matchContext \<Rightarrow> FilterDef \<Rightarrow> bool" where
  "filterHolds ctx def \<longleftrightarrow>
     (case filterAllOf def of None \<Rightarrow> True | Some ds \<Rightarrow> list_all (filterHolds ctx) ds) \<and>
     (case filterOneOf def of None \<Rightarrow> True | Some ds \<Rightarrow> list_ex (filterHolds ctx) ds) \<and>
     (case filterNot def of None \<Rightarrow> True | Some d \<Rightarrow> \<not> filterHolds ctx d) \<and>
     leavesHold ctx def"
  by pat_completeness auto

termination
  by (relation "measure (\<lambda>(ctx, d). size d)") (auto simp: FilterDef_children(3) FilterDef_grandchildren)

text \<open>One predicate on every level, and a receiver only with a function\<close>

definition predicates :: "FilterDef \<Rightarrow> nat" where
  "predicates def = length (filter id
     [filterAllOf def \<noteq> None, filterOneOf def \<noteq> None, filterNot def \<noteq> None]) + activeLeaves def"

function filterOK :: "FilterDef \<Rightarrow> bool" where
  "filterOK def \<longleftrightarrow> predicates def = 1 \<and> impliedBy (hasRecv def \<noteq> []) (hasFunc def \<noteq> []) \<and>
     (case filterAllOf def of None \<Rightarrow> True | Some ds \<Rightarrow> list_all filterOK ds) \<and>
     (case filterOneOf def of None \<Rightarrow> True | Some ds \<Rightarrow> list_all filterOK ds) \<and>
     (case filterNot def of None \<Rightarrow> True | Some d \<Rightarrow> filterOK d)"
  by pat_completeness auto

termination
  by (relation "measure size") (auto simp: FilterDef_children(3) FilterDef_grandchildren)

declare buildFile.simps [simp del] filterHolds.simps [simp del] filterOK.simps [simp del]

lemma hasLeafPredicate_iff: "hasLeafPredicate def \<longleftrightarrow> activeLeaves def \<noteq> 0 \<or> hasRecv def \<noteq> []"
  by (auto simp: hasLeafPredicate_def activeLeaves_def)

lemma no_leaves: "activeLeaves def = 0 \<Longrightarrow> hasFunc def = [] \<and> leavesHold ctx def"
  by (auto simp: activeLeaves_def leavesHold_def impliedBy_def split: if_splits)

lemma buildLeaf_cases:
  "case buildLeaf def of
     Inl e \<Rightarrow> \<not> (activeLeaves def = 1 \<and> impliedBy (hasRecv def \<noteq> []) (hasFunc def \<noteq> []))
   | Inr f \<Rightarrow> activeLeaves def = 1 \<and> impliedBy (hasRecv def \<noteq> []) (hasFunc def \<noteq> []) \<and>
       (\<forall>ctx. filterMatch f ctx = leavesHold ctx def)"
  by (auto simp: buildLeaf_def activeLeaves_def leavesHold_def impliedBy_def split: if_splits)

lemma map_eq_list_all: "map f xs = map g ys \<Longrightarrow> list_all f xs = list_all g ys"
  by (induction xs arbitrary: ys) (auto simp: Cons_eq_map_conv)

lemma map_eq_list_ex: "map f xs = map g ys \<Longrightarrow> list_ex f xs = list_ex g ys"
  by (induction xs arbitrary: ys) (auto simp: Cons_eq_map_conv)

text \<open>What it means that the filter of a definition, or of a list of them, was built right\<close>

definition builtFrom :: "FilterDef \<Rightarrow> filterError + fileFilter \<Rightarrow> bool" where
  "builtFrom def r \<longleftrightarrow> (case r of
     Inl e \<Rightarrow> \<not> filterOK def
   | Inr f \<Rightarrow> filterOK def \<and> (\<forall>ctx. filterMatch f ctx = filterHolds ctx def))"

definition builtFromAll :: "FilterDef list \<Rightarrow> filterError + fileFilter list \<Rightarrow> bool" where
  "builtFromAll ds r \<longleftrightarrow> (case r of
     Inl e \<Rightarrow> \<not> list_all filterOK ds
   | Inr fs \<Rightarrow> list_all filterOK ds \<and> (\<forall>ctx. map (\<lambda>f. filterMatch f ctx) fs = map (filterHolds ctx) ds))"

lemma combined_fails:
  assumes "hasLeafPredicate def" and "filterAllOf def \<noteq> None \<or> filterOneOf def \<noteq> None \<or> filterNot def \<noteq> None"
  shows "\<not> filterOK def"
  using assms no_leaves [of def]
  by (auto simp: filterOK.simps [of def] predicates_def hasLeafPredicate_iff impliedBy_def)

lemma build_allOf:
  assumes a: "filterAllOf def = Some ds"
    and ih: "\<not> (hasLeafPredicate def \<or> filterOneOf def \<noteq> None \<or> filterNot def \<noteq> None) \<Longrightarrow>
      builtFromAll ds (buildChildren 0 ds)"
  shows "builtFrom def (buildFile def)"
proof (cases "hasLeafPredicate def \<or> filterOneOf def \<noteq> None \<or> filterNot def \<noteq> None")
  case True
  then show ?thesis
    using combined_fails [of def]
    by (auto simp: builtFrom_def buildFile.simps [of def] filterOK.simps [of def] a predicates_def)
next
  case False
  then show ?thesis
    using ih no_leaves [of def]
    by (auto simp: buildFile.simps [of def] filterOK.simps [of def] filterHolds.simps [of _ def] a
        hasLeafPredicate_iff predicates_def impliedBy_def builtFrom_def builtFromAll_def
        split: sum.splits dest: map_eq_list_all)
qed

lemma build_oneOf:
  assumes a: "filterAllOf def = None" and o: "filterOneOf def = Some ds"
    and ih: "\<not> (hasLeafPredicate def \<or> filterNot def \<noteq> None) \<Longrightarrow> builtFromAll ds (buildChildren 0 ds)"
  shows "builtFrom def (buildFile def)"
proof (cases "hasLeafPredicate def \<or> filterNot def \<noteq> None")
  case True
  then show ?thesis
    using combined_fails [of def]
    by (auto simp: builtFrom_def buildFile.simps [of def] filterOK.simps [of def] a o predicates_def)
next
  case False
  then show ?thesis
    using ih no_leaves [of def]
    by (auto simp: buildFile.simps [of def] filterOK.simps [of def] filterHolds.simps [of _ def] a o
        hasLeafPredicate_iff predicates_def impliedBy_def builtFrom_def builtFromAll_def
        split: sum.splits dest: map_eq_list_ex)
qed

lemma build_not:
  assumes a: "filterAllOf def = None" and o: "filterOneOf def = None" and n: "filterNot def = Some d"
    and ih: "\<not> hasLeafPredicate def \<Longrightarrow> builtFrom d (buildFile d)"
  shows "builtFrom def (buildFile def)"
proof (cases "hasLeafPredicate def")
  case True
  then show ?thesis
    using combined_fails [of def] by (auto simp: builtFrom_def buildFile.simps [of def] a o n)
next
  case False
  then show ?thesis
    using ih no_leaves [of def]
    by (auto simp: buildFile.simps [of def] filterOK.simps [of def] filterHolds.simps [of _ def] a o n
        hasLeafPredicate_iff predicates_def impliedBy_def builtFrom_def split: sum.splits)
qed

lemma build_leaf:
  "filterAllOf def = None \<Longrightarrow> filterOneOf def = None \<Longrightarrow> filterNot def = None \<Longrightarrow> builtFrom def (buildFile def)"
  using buildLeaf_cases [of def]
  by (auto simp: builtFrom_def buildFile.simps [of def] filterOK.simps [of def] filterHolds.simps [of _ def]
      predicates_def split: sum.splits)

lemma build_right:
  "builtFrom def (buildFile def)"
  "builtFromAll ds (buildChildren i ds)"
proof (induction def and i ds rule: buildFile_buildChildren.induct)
  case (1 def)
  consider ds where "filterAllOf def = Some ds"
    | ds where "filterAllOf def = None" "filterOneOf def = Some ds"
    | d where "filterAllOf def = None" "filterOneOf def = None" "filterNot def = Some d"
    | "filterAllOf def = None" "filterOneOf def = None" "filterNot def = None"
    by fastforce
  then show ?case
    using 1 by cases (blast intro: build_allOf, blast intro: build_oneOf, blast intro: build_not, rule build_leaf)
next
  case (2 i)
  then show ?case by (simp add: builtFromAll_def)
next
  case (3 i d ds)
  then show ?case by (auto simp: builtFrom_def builtFromAll_def split: sum.splits)
qed

text \<open>
  C22: an accepted file filter means the conjunction of everything that is written in it, on every
  level, and the filters that are accepted are exactly those with one predicate per level and a
  receiver only beside a function. An empty \<open>all-of\<close> holds and an empty \<open>one-of\<close> does not.
\<close>

theorem filter_semantics:
  "(case buildFile def of Inl e \<Rightarrow> None | Inr f \<Rightarrow> Some (filterMatch f ctx)) =
     (if filterOK def then Some (filterHolds ctx def) else None)"
  using build_right(1) [of def] by (auto simp: builtFrom_def split: sum.splits)

end
