(* ===== verification/Match_Deps.thy ===== *)
theory Match_Deps
  imports Rule_Match
begin

text \<open>
  Matching the loaded rules against the packages of a build, \<open>tool/internal/setup/match.go\<close>
  (\<open>runMatch\<close>, \<open>preciseMatching\<close>, \<open>matchDeps\<close>). Reading and parsing files, the glob matcher and
  the version comparison are parameters, collected in \<open>setupEnv\<close>. A rule is used through a
  pointer and the code compares pointers; here a rule comes with a number, its address. Logging
  and the cancellation of the context are left out.

  Shown: the index of exact targets selects the same rules as testing every target, and the
  rule set of a package holds exactly the rules that apply to its files.
\<close>

section \<open>The environment\<close>

record Dependency =
  depImportPath :: string
  depVersion :: string
  depSources :: "string list"
  depCgoFiles :: "(string \<times> string) list"

record setupEnv =
  seRead :: "string \<Rightarrow> string option"
  seParse :: "string \<Rightarrow> dstFile option"
  sePackage :: "string \<Rightarrow> string option"
  seGlob :: "string \<Rightarrow> string \<Rightarrow> bool option"
  seCompare :: "string \<Rightarrow> string \<Rightarrow> int"
  seResolved :: "string \<Rightarrow> string option"

type_synonym ruleRef = "nat \<times> InstRule"

datatype matchError =
    ReadFailed string
  | ParseFailed string
  | BadWhere string filterError
  | BadTypeName string
  | NoRootModule string
  | RootsFailed
  | AssertionFailed

text \<open>An assertion of the code that fails ends the run.\<close>

definition orAssert :: "'a option \<Rightarrow> matchError + 'a" where
  "orAssert x = (case x of None \<Rightarrow> Inl AssertionFailed | Some y \<Rightarrow> Inr y)"

text \<open>A loop that threads a state through a list and stops at the first error\<close>

fun foldOK :: "('x \<Rightarrow> 's \<Rightarrow> 'e + 's) \<Rightarrow> 'x list \<Rightarrow> 's \<Rightarrow> 'e + 's" where
  "foldOK f [] s = Inr s"
| "foldOK f (x # xs) s = (case f x s of Inl e \<Rightarrow> Inl e | Inr s' \<Rightarrow> foldOK f xs s')"

section \<open>Selecting the rules of a package\<close>

definition matchVersion :: "setupEnv \<Rightarrow> Dependency \<Rightarrow> InstRule \<Rightarrow> bool" where
  "matchVersion E dep r = versionInRange (seCompare E) (depVersion dep) (getVersion r)"

text \<open>
  The loop of \<open>matchGlobRules\<close>: the combined list, built at the first match, and the addresses
  seen.
\<close>

definition globStep ::
    "setupEnv \<Rightarrow> string list \<Rightarrow> Dependency \<Rightarrow> ruleRef list \<Rightarrow> ruleRef \<Rightarrow>
     ruleRef list option \<times> nat set \<Rightarrow> ruleRef list option \<times> nat set" where
  "globStep E roots dep relevant gr state =
     (if \<not> targetMatches (seGlob E) (getTarget (snd gr)) (depImportPath dep) roots then state
      else
        let (matched, seen) = (case state of
              (None, _) \<Rightarrow> (relevant, set (map fst relevant))
            | (Some m, seen) \<Rightarrow> (m, seen))
        in if fst gr \<in> seen then (Some matched, seen)
           else (Some (matched @ [gr]), insert (fst gr) seen))"

definition matchGlobRules ::
    "setupEnv \<Rightarrow> string list \<Rightarrow> Dependency \<Rightarrow> ruleRef list \<Rightarrow> ruleRef list \<Rightarrow> ruleRef list" where
  "matchGlobRules E roots dep relevant globRules =
     (case fold (globStep E roots dep relevant) globRules (None, {}) of
        (None, _) \<Rightarrow> relevant
      | (Some matched, _) \<Rightarrow> matched)"

definition relevantRules ::
    "setupEnv \<Rightarrow> string list \<Rightarrow> Dependency \<Rightarrow> ruleRef rulesMap \<Rightarrow> ruleRef list \<Rightarrow> ruleRef list" where
  "relevantRules E roots dep exactRules globRules =
     (let relevant = rulesAt exactRules (depImportPath dep)
      in if globRules \<noteq> [] then matchGlobRules E roots dep relevant globRules else relevant)"

text \<open>
  The two tiers, in the first loop of \<open>matchDeps\<close>. The root modules are looked up when a rule
  first needs them (\<open>loadRoots\<close>; \<open>None\<close> when no packages were given).
\<close>

record tiers =
  exactTier :: "ruleRef rulesMap"
  globTier :: "ruleRef list"
  tierRoots :: "string list"

definition splitRule ::
    "(matchError + string list) option \<Rightarrow> ruleRef \<Rightarrow> tiers \<Rightarrow> matchError + tiers" where
  "splitRule loadRoots r t =
     (let target = getTarget (snd r)
      in case exactTarget target of
           Some path \<Rightarrow> Inr (t\<lparr>exactTier := appendRule path r (exactTier t)\<rparr>)
         | None \<Rightarrow>
             if usesRoot target then
               (let loaded = (if tierRoots t = []
                              then (case loadRoots of None \<Rightarrow> Inr [] | Some res \<Rightarrow> res)
                              else Inr (tierRoots t))
                in case loaded of
                     Inl e \<Rightarrow> Inl e
                   | Inr roots \<Rightarrow>
                       if roots = [] then Inl (NoRootModule (getName (snd r)))
                       else Inr (t\<lparr>globTier := globTier t @ [r], tierRoots := roots\<rparr>))
             else Inr (t\<lparr>globTier := globTier t @ [r]\<rparr>))"

definition splitRules ::
    "(matchError + string list) option \<Rightarrow> ruleRef list \<Rightarrow> tiers \<Rightarrow> matchError + tiers" where
  "splitRules loadRoots rs t = foldOK (splitRule loadRoots) rs t"

section \<open>Matching a package\<close>

definition markIgnoredCallFile :: "setupEnv \<Rightarrow> string \<Rightarrow> InstRuleSet \<Rightarrow> matchError + InstRuleSet" where
  "markIgnoredCallFile E source irs =
     (case fileContainsDirectiveText (seRead E) source ''otelc:ignore'' of
        None \<Rightarrow> Inl (ReadFailed source)
      | Some maybe \<Rightarrow>
          if \<not> maybe then Inr irs
          else case seParse E source of
                 None \<Rightarrow> Inl (ParseFailed source)
               | Some tree \<Rightarrow>
                   (case fileHasIgnoredCall tree ''otelc:ignore'' of
                      None \<Rightarrow> Inl AssertionFailed
                    | Some b \<Rightarrow> if b then orAssert (addIgnoredCallFile source irs) else Inr irs))"

definition markIgnoredCallFiles :: "setupEnv \<Rightarrow> Dependency \<Rightarrow> InstRuleSet \<Rightarrow> matchError + InstRuleSet" where
  "markIgnoredCallFiles E dep irs = foldOK (markIgnoredCallFile E) (depSources dep) irs"

definition isTestBuild :: "string list \<Rightarrow> bool" where
  "isTestBuild sources = list_ex (\<lambda>src. let b = pathBase src
     in b = ''_testmain.go'' \<or> hasSuffix b ''_test.go'') sources"

text \<open>\<open>matchOneRule\<close>; \<open>Inl\<close> of the search is a type name that cannot be parsed.\<close>

definition found :: "string + funcDecl option \<Rightarrow> matchError + bool" where
  "found res = (case res of Inl t \<Rightarrow> Inl (BadTypeName t) | Inr d \<Rightarrow> Inr (d \<noteq> None))"

fun selects :: "setupEnv \<Rightarrow> dstFile \<Rightarrow> InstRule \<Rightarrow> matchError + bool" where
  "selects E tree (FuncRule r) = found (FindFuncDecl tree (SelectFunc r) (seResolved E))"
| "selects E tree (StructRule r) = Inr (findStructType tree (srStruct r) \<noteq> None)"
| "selects E tree (RawRule r) = found (FindFuncDecl tree (SelectRaw r) (seResolved E))"
| "selects E tree (CallRule r) = Inr True"
| "selects E tree (LitRule r) = Inr True"
| "selects E tree (DirectiveRule r) = Inr (fileHasDirective tree (dirDirective r))"
| "selects E tree (DeclRule r) = Inr (findNamedDecl tree (drIdentifier r) (drKind r) \<noteq> None)"
| "selects E tree (FileRule r) = Inr False"

fun addToSet :: "string \<Rightarrow> InstRule \<Rightarrow> InstRuleSet \<Rightarrow> InstRuleSet option" where
  "addToSet source (FuncRule r) irs = addFuncRule source r irs"
| "addToSet source (StructRule r) irs = addStructRule source r irs"
| "addToSet source (RawRule r) irs = addRawRule source r irs"
| "addToSet source (CallRule r) irs = addCallRule source r irs"
| "addToSet source (LitRule r) irs = addLitRule source r irs"
| "addToSet source (DirectiveRule r) irs = addDirectiveRule source r irs"
| "addToSet source (DeclRule r) irs = addDeclRule source r irs"
| "addToSet source (FileRule r) irs = Some irs"

definition matchOneRule ::
    "setupEnv \<Rightarrow> dstFile \<Rightarrow> string \<Rightarrow> InstRule \<Rightarrow> InstRuleSet \<Rightarrow> matchError + InstRuleSet" where
  "matchOneRule E tree source r irs =
     (case selects E tree r of
        Inl e \<Rightarrow> Inl e
      | Inr ok \<Rightarrow> if ok then orAssert (addToSet source r irs) else Inr irs)"

text \<open>A rule with its compiled filter; the rule applies to every file without one.\<close>

type_synonym ruleFilter = "InstRule \<times> fileFilter option"

fun buildFilters :: "InstRule list \<Rightarrow> matchError + ruleFilter list" where
  "buildFilters [] = Inr []"
| "buildFilters (r # rs) =
     (case buildWhere (getWhere r) of
        Inl e \<Rightarrow> Inl (BadWhere (getName r) e)
      | Inr f \<Rightarrow> (case buildFilters rs of Inl e \<Rightarrow> Inl e | Inr rfs \<Rightarrow> Inr ((r, f) # rfs)))"

definition passes :: "fileFilter option \<Rightarrow> matchContext \<Rightarrow> bool" where
  "passes f ctx = (case f of None \<Rightarrow> True | Some g \<Rightarrow> filterMatch g ctx)"

definition fileContext :: "setupEnv \<Rightarrow> Dependency \<Rightarrow> string \<Rightarrow> dstFile \<Rightarrow> matchContext" where
  "fileContext E dep source tree =
     \<lparr>mcIsTest = isTestBuild (depSources dep), mcSourceFile = source, mcAST = tree, mcResolvedNames = seResolved E\<rparr>"

definition matchInFile ::
    "setupEnv \<Rightarrow> dstFile \<Rightarrow> string \<Rightarrow> matchContext \<Rightarrow> ruleFilter \<Rightarrow> InstRuleSet \<Rightarrow> matchError + InstRuleSet" where
  "matchInFile E tree source ctx rf irs =
     (if \<not> passes (snd rf) ctx then Inr irs else matchOneRule E tree source (fst rf) irs)"

definition matchSource ::
    "setupEnv \<Rightarrow> Dependency \<Rightarrow> ruleFilter list \<Rightarrow> string \<Rightarrow> InstRuleSet \<Rightarrow> matchError + InstRuleSet" where
  "matchSource E dep rfs source irs =
     (case seParse E source of
        None \<Rightarrow> Inl (ParseFailed source)
      | Some tree \<Rightarrow>
          (case orAssert (setPackageName (fileName tree) irs) of
             Inl e \<Rightarrow> Inl e
           | Inr irs' \<Rightarrow> foldOK (matchInFile E tree source (fileContext E dep source tree)) rfs irs'))"

definition preciseMatching ::
    "setupEnv \<Rightarrow> Dependency \<Rightarrow> InstRule list \<Rightarrow> InstRuleSet \<Rightarrow> matchError + InstRuleSet" where
  "preciseMatching E dep rules irs =
     (if depSources dep = [] then Inr irs
      else case buildFilters rules of
             Inl e \<Rightarrow> Inl e
           | Inr rfs \<Rightarrow> foldOK (matchSource E dep rfs) (depSources dep) irs)"

definition isFileRule :: "InstRule \<Rightarrow> bool" where
  "isFileRule r = (case r of FileRule fr \<Rightarrow> True | _ \<Rightarrow> False)"

definition addFileRules :: "InstRule list \<Rightarrow> InstRuleSet \<Rightarrow> InstRuleSet" where
  "addFileRules rs irs = foldl (\<lambda>s r. case r of FileRule fr \<Rightarrow> addFileRule fr s | _ \<Rightarrow> s) irs rs"

definition runMatch ::
    "setupEnv \<Rightarrow> string list \<Rightarrow> Dependency \<Rightarrow> ruleRef rulesMap \<Rightarrow> ruleRef list \<Rightarrow> matchError + InstRuleSet" where
  "runMatch E roots dep exactRules globRules =
     (let irs0 = newInstRuleSet (depImportPath dep);
          irs1 = (if depCgoFiles dep \<noteq> [] then setCgoFileMap (depCgoFiles dep) irs0 else irs0)
      in case markIgnoredCallFiles E dep irs1 of
           Inl e \<Rightarrow> Inl e
         | Inr irs2 \<Rightarrow>
             let relevant = map snd (relevantRules E roots dep exactRules globRules)
             in if relevant = [] then Inr irs2
                else
                  let filtered = filter (matchVersion E dep) relevant;
                      irs3 = addFileRules filtered irs2;
                      precise = filter (\<lambda>r. \<not> isFileRule r) filtered
                  in if precise = [] then
                       (if \<not> ruleSetIsEmpty (Some irs3) \<and> depSources dep \<noteq> [] then
                          (case sePackage E (hd (depSources dep)) of
                             None \<Rightarrow> Inl (ParseFailed (hd (depSources dep)))
                           | Some name \<Rightarrow> orAssert (setPackageName name irs3))
                        else Inr irs3)
                     else preciseMatching E dep precise irs3)"

text \<open>
  \<open>matchDeps\<close> after the rules are loaded. The packages are matched by goroutines that finish in
  any order; \<open>deps\<close> is given in that order, and the first error ends the run.
\<close>

fun matchAll ::
    "setupEnv \<Rightarrow> tiers \<Rightarrow> Dependency list \<Rightarrow> matchError + InstRuleSet list" where
  "matchAll E t [] = Inr []"
| "matchAll E t (dep # deps) =
     (case runMatch E (tierRoots t) dep (exactTier t) (globTier t) of
        Inl e \<Rightarrow> Inl e
      | Inr m \<Rightarrow>
          (case matchAll E t deps of
             Inl e \<Rightarrow> Inl e
           | Inr ms \<Rightarrow> Inr (if ruleSetIsEmpty (Some m) then ms else m # ms)))"

definition matchDeps ::
    "setupEnv \<Rightarrow> string list \<Rightarrow> (matchError + string list) option \<Rightarrow> ruleRef list \<Rightarrow> Dependency list \<Rightarrow>
     matchError + InstRuleSet list" where
  "matchDeps E roots loadRoots allRules deps =
     (if allRules = [] then Inr []
      else case splitRules loadRoots allRules \<lparr>exactTier = [], globTier = [], tierRoots = roots\<rparr> of
             Inl e \<Rightarrow> Inl e
           | Inr t \<Rightarrow> matchAll E t deps)"

section \<open>The rules of a package\<close>

lemma foldOK_append:
  "foldOK f (xs @ ys) s = (case foldOK f xs s of Inl e \<Rightarrow> Inl e | Inr s' \<Rightarrow> foldOK f ys s')"
  by (induction xs arbitrary: s) (auto split: sum.splits)

text \<open>What a rule of the index and of the list is selected by\<close>

abbreviation exactOf :: "ruleRef \<Rightarrow> string option" where
  "exactOf r \<equiv> exactTarget (getTarget (snd r))"

lemma splitRule_tiers:
  assumes "splitRule loadRoots r t = Inr t'"
  shows "rulesAt (exactTier t') p = rulesAt (exactTier t) p @ (if exactOf r = Some p then [r] else [])"
    and "globTier t' = globTier t @ (if exactOf r = None then [r] else [])"
  using assms by (auto simp: splitRule_def Let_def split: option.splits if_splits sum.splits)

lemma splitRules_tiers:
  assumes "splitRules loadRoots rs t = Inr t'"
  shows "rulesAt (exactTier t') p = rulesAt (exactTier t) p @ filter (\<lambda>r. exactOf r = Some p) rs \<and>
    globTier t' = globTier t @ filter (\<lambda>r. exactOf r = None) rs"
  using assms unfolding splitRules_def
proof (induction rs arbitrary: t)
  case Nil
  then show ?case by simp
next
  case (Cons r rs)
  then obtain t1 where t1: "splitRule loadRoots r t = Inr t1" and "foldOK (splitRule loadRoots) rs t1 = Inr t'"
    by (auto split: sum.splits)
  with Cons.IH show ?case by (simp add: splitRule_tiers [OF t1])
qed

abbreviation selectedBy :: "setupEnv \<Rightarrow> string list \<Rightarrow> Dependency \<Rightarrow> ruleRef \<Rightarrow> bool" where
  "selectedBy E roots dep r \<equiv> targetMatches (seGlob E) (getTarget (snd r)) (depImportPath dep) roots"

text \<open>The lazily built list is the list that is extended at every match.\<close>

lemma fold_globStep:
  assumes "distinct (map fst (m @ gs))" "m0 = None \<and> seen0 = {} \<and> m = relevant \<or> m0 = Some m \<and> seen0 = set (map fst m)"
  shows "\<exists>seen. fold (globStep E roots dep relevant) gs (m0, seen0) =
    (if m0 = None \<and> filter (selectedBy E roots dep) gs = [] then None
     else Some (m @ filter (selectedBy E roots dep) gs), seen)"
  using assms
proof (induction gs arbitrary: m m0 seen0)
  case Nil
  then show ?case by auto
next
  case (Cons g gs)
  show ?case
  proof (cases "selectedBy E roots dep g")
    case False
    then show ?thesis using Cons.IH [of m m0 seen0] Cons.prems by (auto simp: globStep_def)
  next
    case True
    then have "globStep E roots dep relevant g (m0, seen0) = (Some (m @ [g]), set (map fst (m @ [g])))"
      using Cons.prems by (auto simp: globStep_def)
    then show ?thesis
      using True Cons.IH [of "m @ [g]" "Some (m @ [g])" "set (map fst (m @ [g]))"] Cons.prems(1) by simp
  qed
qed

lemma matchGlobRules_append:
  assumes "distinct (map fst (relevant @ globRules))"
  shows "matchGlobRules E roots dep relevant globRules = relevant @ filter (selectedBy E roots dep) globRules"
proof -
  obtain seen where "fold (globStep E roots dep relevant) globRules (None, {}) =
      (if filter (selectedBy E roots dep) globRules = [] then None
       else Some (relevant @ filter (selectedBy E roots dep) globRules), seen)"
    using fold_globStep [OF assms, where ?m0.0 = None and ?seen0.0 = "{}" and relevant = relevant and E = E
        and roots = roots and dep = dep] by auto
  then show ?thesis by (simp add: matchGlobRules_def)
qed

lemma relevantRules_tiers:
  assumes "splitRules loadRoots rs \<lparr>exactTier = [], globTier = [], tierRoots = roots0\<rparr> = Inr t"
    and "distinct (map fst rs)"
  shows "relevantRules E roots dep (exactTier t) (globTier t) =
    filter (\<lambda>r. exactOf r = Some (depImportPath dep)) rs @
    filter (\<lambda>r. exactOf r = None \<and> selectedBy E roots dep r) rs"
proof -
  have tiers: "rulesAt (exactTier t) (depImportPath dep) = filter (\<lambda>r. exactOf r = Some (depImportPath dep)) rs"
    "globTier t = filter (\<lambda>r. exactOf r = None) rs"
    using splitRules_tiers [OF assms(1), of "depImportPath dep"] by simp_all
  have "distinct (map fst (filter (\<lambda>r. exactOf r = Some p) rs @ filter (\<lambda>r. exactOf r = None) rs))" for p
    using assms(2) by (induction rs) auto
  then show ?thesis
    unfolding relevantRules_def tiers Let_def by (subst matchGlobRules_append) (auto simp: conj_commute filter_empty_conv)
qed

lemma relevant_iff:
  assumes "splitRules loadRoots rs \<lparr>exactTier = [], globTier = [], tierRoots = roots0\<rparr> = Inr t"
    and "distinct (map fst rs)"
  shows "r \<in> set (relevantRules E roots dep (exactTier t) (globTier t)) \<longleftrightarrow>
    r \<in> set rs \<and> selectedBy E roots dep r"
proof -
  have "selectedBy E roots dep r \<longleftrightarrow> exactOf r = Some (depImportPath dep) \<or> exactOf r = None \<and> selectedBy E roots dep r"
    by (cases "exactOf r") (auto simp: exactTarget_selects)
  then show ?thesis
    unfolding relevantRules_tiers [OF assms] by auto
qed

section \<open>The contents of a rule set\<close>

fun holdsRule :: "InstRuleSet \<Rightarrow> string \<Rightarrow> InstRule \<Rightarrow> bool" where
  "holdsRule s f (FuncRule r) \<longleftrightarrow> r \<in> set (rulesAt (rsFuncRules s) f)"
| "holdsRule s f (StructRule r) \<longleftrightarrow> r \<in> set (rulesAt (rsStructRules s) f)"
| "holdsRule s f (RawRule r) \<longleftrightarrow> r \<in> set (rulesAt (rsRawRules s) f)"
| "holdsRule s f (CallRule r) \<longleftrightarrow> r \<in> set (rulesAt (rsCallRules s) f)"
| "holdsRule s f (LitRule r) \<longleftrightarrow> r \<in> set (rulesAt (rsLitRules s) f)"
| "holdsRule s f (DirectiveRule r) \<longleftrightarrow> r \<in> set (rulesAt (rsDirectiveRules s) f)"
| "holdsRule s f (DeclRule r) \<longleftrightarrow> r \<in> set (rulesAt (rsDeclRules s) f)"
| "holdsRule s f (FileRule r) \<longleftrightarrow> r \<in> set (rsFileRules s)"

text \<open>When a rule applies to a file of a package\<close>

definition applies :: "setupEnv \<Rightarrow> Dependency \<Rightarrow> string \<Rightarrow> InstRule \<Rightarrow> bool" where
  "applies E dep f r \<longleftrightarrow> f \<in> set (depSources dep) \<and>
     (case (seParse E f, buildWhere (getWhere r)) of
        (Some tree, Inr flt) \<Rightarrow> passes flt (fileContext E dep f tree) \<and> selects E tree r = Inr True
      | _ \<Rightarrow> False)"

lemmas add_defs = addFuncRule_def addStructRule_def addRawRule_def addCallRule_def addLitRule_def
  addDirectiveRule_def addDeclRule_def addRule_def

lemma orAssert_Inr [simp]: "orAssert x = Inr y \<longleftrightarrow> x = Some y"
  by (cases x) (simp_all add: orAssert_def)

lemma addToSet_holds:
  assumes "addToSet src r s = Some s'" and "\<not> isFileRule r"
  shows "holdsRule s' f q \<longleftrightarrow> holdsRule s f q \<or> (f = src \<and> q = r)"
  using assms by (cases r; cases q) (auto simp: add_defs isFileRule_def split: if_splits)

lemma selects_not_file: "selects E tree r = Inr True \<Longrightarrow> \<not> isFileRule r"
  by (cases r) (simp_all add: isFileRule_def)

lemma matchOneRule_holds:
  assumes "matchOneRule E tree src r s = Inr s'"
  shows "holdsRule s' f q \<longleftrightarrow> holdsRule s f q \<or> (f = src \<and> q = r \<and> selects E tree r = Inr True)"
proof (cases "selects E tree r = Inr True")
  case True
  then have "addToSet src r s = Some s'" using assms by (simp add: matchOneRule_def)
  from addToSet_holds [OF this selects_not_file [OF True]] True show ?thesis by simp
next
  case False
  then have "s' = s" using assms by (auto simp: matchOneRule_def split: sum.splits if_splits)
  with False show ?thesis by blast
qed

lemma matchInFile_holds:
  assumes "foldOK (matchInFile E tree src ctx) rfs s = Inr s'"
  shows "holdsRule s' f q \<longleftrightarrow> holdsRule s f q \<or>
    (f = src \<and> (\<exists>flt. (q, flt) \<in> set rfs \<and> passes flt ctx) \<and> selects E tree q = Inr True)"
  using assms
proof (induction rfs arbitrary: s)
  case Nil
  then show ?case by simp
next
  case (Cons rf rfs)
  then obtain s1 where s1: "matchInFile E tree src ctx rf s = Inr s1"
    and rest: "foldOK (matchInFile E tree src ctx) rfs s1 = Inr s'"
    by (auto split: sum.splits)
  have step: "holdsRule s1 f q \<longleftrightarrow> holdsRule s f q \<or>
      (f = src \<and> q = fst rf \<and> passes (snd rf) ctx \<and> selects E tree q = Inr True)"
  proof (cases "passes (snd rf) ctx")
    case True
    then have "matchOneRule E tree src (fst rf) s = Inr s1" using s1 by (simp add: matchInFile_def)
    from matchOneRule_holds [OF this] True show ?thesis by blast
  next
    case False
    then show ?thesis using s1 by (simp add: matchInFile_def)
  qed
  show ?case unfolding Cons.IH [OF rest] step by (cases rf) auto
qed

lemma setPackageName_holds: "setPackageName name s = Some s' \<Longrightarrow> holdsRule s' f q = holdsRule s f q"
  by (cases q) (auto simp: setPackageName_def split: if_splits)

lemma matchSources_holds:
  assumes "foldOK (matchSource E dep rfs) srcs s = Inr s'"
  shows "holdsRule s' f q \<longleftrightarrow> holdsRule s f q \<or>
    (f \<in> set srcs \<and> (\<exists>tree flt. seParse E f = Some tree \<and> (q, flt) \<in> set rfs \<and>
       passes flt (fileContext E dep f tree) \<and> selects E tree q = Inr True))"
  using assms
proof (induction srcs arbitrary: s)
  case Nil
  then show ?case by simp
next
  case (Cons src srcs)
  then obtain s1 where s1: "matchSource E dep rfs src s = Inr s1"
    and rest: "foldOK (matchSource E dep rfs) srcs s1 = Inr s'"
    by (auto split: sum.splits)
  from s1 obtain tree s0 where tree: "seParse E src = Some tree" "setPackageName (fileName tree) s = Some s0"
    "foldOK (matchInFile E tree src (fileContext E dep src tree)) rfs s0 = Inr s1"
    by (auto simp: matchSource_def orAssert_def split: option.splits)
  have "holdsRule s1 f q \<longleftrightarrow> holdsRule s f q \<or> (f = src \<and> (\<exists>flt. (q, flt) \<in> set rfs \<and>
      passes flt (fileContext E dep src tree)) \<and> selects E tree q = Inr True)"
    unfolding matchInFile_holds [OF tree(3)] setPackageName_holds [OF tree(2)] by blast
  with tree(1) show ?case unfolding Cons.IH [OF rest] by auto
qed

lemma buildFilters_iff:
  "buildFilters rs = Inr rfs \<Longrightarrow> (q, flt) \<in> set rfs \<longleftrightarrow> q \<in> set rs \<and> buildWhere (getWhere q) = Inr flt"
  by (induction rs arbitrary: rfs) (auto split: sum.splits)

lemma preciseMatching_holds:
  assumes "preciseMatching E dep rs s = Inr s'"
  shows "holdsRule s' f q \<longleftrightarrow> holdsRule s f q \<or> (q \<in> set rs \<and> applies E dep f q)"
proof (cases "depSources dep = []")
  case True
  then show ?thesis using assms by (auto simp: preciseMatching_def applies_def)
next
  case False
  then obtain rfs where rfs: "buildFilters rs = Inr rfs"
    and "foldOK (matchSource E dep rfs) (depSources dep) s = Inr s'"
    using assms by (auto simp: preciseMatching_def split: sum.splits)
  then show ?thesis
    using matchSources_holds [of E dep rfs "depSources dep" s s' f q]
    by (auto simp: applies_def buildFilters_iff [OF rfs] split: option.splits sum.splits)
qed

lemma foldOK_invariant:
  assumes "foldOK step xs s = Inr s'" and "\<And>x s s'. step x s = Inr s' \<Longrightarrow> g s' = g s"
  shows "g s' = g s"
  using assms(1) by (induction xs arbitrary: s) (auto split: sum.splits dest: assms(2))

lemma markIgnored_holds:
  assumes "markIgnoredCallFiles E dep s = Inr s'"
  shows "holdsRule s' f q = holdsRule s f q"
proof -
  have "holdsRule t' f q = holdsRule t f q" if "markIgnoredCallFile E src t = Inr t'" for src t t'
    using that by (cases q)
      (auto simp: markIgnoredCallFile_def addIgnoredCallFile_def split: option.splits if_splits)
  then show ?thesis
    using assms foldOK_invariant [where g = "\<lambda>s. holdsRule s f q"]
    unfolding markIgnoredCallFiles_def by blast
qed

lemma addFileRules_holds:
  "holdsRule (addFileRules rs s) f q \<longleftrightarrow> holdsRule s f q \<or> (q \<in> set rs \<and> isFileRule q)"
  unfolding addFileRules_def
proof (induction rs arbitrary: s)
  case Nil
  then show ?case by simp
next
  case (Cons r rs)
  have "holdsRule (case r of FileRule fr \<Rightarrow> addFileRule fr s | _ \<Rightarrow> s) f q \<longleftrightarrow>
      holdsRule s f q \<or> (q = r \<and> isFileRule q)"
    by (cases r; cases q) (auto simp: addFileRule_def isFileRule_def)
  then show ?case using Cons.IH by auto
qed

lemma new_holds_nothing:
  "\<not> holdsRule (setCgoFileMap m (newInstRuleSet p)) f q" "\<not> holdsRule (newInstRuleSet p) f q"
  by (cases q; simp add: setCgoFileMap_def newInstRuleSet_def)+

lemma applies_not_file: "applies E dep f q \<Longrightarrow> \<not> isFileRule q"
  by (auto simp: applies_def selects_not_file split: option.splits sum.splits)

lemma runMatch_holds:
  assumes "runMatch E roots dep exact globs = Inr s"
  shows "holdsRule s f q \<longleftrightarrow> q \<in> snd ` set (relevantRules E roots dep exact globs) \<and>
    matchVersion E dep q \<and> (isFileRule q \<or> applies E dep f q)"
proof -
  define irs1 where "irs1 = (if depCgoFiles dep \<noteq> [] then setCgoFileMap (depCgoFiles dep) (newInstRuleSet (depImportPath dep))
    else newInstRuleSet (depImportPath dep))"
  define rel where "rel = map snd (relevantRules E roots dep exact globs)"
  obtain irs2 where mark: "markIgnoredCallFiles E dep irs1 = Inr irs2"
    using assms unfolding runMatch_def Let_def irs1_def [symmetric] by (auto split: sum.splits)
  have none: "\<not> holdsRule irs2 f q"
    using new_holds_nothing by (simp add: markIgnored_holds [OF mark] irs1_def)
  let ?filtered = "filter (matchVersion E dep) rel"
  have with_files: "holdsRule (addFileRules ?filtered irs2) f q \<longleftrightarrow> q \<in> set ?filtered \<and> isFileRule q"
    by (simp add: addFileRules_holds none)
  have "holdsRule s f q \<longleftrightarrow> q \<in> set rel \<and> matchVersion E dep q \<and> (isFileRule q \<or> applies E dep f q)"
  proof (cases "filter (\<lambda>r. \<not> isFileRule r) ?filtered = []")
    case True
    then have files: "isFileRule r" if "r \<in> set rel" "matchVersion E dep r" for r
      using that by (auto simp: filter_empty_conv)
    then show ?thesis
      using assms mark with_files none True unfolding runMatch_def Let_def irs1_def [symmetric] rel_def [symmetric]
      by (auto simp: setPackageName_holds split: if_splits option.splits)
  next
    case False
    then have "preciseMatching E dep (filter (\<lambda>r. \<not> isFileRule r) ?filtered) (addFileRules ?filtered irs2) = Inr s"
      using assms mark unfolding runMatch_def Let_def irs1_def [symmetric] rel_def [symmetric]
      by (cases "rel = []") simp_all
    from preciseMatching_holds [OF this, of f q] show ?thesis
      using with_files applies_not_file by auto
  qed
  then show ?thesis by (simp add: rel_def)
qed

section \<open>Properties\<close>

text \<open>
  The two tiers are an index. For any package, the rules found by the exact key and by testing
  the other targets are the rules whose target matches the package, each once, if the list of all
  rules holds no address twice.
\<close>

theorem index_equivalence:
  assumes "splitRules loadRoots rs \<lparr>exactTier = [], globTier = [], tierRoots = roots0\<rparr> = Inr t"
    and "distinct (map fst rs)"
  shows "distinct (map fst (relevantRules E roots dep (exactTier t) (globTier t))) \<and>
    set (relevantRules E roots dep (exactTier t) (globTier t)) =
      {r \<in> set rs. targetMatches (seGlob E) (getTarget (snd r)) (depImportPath dep) roots}"
proof
  show "distinct (map fst (relevantRules E roots dep (exactTier t) (globTier t)))"
    unfolding relevantRules_tiers [OF assms] using assms(2) by (induction rs) auto
  show "set (relevantRules E roots dep (exactTier t) (globTier t)) = {r \<in> set rs. selectedBy E roots dep r}"
    using relevant_iff [OF assms] by blast
qed

lemma matchAll_found:
  assumes "matchAll E t deps = Inr sets"
  shows "\<exists>found. (\<forall>dep \<in> set deps. runMatch E (tierRoots t) dep (exactTier t) (globTier t) = Inr (found dep)) \<and>
    sets = filter (\<lambda>s. \<not> ruleSetIsEmpty (Some s)) (map found deps)"
proof (intro exI conjI ballI)
  let ?found = "\<lambda>dep. case runMatch E (tierRoots t) dep (exactTier t) (globTier t) of Inr s \<Rightarrow> s"
  show "runMatch E (tierRoots t) dep (exactTier t) (globTier t) = Inr (?found dep)" if "dep \<in> set deps" for dep
    using assms that by (induction deps arbitrary: sets) (auto split: sum.splits)
  show "sets = filter (\<lambda>s. \<not> ruleSetIsEmpty (Some s)) (map ?found deps)"
    using assms by (induction deps arbitrary: sets) (auto split: sum.splits)
qed

text \<open>
  C21: matching is exact. If \<open>matchDeps\<close> succeeds, it returns the non-empty rule sets of the
  packages, and the rule set of a package holds a rule for a file exactly when the target of the
  rule matches the package, the version of the package is in its range, and, unless the rule adds
  a file, the file belongs to the package, passes the where clause and declares what the rule
  selects. The root modules are the same for all packages.
\<close>

theorem matchDeps_exact:
  assumes "matchDeps E roots loadRoots rs deps = Inr sets" and "distinct (map fst rs)" and "rs \<noteq> []"
  shows "\<exists>roots' found. sets = filter (\<lambda>s. \<not> ruleSetIsEmpty (Some s)) (map found deps) \<and>
    (\<forall>dep \<in> set deps. \<forall>file r. holdsRule (found dep) file r \<longleftrightarrow>
       r \<in> snd ` set rs \<and> targetMatches (seGlob E) (getTarget r) (depImportPath dep) roots' \<and>
       matchVersion E dep r \<and> (isFileRule r \<or> applies E dep file r))"
proof -
  obtain t where t: "splitRules loadRoots rs \<lparr>exactTier = [], globTier = [], tierRoots = roots\<rparr> = Inr t"
    and all: "matchAll E t deps = Inr sets"
    using assms(1,3) by (auto simp: matchDeps_def split: sum.splits)
  obtain found
    where found: "\<forall>dep \<in> set deps. runMatch E (tierRoots t) dep (exactTier t) (globTier t) = Inr (found dep)"
      and sets: "sets = filter (\<lambda>s. \<not> ruleSetIsEmpty (Some s)) (map found deps)"
    using matchAll_found [OF all] by blast
  have rel: "r \<in> snd ` set (relevantRules E (tierRoots t) dep (exactTier t) (globTier t)) \<longleftrightarrow>
      r \<in> snd ` set rs \<and> targetMatches (seGlob E) (getTarget r) (depImportPath dep) (tierRoots t)" for dep r
    using relevant_iff [OF t assms(2)] by force
  show ?thesis
    using sets runMatch_holds [OF found [rule_format]] unfolding rel by blast
qed

definition sampleFuncDecl :: funcDecl where
  "sampleFuncDecl = \<lparr>fdName = ''Serve'', fdRecv = Some [([''s''], StarExpr (Ident [] ''Server''))],
     fdType = \<lparr>ftParams = Some [], ftResults = None\<rparr>, fdStart = []\<rparr>"

definition sampleSource :: dstFile where
  "sampleSource = \<lparr>fileName = ''http'', fileDecls = [FuncDecl sampleFuncDecl], fileImports = [],
     fileStart = [], fileTree = DNode OtherNode [] [] []\<rparr>"

definition sampleEnv :: setupEnv where
  "sampleEnv = \<lparr>seRead = \<lambda>f. Some ''package http'', seParse = \<lambda>f. Some sampleSource,
     sePackage = \<lambda>f. Some ''http'', seGlob = \<lambda>p s. None, seCompare = \<lambda>a b. 0, seResolved = \<lambda>p. None\<rparr>"

definition sampleDep :: Dependency where
  "sampleDep = \<lparr>depImportPath = ''net/http'', depVersion = [], depSources = [''/go/server.go''], depCgoFiles = []\<rparr>"

lemma sample_split:
  "splitRules None [(0, FuncRule sampleFuncRule)] \<lparr>exactTier = [], globTier = [], tierRoots = []\<rparr> =
     Inr \<lparr>exactTier = [(''net/http'', [(0, FuncRule sampleFuncRule)])], globTier = [], tierRoots = []\<rparr>"
  by code_simp

theorem index_equivalence_witness:
  "(0, FuncRule sampleFuncRule) \<in> set (relevantRules sampleEnv [] sampleDep
     [(''net/http'', [(0, FuncRule sampleFuncRule)])] [])"
proof -
  have "targetMatches (seGlob sampleEnv) (getTarget (FuncRule sampleFuncRule)) (depImportPath sampleDep) []"
    by code_simp
  then show ?thesis
    using index_equivalence [OF sample_split, of sampleEnv "[]" sampleDep] by simp
qed

lemma sample_match:
  "\<exists>s. matchDeps sampleEnv [] None [(0, FuncRule sampleFuncRule)] [sampleDep] = Inr [s]"
  by (rule exI) code_simp

theorem matchDeps_exact_witness:
  "\<exists>s. matchDeps sampleEnv [] None [(0, FuncRule sampleFuncRule)] [sampleDep] = Inr [s] \<and>
     holdsRule s ''/go/server.go'' (FuncRule sampleFuncRule) \<and>
     \<not> holdsRule s ''/go/other.go'' (FuncRule sampleFuncRule)"
proof -
  obtain s where s: "matchDeps sampleEnv [] None [(0, FuncRule sampleFuncRule)] [sampleDep] = Inr [s]"
    using sample_match by blast
  obtain roots' found where sets: "[s] = filter (\<lambda>s. \<not> ruleSetIsEmpty (Some s)) (map found [sampleDep])"
    and holds: "\<And>file r. holdsRule (found sampleDep) file r \<longleftrightarrow> r \<in> snd ` set [(0::nat, FuncRule sampleFuncRule)] \<and>
      targetMatches (seGlob sampleEnv) (getTarget r) (depImportPath sampleDep) roots' \<and>
      matchVersion sampleEnv sampleDep r \<and> (isFileRule r \<or> applies sampleEnv sampleDep file r)"
    using matchDeps_exact [OF s] by auto
  from sets have "found sampleDep = s" by (auto split: if_splits)
  moreover have "exactTarget (getTarget (FuncRule sampleFuncRule)) = Some ''net/http''"
    "depImportPath sampleDep = ''net/http''" by code_simp+
  moreover have "matchVersion sampleEnv sampleDep (FuncRule sampleFuncRule)"
    "applies sampleEnv sampleDep ''/go/server.go'' (FuncRule sampleFuncRule)"
    "\<not> applies sampleEnv sampleDep ''/go/other.go'' (FuncRule sampleFuncRule)"
    "\<not> isFileRule (FuncRule sampleFuncRule)"
    by code_simp+
  ultimately show ?thesis
    using s holds exactTarget_selects by fastforce
qed

end
