(* ===== verification/Package_Load.thy ===== *)
theory Package_Load
  imports Go_Path Build_Args
begin

text \<open>
  The packages of a build as \<open>golang.org/x/tools/go/packages\<close> loads them, and what the program
  takes from them: \<open>tool/internal/pkgload/pkgload.go\<close>, and of \<open>setup.go\<close> the choice of the build
  packages, their root modules and import paths. \<open>packages.Load\<close> is a parameter of type
  \<open>pkgLoader\<close>; the other arguments of a load (mode, context) are left out.

  Imports are acyclic, so a package is a tree whose children are its imports, in the order in which
  the loop over the map of imports visits them; a package imported twice occurs twice in the tree.

  Shown: the walks that mark what they visited reach the whole tree when a path names one package,
  and what two packages with the same path do to them.
\<close>

section \<open>Packages\<close>

record goModule =
  modPath :: string
  modDir :: string

datatype pkg = Pkg
  (pkgID: string) (pkgPath: string) (pkgName: string) (pkgFiles: "string list") (pkgErrors: "string list")
  (pkgModule: "goModule option") (pkgForTest: string) (pkgExport: string) (pkgImports: "pkg list")

text \<open>Directory, build flags, tests and patterns; \<open>None\<close> is an error of the loader.\<close>

type_synonym pkgLoader = "string \<Rightarrow> string list \<Rightarrow> bool \<Rightarrow> string list \<Rightarrow> pkg list option"

datatype loadError =
    MissingDirValue
  | NoWorkDir
  | LoadFailed "string list"
  | NoPackages string
  | PackageFailed string
  | NoExport string
  | NoModule string
  | ManyForFiles
  | NoBuildPackages
  | BadTargets targetsError

fun loadDirFromBuildFlags :: "string list \<Rightarrow> string \<times> string list \<Rightarrow> loadError + string \<times> string list" where
  "loadDirFromBuildFlags [] st = Inr st"
| "loadDirFromBuildFlags (flag # rest) (dir, filtered) =
     (if flag = ''-C'' then
        (case rest of
           [] \<Rightarrow> Inl MissingDirValue
         | v # rest' \<Rightarrow> loadDirFromBuildFlags rest' (v, filtered))
      else if hasPrefix flag ''-C='' then loadDirFromBuildFlags rest (trimPrefix flag ''-C='', filtered)
      else loadDirFromBuildFlags rest (dir, filtered @ [flag]))"

definition LoadPackages ::
    "pkgLoader \<Rightarrow> string option \<Rightarrow> string list \<Rightarrow> bool \<Rightarrow> string list \<Rightarrow> loadError + pkg list" where
  "LoadPackages load wd buildFlags tests patterns =
     (case loadDirFromBuildFlags buildFlags ([], []) of
        Inl e \<Rightarrow> Inl e
      | Inr (dir, filtered) \<Rightarrow>
          (case (if dir = [] then Some [] else pathAbs wd dir) of
             None \<Rightarrow> Inl NoWorkDir
           | Some absDir \<Rightarrow>
               (case load absDir filtered tests patterns of
                  None \<Rightarrow> Inl (LoadFailed patterns)
                | Some pkgs \<Rightarrow> Inr pkgs)))"

text \<open>\<open>ModuleAndWorkspace\<close> on the output of \<open>go env GOMOD GOWORK\<close>\<close>

definition ModuleAndWorkspace :: "string \<Rightarrow> (string \<times> bool) option" where
  "ModuleAndWorkspace out =
     (case strCut out (CHR 0x0A) of (goModLine, goWorkLine, ok) \<Rightarrow>
        if \<not> ok then None
        else let goMod = trimSpace goModLine; goWork = trimSpace goWorkLine
             in Some (if goMod \<noteq> [] \<and> goMod \<noteq> ''/dev/null'' then pathDir goMod else [],
                      goWork \<noteq> [] \<and> goWork \<noteq> ''off''))"

definition packageDir :: "pkg \<Rightarrow> string" where
  "packageDir p = (case pkgFiles p of [] \<Rightarrow> [] | f # _ \<Rightarrow> pathDir f)"

text \<open>\<open>None\<close> where the code ends the process\<close>

definition ResolvePackageName :: "pkgLoader \<Rightarrow> string option \<Rightarrow> string \<Rightarrow> string list \<Rightarrow> string option" where
  "ResolvePackageName load wd importPath buildFlags =
     (case LoadPackages load wd buildFlags False [importPath] of
        Inl e \<Rightarrow> None
      | Inr [] \<Rightarrow> None
      | Inr (p # _) \<Rightarrow> if pkgErrors p \<noteq> [] \<or> pkgName p = [] then None else Some (pkgName p))"

section \<open>Walks\<close>

text \<open>
  The state is the paths visited and the result map. \<open>entry\<close> is what a package contributes under
  its path, if anything.
\<close>

type_synonym walkState = "string list \<times> (string \<times> string) list"

definition visitPkg :: "(pkg \<Rightarrow> string) \<Rightarrow> pkg \<Rightarrow> walkState \<Rightarrow> walkState" where
  "visitPkg get p st = (pkgPath p # fst st,
     if get p \<noteq> [] then (pkgPath p, get p) # snd st else snd st)"

fun walkPkg :: "(pkg \<Rightarrow> string) \<Rightarrow> pkg \<Rightarrow> walkState \<Rightarrow> walkState"
  and walkPkgs :: "(pkg \<Rightarrow> string) \<Rightarrow> pkg list \<Rightarrow> walkState \<Rightarrow> walkState" where
  "walkPkg get (Pkg i path n fs es m t x ims) st =
     (if path \<in> set (fst st) then st
      else walkPkgs get ims (visitPkg get (Pkg i path n fs es m t x ims) st))"
| "walkPkgs get [] st = st"
| "walkPkgs get (p # ps) st = walkPkgs get ps (walkPkg get p st)"

definition CollectPackageNames :: "pkg list \<Rightarrow> string \<Rightarrow> string option" where
  "CollectPackageNames pkgs = map_of (snd (walkPkgs pkgName pkgs ([], [])))"

definition ResolveExportFiles ::
    "pkgLoader \<Rightarrow> string option \<Rightarrow> string \<Rightarrow> string list \<Rightarrow> loadError + (string \<Rightarrow> string option)" where
  "ResolveExportFiles load wd importPath buildFlags =
     (case LoadPackages load wd buildFlags False [importPath] of
        Inl e \<Rightarrow> Inl e
      | Inr pkgs \<Rightarrow>
          if pkgs = [] then Inl (NoPackages importPath)
          else if list_ex (\<lambda>p. pkgErrors p \<noteq> []) pkgs then Inl (PackageFailed importPath)
          else let result = map_of (snd (walkPkgs pkgExport pkgs ([], [])))
               in if result importPath = None then Inl (NoExport importPath) else Inr result)"

section \<open>Modules\<close>

definition ResolveModule :: "pkgLoader \<Rightarrow> string option \<Rightarrow> string \<Rightarrow> loadError + goModule" where
  "ResolveModule load wd dir =
     (case LoadPackages load wd [] False [dir] of
        Inl e \<Rightarrow> Inl e
      | Inr [] \<Rightarrow> Inl (NoPackages dir)
      | Inr (p # _) \<Rightarrow>
          (case pkgModule p of
             None \<Rightarrow> Inl (NoModule dir)
           | Some m \<Rightarrow> if modDir m = [] \<or> pkgErrors p \<noteq> [] then Inl (NoModule dir) else Inr m))"

definition resolveModuleDir :: "pkgLoader \<Rightarrow> string option \<Rightarrow> string \<Rightarrow> loadError + string" where
  "resolveModuleDir load wd dir = map_sum id modDir (ResolveModule load wd dir)"

text \<open>The loop of \<open>FindModuleDirs\<close>; the directories found serve as the set of those seen.\<close>

fun moduleDirsOf :: "pkgLoader \<Rightarrow> string option \<Rightarrow> pkg list \<Rightarrow> string list \<Rightarrow> loadError + string list" where
  "moduleDirsOf load wd [] dirs = Inr dirs"
| "moduleDirsOf load wd (p # ps) dirs =
     (if pkgModule p = None \<and> pkgPath p \<noteq> ''command-line-arguments'' then moduleDirsOf load wd ps dirs
      else if packageDir p = [] then moduleDirsOf load wd ps dirs
      else case (case pkgModule p of
                   Some m \<Rightarrow> Inr (modDir m)
                 | None \<Rightarrow> resolveModuleDir load wd (packageDir p)) of
             Inl e \<Rightarrow> Inl e
           | Inr d \<Rightarrow> moduleDirsOf load wd ps (if d \<in> set dirs then dirs else dirs @ [d]))"

definition FindModuleDirs :: "pkgLoader \<Rightarrow> string option \<Rightarrow> pkg list \<Rightarrow> loadError + string list" where
  "FindModuleDirs load wd pkgs = map_sum id sort (moduleDirsOf load wd pkgs [])"

section \<open>The build packages, setup.go\<close>

definition testBinaries :: "pkg list \<Rightarrow> string list" where
  "testBinaries pkgs = map (\<lambda>p. pkgForTest p @ ''.test'') (filter (\<lambda>p. pkgForTest p \<noteq> []) pkgs)"

definition usablePkg :: "pkg \<Rightarrow> bool" where
  "usablePkg p \<longleftrightarrow> \<not> (pkgErrors p \<noteq> [] \<or> (pkgModule p = None \<and> pkgPath p \<noteq> ''command-line-arguments''))"

definition getBuildPackages ::
    "pkgLoader \<Rightarrow> string option \<Rightarrow> string \<Rightarrow> string list \<Rightarrow> loadError + pkg list \<times> pkg list" where
  "getBuildPackages load wd subcommand args =
     (case splitBuildTargets wd subcommand args of
        Inl e \<Rightarrow> Inl (BadTargets e)
      | Inr (pkgTargets, fileTargets) \<Rightarrow>
          (case LoadPackages load wd (extractBuildFlags subcommand args) (subcommand = ''test'')
                  (if fileTargets \<noteq> [] then fileTargets else if pkgTargets \<noteq> [] then pkgTargets else [''.'']) of
             Inl e \<Rightarrow> Inl e
           | Inr pkgs \<Rightarrow>
               if fileTargets \<noteq> [] \<and> 1 < length pkgs then Inl ManyForFiles
               else let allPkgs = filter usablePkg pkgs;
                        buildPkgs = filter (\<lambda>p. pkgForTest p = [] \<and> pkgID p \<notin> set (testBinaries pkgs)) allPkgs
                    in if buildPkgs = [] then Inl NoBuildPackages else Inr (buildPkgs, allPkgs)))"

fun rootsOf :: "pkgLoader \<Rightarrow> string option \<Rightarrow> pkg list \<Rightarrow> loadError + string list" where
  "rootsOf load wd [] = Inr []"
| "rootsOf load wd (p # ps) =
     (let here = (case pkgModule p of
                    Some m \<Rightarrow> if modPath m \<noteq> [] then Some (modPath m) else None
                  | None \<Rightarrow> None)
      in case here of
           Some root \<Rightarrow> map_sum id (Cons root) (rootsOf load wd ps)
         | None \<Rightarrow>
             if packageDir p = [] then rootsOf load wd ps
             else case ResolveModule load wd (packageDir p) of
                    Inl e \<Rightarrow> Inl e
                  | Inr m \<Rightarrow>
                      (if modPath m \<noteq> [] then map_sum id (Cons (modPath m)) (rootsOf load wd ps)
                       else rootsOf load wd ps))"

text \<open>Sorted, each once: the keys of a map\<close>

definition rootModulePaths :: "pkgLoader \<Rightarrow> string option \<Rightarrow> pkg list \<Rightarrow> loadError + string list" where
  "rootModulePaths load wd pkgs = map_sum id (\<lambda>roots. remdups (sort roots)) (rootsOf load wd pkgs)"

definition resolveImportPath :: "pkgLoader \<Rightarrow> string option \<Rightarrow> string list \<Rightarrow> string \<Rightarrow> loadError + string" where
  "resolveImportPath load wd buildFlags dir =
     (case LoadPackages load wd buildFlags False [dir] of
        Inl e \<Rightarrow> Inl e
      | Inr [] \<Rightarrow> Inl (NoPackages dir)
      | Inr (p # _) \<Rightarrow> if pkgErrors p \<noteq> [] \<or> pkgPath p = [] then Inl (NoPackages dir) else Inr (pkgPath p))"

definition runtimeImportPath :: "pkgLoader \<Rightarrow> string option \<Rightarrow> string list \<Rightarrow> pkg \<Rightarrow> string \<Rightarrow> string" where
  "runtimeImportPath load wd buildFlags p dir =
     (if pkgPath p \<noteq> ''command-line-arguments'' then pkgPath p
      else case resolveImportPath load wd buildFlags dir of Inl e \<Rightarrow> pkgPath p | Inr path \<Rightarrow> path)"
section \<open>What the walks reach\<close>

text \<open>A package and everything it imports, directly or not\<close>

fun closure :: "pkg \<Rightarrow> pkg list" where
  "closure (Pkg i path n fs es m t x ims) = Pkg i path n fs es m t x ims # concat (map closure ims)"

lemma closure_self: "p \<in> set (closure p)"
  by (cases p) simp

lemma closure_trans: "x \<in> set (closure p) \<Longrightarrow> set (closure x) \<subseteq> set (closure p)"
  by (induction p) auto

lemma closure_size: "x \<in> set (closure p) \<Longrightarrow> size x \<le> size p"
proof (induction p)
  case (Pkg i path n fs es m t y ims)
  show ?case
  proof (cases "x = Pkg i path n fs es m t y ims")
    case False
    then obtain q where q: "q \<in> set ims" "x \<in> set (closure q)" using Pkg.prems by auto
    then have "size x \<le> size q" by (rule Pkg.IH)
    also have "size q \<le> size_list size ims" by (rule size_list_estimation' [OF q(1) order_refl])
    finally show ?thesis by simp
  qed simp
qed

lemma import_size: "q \<in> set (pkgImports p) \<Longrightarrow> size q < size p"
proof (cases p)
  case (Pkg i path n fs es m t y ims)
  assume "q \<in> set (pkgImports p)"
  then have "size q \<le> size_list size ims" using Pkg by (auto intro: size_list_estimation' [OF _ order_refl])
  then show ?thesis using Pkg by simp
qed

definition onePath :: "pkg set \<Rightarrow> bool" where
  "onePath N \<longleftrightarrow> (\<forall>x \<in> N. \<forall>y \<in> N. pkgPath x = pkgPath y \<longrightarrow> x = y)"

abbreviation pathsOf :: "pkg \<Rightarrow> string set" where
  "pathsOf p \<equiv> pkgPath ` set (closure p)"

text \<open>What the visited packages of \<open>p\<close> import has been visited too.\<close>

definition closedFor :: "pkg \<Rightarrow> string list \<Rightarrow> bool" where
  "closedFor p visited \<longleftrightarrow> (\<forall>x \<in> set (closure p). pkgPath x \<in> set visited \<longrightarrow> pathsOf x \<subseteq> set visited)"

definition walkInv :: "pkg set \<Rightarrow> (pkg \<Rightarrow> string) \<Rightarrow> walkState \<Rightarrow> bool" where
  "walkInv N get st \<longleftrightarrow>
     set (snd st) = {(pkgPath x, get x) | x. x \<in> N \<and> pkgPath x \<in> set (fst st) \<and> get x \<noteq> []}"

lemma walkInv_visit:
  assumes "onePath N" and "p \<in> N" and "walkInv N get st"
  shows "walkInv N get (visitPkg get p st)"
proof -
  have same: "pkgPath x = pkgPath p \<longleftrightarrow> x = p" if "x \<in> N" for x
    using assms(1,2) that unfolding onePath_def by blast
  show ?thesis
    using assms(2,3) same unfolding walkInv_def visitPkg_def by auto
qed

lemma closedFor_import:
  assumes "onePath N" and "set (closure p) \<subseteq> N" and "closedFor p visited" and "q \<in> set (pkgImports p)"
    and "set (closure q) \<subseteq> set (closure p)"
  shows "closedFor q (pkgPath p # visited)"
  unfolding closedFor_def
proof (intro ballI impI)
  fix x assume x: "x \<in> set (closure q)" and seen: "pkgPath x \<in> set (pkgPath p # visited)"
  have "x \<noteq> p" using closure_size [OF x] import_size [OF assms(4)] by auto
  moreover have "x \<in> N" "p \<in> N" using x assms(2,5) closure_self [of p] by blast+
  ultimately have "pkgPath x \<noteq> pkgPath p" using assms(1) unfolding onePath_def by blast
  then have "pkgPath x \<in> set visited" using seen by simp
  then have "pathsOf x \<subseteq> set visited" using assms(3,5) x unfolding closedFor_def by blast
  then show "pathsOf x \<subseteq> set (pkgPath p # visited)" by auto
qed

lemma closedFor_after:
  assumes "onePath N" and "set (closure p) \<subseteq> N" and "set (closure q) \<subseteq> N" and "closedFor q visited"
    and "set visited' = set visited \<union> pathsOf p"
  shows "closedFor q visited'"
  unfolding closedFor_def
proof (intro ballI impI)
  fix x assume x: "x \<in> set (closure q)" and seen: "pkgPath x \<in> set visited'"
  show "pathsOf x \<subseteq> set visited'"
  proof (cases "pkgPath x \<in> set visited")
    case True
    then show ?thesis using assms(4,5) x unfolding closedFor_def by blast
  next
    case False
    then obtain y where y: "y \<in> set (closure p)" "pkgPath y = pkgPath x" using seen assms(5) by auto
    then have "y = x" using assms(1,2,3) x unfolding onePath_def by blast
    then have "set (closure x) \<subseteq> set (closure p)" using closure_trans y(1) by blast
    then show ?thesis using assms(5) by blast
  qed
qed

lemma walk_reaches:
  "onePath N \<Longrightarrow> set (closure p) \<subseteq> N \<Longrightarrow> walkInv N get st \<Longrightarrow> closedFor p (fst st) \<Longrightarrow>
     walkInv N get (walkPkg get p st) \<and> set (fst (walkPkg get p st)) = set (fst st) \<union> pathsOf p"
  "onePath N \<Longrightarrow> (\<forall>p \<in> set ps. set (closure p) \<subseteq> N \<and> closedFor p (fst st)) \<Longrightarrow> walkInv N get st \<Longrightarrow>
     walkInv N get (walkPkgs get ps st) \<and>
     set (fst (walkPkgs get ps st)) = set (fst st) \<union> (\<Union>p \<in> set ps. pathsOf p)"
proof (induction get p st and get ps st rule: walkPkg_walkPkgs.induct)
  case (1 get i path n fs es m t x ims st)
  define p where p: "p = Pkg i path n fs es m t x ims"
  note prems = 1(2-5) [folded p]
  have path: "pkgPath p = path" and imps: "pkgImports p = ims" by (simp_all add: p)
  have sub: "set (closure q) \<subseteq> set (closure p)" if "q \<in> set ims" for q
    using that by (auto simp: p)
  have paths: "pathsOf p = insert path (\<Union>q \<in> set ims. pathsOf q)" by (auto simp: p)
  show ?case
  proof (cases "path \<in> set (fst st)")
    case True
    then have "pathsOf p \<subseteq> set (fst st)" using prems(4) path closure_self [of p] unfolding closedFor_def by blast
    moreover have "walkPkg get p st = st" using True by (simp add: p)
    ultimately show ?thesis unfolding p [symmetric] using prems(3) by auto
  next
    case False
    have "\<forall>q \<in> set ims. set (closure q) \<subseteq> N \<and> closedFor q (fst (visitPkg get p st))"
      using sub prems(2) closedFor_import [OF prems(1,2,4)] path imps by (auto simp: visitPkg_def)
    moreover have "walkInv N get (visitPkg get p st)"
      using walkInv_visit [OF prems(1) _ prems(3)] closure_self prems(2) by blast
    ultimately have "walkInv N get (walkPkgs get ims (visitPkg get p st)) \<and>
        set (fst (walkPkgs get ims (visitPkg get p st))) =
          set (fst (visitPkg get p st)) \<union> (\<Union>q \<in> set ims. pathsOf q)"
      using 1(1) [OF False prems(1)] by (simp add: p)
    moreover have "walkPkg get p st = walkPkgs get ims (visitPkg get p st)"
      using False by (simp add: p)
    ultimately show ?thesis
      unfolding p [symmetric] paths by (simp add: visitPkg_def path)
  qed
next
  case (2 get st)
  then show ?case by simp
next
  case (3 get p ps st)
  have first: "walkInv N get (walkPkg get p st) \<and> set (fst (walkPkg get p st)) = set (fst st) \<union> pathsOf p"
    using 3(1) 3(3-5) by simp
  have "\<forall>q \<in> set ps. set (closure q) \<subseteq> N \<and> closedFor q (fst (walkPkg get p st))"
    using 3(4) closedFor_after [OF 3(3), of p _ "fst st" "fst (walkPkg get p st)"] first by simp
  from 3(2) [OF 3(3) this] first show ?case by auto
qed


lemma walk_all:
  assumes "onePath (\<Union>p \<in> set pkgs. set (closure p))"
  shows "map_of (snd (walkPkgs get pkgs ([], []))) path = Some v \<longleftrightarrow>
     (\<exists>p \<in> set pkgs. \<exists>x \<in> set (closure p). pkgPath x = path \<and> get x = v \<and> v \<noteq> [])"
proof -
  let ?N = "\<Union>p \<in> set pkgs. set (closure p)"
  let ?st = "walkPkgs get pkgs ([], [])"
  have "walkInv ?N get ([], [])" "\<forall>p \<in> set pkgs. set (closure p) \<subseteq> ?N \<and> closedFor p (fst ([]::string list, []::(string \<times> string) list))"
    by (auto simp: walkInv_def closedFor_def)
  then have inv: "walkInv ?N get ?st" and all: "set (fst ?st) = (\<Union>p \<in> set pkgs. pathsOf p)"
    using walk_reaches(2) [OF assms, of pkgs "([], [])" get] by simp_all
  have entries: "(path, w) \<in> set (snd ?st) \<longleftrightarrow> (\<exists>x \<in> ?N. pkgPath x = path \<and> get x = w \<and> w \<noteq> [])" for w
    using inv all unfolding walkInv_def by auto
  have unique: "w = w'" if "(path, w) \<in> set (snd ?st)" "(path, w') \<in> set (snd ?st)" for w w'
    using that assms unfolding entries onePath_def by metis
  have "map_of (snd ?st) path = Some v \<longleftrightarrow> (path, v) \<in> set (snd ?st)"
    using unique map_of_SomeD weak_map_of_SomeI by metis
  then show ?thesis unfolding entries by blast
qed

section \<open>Properties\<close>

text \<open>
  The names that setup records for later import resolution are those of all packages the build
  reaches, and no others, provided no two of them have the same path.
\<close>

theorem names_of_closure:
  assumes "onePath (\<Union>p \<in> set pkgs. set (closure p))"
  shows "CollectPackageNames pkgs path = Some name \<longleftrightarrow>
     (\<exists>p \<in> set pkgs. \<exists>x \<in> set (closure p). pkgPath x = path \<and> pkgName x = name \<and> name \<noteq> [])"
  unfolding CollectPackageNames_def by (rule walk_all [OF assms])

text \<open>
  The variant of a package that a test builds with its \<open>_test.go\<close> files has the path of the plain
  package, which comes first. The names of what only those files import are then not recorded.
\<close>

definition plainPkg :: "string \<Rightarrow> string \<Rightarrow> pkg list \<Rightarrow> pkg" where
  "plainPkg path name is = Pkg path path name [''/m/'' @ name @ ''.go''] [] (Some \<lparr>modPath = ''m'', modDir = ''/m''\<rparr>) [] [] is"

definition testVariant :: "pkg \<Rightarrow> pkg list \<Rightarrow> pkg" where
  "testVariant p is = Pkg (pkgPath p @ '' ['' @ pkgPath p @ ''.test]'') (pkgPath p) (pkgName p) (pkgFiles p) []
     (pkgModule p) (pkgPath p) [] is"

lemma test_imports_lost:
  "CollectPackageNames [plainPkg ''m/p'' ''p'' [], testVariant (plainPkg ''m/p'' ''p'' []) [plainPkg ''m/q/v2'' ''q'' []]] ''m/q/v2''
     = None"
  by code_simp

theorem names_of_closure_witness:
  "CollectPackageNames [plainPkg ''m/p'' ''p'' [plainPkg ''m/q/v2'' ''q'' []]] ''m/q/v2'' = Some ''q''"
proof -
  let ?q = "plainPkg ''m/q/v2'' ''q'' []"
  let ?p = "plainPkg ''m/p'' ''p'' [?q]"
  have c: "set (closure ?p) = {?p, ?q}" by (simp add: plainPkg_def)
  have "onePath (\<Union>p \<in> set [?p]. set (closure p))"
    unfolding onePath_def using c by (auto simp: plainPkg_def)
  from names_of_closure [OF this] show ?thesis
    using c by (auto simp: plainPkg_def)
qed

end
