(* ===== verification/Injected_Deps.thy ===== *)
theory Injected_Deps
  imports Package_Load Match_Deps
begin

text \<open>
  The packages that only the instrumentation brings into a build: \<open>tool/internal/setup/inject.go\<close>.
  The hook packages that the matched rules name are loaded with everything they import, the new
  packages are matched against the rules, and so on until a pass finds nothing new.

  \<open>packages.Visit\<close> is the parameter \<open>visited\<close>: the packages in the order it calls back.
  \<open>order\<close> is the order in which a loop visits a map. A loader and its working directory are
  called \<open>load\<close> and \<open>wd\<close>.

  Shown: the passes end, and match every package that any chain of hooks brings in, once each.
\<close>

section \<open>Versions of packages, find.go\<close>

text \<open>\<open>versionRegexp\<close> at the start of a text: the version after the @, up to the slash\<close>

definition takeDigits :: "string \<Rightarrow> (string \<times> string) option" where
  "takeDigits s = (let d = takeWhile isAsciiDigit s in if d = [] then None else Some (d, drop (length d) s))"

definition versionHere :: "string \<Rightarrow> string option" where
  "versionHere s =
     (if \<not> hasPrefix s ''@v'' then None
      else case takeDigits (drop 2 s) of
             Some (major, CHR ''.'' # s1) \<Rightarrow>
               (case takeDigits s1 of
                  Some (minor, CHR ''.'' # s2) \<Rightarrow>
                    (case takeDigits s2 of
                       Some (patch, s3) \<Rightarrow>
                         let suffix = (case s3 of
                               c # t \<Rightarrow> if c = CHR ''-'' \<or> c = CHR ''+'' then c # takeWhile (\<lambda>x. x \<noteq> CHR ''/'') t else []
                             | [] \<Rightarrow> [])
                         in if hasPrefix (drop (length suffix) s3) ''/''
                            then Some (''v'' @ major @ ''.'' @ minor @ ''.'' @ patch @ suffix) else None
                     | None \<Rightarrow> None)
                | _ \<Rightarrow> None)
           | _ \<Rightarrow> None)"

text \<open>The file names are those of a Unix system, where \<open>filepath.ToSlash\<close> changes nothing.\<close>

fun findModVersion :: "string \<Rightarrow> string" where
  "findModVersion [] = []"
| "findModVersion (c # s) = (case versionHere (c # s) of Some v \<Rightarrow> v | None \<Rightarrow> findModVersion s)"

section \<open>Hook packages\<close>

definition hookRulePaths ::
    "(InstFuncRule rulesMap \<Rightarrow> InstFuncRule rulesMap) \<Rightarrow> InstRuleSet \<Rightarrow> string list" where
  "hookRulePaths order m = map frPath (allFuncRules order m) @ map flPath (rsFileRules m)"

definition addPath :: "string \<Rightarrow> string list \<Rightarrow> string list" where
  "addPath path paths = (if path = [] \<or> path \<in> set paths then paths else paths @ [path])"

definition hookPackagePaths ::
    "(InstFuncRule rulesMap \<Rightarrow> InstFuncRule rulesMap) \<Rightarrow> InstRuleSet list \<Rightarrow> string list" where
  "hookPackagePaths order matched = fold addPath (concat (map (hookRulePaths order) matched)) []"

section \<open>One pass\<close>

definition dependencyOf :: "pkg \<Rightarrow> Dependency" where
  "dependencyOf p = \<lparr>depImportPath = pkgPath p, depVersion = findModVersion (hd (pkgFiles p)),
     depSources = pkgFiles p, depCgoFiles = []\<rparr>"

record injection =
  inKnown :: "string set"
  inDeps :: "Dependency list"
  inError :: "string option"

definition injectPkg :: "pkg \<Rightarrow> injection \<Rightarrow> injection" where
  "injectPkg p st =
     (let st1 = (if pkgErrors p \<noteq> [] \<and> inError st = None then st\<lparr>inError := Some (pkgPath p)\<rparr> else st)
      in if pkgPath p = [] \<or> pkgPath p \<in> inKnown st \<or> pkgFiles p = [] then st1
         else st1\<lparr>inKnown := insert (pkgPath p) (inKnown st), inDeps := inDeps st @ [dependencyOf p]\<rparr>)"

definition injectedDeps ::
    "pkgLoader \<Rightarrow> string option \<Rightarrow> (pkg list \<Rightarrow> pkg list) \<Rightarrow> string list \<Rightarrow> string list \<Rightarrow> string set \<Rightarrow>
     (loadError + Dependency list) \<times> string set" where
  "injectedDeps load wd visited buildFlags hookPaths known =
     (if hookPaths = [] then (Inr [], known)
      else case LoadPackages load wd buildFlags False hookPaths of
             Inl e \<Rightarrow> (Inl e, known)
           | Inr pkgs \<Rightarrow>
               let st = fold injectPkg (visited pkgs) \<lparr>inKnown = known, inDeps = [], inError = None\<rparr>
               in ((case inError st of Some p \<Rightarrow> Inl (PackageFailed p) | None \<Rightarrow> Inr (inDeps st)), inKnown st))"

section \<open>All passes\<close>

text \<open>
  The two operations of a pass are arguments, as in the code. The loop may run forever for some of
  them; then its value is \<open>None\<close>.
\<close>

partial_function (option) injectionPasses ::
    "(string list \<Rightarrow> string set \<Rightarrow> ('e + Dependency list) \<times> string set) \<Rightarrow>
     (Dependency list \<Rightarrow> 'e + InstRuleSet list) \<Rightarrow> (InstRuleSet list \<Rightarrow> string list) \<Rightarrow>
     InstRuleSet list \<Rightarrow> InstRuleSet list \<Rightarrow> string set \<Rightarrow> ('e + InstRuleSet list) option" where
  "injectionPasses loadPass matchPass hooks extra matched known =
     (case loadPass (hooks matched) known of
        (Inl e, known') \<Rightarrow> Some (Inl e)
      | (Inr injected, known') \<Rightarrow>
          if injected = [] then Some (Inr extra)
          else case matchPass injected of
                 Inl e \<Rightarrow> Some (Inl e)
               | Inr newSets \<Rightarrow>
                   if newSets = [] then Some (Inr extra)
                   else injectionPasses loadPass matchPass hooks (extra @ newSets) newSets known')"

definition runInjectionPasses ::
    "(string list \<Rightarrow> string set \<Rightarrow> ('e + Dependency list) \<times> string set) \<Rightarrow>
     (Dependency list \<Rightarrow> 'e + InstRuleSet list) \<Rightarrow> (InstRuleSet list \<Rightarrow> string list) \<Rightarrow>
     InstRuleSet list \<Rightarrow> string set \<Rightarrow> ('e + InstRuleSet list) option" where
  "runInjectionPasses loadPass matchPass hooks matched known =
     injectionPasses loadPass matchPass hooks [] matched known"

text \<open>\<open>matchInjectedDeps\<close>: packages that cannot be loaded end the passes with a warning.\<close>

definition tolerantLoad ::
    "pkgLoader \<Rightarrow> string option \<Rightarrow> (pkg list \<Rightarrow> pkg list) \<Rightarrow> string list \<Rightarrow> string list \<Rightarrow> string set \<Rightarrow>
     ('e + Dependency list) \<times> string set" where
  "tolerantLoad load wd visited buildFlags hookPaths known =
     (case injectedDeps load wd visited buildFlags hookPaths known of
        (Inl e, known') \<Rightarrow> (Inr [], known')
      | (Inr deps, known') \<Rightarrow> (Inr deps, known'))"

definition matchInjectedDeps ::
    "pkgLoader \<Rightarrow> string option \<Rightarrow> (pkg list \<Rightarrow> pkg list) \<Rightarrow> (InstFuncRule rulesMap \<Rightarrow> InstFuncRule rulesMap) \<Rightarrow>
     (Dependency list \<Rightarrow> matchError + InstRuleSet list) \<Rightarrow> string list \<Rightarrow>
     InstRuleSet list \<Rightarrow> Dependency list \<Rightarrow> (matchError + InstRuleSet list) option" where
  "matchInjectedDeps load wd visited order matchPass buildFlags matched deps =
     runInjectionPasses (tolerantLoad load wd visited buildFlags) matchPass (hookPackagePaths order) matched
       (set (map depImportPath deps))"
section \<open>What a pass adds\<close>

text \<open>What the loop relies on: a pass never hands back a package that is already known.\<close>

locale fresh_loader =
  fixes loadPass :: "string list \<Rightarrow> string set \<Rightarrow> ('e + Dependency list) \<times> string set"
  assumes fresh: "loadPass paths known = (Inr deps, known') \<Longrightarrow> deps \<noteq> [] \<Longrightarrow>
    distinct (map depImportPath deps) \<and> depImportPath ` set deps \<inter> known = {} \<and>
    known' = known \<union> depImportPath ` set deps"
begin

lemma known_grows:
  assumes "loadPass paths known = (Inr deps, known')" and "deps \<noteq> []"
    and "depImportPath ` set deps \<subseteq> U" and "finite U"
  shows "card (U - known') < card (U - known)"
proof (rule psubset_card_mono)
  show "finite (U - known)" using assms(4) by simp
  obtain d where "d \<in> set deps" using assms(2) by (cases deps) auto
  then show "U - known' \<subset> U - known" using fresh [OF assms(1,2)] assms(3) by blast
qed

end

lemma fold_injectPkg:
  assumes "distinct (map depImportPath (inDeps st))" and "known \<union> depImportPath ` set (inDeps st) = inKnown st"
    and "depImportPath ` set (inDeps st) \<inter> known = {}"
  shows "distinct (map depImportPath (inDeps (fold injectPkg ps st))) \<and>
    known \<union> depImportPath ` set (inDeps (fold injectPkg ps st)) = inKnown (fold injectPkg ps st) \<and>
    depImportPath ` set (inDeps (fold injectPkg ps st)) \<inter> known = {}"
  using assms
proof (induction ps arbitrary: st)
  case (Cons p ps)
  have "distinct (map depImportPath (inDeps (injectPkg p st)))"
    "known \<union> depImportPath ` set (inDeps (injectPkg p st)) = inKnown (injectPkg p st)"
    "depImportPath ` set (inDeps (injectPkg p st)) \<inter> known = {}"
    using Cons.prems by (auto simp: injectPkg_def dependencyOf_def Let_def)
  from Cons.IH [OF this] show ?case by simp
qed simp

interpretation tolerant: fresh_loader "tolerantLoad load wd visited buildFlags" for load wd visited buildFlags
proof
  fix paths known deps known'
  assume pass: "tolerantLoad load wd visited buildFlags paths known = (Inr deps, known')" and "deps \<noteq> []"
  then obtain pkgs where st: "deps = inDeps (fold injectPkg (visited pkgs) \<lparr>inKnown = known, inDeps = [], inError = None\<rparr>)"
    "known' = inKnown (fold injectPkg (visited pkgs) \<lparr>inKnown = known, inDeps = [], inError = None\<rparr>)"
    by (auto simp: tolerantLoad_def injectedDeps_def Let_def split: if_splits sum.splits option.splits)
  show "distinct (map depImportPath deps) \<and> depImportPath ` set deps \<inter> known = {} \<and>
      known' = known \<union> depImportPath ` set deps"
    using fold_injectPkg [of "\<lparr>inKnown = known, inDeps = [], inError = None\<rparr>" known "visited pkgs"] unfolding st by simp
qed

text \<open>A package that a pass takes from those it visits\<close>

definition newTo :: "string set \<Rightarrow> pkg \<Rightarrow> bool" where
  "newTo known p \<longleftrightarrow> pkgPath p \<noteq> [] \<and> pkgFiles p \<noteq> [] \<and> pkgPath p \<notin> known"

lemma fold_injectPkg_new:
  assumes "\<forall>p \<in> set ps. pkgErrors p = []" and "onePath (set ps)" and "inError st = None"
  shows "inError (fold injectPkg ps st) = None \<and>
    set (inDeps (fold injectPkg ps st)) = set (inDeps st) \<union> dependencyOf ` {p \<in> set ps. newTo (inKnown st) p}"
  using assms
proof (induction ps arbitrary: st)
  case (Cons p ps)
  have prems: "\<forall>q \<in> set ps. pkgErrors q = []" "onePath (set ps)" "inError (injectPkg p st) = None"
    using Cons.prems by (auto simp: onePath_def injectPkg_def Let_def)
  have same: "pkgPath q = pkgPath p \<longleftrightarrow> q = p" if "q \<in> set ps" for q
    using Cons.prems(2) that unfolding onePath_def by (metis list.set_intros(1,2))
  have "set (inDeps (injectPkg p st)) \<union> dependencyOf ` {q \<in> set ps. newTo (inKnown (injectPkg p st)) q} =
      set (inDeps st) \<union> dependencyOf ` {q \<in> set (p # ps). newTo (inKnown st) q}"
  proof (cases "newTo (inKnown st) p")
    case True
    then have step: "inKnown (injectPkg p st) = insert (pkgPath p) (inKnown st)"
      "inDeps (injectPkg p st) = inDeps st @ [dependencyOf p]"
      using Cons.prems(1) by (auto simp: injectPkg_def newTo_def Let_def)
    have "newTo (insert (pkgPath p) (inKnown st)) q \<longleftrightarrow> newTo (inKnown st) q \<and> q \<noteq> p" if "q \<in> set ps" for q
      using same [OF that] by (auto simp: newTo_def)
    then have "{q \<in> set ps. newTo (insert (pkgPath p) (inKnown st)) q} = {q \<in> set (p # ps). newTo (inKnown st) q} - {p}"
      by auto
    then show ?thesis unfolding step using True by auto
  next
    case False
    then have "injectPkg p st = st" using Cons.prems(1) by (auto simp: injectPkg_def newTo_def Let_def)
    moreover have "{q \<in> set (p # ps). newTo (inKnown st) q} = {q \<in> set ps. newTo (inKnown st) q}"
      using False by auto
    ultimately show ?thesis by simp
  qed
  then show ?case using Cons.IH [OF prems] by simp
qed simp

lemma set_hookPackagePaths: "set (hookPackagePaths order ms) = (\<Union>m \<in> set ms. set (hookRulePaths order m)) - {[]}"
proof -
  have "set (fold addPath ps acc) = set acc \<union> (set ps - {[]})" for ps acc
    by (induction ps arbitrary: acc) (auto simp: addPath_def)
  then show ?thesis by (simp add: hookPackagePaths_def)
qed
section \<open>All that hooks bring in\<close>

text \<open>
  What \<open>packages\<close> documents of loading the hook packages \<open>H\<close>: each path gives its package, without
  errors, a path names one package, and the visit covers the roots and all they import.
\<close>

definition loadsFrom ::
    "pkgLoader \<Rightarrow> string option \<Rightarrow> (pkg list \<Rightarrow> pkg list) \<Rightarrow> string list \<Rightarrow> string set \<Rightarrow> (string \<Rightarrow> pkg) \<Rightarrow> bool" where
  "loadsFrom load wd visited buildFlags H G \<longleftrightarrow> finite H \<and>
     (\<forall>hs. hs \<noteq> [] \<longrightarrow> set hs \<subseteq> H \<longrightarrow> LoadPackages load wd buildFlags False hs = Inr (map G hs)) \<and>
     (\<forall>ps. set (visited ps) = (\<Union>p \<in> set ps. set (closure p))) \<and>
     (\<forall>p \<in> (\<Union>h \<in> H. set (closure (G h))). pkgErrors p = []) \<and>
     onePath (\<Union>h \<in> H. set (closure (G h)))"

abbreviation hooksOf :: "(InstFuncRule rulesMap \<Rightarrow> InstFuncRule rulesMap) \<Rightarrow> InstRuleSet \<Rightarrow> string set" where
  "hooksOf order m \<equiv> set (hookRulePaths order m) - {[]}"

text \<open>The packages outside the plan that some chain of hooks imports\<close>

inductive_set broughtIn ::
    "(InstFuncRule rulesMap \<Rightarrow> InstFuncRule rulesMap) \<Rightarrow> (string \<Rightarrow> pkg) \<Rightarrow> (Dependency \<Rightarrow> InstRuleSet) \<Rightarrow>
     string set \<Rightarrow> InstRuleSet set \<Rightarrow> pkg set"
  for order G setFor plan matched where
  from_plan: "m \<in> matched \<Longrightarrow> h \<in> hooksOf order m \<Longrightarrow> q \<in> set (closure (G h)) \<Longrightarrow> newTo plan q \<Longrightarrow>
     q \<in> broughtIn order G setFor plan matched"
| from_hook: "p \<in> broughtIn order G setFor plan matched \<Longrightarrow> h \<in> hooksOf order (setFor (dependencyOf p)) \<Longrightarrow>
     q \<in> set (closure (G h)) \<Longrightarrow> newTo plan q \<Longrightarrow> q \<in> broughtIn order G setFor plan matched"

abbreviation nonEmptySets :: "InstRuleSet list \<Rightarrow> InstRuleSet list" where
  "nonEmptySets ms \<equiv> filter (\<lambda>m. \<not> ruleSetIsEmpty (Some m)) ms"

text \<open>A rule set whose hooks have nothing new to bring\<close>

definition settled ::
    "(InstFuncRule rulesMap \<Rightarrow> InstFuncRule rulesMap) \<Rightarrow> (string \<Rightarrow> pkg) \<Rightarrow> string set \<Rightarrow> Dependency set \<Rightarrow> InstRuleSet \<Rightarrow> bool" where
  "settled order G plan D m \<longleftrightarrow>
     (\<forall>h \<in> hooksOf order m. \<forall>q \<in> set (closure (G h)). newTo plan q \<longrightarrow> dependencyOf q \<in> D)"

lemma broughtIn_settled:
  assumes "\<forall>m \<in> M. settled order G plan D m" and "\<forall>d \<in> D. settled order G plan D (setFor d)"
  shows "dependencyOf ` broughtIn order G setFor plan M \<subseteq> D"
proof
  fix d assume "d \<in> dependencyOf ` broughtIn order G setFor plan M"
  then obtain q where q: "q \<in> broughtIn order G setFor plan M" and d: "d = dependencyOf q" by blast
  from q have "dependencyOf q \<in> D"
    by induction (use assms in \<open>unfold settled_def, blast+\<close>)
  then show "d \<in> D" by (simp add: d)
qed

lemma settled_mono: "settled order G plan D m \<Longrightarrow> D \<subseteq> D' \<Longrightarrow> settled order G plan D' m"
  unfolding settled_def by blast

lemma empty_settled:
  assumes "\<And>m. set (order m) = set m" and "ruleSetIsEmpty (Some m)"
  shows "settled order G plan D m"
proof -
  have "order [] = []" using assms(1) [of "[]"] by simp
  then show ?thesis using assms(2)
    by (simp add: settled_def hookRulePaths_def allFuncRules_def ruleSetIsEmpty_def)
qed

text \<open>The loop: \<open>Ds\<close> are the packages injected so far.\<close>

definition passInv ::
    "(InstFuncRule rulesMap \<Rightarrow> InstFuncRule rulesMap) \<Rightarrow> (string \<Rightarrow> pkg) \<Rightarrow> (Dependency \<Rightarrow> InstRuleSet) \<Rightarrow>
     string set \<Rightarrow> InstRuleSet set \<Rightarrow> Dependency list \<Rightarrow> InstRuleSet list \<Rightarrow> bool" where
  "passInv order G setFor plan M Ds matched \<longleftrightarrow>
     distinct (map depImportPath Ds) \<and> depImportPath ` set Ds \<inter> plan = {} \<and>
     set Ds \<subseteq> dependencyOf ` broughtIn order G setFor plan M \<and>
     set matched \<subseteq> M \<union> setFor ` set Ds \<and>
     (\<forall>m \<in> M \<union> setFor ` set Ds - set matched. settled order G plan (set Ds) m)"

lemma onePath_mono: "onePath N \<Longrightarrow> N' \<subseteq> N \<Longrightarrow> onePath N'"
  unfolding onePath_def by blast

text \<open>One pass over the hooks of the sets just matched\<close>

lemma pass_settles:
  assumes world: "loadsFrom load wd visited buildFlags H G"
    and hooks: "\<And>m. m \<in> M \<Longrightarrow> hooksOf order m \<subseteq> H"
      "\<And>p. p \<in> (\<Union>h \<in> H. set (closure (G h))) \<Longrightarrow> hooksOf order (setFor (dependencyOf p)) \<subseteq> H"
    and inv: "passInv order G setFor plan M Ds matched"
  obtains ds known' where
    "tolerantLoad load wd visited buildFlags (hookPackagePaths order matched) (plan \<union> depImportPath ` set Ds) = (Inr ds, known')"
    "set ds \<subseteq> dependencyOf ` broughtIn order G setFor plan M"
    "\<And>m. m \<in> set matched \<Longrightarrow> settled order G plan (set (Ds @ ds)) m"
proof -
  let ?hs = "hookPackagePaths order matched"
  let ?B = "broughtIn order G setFor plan M"
  let ?known = "plan \<union> depImportPath ` set Ds"
  define N where "N = (\<Union>h \<in> H. set (closure (G h)))"
  have inN: "q \<in> N" if "h \<in> H" "q \<in> set (closure (G h))" for h q using that unfolding N_def by blast
  have matched: "set matched \<subseteq> M \<union> setFor ` set Ds" and Ds: "set Ds \<subseteq> dependencyOf ` ?B"
    using inv by (auto simp: passInv_def)
  have hs: "set ?hs = (\<Union>m \<in> set matched. hooksOf order m)" by (auto simp: set_hookPackagePaths)
  have B: "?B \<subseteq> N"
  proof
    fix q assume "q \<in> ?B"
    then show "q \<in> N" by induction (use hooks(1) hooks(2) [folded N_def] inN in blast)+
  qed
  have "hooksOf order m \<subseteq> H" if "m \<in> set matched" for m
  proof -
    from that matched consider "m \<in> M" | d where "d \<in> set Ds" "m = setFor d" by blast
    then show ?thesis
    proof cases
      case 2
      then obtain p where "p \<in> ?B" "d = dependencyOf p" using Ds by blast
      then show ?thesis using 2 B hooks(2) [folded N_def] by blast
    qed (rule hooks(1))
  qed
  then have hsH: "set ?hs \<subseteq> H" unfolding hs by blast
  have one: "onePath N" and noerr: "\<forall>p \<in> N. pkgErrors p = []"
    using world unfolding loadsFrom_def N_def by blast+
  have in_B: "q \<in> ?B" if "m \<in> set matched" "h \<in> hooksOf order m" "q \<in> set (closure (G h))" "newTo plan q" for m h q
  proof -
    from that(1) matched consider "m \<in> M" | d where "d \<in> set Ds" "m = setFor d" by blast
    then show ?thesis
    proof cases
      case 1
      then show ?thesis using that by (blast intro: broughtIn.from_plan)
    next
      case 2
      then obtain p where "p \<in> ?B" "d = dependencyOf p" using Ds by blast
      then show ?thesis using 2 that by (blast intro: broughtIn.from_hook)
    qed
  qed
  have known_or_new: "dependencyOf q \<in> set Ds \<or> newTo ?known q" if "q \<in> N" "newTo plan q" for q
  proof (cases "pkgPath q \<in> depImportPath ` set Ds")
    case True
    then obtain p where p: "p \<in> ?B" "dependencyOf p \<in> set Ds" "pkgPath p = pkgPath q"
      using Ds by (auto simp: dependencyOf_def)
    then have "p = q" using one B that(1) unfolding onePath_def by blast
    then show ?thesis using p(2) by simp
  qed (use that in \<open>simp add: newTo_def\<close>)
  have weaker: "newTo plan q" if "newTo ?known q" for q using that by (simp add: newTo_def)
  show ?thesis
  proof (cases "?hs = []")
    case True
    have "tolerantLoad load wd visited buildFlags ?hs ?known = (Inr [], ?known)"
      by (simp add: tolerantLoad_def injectedDeps_def True)
    moreover have "settled order G plan (set (Ds @ [])) m" if "m \<in> set matched" for m
    proof -
      have "hooksOf order m = {}" using that hs True by auto
      then show ?thesis unfolding settled_def by (simp only: ball_empty)
    qed
    ultimately show ?thesis using that [of "[]" ?known] by simp
  next
    case False
    define V where "V = (\<Union>h \<in> set ?hs. set (closure (G h)))"
    let ?st = "fold injectPkg (visited (map G ?hs)) \<lparr>inKnown = ?known, inDeps = [], inError = None\<rparr>"
    have load: "LoadPackages load wd buildFlags False ?hs = Inr (map G ?hs)"
      and visits: "set (visited (map G ?hs)) = V"
      using world False hsH by (auto simp: loadsFrom_def V_def)
    have VN: "V \<subseteq> N" unfolding V_def using hsH inN by blast
    have "\<forall>p \<in> set (visited (map G ?hs)). pkgErrors p = []" unfolding visits using noerr VN by blast
    moreover have "onePath (set (visited (map G ?hs)))" unfolding visits by (rule onePath_mono [OF one VN])
    ultimately have "inError ?st = None \<and> set (inDeps ?st) = dependencyOf ` {p \<in> V. newTo ?known p}"
      using fold_injectPkg_new [of "visited (map G ?hs)" "\<lparr>inKnown = ?known, inDeps = [], inError = None\<rparr>"]
      by (simp add: visits)
    then have err: "inError ?st = None" and ds: "set (inDeps ?st) = dependencyOf ` {p \<in> V. newTo ?known p}" by simp_all
    have "tolerantLoad load wd visited buildFlags ?hs ?known = (Inr (inDeps ?st), inKnown ?st)"
      using False load err by (simp add: tolerantLoad_def injectedDeps_def Let_def)
    moreover have "set (inDeps ?st) \<subseteq> dependencyOf ` ?B"
      unfolding ds V_def hs using in_B weaker by blast
    moreover have "settled order G plan (set (Ds @ inDeps ?st)) m" if m: "m \<in> set matched" for m
      unfolding settled_def
    proof (intro ballI impI)
      fix h q assume h: "h \<in> hooksOf order m" and q: "q \<in> set (closure (G h))" "newTo plan q"
      then have "q \<in> V" unfolding V_def using m hs by blast
      then show "dependencyOf q \<in> set (Ds @ inDeps ?st)"
        using known_or_new [of q] VN q(2) ds by auto
    qed
    ultimately show ?thesis using that by blast
  qed
qed
lemma passes_end:
  fixes matchPass :: "Dependency list \<Rightarrow> 'e + InstRuleSet list"
  assumes world: "loadsFrom load wd visited buildFlags H G"
    and hooks: "\<And>m. m \<in> M \<Longrightarrow> hooksOf order m \<subseteq> H"
      "\<And>p. p \<in> (\<Union>h \<in> H. set (closure (G h))) \<Longrightarrow> hooksOf order (setFor (dependencyOf p)) \<subseteq> H"
    and order: "\<And>m. set (order m) = set m"
    and match: "\<And>ds. set ds \<subseteq> dependencyOf ` (\<Union>h \<in> H. set (closure (G h))) \<Longrightarrow>
      matchPass ds = Inr (nonEmptySets (map setFor ds))"
    and inv: "passInv order G setFor plan M Ds matched"
  shows "\<exists>Ds'. injectionPasses (tolerantLoad load wd visited buildFlags) matchPass (hookPackagePaths order)
      (nonEmptySets (map setFor Ds)) matched (plan \<union> depImportPath ` set Ds) =
      Some (Inr (nonEmptySets (map setFor Ds'))) \<and>
    distinct (map depImportPath Ds') \<and> depImportPath ` set Ds' \<inter> plan = {} \<and>
    set Ds' = dependencyOf ` broughtIn order G setFor plan M"
  using inv
proof (induction "card (pkgPath ` (\<Union>h \<in> H. set (closure (G h))) - (plan \<union> depImportPath ` set Ds))"
    arbitrary: Ds matched rule: less_induct)
  case less
  let ?B = "broughtIn order G setFor plan M"
  let ?loop = "injectionPasses (tolerantLoad load wd visited buildFlags) matchPass (hookPackagePaths order)"
  let ?known = "plan \<union> depImportPath ` set Ds"
  obtain ds known' where
    pass: "tolerantLoad load wd visited buildFlags (hookPackagePaths order matched) ?known = (Inr ds :: 'e + Dependency list, known')"
    and ds: "set ds \<subseteq> dependencyOf ` ?B"
    and now: "\<And>m. m \<in> set matched \<Longrightarrow> settled order G plan (set (Ds @ ds)) m"
    using pass_settles [OF world hooks less.prems] by blast
  have dist: "distinct (map depImportPath Ds)" and out: "depImportPath ` set Ds \<inter> plan = {}"
    and inB: "set Ds \<subseteq> dependencyOf ` ?B"
    and before: "\<forall>m \<in> M \<union> setFor ` set Ds - set matched. settled order G plan (set Ds) m"
    using less.prems unfolding passInv_def by simp_all
  have old: "settled order G plan (set (Ds @ ds)) m" if "m \<in> M \<union> setFor ` set Ds" for m
  proof (cases "m \<in> set matched")
    case False
    then have "settled order G plan (set Ds) m" using that before by blast
    then show ?thesis by (rule settled_mono) simp
  qed (rule now)
  have B: "?B \<subseteq> (\<Union>h \<in> H. set (closure (G h)))"
  proof
    fix q assume "q \<in> ?B"
    then show "q \<in> (\<Union>h \<in> H. set (closure (G h)))" by induction (use hooks in blast)+
  qed
  then have "set ds \<subseteq> dependencyOf ` (\<Union>h \<in> H. set (closure (G h)))" using ds by (metis image_mono subset_trans)
  note match = match [OF this]
  have fresh: "distinct (map depImportPath (Ds @ ds)) \<and> depImportPath ` set (Ds @ ds) \<inter> plan = {}"
    using dist out tolerant.fresh [OF pass] by (cases "ds = []") auto
  have finished: "set (Ds @ ds) = dependencyOf ` ?B" if "nonEmptySets (map setFor ds) = []"
  proof
    show "set (Ds @ ds) \<subseteq> dependencyOf ` ?B" using inB ds by auto
    have "settled order G plan (set (Ds @ ds)) (setFor d)" if "d \<in> set ds" for d
      using empty_settled [OF order] \<open>nonEmptySets (map setFor ds) = []\<close> that by (auto simp: filter_empty_conv)
    then have "\<forall>d \<in> set (Ds @ ds). settled order G plan (set (Ds @ ds)) (setFor d)"
      using old by (metis UnCI UnE image_eqI set_append)
    moreover have "\<forall>m \<in> M. settled order G plan (set (Ds @ ds)) m" using old by blast
    ultimately show "dependencyOf ` ?B \<subseteq> set (Ds @ ds)" by (intro broughtIn_settled)
  qed
  show ?case
  proof (cases "nonEmptySets (map setFor ds) = []")
    case True
    then have "?loop (nonEmptySets (map setFor Ds)) matched ?known = Some (Inr (nonEmptySets (map setFor (Ds @ ds))))"
      using pass by (subst injectionPasses.simps) (simp add: match)
    then show ?thesis using finished [OF True] fresh by blast
  next
    case False
    let ?new = "nonEmptySets (map setFor ds)"
    have "ds \<noteq> []" using False by auto
    have known': "known' = plan \<union> depImportPath ` set (Ds @ ds)"
      using tolerant.fresh [OF pass \<open>ds \<noteq> []\<close>] by auto
    have step: "?loop (nonEmptySets (map setFor Ds)) matched ?known =
        ?loop (nonEmptySets (map setFor (Ds @ ds))) ?new (plan \<union> depImportPath ` set (Ds @ ds))"
      using pass False \<open>ds \<noteq> []\<close> by (subst injectionPasses.simps) (simp add: match known')
    have inv': "passInv order G setFor plan M (Ds @ ds) ?new"
      unfolding passInv_def
    proof (intro conjI ballI)
      show "set (Ds @ ds) \<subseteq> dependencyOf ` ?B" using inB ds by auto
      show "set ?new \<subseteq> M \<union> setFor ` set (Ds @ ds)" by auto
    next
      fix m assume m: "m \<in> M \<union> setFor ` set (Ds @ ds) - set ?new"
      show "settled order G plan (set (Ds @ ds)) m"
      proof (cases "m \<in> M \<union> setFor ` set Ds")
        case False
        then have "ruleSetIsEmpty (Some m)" using m by auto
        then show ?thesis by (rule empty_settled [OF order])
      qed (rule old)
    qed (use fresh in blast)+
    have "finite (pkgPath ` (\<Union>h \<in> H. set (closure (G h))))" using world by (auto simp: loadsFrom_def)
    moreover have "depImportPath ` set ds \<subseteq> pkgPath ` (\<Union>h \<in> H. set (closure (G h)))"
    proof -
      have "depImportPath ` dependencyOf ` ?B = pkgPath ` ?B" by (simp add: dependencyOf_def image_comp comp_def)
      then show ?thesis using ds B by (metis image_mono subset_trans)
    qed
    ultimately have "card (pkgPath ` (\<Union>h \<in> H. set (closure (G h))) - (plan \<union> depImportPath ` set (Ds @ ds))) <
        card (pkgPath ` (\<Union>h \<in> H. set (closure (G h))) - ?known)"
      using tolerant.known_grows [OF pass \<open>ds \<noteq> []\<close>] unfolding known' by blast
    from less.hyps [OF this inv'] show ?thesis unfolding step .
  qed
qed

lemma matchAll_total:
  assumes "\<And>d. d \<in> set ds \<Longrightarrow> runMatch E (tierRoots t) d (exactTier t) (globTier t) = Inr (setFor d)"
  shows "matchAll E t ds = Inr (nonEmptySets (map setFor ds))"
  using assms by (induction ds) simp_all

section \<open>Properties\<close>

text \<open>
  C11: the passes end, and complete the build plan. They return the non-empty rule sets of exactly
  the packages outside the plan that the hooks of matched rules import, directly or through the
  hooks of rules matched in an earlier pass; each of these packages is matched once.
\<close>

theorem injected_complete:
  assumes "loadsFrom load wd visited buildFlags H G" and "\<And>m. set (order m) = set m"
    and "\<And>m. m \<in> set matched \<Longrightarrow> hooksOf order m \<subseteq> H"
    and "\<And>p. p \<in> (\<Union>h \<in> H. set (closure (G h))) \<Longrightarrow> hooksOf order (setFor (dependencyOf p)) \<subseteq> H"
    and "\<And>p. p \<in> (\<Union>h \<in> H. set (closure (G h))) \<Longrightarrow>
      runMatch E (tierRoots t) (dependencyOf p) (exactTier t) (globTier t) = Inr (setFor (dependencyOf p))"
  shows "\<exists>Ds. matchInjectedDeps load wd visited order (matchAll E t) buildFlags matched deps =
      Some (Inr (nonEmptySets (map setFor Ds))) \<and>
    distinct (map depImportPath Ds) \<and> depImportPath ` set Ds \<inter> depImportPath ` set deps = {} \<and>
    set Ds = dependencyOf ` broughtIn order G setFor (depImportPath ` set deps) (set matched)"
proof -
  have "passInv order G setFor (depImportPath ` set deps) (set matched) [] matched"
    by (auto simp: passInv_def)
  moreover have "matchAll E t ds = Inr (nonEmptySets (map setFor ds))"
    if "set ds \<subseteq> dependencyOf ` (\<Union>h \<in> H. set (closure (G h)))" for ds
    by (rule matchAll_total) (use that assms(5) in blast)
  ultimately show ?thesis
    using passes_end [where H = H and G = G and order = order and M = "set matched" and setFor = setFor
        and matchPass = "matchAll E t" and Ds = "[]" and matched = matched and plan = "depImportPath ` set deps",
        OF assms(1) assms(3,4) assms(2)]
    by (simp add: matchInjectedDeps_def runInjectionPasses_def)
qed

text \<open>A closure that cannot be loaded leaves the plan as it is.\<close>

lemma load_failure_harmless:
  assumes "LoadPackages load wd buildFlags False (hookPackagePaths order matched) = Inl e"
  shows "matchInjectedDeps load wd visited order matchPass buildFlags matched deps = Some (Inr [])"
proof -
  have "tolerantLoad load wd visited buildFlags (hookPackagePaths order matched) known =
      (Inr [] :: matchError + Dependency list, known)" for known
    using assms by (simp add: tolerantLoad_def injectedDeps_def)
  then show ?thesis
    unfolding matchInjectedDeps_def runInjectionPasses_def by (subst injectionPasses.simps) simp
qed


section \<open>A sample\<close>

definition httpPkg :: pkg where
  "httpPkg = Pkg ''net/http'' ''net/http'' ''http'' [''/go/http/server.go''] [] None [] [] []"

definition hookPkg :: pkg where
  "hookPkg = Pkg ''hooks'' ''hooks'' ''hooks'' [''/m/hooks@v1.2.0/hooks.go''] [] None [] [] [httpPkg]"

definition hookLoader :: pkgLoader where
  "hookLoader dir flags tests patterns = Some (map (\<lambda>p. hookPkg) patterns)"

definition planMatch :: InstRuleSet where
  "planMatch = (newInstRuleSet ''app'')\<lparr>rsFuncRules := [(''/app/main.go'', [sampleFuncRule])]\<rparr>"

definition httpTiers :: tiers where
  "httpTiers = \<lparr>exactTier = [(''net/http'', [(0, FuncRule sampleFuncRule)])], globTier = [], tierRoots = []\<rparr>"

definition httpMatch :: InstRuleSet where
  "httpMatch = (newInstRuleSet ''net/http'')\<lparr>rsPackageName := ''http'', rsFuncRules := [(''/go/http/server.go'', [sampleFuncRule])]\<rparr>"

definition setsFor :: "Dependency \<Rightarrow> InstRuleSet" where
  "setsFor d = (if depImportPath d = ''net/http'' then httpMatch else newInstRuleSet ''hooks'')"

lemma sample_matches:
  "runMatch sampleEnv [] (dependencyOf httpPkg) (exactTier httpTiers) [] = Inr httpMatch"
  "runMatch sampleEnv [] (dependencyOf hookPkg) (exactTier httpTiers) [] = Inr (newInstRuleSet ''hooks'')"
  by code_simp+

lemma findModVersion_sample: "findModVersion ''/m/hooks@v1.2.0-rc.1+x/hooks.go'' = ''v1.2.0-rc.1+x''"
  by code_simp

theorem injected_complete_witness:
  "\<exists>sets. matchInjectedDeps hookLoader None (\<lambda>ps. concat (map closure ps)) id (matchAll sampleEnv httpTiers) []
      [planMatch] [] = Some (Inr sets) \<and> httpMatch \<in> set sets"
proof -
  have closures: "(\<Union>h \<in> {''hooks''}. set (closure hookPkg)) = {hookPkg, httpPkg}"
    by (auto simp: hookPkg_def httpPkg_def)
  have "loadsFrom hookLoader None (\<lambda>ps. concat (map closure ps)) [] {''hooks''} (\<lambda>h. hookPkg)"
    unfolding loadsFrom_def closures
    by (auto simp: hookLoader_def LoadPackages_def onePath_def hookPkg_def httpPkg_def)
  moreover have "set (id m) = set m" for m :: "InstFuncRule rulesMap" by simp
  moreover have hooks: "hooksOf id m \<subseteq> {''hooks''}" if "m \<in> {planMatch, httpMatch, newInstRuleSet ''hooks''}" for m
    using that by (auto simp: hookRulePaths_def allFuncRules_def planMatch_def httpMatch_def newInstRuleSet_def sampleFuncRule_def)
  moreover have "hooksOf id (setsFor (dependencyOf p)) \<subseteq> {''hooks''}" for p
    using hooks by (simp add: setsFor_def)
  moreover have "runMatch sampleEnv (tierRoots httpTiers) (dependencyOf p) (exactTier httpTiers) (globTier httpTiers) =
      Inr (setsFor (dependencyOf p))" if "p \<in> (\<Union>h \<in> {''hooks''}. set (closure hookPkg))" for p
    using that sample_matches unfolding closures
    by (auto simp: setsFor_def dependencyOf_def httpPkg_def hookPkg_def httpTiers_def)
  ultimately obtain Ds where
    res: "matchInjectedDeps hookLoader None (\<lambda>ps. concat (map closure ps)) id (matchAll sampleEnv httpTiers) []
      [planMatch] [] = Some (Inr (nonEmptySets (map setsFor Ds)))"
    and Ds: "set Ds = dependencyOf ` broughtIn id (\<lambda>h. hookPkg) setsFor {} {planMatch}"
    using injected_complete [of hookLoader None "\<lambda>ps. concat (map closure ps)" "[]" "{''hooks''}" "\<lambda>h. hookPkg" id
        "[planMatch]" setsFor sampleEnv httpTiers "[]"] by auto
  have "httpPkg \<in> broughtIn id (\<lambda>h. hookPkg) setsFor {} {planMatch}"
    by (rule broughtIn.from_plan [where m = planMatch and h = "''hooks''"])
      (auto simp: hookRulePaths_def allFuncRules_def planMatch_def newInstRuleSet_def sampleFuncRule_def hookPkg_def httpPkg_def newTo_def)
  then have "dependencyOf httpPkg \<in> set Ds" unfolding Ds by blast
  moreover have "setsFor (dependencyOf httpPkg) = httpMatch" by (simp add: setsFor_def dependencyOf_def httpPkg_def)
  moreover have "\<not> ruleSetIsEmpty (Some httpMatch)" by code_simp
  ultimately have "httpMatch \<in> set (nonEmptySets (map setsFor Ds))" by force
  then show ?thesis using res by blast
qed

end
