(* ===== verification/File_Tree.thy ===== *)
theory File_Tree
  imports Match_Deps
begin

text \<open>
  The directory walks of \<open>tool/internal/setup\<close>: \<open>rulesFromDir\<close> (\<open>match.go\<close>) and the loaders
  \<open>loadModuleRules\<close> and \<open>loadMinimalRules\<close> of \<open>pin.go\<close>, over a tree of files. \<open>filepath.WalkDir\<close>
  is modelled with its callback. A path is the list of names below the root of the walk. The
  entries of a directory are in the order the walk visits them; those of a directory that cannot
  be listed are out of reach. Reading YAML and \<open>go.mod\<close> files are parameters, collected in
  \<open>fileReaders\<close>.

  Shown: a walk visits the entries outside the directories it skips, and each rule file is loaded
  for the module of the nearest directory above it that has a \<open>go.mod\<close>.
\<close>

section \<open>Trees and walks\<close>

datatype entry =
    File (treeName: string) "string option"
  | Dir (treeName: string) "entry list option"

definition isDir :: "entry \<Rightarrow> bool" where
  "isDir e = (case e of Dir n es \<Rightarrow> True | File n c \<Rightarrow> False)"

definition children :: "entry \<Rightarrow> entry list" where
  "children e = (case e of Dir n (Some es) \<Rightarrow> es | _ \<Rightarrow> [])"

definition unlisted :: "entry \<Rightarrow> bool" where
  "unlisted e = (case e of Dir n None \<Rightarrow> True | _ \<Rightarrow> False)"

text \<open>\<open>util.PathExists(filepath.Join(dir, name))\<close>\<close>

definition hasEntry :: "entry \<Rightarrow> string \<Rightarrow> bool" where
  "hasEntry e name = list_ex (\<lambda>c. treeName c = name) (children e)"

text \<open>
  The callback of a walk gets a path, the entry there and whether listing it failed. It returns an
  error, or whether it asks to skip the directory (\<open>filepath.SkipDir\<close>), and the state. After a file
  that asks to skip, the rest of its directory is skipped.
\<close>

type_synonym ('e, 's) visitor = "string list \<Rightarrow> entry \<Rightarrow> bool \<Rightarrow> 's \<Rightarrow> 'e + bool \<times> 's"

fun walkDir :: "('e, 's) visitor \<Rightarrow> string list \<Rightarrow> entry \<Rightarrow> 's \<Rightarrow> 'e + bool \<times> 's"
  and walkEntries :: "('e, 's) visitor \<Rightarrow> string list \<Rightarrow> entry list \<Rightarrow> 's \<Rightarrow> 'e + bool \<times> 's" where
  "walkDir fn path (File n c) st = fn path (File n c) False st"
| "walkDir fn path (Dir n None) st =
     (case fn path (Dir n None) False st of
        Inl e \<Rightarrow> Inl e
      | Inr (skip, st1) \<Rightarrow>
          if skip then Inr (False, st1)
          else map_sum id (\<lambda>(skip2, st2). (False, st2)) (fn path (Dir n None) True st1))"
| "walkDir fn path (Dir n (Some es)) st =
     (case fn path (Dir n (Some es)) False st of
        Inl e \<Rightarrow> Inl e
      | Inr (skip, st1) \<Rightarrow> if skip then Inr (False, st1) else walkEntries fn path es st1)"
| "walkEntries fn path [] st = Inr (False, st)"
| "walkEntries fn path (e # es) st =
     (case walkDir fn (path @ [treeName e]) e st of
        Inl err \<Rightarrow> Inl err
      | Inr (skip, st1) \<Rightarrow> if skip then Inr (False, st1) else walkEntries fn path es st1)"

definition walkFrom :: "('e, 's) visitor \<Rightarrow> entry \<Rightarrow> 's \<Rightarrow> 'e + 's" where
  "walkFrom fn root st = map_sum id snd (walkDir fn [] root st)"

section \<open>Rule files\<close>

definition isRuleFile :: "string \<Rightarrow> bool" where
  "isRuleFile name \<longleftrightarrow>
     name = ''otelc.yml'' \<or> name = ''otelc.yaml'' \<or> hasSuffix name ''.otelc.yml'' \<or> hasSuffix name ''.otelc.yaml''"

record yamlRule =
  yrTarget :: Target
  yrVersion :: string

record fileReaders =
  rdYaml :: "string \<Rightarrow> ynode list option"
  rdModule :: "string \<Rightarrow> string option"
  rdRule :: "ynode \<Rightarrow> yamlRule option"

datatype treeError =
    Unlistable "string list"
  | Unreadable "string list"
  | NotYaml "string list"
  | BadRuleFile "string list" fileError
  | TooNew "string list" string
  | BadEntry "string list" string
  | BadTarget "string list" string targetError
  | BadGoMod "string list"

definition rulesVisitor :: "bool \<Rightarrow> (treeError, string list list) visitor" where
  "rulesVisitor skipSubmodules p d failed filesToProcess =
     (if failed then Inl (Unlistable p)
      else if skipSubmodules \<and> isDir d \<and> p \<noteq> [] \<and> hasEntry d ''go.mod'' then Inr (True, filesToProcess)
      else if \<not> isDir d \<and> isRuleFile (treeName d) then Inr (False, filesToProcess @ [p])
      else Inr (False, filesToProcess))"

definition rulesFromDir :: "entry \<Rightarrow> bool \<Rightarrow> treeError + string list list" where
  "rulesFromDir root skipSubmodules = walkFrom (rulesVisitor skipSubmodules) root []"

text \<open>
  The start of every reader of a rule file: its content is parsed (\<open>ParseFile\<close>) and its minimum
  version checked (\<open>checkRuleFileVersion\<close>).
\<close>

definition checkRuleFileVersion :: "ruleLibs \<Rightarrow> string list \<Rightarrow> ruleFile \<Rightarrow> string \<Rightarrow> treeError + ruleFile" where
  "checkRuleFileVersion L p doc current =
     (if checkVersion (semverValid L) (isPseudoVersion L) (semverCompare L) current (minimumVersion doc) then Inr doc
      else Inl (TooNew p (minimumVersion doc)))"

definition readRuleFile ::
    "fileReaders \<Rightarrow> ruleLibs \<Rightarrow> string \<Rightarrow> string list \<Rightarrow> string option \<Rightarrow> treeError + ruleFile" where
  "readRuleFile R L current p content =
     (case content of
        None \<Rightarrow> Inl (Unreadable p)
      | Some data \<Rightarrow>
          (case rdYaml R data of
             None \<Rightarrow> Inl (NotYaml p)
           | Some nodes \<Rightarrow>
               (case parseFile L nodes of
                  Inl e \<Rightarrow> Inl (BadRuleFile p e)
                | Inr doc \<Rightarrow> checkRuleFileVersion L p doc current)))"

fun decodeEntries ::
    "fileReaders \<Rightarrow> ruleLibs \<Rightarrow> string list \<Rightarrow> ruleEntry list \<Rightarrow> treeError + yamlRule list" where
  "decodeEntries R L p [] = Inr []"
| "decodeEntries R L p (e # es) =
     (case rdRule R (entryNode e) of
        None \<Rightarrow> Inl (BadEntry p (entryName e))
      | Some r \<Rightarrow>
          if isZero (yrTarget r) then decodeEntries R L p es
          else case targetValidate (validGlob L) (yrTarget r) of
                 Some err \<Rightarrow> Inl (BadTarget p (entryName e) err)
               | None \<Rightarrow> map_sum id (Cons r) (decodeEntries R L p es))"

definition fileYamlRules ::
    "fileReaders \<Rightarrow> ruleLibs \<Rightarrow> string \<Rightarrow> string list \<Rightarrow> string option \<Rightarrow> treeError + yamlRule list" where
  "fileYamlRules R L current p content =
     (case readRuleFile R L current p content of
        Inl e \<Rightarrow> Inl e
      | Inr doc \<Rightarrow> decodeEntries R L p (entries doc))"

section \<open>The rules of a module, pin.go\<close>

type_synonym loadedRules = "(string \<times> yamlRule list) list"

definition rulesOf :: "loadedRules \<Rightarrow> string \<Rightarrow> yamlRule list" where
  "rulesOf loaded m = (case map_of loaded m of None \<Rightarrow> [] | Some rs \<Rightarrow> rs)"

text \<open>\<open>loaded[module] = append(loaded[module], r)\<close> for each \<open>r\<close>\<close>

definition appendYamlRule :: "string \<Rightarrow> yamlRule \<Rightarrow> loadedRules \<Rightarrow> loadedRules" where
  "appendYamlRule m r loaded = AList.update m (rulesOf loaded m @ [r]) loaded"

definition moduleVisitor ::
    "fileReaders \<Rightarrow> ruleLibs \<Rightarrow> string \<Rightarrow> string \<Rightarrow> string list \<Rightarrow> (treeError, loadedRules) visitor" where
  "moduleVisitor R L current m base p d failed loaded =
     (if failed then Inl (Unlistable (base @ p))
      else case d of
        Dir n es \<Rightarrow> Inr (p \<noteq> [] \<and> hasEntry d ''go.mod'', loaded)
      | File n content \<Rightarrow>
          if \<not> isRuleFile n then Inr (False, loaded)
          else case fileYamlRules R L current (base @ p) content of
                 Inl e \<Rightarrow> Inl e
               | Inr rs \<Rightarrow> Inr (False, fold (appendYamlRule m) rs loaded))"

text \<open>\<open>base\<close> is the path of the module below the root of the outer walk.\<close>

definition loadModuleRules ::
    "fileReaders \<Rightarrow> ruleLibs \<Rightarrow> string \<Rightarrow> string list \<Rightarrow> entry \<Rightarrow> string \<Rightarrow> loadedRules \<Rightarrow> treeError + loadedRules" where
  "loadModuleRules R L current base moduleDir m loaded =
     walkFrom (moduleVisitor R L current m base) moduleDir loaded"

fun treeAt :: "entry \<Rightarrow> string list \<Rightarrow> entry option" where
  "treeAt e [] = Some e"
| "treeAt e (n # p) = (case List.find (\<lambda>c. treeName c = n) (children e) of None \<Rightarrow> None | Some c \<Rightarrow> treeAt c p)"

definition minimalVisitor ::
    "fileReaders \<Rightarrow> ruleLibs \<Rightarrow> string \<Rightarrow> entry \<Rightarrow> (treeError, loadedRules) visitor" where
  "minimalVisitor R L current rulesRoot p d failed loaded =
     (if failed then Inl (Unlistable p)
      else case d of
        Dir n es \<Rightarrow> Inr (False, loaded)
      | File n content \<Rightarrow>
          if n \<noteq> ''go.mod'' \<or> length p \<le> 1 then Inr (False, loaded)
          else case (content, treeAt rulesRoot (butlast p)) of
                 (Some data, Some moduleDir) \<Rightarrow>
                   (case rdModule R data of
                      None \<Rightarrow> Inl (BadGoMod p)
                    | Some m \<Rightarrow> map_sum id (Pair False) (loadModuleRules R L current (butlast p) moduleDir m loaded))
               | _ \<Rightarrow> Inl (Unreadable p))"

definition loadMinimalRules :: "fileReaders \<Rightarrow> ruleLibs \<Rightarrow> entry \<Rightarrow> string \<Rightarrow> treeError + loadedRules" where
  "loadMinimalRules R L rulesRoot current = walkFrom (minimalVisitor R L current rulesRoot) rulesRoot []"
section \<open>What a walk visits\<close>

text \<open>The entries outside the skipped directories, in the order of the walk\<close>

fun pruned :: "(string list \<Rightarrow> entry \<Rightarrow> bool) \<Rightarrow> string list \<Rightarrow> entry \<Rightarrow> (string list \<times> entry) list"
  and prunedAll :: "(string list \<Rightarrow> entry \<Rightarrow> bool) \<Rightarrow> string list \<Rightarrow> entry list \<Rightarrow> (string list \<times> entry) list" where
  "pruned skip p (File n c) = [(p, File n c)]"
| "pruned skip p (Dir n None) = (if skip p (Dir n None) then [] else [(p, Dir n None)])"
| "pruned skip p (Dir n (Some es)) =
     (if skip p (Dir n (Some es)) then [] else (p, Dir n (Some es)) # prunedAll skip p es)"
| "prunedAll skip p [] = []"
| "prunedAll skip p (e # es) = pruned skip (p @ [treeName e]) e @ prunedAll skip p es"

text \<open>A callback that skips some directories, acts on everything else and reports failed listings\<close>

definition actOn :: "(string list \<Rightarrow> entry \<Rightarrow> 's \<Rightarrow> 'e + 's) \<Rightarrow> (string list \<Rightarrow> 'e) \<Rightarrow> string list \<times> entry \<Rightarrow> 's \<Rightarrow> 'e + 's" where
  "actOn act bad = (\<lambda>(p, d) st. case act p d st of
     Inl e \<Rightarrow> Inl e | Inr st' \<Rightarrow> if unlisted d then Inl (bad p) else Inr st')"

definition visitsBy ::
    "('e, 's) visitor \<Rightarrow> (string list \<Rightarrow> entry \<Rightarrow> bool) \<Rightarrow> (string list \<Rightarrow> entry \<Rightarrow> 's \<Rightarrow> 'e + 's) \<Rightarrow> (string list \<Rightarrow> 'e) \<Rightarrow> bool" where
  "visitsBy fn skip act bad \<longleftrightarrow> (\<forall>p d failed st. fn p d failed st =
     (if failed then Inl (bad p) else if isDir d \<and> skip p d then Inr (True, st)
      else map_sum id (Pair False) (act p d st)))"

lemma walk_pruned:
  assumes "visitsBy fn skip act bad"
  shows "walkDir fn p e st = map_sum id (Pair False) (foldOK (actOn act bad) (pruned skip p e) st)"
    and "walkEntries fn p es st = map_sum id (Pair False) (foldOK (actOn act bad) (prunedAll skip p es) st)"
  using assms
proof (induction fn p e st and fn p es st rule: walkDir_walkEntries.induct)
  case (5 fn p e es st)
  then show ?case by (auto simp: foldOK_append split: sum.splits)
qed (auto simp: visitsBy_def isDir_def actOn_def unlisted_def split: sum.splits)

lemma walkFrom_pruned:
  "visitsBy fn skip act bad \<Longrightarrow> walkFrom fn root st = foldOK (actOn act bad) (pruned skip [] root) st"
  by (cases "foldOK (actOn act bad) (pruned skip [] root) st") (auto simp: walkFrom_def walk_pruned)

section \<open>Looking up a path\<close>

fun wfTree :: "entry \<Rightarrow> bool" where
  "wfTree (File n c) = True"
| "wfTree (Dir n None) = True"
| "wfTree (Dir n (Some es)) = (distinct (map treeName es) \<and> (\<forall>e \<in> set es. wfTree e))"

definition child :: "entry \<Rightarrow> string \<Rightarrow> entry option" where
  "child e n = List.find (\<lambda>c. treeName c = n) (children e)"

lemma treeAt_Cons: "treeAt e (n # p) = (case child e n of None \<Rightarrow> None | Some c \<Rightarrow> treeAt c p)"
  by (simp add: child_def)

lemma find_key: "distinct (map f xs) \<Longrightarrow> List.find (\<lambda>x. f x = k) xs = Some y \<longleftrightarrow> y \<in> set xs \<and> f y = k"
  by (induction xs) auto

lemma child_iff: "wfTree e \<Longrightarrow> child e n = Some c \<longleftrightarrow> c \<in> set (children e) \<and> treeName c = n"
  unfolding child_def by (rule find_key) (cases e rule: wfTree.cases, auto simp: children_def)

text \<open>The entry at a path, if no directory on the way to it is skipped\<close>

fun reached :: "(string list \<Rightarrow> entry \<Rightarrow> bool) \<Rightarrow> string list \<Rightarrow> entry \<Rightarrow> string list \<Rightarrow> entry option" where
  "reached skip base e [] = (if isDir e \<and> skip base e then None else Some e)"
| "reached skip base e (n # q) =
     (if isDir e \<and> skip base e then None
      else case child e n of None \<Rightarrow> None | Some c \<Rightarrow> reached skip (base @ [n]) c q)"

lemma prunedAll_set: "set (prunedAll skip p es) = (\<Union>e \<in> set es. set (pruned skip (p @ [treeName e]) e))"
  by (induction es) auto

lemma wf_child: "wfTree e \<Longrightarrow> c \<in> set (children e) \<Longrightarrow> wfTree c"
  by (cases e rule: wfTree.cases) (auto simp: children_def)

lemma pruned_children:
  "set (pruned skip p e) = (if isDir e \<and> skip p e then {} else
     insert (p, e) (\<Union>c \<in> set (children e). set (pruned skip (p @ [treeName c]) c)))"
  by (cases e rule: wfTree.cases) (auto simp: isDir_def children_def prunedAll_set)

lemma size_child: "c \<in> set (children e) \<Longrightarrow> size c < size e"
  by (cases e rule: wfTree.cases) (auto simp: children_def dest!: size_list_estimation' [OF _ order_refl, of _ _ size])

lemma pruned_reached:
  "wfTree e \<Longrightarrow> set (pruned skip base e) = {(base @ q, x) | q x. reached skip base e q = Some x}"
proof (induction e arbitrary: base rule: measure_induct_rule [of size])
  case (less e)
  show ?case
  proof (cases "isDir e \<and> skip base e")
    case True
    then have "reached skip base e q = None" for q by (cases q) auto
    then show ?thesis using True pruned_children [of skip base e] by simp
  next
    case False
    have kids: "set (pruned skip (base @ [treeName c]) c) =
        {(base @ treeName c # q, x) | q x. reached skip (base @ [treeName c]) c q = Some x}"
      if "c \<in> set (children e)" for c
      using less.IH [OF size_child [OF that] wf_child [OF less.prems that], of "base @ [treeName c]"] by simp
    have step: "reached skip base e q = Some x \<longleftrightarrow> (q = [] \<and> x = e) \<or>
        (\<exists>c \<in> set (children e). \<exists>q'. q = treeName c # q' \<and> reached skip (base @ [treeName c]) c q' = Some x)" for q x
    proof (cases q)
      case Nil
      then show ?thesis using False by auto
    next
      case (Cons n q')
      have "child e (treeName c) = Some c" if "c \<in> set (children e)" for c
        using that child_iff [OF less.prems] by blast
      then show ?thesis
        using False Cons child_iff [OF less.prems, of n] by (fastforce split: option.splits)
    qed
    show ?thesis
      unfolding pruned_children [of skip base e] step using False kids by auto
  qed
qed
section \<open>Modules\<close>

text \<open>The entry at a path that leads through no module below the root\<close>

fun inModule :: "entry \<Rightarrow> string list \<Rightarrow> entry option" where
  "inModule e [] = Some e"
| "inModule e (n # q) =
     (case child e n of
        None \<Rightarrow> None
      | Some c \<Rightarrow> if hasEntry c ''go.mod'' then None else inModule c q)"

definition isSubmodule :: "string list \<Rightarrow> entry \<Rightarrow> bool" where
  "isSubmodule p d \<longleftrightarrow> p \<noteq> [] \<and> hasEntry d ''go.mod''"

lemma hasEntry_isDir: "hasEntry e n \<Longrightarrow> isDir e"
  by (cases e) (auto simp: hasEntry_def children_def isDir_def)

lemma reached_inModule:
  "base \<noteq> [] \<Longrightarrow> reached isSubmodule base e q = (if hasEntry e ''go.mod'' then None else inModule e q)"
proof (induction q arbitrary: base e)
  case Nil
  then show ?case by (auto simp: isSubmodule_def dest: hasEntry_isDir)
next
  case (Cons n q)
  then show ?case by (auto simp: isSubmodule_def dest: hasEntry_isDir split: option.splits)
qed

lemma reached_module: "reached isSubmodule [] e q = inModule e q"
  by (cases q) (auto simp: isSubmodule_def reached_inModule split: option.splits)

lemma reached_all: "reached (\<lambda>p d. False) base e q = treeAt e q"
  by (induction q arbitrary: base e) (auto simp: child_def split: option.splits)

lemma inModule_treeAt: "inModule e q = Some x \<Longrightarrow> treeAt e q = Some x"
  by (induction e q rule: inModule.induct) (auto simp: child_def split: option.splits if_splits)

lemma treeAt_append: "treeAt e (p @ q) = (case treeAt e p of None \<Rightarrow> None | Some d \<Rightarrow> treeAt d q)"
  by (induction e p rule: treeAt.induct) (auto split: option.splits)

lemma treeAt_wf: "treeAt e p = Some d \<Longrightarrow> wfTree e \<Longrightarrow> wfTree d"
proof (induction e p rule: treeAt.induct)
  case (2 e n p)
  then obtain c where c: "child e n = Some c" "treeAt c p = Some d"
    by (auto simp: child_def split: option.splits)
  then have "wfTree c" using child_iff wf_child 2(3) by blast
  then show ?case using 2(1) c by (simp add: child_def)
qed simp

section \<open>The rule files of a module\<close>

definition rulesAct :: "string list \<Rightarrow> entry \<Rightarrow> string list list \<Rightarrow> treeError + string list list" where
  "rulesAct p d fs = Inr (if \<not> isDir d \<and> isRuleFile (treeName d) then fs @ [p] else fs)"

lemma rulesVisitor_visits: "visitsBy (rulesVisitor skip) (\<lambda>p d. skip \<and> isSubmodule p d) rulesAct Unlistable"
  by (auto simp: visitsBy_def rulesVisitor_def rulesAct_def isSubmodule_def)

lemma foldOK_Cons: "foldOK f (x # xs) s = Inr s' \<longleftrightarrow> (\<exists>s1. f x s = Inr s1 \<and> foldOK f xs s1 = Inr s')"
  by (auto split: sum.splits)

lemma actOn_Inr: "actOn act bad (p, d) s = Inr s' \<longleftrightarrow> act p d s = Inr s' \<and> \<not> unlisted d"
  by (auto simp: actOn_def split: sum.splits)

lemma foldOK_rules:
  "foldOK (actOn rulesAct Unlistable) xs fs = Inr fs' \<Longrightarrow>
     fs' = fs @ map fst (filter (\<lambda>(p, d). \<not> isDir d \<and> isRuleFile (treeName d)) xs)"
proof (induction xs arbitrary: fs)
  case (Cons x xs)
  obtain p d where x: "x = (p, d)" by (cases x)
  have "foldOK (actOn rulesAct Unlistable) xs (if \<not> isDir d \<and> isRuleFile (treeName d) then fs @ [p] else fs) = Inr fs'"
    using Cons.prems unfolding x foldOK_Cons actOn_Inr by (auto simp: rulesAct_def)
  from Cons.IH [OF this] show ?case by (simp add: x)
qed simp

text \<open>The rule files of a module: those its directory holds outside the modules below it\<close>

lemma rulesFromDir_iff:
  assumes "rulesFromDir root True = Inr fs" and "wfTree root"
  shows "q \<in> set fs \<longleftrightarrow> (\<exists>n c. inModule root q = Some (File n c) \<and> isRuleFile n)"
proof -
  have "foldOK (actOn rulesAct Unlistable) (pruned isSubmodule [] root) [] = Inr fs"
    using assms(1) walkFrom_pruned [OF rulesVisitor_visits [of True], of root "[]"]
    by (simp add: rulesFromDir_def isSubmodule_def [abs_def])
  from foldOK_rules [OF this]
  have "q \<in> set fs \<longleftrightarrow> (\<exists>x. (q, x) \<in> set (pruned isSubmodule [] root) \<and> \<not> isDir x \<and> isRuleFile (treeName x))"
    by force
  also have "\<dots> \<longleftrightarrow> (\<exists>x. inModule root q = Some x \<and> \<not> isDir x \<and> isRuleFile (treeName x))"
    unfolding pruned_reached [OF assms(2)] reached_module by simp
  also have "\<dots> \<longleftrightarrow> (\<exists>n c. inModule root q = Some (File n c) \<and> isRuleFile n)"
  proof -
    have e: "(\<not> isDir x \<and> isRuleFile (treeName x)) \<longleftrightarrow> (\<exists>n c. x = File n c \<and> isRuleFile n)" for x
      by (cases x) (auto simp: isDir_def)
    show ?thesis unfolding e by auto
  qed
  finally show ?thesis .
qed

lemma fold_appendYamlRule:
  "rulesOf (fold (appendYamlRule m) rs loaded) m' = rulesOf loaded m' @ (if m' = m then rs else [])"
proof (induction rs arbitrary: loaded)
  case (Cons r rs)
  have "rulesOf (appendYamlRule m r loaded) m' = rulesOf loaded m' @ (if m' = m then [r] else [])"
    by (simp add: rulesOf_def appendYamlRule_def update_conv')
  then show ?case using Cons by simp
qed simp

definition moduleAct ::
    "fileReaders \<Rightarrow> ruleLibs \<Rightarrow> string \<Rightarrow> string \<Rightarrow> string list \<Rightarrow> string list \<Rightarrow> entry \<Rightarrow> loadedRules \<Rightarrow> treeError + loadedRules" where
  "moduleAct R L current m base p d loaded =
     (case d of
        Dir n es \<Rightarrow> Inr loaded
      | File n content \<Rightarrow>
          if \<not> isRuleFile n then Inr loaded
          else map_sum id (\<lambda>rs. fold (appendYamlRule m) rs loaded) (fileYamlRules R L current (base @ p) content))"

lemma moduleVisitor_visits:
  "visitsBy (moduleVisitor R L current m base) isSubmodule (moduleAct R L current m base) (\<lambda>p. Unlistable (base @ p))"
  by (auto simp: visitsBy_def moduleVisitor_def moduleAct_def isSubmodule_def isDir_def split: entry.splits sum.splits)

text \<open>The rules of the file at a path\<close>

definition fileRulesAt ::
    "fileReaders \<Rightarrow> ruleLibs \<Rightarrow> string \<Rightarrow> string list \<Rightarrow> entry \<Rightarrow> yamlRule list" where
  "fileRulesAt R L current p d =
     (case d of
        Dir n es \<Rightarrow> []
      | File n content \<Rightarrow>
          if \<not> isRuleFile n then []
          else case fileYamlRules R L current p content of Inl e \<Rightarrow> [] | Inr rs \<Rightarrow> rs)"

lemma foldOK_module:
  "foldOK (actOn (moduleAct R L current m base) bad) xs loaded = Inr loaded' \<Longrightarrow>
     rulesOf loaded' m' = rulesOf loaded m' @
       (if m' = m then concat (map (\<lambda>(p, d). fileRulesAt R L current (base @ p) d) xs) else [])"
proof (induction xs arbitrary: loaded)
  case (Cons x xs)
  obtain p d where x: "x = (p, d)" by (cases x)
  obtain l1 where act: "moduleAct R L current m base p d loaded = Inr l1"
    and rest: "foldOK (actOn (moduleAct R L current m base) bad) xs l1 = Inr loaded'"
    using Cons.prems unfolding x foldOK_Cons actOn_Inr by blast
  have "rulesOf l1 m' = rulesOf loaded m' @ (if m' = m then fileRulesAt R L current (base @ p) d else [])"
    using act by (auto simp: moduleAct_def fileRulesAt_def fold_appendYamlRule split: entry.splits if_splits sum.splits)
  then show ?case using Cons.IH [OF rest] x by simp
qed simp

lemma loadModuleRules_iff:
  assumes "loadModuleRules R L current base d m loaded = Inr loaded'" and "wfTree d"
  shows "r \<in> set (rulesOf loaded' m') \<longleftrightarrow> r \<in> set (rulesOf loaded m') \<or>
     (m' = m \<and> (\<exists>q x. inModule d q = Some x \<and> r \<in> set (fileRulesAt R L current (base @ q) x)))"
proof -
  have "foldOK (actOn (moduleAct R L current m base) (\<lambda>p. Unlistable (base @ p))) (pruned isSubmodule [] d) loaded = Inr loaded'"
    using assms(1) unfolding loadModuleRules_def walkFrom_pruned [OF moduleVisitor_visits] .
  from foldOK_module [OF this, of m']
  have "r \<in> set (rulesOf loaded' m') \<longleftrightarrow> r \<in> set (rulesOf loaded m') \<or>
     (m' = m \<and> (\<exists>q x. (q, x) \<in> set (pruned isSubmodule [] d) \<and> r \<in> set (fileRulesAt R L current (base @ q) x)))"
    by force
  then show ?thesis
    unfolding pruned_reached [OF assms(2)] reached_module by simp
qed
section \<open>The module of a file\<close>

text \<open>The module that the \<open>go.mod\<close> of a directory names\<close>

definition moduleName :: "fileReaders \<Rightarrow> entry \<Rightarrow> string option" where
  "moduleName R d = (case child d ''go.mod'' of Some (File n (Some data)) \<Rightarrow> rdModule R data | _ \<Rightarrow> None)"

text \<open>The module of the nearest directory above a path that has a \<open>go.mod\<close>; \<open>cur\<close> is that of the root\<close>

fun owner :: "fileReaders \<Rightarrow> string option \<Rightarrow> entry \<Rightarrow> string list \<Rightarrow> string option" where
  "owner R cur e [] = cur"
| "owner R cur e (n # q) =
     (case child e n of
        None \<Rightarrow> None
      | Some c \<Rightarrow> owner R (if hasEntry c ''go.mod'' then moduleName R c else cur) c q)"

lemma moduleName_hasEntry: "moduleName R d = Some m \<Longrightarrow> hasEntry d ''go.mod''"
  by (auto simp: moduleName_def hasEntry_def child_def list_ex_iff find_Some_iff split: option.splits)

lemma owner_iff:
  "treeAt e q \<noteq> None \<Longrightarrow> owner R cur e q = Some m \<longleftrightarrow>
     (\<exists>b q' d. q = b @ q' \<and> b \<noteq> [] \<and> treeAt e b = Some d \<and> moduleName R d = Some m \<and> inModule d q' \<noteq> None) \<or>
     (cur = Some m \<and> inModule e q \<noteq> None)"
proof (induction q arbitrary: e cur)
  case Nil
  then show ?case by simp
next
  case (Cons n q)
  then obtain c where c: "child e n = Some c" and at: "treeAt c q \<noteq> None"
    by (auto simp: treeAt_Cons simp del: treeAt.simps(2) split: option.splits)
  let ?cur = "if hasEntry c ''go.mod'' then moduleName R c else cur"
  have split: "(\<exists>b q' d. n # q = b @ q' \<and> b \<noteq> [] \<and> treeAt e b = Some d \<and> P d q') \<longleftrightarrow>
      P c q \<or> (\<exists>b q' d. q = b @ q' \<and> b \<noteq> [] \<and> treeAt c b = Some d \<and> P d q')" for P
  proof -
    have "(\<exists>b q' d. n # q = b @ q' \<and> b \<noteq> [] \<and> treeAt e b = Some d \<and> P d q') \<longleftrightarrow>
        (\<exists>b q' d. q = b @ q' \<and> treeAt c b = Some d \<and> P d q')"
    proof
      assume "\<exists>b q' d. n # q = b @ q' \<and> b \<noteq> [] \<and> treeAt e b = Some d \<and> P d q'"
      then obtain b q' d where b: "n # q = b @ q'" "b \<noteq> []" "treeAt e b = Some d" "P d q'" by blast
      then obtain b' where "b = n # b'" "q = b' @ q'" by (cases b) auto
      then show "\<exists>b q' d. q = b @ q' \<and> treeAt c b = Some d \<and> P d q'"
        using b c by (auto simp: treeAt_Cons simp del: treeAt.simps(2))
    next
      assume "\<exists>b q' d. q = b @ q' \<and> treeAt c b = Some d \<and> P d q'"
      then obtain b q' d where b: "q = b @ q'" "treeAt c b = Some d" "P d q'" by blast
      then have "n # q = (n # b) @ q'" "treeAt e (n # b) = Some d"
        using c by (simp_all add: treeAt_Cons del: treeAt.simps(2))
      then show "\<exists>b q' d. n # q = b @ q' \<and> b \<noteq> [] \<and> treeAt e b = Some d \<and> P d q'"
        using b(3) by blast
    qed
    also have "\<dots> \<longleftrightarrow> P c q \<or> (\<exists>b q' d. q = b @ q' \<and> b \<noteq> [] \<and> treeAt c b = Some d \<and> P d q')"
      by (metis append_Nil treeAt.simps(1) option.inject)
    finally show ?thesis .
  qed
  have "owner R cur e (n # q) = Some m \<longleftrightarrow>
      (\<exists>b q' d. q = b @ q' \<and> b \<noteq> [] \<and> treeAt c b = Some d \<and> moduleName R d = Some m \<and> inModule d q' \<noteq> None) \<or>
      (?cur = Some m \<and> inModule c q \<noteq> None)"
    using Cons.IH [OF at, of ?cur] c by simp
  moreover have "inModule e (n # q) = (if hasEntry c ''go.mod'' then None else inModule c q)"
    using c by simp
  ultimately show ?case
    unfolding split using moduleName_hasEntry [of R c m] by auto
qed

section \<open>All modules\<close>

definition minimalAct ::
    "fileReaders \<Rightarrow> ruleLibs \<Rightarrow> string \<Rightarrow> entry \<Rightarrow> string list \<Rightarrow> entry \<Rightarrow> loadedRules \<Rightarrow> treeError + loadedRules" where
  "minimalAct R L current root p d loaded = map_sum id snd (minimalVisitor R L current root p d False loaded)"

lemma minimalVisitor_visits:
  "visitsBy (minimalVisitor R L current root) (\<lambda>p d. False) (minimalAct R L current root) Unlistable"
  by (auto simp: visitsBy_def minimalAct_def minimalVisitor_def sum.map_comp comp_def id_def split: entry.splits option.splits sum.splits)

definition ruleOf ::
    "fileReaders \<Rightarrow> ruleLibs \<Rightarrow> string \<Rightarrow> string list \<Rightarrow> entry \<Rightarrow> yamlRule \<Rightarrow> bool" where
  "ruleOf R L current b d r \<longleftrightarrow> (\<exists>q x. inModule d q = Some x \<and> r \<in> set (fileRulesAt R L current (b @ q) x))"

definition contributes ::
    "fileReaders \<Rightarrow> ruleLibs \<Rightarrow> string \<Rightarrow> entry \<Rightarrow> string \<Rightarrow> yamlRule \<Rightarrow> string list \<Rightarrow> entry \<Rightarrow> bool" where
  "contributes R L current root m r p x \<longleftrightarrow>
     (\<exists>data d. x = File ''go.mod'' (Some data) \<and> 1 < length p \<and> treeAt root (butlast p) = Some d \<and>
        rdModule R data = Some m \<and> ruleOf R L current (butlast p) d r)"

lemma minimalAct_iff:
  assumes "minimalAct R L current root p x loaded = Inr loaded'" and "wfTree root"
  shows "r \<in> set (rulesOf loaded' m) \<longleftrightarrow> r \<in> set (rulesOf loaded m) \<or> contributes R L current root m r p x"
proof (cases "\<exists>data. x = File ''go.mod'' (Some data) \<and> 1 < length p")
  case False
  then have "loaded' = loaded"
    using assms(1) by (auto simp: minimalAct_def minimalVisitor_def split: entry.splits if_splits option.splits)
  then show ?thesis using False by (auto simp: contributes_def)
next
  case True
  then obtain data where x: "x = File ''go.mod'' (Some data)" and len: "1 < length p" by blast
  then obtain d m0 where d: "treeAt root (butlast p) = Some d" and m0: "rdModule R data = Some m0"
    and load: "loadModuleRules R L current (butlast p) d m0 loaded = Inr loaded'"
    using assms(1) by (auto simp: minimalAct_def minimalVisitor_def sum.map_comp comp_def split: option.splits sum.splits)
  have "wfTree d" by (rule treeAt_wf [OF d assms(2)])
  from loadModuleRules_iff [OF load this] show ?thesis
    using x len d m0 by (auto simp: contributes_def ruleOf_def)
qed

lemma foldOK_minimal:
  assumes "foldOK (actOn (minimalAct R L current root) bad) xs loaded = Inr loaded'" and "wfTree root"
  shows "r \<in> set (rulesOf loaded' m) \<longleftrightarrow> r \<in> set (rulesOf loaded m) \<or>
     (\<exists>(p, x) \<in> set xs. contributes R L current root m r p x)"
  using assms(1)
proof (induction xs arbitrary: loaded)
  case Nil
  then show ?case by simp
next
  case (Cons y xs)
  obtain p x where y: "y = (p, x)" by (cases y)
  obtain l1 where act: "minimalAct R L current root p x loaded = Inr l1"
    and rest: "foldOK (actOn (minimalAct R L current root) bad) xs l1 = Inr loaded'"
    using Cons.prems unfolding y foldOK_Cons actOn_Inr by blast
  show ?case unfolding Cons.IH [OF rest] minimalAct_iff [OF act assms(2)] by (auto simp: y)
qed

lemma child_name: "child e n = Some c \<Longrightarrow> treeName c = n"
  unfolding child_def by (metis (mono_tags, lifting) find_Some_iff)

lemma treeAt_name: "treeAt e p = Some x \<Longrightarrow> p \<noteq> [] \<Longrightarrow> treeName x = last p"
proof (induction p arbitrary: e)
  case (Cons n p)
  then obtain c where c: "child e n = Some c" "treeAt c p = Some x"
    by (auto simp: treeAt_Cons simp del: treeAt.simps(2) split: option.splits)
  moreover have "treeName c = n" by (rule child_name [OF c(1)])
  ultimately show ?case using Cons.IH by (cases p) auto
qed simp

lemma contributes_iff:
  "(\<exists>p x. treeAt root p = Some x \<and> contributes R L current root m r p x) \<longleftrightarrow>
   (\<exists>b d. b \<noteq> [] \<and> treeAt root b = Some d \<and> moduleName R d = Some m \<and> ruleOf R L current b d r)"
proof
  assume "\<exists>p x. treeAt root p = Some x \<and> contributes R L current root m r p x"
  then obtain p data d where at: "treeAt root p = Some (File ''go.mod'' (Some data))" and len: "1 < length p"
    and d: "treeAt root (butlast p) = Some d" and m: "rdModule R data = Some m" and r: "ruleOf R L current (butlast p) d r"
    by (auto simp: contributes_def)
  have "p \<noteq> []" using len by auto
  moreover have "last p = ''go.mod''" using treeAt_name [OF at calculation] by simp
  ultimately have "p = butlast p @ [''go.mod'']" by (metis append_butlast_last_id)
  then have "child d ''go.mod'' = Some (File ''go.mod'' (Some data))"
    using at d treeAt_append [of root "butlast p" "[''go.mod'']"] by (auto simp: child_def split: option.splits)
  then have "moduleName R d = Some m" using m by (simp add: moduleName_def)
  moreover have "butlast p \<noteq> []" using len by (cases p rule: rev_cases) auto
  ultimately show "\<exists>b d. b \<noteq> [] \<and> treeAt root b = Some d \<and> moduleName R d = Some m \<and> ruleOf R L current b d r"
    using d r by blast
next
  assume "\<exists>b d. b \<noteq> [] \<and> treeAt root b = Some d \<and> moduleName R d = Some m \<and> ruleOf R L current b d r"
  then obtain b d where b: "b \<noteq> []" "treeAt root b = Some d" "moduleName R d = Some m" "ruleOf R L current b d r"
    by blast
  then obtain n data where data: "child d ''go.mod'' = Some (File n (Some data))" "rdModule R data = Some m"
    by (auto simp: moduleName_def split: option.splits entry.splits)
  moreover have "n = ''go.mod''" using child_name [OF data(1)] by simp
  ultimately have "treeAt root (b @ [''go.mod'']) = Some (File ''go.mod'' (Some data))"
    using b(2) by (simp add: treeAt_append child_def)
  moreover have "contributes R L current root m r (b @ [''go.mod'']) (File ''go.mod'' (Some data))"
    using b data by (cases b) (auto simp: contributes_def)
  ultimately show "\<exists>p x. treeAt root p = Some x \<and> contributes R L current root m r p x" by blast
qed

lemma loadMinimalRules_modules:
  assumes "loadMinimalRules R L root current = Inr loaded" and "wfTree root"
  shows "r \<in> set (rulesOf loaded m) \<longleftrightarrow>
     (\<exists>b d. b \<noteq> [] \<and> treeAt root b = Some d \<and> moduleName R d = Some m \<and> ruleOf R L current b d r)"
proof -
  have "foldOK (actOn (minimalAct R L current root) Unlistable) (pruned (\<lambda>p d. False) [] root) [] = Inr loaded"
    using assms(1) unfolding loadMinimalRules_def walkFrom_pruned [OF minimalVisitor_visits] .
  from foldOK_minimal [OF this assms(2), of r m]
  have "r \<in> set (rulesOf loaded m) \<longleftrightarrow> (\<exists>p x. treeAt root p = Some x \<and> contributes R L current root m r p x)"
    unfolding pruned_reached [OF assms(2)] reached_all by (auto simp: rulesOf_def)
  then show ?thesis unfolding contributes_iff .
qed
lemma fileRulesAt_iff:
  "r \<in> set (fileRulesAt R L current p x) \<longleftrightarrow>
     (\<exists>n content rs. x = File n content \<and> isRuleFile n \<and> fileYamlRules R L current p content = Inr rs \<and> r \<in> set rs)"
proof (cases x)
  case (File n content)
  then show ?thesis by (cases "fileYamlRules R L current p content") (auto simp: fileRulesAt_def)
next
  case (Dir n es)
  then show ?thesis by (simp add: fileRulesAt_def)
qed

section \<open>Properties\<close>

text \<open>
  C10: the rules that pinning knows of a module are the rules, with a target, of the rule files
  whose nearest directory with a \<open>go.mod\<close> belongs to that module. Files above all modules are not
  loaded, and those of a nested module count for it alone.
\<close>

theorem minimal_rules_nearest:
  assumes "loadMinimalRules R L root current = Inr loaded" and "wfTree root"
  shows "r \<in> set (rulesOf loaded m) \<longleftrightarrow>
     (\<exists>q n content rs. treeAt root q = Some (File n content) \<and> isRuleFile n \<and> owner R None root q = Some m \<and>
        fileYamlRules R L current q content = Inr rs \<and> r \<in> set rs)"
proof -
  have "(\<exists>b d. b \<noteq> [] \<and> treeAt root b = Some d \<and> moduleName R d = Some m \<and> ruleOf R L current b d r) \<longleftrightarrow>
      (\<exists>q x. treeAt root q = Some x \<and> owner R None root q = Some m \<and> r \<in> set (fileRulesAt R L current q x))" (is "?l \<longleftrightarrow> ?r")
  proof
    assume ?l
    then obtain b d q x where b: "b \<noteq> []" "treeAt root b = Some d" "moduleName R d = Some m"
      and q: "inModule d q = Some x" "r \<in> set (fileRulesAt R L current (b @ q) x)"
      by (auto simp: ruleOf_def)
    have at: "treeAt root (b @ q) = Some x" using b(2) inModule_treeAt [OF q(1)] by (simp add: treeAt_append)
    moreover have "owner R None root (b @ q) = Some m"
    proof (subst owner_iff)
      show "treeAt root (b @ q) \<noteq> None" by (simp add: at)
    qed (use b q in blast)
    ultimately show ?r using q(2) by blast
  next
    assume ?r
    then obtain q x where at: "treeAt root q = Some x" and own: "owner R None root q = Some m"
      and r: "r \<in> set (fileRulesAt R L current q x)"
      by blast
    have "treeAt root q \<noteq> None" using at by simp
    from own [unfolded owner_iff [OF this]] obtain b q' d where
      b: "q = b @ q'" "b \<noteq> []" "treeAt root b = Some d" "moduleName R d = Some m" "inModule d q' \<noteq> None"
      by auto
    then obtain y where y: "inModule d q' = Some y" by blast
    have "y = x" using at b(1,3) inModule_treeAt [OF y] by (simp add: treeAt_append)
    then have "ruleOf R L current b d r" using y r b(1) by (auto simp: ruleOf_def)
    then show ?l using b by blast
  qed
  then show ?thesis
    unfolding loadMinimalRules_modules [OF assms, of r m] fileRulesAt_iff by blast
qed

text \<open>
  The files whose rules pinning takes for a module are those that setup finds when it walks the
  directory of the module.
\<close>

lemma module_rule_files:
  assumes "loadMinimalRules R L root current = Inr loaded" and "wfTree root"
    and b: "b \<noteq> []" "treeAt root b = Some d" "moduleName R d = Some m"
    and one: "\<And>b' d'. treeAt root b' = Some d' \<Longrightarrow> moduleName R d' = Some m \<Longrightarrow> b' = b"
    and files: "rulesFromDir d True = Inr files"
  shows "r \<in> set (rulesOf loaded m) \<longleftrightarrow>
     (\<exists>q \<in> set files. \<exists>n content rs. treeAt d q = Some (File n content) \<and>
        fileYamlRules R L current (b @ q) content = Inr rs \<and> r \<in> set rs)"
proof -
  have wf: "wfTree d" by (rule treeAt_wf [OF b(2) assms(2)])
  have "r \<in> set (rulesOf loaded m) \<longleftrightarrow> ruleOf R L current b d r"
    unfolding loadMinimalRules_modules [OF assms(1,2), of r m] using b one by (metis option.inject)
  also have "\<dots> \<longleftrightarrow> (\<exists>q n content rs. inModule d q = Some (File n content) \<and> isRuleFile n \<and>
      fileYamlRules R L current (b @ q) content = Inr rs \<and> r \<in> set rs)"
    unfolding ruleOf_def fileRulesAt_iff by blast
  also have "\<dots> \<longleftrightarrow> (\<exists>q \<in> set files. \<exists>n content rs. treeAt d q = Some (File n content) \<and>
        fileYamlRules R L current (b @ q) content = Inr rs \<and> r \<in> set rs)"
    (is "?l \<longleftrightarrow> ?r")
  proof
    assume ?l
    then show ?r using rulesFromDir_iff [OF files wf] inModule_treeAt by meson
  next
    assume ?r
    then obtain q n content rs where q: "q \<in> set files" "treeAt d q = Some (File n content)"
      and r: "fileYamlRules R L current (b @ q) content = Inr rs" "r \<in> set rs"
      by blast
    then obtain n' c' where n': "inModule d q = Some (File n' c')" "isRuleFile n'"
      using rulesFromDir_iff [OF files wf, of q] by blast
    then have "File n' c' = File n content" using q(2) inModule_treeAt [OF n'(1)] by simp
    then show ?l using n' r by blast
  qed
  finally show ?thesis .
qed

section \<open>A sample\<close>

definition sampleReaders :: fileReaders where
  "sampleReaders = \<lparr>rdYaml = \<lambda>s. Some [MappingNode [ScalarNode ''!!str'' s, MappingNode []]],
     rdModule = \<lambda>s. Some s, rdRule = \<lambda>n. Some \<lparr>yrTarget = newTarget [''net/http''], yrVersion = []\<rparr>\<rparr>"

definition sampleTree :: entry where
  "sampleTree = Dir ''instrumentation'' (Some
     [File ''go.mod'' (Some ''inst''),
      Dir ''http'' (Some
        [Dir ''client'' (Some [File ''go.mod'' (Some ''inst/http/client''), File ''otelc.yaml'' (Some ''a'')]),
         File ''go.mod'' (Some ''inst/http''),
         File ''server.otelc.yml'' (Some ''b'')]),
      File ''otelc.yml'' (Some ''c'')])"


definition sampleRule1 :: yamlRule where
  "sampleRule1 = \<lparr>yrTarget = newTarget [''net/http''], yrVersion = []\<rparr>"

lemma sample_loaded:
  "loadMinimalRules sampleReaders sampleLibs sampleTree ''v1.0.0'' =
     Inr [(''inst/http/client'', [sampleRule1]), (''inst/http'', [sampleRule1])]"
  by code_simp

theorem minimal_rules_nearest_witness:
  "owner sampleReaders None sampleTree [''http'', ''server.otelc.yml''] = Some ''inst/http'' \<and>
   (\<exists>q n content. treeAt sampleTree q = Some (File n content) \<and> owner sampleReaders None sampleTree q = Some ''inst/http'')"
proof
  show "owner sampleReaders None sampleTree [''http'', ''server.otelc.yml''] = Some ''inst/http''" by code_simp
  have "wfTree sampleTree" by code_simp
  moreover have "sampleRule1 \<in> set (rulesOf [(''inst/http/client'', [sampleRule1]), (''inst/http'', [sampleRule1])] ''inst/http'')"
    by (simp add: rulesOf_def)
  ultimately show "\<exists>q n content. treeAt sampleTree q = Some (File n content) \<and> owner sampleReaders None sampleTree q = Some ''inst/http''"
    using minimal_rules_nearest [OF sample_loaded] by blast
qed

end
