(* ===== verification/Import_Config.thy ===== *)
theory Import_Config
  imports Codec "HOL-Library.Char_ord" "HOL-Library.List_Lexorder"
begin

text \<open>
  The importcfg files of the Go compiler and linker (\<open>tool/internal/imports/importcfg.go\<close>): reading
  and writing them.

  A Go map with string keys is its list of entries in the order of the keys, so that equal maps
  are equal lists; \<open>putKey\<close> assigns an entry. A line longer than the scanner allows is an error,
  \<open>None\<close>; opening and writing files is not modelled here.

  Shown: what was written is read back, for every configuration that reading can produce.
\<close>

section \<open>Maps with string keys\<close>

type_synonym 'v keyMap = "(string \<times> 'v) list"
type_synonym stringMap = "string keyMap"

fun putKey :: "string \<Rightarrow> 'v \<Rightarrow> 'v keyMap \<Rightarrow> 'v keyMap" where
  "putKey k v [] = [(k, v)]"
| "putKey k v ((j, w) # m) =
     (if k < j then (k, v) # (j, w) # m else if k = j then (k, v) # m else (j, w) # putKey k v m)"

definition ordered :: "'v keyMap \<Rightarrow> bool" where
  "ordered m \<longleftrightarrow> sorted_wrt (<) (map fst m)"

lemma map_of_putKey [simp]: "map_of (putKey k v m) = (map_of m)(k \<mapsto> v)"
  by (induction m) (auto simp: fun_upd_twist)

lemma keys_putKey: "fst ` set (putKey k v m) = insert k (fst ` set m)"
  by (induction k v m rule: putKey.induct) (simp_all add: insert_commute)

lemma ordered_putKey: "ordered m \<Longrightarrow> ordered (putKey k v m)"
proof (induction m)
  case Nil
  then show ?case by (simp add: ordered_def)
next
  case (Cons e m)
  obtain j w where e: "e = (j, w)" by (cases e)
  have j: "\<forall>x \<in> fst ` set m. j < x" and m: "ordered m" using Cons.prems e by (auto simp: ordered_def)
  have "\<forall>x \<in> fst ` set (putKey k v m). j < x" if "j < k" using j that by (simp add: keys_putKey)
  moreover have "\<forall>x \<in> fst ` set m. k < x" if "k < j" using j that by (meson less_trans)
  ultimately show ?case using Cons.IH [OF m] j m e
    by (cases k j rule: linorder_cases) (auto simp: ordered_def)
qed

lemma putKey_last: "\<forall>x \<in> fst ` set m. x < k \<Longrightarrow> putKey k v m = m @ [(k, v)]"
  by (induction m) auto

text \<open>Assigning the entries of an ordered list, in order, behind a list of smaller keys\<close>

lemma putKeys_ordered:
  "ordered (m @ n) \<Longrightarrow> foldl (\<lambda>m (k, v). putKey k v m) m n = m @ n"
proof (induction n arbitrary: m)
  case Nil
  then show ?case by simp
next
  case (Cons e n)
  obtain k v where e: "e = (k, v)" by (cases e)
  have "\<forall>x \<in> fst ` set m. x < k" using Cons.prems e by (auto simp: ordered_def sorted_wrt_append)
  with Cons.IH [of "m @ [e]"] Cons.prems e show ?case by (simp add: putKey_last)
qed

lemma set_putKey: "set (putKey k v m) \<subseteq> insert (k, v) (set m)"
  by (induction k v m rule: putKey.induct) auto

section \<open>Parsing and writing\<close>

record importConfig =
  icPackageFile :: stringMap
  icImportMap :: stringMap
  icExtras :: "string list"

definition emptyConfig :: importConfig where
  "emptyConfig = \<lparr>icPackageFile = [], icImportMap = [], icExtras = []\<rparr>"

definition addExtra :: "string \<Rightarrow> importConfig \<Rightarrow> importConfig" where
  "addExtra line c = c\<lparr>icExtras := icExtras c @ [line]\<rparr>"

definition maxImportCfgLineSize :: nat where
  "maxImportCfgLineSize = 10 * 2 ^ 20"

text \<open>\<open>bufio.ScanLines\<close>: without line ends, and without the carriage return in front of one\<close>

definition dropCR :: "string \<Rightarrow> string" where
  "dropCR s = (if s \<noteq> [] \<and> last s = CHR 0x0D then butlast s else s)"

definition rawLines :: "string \<Rightarrow> string list" where
  "rawLines s = (let parts = splitOn (CHR 0x0A) s in if last parts = [] then butlast parts else parts)"

definition parseLine :: "importConfig \<Rightarrow> string \<Rightarrow> importConfig" where
  "parseLine c raw =
     (let line = trimSpace raw
      in if line = [] \<or> hd line = CHR ''#'' then c
         else case strCut line (CHR '' '') of
           (directive, data, found) \<Rightarrow>
             if \<not> found then addExtra line c
             else if directive = ''packagefile'' then
               (case strCut data (CHR ''='') of
                  (importPath, archive, hasEq) \<Rightarrow>
                    if \<not> hasEq then addExtra line c
                    else c\<lparr>icPackageFile := putKey importPath archive (icPackageFile c)\<rparr>)
             else if directive = ''importmap'' then
               (case strCut data (CHR ''='') of
                  (importPath, mappedTo, hasEq) \<Rightarrow>
                    if \<not> hasEq then addExtra line c
                    else c\<lparr>icImportMap := putKey importPath mappedTo (icImportMap c)\<rparr>)
             else addExtra line c)"

definition parseConfig :: "string \<Rightarrow> importConfig option" where
  "parseConfig s =
     (if list_ex (\<lambda>l. maxImportCfgLineSize \<le> length l) (rawLines s) then None
      else Some (foldl parseLine emptyConfig (map dropCR (rawLines s))))"

definition entryLine :: "string \<Rightarrow> stringMap \<Rightarrow> string \<Rightarrow> string" where
  "entryLine directive m name = directive @ '' '' @ name @ ''='' @ the (map_of m name)"

definition configLines :: "importConfig \<Rightarrow> string list" where
  "configLines c =
     map (entryLine ''importmap'' (icImportMap c)) (sort (map fst (icImportMap c))) @
     map (entryLine ''packagefile'' (icPackageFile c)) (sort (map fst (icPackageFile c))) @
     icExtras c"

definition writeConfig :: "importConfig \<Rightarrow> string" where
  "writeConfig c = concat (map (\<lambda>l. l @ [CHR 0x0A]) (configLines c))"

section \<open>White space at the ends of a line\<close>

text \<open>A trimmed string has no space at its ends; a part behind a byte that no space holds inherits this.\<close>

lemma trimRight_id: "trailingSpace s = None \<Longrightarrow> trimRightSpace s = s"
  by (simp add: trimRightSpace.simps [of s])

lemma trimLeft_id: "leadingSpace s = None \<Longrightarrow> trimLeftSpace s = s"
  by (simp add: trimLeftSpace.simps [of s])

lemma trailing_trimRight: "trailingSpace (trimRightSpace s) = None"
proof (induction s rule: trimRightSpace.induct)
  case (1 s)
  then show ?case by (cases "trailingSpace s") (simp_all add: trimRightSpace.simps [of s])
qed

lemma leading_trimLeft: "leadingSpace (trimLeftSpace s) = None"
proof (induction s rule: trimLeftSpace.induct)
  case (1 s)
  then show ?case by (cases "leadingSpace s") (simp_all add: trimLeftSpace.simps [of s])
qed

lemma trimRight_prefix: "prefix (trimRightSpace s) s"
proof (induction s rule: trimRightSpace.induct)
  case (1 s)
  show ?case
  proof (cases "trailingSpace s")
    case None
    then show ?thesis by (simp add: trimRight_id)
  next
    case (Some sp)
    then have "prefix (trimRightSpace (take (length s - length sp) s)) (take (length s - length sp) s)"
      by (rule "1.IH")
    then have "prefix (trimRightSpace (take (length s - length sp) s)) s"
      using take_is_prefix prefix_order.trans by blast
    with Some show ?thesis by (simp add: trimRightSpace.simps [of s])
  qed
qed

lemma leading_prefix: "leadingSpace s = None \<Longrightarrow> prefix p s \<Longrightarrow> leadingSpace p = None"
  unfolding leadingSpace_def find_None_iff using prefix_order.trans by blast

lemma trailing_suffix: "trailingSpace s = None \<Longrightarrow> suffix p s \<Longrightarrow> trailingSpace p = None"
  unfolding trailingSpace_def find_None_iff using suffix_order.trans by blast

lemma trimSpace_ends: "leadingSpace (trimSpace s) = None \<and> trailingSpace (trimSpace s) = None"
  unfolding trimSpace_def
  using leading_prefix [OF leading_trimLeft trimRight_prefix] trailing_trimRight by blast

lemma trimSpace_id: "leadingSpace s = None \<Longrightarrow> trailingSpace s = None \<Longrightarrow> trimSpace s = s"
  by (simp add: trimSpace_def trimLeft_id trimRight_id)

lemma trimSpace_length: "length (trimSpace s) \<le> length s"
proof -
  have "length (trimLeftSpace s) \<le> length s"
  proof (induction s rule: trimLeftSpace.induct)
    case (1 s)
    show ?case
    proof (cases "leadingSpace s")
      case None
      then show ?thesis by (simp add: trimLeft_id)
    next
      case (Some sp)
      with "1.IH" [OF Some] show ?thesis by (simp add: trimLeftSpace.simps [of s])
    qed
  qed
  moreover have "length (trimRightSpace (trimLeftSpace s)) \<le> length (trimLeftSpace s)"
    using trimRight_prefix prefix_length_le by blast
  ultimately show ?thesis by (simp add: trimSpace_def)
qed

lemma eq_not_in_spaces: "sp \<in> set unicodeSpaces \<Longrightarrow> CHR ''='' \<notin> set sp"
  by (auto simp: unicodeSpaces_def)

lemma suffix_behind:
  "suffix sp (x @ c # v) \<Longrightarrow> c \<notin> set sp \<Longrightarrow> suffix sp v"
  by (auto simp: suffix_def append_eq_append_conv2 append_eq_Cons_conv Cons_eq_append_conv)

lemma trailing_behind: "trailingSpace v = None \<Longrightarrow> trailingSpace (x @ CHR ''='' # v) = None"
  unfolding trailingSpace_def find_None_iff
proof (intro notI, elim exE conjE)
  fix sp
  assume "\<nexists>sp. sp \<in> set unicodeSpaces \<and> suffix sp v" and sp: "sp \<in> set unicodeSpaces"
    and "suffix sp (x @ CHR ''='' # v)"
  with suffix_behind [OF this(3) eq_not_in_spaces [OF sp]] show False by blast
qed

lemma trimLeft_suffix: "suffix (trimLeftSpace s) s"
proof (induction s rule: trimLeftSpace.induct)
  case (1 s)
  show ?case
  proof (cases "leadingSpace s")
    case None
    then show ?thesis by (simp add: trimLeft_id)
  next
    case (Some sp)
    with "1.IH" [OF Some] suffix_drop show ?thesis
      by (simp add: trimLeftSpace.simps [of s]) (use suffix_order.trans in blast)
  qed
qed

lemma trimSpace_set: "set (trimSpace s) \<subseteq> set s"
  unfolding trimSpace_def using set_mono_prefix [OF trimRight_prefix] set_mono_suffix [OF trimLeft_suffix] by blast

lemma dropCR_id: "trailingSpace l = None \<Longrightarrow> dropCR l = l"
proof (rule ccontr)
  assume t: "trailingSpace l = None" and "dropCR l \<noteq> l"
  then have "l \<noteq> []" and "last l = CHR 0x0D" by (auto simp: dropCR_def split: if_splits)
  then have "suffix [CHR 0x0D] l" by (metis append_butlast_last_id suffixI)
  moreover have "[CHR 0x0D] \<in> set unicodeSpaces" by (simp add: unicodeSpaces_def)
  ultimately show False using t by (auto simp: trailingSpace_def find_None_iff)
qed

lemma dropCR_part: "set (dropCR l) \<subseteq> set l \<and> length (dropCR l) \<le> length l"
  by (auto simp: dropCR_def dest: in_set_butlastD)

section \<open>The configurations that can be written\<close>

definition cleanEntry :: "string \<Rightarrow> string \<times> string \<Rightarrow> bool" where
  "cleanEntry directive e \<longleftrightarrow> CHR ''='' \<notin> set (fst e) \<and> CHR 0x0A \<notin> set (fst e) \<and> CHR 0x0A \<notin> set (snd e) \<and>
     trailingSpace (snd e) = None \<and>
     length (directive @ '' '' @ fst e @ ''='' @ snd e) < maxImportCfgLineSize"

definition extraLine :: "string \<Rightarrow> bool" where
  "extraLine l \<longleftrightarrow> l \<noteq> [] \<and> hd l \<noteq> CHR ''#'' \<and> CHR 0x0A \<notin> set l \<and> leadingSpace l = None \<and>
     trailingSpace l = None \<and> length l < maxImportCfgLineSize \<and>
     (case strCut l (CHR '' '') of
        (directive, data, found) \<Rightarrow>
          \<not> found \<or> directive \<notin> {''packagefile'', ''importmap''} \<or> CHR ''='' \<notin> set data)"

definition validConfig :: "importConfig \<Rightarrow> bool" where
  "validConfig c \<longleftrightarrow> ordered (icPackageFile c) \<and> ordered (icImportMap c) \<and>
     list_all (cleanEntry ''packagefile'') (icPackageFile c) \<and>
     list_all (cleanEntry ''importmap'') (icImportMap c) \<and> list_all extraLine (icExtras c)"

lemma strCut_eq: "strCut data (CHR ''='') = (a, b, hasEq) \<Longrightarrow> hasEq \<longleftrightarrow> CHR ''='' \<in> set data"
  by (cases hasEq) (auto dest: strCut_TrueD strCut_FalseD)

lemma parseLine_valid:
  assumes c: "validConfig c" and raw0: "CHR 0x0A \<notin> set raw" "length raw < maxImportCfgLineSize"
  shows "validConfig (parseLine c raw)"
proof -
  let ?l = "trimSpace raw"
  have l: "CHR 0x0A \<notin> set ?l" "length ?l < maxImportCfgLineSize"
    using raw0 trimSpace_set [of raw] trimSpace_length [of raw] by auto
  have ends: "leadingSpace ?l = None" "trailingSpace ?l = None" using trimSpace_ends by blast+
  obtain directive data found where cut: "strCut ?l (CHR '' '') = (directive, data, found)"
    by (cases "strCut ?l (CHR '' '')")
  obtain a b hasEq where eq: "strCut data (CHR ''='') = (a, b, hasEq)" by (cases "strCut data (CHR ''='')")
  have entry: "cleanEntry directive (a, b)" if "found" "hasEq"
  proof -
    have d: "?l = directive @ CHR '' '' # a @ CHR ''='' # b" and a: "CHR ''='' \<notin> set a"
      using cut eq that strCut_TrueD by auto
    have "suffix b ?l" unfolding d by (metis append.assoc append_Cons suffixI append_Nil)
    with ends(2) have "trailingSpace b = None" by (rule trailing_suffix)
    with l a show ?thesis unfolding cleanEntry_def d by simp
  qed
  have extra: "extraLine ?l" if "?l \<noteq> []" "hd ?l \<noteq> CHR ''#''"
      "\<not> found \<or> directive \<notin> {''packagefile'', ''importmap''} \<or> \<not> hasEq"
    using that l ends cut strCut_eq [OF eq] by (auto simp: extraLine_def)
  have put: "list_all (cleanEntry directive) (putKey a b m)" if "found" "hasEq" "list_all (cleanEntry directive) m" for m
    using entry [OF that(1,2)] that(3) set_putKey [of a b m] by (auto simp: list_all_iff)
  show ?thesis
  proof (cases "?l = [] \<or> hd ?l = CHR ''#''")
    case True
    with c show ?thesis by (simp add: parseLine_def)
  next
    case nonempty: False
    show ?thesis
    proof (cases "found \<and> directive \<in> {''packagefile'', ''importmap''} \<and> hasEq")
      case True
      with nonempty c cut eq put show ?thesis
        by (elim conjE insertE) (auto simp: parseLine_def validConfig_def ordered_putKey Let_def)
    next
      case False
      with nonempty c cut eq extra show ?thesis
        by (auto simp: parseLine_def validConfig_def addExtra_def Let_def)
    qed
  qed
qed

lemma rawLines_no_newline: "l \<in> set (rawLines s) \<Longrightarrow> CHR 0x0A \<notin> set l"
proof -
  have "\<forall>l \<in> set (splitOn c s). c \<notin> set l" for c
    by (induction s) (auto split: list.splits)
  then show "l \<in> set (rawLines s) \<Longrightarrow> CHR 0x0A \<notin> set l"
    by (auto simp: rawLines_def Let_def split: if_splits dest: in_set_butlastD)
qed

lemma parseConfig_valid: "parseConfig s = Some c \<Longrightarrow> validConfig c"
proof -
  have step: "validConfig (foldl parseLine c ls)"
    if "validConfig c" "\<forall>l \<in> set ls. CHR 0x0A \<notin> set l \<and> length l < maxImportCfgLineSize" for c ls
    using that by (induction ls arbitrary: c) (auto simp: parseLine_valid)
  assume c: "parseConfig s = Some c"
  then have "\<forall>l \<in> set (rawLines s). length l < maxImportCfgLineSize"
    by (auto simp: parseConfig_def list_ex_iff not_le split: if_splits)
  then have "\<forall>l \<in> set (map dropCR (rawLines s)). CHR 0x0A \<notin> set l \<and> length l < maxImportCfgLineSize"
    using rawLines_no_newline dropCR_part by (fastforce intro: le_less_trans)
  moreover have "validConfig emptyConfig" by (simp add: validConfig_def emptyConfig_def ordered_def)
  ultimately show "validConfig c" using c step by (auto simp: parseConfig_def split: if_splits)
qed

section \<open>Reading back\<close>

lemma rawLines_write: "\<forall>l \<in> set ls. CHR 0x0A \<notin> set l \<Longrightarrow> rawLines (concat (map (\<lambda>l. l @ [CHR 0x0A]) ls)) = ls"
proof -
  assume ls: "\<forall>l \<in> set ls. CHR 0x0A \<notin> set l"
  then have "splitOn (CHR 0x0A) (concat (map (\<lambda>l. l @ [CHR 0x0A]) ls)) = ls @ [[]]"
    by (induction ls) (simp_all add: splitOn_append)
  then show ?thesis by (simp add: rawLines_def)
qed

lemma entry_parses:
  assumes "cleanEntry directive (k, v)" and "directive \<in> {''packagefile'', ''importmap''}"
  defines "l \<equiv> directive @ '' '' @ k @ ''='' @ v"
  shows "trimSpace l = l" and "dropCR l = l" and "CHR 0x0A \<notin> set l" and "length l < maxImportCfgLineSize"
    and "strCut l (CHR '' '') = (directive, k @ ''='' @ v, True)"
    and "strCut (k @ ''='' @ v) (CHR ''='') = (k, v, True)" and "l \<noteq> []" and "hd l \<noteq> CHR ''#''"
proof -
  have "trailingSpace ((directive @ '' '' @ k) @ CHR ''='' # v) = None"
    using assms(1) by (intro trailing_behind) (simp add: cleanEntry_def)
  then have t: "trailingSpace l = None" by (simp add: l_def)
  moreover have "leadingSpace l = None"
    using assms(2) unfolding l_def by (elim insertE) (auto simp: leadingSpace_def find_None_iff unicodeSpaces_def)
  ultimately show "trimSpace l = l" and "dropCR l = l" by (simp_all add: trimSpace_id dropCR_id)
  show "CHR 0x0A \<notin> set l" and "length l < maxImportCfgLineSize" and "l \<noteq> []" and "hd l \<noteq> CHR ''#''"
    using assms by (auto simp: cleanEntry_def)
  have "CHR '' '' \<notin> set directive" using assms(2) by auto
  then show "strCut l (CHR '' '') = (directive, k @ ''='' @ v, True)"
    using strCut_found [of "CHR '' ''" directive "k @ ''='' @ v"] by (simp add: l_def)
  show "strCut (k @ ''='' @ v) (CHR ''='') = (k, v, True)"
    using strCut_found [of "CHR ''=''" k v] assms(1) by (simp add: cleanEntry_def)
qed

lemma extra_parses: "extraLine l \<Longrightarrow> parseLine c l = addExtra l c \<and> dropCR l = l"
  by (auto simp: extraLine_def parseLine_def trimSpace_id dropCR_id addExtra_def
      split: prod.splits dest: strCut_eq)

definition entryText :: "string \<Rightarrow> string \<times> string \<Rightarrow> string" where
  "entryText directive e = directive @ '' '' @ fst e @ ''='' @ snd e"

lemma ordered_distinct: "ordered m \<Longrightarrow> distinct (map fst m)"
  by (simp add: ordered_def strict_sorted_iff)

lemma entryLines:
  assumes "ordered m"
  shows "map (entryLine directive m) (sort (map fst m)) = map (entryText directive) m"
proof -
  have "sorted (map fst m)" using assms by (simp add: ordered_def strict_sorted_iff)
  then have "sort (map fst m) = map fst m" by (rule sorted_sort_id)
  moreover have "map_of m (fst e) = Some (snd e)" if "e \<in> set m" for e
    using that ordered_distinct [OF assms] by (intro map_of_is_SomeI) simp_all
  ultimately show ?thesis by (simp add: entryLine_def entryText_def)
qed

lemma packagefile_parses:
  "list_all (cleanEntry ''packagefile'') m \<Longrightarrow> foldl parseLine c (map (entryText ''packagefile'') m) =
     c\<lparr>icPackageFile := foldl (\<lambda>m (k, v). putKey k v m) (icPackageFile c) m\<rparr>"
proof (induction m arbitrary: c)
  case Nil
  then show ?case by simp
next
  case (Cons e m)
  obtain k v where e: "e = (k, v)" by (cases e)
  with Cons.prems have "cleanEntry ''packagefile'' (k, v)" by simp
  note p = entry_parses [OF this, simplified]
  have "parseLine c (entryText ''packagefile'' e) = c\<lparr>icPackageFile := putKey k v (icPackageFile c)\<rparr>"
    using p by (simp add: parseLine_def entryText_def e)
  with Cons e show ?case by simp
qed

lemma importmap_parses:
  "list_all (cleanEntry ''importmap'') m \<Longrightarrow> foldl parseLine c (map (entryText ''importmap'') m) =
     c\<lparr>icImportMap := foldl (\<lambda>m (k, v). putKey k v m) (icImportMap c) m\<rparr>"
proof (induction m arbitrary: c)
  case Nil
  then show ?case by simp
next
  case (Cons e m)
  obtain k v where e: "e = (k, v)" by (cases e)
  with Cons.prems have "cleanEntry ''importmap'' (k, v)" by simp
  note p = entry_parses [OF this, simplified]
  have "parseLine c (entryText ''importmap'' e) = c\<lparr>icImportMap := putKey k v (icImportMap c)\<rparr>"
    using p by (simp add: parseLine_def entryText_def e)
  with Cons e show ?case by simp
qed

lemma extras_parse: "list_all extraLine ls \<Longrightarrow> foldl parseLine c ls = c\<lparr>icExtras := icExtras c @ ls\<rparr>"
proof (induction ls arbitrary: c)
  case Nil
  then show ?case by simp
next
  case (Cons l ls)
  then show ?case using extra_parses [of l c] by (simp add: addExtra_def)
qed

lemma configLines_clean:
  assumes "validConfig c"
  shows "\<forall>l \<in> set (configLines c). CHR 0x0A \<notin> set l \<and> length l < maxImportCfgLineSize \<and> dropCR l = l"
proof -
  have c: "configLines c = map (entryText ''importmap'') (icImportMap c) @
      map (entryText ''packagefile'') (icPackageFile c) @ icExtras c"
    using assms by (simp add: configLines_def entryLines validConfig_def)
  have entries: "CHR 0x0A \<notin> set (entryText d e) \<and> length (entryText d e) < maxImportCfgLineSize \<and>
      dropCR (entryText d e) = entryText d e"
    if "cleanEntry d e" "d \<in> {''packagefile'', ''importmap''}" for d e
    using entry_parses(2-4) [of d "fst e" "snd e"] that by (simp add: entryText_def)
  have extras: "CHR 0x0A \<notin> set l \<and> length l < maxImportCfgLineSize \<and> dropCR l = l" if "extraLine l" for l
    using extra_parses [OF that] that by (simp add: extraLine_def)
  show ?thesis
    using assms entries [of "''importmap''"] entries [of "''packagefile''"] extras
    unfolding c validConfig_def list_all_iff by auto
qed

lemma write_parse:
  assumes "validConfig c"
  shows "parseConfig (writeConfig c) = Some c"
proof -
  have v: "ordered (icPackageFile c)" "ordered (icImportMap c)" using assms by (simp_all add: validConfig_def)
  have lines: "rawLines (writeConfig c) = configLines c"
    unfolding writeConfig_def by (rule rawLines_write) (use configLines_clean [OF assms] in blast)
  have "map dropCR (configLines c) = configLines c"
    using configLines_clean [OF assms] by (simp add: map_idI)
  moreover have "\<not> list_ex (\<lambda>l. maxImportCfgLineSize \<le> length l) (configLines c)"
    using configLines_clean [OF assms] by (auto simp: list_ex_iff)
  ultimately have "parseConfig (writeConfig c) = Some (foldl parseLine emptyConfig (configLines c))"
    by (simp add: parseConfig_def lines)
  also have "configLines c = map (entryText ''importmap'') (icImportMap c) @
      map (entryText ''packagefile'') (icPackageFile c) @ icExtras c"
    using v by (simp add: configLines_def entryLines)
  finally have "parseConfig (writeConfig c) =
      Some (foldl parseLine emptyConfig (map (entryText ''importmap'') (icImportMap c) @
        map (entryText ''packagefile'') (icPackageFile c) @ icExtras c))"
    .
  also have "\<dots> = Some c"
    using assms putKeys_ordered [of "[]" "icImportMap c"] putKeys_ordered [of "[]" "icPackageFile c"]
    by (simp add: importmap_parses packagefile_parses extras_parse validConfig_def emptyConfig_def)
  finally show ?thesis .
qed

interpretation importcfg: text_codec validConfig writeConfig parseConfig
  by unfold_locales (rule write_parse)

text \<open>C27: whatever importcfg file is read, the configuration it gives is written and read back
  unchanged; so is every configuration whose entries fit on a line.\<close>

theorem importcfg_roundtrip:
  "(parseConfig s = Some c \<longrightarrow> parseConfig (writeConfig c) = Some c) \<and>
   (validConfig c \<longrightarrow> parseConfig (writeConfig c) = Some c)"
  using parseConfig_valid importcfg.dec_enc by blast

theorem importcfg_roundtrip_witness:
  "parseConfig (writeConfig \<lparr>icPackageFile = [(''fmt'', ''/cache/a b'')], icImportMap = [(''x'', ''v/x'')],
     icExtras = [''modinfo'']\<rparr>) =
   Some \<lparr>icPackageFile = [(''fmt'', ''/cache/a b'')], icImportMap = [(''x'', ''v/x'')], icExtras = [''modinfo'']\<rparr>"
proof -
  have s: "trailingSpace ''/cache/a b'' = None" "trailingSpace ''v/x'' = None"
    "leadingSpace ''modinfo'' = None" "trailingSpace ''modinfo'' = None"
    by code_simp+
  have "strCut ''modinfo'' (CHR '' '') = (''modinfo'', [], False)" by simp
  then have "validConfig \<lparr>icPackageFile = [(''fmt'', ''/cache/a b'')], icImportMap = [(''x'', ''v/x'')],
     icExtras = [''modinfo'']\<rparr>"
    by (simp add: validConfig_def ordered_def cleanEntry_def extraLine_def maxImportCfgLineSize_def s)
  with importcfg_roundtrip [of "[]"] show ?thesis by blast
qed

end
