(* ===== verification/Find_Deps.thy ===== *)
theory Find_Deps
  imports Injected_Deps File_Tree Build_Args Import_Config
begin

text \<open>
  Finding the dependencies of a build, \<open>tool/internal/setup/find.go\<close>: a dry run of the go command
  lists the commands of the build, and each compile command gives one dependency. Files that cgo
  generated are traced back to their sources by the directory in which cgo ran.

  \<open>runGo\<close> is the log of a dry run, \<open>exist\<close> the files that exist, \<open>wd\<close> the working directory.

  Shown: the loop over the commands, which carries the last \<open>cd\<close> and a map of object directories,
  gives each compile command the sources that its place in the plan determines.
\<close>

section \<open>The commands of a plan\<close>

definition parseCdDir :: "string \<Rightarrow> string option" where
  "parseCdDir line =
     (if \<not> hasPrefix (toLower line) ''cd '' then None
      else let dir = trimSpace (drop 3 line) in if dir = [] then None else Some dir)"

definition planLine :: "bool \<Rightarrow> string \<Rightarrow> string" where
  "planLine isWindows text =
     (let line = trimSpace text in toSlash isWindows (if isWindows then unescapeBackslashes line else line))"

definition isPlanCommand :: "bool \<Rightarrow> string \<Rightarrow> bool" where
  "isPlanCommand isWindows line \<longleftrightarrow>
     parseCdDir line \<noteq> None \<or> isCgoCommand line \<or> isCompileCommandWithArgs (splitCompileCmds isWindows line)"

definition maxBuildPlanBufferSize :: nat where
  "maxBuildPlanBufferSize = 10 * 1024 * 1024"

text \<open>\<open>None\<close> is the error of the scanner, a line that does not fit its buffer.\<close>

definition findCommands :: "bool \<Rightarrow> string \<Rightarrow> string list option" where
  "findCommands isWindows buildPlanLog =
     (if list_ex (\<lambda>l. maxBuildPlanBufferSize \<le> length l) (rawLines buildPlanLog) then None
      else Some (filter (isPlanCommand isWindows) (map (planLine isWindows \<circ> dropCR) (rawLines buildPlanLog))))"

text \<open>The command line of the dry run\<close>

definition planCommand :: "string \<Rightarrow> string list \<Rightarrow> string list" where
  "planCommand subcommand cmdArgs =
     (if subcommand = ''test'' then ''test'' else ''build'') #
     addBuildFlags (disableJSONOutput subcommand cmdArgs) [''-a'', ''-x'', ''-n'']"

definition listBuildPlan :: "(string list \<Rightarrow> string option) \<Rightarrow> bool \<Rightarrow> string \<Rightarrow> string list \<Rightarrow> string list option" where
  "listBuildPlan runGo isWindows subcommand cmdArgs =
     Option.bind (runGo (planCommand subcommand cmdArgs)) (findCommands isWindows)"

section \<open>Sources\<close>

datatype cgoError = EmptyArgument | NotGenerated string | NoOriginal string

definition resolveCgoFile :: "(string \<Rightarrow> bool) \<Rightarrow> string \<Rightarrow> string \<Rightarrow> cgoError + string" where
  "resolveCgoFile exist cgoFile sourceDir =
     (if cgoFile = [] \<or> sourceDir = [] then Inl EmptyArgument
      else let baseName = pathBase cgoFile
           in if \<not> hasSuffix baseName ''.cgo1.go'' then Inl (NotGenerated cgoFile)
              else let absFile = pathJoin [sourceDir, trimSuffix baseName ''.cgo1.go'' @ ''.go'']
                   in if \<not> exist absFile then Inl (NoOriginal absFile) else Inr absFile)"

datatype findError = PlanFailed | EmptyImportPath | NoObjDir | NoAbsolutePath string

text \<open>One argument of a compile command\<close>

definition addSource ::
    "(string \<Rightarrow> bool) \<Rightarrow> string option \<Rightarrow> (string \<times> string) list \<Rightarrow> string \<Rightarrow> Dependency \<Rightarrow> findError + Dependency" where
  "addSource exist wd cgoObjDirs arg dep =
     (if \<not> isGoFile arg then Inr dep
      else if \<not> exist arg then
        (case map_of cgoObjDirs (normalizePath (pathDir arg)) of
           None \<Rightarrow> Inr dep
         | Some sourceDir \<Rightarrow>
             (case resolveCgoFile exist arg sourceDir of
                Inl e \<Rightarrow> Inr dep
              | Inr original \<Rightarrow>
                  Inr (dep\<lparr>depCgoFiles := AList.update original (pathBase arg) (depCgoFiles dep),
                    depSources := depSources dep @ [original]\<rparr>)))
      else case pathAbs wd arg of
             None \<Rightarrow> Inl (NoAbsolutePath arg)
           | Some absFile \<Rightarrow> Inr (dep\<lparr>depSources := depSources dep @ [absFile]\<rparr>))"

definition findGoSources ::
    "(string \<Rightarrow> bool) \<Rightarrow> string option \<Rightarrow> string list \<Rightarrow> (string \<times> string) list \<Rightarrow> findError + Dependency" where
  "findGoSources exist wd args cgoObjDirs =
     (let importPath = findFlagValue args ''-p''
      in if importPath = [] then Inl EmptyImportPath
         else map_sum id
           (\<lambda>dep. if depSources dep \<noteq> [] then dep\<lparr>depVersion := findModVersion (hd (depSources dep))\<rparr> else dep)
           (foldOK (addSource exist wd cgoObjDirs) args
              \<lparr>depImportPath = importPath, depVersion = [], depSources = [], depCgoFiles = []\<rparr>))"

section \<open>The loop\<close>

record planState =
  psDeps :: "Dependency list"
  psObjDirs :: "(string \<times> string) list"
  psDir :: string

definition planStep ::
    "(string \<Rightarrow> bool) \<Rightarrow> string option \<Rightarrow> bool \<Rightarrow> string \<Rightarrow> planState \<Rightarrow> findError + planState" where
  "planStep exist wd isWindows cmd st =
     (case parseCdDir cmd of
        Some dir \<Rightarrow> Inr (st\<lparr>psDir := dir\<rparr>)
      | None \<Rightarrow>
          let args = splitCompileCmds isWindows cmd
          in if isCompileCommandWithArgs args then
               map_sum id (\<lambda>dep. st\<lparr>psDeps := psDeps st @ [dep]\<rparr>) (findGoSources exist wd args (psObjDirs st))
             else if isCgoCommand cmd \<and> psDir st \<noteq> [] then
               (let objDir = findFlagValue args ''-objdir''
                in if objDir = [] then Inl NoObjDir
                   else Inr (st\<lparr>psObjDirs := AList.update (normalizePath objDir) (psDir st) (psObjDirs st)\<rparr>))
             else Inr st)"

definition findDeps ::
    "(string list \<Rightarrow> string option) \<Rightarrow> (string \<Rightarrow> bool) \<Rightarrow> string option \<Rightarrow> bool \<Rightarrow> string \<Rightarrow> string list \<Rightarrow>
     findError + Dependency list" where
  "findDeps runGo exist wd isWindows subcommand cmdArgs =
     (case listBuildPlan runGo isWindows subcommand cmdArgs of
        None \<Rightarrow> Inl PlanFailed
      | Some buildPlan \<Rightarrow>
          map_sum id psDeps (foldOK (planStep exist wd isWindows) buildPlan \<lparr>psDeps = [], psObjDirs = [], psDir = []\<rparr>))"

section \<open>What a plan says\<close>

text \<open>
  The plan without the loop. \<open>dirAfter\<close> is the directory of the last \<open>cd\<close>; \<open>objDirOf\<close> the object
  directory of a cgo command; \<open>ranIn\<close> the directory in which the last cgo command ran that wrote to an
  object directory.
\<close>

fun dirAfter :: "string list \<Rightarrow> string" where
  "dirAfter [] = []"
| "dirAfter (cmd # cmds) =
     (if dirAfter cmds \<noteq> [] then dirAfter cmds else case parseCdDir cmd of Some dir \<Rightarrow> dir | None \<Rightarrow> [])"

definition isCompile :: "bool \<Rightarrow> string \<Rightarrow> bool" where
  "isCompile isWindows cmd \<longleftrightarrow> parseCdDir cmd = None \<and> isCompileCommandWithArgs (splitCompileCmds isWindows cmd)"

definition objDirOf :: "bool \<Rightarrow> string \<Rightarrow> string option" where
  "objDirOf isWindows cmd =
     (if parseCdDir cmd = None \<and> \<not> isCompile isWindows cmd \<and> isCgoCommand cmd
      then Some (normalizePath (findFlagValue (splitCompileCmds isWindows cmd) ''-objdir'')) else None)"

text \<open>\<open>earlier\<close> is in reverse order, the last command first.\<close>

fun ranIn :: "bool \<Rightarrow> string list \<Rightarrow> string \<Rightarrow> string option" where
  "ranIn isWindows [] objDir = None"
| "ranIn isWindows (cmd # earlier) objDir =
     (if objDirOf isWindows cmd = Some objDir \<and> dirAfter (rev earlier) \<noteq> [] then Some (dirAfter (rev earlier))
      else ranIn isWindows earlier objDir)"

text \<open>The source file that an argument stands for\<close>

definition sourceOf ::
    "(string \<Rightarrow> bool) \<Rightarrow> string option \<Rightarrow> bool \<Rightarrow> string list \<Rightarrow> string \<Rightarrow> string option" where
  "sourceOf exist wd isWindows earlier arg =
     (if \<not> isGoFile arg then None
      else if exist arg then pathAbs wd arg
      else Option.bind (ranIn isWindows earlier (normalizePath (pathDir arg)))
             (\<lambda>dir. case resolveCgoFile exist arg dir of Inl e \<Rightarrow> None | Inr original \<Rightarrow> Some original))"

definition sourcesAt :: "(string \<Rightarrow> bool) \<Rightarrow> string option \<Rightarrow> bool \<Rightarrow> string list \<Rightarrow> string \<Rightarrow> string list" where
  "sourcesAt exist wd isWindows earlier cmd =
     List.map_filter (sourceOf exist wd isWindows earlier) (splitCompileCmds isWindows cmd)"

text \<open>The dependencies of a plan: import path, version and sources, per compile command\<close>

fun planDeps ::
    "(string \<Rightarrow> bool) \<Rightarrow> string option \<Rightarrow> bool \<Rightarrow> string list \<Rightarrow> string list \<Rightarrow> (string \<times> string \<times> string list) list" where
  "planDeps exist wd isWindows earlier [] = []"
| "planDeps exist wd isWindows earlier (cmd # cmds) =
     (if isCompile isWindows cmd
      then let sources = sourcesAt exist wd isWindows earlier cmd
           in [(findFlagValue (splitCompileCmds isWindows cmd) ''-p'',
                if sources = [] then [] else findModVersion (hd sources), sources)]
      else []) @ planDeps exist wd isWindows (cmd # earlier) cmds"

definition depTriple :: "Dependency \<Rightarrow> string \<times> string \<times> string list" where
  "depTriple d = (depImportPath d, depVersion d, depSources d)"

lemma parseCdDir_nonempty: "parseCdDir line = Some dir \<Longrightarrow> dir \<noteq> []"
  by (auto simp: parseCdDir_def Let_def split: if_splits)

lemma dirAfter_snoc [simp]:
  "dirAfter (cmds @ [cmd]) = (case parseCdDir cmd of Some dir \<Rightarrow> dir | None \<Rightarrow> dirAfter cmds)"
  by (induction cmds) (auto simp: parseCdDir_nonempty split: option.splits)

lemma addSource_sources:
  assumes "\<And>objDir. map_of objDirs objDir = ranIn isWindows earlier objDir"
  shows "foldOK (addSource exist wd objDirs) args dep = Inr dep' \<Longrightarrow>
    depSources dep' = depSources dep @ List.map_filter (sourceOf exist wd isWindows earlier) args \<and>
    depImportPath dep' = depImportPath dep \<and> depVersion dep' = depVersion dep"
proof (induction args arbitrary: dep)
  case (Cons arg args)
  then obtain dep1 where dep1: "addSource exist wd objDirs arg dep = Inr dep1"
    and rest: "foldOK (addSource exist wd objDirs) args dep1 = Inr dep'"
    by (auto split: sum.splits)
  have "depSources dep1 = depSources dep @ (case sourceOf exist wd isWindows earlier arg of None \<Rightarrow> [] | Some s \<Rightarrow> [s]) \<and>
      depImportPath dep1 = depImportPath dep \<and> depVersion dep1 = depVersion dep"
    using dep1 by (auto simp: addSource_def sourceOf_def assms split: if_splits option.splits sum.splits)
  then show ?case using Cons.IH [OF rest] by (auto simp: map_filter_simps split: option.split)
qed (simp add: map_filter_simps)

lemma findGoSources_triple:
  assumes "findGoSources exist wd (splitCompileCmds isWindows cmd) objDirs = Inr dep"
    and "\<And>objDir. map_of objDirs objDir = ranIn isWindows earlier objDir"
  shows "depTriple dep =
    (findFlagValue (splitCompileCmds isWindows cmd) ''-p'',
     if sourcesAt exist wd isWindows earlier cmd = [] then [] else findModVersion (hd (sourcesAt exist wd isWindows earlier cmd)),
     sourcesAt exist wd isWindows earlier cmd)"
proof -
  let ?args = "splitCompileCmds isWindows cmd"
  obtain dep0 where dep0: "foldOK (addSource exist wd objDirs) ?args
      \<lparr>depImportPath = findFlagValue ?args ''-p'', depVersion = [], depSources = [], depCgoFiles = []\<rparr> = Inr dep0"
    and dep: "dep = (if depSources dep0 \<noteq> [] then dep0\<lparr>depVersion := findModVersion (hd (depSources dep0))\<rparr> else dep0)"
  proof -
    have "findFlagValue ?args ''-p'' \<noteq> []" using assms(1) by (auto simp: findGoSources_def)
    then show ?thesis using assms(1) that by (simp add: findGoSources_def map_sum_Inr del: if_split) blast
  qed
  show ?thesis
    using addSource_sources [OF assms(2) dep0] by (simp add: dep depTriple_def sourcesAt_def)
qed

lemma planStep_tracks:
  assumes "planStep exist wd isWindows cmd st = Inr st'"
    and "psDir st = dirAfter (rev earlier)" and "\<And>objDir. map_of (psObjDirs st) objDir = ranIn isWindows earlier objDir"
  shows "psDir st' = dirAfter (rev (cmd # earlier))"
    and "map_of (psObjDirs st') objDir = ranIn isWindows (cmd # earlier) objDir"
    and "map depTriple (psDeps st') = map depTriple (psDeps st) @ planDeps exist wd isWindows earlier [cmd]"
proof -
  note triple = findGoSources_triple [OF _ assms(3)]
  show "psDir st' = dirAfter (rev (cmd # earlier))"
    using assms(1,2) by (auto simp: planStep_def Let_def split: option.splits if_splits)
  show "map_of (psObjDirs st') objDir = ranIn isWindows (cmd # earlier) objDir"
    using assms by (auto simp: planStep_def objDirOf_def isCompile_def update_conv' Let_def split: option.splits if_splits)
  show "map depTriple (psDeps st') = map depTriple (psDeps st) @ planDeps exist wd isWindows earlier [cmd]"
    using assms(1) triple by (auto simp: planStep_def isCompile_def Let_def split: option.splits if_splits)
qed

text \<open>
  C12: the dependencies of a build are its compile commands, in order. The sources of each are its Go
  files that exist, made absolute, and for a file that cgo generated the source file of the same
  name in the directory where the last cgo command ran that wrote to the file's directory.
\<close>

theorem findDeps_reads_plan:
  assumes "findDeps runGo exist wd isWindows subcommand cmdArgs = Inr deps"
  shows "\<exists>buildPlan. listBuildPlan runGo isWindows subcommand cmdArgs = Some buildPlan \<and>
    map depTriple deps = planDeps exist wd isWindows [] buildPlan"
proof -
  have loop: "foldOK (planStep exist wd isWindows) cmds st = Inr st' \<Longrightarrow> psDir st = dirAfter (rev earlier) \<Longrightarrow>
      (\<And>objDir. map_of (psObjDirs st) objDir = ranIn isWindows earlier objDir) \<Longrightarrow>
      map depTriple (psDeps st') = map depTriple (psDeps st) @ planDeps exist wd isWindows earlier cmds" for cmds st st' earlier
  proof (induction cmds arbitrary: st earlier)
    case (Cons cmd cmds)
    obtain st1 where st1: "planStep exist wd isWindows cmd st = Inr st1"
      and rest: "foldOK (planStep exist wd isWindows) cmds st1 = Inr st'"
      using Cons.prems(1) unfolding foldOK_Cons by blast
    note step = planStep_tracks [OF st1 Cons.prems(2,3)]
    show ?case using Cons.IH [OF rest step(1,2)] step(3) by simp
  qed simp
  obtain buildPlan st' where plan: "listBuildPlan runGo isWindows subcommand cmdArgs = Some buildPlan"
    and st': "foldOK (planStep exist wd isWindows) buildPlan \<lparr>psDeps = [], psObjDirs = [], psDir = []\<rparr> = Inr st'" "deps = psDeps st'"
    using assms by (auto simp: findDeps_def split: option.splits)
  show ?thesis using loop [OF st'(1), of "[]"] plan st'(2) by simp
qed

text \<open>A plan with one cgo package, whose generated file does not exist when the plan is read\<close>

definition sampleLog :: string where
  "sampleLog = joinWith [CHR 0x0A]
     [''mkdir -p /b1/'', ''cd /net'', ''/go/cgo -objdir /b1/ -importpath net'',
      ''/go/compile -o a -p net -buildid b /b1/net.cgo1.go /b1/types.go /x@v1.2.3/x.go'']"

definition sampleExists :: "string \<Rightarrow> bool" where
  "sampleExists p \<longleftrightarrow> p = ''/net/net.go'' \<or> p = ''/x@v1.2.3/x.go''"

lemma short_plan:
  assumes "\<And>l. l \<in> set (rawLines buildPlanLog) \<Longrightarrow> length l < 10 * 1024 * 1024"
  shows "findCommands isWindows buildPlanLog =
    Some (filter (isPlanCommand isWindows) (map (planLine isWindows \<circ> dropCR) (rawLines buildPlanLog)))"
  using assms by (auto simp: findCommands_def maxBuildPlanBufferSize_def list_ex_iff dest: leD)

lemma sample_plan:
  "listBuildPlan (\<lambda>args. Some sampleLog) False ''build'' [''./...''] =
     Some [''cd /net'', ''/go/cgo -objdir /b1/ -importpath net'',
       ''/go/compile -o a -p net -buildid b /b1/net.cgo1.go /b1/types.go /x@v1.2.3/x.go'']"
proof -
  have lines: "rawLines sampleLog = [''mkdir -p /b1/'', ''cd /net'', ''/go/cgo -objdir /b1/ -importpath net'',
      ''/go/compile -o a -p net -buildid b /b1/net.cgo1.go /b1/types.go /x@v1.2.3/x.go'']"
    by code_simp
  have "filter (isPlanCommand False) (map (planLine False \<circ> dropCR) (rawLines sampleLog)) = tl (rawLines sampleLog)"
    unfolding lines by code_simp
  moreover have "findCommands False sampleLog = Some (filter (isPlanCommand False) (map (planLine False \<circ> dropCR) (rawLines sampleLog)))"
    by (rule short_plan) (auto simp: lines)
  ultimately show ?thesis by (simp add: listBuildPlan_def lines)
qed

definition netDep :: Dependency where
  "netDep = \<lparr>depImportPath = ''net'', depVersion = [], depSources = [''/net/net.go'', ''/x@v1.2.3/x.go''],
     depCgoFiles = [(''/net/net.go'', ''net.cgo1.go'')]\<rparr>"

lemma sample_commands:
  "foldOK (planStep sampleExists (Some ''/app'') False)
     [''cd /net'', ''/go/cgo -objdir /b1/ -importpath net'',
      ''/go/compile -o a -p net -buildid b /b1/net.cgo1.go /b1/types.go /x@v1.2.3/x.go'']
     \<lparr>psDeps = [], psObjDirs = [], psDir = []\<rparr> = Inr \<lparr>psDeps = [netDep], psObjDirs = [(''/b1'', ''/net'')], psDir = ''/net''\<rparr>"
  by code_simp

theorem findDeps_reads_plan_witness:
  "\<exists>buildPlan. listBuildPlan (\<lambda>args. Some sampleLog) False ''build'' [''./...''] = Some buildPlan \<and>
     planDeps sampleExists (Some ''/app'') False [] buildPlan = [(''net'', [], [''/net/net.go'', ''/x@v1.2.3/x.go''])]"
proof -
  have "findDeps (\<lambda>args. Some sampleLog) sampleExists (Some ''/app'') False ''build'' [''./...''] = Inr [netDep]"
    unfolding findDeps_def sample_plan option.case sample_commands by simp
  from findDeps_reads_plan [OF this] show ?thesis by (auto simp: depTriple_def netDep_def)
qed

text \<open>
  The last \<open>cd\<close> plays no part for the files of a compile command: a relative path is looked up in
  the working directory of the process, although the plan gives the directory it belongs to. Here
  \<open>/repo/app/main.go\<close> exists, and is missed.
\<close>

lemma relative_sources_missed:
  "foldOK (planStep (\<lambda>p. p = ''/repo/app/main.go'') (Some ''/repo'') False)
     [''cd /repo/app'', ''/go/compile -o a -p app -buildid b ./main.go''] \<lparr>psDeps = [], psObjDirs = [], psDir = []\<rparr> =
   Inr \<lparr>psDeps = [\<lparr>depImportPath = ''app'', depVersion = [], depSources = [], depCgoFiles = []\<rparr>],
        psObjDirs = [], psDir = ''/repo/app''\<rparr>"
  by code_simp

end
