(* ===== verification/Go_Code.thy ===== *)
theory Go_Code
  imports Go_Syntax
begin

text \<open>
  The code of a file as a tree, for the rules that change expressions and statements. A node has
  a kind and its children in the order in which \<open>dst.Inspect\<close> visits them; identifiers and
  literals are leaves. The kinds are those the code tells apart, any other is \<open>Other\<close>.

  A call and a statement carry the identity of their node, \<open>None\<close> for one that was made by parsing
  generated code or by \<open>dst.Clone\<close>: such a node is in no table of nodes of the file.
\<close>

section \<open>Trees\<close>

text \<open>
  Children by kind: of \<open>Sel s\<close> the operand, of \<open>Call\<close> the function and the arguments, of \<open>Comp\<close>
  the type, \<open>nilNode\<close> if there is none, and the elements, of \<open>KeyValue\<close> the key and the value; of
  \<open>CaseClause n\<close> and \<open>CommClause n\<close> the first \<open>n\<close> belong to the head, and of \<open>DefineStmt n\<close> the first
  \<open>n\<close> are on the left; of \<open>ValueSpecs n\<close> the first \<open>n\<close> are the names, then comes the type, \<open>nilNode\<close>
  if there is none, then the values.
\<close>

datatype stmtKind =
    BlockStmt
  | CaseClause nat
  | CommClause nat
  | ReturnStmt
  | BranchStmt
  | DefineStmt nat
  | DeclStmt
  | PlainStmt string

datatype codeKind =
    Sel string
  | Call "nat option" bool
  | Comp
  | KeyValue
  | Paren
  | FuncLit
  | ValueSpecs nat
  | TypeSpecs
  | Stmt "nat option" "string list" stmtKind
  | Other string

datatype code =
    IdentN (nodePath: string) (nodeName: string)
  | LitN string
  | Node codeKind "code list"

definition nilNode :: code where
  "nilNode = Node (Other []) []"

text \<open>The nodes of a tree, and its functions declared at the top of a file\<close>

fun subnodes :: "code \<Rightarrow> code list" where
  "subnodes (IdentN p n) = [IdentN p n]"
| "subnodes (LitN v) = [LitN v]"
| "subnodes (Node k cs) = Node k cs # concat (map subnodes cs)"

lemma subnodes_self [simp]: "c \<in> set (subnodes c)"
  by (cases c) simp_all

lemma subnodes_trans: "b \<in> set (subnodes a) \<Longrightarrow> c \<in> set (subnodes b) \<Longrightarrow> c \<in> set (subnodes a)"
  by (induction a) auto

record topDecl =
  tdFunc :: "funcDecl option"
  tdHead :: "code list"
  tdBody :: "code list option"

definition declNodes :: "topDecl \<Rightarrow> code list" where
  "declNodes d = concat (map subnodes (tdHead d @ (case tdBody d of None \<Rightarrow> [] | Some b \<Rightarrow> b)))"

section \<open>Qualifiers\<close>

text \<open>The name in front of a selector, if it is one\<close>

definition qualifier :: "code \<Rightarrow> string option" where
  "qualifier c = (case c of Node (Sel s) [IdentN p n] \<Rightarrow> Some n | _ \<Rightarrow> None)"

definition nodeQualifier :: "code \<Rightarrow> string list" where
  "nodeQualifier c = (case qualifier c of None \<Rightarrow> [] | Some n \<Rightarrow> [n])"

definition qualifiers :: "code \<Rightarrow> string list" where
  "qualifiers c = concat (map nodeQualifier (subnodes c))"

lemma qualifiers_Node: "qualifiers (Node k cs) = nodeQualifier (Node k cs) @ concat (map qualifiers cs)"
proof -
  have "concat (map nodeQualifier (concat (map subnodes ds))) = concat (map qualifiers ds)" for ds
    by (induction ds) (simp_all add: qualifiers_def)
  then show ?thesis by (simp add: qualifiers_def)
qed

lemma qualifiers_leaf [simp]: "qualifiers (IdentN p n) = []" "qualifiers (LitN v) = []"
  by (simp_all add: qualifiers_def nodeQualifier_def qualifier_def)

lemma qualifiers_sub: "c \<in> set (subnodes d) \<Longrightarrow> set (qualifiers c) \<subseteq> set (qualifiers d)"
  using subnodes_trans by (fastforce simp: qualifiers_def)

end
