(* ===== verification/Toolexec.thy ===== *)
theory Toolexec
  imports Import_Config Goflags Go_Path
begin

text \<open>
  The toolexec layer (\<open>tool/internal/instrument/toolexec.go\<close>): which tool commands are intercepted,
  how imports added by rules get into the importcfg files of the compile and link steps, and the
  chain of nested builds that resolving such an import starts.

  The build cache that yields archives, the files of other processes and the state of the file
  system are parameters. A Go map that is ranged over is given in the order of the iteration.

  Shown: nested builds end and never wait for themselves; the importcfg written reads back with
  every added import in it, and the link step sees what the compile steps added.
\<close>

section \<open>Command lines\<close>

fun stripCompleteFlag :: "string list \<Rightarrow> string list" where
  "stripCompleteFlag [] = []"
| "stripCompleteFlag (a # as) = (if a = ''-complete'' then as else a # stripCompleteFlag as)"

datatype toolAction = VersionProbe | CompileStep | LinkStep | VetStep | RunUnchanged

definition interceptToolCommand :: "string list \<Rightarrow> toolAction" where
  "interceptToolCommand args =
     (if isCompileCommandWithArgs args then CompileStep
      else if isLinkCommandWithArgs args then LinkStep
      else if args \<noteq> [] \<and> trimSuffix (pathBase (hd args)) ''.exe'' = ''vet'' then VetStep
      else RunUnchanged)"

definition toolexec :: "string list \<Rightarrow> bool \<Rightarrow> toolAction" where
  "toolexec args nested =
     (if length args = 2 \<and> args ! 1 = ''-V=full'' then VersionProbe
      else if \<not> nested then interceptToolCommand args
      else if isCompileCommandWithArgs args then CompileStep
      else RunUnchanged)"

lemma nested_compiles_alike:
  "toolexec args True = (if toolexec args False \<in> {LinkStep, VetStep} then RunUnchanged else toolexec args False)"
  by (simp add: toolexec_def interceptToolCommand_def)

definition toolVersionLine :: "string \<Rightarrow> string \<Rightarrow> string \<Rightarrow> string" where
  "toolVersionLine version line rulesHash =
     (let hasBuildID = contains line '' buildID='';
          marker = ''otelc@'' @ version @
            (if rulesHash = [] then [] else (if hasBuildID then ''+'' else ''/'') @ rulesHash)
      in line @ (if hasBuildID then ''+'' else '' '') @ marker)"

lemma toolVersionLine_inj: "toolVersionLine v l h = toolVersionLine v l h' \<longleftrightarrow> h = h'"
  by (auto simp: toolVersionLine_def Let_def split: if_splits)

definition cgoVetSourcePath :: "string \<Rightarrow> string" where
  "cgoVetSourcePath path = trimSuffix path ''.cgo1.go'' @ ''.otelc.vet.go''"

text \<open>The files of a vet step: for each, whether its preserved source exists, \<open>None\<close> if that is unknown\<close>

fun interceptVetFiles :: "(string \<Rightarrow> bool option) \<Rightarrow> string list \<Rightarrow> (string list \<times> bool) option" where
  "interceptVetFiles exists [] = Some ([], False)"
| "interceptVetFiles exists (f # fs) =
     (if \<not> hasSuffix f ''.cgo1.go'' then map_option (\<lambda>(gs, u). (f # gs, u)) (interceptVetFiles exists fs)
      else case exists (cgoVetSourcePath f) of
             None \<Rightarrow> None
           | Some False \<Rightarrow> map_option (\<lambda>(gs, u). (f # gs, u)) (interceptVetFiles exists fs)
           | Some True \<Rightarrow> map_option (\<lambda>(gs, u). (cgoVetSourcePath f # gs, True)) (interceptVetFiles exists fs))"

section \<open>The chain of nested builds\<close>

record resolution =
  resPkg :: string
  resAdded :: string

definition parseResolutionChain :: "string \<Rightarrow> resolution list" where
  "parseResolutionChain s =
     (if s = [] then []
      else map (\<lambda>entry. case strCut entry (CHR ''>'') of (pkg, added, found) \<Rightarrow> \<lparr>resPkg = pkg, resAdded = added\<rparr>)
             (splitOn (CHR '','') s))"

definition encodeResolutionChain :: "resolution list \<Rightarrow> string" where
  "encodeResolutionChain chain = joinWith '','' (map (\<lambda>r. resPkg r @ ''>'' @ resAdded r) chain)"

definition maxResolutionChain :: nat where
  "maxResolutionChain = 32"

datatype resolveError =
    ImportCycle "resolution list"
  | TooDeep "resolution list"
  | ResolveFailed string

text \<open>The value of the environment variable, if set, and the value for the nested build\<close>

definition enterNestedResolution :: "string \<Rightarrow> string \<Rightarrow> string option \<Rightarrow> resolveError + string" where
  "enterNestedResolution pkg added prev =
     (let chain = parseResolutionChain (case prev of None \<Rightarrow> [] | Some s \<Rightarrow> s) @ [\<lparr>resPkg = pkg, resAdded = added\<rparr>]
      in if list_ex (\<lambda>r. resPkg r = added) chain then Inl (ImportCycle chain)
         else if length chain > maxResolutionChain then Inl (TooDeep chain)
         else Inr (encodeResolutionChain chain))"

text \<open>Import paths hold no separator: cmd/go rejects such paths.\<close>

definition cleanPath :: "string \<Rightarrow> bool" where
  "cleanPath p \<longleftrightarrow> CHR '','' \<notin> set p \<and> CHR ''>'' \<notin> set p"

definition codableChain :: "resolution list \<Rightarrow> bool" where
  "codableChain chain \<longleftrightarrow> chain \<noteq> [] \<and>
     list_all (\<lambda>r. CHR '','' \<notin> set (resPkg r @ resAdded r) \<and> CHR ''>'' \<notin> set (resPkg r)) chain"

lemma chain_roundtrip:
  assumes "codableChain chain"
  shows "parseResolutionChain (encodeResolutionChain chain) = chain"
proof -
  let ?e = "\<lambda>r. resPkg r @ CHR ''>'' # resAdded r"
  have "splitOn (CHR '','') (joinWith [CHR '',''] (map ?e chain)) = map ?e chain"
    using assms by (intro split_join) (auto simp: codableChain_def list_all_iff)
  then have split: "splitOn (CHR '','') (encodeResolutionChain chain) = map ?e chain"
    by (simp add: encodeResolutionChain_def)
  have "encodeResolutionChain chain \<noteq> []"
    using assms by (cases chain rule: remdups_adj.cases) (auto simp: encodeResolutionChain_def codableChain_def)
  moreover have "map (\<lambda>entry. case strCut entry (CHR ''>'') of (pkg, added, found) \<Rightarrow> \<lparr>resPkg = pkg, resAdded = added\<rparr>)
      (map ?e chain) = chain"
    using assms by (auto simp: codableChain_def list_all_iff intro: map_idI)
  ultimately show ?thesis by (simp add: parseResolutionChain_def split)
qed

interpretation chain: text_codec codableChain encodeResolutionChain "\<lambda>s. Some (parseResolutionChain s)"
  by unfold_locales (simp add: chain_roundtrip)

lemma splitOn_parts: "w \<in> set (splitOn c s) \<Longrightarrow> c \<notin> set w"
  by (induction s arbitrary: w) (auto split: list.splits if_splits)

lemma parse_codable: "list_all (\<lambda>r. CHR '','' \<notin> set (resPkg r @ resAdded r) \<and> CHR ''>'' \<notin> set (resPkg r)) (parseResolutionChain s)"
proof -
  have "CHR '','' \<notin> set (a @ b) \<and> CHR ''>'' \<notin> set a"
    if "w \<in> set (splitOn (CHR '','') s)" and "strCut w (CHR ''>'') = (a, b, found)" for w a b found
    using splitOn_parts [OF that(1)] that(2) by (cases found) (auto dest: strCut_TrueD strCut_FalseD)
  then show ?thesis by (fastforce simp: parseResolutionChain_def list_all_iff split: prod.splits)
qed

text \<open>A nested build sees the chain of the outer one with one more entry.\<close>

lemma enter_extends:
  assumes "enterNestedResolution pkg added prev = Inr env" and "cleanPath pkg" and "cleanPath added"
  defines "chain \<equiv> parseResolutionChain (case prev of None \<Rightarrow> [] | Some s \<Rightarrow> s)"
  shows "parseResolutionChain env = chain @ [\<lparr>resPkg = pkg, resAdded = added\<rparr>] \<and>
    length chain < maxResolutionChain \<and> added \<noteq> pkg \<and> (\<forall>r \<in> set chain. resPkg r \<noteq> added)"
proof -
  let ?c = "chain @ [\<lparr>resPkg = pkg, resAdded = added\<rparr>]"
  have e: "env = encodeResolutionChain ?c" and l: "length ?c \<le> maxResolutionChain"
    and n: "\<not> list_ex (\<lambda>r. resPkg r = added) ?c"
    using assms(1) by (auto simp: enterNestedResolution_def chain_def Let_def split: if_splits)
  have "codableChain ?c"
    using parse_codable assms(2,3) by (auto simp: codableChain_def chain_def cleanPath_def)
  from chain_roundtrip [OF this] e l n show ?thesis by (auto simp: list_ex_iff)
qed

inductive nests :: "string option \<Rightarrow> string option \<Rightarrow> bool" where
  enter: "enterNestedResolution pkg added prev = Inr env \<Longrightarrow> cleanPath pkg \<Longrightarrow> cleanPath added \<Longrightarrow>
    nests prev (Some env)"

inductive_cases nestsE: "nests prev env"

definition chainOf :: "string option \<Rightarrow> resolution list" where
  "chainOf env = parseResolutionChain (case env of None \<Rightarrow> [] | Some s \<Rightarrow> s)"

text \<open>No package of the chain is added by itself or by a package further down.\<close>

definition acyclic_chain :: "resolution list \<Rightarrow> bool" where
  "acyclic_chain chain \<longleftrightarrow> (\<forall>i j. i \<le> j \<longrightarrow> j < length chain \<longrightarrow> resPkg (chain ! i) \<noteq> resAdded (chain ! j))"

lemma nests_step:
  "nests prev env \<Longrightarrow> length (chainOf env) = Suc (length (chainOf prev)) \<and> length (chainOf env) \<le> maxResolutionChain \<and>
     (acyclic_chain (chainOf prev) \<longrightarrow> acyclic_chain (chainOf env))"
proof (erule nestsE)
  fix pkg added e
  assume "env = Some e" and "enterNestedResolution pkg added prev = Inr e" and "cleanPath pkg" and "cleanPath added"
  note E = enter_extends [OF this(2-4)]
  then have c: "chainOf env = chainOf prev @ [\<lparr>resPkg = pkg, resAdded = added\<rparr>]"
    by (simp add: chainOf_def \<open>env = Some e\<close>)
  have "acyclic_chain (chainOf env)" if a: "acyclic_chain (chainOf prev)"
    unfolding acyclic_chain_def c
  proof (intro allI impI)
    fix i j
    assume ij: "i \<le> j" and j: "j < length (chainOf prev @ [\<lparr>resPkg = pkg, resAdded = added\<rparr>])"
    show "resPkg ((chainOf prev @ [\<lparr>resPkg = pkg, resAdded = added\<rparr>]) ! i) \<noteq>
        resAdded ((chainOf prev @ [\<lparr>resPkg = pkg, resAdded = added\<rparr>]) ! j)"
    proof (cases "j < length (chainOf prev)")
      case True
      with a ij show ?thesis by (simp add: acyclic_chain_def nth_append)
    next
      case False
      with j have "j = length (chainOf prev)" by simp
      then show ?thesis using E ij
        by (cases "i < length (chainOf prev)") (auto simp: nth_append chainOf_def)
    qed
  qed
  with c E show ?thesis by (simp add: chainOf_def)
qed

lemma nests_count: "(nests ^^ n) prev env \<Longrightarrow> length (chainOf env) = length (chainOf prev) + n \<and> (0 < n \<longrightarrow> length (chainOf env) \<le> maxResolutionChain) \<and>
   (acyclic_chain (chainOf prev) \<longrightarrow> acyclic_chain (chainOf env))"
  by (induction n arbitrary: env) (auto dest!: nests_step elim!: relcomppE)

text \<open>C28: nested builds end. From no environment can builds nest more than 32 deep, so nesting is well
  founded, and along a chain that starts without one no package waits for an import that it or a
  package further up already waits to have compiled.\<close>

theorem nested_builds_end:
  "wfP (\<lambda>inner outer. nests outer inner) \<and>
   ((nests ^^ n) outer inner \<longrightarrow> n \<le> 32) \<and>
   ((nests ^^ n) None inner \<longrightarrow> length (chainOf inner) = n \<and> acyclic_chain (chainOf inner))"
proof -
  have "wfP (\<lambda>inner outer. nests outer inner)"
  proof (rule wfp_if_convertible_to_nat [where f = "\<lambda>e. Suc maxResolutionChain - length (chainOf e)"])
    fix inner outer
    assume "nests outer inner"
    then show "Suc maxResolutionChain - length (chainOf inner) < Suc maxResolutionChain - length (chainOf outer)"
      using nests_step by fastforce
  qed
  moreover have "n \<le> 32" if "(nests ^^ n) outer inner"
    using nests_count [OF that] by (cases n) (simp_all add: maxResolutionChain_def)
  moreover have "acyclic_chain (chainOf None) \<and> chainOf None = []"
    by (simp add: acyclic_chain_def chainOf_def parseResolutionChain_def)
  ultimately show ?thesis using nests_count [of n None inner] by auto
qed

theorem nested_builds_end_witness:
  "enterNestedResolution ''a'' ''b'' None = Inr ''a>b'' \<and>
   enterNestedResolution ''b'' ''a'' (Some ''a>b'') =
     Inl (ImportCycle [\<lparr>resPkg = ''a'', resAdded = ''b''\<rparr>, \<lparr>resPkg = ''b'', resAdded = ''a''\<rparr>]) \<and>
   length (chainOf (Some ''a>b'')) = 1"
proof -
  have 1: "enterNestedResolution ''a'' ''b'' None = Inr ''a>b''" by code_simp
  have 2: "enterNestedResolution ''b'' ''a'' (Some ''a>b'') =
     Inl (ImportCycle [\<lparr>resPkg = ''a'', resAdded = ''b''\<rparr>, \<lparr>resPkg = ''b'', resAdded = ''a''\<rparr>])" by code_simp
  have "nests None (Some ''a>b'')" using 1 by (rule nests.enter) (simp_all add: cleanPath_def)
  then have "(nests ^^ 1) None (Some ''a>b'')" by (simp only: relpowp_1)
  with nested_builds_end [of 1 None "Some ''a>b''"] have "length (chainOf (Some ''a>b'')) = 1" by blast
  with 1 2 show ?thesis by blast
qed

section \<open>Adding imports in a compile step\<close>

text \<open>
  Resolving a package in the environment of a nested build gives the archives of the package and
  of what it imports, \<open>None\<close> on failure. The step is for one package, in one environment.
\<close>

record compileStep =
  csPackage :: string
  csConfigPath :: string
  csConfig :: importConfig
  csEnv :: "string option"

type_synonym resolver = "string \<Rightarrow> string \<Rightarrow> (string \<times> string) list option"

fun addArchives :: "(string \<times> string) list \<Rightarrow> stringMap \<Rightarrow> stringMap" where
  "addArchives [] m = m"
| "addArchives ((pkg, archive) # as) m =
     addArchives as (if map_of m pkg = None then putKey pkg archive m else m)"

definition skippedImport :: "string \<Rightarrow> bool" where
  "skippedImport p \<longleftrightarrow> p = ''unsafe'' \<or> p = ''C''"

fun addImports :: "resolver \<Rightarrow> string \<Rightarrow> string option \<Rightarrow> string list \<Rightarrow> stringMap \<Rightarrow> resolveError + stringMap" where
  "addImports resolve pkg env [] m = Inr m"
| "addImports resolve pkg env (p # ps) m =
     (if skippedImport p \<or> map_of m p \<noteq> None then addImports resolve pkg env ps m
      else case enterNestedResolution pkg p env of
             Inl err \<Rightarrow> Inl err
           | Inr nestedEnv \<Rightarrow>
               (case resolve nestedEnv p of
                  None \<Rightarrow> Inl (ResolveFailed p)
                | Some archives \<Rightarrow> addImports resolve pkg env ps (addArchives archives m)))"

text \<open>
  The step after the update, and what is written if anything was added: the importcfg file and the
  packages tracked for the link step. Finding the archive of a package is a parameter; the property
  below asks of it what \<open>ResolveExportFiles\<close>, modelled in \<open>Package_Load\<close>, gives.
\<close>

definition updateImportConfig ::
    "resolver \<Rightarrow> compileStep \<Rightarrow> string list \<Rightarrow> resolveError + (compileStep \<times> (string \<times> stringMap) option)" where
  "updateImportConfig resolve step newImports =
     (if csConfigPath step = [] then Inr (step, None)
      else case addImports resolve (csPackage step) (csEnv step) newImports (icPackageFile (csConfig step)) of
             Inl err \<Rightarrow> Inl err
           | Inr m \<Rightarrow>
               if m = icPackageFile (csConfig step) then Inr (step, None)
               else let config = (csConfig step)\<lparr>icPackageFile := m\<rparr>
                    in Inr (step\<lparr>csConfig := config\<rparr>, Some (writeConfig config, m)))"

section \<open>The link step\<close>

text \<open>The tracking files found, each read and parsed or not; later ones win.\<close>

definition loadAddedImports :: "stringMap option list \<Rightarrow> stringMap" where
  "loadAddedImports files =
     foldl (\<lambda>m f. case f of None \<Rightarrow> m | Some n \<Rightarrow> foldl (\<lambda>m (k, v). putKey k v m) m n) [] files"

text \<open>The contents of the importcfg of the link step and the content written, if any\<close>

definition interceptLink :: "string list \<Rightarrow> stringMap option list \<Rightarrow> string \<Rightarrow> (string option) option" where
  "interceptLink args files content =
     (if findFlagValue args ''-importcfg'' = [] then Some None
      else let added = loadAddedImports files
           in if added = [] then Some None
              else case parseConfig content of
                     None \<Rightarrow> None
                   | Some config \<Rightarrow>
                       let m = addArchives added (icPackageFile config)
                       in if m = icPackageFile config then Some None
                          else Some (Some (writeConfig (config\<lparr>icPackageFile := m\<rparr>))))"

section \<open>What the steps achieve\<close>

lemma addArchives_lookup:
  "map_of (addArchives as m) k = (case map_of m k of Some v \<Rightarrow> Some v | None \<Rightarrow> map_of as k)"
  by (induction as m rule: addArchives.induct) (auto split: option.splits)

lemma addArchives_ordered: "ordered m \<Longrightarrow> ordered (addArchives as m)"
  by (induction as m rule: addArchives.induct) (simp_all add: ordered_putKey)

lemma addArchives_set: "set (addArchives as m) \<subseteq> set m \<union> set as"
proof (induction as m rule: addArchives.induct)
  case (2 pkg archive as m)
  then show ?case using set_putKey [of pkg archive m] by (auto split: if_splits)
qed simp

text \<open>What the code relies on: a package that resolves is among its archives, and names and archives
  fit on a line of an importcfg file.\<close>

definition resolverOk :: "resolver \<Rightarrow> bool" where
  "resolverOk resolve \<longleftrightarrow> (\<forall>env p as. resolve env p = Some as \<longrightarrow>
     map_of as p \<noteq> None \<and> list_all (cleanEntry ''packagefile'') as)"

lemma addImports_result:
  assumes "resolverOk resolve" and "addImports resolve pkg env ps m = Inr m'"
  shows "(\<forall>k v. map_of m k = Some v \<longrightarrow> map_of m' k = Some v) \<and>
    (\<forall>p \<in> set ps. skippedImport p \<or> map_of m' p \<noteq> None) \<and>
    (ordered m \<longrightarrow> ordered m') \<and>
    (list_all (cleanEntry ''packagefile'') m \<longrightarrow> list_all (cleanEntry ''packagefile'') m')"
  using assms(2)
proof (induction ps arbitrary: m)
  case Nil
  then show ?case by simp
next
  case (Cons p ps)
  show ?case
  proof (cases "skippedImport p \<or> map_of m p \<noteq> None")
    case True
    with Cons.prems have "addImports resolve pkg env ps m = Inr m'" by simp
    note IH = Cons.IH [OF this]
    then show ?thesis using True by auto
  next
    case False
    with Cons.prems obtain e as where r: "resolve e p = Some as"
      and rest: "addImports resolve pkg env ps (addArchives as m) = Inr m'"
      by (auto split: sum.splits option.splits)
    have as: "map_of as p \<noteq> None" "list_all (cleanEntry ''packagefile'') as"
      using assms(1) r by (auto simp: resolverOk_def)
    note IH = Cons.IH [OF rest]
    have keep: "map_of m' k = Some v" if "map_of m k = Some v" for k v
      using IH that by (simp add: addArchives_lookup)
    have "map_of (addArchives as m) p \<noteq> None" using as(1) by (auto simp: addArchives_lookup split: option.splits)
    then have "map_of m' p \<noteq> None" using IH by auto
    moreover have "list_all (cleanEntry ''packagefile'') (addArchives as m)" if "list_all (cleanEntry ''packagefile'') m"
      using that as(2) addArchives_set [of as m] by (auto simp: list_all_iff)
    moreover have "ordered (addArchives as m)" if "ordered m" by (rule addArchives_ordered [OF that])
    ultimately show ?thesis using IH keep by simp
  qed
qed

lemma updateImportConfig_result:
  assumes "resolverOk resolve" and "validConfig (csConfig step)" and "csConfigPath step \<noteq> []"
    and "updateImportConfig resolve step newImports = Inr (step', out)"
  shows "(\<forall>k v. map_of (icPackageFile (csConfig step)) k = Some v \<longrightarrow> map_of (icPackageFile (csConfig step')) k = Some v) \<and>
    (\<forall>p \<in> set newImports. skippedImport p \<or> map_of (icPackageFile (csConfig step')) p \<noteq> None) \<and>
    validConfig (csConfig step') \<and>
    (case out of None \<Rightarrow> step' = step
     | Some (content, tracked) \<Rightarrow> parseConfig content = Some (csConfig step') \<and> tracked = icPackageFile (csConfig step'))"
proof -
  obtain m where m: "addImports resolve (csPackage step) (csEnv step) newImports (icPackageFile (csConfig step)) = Inr m"
    using assms(3,4) by (auto simp: updateImportConfig_def split: sum.splits)
  note R = addImports_result [OF assms(1) m]
  show ?thesis
  proof (cases "m = icPackageFile (csConfig step)")
    case True
    with assms(3,4) m have "step' = step" "out = None" by (auto simp: updateImportConfig_def)
    with R True assms(2) show ?thesis by simp
  next
    case False
    let ?c = "(csConfig step)\<lparr>icPackageFile := m\<rparr>"
    from False assms(3,4) m have "step' = step\<lparr>csConfig := ?c\<rparr>" "out = Some (writeConfig ?c, m)"
      by (auto simp: updateImportConfig_def Let_def)
    moreover have "validConfig ?c" using R assms(2) by (simp add: validConfig_def)
    ultimately show ?thesis using R write_parse [of ?c] by simp
  qed
qed

text \<open>C29: when updating the importcfg of a compile step succeeds, every import a rule added has its
  archive in it, except \<open>unsafe\<close> and \<open>C\<close>, every entry there was is unchanged, and if a file was
  written, reading it gives exactly this configuration, whose packages are tracked for the link.\<close>

theorem compile_step_complete:
  assumes "resolverOk resolve" and "validConfig (csConfig step)" and "csConfigPath step \<noteq> []"
    and "updateImportConfig resolve step newImports = Inr (step', out)"
  shows "(\<forall>k v. map_of (icPackageFile (csConfig step)) k = Some v \<longrightarrow> map_of (icPackageFile (csConfig step')) k = Some v) \<and>
    (\<forall>p \<in> set newImports. skippedImport p \<or> map_of (icPackageFile (csConfig step')) p \<noteq> None) \<and>
    validConfig (csConfig step') \<and>
    (case out of None \<Rightarrow> step' = step
     | Some (content, tracked) \<Rightarrow> parseConfig content = Some (csConfig step') \<and> tracked = icPackageFile (csConfig step'))"
  by (rule updateImportConfig_result [OF assms])

definition demoStep :: compileStep where
  "demoStep = \<lparr>csPackage = ''app'', csConfigPath = ''/w/importcfg'', csConfig = emptyConfig, csEnv = None\<rparr>"

definition demoResolver :: resolver where
  "demoResolver env p = (if p = ''hook'' then Some [(''hook'', ''/c/hook.a''), (''fmt'', ''/c/fmt.a'')] else None)"

lemma demoResolver_ok: "resolverOk demoResolver"
proof -
  have "trailingSpace ''/c/hook.a'' = None" "trailingSpace ''/c/fmt.a'' = None" by code_simp+
  then show ?thesis by (simp add: resolverOk_def demoResolver_def cleanEntry_def maxImportCfgLineSize_def)
qed

lemma demoStep_valid: "validConfig (csConfig demoStep)" "csConfigPath demoStep \<noteq> []"
  by (simp_all add: demoStep_def emptyConfig_def validConfig_def ordered_def)

theorem compile_step_complete_witness:
  "(case updateImportConfig demoResolver demoStep [''unsafe'', ''hook''] of
      Inr (step', Some (content, tracked)) \<Rightarrow> parseConfig content = Some (csConfig step') \<and> map fst tracked = [''fmt'', ''hook'']
    | _ \<Rightarrow> False)"
proof -
  have u: "updateImportConfig demoResolver demoStep [''unsafe'', ''hook''] =
    Inr (demoStep\<lparr>csConfig := emptyConfig\<lparr>icPackageFile := [(''fmt'', ''/c/fmt.a''), (''hook'', ''/c/hook.a'')]\<rparr>\<rparr>,
      Some (writeConfig (emptyConfig\<lparr>icPackageFile := [(''fmt'', ''/c/fmt.a''), (''hook'', ''/c/hook.a'')]\<rparr>),
            [(''fmt'', ''/c/fmt.a''), (''hook'', ''/c/hook.a'')]))"
    by (simp add: updateImportConfig_def demoStep_def emptyConfig_def skippedImport_def enterNestedResolution_def
        parseResolutionChain_def maxResolutionChain_def demoResolver_def Let_def)
  from compile_step_complete [OF demoResolver_ok demoStep_valid u] show ?thesis by (simp add: u)
qed

lemma putKeys_keys: "fst ` set (foldl (\<lambda>m (k, v). putKey k v m) m n) = fst ` set m \<union> fst ` set n"
  by (induction n arbitrary: m) (simp_all add: keys_putKey split_beta)

lemma putKeys_entries: "set (foldl (\<lambda>m (k, v). putKey k v m) m n) \<subseteq> set m \<union> set n"
proof (induction n arbitrary: m)
  case Nil
  then show ?case by simp
next
  case (Cons e n)
  then have "set (foldl (\<lambda>m (k, v). putKey k v m) (putKey (fst e) (snd e) m) n) \<subseteq> set (putKey (fst e) (snd e) m) \<union> set n"
    by blast
  with set_putKey [of "fst e" "snd e" m] show ?case by (cases e) auto
qed

definition mergeFiles :: "stringMap \<Rightarrow> stringMap option list \<Rightarrow> stringMap" where
  "mergeFiles m files = foldl (\<lambda>m f. case f of None \<Rightarrow> m | Some n \<Rightarrow> foldl (\<lambda>m (k, v). putKey k v m) m n) m files"

lemma mergeFiles_keys: "fst ` set (mergeFiles m files) = fst ` set m \<union> (\<Union>f \<in> {f. Some f \<in> set files}. fst ` set f)"
  by (induction files arbitrary: m) (auto simp: mergeFiles_def putKeys_keys split: option.split)

lemma mergeFiles_entries: "set (mergeFiles m files) \<subseteq> set m \<union> (\<Union>f \<in> {f. Some f \<in> set files}. set f)"
proof (induction files arbitrary: m)
  case Nil
  then show ?case by (simp add: mergeFiles_def)
next
  case (Cons f files)
  show ?case
  proof (cases f)
    case None
    with Cons.IH [of m] show ?thesis by (auto simp: mergeFiles_def)
  next
    case (Some n)
    let ?m = "foldl (\<lambda>m (k, v). putKey k v m) m n"
    have "mergeFiles m (f # files) = mergeFiles ?m files" using Some by (simp add: mergeFiles_def)
    moreover have "set ?m \<subseteq> set m \<union> set n" by (rule putKeys_entries)
    moreover note Cons.IH [of ?m]
    ultimately show ?thesis using Some by auto
  qed
qed

lemma loadAddedImports_merge: "loadAddedImports files = mergeFiles [] files"
  by (simp add: loadAddedImports_def mergeFiles_def)

text \<open>After the link step, the importcfg has an archive for every package that a compile step has
  tracked in a readable file, and every entry it had before is unchanged.\<close>

theorem link_sees_added:
  assumes "interceptLink args files content = Some out" and "findFlagValue args ''-importcfg'' \<noteq> []"
    and "parseConfig content = Some config"
    and "\<forall>f \<in> {f. Some f \<in> set files}. list_all (cleanEntry ''packagefile'') f"
  shows "\<exists>config'. parseConfig (case out of None \<Rightarrow> content | Some new \<Rightarrow> new) = Some config' \<and>
    (\<forall>k v. map_of (icPackageFile config) k = Some v \<longrightarrow> map_of (icPackageFile config') k = Some v) \<and>
    (\<forall>f \<in> {f. Some f \<in> set files}. \<forall>p \<in> fst ` set f. map_of (icPackageFile config') p \<noteq> None)"
proof -
  let ?added = "loadAddedImports files"
  let ?m = "addArchives ?added (icPackageFile config)"
  have keys: "\<forall>f \<in> {f. Some f \<in> set files}. \<forall>p \<in> fst ` set f. map_of ?m p \<noteq> None"
  proof (intro ballI)
    fix f p
    assume "f \<in> {f. Some f \<in> set files}" and "p \<in> fst ` set f"
    then have "p \<in> fst ` set ?added" using mergeFiles_keys [of "[]" files] by (auto simp: loadAddedImports_merge)
    then have "map_of ?added p \<noteq> None" by (simp add: map_of_eq_None_iff)
    then show "map_of ?m p \<noteq> None" by (auto simp: addArchives_lookup split: option.split)
  qed
  have keep: "\<forall>k v. map_of (icPackageFile config) k = Some v \<longrightarrow> map_of ?m k = Some v"
    by (simp add: addArchives_lookup)
  have same: "?m = icPackageFile config" if "?added = []" using that by simp
  show ?thesis
  proof (cases "?m = icPackageFile config")
    case True
    then have "out = None" using assms(1-3) by (auto simp: interceptLink_def Let_def split: if_splits)
    with True keys assms(3) show ?thesis by simp
  next
    case False
    then have "?added \<noteq> []" using same by blast
    with False assms(1-3) have out: "out = Some (writeConfig (config\<lparr>icPackageFile := ?m\<rparr>))"
      by (simp add: interceptLink_def Let_def)
    have "list_all (cleanEntry ''packagefile'') ?m"
    proof -
      have "list_all (cleanEntry ''packagefile'') (icPackageFile config)"
        using parseConfig_valid [OF assms(3)] by (simp add: validConfig_def)
      moreover have "list_all (cleanEntry ''packagefile'') ?added"
        using mergeFiles_entries [of "[]" files] assms(4) unfolding loadAddedImports_merge list_all_iff by auto
      ultimately show ?thesis using addArchives_set [of ?added "icPackageFile config"] unfolding list_all_iff by blast
    qed
    then have "validConfig (config\<lparr>icPackageFile := ?m\<rparr>)"
      using parseConfig_valid [OF assms(3)] by (simp add: validConfig_def addArchives_ordered)
    then have "parseConfig (case out of None \<Rightarrow> content | Some new \<Rightarrow> new) = Some (config\<lparr>icPackageFile := ?m\<rparr>)"
      by (simp add: write_parse out)
    moreover have pf: "icPackageFile (config\<lparr>icPackageFile := ?m\<rparr>) = ?m" by simp
    ultimately show ?thesis
      by (intro exI [of _ "config\<lparr>icPackageFile := ?m\<rparr>"] conjI; (unfold pf)?) (assumption | rule keep keys)+
  qed
qed

theorem link_sees_added_witness:
  "\<exists>config'. parseConfig (writeConfig (emptyConfig\<lparr>icPackageFile := [(''hook'', ''/c/hook.a'')]\<rparr>)) = Some config' \<and>
     map_of (icPackageFile config') ''hook'' \<noteq> None"
proof -
  let ?args = "[''/t/link'', ''-importcfg'', ''i'']"
  let ?files = "[None, Some [(''hook'', ''/c/hook.a'')]]"
  have i: "findFlagValue ?args ''-importcfg'' \<noteq> []" by code_simp
  have e: "parseConfig [] = Some emptyConfig" by (simp add: parseConfig_def rawLines_def)
  have l: "interceptLink ?args ?files [] = Some (Some (writeConfig (emptyConfig\<lparr>icPackageFile := [(''hook'', ''/c/hook.a'')]\<rparr>)))"
    using i by (simp add: interceptLink_def loadAddedImports_def e del: findFlagValue.simps) (simp add: emptyConfig_def)
  have "trailingSpace ''/c/hook.a'' = None" by code_simp
  then have c: "\<forall>f \<in> {f. Some f \<in> set ?files}. list_all (cleanEntry ''packagefile'') f"
    by (simp add: cleanEntry_def maxImportCfgLineSize_def)
  from link_sees_added [OF l i e c] show ?thesis by auto
qed

section \<open>Nested go commands\<close>

definition nestedToolexecGoflagsToken :: "string \<Rightarrow> string option" where
  "nestedToolexecGoflagsToken execPath = Option.bind (buildToolexecFlag execPath) quoteGoflagsToken"

definition nestedGoflags :: "string \<Rightarrow> string \<Rightarrow> string option" where
  "nestedGoflags goflags execPath =
     map_option (\<lambda>token. trimSpace (goflags @ '' '' @ token)) (nestedToolexecGoflagsToken execPath)"

text \<open>The token unquotes to a \<open>-toolexec\<close> flag that names the executable in two further fields.\<close>

lemma nested_token_fields:
  assumes "execPath \<noteq> []" and "nestedToolexecGoflagsToken execPath = Some token"
  shows "splitGoflags token = [token] \<and>
    (\<exists>v. unquoteGoflagsToken token = ''-toolexec='' @ v \<and>
       map unquoteGoflagsToken (splitGoflags v) = [execPath, ''toolexec''])"
proof -
  obtain f where f: "buildToolexecFlag execPath = Some f" and q: "quoteGoflagsToken f = Some token"
    using assms(2) by (auto simp: nestedToolexecGoflagsToken_def bind_eq_Some_conv)
  obtain v where v: "f = ''-toolexec='' @ v" "map unquoteGoflagsToken (splitGoflags v) = [execPath, ''toolexec'']"
    using buildToolexecFlag_fields [OF assms(1) f] by (elim exE conjE) (rule that)
  have "f \<noteq> []" unfolding v(1) by simp
  from quoteGoflagsToken_complete [OF this q] have u: "unquoteGoflagsToken token = f" and c: "completeToken token" by blast+
  have s: "splitGoflags token = [token]" by (rule splitGoflags_complete(1) [OF c])
  show ?thesis
  proof (intro conjI exI)
    show "unquoteGoflagsToken token = ''-toolexec='' @ v" by (simp only: u v(1))
  qed (fact s, fact v(2))
qed

end
