(* ===== verification/Rule_Imports.thy ===== *)
theory Rule_Imports
  imports Go_Code Type_Names Toolexec "HOL-Library.Multiset"
begin

text \<open>
  Imports that rules add to a file: \<open>tool/internal/imports/imports.go\<close> and
  \<open>tool/internal/instrument/imports.go\<close>. Rule code names packages by the aliases of the rule. If
  the file imports a package under another name, this name is put into the rule code; otherwise
  an import is added.

  A Go map that is ranged over is the list of its entries in the order of the iteration. The name
  that a package declares comes from the go command and is a parameter; when it cannot be
  resolved, the process exits, \<open>Exited\<close>.

  Shown: where rule code names a package by an alias of the rule, the name it has after the
  rewriting names this package in the file.
\<close>

section \<open>The imports of a file\<close>

record importMapping =
  imAliasToPath :: stringMap
  imPathToAlias :: stringMap
  imPathToAliases :: "string list keyMap"
  imExplicitAlias :: "bool keyMap"

definition emptyMapping :: importMapping where
  "emptyMapping = \<lparr>imAliasToPath = [], imPathToAlias = [], imPathToAliases = [], imExplicitAlias = []\<rparr>"

text \<open>\<open>strings.Trim\<close> with the double quote\<close>

definition trimQuotes :: "string \<Rightarrow> string" where
  "trimQuotes s = rev (dropWhile (\<lambda>c. c = CHR 0x22) (rev (dropWhile (\<lambda>c. c = CHR 0x22) s)))"

definition declImports :: "decl list \<Rightarrow> importSpec list" where
  "declImports ds = concat (map (\<lambda>d. case d of
       GenDecl ImportTok specs \<Rightarrow>
         concat (map (\<lambda>s. case s of ImportSpec i \<Rightarrow> (if impPath i = None then [] else [i]) | _ \<Rightarrow> []) specs)
     | _ \<Rightarrow> []) ds)"

text \<open>The local name of an import, its path, and whether the name is explicit\<close>

type_synonym nameResolver = "string \<Rightarrow> string option"

definition importEntry :: "nameResolver \<Rightarrow> importSpec \<Rightarrow> (string \<times> string \<times> bool) option" where
  "importEntry pkgName i =
     (let importPath = trimQuotes (the (impPath i))
      in case impName i of
           Some name \<Rightarrow> Some (name, importPath, True)
         | None \<Rightarrow> map_option (\<lambda>alias. (alias, importPath, False)) (pkgName importPath))"

definition addEntry :: "importMapping \<Rightarrow> string \<times> string \<times> bool \<Rightarrow> importMapping" where
  "addEntry m e =
     (case e of (alias, importPath, explicit) \<Rightarrow>
        \<lparr>imAliasToPath = putKey alias importPath (imAliasToPath m),
         imPathToAlias = putKey importPath alias (imPathToAlias m),
         imPathToAliases = putKey importPath
           ((case map_of (imPathToAliases m) importPath of None \<Rightarrow> [] | Some as \<Rightarrow> as) @ [alias]) (imPathToAliases m),
         imExplicitAlias = (if explicit then putKey importPath True (imExplicitAlias m) else imExplicitAlias m)\<rparr>)"

definition sortAliases :: "importMapping \<Rightarrow> importMapping" where
  "sortAliases m = m\<lparr>imPathToAliases := map (\<lambda>(p, as). (p, sort as)) (imPathToAliases m)\<rparr>"

definition fileEntries :: "nameResolver \<Rightarrow> dstFile \<Rightarrow> (string \<times> string \<times> bool) list option" where
  "fileEntries pkgName root = those (map (importEntry pkgName) (declImports (fileDecls root)))"

definition parseFileImports :: "nameResolver \<Rightarrow> dstFile \<Rightarrow> importMapping option" where
  "parseFileImports pkgName root =
     map_option (\<lambda>es. sortAliases (foldl addEntry emptyMapping es)) (fileEntries pkgName root)"

definition CollectPaths :: "nameResolver \<Rightarrow> dstFile \<Rightarrow> stringMap option" where
  "CollectPaths pkgName root =
     map_option (\<lambda>m. map (\<lambda>(p, a). (p, p)) (imPathToAlias m)) (parseFileImports pkgName root)"

section \<open>Which imports are new\<close>

record resolutionOf =
  roNewImports :: "(string \<times> string) list"
  roExistingAliases :: stringMap
  roExistingAliasSets :: "string list keyMap"
  roExplicitAliases :: "bool keyMap"

definition FindNew :: "nameResolver \<Rightarrow> dstFile \<Rightarrow> (string \<times> string) list \<Rightarrow> resolutionOf option" where
  "FindNew pkgName root ruleImps =
     (if ruleImps = [] then
        Some \<lparr>roNewImports = [], roExistingAliases = [], roExistingAliasSets = [], roExplicitAliases = []\<rparr>
      else map_option (\<lambda>m.
        \<lparr>roNewImports = filter (\<lambda>(alias, p). map_of (imPathToAlias m) p = None) ruleImps,
         roExistingAliases = imPathToAlias m, roExistingAliasSets = imPathToAliases m,
         roExplicitAliases = imExplicitAlias m\<rparr>) (parseFileImports pkgName root))"

section \<open>Adding imports\<close>

text \<open>\<open>strconv.Quote\<close>, a byte at a time; characters beyond ASCII are printable and kept.\<close>

definition hexChar :: "nat \<Rightarrow> char" where
  "hexChar d = char_of (if d < 10 then d + 48 else d + 87)"

definition quoteByte :: "char \<Rightarrow> string" where
  "quoteByte c =
     (case map_of (map (\<lambda>(k, b). (b, k)) simpleEscapes) c of
        Some k \<Rightarrow> [CHR 0x5C, k]
      | None \<Rightarrow>
          let n = of_char c :: nat
          in if n < 0x20 \<or> n = 0x7F then [CHR 0x5C, CHR ''x'', hexChar (n div 16), hexChar (n mod 16)] else [c])"

definition goQuote :: "string \<Rightarrow> string" where
  "goQuote s = CHR 0x22 # concat (map quoteByte s) @ [CHR 0x22]"

definition createSpec :: "nameResolver \<Rightarrow> string \<times> string \<Rightarrow> spec option" where
  "createSpec pkgName e =
     (case e of (alias, importPath) \<Rightarrow>
        map_option (\<lambda>name. ImportSpec
            \<lparr>impName = (if alias = ''_'' \<or> alias \<noteq> name then Some alias else None),
             impPath = Some (goQuote importPath)\<rparr>) (pkgName importPath))"

text \<open>\<open>findFirstDecl\<close> and the additions to the declaration it finds\<close>

fun addToFirst :: "spec list \<Rightarrow> decl list \<Rightarrow> decl list option" where
  "addToFirst new [] = None"
| "addToFirst new (GenDecl ImportTok specs # ds) = Some (GenDecl ImportTok (specs @ new) # ds)"
| "addToFirst new (d # ds) = map_option (Cons d) (addToFirst new ds)"

datatype importError =
    Exited
  | ImportConflict string string string
  | AliasMismatch string string
  | DotConflict string
  | UpdateFailed resolveError

definition freeAlias :: "string \<Rightarrow> bool" where
  "freeAlias alias \<longleftrightarrow> alias = ''_'' \<or> alias = ''.''"

text \<open>The file, and what is left of the new imports\<close>

definition AddToFile ::
    "nameResolver \<Rightarrow> dstFile \<Rightarrow> (string \<times> string) list \<Rightarrow> importError + dstFile \<times> (string \<times> string) list" where
  "AddToFile pkgName root newImports =
     (if newImports = [] then Inr (root, [])
      else case parseFileImports pkgName root of
        None \<Rightarrow> Inl Exited
      | Some m \<Rightarrow>
          let existingImports = imAliasToPath m;
              existingByPath = foldl (\<lambda>b (alias, p). putKey p alias b) [] existingImports
          in case find (\<lambda>(alias, newPath). \<not> freeAlias alias \<and> map_of existingImports alias \<notin> {None, Some newPath}) newImports of
               Some (alias, newPath) \<Rightarrow> Inl (ImportConflict alias (the (map_of existingImports alias)) newPath)
             | None \<Rightarrow>
                 let rest = filter (\<lambda>(alias, newPath). freeAlias alias \<or>
                       (map_of existingImports alias = None \<and> map_of existingByPath newPath = None)) newImports
                 in if rest = [] then Inr (root, [])
                    else case those (map (createSpec pkgName) (sort_key fst rest)) of
                           None \<Rightarrow> Inl Exited
                         | Some specs \<Rightarrow>
                             Inr (root\<lparr>fileDecls := (case addToFirst specs (fileDecls root) of
                                    Some ds \<Rightarrow> ds
                                  | None \<Rightarrow> GenDecl ImportTok specs # fileDecls root)\<rparr>, rest))"

section \<open>The imports of a rule\<close>

text \<open>The check of one import of the rule against the names the file has for its path\<close>

definition aliasProblem :: "resolutionOf \<Rightarrow> string \<times> string \<Rightarrow> importError option" where
  "aliasProblem res e =
     (case e of (ruleAlias, importPath) \<Rightarrow>
        if ruleAlias = ''.'' then
          (case map_of (roExistingAliasSets res) importPath of
             None \<Rightarrow> None
           | Some aliases \<Rightarrow> if ''.'' \<in> set aliases then None else Some (DotConflict importPath))
        else if ruleAlias = ''_'' then None
        else
          (case map_of (roExistingAliasSets res) importPath of
             None \<Rightarrow> None
           | Some aliases \<Rightarrow> if ruleAlias \<in> set aliases then None else Some (AliasMismatch ruleAlias importPath)))"

text \<open>The file and the compile step after the rule's imports, and what is written for the step\<close>

definition addRuleImports ::
    "nameResolver \<Rightarrow> resolver \<Rightarrow> compileStep \<Rightarrow> dstFile \<Rightarrow> (string \<times> string) list \<Rightarrow>
     importError + dstFile \<times> compileStep \<times> (string \<times> stringMap) option" where
  "addRuleImports pkgName resolve step root ruleImps =
     (if ruleImps = [] then Inr (root, step, None)
      else case FindNew pkgName root ruleImps of
        None \<Rightarrow> Inl Exited
      | Some res \<Rightarrow>
          (case firstSome (map (aliasProblem res) ruleImps) of
             Some err \<Rightarrow> Inl err
           | None \<Rightarrow>
               if roNewImports res = [] then Inr (root, step, None)
               else case AddToFile pkgName root (roNewImports res) of
                      Inl err \<Rightarrow> Inl err
                    | Inr (root', new) \<Rightarrow>
                        (case updateImportConfig resolve step (map snd new) of
                           Inl err \<Rightarrow> Inl (UpdateFailed err)
                         | Inr (step', out) \<Rightarrow> Inr (root', step', out))))"

definition updateImportConfigForFile ::
    "nameResolver \<Rightarrow> resolver \<Rightarrow> compileStep \<Rightarrow> dstFile \<Rightarrow> importError + compileStep \<times> (string \<times> stringMap) option" where
  "updateImportConfigForFile pkgName resolve step root =
     (case CollectPaths pkgName root of
        None \<Rightarrow> Inl Exited
      | Some paths \<Rightarrow>
          if paths = [] then Inr (step, None)
          else case updateImportConfig resolve step (map snd paths) of
                 Inl err \<Rightarrow> Inl (UpdateFailed err)
               | Inr r \<Rightarrow> Inr r)"
section \<open>What the maps hold\<close>

type_synonym importEntries = "(string \<times> string \<times> bool) list"

definition entryPairs :: "importEntries \<Rightarrow> (string \<times> string) list" where
  "entryPairs es = map (\<lambda>(alias, p, x). (alias, p)) es"

definition namesOf :: "importEntries \<Rightarrow> string \<Rightarrow> string list" where
  "namesOf es p = map fst (filter (\<lambda>e. fst (snd e) = p) es)"

lemma entryPairs_simps [simp]:
  "entryPairs [] = []" "entryPairs (e # es) = (fst e, fst (snd e)) # entryPairs es"
  "entryPairs (es @ fs) = entryPairs es @ entryPairs fs"
  by (auto simp: entryPairs_def split_beta)

lemma namesOf_iff: "a \<in> set (namesOf es p) \<longleftrightarrow> (a, p) \<in> set (entryPairs es)"
  by (induction es) (auto simp: namesOf_def)

lemma mapping_fold:
  fixes es :: importEntries
  defines "m \<equiv> foldl addEntry emptyMapping es"
  shows "map_of (imAliasToPath m) a = map_of (rev (entryPairs es)) a"
    and "map_of (imPathToAliases m) p = (if namesOf es p = [] then None else Some (namesOf es p))"
    and "map_of (imPathToAlias m) p = None \<longleftrightarrow> namesOf es p = []"
  unfolding m_def
  by (induction es rule: rev_induct)
    (auto simp: emptyMapping_def namesOf_def addEntry_def split_beta)

lemma parse_entries:
  assumes "parseFileImports pkgName root = Some m"
  obtains es where "fileEntries pkgName root = Some es"
    and "\<And>a. map_of (imAliasToPath m) a = map_of (rev (entryPairs es)) a"
    and "\<And>p. map_of (imPathToAliases m) p = (if namesOf es p = [] then None else Some (sort (namesOf es p)))"
    and "\<And>p. map_of (imPathToAlias m) p = None \<longleftrightarrow> namesOf es p = []"
proof -
  obtain es where es: "fileEntries pkgName root = Some es" "m = sortAliases (foldl addEntry emptyMapping es)"
    using assms by (auto simp: parseFileImports_def)
  have sort: "map_of (map (\<lambda>(p, as). (p, sort as)) xs) p = map_option sort (map_of xs p)" for xs :: "string list keyMap" and p
    by (simp add: map_of_map)
  show ?thesis
  proof (rule that [OF es(1)])
    show "map_of (imPathToAliases m) p = (if namesOf es p = [] then None else Some (sort (namesOf es p)))" for p
      by (simp add: es(2) sortAliases_def sort mapping_fold)
  qed (simp_all add: es(2) sortAliases_def mapping_fold)
qed

lemma map_of_pairs_None: "map_of (rev (entryPairs es)) a = None \<longleftrightarrow> a \<notin> fst ` set (entryPairs es)"
  by (simp add: map_of_eq_None_iff)

lemma pathMap_lookup:
  "map_of (foldl (\<lambda>b (alias, p). putKey p alias b) b xs) p = None \<longleftrightarrow> map_of b p = None \<and> p \<notin> snd ` set xs"
  by (induction xs arbitrary: b) (auto split: if_splits)

lemma alias_map_paths:
  assumes "\<And>a. map_of xs a = map_of (rev (entryPairs es)) a" and "ordered xs"
  shows "snd ` set xs \<subseteq> snd ` set (entryPairs es)"
proof
  fix p
  assume "p \<in> snd ` set xs"
  then obtain a where "(a, p) \<in> set xs" by auto
  then have "map_of xs a = Some p" using ordered_distinct [OF assms(2)] by (simp add: map_of_is_SomeI)
  then have "map_of (rev (entryPairs es)) a = Some p" by (simp add: assms(1))
  from map_of_SomeD [OF this] show "p \<in> snd ` set (entryPairs es)" by force
qed

lemma aliasToPath_ordered: "parseFileImports pkgName root = Some m \<Longrightarrow> ordered (imAliasToPath m)"
proof -
  have "ordered (imAliasToPath (foldl addEntry m0 es))" if "ordered (imAliasToPath m0)" for es m0
    using that by (induction es arbitrary: m0) (auto simp: addEntry_def split_beta ordered_putKey)
  moreover have "ordered (imAliasToPath emptyMapping)" by (simp add: emptyMapping_def ordered_def)
  ultimately show "parseFileImports pkgName root = Some m \<Longrightarrow> ordered (imAliasToPath m)"
    by (auto simp: parseFileImports_def sortAliases_def)
qed

section \<open>Quoted paths\<close>

text \<open>Paths of printable ASCII without quotes and backslashes are quoted as they are.\<close>

definition plainPath :: "string \<Rightarrow> bool" where
  "plainPath p \<longleftrightarrow> (\<forall>c \<in> set p. 0x20 \<le> (of_char c :: nat) \<and> (of_char c :: nat) < 0x7F \<and> c \<noteq> CHR 0x22 \<and> c \<noteq> CHR 0x5C)"

lemma quoteByte_plain: "plainPath [c] \<Longrightarrow> quoteByte c = [c]"
proof -
  assume "plainPath [c]"
  then have n: "0x20 \<le> (of_char c :: nat)" "(of_char c :: nat) < 0x7F" "c \<noteq> CHR 0x22" "c \<noteq> CHR 0x5C"
    by (simp_all add: plainPath_def)
  have "c \<noteq> d" if "(of_char d :: nat) < 0x20" for d using n(1) that by auto
  from this [of "CHR 0x07"] this [of "CHR 0x08"] this [of "CHR 0x0C"] this [of "CHR 0x0A"] this [of "CHR 0x0D"]
    this [of "CHR 0x09"] this [of "CHR 0x0B"] n(3,4)
  have "map_of (map (\<lambda>(k, b). (b, k)) simpleEscapes) c = None" by (simp add: simpleEscapes_def)
  with n show ?thesis by (simp add: quoteByte_def Let_def)
qed

lemma goQuote_plain: "plainPath p \<Longrightarrow> goQuote p = CHR 0x22 # p @ [CHR 0x22]"
proof -
  have "concat (map quoteByte p) = p" if "plainPath p"
    using that by (induction p) (simp_all add: quoteByte_plain plainPath_def)
  then show "plainPath p \<Longrightarrow> goQuote p = CHR 0x22 # p @ [CHR 0x22]" by (simp add: goQuote_def)
qed

lemma trimQuotes_plain: "plainPath p \<Longrightarrow> trimQuotes (CHR 0x22 # p @ [CHR 0x22]) = p"
proof -
  assume p: "plainPath p"
  have "dropWhile (\<lambda>c. c = CHR 0x22) q = q" if "plainPath q" for q
    using that by (cases q) (auto simp: plainPath_def)
  moreover have "plainPath (rev p)" using p by (simp add: plainPath_def)
  moreover have "dropWhile (\<lambda>c. c = CHR 0x22) (p @ [CHR 0x22]) = (if p = [] then [] else p @ [CHR 0x22])"
    using p by (cases p) (auto simp: plainPath_def)
  ultimately show ?thesis by (simp add: trimQuotes_def)
qed

lemma unquote_plainPath: "plainPath p \<Longrightarrow> unquote (CHR 0x22 # p @ [CHR 0x22]) = Some p"
proof -
  have "unquoteBody (p @ [CHR 0x22]) = Some p" if "plainPath p"
    using that
  proof (induction p)
    case Nil
    show ?case by simp
  next
    case (Cons c p)
    from Cons.prems have c: "0x20 \<le> (of_char c :: nat)" "c \<noteq> CHR 0x22" "c \<noteq> CHR 0x5C" "plainPath p"
      by (simp_all add: plainPath_def)
    from c(1) have "c \<noteq> CHR 0x0A" by (rule contrapos_pn) simp
    with c Cons.IH show ?case by simp
  qed
  then show "plainPath p \<Longrightarrow> unquote (CHR 0x22 # p @ [CHR 0x22]) = Some p" by (simp add: unquote_def)
qed
section \<open>What is added\<close>

definition specImports :: "spec list \<Rightarrow> importSpec list" where
  "specImports specs =
     concat (map (\<lambda>s. case s of ImportSpec i \<Rightarrow> (if impPath i = None then [] else [i]) | _ \<Rightarrow> []) specs)"

lemma declImports_simps [simp]:
  "declImports [] = []"
  "declImports (GenDecl ImportTok specs # ds) = specImports specs @ declImports ds"
  "declImports (FuncDecl f # ds) = declImports ds"
  "t \<noteq> ImportTok \<Longrightarrow> declImports (GenDecl t specs # ds) = declImports ds"
  by (simp_all add: declImports_def specImports_def split: declToken.split)

lemma specImports_append [simp]: "specImports (s @ t) = specImports s @ specImports t"
  by (simp add: specImports_def)

lemma addToFirst_imports:
  "addToFirst new ds = Some ds' \<Longrightarrow>
     \<exists>xs ys. declImports ds = xs @ ys \<and> declImports ds' = xs @ specImports new @ ys"
proof (induction ds arbitrary: ds')
  case Nil
  then show ?case by simp
next
  case (Cons d ds)
  show ?case
  proof (cases "\<exists>specs. d = GenDecl ImportTok specs")
    case True
    with Cons.prems obtain specs where "d = GenDecl ImportTok specs" and "ds' = GenDecl ImportTok (specs @ new) # ds"
      by auto
    then show ?thesis by (intro exI [of _ "specImports specs"] exI [of _ "declImports ds"]) auto
  next
    case False
    then have other: "addToFirst new (d # ds) = map_option (Cons d) (addToFirst new ds)"
      and skip: "declImports (d # es) = declImports es" for es
      by (cases d; cases "case d of GenDecl t specs \<Rightarrow> t | FuncDecl f \<Rightarrow> ImportTok"; simp)+
    from Cons.prems other obtain ds1 where "ds' = d # ds1" and "addToFirst new ds = Some ds1" by auto
    with Cons.IH [of ds1] skip show ?thesis by simp
  qed
qed

lemma those_append:
  "those (xs @ ys) = Option.bind (those xs) (\<lambda>a. Option.bind (those ys) (\<lambda>b. Some (a @ b)))"
proof (induction xs)
  case Nil
  then show ?case by (cases "those ys") simp_all
next
  case (Cons x xs)
  then show ?case by (cases x; cases "those xs"; cases "those ys") simp_all
qed

lemma createSpec_entry:
  assumes "createSpec pkgName (alias, p) = Some s" and "plainPath p"
  shows "\<exists>i x. s = ImportSpec i \<and> impPath i \<noteq> None \<and> importEntry pkgName i = Some (alias, p, x)"
  using assms by (auto simp: createSpec_def importEntry_def goQuote_plain trimQuotes_plain)

lemma createSpecs_entries:
  "those (map (createSpec pkgName) xs) = Some specs \<Longrightarrow> \<forall>(a, p) \<in> set xs. plainPath p \<Longrightarrow>
     \<exists>es. those (map (importEntry pkgName) (specImports specs)) = Some es \<and> entryPairs es = xs"
proof (induction xs arbitrary: specs)
  case Nil
  then show ?case by (simp add: specImports_def)
next
  case (Cons e xs)
  obtain a p where e: "e = (a, p)" by (cases e)
  from Cons.prems e obtain s specs1 where s: "createSpec pkgName (a, p) = Some s"
    and rest: "those (map (createSpec pkgName) xs) = Some specs1" "specs = s # specs1"
    by (auto split: option.splits)
  obtain i x where i: "s = ImportSpec i" "impPath i \<noteq> None" "importEntry pkgName i = Some (a, p, x)"
    using createSpec_entry [OF s] Cons.prems(2) e by auto
  obtain es where es: "those (map (importEntry pkgName) (specImports specs1)) = Some es" "entryPairs es = xs"
    using Cons.IH [OF rest(1)] Cons.prems(2) by auto
  have "specImports specs = i # specImports specs1" by (simp add: rest(2) i specImports_def)
  then show ?case using i es e by simp
qed

lemma find_none: "find P xs = None \<longleftrightarrow> (\<forall>x \<in> set xs. \<not> P x)"
  by (auto simp: find_None_iff)

text \<open>The entries of the file after the additions, and which of the new imports were added\<close>

lemma AddToFile_entries:
  assumes "AddToFile pkgName root new = Inr (root', rest)" and "\<forall>(a, p) \<in> set new. plainPath p"
    and "fileEntries pkgName root = Some es"
  shows "\<exists>es'. fileEntries pkgName root' = Some es' \<and>
    mset (entryPairs es') = mset (entryPairs es) + mset rest \<and> set rest \<subseteq> set new \<and>
    (\<forall>(a, p) \<in> set new. p \<notin> snd ` set (entryPairs es) \<longrightarrow> (a, p) \<in> set rest) \<and>
    (\<forall>(a, p) \<in> set rest. freeAlias a \<or> a \<notin> fst ` set (entryPairs es)) \<and>
    (distinct (map fst new) \<longrightarrow> distinct (map fst rest)) \<and>
    fileImports root' = fileImports root"
proof (cases "new = []")
  case True
  with assms show ?thesis by (auto simp: AddToFile_def)
next
  case nonempty: False
  then obtain m where m: "parseFileImports pkgName root = Some m"
    using assms(3) by (auto simp: parseFileImports_def)
  then have names: "map_of (imAliasToPath m) a = map_of (rev (entryPairs es)) a" for a
    using assms(3) by (auto elim: parse_entries)
  let ?byPath = "foldl (\<lambda>b (alias, p). putKey p alias b) [] (imAliasToPath m)"
  let ?keep = "\<lambda>(a, p). freeAlias a \<or> (map_of (imAliasToPath m) a = None \<and> map_of ?byPath p = None)"
  let ?rest = "filter ?keep new"
  have ok: "\<forall>(a, p) \<in> set new. freeAlias a \<or> map_of (imAliasToPath m) a \<in> {None, Some p}"
    and rest: "rest = ?rest"
    and result: "if ?rest = [] then root' = root
      else \<exists>specs. those (map (createSpec pkgName) (sort_key fst ?rest)) = Some specs \<and>
        root' = root\<lparr>fileDecls := (case addToFirst specs (fileDecls root) of
          Some ds \<Rightarrow> ds | None \<Rightarrow> GenDecl ImportTok specs # fileDecls root)\<rparr>"
    using assms(1) nonempty m
    by (auto simp: AddToFile_def Let_def find_none split: option.splits if_splits)
  have fresh: "(a, p) \<in> set rest" if "(a, p) \<in> set new" "p \<notin> snd ` set (entryPairs es)" for a p
  proof -
    have "p \<notin> snd ` set (imAliasToPath m)"
      using alias_map_paths [of "imAliasToPath m" es] names aliasToPath_ordered [OF m] that(2) by blast
    then have "map_of ?byPath p = None" by (simp add: pathMap_lookup)
    moreover have "map_of (imAliasToPath m) a \<noteq> Some p"
      using that(2) by (auto simp: names dest!: map_of_SomeD intro: rev_image_eqI)
    ultimately show ?thesis using ok that(1) by (auto simp: rest)
  qed
  have unused: "\<forall>(a, p) \<in> set rest. freeAlias a \<or> a \<notin> fst ` set (entryPairs es)"
    by (auto simp: rest names map_of_pairs_None)
  have dist: "distinct (map fst new) \<longrightarrow> distinct (map fst rest)" by (simp add: rest distinct_map_filter)
  have "\<exists>es'. fileEntries pkgName root' = Some es' \<and> mset (entryPairs es') = mset (entryPairs es) + mset rest \<and>
    fileImports root' = fileImports root"
  proof (cases "?rest = []")
    case True
    with result assms(3) rest show ?thesis by simp
  next
    case False
    with result obtain specs where specs: "those (map (createSpec pkgName) (sort_key fst ?rest)) = Some specs"
      and root': "root' = root\<lparr>fileDecls := (case addToFirst specs (fileDecls root) of
          Some ds \<Rightarrow> ds | None \<Rightarrow> GenDecl ImportTok specs # fileDecls root)\<rparr>" by auto
    have "\<forall>(a, p) \<in> set (sort_key fst ?rest). plainPath p" using assms(2) by auto
    from createSpecs_entries [OF specs this] obtain news
      where news: "those (map (importEntry pkgName) (specImports specs)) = Some news" "entryPairs news = sort_key fst ?rest"
      by blast
    have "\<exists>xs ys. declImports (fileDecls root) = xs @ ys \<and> declImports (fileDecls root') = xs @ specImports specs @ ys"
    proof (cases "addToFirst specs (fileDecls root)")
      case None
      then show ?thesis by (simp add: root' exI [of _ "[]"])
    next
      case (Some ds)
      from addToFirst_imports [OF this] Some show ?thesis by (simp add: root')
    qed
    then obtain xs ys where "declImports (fileDecls root) = xs @ ys"
      and "declImports (fileDecls root') = xs @ specImports specs @ ys" by blast
    with assms(3) news obtain es1 es2 where "es = es1 @ es2" and "fileEntries pkgName root' = Some (es1 @ news @ es2)"
      by (auto simp: fileEntries_def those_append bind_eq_Some_conv)
    with news(2) rest root' show ?thesis by simp
  qed
  with rest fresh unused dist show ?thesis by auto
qed
definition localNames :: "importEntries \<Rightarrow> string list" where
  "localNames es = filter (\<lambda>a. \<not> freeAlias a) (map fst (entryPairs es))"

lemma distinct_mset_iff: "mset xs = mset ys + mset zs \<Longrightarrow> distinct xs \<longleftrightarrow> distinct (ys @ zs)"
  by (metis mset_append mset_eq_imp_distinct_iff)

lemma firstSome_None: "firstSome xs = None \<longleftrightarrow> (\<forall>x \<in> set xs. x = None)"
  by (induction xs rule: firstSome.induct) auto

lemma addRuleImports_steps:
  assumes "addRuleImports pkgName resolve step root ruleImps = Inr (root', step', out)" and "ruleImps \<noteq> []"
    and "FindNew pkgName root ruleImps = Some res"
  shows "\<forall>e \<in> set ruleImps. aliasProblem res e = None"
    and "roNewImports res = [] \<Longrightarrow> root' = root \<and> step' = step \<and> out = None"
    and "roNewImports res \<noteq> [] \<Longrightarrow> \<exists>rest. AddToFile pkgName root (roNewImports res) = Inr (root', rest) \<and>
      updateImportConfig resolve step (map snd rest) = Inr (step', out)"
proof -
  have none: "firstSome (map (aliasProblem res) ruleImps) = None"
    using assms by (cases "firstSome (map (aliasProblem res) ruleImps)") (simp_all add: addRuleImports_def)
  then show "\<forall>e \<in> set ruleImps. aliasProblem res e = None" by (simp add: firstSome_None)
  show "roNewImports res = [] \<Longrightarrow> root' = root \<and> step' = step \<and> out = None"
    using assms none by (simp add: addRuleImports_def)
  assume new: "roNewImports res \<noteq> []"
  show "\<exists>rest. AddToFile pkgName root (roNewImports res) = Inr (root', rest) \<and>
      updateImportConfig resolve step (map snd rest) = Inr (step', out)"
  proof (cases "AddToFile pkgName root (roNewImports res)")
    case (Inl e)
    with assms none new show ?thesis by (simp add: addRuleImports_def)
  next
    case (Inr r)
    obtain root1 rest where r: "r = (root1, rest)" by (cases r)
    with Inr assms none new show ?thesis
      by (cases "updateImportConfig resolve step (map snd rest)") (auto simp: addRuleImports_def)
  qed
qed

lemma addRuleImports_entries:
  assumes "addRuleImports pkgName resolve step root ruleImps = Inr (root', step', out)"
    and "\<forall>(a, p) \<in> set ruleImps. plainPath p" and "distinct (map fst ruleImps)"
    and "fileEntries pkgName root = Some es"
  shows "\<exists>es' new. fileEntries pkgName root' = Some es' \<and> set (entryPairs es) \<subseteq> set (entryPairs es') \<and>
    (\<forall>(a, p) \<in> set ruleImps. a \<noteq> ''_'' \<longrightarrow> (a, p) \<in> set (entryPairs es')) \<and>
    (\<forall>(a, p) \<in> set ruleImps. p \<in> snd ` set (entryPairs es')) \<and>
    (distinct (localNames es) \<longrightarrow> distinct (localNames es')) \<and>
    fileImports root' = fileImports root \<and>
    (\<forall>(a, p) \<in> set ruleImps. p \<in> snd ` set (entryPairs es) \<or> p \<in> set new) \<and>
    (if new = [] then step' = step \<and> out = None else updateImportConfig resolve step new = Inr (step', out))"
proof (cases "ruleImps = []")
  case True
  with assms(1,4) show ?thesis by (intro exI [of _ es] exI [of _ "[]"]) (auto simp: addRuleImports_def)
next
  case nonempty: False
  obtain m where m: "parseFileImports pkgName root = Some m"
    using assms(4) by (auto simp: parseFileImports_def)
  have sets: "map_of (imPathToAliases m) p = (if namesOf es p = [] then None else Some (sort (namesOf es p)))"
    and paths: "map_of (imPathToAlias m) p = None \<longleftrightarrow> namesOf es p = []" for p
    using m assms(4) by (auto elim: parse_entries)
  have in_paths: "p \<in> snd ` set (entryPairs es) \<longleftrightarrow> namesOf es p \<noteq> []" for p
  proof -
    have "p \<in> snd ` set (entryPairs es) \<longleftrightarrow> (\<exists>a. (a, p) \<in> set (entryPairs es))" by force
    also have "\<dots> \<longleftrightarrow> (\<exists>a. a \<in> set (namesOf es p))" by (simp only: namesOf_iff)
    finally show ?thesis by (simp only: ex_in_conv set_empty)
  qed
  let ?new = "filter (\<lambda>(alias, p). map_of (imPathToAlias m) p = None) ruleImps"
  define res where "res = \<lparr>roNewImports = ?new, roExistingAliases = imPathToAlias m,
      roExistingAliasSets = imPathToAliases m, roExplicitAliases = imExplicitAlias m\<rparr>"
  have "FindNew pkgName root ruleImps = Some res" using nonempty m by (simp add: FindNew_def res_def)
  note steps = addRuleImports_steps [OF assms(1) nonempty this]
  have new: "roNewImports res = ?new" by (simp add: res_def)
  have present: "(a, p) \<in> set (entryPairs es)"
    if "(a, p) \<in> set ruleImps" "a \<noteq> ''_''" "p \<in> snd ` set (entryPairs es)" for a p
  proof -
    have "aliasProblem res (a, p) = None" using that(1) steps(1) by blast
    then show ?thesis using that(2,3) in_paths
      by (auto simp: aliasProblem_def res_def sets namesOf_iff split: if_splits)
  qed
  show ?thesis
  proof (cases "?new = []")
    case True
    then have "root' = root" "step' = step" "out = None" using steps(2) new by auto
    moreover have "p \<in> snd ` set (entryPairs es)" if "(a, p) \<in> set ruleImps" for a p
      using that True in_paths by (auto simp: filter_empty_conv paths)
    ultimately show ?thesis using present assms(4)
      by (intro exI [of _ es] exI [of _ "[]"]) auto
  next
    case False
    with steps(3) new obtain rest where add: "AddToFile pkgName root ?new = Inr (root', rest)"
      and upd: "updateImportConfig resolve step (map snd rest) = Inr (step', out)" by auto
    have "\<forall>(a, p) \<in> set ?new. plainPath p" using assms(2) by auto
    from AddToFile_entries [OF add this assms(4)] obtain es'
      where es': "fileEntries pkgName root' = Some es'" "mset (entryPairs es') = mset (entryPairs es) + mset rest"
        "set rest \<subseteq> set ?new" "\<forall>(a, p) \<in> set ?new. p \<notin> snd ` set (entryPairs es) \<longrightarrow> (a, p) \<in> set rest"
        "\<forall>(a, p) \<in> set rest. freeAlias a \<or> a \<notin> fst ` set (entryPairs es)"
        "distinct (map fst ?new) \<longrightarrow> distinct (map fst rest)" "fileImports root' = fileImports root"
      by blast
    have set': "set (entryPairs es') = set (entryPairs es) \<union> set rest"
      using arg_cong [OF es'(2), of set_mset] by simp
    have added: "(a, p) \<in> set rest" if "(a, p) \<in> set ruleImps" "p \<notin> snd ` set (entryPairs es)" for a p
      using es'(4) that in_paths [of p] by (auto simp: paths)
    have dist: "distinct (localNames es')" if d: "distinct (localNames es)"
    proof -
      let ?added = "filter (\<lambda>a. \<not> freeAlias a) (map fst rest)"
      have m: "mset (localNames es') = mset (localNames es) + mset ?added"
        unfolding localNames_def by (simp only: mset_filter mset_map es'(2) image_mset_union filter_union_mset)
      have "distinct (map fst rest)" using es'(6) assms(3) by (simp add: distinct_map_filter)
      moreover have "set (localNames es) \<inter> set ?added = {}"
        using es'(5) by (auto simp: localNames_def)
      ultimately show ?thesis unfolding distinct_mset_iff [OF m] using d by simp
    qed
    have rest: "rest \<noteq> []"
    proof -
      obtain a p where e: "hd ?new = (a, p)" by (rule prod.exhaust)
      have "(a, p) \<in> set ?new" unfolding e [symmetric] by (rule hd_in_set [OF False])
      then have "(a, p) \<in> set ruleImps" "p \<notin> snd ` set (entryPairs es)" using in_paths by (auto simp: paths)
      from added [OF this] show ?thesis by auto
    qed
    have named: "\<forall>(a, p) \<in> set ruleImps. a \<noteq> ''_'' \<longrightarrow> (a, p) \<in> set (entryPairs es')"
    proof clarify
      fix a p
      assume r: "(a, p) \<in> set ruleImps" and n: "a \<noteq> ''_''"
      show "(a, p) \<in> set (entryPairs es')"
      proof (cases "p \<in> snd ` set (entryPairs es)")
        case True
        with present [OF r n] show ?thesis by (simp add: set')
      next
        case False
        with added [OF r] show ?thesis by (simp add: set')
      qed
    qed
    have new: "\<forall>(a, p) \<in> set ruleImps. p \<in> snd ` set (entryPairs es) \<or> p \<in> set (map snd rest)"
    proof clarify
      fix a p
      assume r: "(a, p) \<in> set ruleImps" and n: "p \<notin> set (map snd rest)"
      show "p \<in> snd ` set (entryPairs es)"
      proof (rule ccontr)
        assume "p \<notin> snd ` set (entryPairs es)"
        from added [OF r this] have "p \<in> set (map snd rest)" by force
        with n show False by blast
      qed
    qed
    have "snd ` set (entryPairs es') = snd ` set (entryPairs es) \<union> set (map snd rest)"
      by (simp add: set' image_Un)
    with new have known: "\<forall>(a, p) \<in> set ruleImps. p \<in> snd ` set (entryPairs es')" by simp
    show ?thesis
      using es'(1,7) set' upd rest named new known dist
      by (intro exI [of _ es'] exI [of _ "map snd rest"]) simp
  qed
qed

section \<open>Names in the code of a rule\<close>

text \<open>
  The aliases the file uses for each path, sorted, and the alias to put for an alias of the rule:
  the smallest of the file's for the path, if the rule's is not one of them.
\<close>

definition resolvedAliases :: "dstFile \<Rightarrow> nameResolver \<Rightarrow> string \<Rightarrow> string option" where
  "resolvedAliases root importNames =
     (case ResolvedImportAliasMap (Some root) importNames of None \<Rightarrow> Map.empty | Some m \<Rightarrow> m)"

definition existingAliasSets :: "dstFile \<Rightarrow> nameResolver \<Rightarrow> string \<Rightarrow> string list option" where
  "existingAliasSets root importNames p =
     (let specs = map fst (List.map_filter (importAlias importNames False) (importSpecs root));
          aliases = sort (remdups (filter (\<lambda>a. resolvedAliases root importNames a = Some p) specs))
      in if aliases = [] then None else Some aliases)"

definition resolveAliasOverrides ::
    "(string \<times> string) list \<Rightarrow> (string \<Rightarrow> string list option) \<Rightarrow> string \<Rightarrow> string option" where
  "resolveAliasOverrides ruleImps aliasSets =
     foldl (\<lambda>overrides (ruleAlias, importPath).
         if freeAlias ruleAlias then overrides
         else case aliasSets importPath of
                None \<Rightarrow> overrides
              | Some aliases \<Rightarrow>
                  if ruleAlias \<in> set aliases then overrides else overrides(ruleAlias \<mapsto> hd aliases))
       Map.empty ruleImps"

definition resolveImportOverrides ::
    "dstFile \<Rightarrow> nameResolver \<Rightarrow> (string \<times> string) list \<Rightarrow> (string \<Rightarrow> string option) option \<times> (string \<Rightarrow> string option)" where
  "resolveImportOverrides root importNames ruleImps =
     (ImportAliasMap (Some root) importNames, resolveAliasOverrides ruleImps (existingAliasSets root importNames))"

text \<open>A name in front of a selector is replaced; the code behind other nodes is searched further.\<close>

fun replaceQualifierAliases :: "(string \<Rightarrow> string option) \<Rightarrow> code \<Rightarrow> code" where
  "replaceQualifierAliases overrides (IdentN p n) = IdentN p n"
| "replaceQualifierAliases overrides (LitN v) = LitN v"
| "replaceQualifierAliases overrides (Node k cs) = Node k
     (case (k, cs) of
        (Sel s, [IdentN p n]) \<Rightarrow> [IdentN p (case overrides n of Some existingAlias \<Rightarrow> existingAlias | None \<Rightarrow> n)]
      | _ \<Rightarrow> map (replaceQualifierAliases overrides) cs)"

definition usedRuleImports ::
    "code list \<Rightarrow> (string \<times> string) list \<Rightarrow> (string \<Rightarrow> string option) \<Rightarrow> (string \<times> string) list" where
  "usedRuleImports root ruleImps overrides =
     (let names = concat (map qualifiers root)
      in filter (\<lambda>(alias, p). overrides alias = None \<and> (freeAlias alias \<or> alias \<in> set names)) ruleImps)"

section \<open>Names that shadow an import\<close>

definition fieldNames :: "goField list option \<Rightarrow> string list" where
  "fieldNames l = (case l of None \<Rightarrow> [] | Some fs \<Rightarrow> filter (\<lambda>n. n \<noteq> [] \<and> n \<noteq> ''_'') (concat (map fst fs)))"

definition boundNames :: "funcDecl \<Rightarrow> string list" where
  "boundNames f = fieldNames (fdRecv f) @ fieldNames (ftParams (fdType f)) @ fieldNames (ftResults (fdType f))"

definition localName :: "code \<Rightarrow> string list" where
  "localName c = (case c of IdentN p n \<Rightarrow> (if n \<noteq> [] \<and> n \<noteq> ''_'' then [n] else []) | _ \<Rightarrow> [])"

text \<open>The children of a declaration statement are its value and type specifications.\<close>

definition specNames :: "code \<Rightarrow> string list" where
  "specNames c = (case c of
     Node (ValueSpecs n) cs \<Rightarrow> concat (map localName (take n cs))
   | Node TypeSpecs cs \<Rightarrow> concat (map localName (take 1 cs))
   | _ \<Rightarrow> [])"

definition topLevelBodyNames :: "code list option \<Rightarrow> string list" where
  "topLevelBodyNames body = (case body of
     None \<Rightarrow> []
   | Some stmts \<Rightarrow> concat (map (\<lambda>s. case s of
         Node (Stmt i decs DeclStmt) specs \<Rightarrow> concat (map specNames specs)
       | Node (Stmt i decs (DefineStmt n)) cs \<Rightarrow> concat (map localName (take n cs))
       | _ \<Rightarrow> []) stmts))"

text \<open>The aliases of the rule that are checked, and the first problem, if any\<close>

definition checkAliasOverrideShadowing ::
    "(string \<times> string) list \<Rightarrow> (string \<Rightarrow> string option) \<Rightarrow> (funcDecl \<times> code list option) option \<Rightarrow> (string \<times> string) option" where
  "checkAliasOverrideShadowing ruleImps overrides enclosing =
     (case enclosing of
        None \<Rightarrow> None
      | Some (f, body) \<Rightarrow>
          let names = boundNames f @ topLevelBodyNames body
          in firstSome (map (\<lambda>(ruleAlias, p). case overrides ruleAlias of
               None \<Rightarrow> None
             | Some fileAlias \<Rightarrow> if fileAlias \<in> set names then Some (ruleAlias, fileAlias) else None) ruleImps))"
section \<open>What the names mean\<close>

definition renamed :: "(string \<Rightarrow> string option) \<Rightarrow> string \<Rightarrow> string" where
  "renamed overrides n = (case overrides n of Some existingAlias \<Rightarrow> existingAlias | None \<Rightarrow> n)"

lemma qualifiers_replace:
  "qualifiers (replaceQualifierAliases overrides c) = map (renamed overrides) (qualifiers c)"
proof (induction c)
  case (Node k cs)
  show ?case
  proof (cases "\<exists>s p n. k = Sel s \<and> cs = [IdentN p n]")
    case True
    then show ?thesis
      by (auto simp: qualifiers_Node nodeQualifier_def qualifier_def renamed_def)
  next
    case False
    have r: "replaceQualifierAliases overrides (Node k cs) = Node k (map (replaceQualifierAliases overrides) cs)"
      using False by (auto split: codeKind.split list.split code.split)
    have leaf: "replaceQualifierAliases overrides c = IdentN p n \<Longrightarrow> c = IdentN p n" for c p n
      by (cases c) simp_all
    have "nodeQualifier (Node k cs) = []"
      using False by (auto simp: nodeQualifier_def qualifier_def split: codeKind.split list.split code.split)
    moreover have "nodeQualifier (Node k (map (replaceQualifierAliases overrides) cs)) = []"
      using False leaf by (fastforce simp: nodeQualifier_def qualifier_def map_eq_Cons_conv split: codeKind.split list.split code.split)
    moreover have "concat (map (\<lambda>c. qualifiers (replaceQualifierAliases overrides c)) cs) =
        map (renamed overrides) (concat (map qualifiers cs))"
      using Node.IH by (simp add: map_concat comp_def cong: map_cong)
    ultimately show ?thesis by (simp only: r qualifiers_Node) (simp add: comp_def)
  qed
qed simp_all

lemma override_origin:
  "resolveAliasOverrides ruleImps sets x = Some y \<Longrightarrow>
     \<exists>p aliases. (x, p) \<in> set ruleImps \<and> sets p = Some aliases \<and> y = hd aliases \<and> \<not> freeAlias x"
proof (induction ruleImps rule: rev_induct)
  case Nil
  then show ?case by (simp add: resolveAliasOverrides_def)
next
  case (snoc e es)
  obtain a q where e: "e = (a, q)" by (cases e)
  show ?case
  proof (cases "resolveAliasOverrides es sets x = Some y")
    case True
    with snoc.IH show ?thesis by auto
  next
    case False
    with snoc.prems e have "x = a \<and> \<not> freeAlias a \<and> (\<exists>aliases. sets q = Some aliases \<and> y = hd aliases)"
      by (auto simp: resolveAliasOverrides_def split: if_splits option.splits)
    with e show ?thesis by auto
  qed
qed

lemma aliasSets_named:
  "existingAliasSets root importNames p = Some aliases \<Longrightarrow> resolvedAliases root importNames (hd aliases) = Some p"
proof -
  assume "existingAliasSets root importNames p = Some aliases"
  then have "aliases \<noteq> []" and "\<forall>a \<in> set aliases. resolvedAliases root importNames a = Some p"
    by (auto simp: existingAliasSets_def Let_def split: if_splits)
  then show ?thesis by simp
qed

lemma resolved_spec:
  "resolvedAliases root importNames y = Some p \<Longrightarrow> \<exists>i \<in> set (importSpecs root). importAlias importNames False i = Some (y, p)"
proof -
  let ?f = "foldl (\<lambda>m imp. case importAlias importNames False imp of None \<Rightarrow> m | Some (alias, path) \<Rightarrow> m(alias \<mapsto> path))"
  have "?f Map.empty is y = Some p \<Longrightarrow> \<exists>i \<in> set is. importAlias importNames False i = Some (y, p)" for "is"
    by (induction "is" rule: rev_induct) (auto split: option.splits if_splits)
  then show "resolvedAliases root importNames y = Some p \<Longrightarrow> ?thesis"
    by (simp add: resolvedAliases_def ResolvedImportAliasMap_def importAliasMap_def)
qed

text \<open>What the code relies on: the table of names holds what the go command reports, and the
  import paths of the file are plain string literals in its import declarations.\<close>

definition consistentNames :: "nameResolver \<Rightarrow> nameResolver \<Rightarrow> bool" where
  "consistentNames pkgName importNames \<longleftrightarrow> (\<forall>p n. importNames p = Some n \<longrightarrow> pkgName p = Some n \<and> n \<noteq> [])"

definition quotedImports :: "dstFile \<Rightarrow> bool" where
  "quotedImports root \<longleftrightarrow> (\<forall>i \<in> set (importSpecs root).
     i \<in> set (declImports (fileDecls root)) \<and> (\<exists>q. plainPath q \<and> impPath i = Some (goQuote q)))"

lemma those_elem: "those (map f xs) = Some ys \<Longrightarrow> x \<in> set xs \<Longrightarrow> \<exists>y \<in> set ys. f x = Some y"
  by (induction xs arbitrary: ys) (auto split: option.splits)

lemma resolved_entry:
  assumes "resolvedAliases root importNames y = Some p" and "consistentNames pkgName importNames"
    and "quotedImports root" and "fileEntries pkgName root = Some es"
  shows "(y, p) \<in> set (entryPairs es)"
proof -
  obtain i where i: "i \<in> set (importSpecs root)" "importAlias importNames False i = Some (y, p)"
    using resolved_spec [OF assms(1)] by blast
  from assms(3) i(1) obtain q where q: "plainPath q" "impPath i = Some (goQuote q)"
    and d: "i \<in> set (declImports (fileDecls root))" by (auto simp: quotedImports_def)
  have u: "unquote (goQuote q) = Some q" and t: "trimQuotes (goQuote q) = q"
    using q(1) by (simp_all add: goQuote_plain unquote_plainPath trimQuotes_plain)
  have "\<exists>x. importEntry pkgName i = Some (y, p, x)"
    using i(2) assms(2)
    by (cases "impName i")
      (auto simp: importAlias_def importEntry_def q(2) u t consistentNames_def Let_def split: option.splits if_splits)
  moreover obtain e where "e \<in> set es" "importEntry pkgName i = Some e"
    using those_elem [OF _ d] assms(4) unfolding fileEntries_def by blast
  ultimately show ?thesis by (auto simp: entryPairs_def intro: rev_image_eqI)
qed

text \<open>C30: rule code means what the rule says. If adding the imports of a rule succeeds after its
  code was rewritten and put into the file, then every name of the rule's imports in front of a
  selector in this code has become a name under which the file imports the path the rule gives;
  all imports of the file are kept, and local names that were distinct still are.\<close>

theorem rule_code_resolves:
  assumes "resolveImportOverrides root importNames ruleImps = (aliases, overrides)"
    and "replaceQualifierAliases overrides g \<in> set (concat (map subnodes code))"
    and "addRuleImports pkgName resolve step root (usedRuleImports code ruleImps overrides) = Inr (root', step', out)"
    and "distinct (map fst ruleImps)" and "\<forall>(a, p) \<in> set ruleImps. plainPath p"
    and "fileEntries pkgName root = Some es" and "consistentNames pkgName importNames" and "quotedImports root"
  shows "\<exists>es'. fileEntries pkgName root' = Some es' \<and> set (entryPairs es) \<subseteq> set (entryPairs es') \<and>
    (distinct (localNames es) \<longrightarrow> distinct (localNames es')) \<and>
    qualifiers (replaceQualifierAliases overrides g) = map (renamed overrides) (qualifiers g) \<and>
    (\<forall>(x, p) \<in> set ruleImps. x \<in> set (qualifiers g) \<and> \<not> freeAlias x \<longrightarrow> (renamed overrides x, p) \<in> set (entryPairs es'))"
proof -
  let ?used = "usedRuleImports code ruleImps overrides"
  have ov: "overrides = resolveAliasOverrides ruleImps (existingAliasSets root importNames)"
    using assms(1) by (simp add: resolveImportOverrides_def)
  have used: "\<forall>(a, p) \<in> set ?used. plainPath p" "distinct (map fst ?used)"
    using assms(4,5) by (auto simp: usedRuleImports_def Let_def distinct_map_filter)
  from addRuleImports_entries [OF assms(3) used assms(6)] obtain es'
    where es': "fileEntries pkgName root' = Some es'" "set (entryPairs es) \<subseteq> set (entryPairs es')"
      "\<forall>(a, p) \<in> set ?used. a \<noteq> ''_'' \<longrightarrow> (a, p) \<in> set (entryPairs es')"
      "distinct (localNames es) \<longrightarrow> distinct (localNames es')" by blast
  have q: "qualifiers (replaceQualifierAliases overrides g) = map (renamed overrides) (qualifiers g)"
    by (rule qualifiers_replace)
  have named: "(renamed overrides x, p) \<in> set (entryPairs es')"
    if x: "(x, p) \<in> set ruleImps" "x \<in> set (qualifiers g)" "\<not> freeAlias x" for x p
  proof (cases "overrides x")
    case None
    then have r: "renamed overrides x = x" by (simp add: renamed_def)
    with q x(2) have "x \<in> set (qualifiers (replaceQualifierAliases overrides g))" by (metis image_eqI set_map)
    then have "x \<in> set (concat (map qualifiers code))"
      using assms(2) qualifiers_sub [of "replaceQualifierAliases overrides g"] by auto
    with None x(1) have "(x, p) \<in> set ?used" by (auto simp: usedRuleImports_def Let_def)
    moreover have "x \<noteq> ''_''" using x(3) by (simp add: freeAlias_def)
    ultimately show ?thesis using es'(3) r by auto
  next
    case (Some y)
    with ov obtain p' al where o: "(x, p') \<in> set ruleImps" "existingAliasSets root importNames p' = Some al" "y = hd al"
      using override_origin by blast
    have "p' = p" using assms(4) o(1) x(1) by (rule eq_key_imp_eq_value)
    with o have "resolvedAliases root importNames y = Some p" using aliasSets_named by blast
    then have "(y, p) \<in> set (entryPairs es)" by (rule resolved_entry [OF _ assms(7,8,6)])
    with es'(2) Some show ?thesis by (auto simp: renamed_def)
  qed
  show ?thesis
  proof (intro exI conjI)
    show "\<forall>(x, p) \<in> set ruleImps. x \<in> set (qualifiers g) \<and> \<not> freeAlias x \<longrightarrow> (renamed overrides x, p) \<in> set (entryPairs es')"
      using named by blast
  qed (fact es'(1), fact es'(2), fact es'(4), fact q)
qed
definition demoImport :: "string option \<Rightarrow> string \<Rightarrow> importSpec" where
  "demoImport name p = \<lparr>impName = name, impPath = Some (CHR 0x22 # p @ [CHR 0x22])\<rparr>"

definition demoFile :: dstFile where
  "demoFile = \<lparr>fileName = ''app'',
     fileDecls = [GenDecl ImportTok [ImportSpec (demoImport None ''fmt''), ImportSpec (demoImport (Some ''h'') ''net/http'')]],
     fileImports = [demoImport None ''fmt'', demoImport (Some ''h'') ''net/http''],
     fileStart = [], fileTree = DNode OtherNode [] [] []\<rparr>"

definition demoNames :: nameResolver where
  "demoNames p = (if p = ''net/http'' then Some ''http'' else Some p)"

definition demoRuleImports :: "(string \<times> string) list" where
  "demoRuleImports = [(''http'', ''net/http''), (''t'', ''trace'')]"

text \<open>\<open>http.Get(t.Start)\<close>\<close>

definition demoRuleCode :: code where
  "demoRuleCode = Node (Call None False)
     [Node (Sel ''Get'') [IdentN [] ''http''], Node (Sel ''Start'') [IdentN [] ''t'']]"

definition demoAppStep :: compileStep where
  "demoAppStep = \<lparr>csPackage = ''app'', csConfigPath = [], csConfig = emptyConfig, csEnv = None\<rparr>"

theorem rule_code_resolves_witness:
  "\<exists>root' es'. addRuleImports demoNames (\<lambda>_ _. None) demoAppStep demoFile [(''t'', ''trace'')] = Inr (root', demoAppStep, None) \<and>
     fileEntries demoNames root' = Some es' \<and>
     (''h'', ''net/http'') \<in> set (entryPairs es') \<and> (''t'', ''trace'') \<in> set (entryPairs es')"
proof -
  define ov where "ov = resolveAliasOverrides demoRuleImports (existingAliasSets demoFile (\<lambda>_. None))"
  have "existingAliasSets demoFile (\<lambda>_. None) ''net/http'' = Some [''h'']"
    and "Option.is_none (existingAliasSets demoFile (\<lambda>_. None) ''trace'')" by code_simp+
  then have ovs: "ov ''http'' = Some ''h''" "ov ''t'' = None"
    by (simp_all add: ov_def resolveAliasOverrides_def demoRuleImports_def freeAlias_def Option.is_none_def)
  have r: "replaceQualifierAliases ov demoRuleCode = Node (Call None False)
     [Node (Sel ''Get'') [IdentN [] ''h''], Node (Sel ''Start'') [IdentN [] ''t'']]"
    by (simp add: demoRuleCode_def ovs)
  have used: "usedRuleImports [replaceQualifierAliases ov demoRuleCode] demoRuleImports ov = [(''t'', ''trace'')]"
    unfolding r by (simp add: usedRuleImports_def demoRuleImports_def ovs qualifiers_def nodeQualifier_def qualifier_def freeAlias_def)
  have sp: "specImports [ImportSpec (demoImport None ''fmt''), ImportSpec (demoImport (Some ''h'') ''net/http'')] =
      [demoImport None ''fmt'', demoImport (Some ''h'') ''net/http'']"
    by (simp add: specImports_def demoImport_def)
  have es: "fileEntries demoNames demoFile = Some [(''fmt'', ''fmt'', False), (''h'', ''net/http'', True)]"
    by code_simp
  obtain root' where add: "addRuleImports demoNames (\<lambda>_ _. None) demoAppStep demoFile [(''t'', ''trace'')] = Inr (root', demoAppStep, None)"
  proof -
    have "(case addRuleImports demoNames (\<lambda>_ _. None) demoAppStep demoFile [(''t'', ''trace'')] of
        Inr (root', step, out) \<Rightarrow> step = demoAppStep \<and> out = None | Inl e \<Rightarrow> False)" by code_simp
    then show ?thesis using that by (auto split: sum.splits)
  qed
  have c: "consistentNames demoNames (\<lambda>_. None)" by (simp add: consistentNames_def)
  have p: "plainPath ''fmt''" "plainPath ''net/http''" "plainPath ''trace''" by (simp_all add: plainPath_def)
  have qi: "quotedImports demoFile"
    using p by (auto simp: quotedImports_def demoFile_def importSpecs_def specImports_def demoImport_def goQuote_plain)
  have o: "resolveImportOverrides demoFile (\<lambda>_. None) demoRuleImports = (ImportAliasMap (Some demoFile) (\<lambda>_. None), ov)"
    by (simp add: resolveImportOverrides_def ov_def)
  have g: "replaceQualifierAliases ov demoRuleCode \<in> set (concat (map subnodes [replaceQualifierAliases ov demoRuleCode]))"
    by simp
  have d: "distinct (map fst demoRuleImports)" "\<forall>(a, p) \<in> set demoRuleImports. plainPath p"
    using p by (simp_all add: demoRuleImports_def)
  have q: "''http'' \<in> set (qualifiers demoRuleCode)" "''t'' \<in> set (qualifiers demoRuleCode)"
    by (simp_all add: demoRuleCode_def qualifiers_def nodeQualifier_def qualifier_def)
  obtain es' where es': "fileEntries demoNames root' = Some es'"
    and n: "\<forall>(x, p) \<in> set demoRuleImports. x \<in> set (qualifiers demoRuleCode) \<and> \<not> freeAlias x \<longrightarrow> (renamed ov x, p) \<in> set (entryPairs es')"
    using rule_code_resolves [OF o g add [folded used] d es c qi] by (elim exE conjE) (rule that)
  from n q have "(''h'', ''net/http'') \<in> set (entryPairs es')" "(''t'', ''trace'') \<in> set (entryPairs es')"
    by (simp_all add: demoRuleImports_def freeAlias_def renamed_def ovs)
  with add es' show ?thesis by blast
qed

end
