(* ===== verification/Tool_Files.thy ===== *)
theory Tool_Files
  imports File_Tree Package_Load Rule_Imports Build_State
begin

text \<open>
  The instrumentation config files of a project and the rules behind them: \<open>config.go\<close>
  and the rule loaders of \<open>match.go\<close>, all of \<open>tool/internal/setup\<close>. A config file
  (\<open>otel.instrumentation.go\<close> or \<open>otelc.tool.go\<close>) imports packages; a package may hold rule files and
  may have a config file of its own, which is followed.

  The file system is collected in \<open>projectFiles\<close>: which paths exist and are directories, the tree
  below a directory, the imports of a Go file, the bytes of a file, and where symbolic links lead.
  Loading packages is a parameter.

  Shown: the walk ends and visits each import that the config files reach, once; loading custom
  rules with its cache gives what loading every file again would give.
\<close>

section \<open>Module directories and config files\<close>

record projectFiles =
  pfExists :: "string \<Rightarrow> bool"
  pfIsDir :: "string \<Rightarrow> bool option"
  pfTree :: "string \<Rightarrow> entry"
  pfImports :: "string \<Rightarrow> importSpec list option"
  pfRead :: "string \<Rightarrow> string option"
  pfEvalSymlinks :: "string \<Rightarrow> string option"
  pfWorkDir :: "string option"

datatype configError =
    TwoToolFiles string
  | NotInModule string
  | WalkFailed treeError
  | NotInstrumentation "string list"

definition findToolFile :: "projectFiles \<Rightarrow> string \<Rightarrow> configError + string" where
  "findToolFile P moduleDir =
     (let canonical = pathJoin [moduleDir, ''otel.instrumentation.go''];
          alias = pathJoin [moduleDir, ''otelc.tool.go'']
      in if pfExists P canonical \<and> pfExists P alias then Inl (TwoToolFiles moduleDir)
         else if pfExists P canonical then Inr canonical
         else if pfExists P alias then Inr alias
         else Inr [])"

fun toolFilesIn :: "projectFiles \<Rightarrow> string list \<Rightarrow> configError + string list" where
  "toolFilesIn P [] = Inr []"
| "toolFilesIn P (dir # dirs) =
     (case findToolFile P dir of
        Inl e \<Rightarrow> Inl e
      | Inr f \<Rightarrow> map_sum id (\<lambda>fs. if f \<noteq> [] then f # fs else fs) (toolFilesIn P dirs))"

definition findToolFiles :: "projectFiles \<Rightarrow> string list \<Rightarrow> configError + string list" where
  "findToolFiles P moduleDirs = map_sum id sort (toolFilesIn P moduleDirs)"

section \<open>Resolving imports\<close>

record instrumentationConfig =
  icImportPath :: string
  icToolFile :: string
  icRuleFiles :: "string list"
  icError :: "configError option"

definition failedConfig :: "string \<Rightarrow> configError \<Rightarrow> instrumentationConfig" where
  "failedConfig path e = \<lparr>icImportPath = path, icToolFile = [], icRuleFiles = [], icError = Some e\<rparr>"

text \<open>\<open>rulesFromDir\<close> on a directory: the paths it finds, joined to the directory\<close>

definition ruleFilesIn :: "projectFiles \<Rightarrow> string \<Rightarrow> bool \<Rightarrow> treeError + string list" where
  "ruleFilesIn P dir skipSubmodules =
     map_sum id (map (\<lambda>p. pathJoin (dir # p))) (rulesFromDir (pfTree P dir) skipSubmodules)"

definition configOf :: "projectFiles \<Rightarrow> pkg \<Rightarrow> instrumentationConfig" where
  "configOf P p =
     (case pkgModule p of
        None \<Rightarrow> failedConfig (pkgPath p) (NotInModule (pkgPath p))
      | Some m \<Rightarrow>
          if modDir m = [] then failedConfig (pkgPath p) (NotInModule (pkgPath p))
          else
            let dir = (if packageDir p = [] then pathJoin [modDir m, trimPrefix (pkgPath p) (modPath m)] else packageDir p)
            in case findToolFile P (modDir m) of
                 Inl e \<Rightarrow> failedConfig (pkgPath p) e
               | Inr toolFile \<Rightarrow>
                   (case ruleFilesIn P dir True of
                      Inl e \<Rightarrow> failedConfig (pkgPath p) (WalkFailed e)
                    | Inr ruleFiles \<Rightarrow>
                        if toolFile = [] \<and> ruleFiles = [] then failedConfig (pkgPath p) (NotInstrumentation (pkgErrors p))
                        else \<lparr>icImportPath = pkgPath p, icToolFile = toolFile, icRuleFiles = ruleFiles, icError = None\<rparr>))"

definition resolveInstrumentationConfigs ::
    "pkgLoader \<Rightarrow> projectFiles \<Rightarrow> string \<Rightarrow> string list \<Rightarrow> (string \<Rightarrow> instrumentationConfig option) option" where
  "resolveInstrumentationConfigs load P dir importPaths =
     (if importPaths = [] then Some (\<lambda>p. None)
      else case load dir [] False importPaths of
             None \<Rightarrow> None
           | Some pkgs \<Rightarrow>
               Some (map_of (rev (map (\<lambda>p. (pkgPath p, configOf P p)) (filter (\<lambda>p. pkgPath p \<noteq> []) pkgs)))))"

section \<open>The walk\<close>

datatype 'e walkError =
    ToolFileParse string
  | NotBlankImport string "string option"
  | BadImportPath string
  | ConfigsFailed string
  | VisitError 'e

fun collectImports :: "string \<Rightarrow> importSpec list \<Rightarrow> string list \<Rightarrow> 'e walkError + string list \<times> string list" where
  "collectImports toolFile [] seen = Inr ([], seen)"
| "collectImports toolFile (imp # imps) seen =
     (if impName imp \<noteq> Some ''_'' then Inl (NotBlankImport toolFile (impPath imp))
      else case Option.bind (impPath imp) unquote of
             None \<Rightarrow> Inl (BadImportPath toolFile)
           | Some importPath \<Rightarrow>
               if importPath \<in> set seen then collectImports toolFile imps seen
               else map_sum id (apfst (Cons importPath)) (collectImports toolFile imps (importPath # seen)))"

type_synonym visitedConfig = "instrumentationConfig \<times> string"

text \<open>A visitor gets a config and the file that imports it, and tells whether to follow it.\<close>

type_synonym ('e, 's) configVisitor = "visitedConfig \<Rightarrow> 's \<Rightarrow> 'e + bool \<times> 's"

text \<open>The inner loop: the queue, the config files seen, the state of the visitor\<close>

fun visitConfigs ::
    "('e, 's) configVisitor \<Rightarrow> (string \<Rightarrow> instrumentationConfig option) \<Rightarrow> string \<Rightarrow> string list \<Rightarrow>
     string list \<times> string list \<times> 's \<Rightarrow> 'e walkError + string list \<times> string list \<times> 's" where
  "visitConfigs visitor cfgs toolFile [] st = Inr st"
| "visitConfigs visitor cfgs toolFile (path # paths) (queue, seenFiles, s) =
     (case cfgs path of
        None \<Rightarrow> visitConfigs visitor cfgs toolFile paths (queue, seenFiles, s)
      | Some cfg \<Rightarrow>
          (case visitor (cfg, toolFile) s of
             Inl e \<Rightarrow> Inl (VisitError e)
           | Inr (follow, s') \<Rightarrow>
               if follow \<and> icToolFile cfg \<noteq> [] \<and> icToolFile cfg \<notin> set seenFiles
               then visitConfigs visitor cfgs toolFile paths (queue @ [icToolFile cfg], icToolFile cfg # seenFiles, s')
               else visitConfigs visitor cfgs toolFile paths (queue, seenFiles, s')))"

partial_function (option) walkQueue ::
    "pkgLoader \<Rightarrow> projectFiles \<Rightarrow> ('e, 's) configVisitor \<Rightarrow> string list \<Rightarrow> string list \<Rightarrow> string list \<Rightarrow> 's \<Rightarrow>
     ('e walkError + 's) option" where
  "walkQueue load P visitor queue seenImports seenFiles s =
     (case queue of
        [] \<Rightarrow> Some (Inr s)
      | toolFile # rest \<Rightarrow>
          (case pfImports P toolFile of
             None \<Rightarrow> Some (Inl (ToolFileParse toolFile))
           | Some imps \<Rightarrow>
               (case collectImports toolFile imps seenImports of
                  Inl e \<Rightarrow> Some (Inl e)
                | Inr (importPaths, seenImports') \<Rightarrow>
                    (case resolveInstrumentationConfigs load P (pathDir toolFile) importPaths of
                       None \<Rightarrow> Some (Inl (ConfigsFailed toolFile))
                     | Some cfgs \<Rightarrow>
                         (case visitConfigs visitor cfgs toolFile importPaths (rest, seenFiles, s) of
                            Inl e \<Rightarrow> Some (Inl e)
                          | Inr (queue', seenFiles', s') \<Rightarrow>
                              walkQueue load P visitor queue' seenImports' seenFiles' s')))))"

definition walkInstrumentation ::
    "pkgLoader \<Rightarrow> projectFiles \<Rightarrow> string list \<Rightarrow> ('e, 's) configVisitor \<Rightarrow> 's \<Rightarrow> ('e walkError + 's) option" where
  "walkInstrumentation load P toolFiles visitor s = walkQueue load P visitor toolFiles [] toolFiles s"
section \<open>Loading rules, match.go\<close>

definition ruleFileKey :: "projectFiles \<Rightarrow> string \<Rightarrow> string" where
  "ruleFileKey P path =
     (let absolute = (case pathAbs (pfWorkDir P) path of Some a \<Rightarrow> a | None \<Rightarrow> path)
      in case pfEvalSymlinks P absolute of Some r \<Rightarrow> r | None \<Rightarrow> pathClean absolute)"

datatype ruleLoadError =
    TreeProblem treeError
  | RuleProblem ruleError
  | ConfigProblem configError
  | NoSuchPath string
  | WalkProblem "ruleLoadError walkError"

record ruleReader =
  rrReaders :: fileReaders
  rrLibs :: ruleLibs
  rrDecoders :: ruleDecoders
  rrVersion :: string

definition loadRuleFile :: "projectFiles \<Rightarrow> ruleReader \<Rightarrow> string \<Rightarrow> ruleLoadError + InstRule list" where
  "loadRuleFile P R f =
     (case readRuleFile (rrReaders R) (rrLibs R) (rrVersion R) [f] (pfRead P f) of
        Inl e \<Rightarrow> Inl (TreeProblem e)
      | Inr doc \<Rightarrow> map_sum RuleProblem id (fileRules (rrLibs R) (rrDecoders R) doc))"

text \<open>One file of a config, unless it has been loaded: the keys seen and the rules so far\<close>

definition loadOnce ::
    "projectFiles \<Rightarrow> ruleReader \<Rightarrow> string \<Rightarrow> string list \<times> InstRule list \<Rightarrow> ruleLoadError + string list \<times> InstRule list" where
  "loadOnce P R f st =
     (if ruleFileKey P f \<in> set (fst st) then Inr st
      else map_sum id (\<lambda>rs. (ruleFileKey P f # fst st, snd st @ rs)) (loadRuleFile P R f))"

definition toolRulesVisitor ::
    "projectFiles \<Rightarrow> ruleReader \<Rightarrow> (ruleLoadError, string list \<times> InstRule list) configVisitor" where
  "toolRulesVisitor P R v st =
     (case icError (fst v) of
        Some e \<Rightarrow> Inl (ConfigProblem e)
      | None \<Rightarrow> map_sum id (Pair True) (foldOK (loadOnce P R) (icRuleFiles (fst v)) st))"

definition loadRulesFromToolFiles ::
    "pkgLoader \<Rightarrow> projectFiles \<Rightarrow> ruleReader \<Rightarrow> string list \<Rightarrow> (ruleLoadError walkError + InstRule list) option" where
  "loadRulesFromToolFiles load P R toolFiles =
     map_option (map_sum id snd) (walkInstrumentation load P toolFiles (toolRulesVisitor P R) ([], []))"

definition customRuleFiles :: "projectFiles \<Rightarrow> string \<Rightarrow> ruleLoadError + string list" where
  "customRuleFiles P path =
     (case pfIsDir P path of
        None \<Rightarrow> Inl (NoSuchPath path)
      | Some True \<Rightarrow> map_sum TreeProblem id (ruleFilesIn P path False)
      | Some False \<Rightarrow> Inr [path])"

text \<open>The rules of a file by the name of their entry\<close>

definition loadCustomRuleFile :: "projectFiles \<Rightarrow> ruleReader \<Rightarrow> string \<Rightarrow> ruleLoadError + InstRule rulesMap" where
  "loadCustomRuleFile P R f =
     map_sum id (foldl (\<lambda>m r. appendRule (getName r) r m) []) (loadRuleFile P R f)"

definition copyRules :: "InstRule rulesMap \<Rightarrow> InstRule rulesMap \<Rightarrow> InstRule rulesMap" where
  "copyRules dst src = foldl (\<lambda>m (k, v). AList.update k v m) dst src"

type_synonym ruleCache = "(string \<times> InstRule rulesMap) list"

definition loadCustomFile ::
    "projectFiles \<Rightarrow> ruleReader \<Rightarrow> string \<Rightarrow> InstRule rulesMap \<times> ruleCache \<Rightarrow> ruleLoadError + InstRule rulesMap \<times> ruleCache" where
  "loadCustomFile P R f = (\<lambda>(ruleSet, loadedFiles).
     (case map_of loadedFiles (ruleFileKey P f) of
        Some grouped \<Rightarrow> Inr (copyRules ruleSet grouped, loadedFiles)
      | None \<Rightarrow>
          map_sum id (\<lambda>grouped. (copyRules ruleSet grouped, (ruleFileKey P f, grouped) # loadedFiles))
            (loadCustomRuleFile P R f)))"

definition loadCustomPath ::
    "projectFiles \<Rightarrow> ruleReader \<Rightarrow> string \<Rightarrow> InstRule rulesMap \<times> ruleCache \<Rightarrow> ruleLoadError + InstRule rulesMap \<times> ruleCache" where
  "loadCustomPath P R path st =
     (case customRuleFiles P (trimSpace path) of
        Inl e \<Rightarrow> Inl e
      | Inr files \<Rightarrow> foldOK (loadCustomFile P R) files st)"

text \<open>The groups of a map in the order of their names\<close>

definition inNameOrder :: "InstRule rulesMap \<Rightarrow> InstRule list" where
  "inNameOrder m = concat (map (rulesAt m) (remdups (sort (map fst m))))"

definition loadCustomRules :: "projectFiles \<Rightarrow> ruleReader \<Rightarrow> string \<Rightarrow> ruleLoadError + InstRule list" where
  "loadCustomRules P R ruleConfig =
     map_sum id (\<lambda>st. inNameOrder (fst st)) (foldOK (loadCustomPath P R) (splitOn (CHR '','') ruleConfig) ([], []))"

text \<open>
  \<open>loadRules\<close>: the environment variable \<open>OTELC_RULES\<close>, the rules flag, the config files. The rules
  are \<open>None\<close> if the walk does not end.
\<close>

definition loadRules ::
    "pkgLoader \<Rightarrow> projectFiles \<Rightarrow> ruleReader \<Rightarrow> string \<Rightarrow> string \<Rightarrow> string list \<Rightarrow> (ruleLoadError + InstRule list) option" where
  "loadRules load P R envRules ruleConfig moduleDirs =
     (if envRules \<noteq> [] then Some (loadCustomRules P R envRules)
      else if ruleConfig \<noteq> [] then Some (loadCustomRules P R ruleConfig)
      else case findToolFiles P moduleDirs of
             Inl e \<Rightarrow> Some (Inl (ConfigProblem e))
           | Inr toolFiles \<Rightarrow>
               if toolFiles = [] then Some (Inr [])
               else map_option (map_sum WalkProblem id) (loadRulesFromToolFiles load P R toolFiles))"

section \<open>What the walk visits\<close>

definition blankImports :: "projectFiles \<Rightarrow> string \<Rightarrow> string list option" where
  "blankImports P toolFile = Option.bind (pfImports P toolFile) (\<lambda>imps.
     those (map (\<lambda>i. if impName i = Some ''_'' then Option.bind (impPath i) unquote else None) imps))"

text \<open>The imports of a config file; none if it is malformed\<close>

definition importsOf :: "projectFiles \<Rightarrow> string \<Rightarrow> string set" where
  "importsOf P toolFile = (case blankImports P toolFile of None \<Rightarrow> {} | Some ps \<Rightarrow> set ps)"

text \<open>The import paths that config files lead to, when \<open>C\<close> gives the configs of import paths\<close>

inductive_set reachable ::
    "projectFiles \<Rightarrow> (string \<Rightarrow> instrumentationConfig option) \<Rightarrow> string set \<Rightarrow> string set"
  for P C toolFiles where
  from_root: "t \<in> toolFiles \<Longrightarrow> p \<in> importsOf P t \<Longrightarrow> p \<in> reachable P C toolFiles"
| from_config: "p \<in> reachable P C toolFiles \<Longrightarrow> C p = Some c \<Longrightarrow> icToolFile c \<noteq> [] \<Longrightarrow>
     q \<in> importsOf P (icToolFile c) \<Longrightarrow> q \<in> reachable P C toolFiles"

text \<open>
  A well-formed project: the config files parse, their imports are blank, and an import path has one
  config wherever it is loaded from. There are finitely many config files.
\<close>

definition wellFormed ::
    "pkgLoader \<Rightarrow> projectFiles \<Rightarrow> (string \<Rightarrow> instrumentationConfig option) \<Rightarrow> string set \<Rightarrow> bool" where
  "wellFormed load P C toolFiles \<longleftrightarrow>
     (\<forall>t \<in> toolFiles \<union> {icToolFile c | p c. C p = Some c \<and> icToolFile c \<noteq> []}. blankImports P t \<noteq> None) \<and>
     (\<forall>dir ps. \<exists>cfgs. resolveInstrumentationConfigs load P dir ps = Some cfgs \<and> (\<forall>p \<in> set ps. cfgs p = C p)) \<and>
     (\<forall>p c. C p = Some c \<longrightarrow> icImportPath c = p) \<and>
     finite {icToolFile c | p c. C p = Some c}"

lemma those_Cons: "those (x # xs) = Some ys \<longleftrightarrow> (\<exists>y ys'. x = Some y \<and> those xs = Some ys' \<and> ys = y # ys')"
  by (auto split: option.splits)

lemma collectImports_all:
  assumes "those (map (\<lambda>i. if impName i = Some ''_'' then Option.bind (impPath i) unquote else None) imps) = Some all"
  shows "\<exists>ps. collectImports t imps seen = (Inr (ps, rev ps @ seen) :: 'e walkError + string list \<times> string list) \<and> distinct ps \<and> set ps = set all - set seen"
  using assms
proof (induction imps arbitrary: all seen)
  case (Cons i imps)
  then obtain p all' where p: "impName i = Some ''_''" "Option.bind (impPath i) unquote = Some p"
    and all': "those (map (\<lambda>i. if impName i = Some ''_'' then Option.bind (impPath i) unquote else None) imps) = Some all'"
    and all: "all = p # all'"
    unfolding list.map(2) those_Cons by (auto split: if_splits)
  show ?case
  proof (cases "p \<in> set seen")
    case True
    then show ?thesis using Cons.IH [OF all', of seen] p all by auto
  next
    case False
    obtain ps where
      ps: "collectImports t imps (p # seen) = (Inr (ps, rev ps @ p # seen) :: 'e walkError + string list \<times> string list)" "distinct ps"
      "set ps = set all' - set (p # seen)"
      using Cons.IH [OF all', of "p # seen"] by blast
    then have "collectImports t (i # imps) seen =
        (Inr (p # ps, rev (p # ps) @ seen) :: 'e walkError + string list \<times> string list)" using p False by simp
    then show ?thesis using ps False all by (intro exI [of _ "p # ps"]) auto
  qed
qed simp

definition visitsIn :: "(string \<Rightarrow> instrumentationConfig option) \<Rightarrow> string \<Rightarrow> string list \<Rightarrow> visitedConfig list" where
  "visitsIn C toolFile paths = List.map_filter (\<lambda>p. map_option (\<lambda>c. (c, toolFile)) (C p)) paths"

fun newFiles :: "(string \<Rightarrow> instrumentationConfig option) \<Rightarrow> string list \<Rightarrow> string list \<Rightarrow> string list" where
  "newFiles C [] seen = []"
| "newFiles C (p # ps) seen =
     (case C p of
        None \<Rightarrow> newFiles C ps seen
      | Some c \<Rightarrow>
          if icToolFile c \<noteq> [] \<and> icToolFile c \<notin> set seen
          then icToolFile c # newFiles C ps (icToolFile c # seen) else newFiles C ps seen)"

definition follows :: "('e, 's) configVisitor \<Rightarrow> bool" where
  "follows visitor \<longleftrightarrow> (\<forall>v s b s'. visitor v s = Inr (b, s') \<longrightarrow> b)"

definition actOf :: "('e, 's) configVisitor \<Rightarrow> visitedConfig \<Rightarrow> 's \<Rightarrow> 'e + 's" where
  "actOf visitor v s = map_sum id snd (visitor v s)"

lemma visitConfigs_fold:
  assumes "follows visitor" and "\<forall>p \<in> set ps. cfgs p = C p"
  shows "visitConfigs visitor cfgs t ps (queue, seen, s) =
     (case foldOK (actOf visitor) (visitsIn C t ps) s of
        Inl e \<Rightarrow> Inl (VisitError e)
      | Inr s' \<Rightarrow> Inr (queue @ newFiles C ps seen, rev (newFiles C ps seen) @ seen, s'))"
  using assms(2)
proof (induction ps arbitrary: queue seen s)
  case Nil
  then show ?case by (simp add: visitsIn_def)
next
  case (Cons p ps)
  show ?case
  proof (cases "C p")
    case None
    then show ?thesis using Cons by (simp add: visitsIn_def map_filter_simps split: sum.split)
  next
    case (Some c)
    show ?thesis
    proof (cases "visitor (c, t) s")
      case (Inl e)
      then show ?thesis using Cons.prems Some by (simp add: visitsIn_def map_filter_simps actOf_def)
    next
      case (Inr r)
      obtain b s' where r: "r = (b, s')" by (cases r)
      then have b using assms(1) Inr unfolding follows_def by blast
      have v: "visitsIn C t (p # ps) = (c, t) # visitsIn C t ps" by (simp add: visitsIn_def map_filter_simps Some)
      have a: "actOf visitor (c, t) s = Inr s'" by (simp add: actOf_def Inr r)
      show ?thesis
        using Cons.IH Cons.prems Some Inr r \<open>b\<close> v a by (simp split: sum.split)
    qed
  qed
qed

lemma newFiles_set:
  "set (newFiles C ps seen) = {icToolFile c | p c. p \<in> set ps \<and> C p = Some c \<and> icToolFile c \<noteq> []} - set seen"
  "distinct (newFiles C ps seen)"
proof -
  show "set (newFiles C ps seen) = {icToolFile c | p c. p \<in> set ps \<and> C p = Some c \<and> icToolFile c \<noteq> []} - set seen"
  proof (induction ps arbitrary: seen)
    case (Cons p ps)
    show ?case
    proof (cases "C p")
      case None
      then show ?thesis using Cons by auto
    next
      case (Some c)
      have "{icToolFile c' | q c'. q \<in> set (p # ps) \<and> C q = Some c' \<and> icToolFile c' \<noteq> []} =
          {icToolFile c' | q c'. q \<in> set ps \<and> C q = Some c' \<and> icToolFile c' \<noteq> []} \<union>
          (if icToolFile c \<noteq> [] then {icToolFile c} else {})"
        using Some by auto
      then show ?thesis using Cons [of seen] Cons [of "icToolFile c # seen"] Some by auto
    qed
  qed simp
  have notin: "x \<notin> set (newFiles C ps seen)" if "x \<in> set seen" for x C ps seen
    using that by (induction C ps seen rule: newFiles.induct) (auto split: option.splits)
  show "distinct (newFiles C ps seen)"
    by (induction C ps seen rule: newFiles.induct) (auto split: option.splits simp: notin)
qed
definition finish :: "'e + 's \<Rightarrow> 'e walkError + 's" where
  "finish r = map_sum VisitError id r"

text \<open>The state of the walk: what is in the queue is seen, what is seen and not queued is done.\<close>

definition queueInv ::
    "projectFiles \<Rightarrow> (string \<Rightarrow> instrumentationConfig option) \<Rightarrow> string set \<Rightarrow> string list \<Rightarrow> string list \<Rightarrow> string list \<Rightarrow> bool" where
  "queueInv P C roots queue seenImports seenFiles \<longleftrightarrow>
     set queue \<subseteq> set seenFiles \<and> roots \<subseteq> set seenFiles \<and>
     set seenFiles \<subseteq> roots \<union> {icToolFile c | p c. p \<in> reachable P C roots \<and> C p = Some c \<and> icToolFile c \<noteq> []} \<and>
     (\<forall>t \<in> set seenFiles - set queue. importsOf P t \<subseteq> set seenImports) \<and>
     set seenImports \<subseteq> reachable P C roots \<and>
     (\<forall>p \<in> set seenImports. \<forall>c. C p = Some c \<longrightarrow> icToolFile c \<noteq> [] \<longrightarrow> icToolFile c \<in> set seenFiles)"

lemma queueInv_done:
  assumes "queueInv P C roots [] seenImports seenFiles"
  shows "set seenImports = reachable P C roots"
proof
  show "set seenImports \<subseteq> reachable P C roots" using assms by (simp add: queueInv_def)
  show "reachable P C roots \<subseteq> set seenImports"
  proof
    fix p assume "p \<in> reachable P C roots"
    then show "p \<in> set seenImports"
      by induction (use assms in \<open>unfold queueInv_def, auto\<close>)
  qed
qed

lemma queueInv_step:
  assumes inv: "queueInv P C roots (t # rest) seenImports seenFiles"
    and ps: "set ps = importsOf P t - set seenImports"
  shows "queueInv P C roots (rest @ newFiles C ps seenFiles) (rev ps @ seenImports) (rev (newFiles C ps seenFiles) @ seenFiles)"
proof -
  let ?new = "{icToolFile c | p c. p \<in> set ps \<and> C p = Some c \<and> icToolFile c \<noteq> []}"
  have t: "t \<in> set seenFiles" and seen: "set seenFiles \<subseteq> roots \<union> {icToolFile c | p c. p \<in> reachable P C roots \<and> C p = Some c \<and> icToolFile c \<noteq> []}"
    and si: "set seenImports \<subseteq> reachable P C roots"
    using inv by (simp_all add: queueInv_def)
  have reach: "set ps \<subseteq> reachable P C roots"
  proof
    fix p assume "p \<in> set ps"
    then have p: "p \<in> importsOf P t" using ps by blast
    from t seen consider "t \<in> roots" | q c where "q \<in> reachable P C roots" "C q = Some c" "icToolFile c \<noteq> []" "t = icToolFile c"
      by blast
    then show "p \<in> reachable P C roots"
      by cases (use p in \<open>auto intro: reachable.intros\<close>)
  qed
  have files: "set (newFiles C ps seenFiles) = ?new - set seenFiles" by (rule newFiles_set(1))
  show ?thesis
    unfolding queueInv_def
  proof (intro conjI ballI allI impI)
    show "set (rest @ newFiles C ps seenFiles) \<subseteq> set (rev (newFiles C ps seenFiles) @ seenFiles)"
      using inv by (auto simp: queueInv_def)
    show "roots \<subseteq> set (rev (newFiles C ps seenFiles) @ seenFiles)" using inv by (auto simp: queueInv_def)
    show "set (rev (newFiles C ps seenFiles) @ seenFiles) \<subseteq>
        roots \<union> {icToolFile c | p c. p \<in> reachable P C roots \<and> C p = Some c \<and> icToolFile c \<noteq> []}"
      using seen reach by (auto simp: files)
    show "set (rev ps @ seenImports) \<subseteq> reachable P C roots" using reach si by auto
  next
    fix f assume f: "f \<in> set (rev (newFiles C ps seenFiles) @ seenFiles) - set (rest @ newFiles C ps seenFiles)"
    show "importsOf P f \<subseteq> set (rev ps @ seenImports)"
    proof (cases "f = t")
      case False
      then have "f \<in> set seenFiles - set (t # rest)" using f by auto
      then have "importsOf P f \<subseteq> set seenImports" using inv by (simp add: queueInv_def)
      then show ?thesis by auto
    qed (use ps in auto)
  next
    fix p c assume p: "p \<in> set (rev ps @ seenImports)" "C p = Some c" "icToolFile c \<noteq> []"
    show "icToolFile c \<in> set (rev (newFiles C ps seenFiles) @ seenFiles)"
    proof (cases "p \<in> set ps")
      case True
      then have "icToolFile c \<in> ?new" using p(2,3) by blast
      then show ?thesis using files by auto
    next
      case False
      then show ?thesis using p inv by (simp add: queueInv_def)
    qed
  qed
qed

lemma visitsIn_paths:
  assumes "\<And>p c. C p = Some c \<Longrightarrow> icImportPath c = p"
  shows "map (icImportPath \<circ> fst) (visitsIn C t ps) = filter (\<lambda>p. C p \<noteq> None) ps"
  by (induction ps) (auto simp: visitsIn_def map_filter_simps assms)

lemma visitsIn_set: "fst ` set (visitsIn C t ps) = {c | p c. p \<in> set ps \<and> C p = Some c}"
  by (induction ps) (auto simp: visitsIn_def map_filter_simps image_iff split: option.splits)

lemma walk_visits:
  fixes visitor :: "('e, 's) configVisitor"
  assumes wf: "wellFormed load P C roots" and follow: "follows visitor"
    and inv: "queueInv P C roots queue seenImports seenFiles"
  shows "\<exists>vs. (\<forall>s. walkQueue load P visitor queue seenImports seenFiles s = Some (finish (foldOK (actOf visitor) vs s))) \<and>
    distinct (map (icImportPath \<circ> fst) vs) \<and>
    fst ` set vs = {c | p c. p \<in> reachable P C roots - set seenImports \<and> C p = Some c}"
  using inv
proof (induction "card ({icToolFile c | p c. C p = Some c} - set seenFiles) + length queue"
    arbitrary: queue seenImports seenFiles rule: less_induct)
  case less
  have path: "icImportPath c = p" if "C p = Some c" for p c using wf that by (simp add: wellFormed_def)
  show ?case
  proof (cases queue)
    case Nil
    have "set seenImports = reachable P C roots" using queueInv_done less.prems Nil by blast
    moreover have "walkQueue load P visitor queue seenImports seenFiles s = Some (finish (foldOK (actOf visitor) [] s))" for s
      by (subst walkQueue.simps) (simp add: Nil finish_def)
    ultimately show ?thesis by (intro exI [of _ "[]"]) auto
  next
    case (Cons t rest)
    let ?T = "{icToolFile c | p c. C p = Some c}"
    have "t \<in> set seenFiles" "set seenFiles \<subseteq> roots \<union> {icToolFile c | p c. p \<in> reachable P C roots \<and> C p = Some c \<and> icToolFile c \<noteq> []}"
      using less.prems by (auto simp: queueInv_def Cons)
    then have "t \<in> roots \<union> {icToolFile c | p c. C p = Some c \<and> icToolFile c \<noteq> []}" by blast
    then have "blankImports P t \<noteq> None" using wf unfolding wellFormed_def by blast
    then obtain imps all where imps: "pfImports P t = Some imps"
      and all: "those (map (\<lambda>i. if impName i = Some ''_'' then Option.bind (impPath i) unquote else None) imps) = Some all"
      by (auto simp: blankImports_def Option.bind_eq_Some_conv)
    have imported: "importsOf P t = set all" using imps all by (simp add: importsOf_def blankImports_def)
    obtain ps where ps: "collectImports t imps seenImports = (Inr (ps, rev ps @ seenImports) :: 'e walkError + string list \<times> string list)"
      "distinct ps" "set ps = set all - set seenImports"
      using collectImports_all [OF all, of t seenImports] by blast
    obtain cfgs where cfgs: "resolveInstrumentationConfigs load P (pathDir t) ps = Some cfgs" "\<forall>p \<in> set ps. cfgs p = C p"
      using wf unfolding wellFormed_def by blast
    let ?new = "newFiles C ps seenFiles"
    have inv': "queueInv P C roots (rest @ ?new) (rev ps @ seenImports) (rev ?new @ seenFiles)"
      using queueInv_step less.prems ps(3) imported unfolding Cons by blast
    have measure: "card (?T - set (rev ?new @ seenFiles)) + length (rest @ ?new) < card (?T - set seenFiles) + length queue"
    proof -
      have fin: "finite ?T" using wf by (simp add: wellFormed_def)
      have new: "set ?new \<subseteq> ?T - set seenFiles" unfolding newFiles_set(1) by blast
      have "?T - set (rev ?new @ seenFiles) = (?T - set seenFiles) - set ?new" by auto
      then have "card (?T - set (rev ?new @ seenFiles)) = card (?T - set seenFiles) - card (set ?new)"
        using new by (simp add: card_Diff_subset)
      moreover have "card (set ?new) = length ?new" by (rule distinct_card [OF newFiles_set(2)])
      moreover have "card (set ?new) \<le> card (?T - set seenFiles)" using new fin by (simp add: card_mono)
      ultimately show ?thesis by (simp add: Cons)
    qed
    obtain vs where vs: "\<And>s. walkQueue load P visitor (rest @ ?new) (rev ps @ seenImports) (rev ?new @ seenFiles) s =
        Some (finish (foldOK (actOf visitor) vs s))"
      and dist: "distinct (map (icImportPath \<circ> fst) vs)"
      and cs: "fst ` set vs = {c | p c. p \<in> reachable P C roots - set (rev ps @ seenImports) \<and> C p = Some c}"
      using less.hyps [OF measure inv'] by blast
    let ?vs = "visitsIn C t ps @ vs"
    have "walkQueue load P visitor queue seenImports seenFiles s = Some (finish (foldOK (actOf visitor) ?vs s))" for s
      using vs by (subst walkQueue.simps)
        (simp add: Cons imps ps(1) cfgs(1) visitConfigs_fold [OF follow cfgs(2)] foldOK_append finish_def split: sum.split)
    moreover have "distinct (map (icImportPath \<circ> fst) ?vs)"
    proof -
      have "set (map (icImportPath \<circ> fst) vs) \<subseteq> - set ps"
      proof
        fix p assume "p \<in> set (map (icImportPath \<circ> fst) vs)"
        then have "p \<in> icImportPath ` fst ` set vs" by auto
        then show "p \<in> - set ps" unfolding cs using path by auto
      qed
      moreover have "map (icImportPath \<circ> fst) (visitsIn C t ps) = filter (\<lambda>p. C p \<noteq> None) ps"
        by (rule visitsIn_paths [OF path])
      ultimately show ?thesis
        using ps(2) dist by (simp only: map_append distinct_append distinct_filter set_filter) blast
    qed
    moreover have "fst ` set ?vs = {c | p c. p \<in> reachable P C roots - set seenImports \<and> C p = Some c}"
    proof -
      have "set ps \<subseteq> reachable P C roots" using inv' by (simp add: queueInv_def)
      then have "reachable P C roots - set seenImports = set ps \<union> (reachable P C roots - set (rev ps @ seenImports))"
        using ps(3) by auto
      then show ?thesis unfolding set_append image_Un visitsIn_set cs by blast
    qed
    ultimately show ?thesis by blast
  qed
qed
section \<open>The rules behind the config files\<close>

definition rulesIn :: "projectFiles \<Rightarrow> ruleReader \<Rightarrow> string \<Rightarrow> InstRule list" where
  "rulesIn P R f = (case loadRuleFile P R f of Inl e \<Rightarrow> [] | Inr rs \<Rightarrow> rs)"

text \<open>The files of a list that are loaded: the first one of each key not seen\<close>

fun firstOfKeys :: "(string \<Rightarrow> string) \<Rightarrow> string list \<Rightarrow> string list \<Rightarrow> string list" where
  "firstOfKeys key seen [] = []"
| "firstOfKeys key seen (f # fs) =
     (if key f \<in> set seen then firstOfKeys key seen fs else f # firstOfKeys key (key f # seen) fs)"

lemma firstOfKeys_keys:
  "distinct (map key (firstOfKeys key seen fs))" "set (firstOfKeys key seen fs) \<subseteq> set fs"
  "key ` set (firstOfKeys key seen fs) = key ` set fs - set seen"
  by (induction key seen fs rule: firstOfKeys.induct) auto

lemma loadOnce_all:
  "foldOK (loadOnce P R) fs (seen, rules) =
     (case List.find (\<lambda>f. \<exists>e. loadRuleFile P R f = Inl e) (firstOfKeys (ruleFileKey P) seen fs) of
        Some f \<Rightarrow> map_sum id (\<lambda>rs. (seen, rules)) (loadRuleFile P R f)
      | None \<Rightarrow> Inr (rev (map (ruleFileKey P) (firstOfKeys (ruleFileKey P) seen fs)) @ seen,
                      rules @ concat (map (rulesIn P R) (firstOfKeys (ruleFileKey P) seen fs))))"
proof (induction fs arbitrary: seen rules)
  case (Cons f fs)
  let ?key = "ruleFileKey P"
  show ?case
  proof (cases "?key f \<in> set seen")
    case True
    then have same: "firstOfKeys ?key seen (f # fs) = firstOfKeys ?key seen fs" and "loadOnce P R f (seen, rules) = Inr (seen, rules)"
      by (simp_all add: loadOnce_def)
    then show ?thesis unfolding same using Cons by simp
  next
    case False
    then have new: "firstOfKeys ?key seen (f # fs) = f # firstOfKeys ?key (?key f # seen) fs" by simp
    show ?thesis
    proof (cases "loadRuleFile P R f")
      case (Inl e)
      then show ?thesis unfolding new using False by (simp add: loadOnce_def)
    next
      case (Inr rs)
      then have "loadOnce P R f (seen, rules) = Inr (?key f # seen, rules @ rs)" "rulesIn P R f = rs"
        using False by (simp_all add: loadOnce_def rulesIn_def)
      moreover have find: "List.find (\<lambda>f. \<exists>e. loadRuleFile P R f = Inl e) (f # fs') =
          List.find (\<lambda>f. \<exists>e. loadRuleFile P R f = Inl e) fs'" for fs'
        using Inr by simp
      ultimately show ?thesis
        unfolding new find using Cons [of "?key f # seen" "rules @ rs"]
        by (cases "List.find (\<lambda>f. \<exists>e. loadRuleFile P R f = Inl e) (firstOfKeys ?key (?key f # seen) fs)")
          (auto dest: find_SomeD)
    qed
  qed
qed simp

lemma toolRules_follows: "follows (toolRulesVisitor P R)"
  by (auto simp: follows_def toolRulesVisitor_def split: option.splits sum.splits)

lemma toolRules_fold:
  assumes "\<forall>v \<in> set vs. icError (fst v) = None"
  shows "foldOK (actOf (toolRulesVisitor P R)) vs st = foldOK (loadOnce P R) (concat (map (icRuleFiles \<circ> fst) vs)) st"
  using assms
proof (induction vs arbitrary: st)
  case (Cons v vs)
  then show ?case
    by (auto simp: actOf_def toolRulesVisitor_def foldOK_append sum.map_comp comp_def split: sum.split)
qed simp

lemma toolRules_error:
  "v \<in> set vs \<Longrightarrow> icError (fst v) \<noteq> None \<Longrightarrow> \<exists>e. foldOK (actOf (toolRulesVisitor P R)) vs st = Inl e"
  by (induction vs arbitrary: st) (auto simp: actOf_def toolRulesVisitor_def split: sum.split)

text \<open>The rule files that config files lead to\<close>

definition reachedFiles ::
    "projectFiles \<Rightarrow> (string \<Rightarrow> instrumentationConfig option) \<Rightarrow> string set \<Rightarrow> string set" where
  "reachedFiles P C roots = {f | p c f. p \<in> reachable P C roots \<and> C p = Some c \<and> f \<in> set (icRuleFiles c)}"

lemma walk_start: "queueInv P C (set toolFiles) toolFiles [] toolFiles"
  by (auto simp: queueInv_def)

text \<open>
  C9: loading the rules of a well-formed project ends. It succeeds exactly if every config and rule
  file that the config files lead to, over any chain of imports, is in order; then the rules are
  those of all these files, and the rules of a file are there once however many paths lead to it.
\<close>

theorem rules_of_project:
  assumes "wellFormed load P C (set toolFiles)"
    and "\<And>f g. ruleFileKey P f = ruleFileKey P g \<Longrightarrow> loadRuleFile P R f = loadRuleFile P R g"
  shows "\<exists>result. loadRulesFromToolFiles load P R toolFiles = Some result \<and>
    ((\<exists>rules. result = Inr rules) \<longleftrightarrow>
       (\<forall>p \<in> reachable P C (set toolFiles). \<forall>c. C p = Some c \<longrightarrow> icError c = None) \<and>
       (\<forall>f \<in> reachedFiles P C (set toolFiles). \<exists>rs. loadRuleFile P R f = Inr rs)) \<and>
    (\<forall>rules. result = Inr rules \<longrightarrow>
       (\<exists>fs. rules = concat (map (rulesIn P R) fs) \<and> distinct (map (ruleFileKey P) fs) \<and>
          ruleFileKey P ` set fs = ruleFileKey P ` reachedFiles P C (set toolFiles)))"
proof -
  let ?reach = "reachable P C (set toolFiles)"
  let ?key = "ruleFileKey P"
  obtain vs where walk: "\<And>s. walkQueue load P (toolRulesVisitor P R) toolFiles [] toolFiles s =
      Some (finish (foldOK (actOf (toolRulesVisitor P R)) vs s))"
    and cs: "fst ` set vs = {c | p c. p \<in> ?reach \<and> C p = Some c}"
    using walk_visits [OF assms(1) toolRules_follows [of P R] walk_start] by auto
  let ?run = "foldOK (actOf (toolRulesVisitor P R)) vs ([], [])"
  have res: "loadRulesFromToolFiles load P R toolFiles = Some (map_sum id snd (finish ?run))"
    by (simp add: loadRulesFromToolFiles_def walkInstrumentation_def walk)
  have visited: "c \<in> fst ` set vs \<longleftrightarrow> (\<exists>p. p \<in> ?reach \<and> C p = Some c)" for c
    unfolding cs by blast
  have ok: "(\<forall>v \<in> set vs. icError (fst v) = None) \<longleftrightarrow> (\<forall>p \<in> ?reach. \<forall>c. C p = Some c \<longrightarrow> icError c = None)"
  proof -
    have "(\<forall>v \<in> set vs. icError (fst v) = None) \<longleftrightarrow> (\<forall>c. c \<in> fst ` set vs \<longrightarrow> icError c = None)" by auto
    also have "\<dots> \<longleftrightarrow> (\<forall>c. (\<exists>p. p \<in> ?reach \<and> C p = Some c) \<longrightarrow> icError c = None)" by (simp only: visited)
    also have "\<dots> \<longleftrightarrow> (\<forall>p \<in> ?reach. \<forall>c. C p = Some c \<longrightarrow> icError c = None)" by (rule iffI) (fast, fast)
    finally show ?thesis .
  qed
  define fs where "fs = concat (map (icRuleFiles \<circ> fst) vs)"
  have files: "set fs = reachedFiles P C (set toolFiles)"
  proof -
    have "set fs = (\<Union>c \<in> fst ` set vs. set (icRuleFiles c))" by (auto simp: fs_def)
    then show ?thesis unfolding cs reachedFiles_def by blast
  qed
  show ?thesis
  proof (cases "\<forall>v \<in> set vs. icError (fst v) = None")
    case False
    then obtain e where "?run = Inl e" using toolRules_error [of _ vs P R "([], [])"] by blast
    then show ?thesis using res ok False by (simp add: finish_def)
  next
    case True
    let ?load = "firstOfKeys ?key [] fs"
    have run: "?run = foldOK (loadOnce P R) fs ([], [])" using toolRules_fold [OF True] by (simp add: fs_def)
    have keys: "?key ` set ?load = ?key ` set fs" using firstOfKeys_keys(3) [of ?key "[]" fs] by simp
    show ?thesis
    proof (cases "List.find (\<lambda>f. \<exists>e. loadRuleFile P R f = Inl e) ?load")
      case None
      then have "?run = Inr (rev (map ?key ?load), concat (map (rulesIn P R) ?load))"
        unfolding run loadOnce_all by simp
      moreover have "\<exists>rs. loadRuleFile P R f = Inr rs" if "f \<in> set fs" for f
      proof -
        have "?key f \<in> ?key ` set ?load" using that unfolding keys by (rule imageI)
        then obtain g where "?key f = ?key g" and g: "g \<in> set ?load" by (rule imageE)
        then have same: "loadRuleFile P R f = loadRuleFile P R g" using assms(2) by blast
        have "\<nexists>e. loadRuleFile P R g = Inl e" using None g by (simp add: find_None_iff)
        then have "\<exists>rs. loadRuleFile P R g = Inr rs" by (cases "loadRuleFile P R g") auto
        then show ?thesis unfolding same .
      qed
      ultimately have res': "loadRulesFromToolFiles load P R toolFiles = Some (Inr (concat (map (rulesIn P R) ?load)))"
        and good: "\<forall>f \<in> reachedFiles P C (set toolFiles). \<exists>rs. loadRuleFile P R f = Inr rs"
        using res files by (simp_all add: finish_def)
      have "distinct (map ?key ?load)" by (rule firstOfKeys_keys(1))
      then show ?thesis
        using good ok [THEN iffD1, OF True] keys files by (intro exI [of _ "Inr (concat (map (rulesIn P R) ?load))"] conjI res') auto
    next
      case (Some f)
      then obtain e where e: "loadRuleFile P R f = Inl e" and "f \<in> set ?load" using find_SomeD [OF Some] by auto
      then have "f \<in> reachedFiles P C (set toolFiles)" using firstOfKeys_keys(2) [of ?key "[]" fs] files by blast
      moreover have "?run = Inl e" unfolding run loadOnce_all using Some e by simp
      ultimately have "loadRulesFromToolFiles load P R toolFiles = Some (Inl (VisitError e))"
        and "\<not> (\<forall>f \<in> reachedFiles P C (set toolFiles). \<exists>rs. loadRuleFile P R f = Inr rs)"
        using res e by (simp_all add: finish_def) (metis sum.distinct(1))
      then show ?thesis by simp
    qed
  qed
qed

section \<open>Custom rules\<close>

text \<open>Loading every file again, without a cache\<close>

definition loadCustomAgain ::
    "projectFiles \<Rightarrow> ruleReader \<Rightarrow> string \<Rightarrow> InstRule rulesMap \<Rightarrow> ruleLoadError + InstRule rulesMap" where
  "loadCustomAgain P R f ruleSet = map_sum id (copyRules ruleSet) (loadCustomRuleFile P R f)"

fun allCustomFiles :: "projectFiles \<Rightarrow> string list \<Rightarrow> ruleLoadError + string list" where
  "allCustomFiles P [] = Inr []"
| "allCustomFiles P (path # paths) =
     (case customRuleFiles P (trimSpace path) of
        Inl e \<Rightarrow> Inl e
      | Inr files \<Rightarrow> map_sum id (append files) (allCustomFiles P paths))"

definition cacheOK :: "projectFiles \<Rightarrow> ruleReader \<Rightarrow> ruleCache \<Rightarrow> bool" where
  "cacheOK P R loadedFiles \<longleftrightarrow>
     (\<forall>k grouped. map_of loadedFiles k = Some grouped \<longrightarrow> (\<exists>f. ruleFileKey P f = k \<and> loadCustomRuleFile P R f = Inr grouped))"

lemma loadCustomFile_again:
  assumes "\<And>f g. ruleFileKey P f = ruleFileKey P g \<Longrightarrow> loadRuleFile P R f = loadRuleFile P R g" and "cacheOK P R loadedFiles"
  shows "map_sum id fst (loadCustomFile P R f (ruleSet, loadedFiles)) = loadCustomAgain P R f ruleSet \<and>
    (\<forall>st. loadCustomFile P R f (ruleSet, loadedFiles) = Inr st \<longrightarrow> cacheOK P R (snd st))"
proof (cases "map_of loadedFiles (ruleFileKey P f)")
  case (Some grouped)
  then obtain g where "ruleFileKey P g = ruleFileKey P f" "loadCustomRuleFile P R g = Inr grouped"
    using assms(2) unfolding cacheOK_def by blast
  then have "loadCustomRuleFile P R f = Inr grouped"
    using assms(1) [of g f] by (simp add: loadCustomRuleFile_def)
  then show ?thesis using Some assms(2) by (simp add: loadCustomFile_def loadCustomAgain_def)
next
  case None
  show ?thesis
  proof (cases "loadCustomRuleFile P R f")
    case (Inl e)
    then show ?thesis using None by (simp add: loadCustomFile_def loadCustomAgain_def)
  next
    case (Inr grouped)
    then have "cacheOK P R ((ruleFileKey P f, grouped) # loadedFiles)"
      using assms(2) unfolding cacheOK_def by auto
    then show ?thesis using None Inr by (simp add: loadCustomFile_def loadCustomAgain_def)
  qed
qed

lemma loadCustomFiles_again:
  assumes "\<And>f g. ruleFileKey P f = ruleFileKey P g \<Longrightarrow> loadRuleFile P R f = loadRuleFile P R g" and "cacheOK P R (snd st)"
  shows "map_sum id fst (foldOK (loadCustomFile P R) fs st) = foldOK (loadCustomAgain P R) fs (fst st) \<and>
    (\<forall>st'. foldOK (loadCustomFile P R) fs st = Inr st' \<longrightarrow> cacheOK P R (snd st'))"
  using assms(2)
proof (induction fs arbitrary: st)
  case (Cons f fs)
  have step: "map_sum id fst (loadCustomFile P R f st) = loadCustomAgain P R f (fst st)"
    and ok: "\<And>st'. loadCustomFile P R f st = Inr st' \<Longrightarrow> cacheOK P R (snd st')"
    using loadCustomFile_again [of P R "snd st" f "fst st", OF assms(1) Cons.prems] by auto
  show ?case
  proof (cases "loadCustomFile P R f st")
    case (Inl e)
    then show ?thesis using step by (cases "loadCustomAgain P R f (fst st)") auto
  next
    case (Inr st1)
    then have "loadCustomAgain P R f (fst st) = Inr (fst st1)" using step by simp
    then show ?thesis using Inr Cons.IH [OF ok [OF Inr]] by simp
  qed
qed simp
lemma loadCustomPaths:
  "allCustomFiles P paths = Inr files \<Longrightarrow> foldOK (loadCustomPath P R) paths st = foldOK (loadCustomFile P R) files st"
proof (induction paths arbitrary: files st)
  case (Cons path paths)
  then obtain here others where h: "customRuleFiles P (trimSpace path) = Inr here" "allCustomFiles P paths = Inr others"
    and files: "files = here @ others"
    by (cases "customRuleFiles P (trimSpace path)"; cases "allCustomFiles P paths") auto
  have "loadCustomPath P R path st = foldOK (loadCustomFile P R) here st" using h(1) by (simp add: loadCustomPath_def)
  then show ?case using Cons.IH [OF h(2)] by (simp add: files foldOK_append split: sum.split)
qed simp

lemma map_of_copyRules: "distinct (map fst src) \<Longrightarrow> map_of (copyRules dst src) = map_of dst ++ map_of src"
proof -
  have "map_of (copyRules dst src) = map_of dst ++ map_of (rev src)"
    unfolding copyRules_def
    by (induction src arbitrary: dst) (auto simp: update_conv' fun_eq_iff map_add_def split: option.splits)
  moreover assume "distinct (map fst src)"
  ultimately show ?thesis by (simp add: map_of_rev)
qed

lemma grouped_distinct: "distinct (map fst (foldl (\<lambda>m r. appendRule (getName r) r m) [] rs))"
proof -
  have "distinct (map fst m) \<Longrightarrow> distinct (map fst (foldl (\<lambda>m r. appendRule (getName r) r m) m rs))"
    for m :: "InstRule rulesMap"
    by (induction rs arbitrary: m) (simp_all add: distinct_appendRule)
  then show ?thesis by simp
qed

text \<open>The group of the last file that has the name\<close>

definition lastGroup :: "(string \<Rightarrow> InstRule rulesMap) \<Rightarrow> string list \<Rightarrow> string \<Rightarrow> InstRule list" where
  "lastGroup G files n = (case List.find (\<lambda>f. map_of (G f) n \<noteq> None) (rev files) of None \<Rightarrow> [] | Some f \<Rightarrow> rulesAt (G f) n)"

lemma copy_all:
  assumes "\<forall>f \<in> set files. loadCustomRuleFile P R f = Inr (G f)"
  shows "\<exists>m. foldOK (loadCustomAgain P R) files [] = Inr m \<and> rulesAt m n = lastGroup G files n \<and>
    fst ` set m = (\<Union>f \<in> set files. fst ` set (G f))"
proof -
  have step: "loadCustomAgain P R f m = Inr (copyRules m (G f))" if "f \<in> set files" for f m
    using assms that by (simp add: loadCustomAgain_def)
  have dist: "distinct (map fst (G f))" if "f \<in> set files" for f
  proof -
    have "loadCustomRuleFile P R f = Inr (G f)" using assms that by blast
    then obtain rs where "G f = foldl (\<lambda>m r. appendRule (getName r) r m) [] rs"
      by (cases "loadRuleFile P R f") (simp_all add: loadCustomRuleFile_def, metis)
    then show ?thesis using grouped_distinct [of rs] by simp
  qed
  from step dist show ?thesis
  proof (induction files rule: rev_induct)
    case Nil
    then show ?case by (simp add: lastGroup_def rulesAt_def)
  next
    case (snoc f fs)
    obtain m where m: "foldOK (loadCustomAgain P R) fs [] = Inr m" "rulesAt m n = lastGroup G fs n"
      "fst ` set m = (\<Union>f \<in> set fs. fst ` set (G f))"
      using snoc.IH snoc.prems by auto
    have maps: "map_of (copyRules m (G f)) = map_of m ++ map_of (G f)"
      using map_of_copyRules snoc.prems(2) by simp
    have "foldOK (loadCustomAgain P R) (fs @ [f]) [] = Inr (copyRules m (G f))"
      using m(1) snoc.prems(1) by (simp add: foldOK_append)
    moreover have "rulesAt (copyRules m (G f)) n = lastGroup G (fs @ [f]) n"
      using m(2) by (auto simp: rulesAt_def lastGroup_def maps map_add_def split: option.splits)
    moreover have "fst ` set (copyRules m (G f)) = (\<Union>g \<in> set (fs @ [f]). fst ` set (G g))"
    proof -
      have "fst ` set (copyRules m (G f)) = dom (map_of (copyRules m (G f)))" by (simp add: dom_map_of_conv_image_fst)
      also have "\<dots> = fst ` set m \<union> fst ` set (G f)" by (simp add: maps dom_map_of_conv_image_fst Un_commute)
      finally show ?thesis using m(3) by auto
    qed
    ultimately show ?case by blast
  qed
qed

text \<open>
  Custom rules, if all their files load. The file list may name a file several times; it is read
  once, and the result is as if it were read each time: for each entry name, in the order of the
  names, the group of the last file that defines it, as a unit.
\<close>

theorem custom_rules_last_wins:
  assumes "\<And>f g. ruleFileKey P f = ruleFileKey P g \<Longrightarrow> loadRuleFile P R f = loadRuleFile P R g"
    and "allCustomFiles P (splitOn (CHR '','') ruleConfig) = Inr files"
    and "\<forall>f \<in> set files. loadCustomRuleFile P R f = Inr (G f)"
  shows "loadCustomRules P R ruleConfig =
    Inr (concat (map (lastGroup G files) (remdups (sort (concat (map (\<lambda>f. map fst (G f)) files))))))"
proof -
  have "map_sum id fst (foldOK (loadCustomFile P R) files ([], [])) = foldOK (loadCustomAgain P R) files []"
    using loadCustomFiles_again [of P R "([], [])", OF assms(1)] by (simp add: cacheOK_def)
  moreover obtain m where m: "foldOK (loadCustomAgain P R) files [] = Inr m" "fst ` set m = (\<Union>f \<in> set files. fst ` set (G f))"
    using copy_all [OF assms(3)] by blast
  ultimately obtain st where st: "foldOK (loadCustomFile P R) files ([], []) = Inr st" "fst st = m"
    by (cases "foldOK (loadCustomFile P R) files ([], [])") auto
  have groups: "rulesAt m n = lastGroup G files n" for n
    using copy_all [OF assms(3), of n] m(1) by simp
  have "remdups (sort (map fst m)) = remdups (sort (concat (map (\<lambda>f. map fst (G f)) files)))"
    by (rule sorted_distinct_set_unique) (auto simp: m(2))
  then show ?thesis
    using st groups by (simp add: loadCustomRules_def loadCustomPaths [OF assms(2)] inNameOrder_def cong: map_cong)
qed


section \<open>A sample\<close>

text \<open>
  The config file of the application imports \<open>inst/all\<close>, which has no rules but a config file of
  its own, which imports \<open>inst/http\<close>, which has rules.
\<close>

definition toolImport :: "string \<Rightarrow> importSpec" where
  "toolImport path = \<lparr>impName = Some ''_'', impPath = Some (CHR 0x22 # path @ [CHR 0x22])\<rparr>"

definition ruleText :: string where "ruleText = ''Serve''"

definition sampleProject :: projectFiles where
  "sampleProject = \<lparr>pfExists = \<lambda>p. p = ''/inst/all/otel.instrumentation.go'', pfIsDir = \<lambda>p. Some False,
     pfTree = \<lambda>d. if d = ''/inst/http'' then Dir ''http'' (Some [File ''go.mod'' None, File ''otelc.yml'' (Some ruleText)])
                   else Dir ''all'' (Some []),
     pfImports = \<lambda>f. if f = ''/app/otelc.tool.go'' then Some [toolImport ''inst/all'']
                      else if f = ''/inst/all/otel.instrumentation.go'' then Some [toolImport ''inst/http''] else None,
     pfRead = \<lambda>f. Some ruleText, pfEvalSymlinks = \<lambda>f. Some f, pfWorkDir = Some ''/app''\<rparr>"

definition sampleRuleReader :: ruleReader where
  "sampleRuleReader = \<lparr>rrReaders = sampleReaders\<lparr>rdYaml := \<lambda>s. Some [MappingNode [ScalarNode ''!!str'' ''serve'', ScalarNode ''!!str'' s]]\<rparr>,
     rrLibs = sampleLibs, rrDecoders = sampleDecoders, rrVersion = ''v1.0.0''\<rparr>"

definition instPkg :: "string \<Rightarrow> string \<Rightarrow> pkg" where
  "instPkg path dir = Pkg path path [] [dir @ ''/doc.go''] [] (Some \<lparr>modPath = path, modDir = dir\<rparr>) [] [] []"

definition sampleLoader :: pkgLoader where
  "sampleLoader dir flags tests paths =
     Some (map (\<lambda>p. if p = ''inst/all'' then instPkg p ''/inst/all'' else if p = ''inst/http'' then instPkg p ''/inst/http''
                    else Pkg [] [] [] [] [] None [] [] []) paths)"

definition sampleConfig :: "string \<Rightarrow> instrumentationConfig option" where
  "sampleConfig p =
     (if p = ''inst/all'' then Some \<lparr>icImportPath = p, icToolFile = ''/inst/all/otel.instrumentation.go'', icRuleFiles = [], icError = None\<rparr>
      else if p = ''inst/http'' then Some \<lparr>icImportPath = p, icToolFile = [], icRuleFiles = [''/inst/http/otelc.yml''], icError = None\<rparr>
      else None)"

lemma sample_configs:
  "configOf sampleProject (instPkg ''inst/all'' ''/inst/all'') = the (sampleConfig ''inst/all'')"
  "configOf sampleProject (instPkg ''inst/http'' ''/inst/http'') = the (sampleConfig ''inst/http'')"
  by code_simp+

lemma sample_imports:
  "blankImports sampleProject ''/app/otelc.tool.go'' = Some [''inst/all'']"
  "blankImports sampleProject ''/inst/all/otel.instrumentation.go'' = Some [''inst/http'']"
  by code_simp+

lemma sample_wellFormed: "wellFormed sampleLoader sampleProject sampleConfig (set [''/app/otelc.tool.go''])"
  unfolding wellFormed_def
proof (intro conjI)
  have tools: "{icToolFile c | p c. sampleConfig p = Some c} \<subseteq> {''/inst/all/otel.instrumentation.go'', []}"
    by (auto simp: sampleConfig_def split: if_splits)
  then show "finite {icToolFile c | p c. sampleConfig p = Some c}" by (rule finite_subset) simp
  have "f = ''/app/otelc.tool.go'' \<or> f = ''/inst/all/otel.instrumentation.go''"
    if "f \<in> set [''/app/otelc.tool.go''] \<union> {icToolFile c | p c. sampleConfig p = Some c \<and> icToolFile c \<noteq> []}" for f
    using that tools by auto
  then show "\<forall>t \<in> set [''/app/otelc.tool.go''] \<union> {icToolFile c | p c. sampleConfig p = Some c \<and> icToolFile c \<noteq> []}.
      blankImports sampleProject t \<noteq> None"
    using sample_imports by fastforce
  show "\<forall>p c. sampleConfig p = Some c \<longrightarrow> icImportPath c = p" by (auto simp: sampleConfig_def split: if_splits)
  show "\<forall>dir ps. \<exists>cfgs. resolveInstrumentationConfigs sampleLoader sampleProject dir ps = Some cfgs \<and>
      (\<forall>p \<in> set ps. cfgs p = sampleConfig p)"
  proof (intro allI)
    fix dir ps
    let ?g = "\<lambda>p. if p = ''inst/all'' then instPkg p ''/inst/all'' else if p = ''inst/http'' then instPkg p ''/inst/http''
                    else Pkg [] [] [] [] [] None [] [] []"
    let ?entries = "map (\<lambda>p. (pkgPath p, configOf sampleProject p)) (filter (\<lambda>p. pkgPath p \<noteq> []) (map ?g ps))"
    have e: "?entries = map (\<lambda>p. (p, the (sampleConfig p))) (filter (\<lambda>p. sampleConfig p \<noteq> None) ps)"
      using sample_configs by (induction ps) (auto simp: sampleConfig_def instPkg_def)
    have "map_of (rev ?entries) p = sampleConfig p" if "p \<in> set ps" for p
      unfolding e rev_map map_of_map_restrict using that by (auto simp: restrict_map_def)
    then show "\<exists>cfgs. resolveInstrumentationConfigs sampleLoader sampleProject dir ps = Some cfgs \<and>
        (\<forall>p \<in> set ps. cfgs p = sampleConfig p)"
      by (auto simp: resolveInstrumentationConfigs_def sampleLoader_def)
  qed
qed

lemma sample_parse:
  "parseFile sampleLibs [MappingNode [ScalarNode ''!!str'' ''serve'', ScalarNode ''!!str'' ruleText]] = Inr Rule_Rules.sampleFile"
  by code_simp

lemma sample_loads: "loadRuleFile sampleProject sampleRuleReader f = Inr [FuncRule (sampleFuncRule\<lparr>ruleName := ''serve''\<rparr>)]"
proof -
  have "checkVersion (semverValid sampleLibs) (isPseudoVersion sampleLibs) (semverCompare sampleLibs) ''v1.0.0'' v" for v
    by (simp add: checkVersion_def sampleLibs_def)
  then show ?thesis
    using sample_parse sampleFile_rules by (simp add: loadRuleFile_def readRuleFile_def checkRuleFileVersion_def sampleRuleReader_def sampleProject_def)
qed

theorem rules_of_project_witness:
  "\<exists>rules. loadRulesFromToolFiles sampleLoader sampleProject sampleRuleReader [''/app/otelc.tool.go''] = Some (Inr rules) \<and>
     FuncRule (sampleFuncRule\<lparr>ruleName := ''serve''\<rparr>) \<in> set rules"
proof -
  let ?reach = "reachable sampleProject sampleConfig (set [''/app/otelc.tool.go''])"
  let ?files = "reachedFiles sampleProject sampleConfig (set [''/app/otelc.tool.go''])"
  have fine: "icError c = None" if "sampleConfig p = Some c" for p c
    using that by (auto simp: sampleConfig_def split: if_splits)
  have "''inst/all'' \<in> ?reach"
    by (rule reachable.from_root [of "''/app/otelc.tool.go''"]) (simp_all add: importsOf_def sample_imports)
  then have "''inst/http'' \<in> ?reach"
    by (rule reachable.from_config) (auto simp: sampleConfig_def importsOf_def sample_imports)
  then have reached: "''/inst/http/otelc.yml'' \<in> ?files"
    unfolding reachedFiles_def by (intro CollectI exI [of _ "''inst/http''"]) (auto simp: sampleConfig_def)
  obtain result where result: "loadRulesFromToolFiles sampleLoader sampleProject sampleRuleReader [''/app/otelc.tool.go''] = Some result"
    and ends: "(\<exists>rules. result = Inr rules) \<longleftrightarrow> (\<forall>p \<in> ?reach. \<forall>c. sampleConfig p = Some c \<longrightarrow> icError c = None) \<and>
       (\<forall>f \<in> ?files. \<exists>rs. loadRuleFile sampleProject sampleRuleReader f = Inr rs)"
    and rules: "\<forall>rules. result = Inr rules \<longrightarrow> (\<exists>fs. rules = concat (map (rulesIn sampleProject sampleRuleReader) fs) \<and>
       distinct (map (ruleFileKey sampleProject) fs) \<and> ruleFileKey sampleProject ` set fs = ruleFileKey sampleProject ` ?files)"
    using rules_of_project [OF sample_wellFormed, of sampleRuleReader] by (auto simp: sample_loads)
  obtain rs where rs: "result = Inr rs" using ends fine sample_loads by blast
  with rules obtain fs where fs: "rs = concat (map (rulesIn sampleProject sampleRuleReader) fs)"
    "ruleFileKey sampleProject ` set fs = ruleFileKey sampleProject ` ?files" by blast
  have "ruleFileKey sampleProject ''/inst/http/otelc.yml'' \<in> ruleFileKey sampleProject ` set fs"
    unfolding fs(2) by (rule imageI [OF reached])
  then obtain f where "f \<in> set fs" by (rule imageE)
  then have "FuncRule (sampleFuncRule\<lparr>ruleName := ''serve''\<rparr>) \<in> set rs"
    unfolding fs(1) by (auto simp: rulesIn_def sample_loads intro!: bexI)
  then show ?thesis using result rs by blast
qed

theorem custom_rules_last_wins_witness:
  "loadCustomRules sampleProject sampleRuleReader ''/r/a.yml,/r/../r/a.yml'' = Inr [FuncRule (sampleFuncRule\<lparr>ruleName := ''serve''\<rparr>)]"
proof -
  let ?r = "FuncRule (sampleFuncRule\<lparr>ruleName := ''serve''\<rparr>)"
  let ?G = "\<lambda>f. [(''serve'', [?r])]"
  have "allCustomFiles sampleProject (splitOn (CHR '','') ''/r/a.yml,/r/../r/a.yml'') = Inr [''/r/a.yml'', ''/r/../r/a.yml'']"
    by code_simp
  moreover have "getName ?r = ''serve''" by code_simp
  then have "loadCustomRuleFile sampleProject sampleRuleReader f = Inr (?G f)" for f
    by (simp add: loadCustomRuleFile_def sample_loads)
  ultimately have "loadCustomRules sampleProject sampleRuleReader ''/r/a.yml,/r/../r/a.yml'' =
      Inr (concat (map (lastGroup ?G [''/r/a.yml'', ''/r/../r/a.yml'']) (remdups (sort (concat (map (\<lambda>f. map fst (?G f)) [''/r/a.yml'', ''/r/../r/a.yml'']))))))"
    using custom_rules_last_wins [of sampleProject sampleRuleReader "''/r/a.yml,/r/../r/a.yml''" "[''/r/a.yml'', ''/r/../r/a.yml'']" ?G]
    by (simp add: sample_loads)
  then show ?thesis by (simp add: lastGroup_def rulesAt_def)
qed

end
