(* ===== verification/Pin.thy ===== *)
theory Pin
  imports Tool_Files
begin

text \<open>
  Pinning instrumentation packages, \<open>tool/internal/setup/pin.go\<close>: config files are checked and
  updated, or the modules whose rules fit the dependencies are written to a new one. The Go parser
  and printer, the editing of \<open>go.mod\<close> (\<open>modfile\<close>), \<open>go mod tidy\<close> and \<open>syncDeps\<close> are parameters,
  collected in \<open>pinEnv\<close>; the files they change are the state. Debug copies and logging are left out.

  Shown: a generated file imports every module with a rule that setup would match, and updating a
  file twice changes nothing the second time.
\<close>

record PinOptions =
  poPrune :: bool
  poValidate :: bool
  poGenerate :: "bool option"
  poArgs :: "string list"
  poSubcommand :: string
  poModuleDirs :: "string list"

section \<open>Imports and directives of the file\<close>

fun keepSpecs :: "string set \<Rightarrow> spec list \<Rightarrow> string + spec list" where
  "keepSpecs importPaths [] = Inr []"
| "keepSpecs importPaths (ImportSpec i # specs) =
     (case Option.bind (impPath i) unquote of
        None \<Rightarrow> Inl (case impPath i of Some quoted \<Rightarrow> quoted | None \<Rightarrow> [])
      | Some path \<Rightarrow>
          if path \<in> importPaths then keepSpecs importPaths specs
          else map_sum id (Cons (ImportSpec i)) (keepSpecs importPaths specs))"
| "keepSpecs importPaths (s # specs) = map_sum id (Cons s) (keepSpecs importPaths specs)"

fun keepDecls :: "string set \<Rightarrow> decl list \<Rightarrow> string + decl list" where
  "keepDecls importPaths [] = Inr []"
| "keepDecls importPaths (GenDecl ImportTok specs # ds) =
     (case keepSpecs importPaths specs of
        Inl e \<Rightarrow> Inl e
      | Inr specs' \<Rightarrow>
          map_sum id (\<lambda>ds'. if specs' = [] then ds' else GenDecl ImportTok specs' # ds') (keepDecls importPaths ds))"
| "keepDecls importPaths (d # ds) = map_sum id (Cons d) (keepDecls importPaths ds)"

definition removeImports :: "string set \<Rightarrow> dstFile \<Rightarrow> string + dstFile" where
  "removeImports importPaths f = map_sum id (\<lambda>ds. f\<lparr>fileDecls := ds\<rparr>) (keepDecls importPaths (fileDecls f))"

definition generateDirective :: "PinOptions \<Rightarrow> string" where
  "generateDirective opts = joinWith '' ''
     ([''//go:generate'', ''go'', ''tool'', ''otelc'', ''pin'', ''--generate''] @
      (if poPrune opts then [] else [''--prune=false'']) @ (if poValidate opts then [''--validate''] else []))"

definition isPinDirective :: "string \<Rightarrow> bool" where
  "isPinDirective comment \<longleftrightarrow> hasPrefix comment ''//go:generate go tool otelc pin''"

definition updateGenerateDirective :: "PinOptions \<Rightarrow> dstFile \<Rightarrow> dstFile" where
  "updateGenerateDirective opts f =
     (case poGenerate opts of
        None \<Rightarrow> f
      | Some generate \<Rightarrow>
          f\<lparr>fileStart := filter (\<lambda>c. \<not> isPinDirective c) (fileStart f) @ (if generate then [generateDirective opts] else [])\<rparr>)"

text \<open>\<open>paths\<close> are the keys of the map of imports, in any order.\<close>

definition generateOtelInstrumentationGo :: "string list \<Rightarrow> PinOptions \<Rightarrow> dstFile" where
  "generateOtelInstrumentationGo paths opts =
     \<lparr>fileName = ''tools'',
      fileDecls = [GenDecl ImportTok (map (\<lambda>p. ImportSpec \<lparr>impName = Some ''_'', impPath = Some (goQuote p)\<rparr>) (sort paths))],
      fileImports = [],
      fileStart =
        [''// This file is automatically generated by otelc pin for tracking instrumentations.'',
         ''// Additional instrumentation imports may be added manually.'', [CHR 0x0A], ''//go:build tools''] @
        (if poGenerate opts \<noteq> Some False then [generateDirective opts] else []),
      fileTree = DNode OtherNode [] [] []\<rparr>"

section \<open>Matching\<close>

record pinMatch =
  pmImports :: "string list"
  pmSkipped :: "(string \<times> string \<times> string) list"

definition instrumentationRuleMatchesDep ::
    "(string \<Rightarrow> string \<Rightarrow> bool option) \<Rightarrow> Dependency \<Rightarrow> yamlRule \<Rightarrow> bool \<times> bool" where
  "instrumentationRuleMatchesDep globMatch dep r =
     (if includesRoot (yrTarget r) then (True, True)
      else (targetMatches globMatch (yrTarget r) (depImportPath dep) [], False))"

definition unresolvedVersionSkip :: "string \<Rightarrow> string \<Rightarrow> bool" where
  "unresolvedVersionSkip version gate \<longleftrightarrow> version = [] \<and> gate \<noteq> []"

text \<open>The first dependency and range that were skipped for a module\<close>

definition recordUnresolvedSkip :: "string \<Rightarrow> Dependency \<Rightarrow> string \<Rightarrow> pinMatch \<Rightarrow> pinMatch" where
  "recordUnresolvedSkip modulePath dep versionRange st =
     (if \<not> unresolvedVersionSkip (depVersion dep) versionRange then st
      else if map_of (pmSkipped st) modulePath \<noteq> None then st
      else st\<lparr>pmSkipped := (modulePath, depImportPath dep, versionRange) # pmSkipped st\<rparr>)"

definition addImport :: "string \<Rightarrow> pinMatch \<Rightarrow> pinMatch" where
  "addImport modulePath st = (if modulePath \<in> set (pmImports st) then st else st\<lparr>pmImports := modulePath # pmImports st\<rparr>)"

definition matchPinRule ::
    "(string \<Rightarrow> string \<Rightarrow> bool option) \<Rightarrow> (string \<Rightarrow> string \<Rightarrow> int) \<Rightarrow> Dependency \<Rightarrow> string \<Rightarrow> yamlRule \<Rightarrow> pinMatch \<Rightarrow> pinMatch" where
  "matchPinRule globMatch cmp dep modulePath r st =
     (case instrumentationRuleMatchesDep globMatch dep r of (matched, isRoot) \<Rightarrow>
        if isRoot then addImport modulePath st
        else if \<not> matched then st
        else if \<not> versionInRange cmp (depVersion dep) (yrVersion r) then recordUnresolvedSkip modulePath dep (yrVersion r) st
        else addImport modulePath st)"

definition matchModule ::
    "(string \<Rightarrow> string \<Rightarrow> bool option) \<Rightarrow> (string \<Rightarrow> string \<Rightarrow> int) \<Rightarrow> Dependency \<Rightarrow> string \<times> yamlRule list \<Rightarrow> pinMatch \<Rightarrow> pinMatch" where
  "matchModule globMatch cmp dep m st = fold (matchPinRule globMatch cmp dep (fst m)) (snd m) st"

definition matchInstrumentationImports ::
    "(string \<Rightarrow> string \<Rightarrow> bool option) \<Rightarrow> (string \<Rightarrow> string \<Rightarrow> int) \<Rightarrow> Dependency list \<Rightarrow> loadedRules \<Rightarrow> pinMatch" where
  "matchInstrumentationImports globMatch cmp deps ruleset =
     fold (\<lambda>dep st. fold (matchModule globMatch cmp dep) ruleset st) deps \<lparr>pmImports = [], pmSkipped = []\<rparr>"

text \<open>The warnings: a skip counts only if nothing else imports the module.\<close>

definition unresolvedWarnings :: "pinMatch \<Rightarrow> (string \<times> string \<times> string) list" where
  "unresolvedWarnings st = filter (\<lambda>(modulePath, _). modulePath \<notin> set (pmImports st)) (pmSkipped st)"

section \<open>The module file\<close>

record goMod =
  gmRequires :: "(string \<times> string) list"
  gmTools :: "string list"

record pinFiles =
  pnFiles :: "string \<Rightarrow> string option"
  pnMods :: "string \<Rightarrow> goMod option"
  pnSums :: "string \<Rightarrow> bool"
  pnTidied :: "string list"

record pinEnv =
  peParse :: "string \<Rightarrow> dstFile option"
  pePrint :: "dstFile \<Rightarrow> string"
  peWritable :: "string \<Rightarrow> bool"
  peAddTool :: "string \<Rightarrow> goMod \<Rightarrow> goMod"
  peAddRequire :: "string \<Rightarrow> string \<Rightarrow> goMod \<Rightarrow> goMod"
  peTidy :: "string \<Rightarrow> pinFiles \<Rightarrow> pinFiles option"
  peSync :: "string list \<Rightarrow> string \<Rightarrow> pinFiles \<Rightarrow> pinFiles option"
  peVersion :: string
  peLibs :: ruleLibs

datatype pinError =
    NoFile string
  | ParseError string
  | BadImport string
  | NoGoMod string
  | WriteFailed string
  | TidyFailed string
  | SyncFailed string
  | PinWalk "ruleLoadError walkError"
  | PinConfig configError
  | PinRules treeError
  | PinLoad loadError
  | FindDepsFailed

definition releaseVersion :: "ruleLibs \<Rightarrow> string \<Rightarrow> bool" where
  "releaseVersion L version \<longleftrightarrow> \<not> (\<not> semverValid L version \<or> version = ''v0.0.0'' \<or> isPseudoVersion L version)"

definition ensureOtelcRequireVersion :: "pinEnv \<Rightarrow> string \<Rightarrow> goMod \<Rightarrow> bool \<times> goMod" where
  "ensureOtelcRequireVersion E version f =
     (if \<not> releaseVersion (peLibs E) version then (False, f)
      else case map_of (gmRequires f) ''go.opentelemetry.io/otelc'' of
             Some v \<Rightarrow>
               if 0 \<le> semverCompare (peLibs E) v version then (False, f)
               else (True, peAddRequire E ''go.opentelemetry.io/otelc'' version f)
           | None \<Rightarrow> (True, peAddRequire E ''go.opentelemetry.io/otelc'' version f))"

definition ensureOtelcRequire :: "pinEnv \<Rightarrow> string \<Rightarrow> string \<Rightarrow> pinFiles \<Rightarrow> pinError + bool \<times> pinFiles" where
  "ensureOtelcRequire E moduleDir version st =
     (case pnMods st moduleDir of
        None \<Rightarrow> Inl (NoGoMod moduleDir)
      | Some f \<Rightarrow>
          let hasTool = (''go.opentelemetry.io/otelc/tool/cmd/otelc'' \<in> set (gmTools f));
              hasRequire = (map_of (gmRequires f) ''go.opentelemetry.io/otelc'' \<noteq> None);
              f1 = (if hasTool then f else peAddTool E ''go.opentelemetry.io/otelc/tool/cmd/otelc'' f);
              (added, f2) = ensureOtelcRequireVersion E version f1
          in if hasTool \<and> \<not> added then Inr (\<not> hasRequire, st)
             else if \<not> peWritable E (pathJoin [moduleDir, ''go.mod'']) then Inl (WriteFailed moduleDir)
             else Inr (True, st\<lparr>pnMods := (pnMods st)(moduleDir \<mapsto> f2)\<rparr>))"

section \<open>Updating\<close>

definition runModTidy :: "pinEnv \<Rightarrow> string \<Rightarrow> pinFiles \<Rightarrow> pinError + pinFiles" where
  "runModTidy E dir st =
     (case peTidy E dir (st\<lparr>pnTidied := dir # pnTidied st\<rparr>) of None \<Rightarrow> Inl (TidyFailed dir) | Some st' \<Rightarrow> Inr st')"

text \<open>The new content of a config file\<close>

definition updatedFile :: "pinEnv \<Rightarrow> string set \<Rightarrow> PinOptions \<Rightarrow> string \<Rightarrow> string \<Rightarrow> pinError + dstFile" where
  "updatedFile E prunedImports opts toolFile original =
     (case peParse E original of
        None \<Rightarrow> Inl (ParseError toolFile)
      | Some f \<Rightarrow>
          map_sum BadImport (updateGenerateDirective opts)
            (if prunedImports \<noteq> {} then removeImports prunedImports f else Inr f))"

definition updateToolFile ::
    "pinEnv \<Rightarrow> string set \<Rightarrow> PinOptions \<Rightarrow> string \<Rightarrow> pinFiles \<Rightarrow> pinError + pinFiles" where
  "updateToolFile E prunedImports opts toolFile st =
     (case pnFiles st toolFile of
        None \<Rightarrow> Inl (NoFile toolFile)
      | Some original \<Rightarrow>
          (case updatedFile E prunedImports opts toolFile original of
             Inl e \<Rightarrow> Inl e
           | Inr f \<Rightarrow>
               let updated = pePrint E f; toolFileChanged = (updated \<noteq> original)
               in if toolFileChanged \<and> \<not> peWritable E toolFile then Inl (WriteFailed toolFile)
                  else
                    let st1 = (if toolFileChanged then st\<lparr>pnFiles := (pnFiles st)(toolFile \<mapsto> updated)\<rparr> else st)
                    in case ensureOtelcRequire E (pathDir toolFile) (peVersion E) st1 of
                         Inl e \<Rightarrow> Inl e
                       | Inr (goModChanged, st2) \<Rightarrow>
                           if \<not> toolFileChanged \<and> \<not> goModChanged \<and> pnSums st2 (pathDir toolFile) then Inr st2
                           else runModTidy E (pathDir toolFile) st2))"

fun validateRuleFiles :: "projectFiles \<Rightarrow> ruleReader \<Rightarrow> string list \<Rightarrow> ruleLoadError option" where
  "validateRuleFiles P R [] = None"
| "validateRuleFiles P R (f # fs) =
     (case loadRuleFile P R f of Inl e \<Rightarrow> Some e | Inr rs \<Rightarrow> validateRuleFiles P R fs)"

text \<open>The visitor of \<open>updatePinnedProjects\<close>; its state is the imports to prune, with their file.\<close>

definition pruneImport ::
    "PinOptions \<Rightarrow> string list \<Rightarrow> visitedConfig \<Rightarrow> (string \<times> string) list \<Rightarrow> (string \<times> string) list" where
  "pruneImport opts toolFiles v unwanted =
     (if poPrune opts \<and> snd v \<in> set toolFiles then (snd v, icImportPath (fst v)) # unwanted else unwanted)"

definition pinVisitor ::
    "projectFiles \<Rightarrow> ruleReader \<Rightarrow> PinOptions \<Rightarrow> string list \<Rightarrow> (ruleLoadError, (string \<times> string) list) configVisitor" where
  "pinVisitor P R opts toolFiles v unwanted =
     (case icError (fst v) of
        Some (NotInstrumentation es) \<Rightarrow> Inr (False, pruneImport opts toolFiles v unwanted)
      | Some e \<Rightarrow> Inl (ConfigProblem e)
      | None \<Rightarrow>
          if poValidate opts \<and> validateRuleFiles P R (icRuleFiles (fst v)) \<noteq> None
          then Inr (False, pruneImport opts toolFiles v unwanted)
          else Inr (True, unwanted))"

definition prunedFor :: "(string \<times> string) list \<Rightarrow> string \<Rightarrow> string set" where
  "prunedFor unwanted toolFile = set (map snd (filter (\<lambda>x. fst x = toolFile) unwanted))"

definition updatePinnedProjects ::
    "pkgLoader \<Rightarrow> projectFiles \<Rightarrow> ruleReader \<Rightarrow> pinEnv \<Rightarrow> PinOptions \<Rightarrow> string list \<Rightarrow> pinFiles \<Rightarrow> (pinError + pinFiles) option" where
  "updatePinnedProjects load P R E opts toolFiles st =
     (case walkInstrumentation load P toolFiles (pinVisitor P R opts toolFiles) [] of
        None \<Rightarrow> None
      | Some (Inl e) \<Rightarrow> Some (Inl (PinWalk e))
      | Some (Inr unwanted) \<Rightarrow> Some (foldOK (\<lambda>f. updateToolFile E (prunedFor unwanted f) opts f) toolFiles st))"

section \<open>Generating\<close>

definition generateIn :: "pinEnv \<Rightarrow> string list \<Rightarrow> PinOptions \<Rightarrow> string \<Rightarrow> pinFiles \<Rightarrow> pinError + pinFiles" where
  "generateIn E importPaths opts moduleDir st =
     (let path = pathJoin [moduleDir, ''otel.instrumentation.go'']
      in if \<not> peWritable E path then Inl (WriteFailed path)
         else
           let content = pePrint E (generateOtelInstrumentationGo importPaths opts)
           in case ensureOtelcRequire E moduleDir (peVersion E) (st\<lparr>pnFiles := (pnFiles st)(path \<mapsto> content)\<rparr>) of
                Inl e \<Rightarrow> Inl e
              | Inr (changed, st1) \<Rightarrow>
                  (case peSync E importPaths moduleDir st1 of None \<Rightarrow> Inl (SyncFailed moduleDir) | Some st2 \<Rightarrow> Inr st2))"

text \<open>
  The go command, by the value of \<open>GOFLAGS\<close>: loading packages, and \<open>findDeps\<close>, the build plan of a
  subcommand and its arguments. \<open>gtVendored\<close> is the answer of \<open>vendoringActive\<close>.
\<close>

record goTools =
  gtLoad :: "string \<Rightarrow> pkgLoader"
  gtFindDeps :: "string \<Rightarrow> string \<Rightarrow> string list \<Rightarrow> Dependency list option"
  gtVendored :: bool
  gtWorkDir :: "string option"

definition subcommandOf :: "PinOptions \<Rightarrow> string" where
  "subcommandOf opts = (if poSubcommand opts = [] then ''build'' else poSubcommand opts)"

text \<open>
  The dependencies of the result are kept only if nothing was generated. \<open>rulesRoot\<close> is the tree of
  the rules that come with the tool.
\<close>

definition generatePinnedProjects ::
    "goTools \<Rightarrow> fileReaders \<Rightarrow> (string \<Rightarrow> string \<Rightarrow> bool option) \<Rightarrow> entry \<Rightarrow> pinEnv \<Rightarrow> string \<Rightarrow> PinOptions \<Rightarrow>
     string list \<Rightarrow> pinFiles \<Rightarrow> pinError + Dependency list option \<times> pinFiles" where
  "generatePinnedProjects T R globMatch rulesRoot E goflags opts moduleDirs st =
     (case gtFindDeps T goflags (subcommandOf opts) (poArgs opts) of
        None \<Rightarrow> Inl FindDepsFailed
      | Some deps \<Rightarrow>
          (case loadMinimalRules R (peLibs E) rulesRoot (peVersion E) of
             Inl e \<Rightarrow> Inl (PinRules e)
           | Inr ruleset \<Rightarrow>
               let importPaths = pmImports (matchInstrumentationImports globMatch (semverCompare (peLibs E)) deps ruleset)
               in if importPaths = [] then Inr (Some deps, st)
                  else map_sum id (Pair None)
                         (foldOK (generateIn E importPaths opts) (normalizeModuleDirs moduleDirs) st)))"

section \<open>Pin\<close>

text \<open>The value of \<open>GOFLAGS\<close> and the arguments to build with\<close>

definition prepareVendoredBuild :: "bool \<Rightarrow> string \<Rightarrow> string \<Rightarrow> string list \<Rightarrow> string \<times> string list" where
  "prepareVendoredBuild vendored goflags subcommand args =
     (if \<not> vendored then (goflags, args) else (forceModMod goflags, rewriteModVendor subcommand args))"

text \<open>The value of \<open>GOFLAGS\<close>, the options and the module directories that the rest of \<open>pinLocked\<close> uses\<close>

definition pinModuleDirs :: "goTools \<Rightarrow> string \<Rightarrow> PinOptions \<Rightarrow> loadError + string \<times> PinOptions \<times> string list" where
  "pinModuleDirs T goflags opts =
     (let moduleDirs = normalizeModuleDirs (poModuleDirs opts)
      in if moduleDirs \<noteq> [] then Inr (goflags, opts, moduleDirs)
         else
           let (goflags', args) = prepareVendoredBuild (gtVendored T) goflags (subcommandOf opts) (poArgs opts);
               load = gtLoad T goflags'
           in case getBuildPackages load (gtWorkDir T) (subcommandOf opts) args of
                Inl e \<Rightarrow> Inl e
              | Inr (buildPkgs, _) \<Rightarrow>
                  map_sum id (\<lambda>dirs. (goflags', opts\<lparr>poArgs := args\<rparr>, dirs)) (FindModuleDirs load (gtWorkDir T) buildPkgs))"

definition pinLocked ::
    "goTools \<Rightarrow> projectFiles \<Rightarrow> ruleReader \<Rightarrow> (string \<Rightarrow> string \<Rightarrow> bool option) \<Rightarrow> entry \<Rightarrow> pinEnv \<Rightarrow> string \<Rightarrow>
     PinOptions \<Rightarrow> pinFiles \<Rightarrow> (pinError + Dependency list option \<times> pinFiles) option" where
  "pinLocked T P R globMatch rulesRoot E goflags opts0 st =
     (case pinModuleDirs T goflags opts0 of
        Inl e \<Rightarrow> Some (Inl (PinLoad e))
      | Inr (goflags', opts, moduleDirs) \<Rightarrow>
          (case findToolFiles P moduleDirs of
             Inl e \<Rightarrow> Some (Inl (PinConfig e))
           | Inr toolFiles \<Rightarrow>
               if toolFiles \<noteq> []
               then map_option (map_sum id (Pair None)) (updatePinnedProjects (gtLoad T goflags') P R E opts toolFiles st)
               else Some (generatePinnedProjects T (rrReaders R) globMatch rulesRoot E goflags' opts moduleDirs st)))"

section \<open>What is pinned\<close>

definition pinnedBy ::
    "(string \<Rightarrow> string \<Rightarrow> bool option) \<Rightarrow> (string \<Rightarrow> string \<Rightarrow> int) \<Rightarrow> Dependency \<Rightarrow> yamlRule \<Rightarrow> bool" where
  "pinnedBy globMatch cmp dep r \<longleftrightarrow> includesRoot (yrTarget r) \<or>
     targetMatches globMatch (yrTarget r) (depImportPath dep) [] \<and> versionInRange cmp (depVersion dep) (yrVersion r)"

lemma addImport_set [simp]: "set (pmImports (addImport m st)) = insert m (set (pmImports st))"
  by (auto simp: addImport_def)

lemma recordUnresolvedSkip_imports [simp]: "pmImports (recordUnresolvedSkip m dep v st) = pmImports st"
  by (simp add: recordUnresolvedSkip_def)

lemma matchPinRule_set:
  "set (pmImports (matchPinRule globMatch cmp dep m r st)) =
     set (pmImports st) \<union> (if pinnedBy globMatch cmp dep r then {m} else {})"
  by (auto simp: matchPinRule_def instrumentationRuleMatchesDep_def pinnedBy_def)

lemma matchModule_set:
  "set (pmImports (matchModule globMatch cmp dep m st)) =
     set (pmImports st) \<union> {fst m | r. r \<in> set (snd m) \<and> pinnedBy globMatch cmp dep r}"
proof -
  have "set (pmImports (fold (matchPinRule globMatch cmp dep k) rs st)) =
     set (pmImports st) \<union> {k | r. r \<in> set rs \<and> pinnedBy globMatch cmp dep r}" for k rs
    by (induction rs arbitrary: st) (auto simp: matchPinRule_set)
  then show ?thesis by (simp add: matchModule_def)
qed

lemma matchRules_set:
  "set (pmImports (fold (matchModule globMatch cmp dep) ruleset st)) =
     set (pmImports st) \<union> {m | m rs r. (m, rs) \<in> set ruleset \<and> r \<in> set rs \<and> pinnedBy globMatch cmp dep r}"
proof (induction ruleset arbitrary: st)
  case (Cons x ruleset)
  have "{m | m rs r. (m, rs) \<in> set (x # ruleset) \<and> r \<in> set rs \<and> pinnedBy globMatch cmp dep r} =
     {fst x | r. r \<in> set (snd x) \<and> pinnedBy globMatch cmp dep r} \<union>
     {m | m rs r. (m, rs) \<in> set ruleset \<and> r \<in> set rs \<and> pinnedBy globMatch cmp dep r}"
    by (cases x) auto
  then show ?case using Cons by (simp add: matchModule_set Un_assoc)
qed simp

lemma matchInstrumentationImports_set:
  "set (pmImports (matchInstrumentationImports globMatch cmp deps ruleset)) =
     {m | m rs r dep. dep \<in> set deps \<and> (m, rs) \<in> set ruleset \<and> r \<in> set rs \<and> pinnedBy globMatch cmp dep r}"
proof -
  have "set (pmImports (fold (\<lambda>dep st. fold (matchModule globMatch cmp dep) ruleset st) deps st)) =
     set (pmImports st) \<union>
     {m | m rs r dep. dep \<in> set deps \<and> (m, rs) \<in> set ruleset \<and> r \<in> set rs \<and> pinnedBy globMatch cmp dep r}" for st
  proof (induction deps arbitrary: st)
    case (Cons d deps)
    have "{m | m rs r dep. dep \<in> set (d # deps) \<and> (m, rs) \<in> set ruleset \<and> r \<in> set rs \<and> pinnedBy globMatch cmp dep r} =
       {m | m rs r. (m, rs) \<in> set ruleset \<and> r \<in> set rs \<and> pinnedBy globMatch cmp d r} \<union>
       {m | m rs r dep. dep \<in> set deps \<and> (m, rs) \<in> set ruleset \<and> r \<in> set rs \<and> pinnedBy globMatch cmp dep r}"
      by auto
    then show ?case using Cons by (simp add: matchRules_set Un_assoc)
  qed simp
  then show ?thesis by (simp add: matchInstrumentationImports_def)
qed

lemma matchPinRule_distinct:
  "distinct (pmImports st) \<Longrightarrow> distinct (pmImports (matchPinRule globMatch cmp dep m r st))"
  by (simp add: matchPinRule_def instrumentationRuleMatchesDep_def addImport_def)

lemma fold_keeps: "(\<And>x s. Q s \<Longrightarrow> Q (f x s)) \<Longrightarrow> Q s \<Longrightarrow> Q (fold f xs s)"
  by (induction xs arbitrary: s) auto

lemma matchInstrumentationImports_distinct:
  "distinct (pmImports (matchInstrumentationImports globMatch cmp deps ruleset))"
  unfolding matchInstrumentationImports_def matchModule_def
  by (intro fold_keeps [where Q = "\<lambda>st. distinct (pmImports st)"] matchPinRule_distinct) simp_all

text \<open>A target that matches with some root modules matches without them, unless it includes them.\<close>

lemma targetMatches_pinned:
  assumes "targetMatches globMatch t path roots" and "\<not> includesRoot t"
  shows "targetMatches globMatch t path []"
proof -
  have "matchPattern globMatch p path roots = matchPattern globMatch p path []" if "p \<in> set (Include t)" for p
  proof -
    have "p \<noteq> ''$root''" using assms(2) that unfolding includesRoot_def by metis
    then show ?thesis by (simp add: matchPattern_def isRootTarget_def)
  qed
  moreover have "matchPattern globMatch p path roots" if "matchPattern globMatch p path []" for p
    using that by (simp add: matchPattern_def split: if_splits)
  ultimately show ?thesis
    using assms(1) unfolding targetMatches_def matchesAnyPattern_def list_ex_iff by metis
qed

lemma unquoted_import:
  "plainPath p \<Longrightarrow> Option.bind (impPath \<lparr>impName = Some ''_'', impPath = Some (goQuote p)\<rparr>) unquote = Some p"
  by (simp add: goQuote_plain unquote_plainPath)

lemma collectImports_generated:
  assumes "\<forall>p \<in> set paths. plainPath p" and "distinct paths" and "set paths \<inter> set seen = {}"
  shows "collectImports toolFile (map (\<lambda>p. \<lparr>impName = Some ''_'', impPath = Some (goQuote p)\<rparr>) paths) seen =
    Inr (paths, rev paths @ seen)"
  using assms by (induction paths arbitrary: seen) (simp_all add: goQuote_plain unquote_plainPath)

lemma generated_imports:
  "declImports (fileDecls (generateOtelInstrumentationGo paths opts)) =
     map (\<lambda>p. \<lparr>impName = Some ''_'', impPath = Some (goQuote p)\<rparr>) (sort paths)"
proof -
  have "specImports (map (\<lambda>p. ImportSpec \<lparr>impName = Some ''_'', impPath = Some (goQuote p)\<rparr>) ps) =
     map (\<lambda>p. \<lparr>impName = Some ''_'', impPath = Some (goQuote p)\<rparr>) ps" for ps
    by (induction ps) (simp_all add: specImports_def)
  then show ?thesis by (simp add: generateOtelInstrumentationGo_def)
qed

text \<open>
  What is used of \<open>syncDeps\<close>: it edits \<open>go.mod\<close> and \<open>go.sum\<close> and no config file. Printing and parsing
  a generated file keeps its imports.
\<close>

definition syncKeepsFiles :: "pinEnv \<Rightarrow> bool" where
  "syncKeepsFiles E \<longleftrightarrow> (\<forall>paths dir st st'. peSync E paths dir st = Some st' \<longrightarrow> pnFiles st' = pnFiles st)"

definition printsImports :: "pinEnv \<Rightarrow> dstFile \<Rightarrow> bool" where
  "printsImports E f \<longleftrightarrow> (\<exists>g. peParse E (pePrint E f) = Some g \<and> declImports (fileDecls g) = declImports (fileDecls f))"

lemma ensureOtelcRequire_files:
  "ensureOtelcRequire E dir version st = Inr (changed, st') \<Longrightarrow> pnFiles st' = pnFiles st"
  by (auto simp: ensureOtelcRequire_def Let_def split: option.splits if_splits prod.splits)

lemma generateIn_files:
  assumes "generateIn E paths opts dir st = Inr st'" and "syncKeepsFiles E"
  shows "pnFiles st' = (pnFiles st)(pathJoin [dir, ''otel.instrumentation.go''] \<mapsto> pePrint E (generateOtelInstrumentationGo paths opts))"
proof -
  let ?path = "pathJoin [dir, ''otel.instrumentation.go'']"
  let ?st1 = "st\<lparr>pnFiles := (pnFiles st)(?path \<mapsto> pePrint E (generateOtelInstrumentationGo paths opts))\<rparr>"
  obtain changed st2 where e: "ensureOtelcRequire E dir (peVersion E) ?st1 = Inr (changed, st2)"
    and s: "peSync E paths dir st2 = Some st'"
    using assms(1) by (auto simp: generateIn_def Let_def split: if_splits sum.splits prod.splits option.splits)
  show ?thesis
    using ensureOtelcRequire_files [OF e] assms(2) s by (simp add: syncKeepsFiles_def)
qed

lemma generateAll_files:
  assumes "foldOK (generateIn E paths opts) dirs st = Inr st'" and "syncKeepsFiles E" and "dir \<in> set dirs"
  shows "pnFiles st' (pathJoin [dir, ''otel.instrumentation.go'']) = Some (pePrint E (generateOtelInstrumentationGo paths opts))"
proof -
  let ?content = "pePrint E (generateOtelInstrumentationGo paths opts)"
  let ?path = "\<lambda>d. pathJoin [d, ''otel.instrumentation.go'']"
  have "foldOK (generateIn E paths opts) ds s = Inr s' \<Longrightarrow> pnFiles s p = Some ?content \<or> p \<in> ?path ` set ds \<Longrightarrow>
      pnFiles s' p = Some ?content" for ds s s' p
  proof (induction ds arbitrary: s)
    case (Cons d ds)
    obtain s1 where s1: "generateIn E paths opts d s = Inr s1" and rest: "foldOK (generateIn E paths opts) ds s1 = Inr s'"
      using Cons.prems(1) unfolding foldOK_Cons by blast
    have "pnFiles s1 p = Some ?content \<or> p \<in> ?path ` set ds"
      using Cons.prems(2) unfolding generateIn_files [OF s1 assms(2)] by auto
    then show ?case by (rule Cons.IH [OF rest])
  qed simp
  then show ?thesis using assms(1,3) by blast
qed

text \<open>
  C7: if pinning generates config files, then every module that has a rule which setup would apply to
  some dependency - target and version match, whatever the root modules are - is imported by the
  file in every module directory: the file parses, the config walk accepts its imports, and they are
  sorted and without duplicates.
\<close>

theorem pins_cover_setup:
  assumes "generatePinnedProjects T R globMatch rulesRoot E goflags opts dirs st = Inr (None, st')"
    and "syncKeepsFiles E" and "printsImports E (generateOtelInstrumentationGo (pmImports (matchInstrumentationImports globMatch (semverCompare (peLibs E)) deps ruleset)) opts)"
    and "gtFindDeps T goflags (subcommandOf opts) (poArgs opts) = Some deps"
    and "loadMinimalRules R (peLibs E) rulesRoot (peVersion E) = Inr ruleset" and "\<forall>m \<in> fst ` set ruleset. plainPath m"
    and "dep \<in> set deps" and "(m, rs) \<in> set ruleset" and "r \<in> set rs"
    and "targetMatches globMatch (yrTarget r) (depImportPath dep) roots"
    and "versionInRange (semverCompare (peLibs E)) (depVersion dep) (yrVersion r)"
    and "dir \<in> set dirs"
  shows "\<exists>content f paths seen. pnFiles st' (pathJoin [dir, ''otel.instrumentation.go'']) = Some content \<and>
    peParse E content = Some f \<and> collectImports toolFile (declImports (fileDecls f)) [] = (Inr (paths, seen) :: 'e walkError + _) \<and>
    m \<in> set paths \<and> sorted paths \<and> distinct paths"
proof -
  let ?st = "matchInstrumentationImports globMatch (semverCompare (peLibs E)) deps ruleset"
  let ?paths = "pmImports ?st"
  let ?f = "generateOtelInstrumentationGo ?paths opts"
  have run: "foldOK (generateIn E ?paths opts) (normalizeModuleDirs dirs) st = Inr st'"
    using assms(1) by (auto simp: generatePinnedProjects_def assms(4,5) Let_def split: if_splits)
  have "dir \<in> set (normalizeModuleDirs dirs)" using assms(12) by (simp add: normalizeModuleDirs_def)
  note content = generateAll_files [OF run assms(2) this]
  obtain g where g: "peParse E (pePrint E ?f) = Some g" "declImports (fileDecls g) = declImports (fileDecls ?f)"
    using assms(3) unfolding printsImports_def by blast
  have paths: "set ?paths \<subseteq> fst ` set ruleset" "distinct ?paths"
    using matchInstrumentationImports_distinct by (force simp: matchInstrumentationImports_set)+
  have "\<forall>p \<in> set (sort ?paths). plainPath p" using assms(6) paths(1) by auto
  then have "collectImports toolFile (declImports (fileDecls g)) [] = (Inr (sort ?paths, rev (sort ?paths)) :: 'e walkError + _)"
    unfolding g(2) generated_imports using paths(2) by (subst collectImports_generated) simp_all
  moreover have "m \<in> set ?paths"
    using assms(7-11) targetMatches_pinned unfolding matchInstrumentationImports_set pinnedBy_def by blast
  ultimately show ?thesis using content g(1) paths(2) by fastforce
qed

section \<open>Updating twice\<close>

lemma keepSpecs_again: "keepSpecs pruned0 specs = Inr specs' \<Longrightarrow> keepSpecs pruned0 specs' = Inr specs'"
  by (induction pruned0 specs arbitrary: specs' rule: keepSpecs.induct)
    (auto simp: map_sum_Inr split: option.splits if_splits)

lemma keepDecls_again: "keepDecls pruned0 ds = Inr ds' \<Longrightarrow> keepDecls pruned0 ds' = Inr ds'"
proof (induction pruned0 ds arbitrary: ds' rule: keepDecls.induct)
  case (2 importPaths specs ds)
  then show ?case by (auto dest: keepSpecs_again split: sum.splits if_splits)
qed auto

lemma removeImports_again: "removeImports pruned0 f = Inr g \<Longrightarrow> removeImports pruned0 g = Inr g"
  by (auto simp: removeImports_def dest: keepDecls_again)

text \<open>The directive that is written starts like one of pin.\<close>

lemma generateDirective_pin [simp]: "isPinDirective (generateDirective opts)"
  by (cases "poPrune opts"; cases "poValidate opts") (simp_all add: generateDirective_def isPinDirective_def)

lemma updateGenerateDirective_again:
  "updateGenerateDirective opts (updateGenerateDirective opts f) = updateGenerateDirective opts f"
  by (simp add: updateGenerateDirective_def split: option.split)

lemma updateGenerateDirective_decls [simp]: "fileDecls (updateGenerateDirective opts f) = fileDecls f"
  by (simp add: updateGenerateDirective_def split: option.split)

lemma removeImports_update:
  assumes "removeImports pruned0 f = Inr f"
  shows "removeImports pruned0 (updateGenerateDirective opts f) = Inr (updateGenerateDirective opts f)"
proof -
  obtain ds where ds: "keepDecls pruned0 (fileDecls f) = Inr ds" "f\<lparr>fileDecls := ds\<rparr> = f"
    using assms by (auto simp: removeImports_def)
  have "ds = fileDecls f" using arg_cong [OF ds(2), of fileDecls] by simp
  then show ?thesis using ds(1) by (simp add: removeImports_def updateGenerateDirective_def split: option.split)
qed

text \<open>What is written is written again.\<close>

lemma updatedFile_again:
  assumes "updatedFile E pruned0 opts toolFile original = Inr g" and "peParse E (pePrint E g) = Some g"
  shows "updatedFile E pruned0 opts toolFile (pePrint E g) = Inr g"
proof -
  obtain f f' where "peParse E original = Some f"
    and r: "(if pruned0 \<noteq> {} then removeImports pruned0 f else Inr f) = Inr f'"
    and u: "g = updateGenerateDirective opts f'"
  proof -
    obtain f where f: "peParse E original = Some f"
      and "map_sum BadImport (updateGenerateDirective opts) (if pruned0 \<noteq> {} then removeImports pruned0 f else Inr f) = Inr g"
      using assms(1) by (auto simp: updatedFile_def split: option.splits)
    then show ?thesis
      using that by (cases "if pruned0 \<noteq> {} then removeImports pruned0 f else Inr f") (simp, simp del: if_split)
  qed
  have "(if pruned0 \<noteq> {} then removeImports pruned0 g else Inr g) = Inr g"
    using r removeImports_again removeImports_update unfolding u by (auto split: if_splits)
  then show ?thesis by (simp add: updatedFile_def assms(2)) (simp add: u updateGenerateDirective_again)
qed

text \<open>
  What is used of the module commands. Adding a tool or a requirement adds it and keeps the rest;
  \<open>go mod tidy\<close> keeps the config files and the tools, provides the tool's module, does not lower its
  version, and writes \<open>go.sum\<close>.
\<close>

abbreviation otelcRequire :: "goMod \<Rightarrow> string option" where
  "otelcRequire f \<equiv> map_of (gmRequires f) ''go.opentelemetry.io/otelc''"

abbreviation hasOtelcTool :: "goMod \<Rightarrow> bool" where
  "hasOtelcTool f \<equiv> ''go.opentelemetry.io/otelc/tool/cmd/otelc'' \<in> set (gmTools f)"

definition moduleLaws :: "pinEnv \<Rightarrow> bool" where
  "moduleLaws E \<longleftrightarrow>
     (\<forall>t f. set (gmTools (peAddTool E t f)) = insert t (set (gmTools f)) \<and> gmRequires (peAddTool E t f) = gmRequires f) \<and>
     (\<forall>p v f. map_of (gmRequires (peAddRequire E p v f)) p = Some v \<and> gmTools (peAddRequire E p v f) = gmTools f) \<and>
     (\<forall>dir st st' f. peTidy E dir st = Some st' \<longrightarrow> pnMods st dir = Some f \<longrightarrow> hasOtelcTool f \<longrightarrow>
        pnFiles st' = pnFiles st \<and> pnSums st' dir \<and>
        (\<exists>f' v'. pnMods st' dir = Some f' \<and> hasOtelcTool f' \<and> otelcRequire f' = Some v' \<and>
           (\<forall>v. otelcRequire f = Some v \<longrightarrow> 0 \<le> semverCompare (peLibs E) v' v)))"

lemma tidy_keeps:
  assumes "moduleLaws E" and "peTidy E dir st = Some st'" and "pnMods st dir = Some f" and "hasOtelcTool f"
  obtains f' v' where "pnFiles st' = pnFiles st" "pnSums st' dir" "pnMods st' dir = Some f'" "hasOtelcTool f'"
    "otelcRequire f' = Some v'" "\<And>v. otelcRequire f = Some v \<Longrightarrow> 0 \<le> semverCompare (peLibs E) v' v"
proof -
  have "\<forall>dir st st' f. peTidy E dir st = Some st' \<longrightarrow> pnMods st dir = Some f \<longrightarrow> hasOtelcTool f \<longrightarrow>
        pnFiles st' = pnFiles st \<and> pnSums st' dir \<and>
        (\<exists>f' v'. pnMods st' dir = Some f' \<and> hasOtelcTool f' \<and> otelcRequire f' = Some v' \<and>
           (\<forall>v. otelcRequire f = Some v \<longrightarrow> 0 \<le> semverCompare (peLibs E) v' v))"
    using assms(1) unfolding moduleLaws_def by (elim conjE) assumption
  from this [rule_format, OF assms(2-4)] show ?thesis using that by (elim conjE exE) simp
qed

text \<open>A module file that pin leaves alone\<close>

definition settledMod :: "pinEnv \<Rightarrow> goMod \<Rightarrow> bool" where
  "settledMod E f \<longleftrightarrow> hasOtelcTool f \<and> (releaseVersion (peLibs E) (peVersion E) \<longrightarrow>
     (\<exists>v. otelcRequire f = Some v \<and> 0 \<le> semverCompare (peLibs E) v (peVersion E)))"

lemma ensure_settled:
  assumes "pnMods st dir = Some f" and "settledMod E f"
  shows "ensureOtelcRequire E dir (peVersion E) st = Inr (otelcRequire f = None, st)"
  using assms by (auto simp: ensureOtelcRequire_def ensureOtelcRequireVersion_def settledMod_def)

lemma ensure_settles:
  assumes "ensureOtelcRequire E dir (peVersion E) st = Inr (changed, st')" and "moduleLaws E" and "threeWay (semverCompare (peLibs E))"
  shows "\<exists>f. pnMods st' dir = Some f \<and> settledMod E f" and "pnFiles st' = pnFiles st" and "\<not> changed \<Longrightarrow> st' = st"
proof -
  obtain f where f: "pnMods st dir = Some f" using assms(1) by (auto simp: ensureOtelcRequire_def split: option.splits)
  have refl: "semverCompare (peLibs E) v v = 0" for v by (rule threeWay_refl [OF assms(3)])
  show "pnFiles st' = pnFiles st" by (rule ensureOtelcRequire_files [OF assms(1)])
  show "\<exists>f. pnMods st' dir = Some f \<and> settledMod E f"
    using assms(1,2) f refl
    by (auto simp: ensureOtelcRequire_def ensureOtelcRequireVersion_def settledMod_def moduleLaws_def Let_def
        split: option.splits if_splits prod.splits)
  show "\<not> changed \<Longrightarrow> st' = st"
    using assms(1) by (auto simp: ensureOtelcRequire_def Let_def split: option.splits if_splits prod.splits)
qed

text \<open>
  C8: updating a config file settles it: the same update on the result changes no file and does not
  tidy again. The hypotheses are the laws of the module commands, and that parsing reads back what was
  printed.
\<close>

theorem update_settles:
  assumes "updateToolFile E pruned0 opts toolFile st = Inr st'"
    and "moduleLaws E" and "threeWay (semverCompare (peLibs E))"
    and "\<And>original g. pnFiles st toolFile = Some original \<Longrightarrow> updatedFile E pruned0 opts toolFile original = Inr g \<Longrightarrow>
      peParse E (pePrint E g) = Some g"
  shows "updateToolFile E pruned0 opts toolFile st' = Inr st'"
proof -
  let ?dir = "pathDir toolFile"
  obtain original g where original: "pnFiles st toolFile = Some original"
    and g: "updatedFile E pruned0 opts toolFile original = Inr g"
    using assms(1) by (auto simp: updateToolFile_def split: option.splits sum.splits)
  have again: "updatedFile E pruned0 opts toolFile (pePrint E g) = Inr g"
    by (rule updatedFile_again [OF g assms(4) [OF original g]])
  define st1 where "st1 = (if pePrint E g \<noteq> original then st\<lparr>pnFiles := (pnFiles st)(toolFile \<mapsto> pePrint E g)\<rparr> else st)"
  have content: "pnFiles st1 toolFile = Some (pePrint E g)" using original by (simp add: st1_def)
  obtain changed st2 where ensure: "ensureOtelcRequire E ?dir (peVersion E) st1 = Inr (changed, st2)"
    and rest: "(if pePrint E g = original \<and> \<not> changed \<and> pnSums st2 ?dir then Inr st2 else runModTidy E ?dir st2) = Inr st'"
    using assms(1) original g unfolding st1_def by (auto simp: updateToolFile_def Let_def split: if_splits sum.splits prod.splits)
  note e = ensure_settles [OF ensure assms(2,3)]
  show ?thesis
  proof (cases "pePrint E g = original \<and> \<not> changed \<and> pnSums st2 ?dir")
    case True
    then have "st2 = st" "st' = st2" using e(3) rest by (simp_all add: st1_def)
    then show ?thesis using assms(1) by simp
  next
    case False
    then obtain s where tidy: "peTidy E ?dir s = Some st'" and s: "pnFiles s = pnFiles st2" "pnMods s = pnMods st2"
      using rest by (auto simp: runModTidy_def split: option.splits)
    obtain f where f: "pnMods st2 ?dir = Some f" "settledMod E f" using e(1) by blast
    have "pnMods s ?dir = Some f" "hasOtelcTool f" using f s(2) by (simp_all add: settledMod_def)
    from tidy_keeps [OF assms(2) tidy this] obtain f' v' where files: "pnFiles st' = pnFiles st2" and sums: "pnSums st' ?dir"
      and f': "pnMods st' ?dir = Some f'" "hasOtelcTool f'" "otelcRequire f' = Some v'"
      and v': "\<And>v. otelcRequire f = Some v \<Longrightarrow> 0 \<le> semverCompare (peLibs E) v' v"
      unfolding s(1) by metis
    have "settledMod E f'"
      using f(2) f'(2,3) v' threeWay_trans [OF assms(3)] unfolding settledMod_def threeWay_flip [OF assms(3)] by blast
    from ensure_settled [OF f'(1) this] have "ensureOtelcRequire E ?dir (peVersion E) st' = Inr (False, st')" by (simp add: f'(3))
    then show ?thesis using again content sums by (simp add: updateToolFile_def files e(2) Let_def)
  qed
qed

section \<open>A sample\<close>

text \<open>
  The module at \<open>/app\<close> has a config file with an import that is to be removed and no requirement of
  otelc. \<open>sampleGenerated\<close> is the file that pinning \<open>net/http\<close> writes.
\<close>

definition sampleOpts :: PinOptions where
  "sampleOpts = \<lparr>poPrune = True, poValidate = False, poGenerate = Some True, poArgs = [], poSubcommand = [], poModuleDirs = [''/app'']\<rparr>"

definition pinFile :: "importSpec list \<Rightarrow> string list \<Rightarrow> dstFile" where
  "pinFile imps start = \<lparr>fileName = ''tools'', fileDecls = [GenDecl ImportTok (map ImportSpec imps)], fileImports = [],
     fileStart = start, fileTree = DNode OtherNode [] [] []\<rparr>"

definition sampleOriginal :: dstFile where
  "sampleOriginal = pinFile [toolImport ''inst/http'', toolImport ''inst/old''] [''//go:build tools'']"

definition sampleUpdated :: dstFile where
  "sampleUpdated = pinFile [toolImport ''inst/http''] [''//go:build tools'', ''//go:generate go tool otelc pin --generate'']"

definition sampleGenerated :: dstFile where
  "sampleGenerated = generateOtelInstrumentationGo [''inst/http'', ''inst/http/client''] sampleOpts"

definition samplePinEnv :: pinEnv where
  "samplePinEnv = \<lparr>
     peParse = \<lambda>s. if s = ''original'' then Some sampleOriginal else if s = ''updated'' then Some sampleUpdated
                    else if s = ''generated'' then Some sampleGenerated else None,
     pePrint = \<lambda>f. if f = sampleUpdated then ''updated'' else if f = sampleGenerated then ''generated'' else [],
     peWritable = \<lambda>p. True,
     peAddTool = \<lambda>t f. f\<lparr>gmTools := t # gmTools f\<rparr>,
     peAddRequire = \<lambda>p v f. f\<lparr>gmRequires := (p, v) # gmRequires f\<rparr>,
     peTidy = \<lambda>dir st. (case pnMods st dir of
        None \<Rightarrow> None
      | Some f \<Rightarrow> Some (st\<lparr>pnSums := (pnSums st)(dir := True),
          pnMods := (pnMods st)(dir \<mapsto> f\<lparr>gmRequires := (''go.opentelemetry.io/otelc'', ''v1.0.0'') # gmRequires f\<rparr>)\<rparr>)),
     peSync = \<lambda>paths dir st. Some st,
     peVersion = ''v1.0.0'', peLibs = sampleLibs\<rparr>"

definition samplePinFiles :: pinFiles where
  "samplePinFiles = \<lparr>pnFiles = [''/app/otelc.tool.go'' \<mapsto> ''original''], pnMods = [''/app'' \<mapsto> \<lparr>gmRequires = [], gmTools = []\<rparr>],
     pnSums = \<lambda>d. False, pnTidied = []\<rparr>"

definition sampleTools :: goTools where
  "sampleTools = \<lparr>gtLoad = \<lambda>g. sampleLoader,
     gtFindDeps = \<lambda>goflags sub args. Some [\<lparr>depImportPath = ''net/http'', depVersion = [], depSources = [], depCgoFiles = []\<rparr>],
     gtVendored = False, gtWorkDir = Some ''/app''\<rparr>"

lemma sample_moduleLaws: "moduleLaws samplePinEnv"
  by (auto simp: moduleLaws_def samplePinEnv_def sampleLibs_def split: option.splits)

lemma sample_update:
  "updatedFile samplePinEnv {''inst/old''} sampleOpts ''/app/otelc.tool.go'' ''original'' = Inr sampleUpdated"
  by code_simp

lemma sample_distinct: "sampleGenerated \<noteq> sampleUpdated"
  by code_simp

definition pinnedMod :: goMod where
  "pinnedMod = \<lparr>gmRequires = [(''go.opentelemetry.io/otelc'', ''v1.0.0'')], gmTools = [''go.opentelemetry.io/otelc/tool/cmd/otelc'']\<rparr>"

lemma sample_ensure:
  "pnMods st ''/app'' = Some \<lparr>gmRequires = [], gmTools = []\<rparr> \<Longrightarrow>
     ensureOtelcRequire samplePinEnv ''/app'' (peVersion samplePinEnv) st = Inr (True, st\<lparr>pnMods := (pnMods st)(''/app'' \<mapsto> pinnedMod)\<rparr>)"
  by (simp add: ensureOtelcRequire_def ensureOtelcRequireVersion_def releaseVersion_def samplePinEnv_def sampleLibs_def pinnedMod_def)

lemma sample_updates:
  "\<exists>st'. updateToolFile samplePinEnv {''inst/old''} sampleOpts ''/app/otelc.tool.go'' samplePinFiles = Inr st' \<and>
     pnFiles st' ''/app/otelc.tool.go'' = Some ''updated'' \<and> pnTidied st' = [''/app'']"
proof -
  have dir: "pathDir ''/app/otelc.tool.go'' = ''/app''" by code_simp
  have env: "pePrint samplePinEnv sampleUpdated = ''updated''" "peWritable samplePinEnv = (\<lambda>p. True)"
    by (simp_all add: samplePinEnv_def)
  let ?st = "samplePinFiles\<lparr>pnFiles := (pnFiles samplePinFiles)(''/app/otelc.tool.go'' \<mapsto> ''updated'')\<rparr>"
  have mods: "pnMods ?st ''/app'' = Some \<lparr>gmRequires = [], gmTools = []\<rparr>" by (simp add: samplePinFiles_def)
  have original: "pnFiles samplePinFiles ''/app/otelc.tool.go'' = Some ''original''" by (simp add: samplePinFiles_def)
  have "updateToolFile samplePinEnv {''inst/old''} sampleOpts ''/app/otelc.tool.go'' samplePinFiles =
      runModTidy samplePinEnv ''/app'' (?st\<lparr>pnMods := (pnMods ?st)(''/app'' \<mapsto> pinnedMod)\<rparr>)"
    using sample_ensure [OF mods] by (simp add: updateToolFile_def original sample_update dir env Let_def)
  then show ?thesis by (auto simp: runModTidy_def samplePinEnv_def samplePinFiles_def)
qed

lemma sample_generates:
  "\<exists>st'. generateIn samplePinEnv paths sampleOpts ''/app'' samplePinFiles = Inr st'"
proof -
  have mods: "pnMods (samplePinFiles\<lparr>pnFiles := m\<rparr>) ''/app'' = Some \<lparr>gmRequires = [], gmTools = []\<rparr>" for m
    by (simp add: samplePinFiles_def)
  have "peWritable samplePinEnv = (\<lambda>p. True)" "peSync samplePinEnv = (\<lambda>paths dir st. Some st)" by (simp_all add: samplePinEnv_def)
  then show ?thesis using sample_ensure [OF mods] by (simp add: generateIn_def Let_def)
qed

theorem update_settles_witness:
  "\<exists>st'. updateToolFile samplePinEnv {''inst/old''} sampleOpts ''/app/otelc.tool.go'' samplePinFiles = Inr st' \<and>
     pnFiles st' ''/app/otelc.tool.go'' = Some ''updated'' \<and> pnTidied st' = [''/app''] \<and>
     updateToolFile samplePinEnv {''inst/old''} sampleOpts ''/app/otelc.tool.go'' st' = Inr st'"
proof -
  have env: "pePrint samplePinEnv sampleUpdated = ''updated''" "peParse samplePinEnv ''updated'' = Some sampleUpdated"
    by (simp_all add: samplePinEnv_def)
  obtain st' where st': "updateToolFile samplePinEnv {''inst/old''} sampleOpts ''/app/otelc.tool.go'' samplePinFiles = Inr st'"
    and files: "pnFiles st' ''/app/otelc.tool.go'' = Some ''updated''" "pnTidied st' = [''/app'']"
    using sample_updates by blast
  have "updateToolFile samplePinEnv {''inst/old''} sampleOpts ''/app/otelc.tool.go'' st' = Inr st'"
  proof (rule update_settles [OF st' sample_moduleLaws])
    show "threeWay (semverCompare (peLibs samplePinEnv))" by (simp add: threeWay_def samplePinEnv_def sampleLibs_def)
    fix original g
    assume "pnFiles samplePinFiles ''/app/otelc.tool.go'' = Some original"
      and "updatedFile samplePinEnv {''inst/old''} sampleOpts ''/app/otelc.tool.go'' original = Inr g"
    then have "g = sampleUpdated" using sample_update by (auto simp: samplePinFiles_def)
    then show "peParse samplePinEnv (pePrint samplePinEnv g) = Some g" by (simp add: env)
  qed
  with st' files show ?thesis by blast
qed

theorem pins_cover_setup_witness:
  "\<exists>st' content f paths seen.
     generatePinnedProjects sampleTools sampleReaders (\<lambda>p s. None) sampleTree samplePinEnv [] sampleOpts [''/app''] samplePinFiles = Inr (None, st') \<and>
     pnFiles st' (pathJoin [''/app'', ''otel.instrumentation.go'']) = Some content \<and>
     peParse samplePinEnv content = Some f \<and>
     collectImports [] (declImports (fileDecls f)) [] = (Inr (paths, seen) :: ruleLoadError walkError + _) \<and>
     ''inst/http'' \<in> set paths"
proof -
  let ?dep = "\<lparr>depImportPath = ''net/http'', depVersion = [], depSources = [], depCgoFiles = []\<rparr>"
  let ?rules = "[(''inst/http/client'', [sampleRule1]), (''inst/http'', [sampleRule1])]"
  let ?paths = "pmImports (matchInstrumentationImports (\<lambda>p s. None) (semverCompare (peLibs samplePinEnv)) [?dep] ?rules)"
  have loaded: "loadMinimalRules sampleReaders (peLibs samplePinEnv) sampleTree (peVersion samplePinEnv) = Inr ?rules"
    by (simp add: samplePinEnv_def sample_loaded)
  have paths: "?paths = [''inst/http'', ''inst/http/client'']" by code_simp
  have gen: "generateOtelInstrumentationGo ?paths sampleOpts = sampleGenerated" by (simp add: paths sampleGenerated_def)
  have prints: "printsImports samplePinEnv (generateOtelInstrumentationGo ?paths sampleOpts)"
    unfolding gen by (simp add: printsImports_def samplePinEnv_def sample_distinct)
  have deps: "gtFindDeps sampleTools [] (subcommandOf sampleOpts) (poArgs sampleOpts) = Some [?dep]" by (simp add: sampleTools_def)
  obtain st' where st': "generatePinnedProjects sampleTools sampleReaders (\<lambda>p s. None) sampleTree samplePinEnv [] sampleOpts [''/app''] samplePinFiles = Inr (None, st')"
  proof -
    have dirs: "normalizeModuleDirs [''/app''] = [''/app'']" by code_simp
    obtain st' where "generateIn samplePinEnv ?paths sampleOpts ''/app'' samplePinFiles = Inr st'" using sample_generates by blast
    then show ?thesis
      using that by (auto simp: generatePinnedProjects_def deps loaded dirs paths)
  qed
  have plain: "\<forall>m \<in> fst ` set ?rules. plainPath m" by (simp add: plainPath_def)
  have match: "targetMatches (\<lambda>p s. None) (yrTarget sampleRule1) (depImportPath ?dep) []"
      "versionInRange (semverCompare (peLibs samplePinEnv)) (depVersion ?dep) (yrVersion sampleRule1)"
    by code_simp+
  have sync: "syncKeepsFiles samplePinEnv" by (simp add: syncKeepsFiles_def samplePinEnv_def)
  show ?thesis
    using pins_cover_setup [OF st' sync prints deps loaded plain, of ?dep "''inst/http''" "[sampleRule1]" sampleRule1 "[]" "''/app''" "[]"]
      match st' by auto
qed

end
