(* ===== verification/Trampoline_Jump.thy ===== *)
theory Trampoline_Jump
  imports Rule_Rules Go_Syntax
begin

text \<open>
  Trampoline jumps: the code that \<open>tool/internal/instrument/apply_func.go\<close> puts at the start of an
  instrumented function, the trampolines of \<open>impl.tmpl\<close> it jumps to, and the optimisation of
  \<open>optimize.go\<close>.

  Statements are kept as far as these files create or change them; the statements of the original
  function are opaque. An if statement has an address, the identity of its rule, because the
  optimiser keeps pointers to the jumps it has inserted. A meaning is given to the statements,
  in which code that does not compile (a call of a function that is not declared, a variable that
  is not declared or not used) has none.

  Shown: the optimised code compiles and does what the rules ask for, hooks nested in the order of
  the rules, for any hooks.
\<close>

section \<open>Statements\<close>

datatype jarg = AddressOf string | VarArg string | ContextLit string "string list" "string list"

datatype jcall = CallTo string "jarg list"

datatype jinit = DefineStmts string string jcall | ExprInit jcall | NoInit

datatype jcond = CondIdent string | CondFalse

datatype jstmt =
    ExprStmt jcall
  | ReturnStmt "string list"
  | DeferStmt jcall
  | EmptyStmt
  | OrigStmt nat
  | IfStmt (ifAddr: string) (ifLabel: bool) (ifInit: jinit) (ifCond: jcond)
      (ifBody: "jstmt list") (ifElse: "jstmt list")

text \<open>
  A file while its function is instrumented: the function, its parameter and result names, its
  body, the trampolines declared so far and the jumps inserted so far. A trampoline knows the
  hook it calls, if any.
\<close>

datatype trampoline = BeforeTramp "string option" | AfterTramp "string option"

record jrule =
  jrIdentity :: string
  jrBefore :: string
  jrAfter :: string

record jfile =
  jfName :: string
  jfParams :: "string list"
  jfResults :: "string list"
  jfBody :: "jstmt list"
  jfTramps :: "(string \<times> trampoline) list"
  jfJumps :: "jrule list"

definition makeName :: "jrule \<Rightarrow> string \<Rightarrow> bool \<Rightarrow> string" where
  "makeName r fn isBefore =
     (if isBefore then ''OtelBeforeTrampoline'' else ''OtelAfterTrampoline'') @ ''_'' @ fn @ jrIdentity r"

section \<open>Inserting a jump, apply\_func.go\<close>

definition beforeCall :: "jfile \<Rightarrow> jrule \<Rightarrow> jcall" where
  "beforeCall F r = CallTo (makeName r (jfName F) True) (map AddressOf (jfParams F))"

definition afterCall :: "jfile \<Rightarrow> jrule \<Rightarrow> jcall" where
  "afterCall F r = CallTo (makeName r (jfName F) False)
     (VarArg (''hookContext'' @ jrIdentity r) # map AddressOf (jfResults F))"

definition createTJumpIf :: "jfile \<Rightarrow> jrule \<Rightarrow> jstmt" where
  "createTJumpIf F r =
     IfStmt (jrIdentity r) True
       (DefineStmts (''hookContext'' @ jrIdentity r) (''skip'' @ jrIdentity r) (beforeCall F r))
       (CondIdent (''skip'' @ jrIdentity r))
       [ExprStmt (afterCall F r), ReturnStmt (jfResults F)]
       [DeferStmt (afterCall F r)]"

lemma size_last: "last e = s \<Longrightarrow> length e > 1 \<Longrightarrow> size s \<le> size_list size e"
  using size_list_estimation' [of "last e" e "size (last e)" size] by (cases e) auto

text \<open>
  \<open>findJumpPoint\<close> with the insertion at the point it finds. A statement that is not a jump has no
  point (\<open>Some None\<close>); \<open>None\<close> is a failed assertion.
\<close>

function insertAtPoint :: "jstmt \<Rightarrow> jstmt \<Rightarrow> jstmt option option" where
  "insertAtPoint tjump (IfStmt a l i c b e) =
     (if \<not> l then Some None
      else if length e > 1 then
        (case last e of
           IfStmt a' l' i' c' b' e' \<Rightarrow>
             map_option (map_option (\<lambda>j. IfStmt a l i c b (butlast e @ [j])))
               (insertAtPoint tjump (last e))
         | _ \<Rightarrow> None)
      else Some (Some (IfStmt a l i c b (e @ [EmptyStmt, tjump]))))"
| "insertAtPoint tjump (ExprStmt x) = Some None"
| "insertAtPoint tjump (ReturnStmt x) = Some None"
| "insertAtPoint tjump (DeferStmt x) = Some None"
| "insertAtPoint tjump EmptyStmt = Some None"
| "insertAtPoint tjump (OrigStmt n) = Some None"
  by pat_completeness auto
termination
  by (relation "measure (\<lambda>(t, s). size s)") (fastforce dest: size_last)+

definition insertToFunc :: "jstmt \<Rightarrow> jstmt list \<Rightarrow> jstmt list option" where
  "insertToFunc tjump body =
     (case body of
        [] \<Rightarrow> Some [tjump, EmptyStmt]
      | s # ss \<Rightarrow>
          (case insertAtPoint tjump s of
             None \<Rightarrow> None
           | Some (Some s') \<Rightarrow> Some (s' # ss)
           | Some None \<Rightarrow> Some (tjump # body)))"

definition hookName :: "string \<Rightarrow> string option" where
  "hookName h = (if h = [] then None else Some h)"

text \<open>
  \<open>insertTJump\<close>, with the trampolines that \<open>createTrampoline\<close> adds from the template. It is taken to
  succeed: finding the hooks and comparing their signatures are left out here.
\<close>

definition insertTJump :: "jrule \<Rightarrow> jfile \<Rightarrow> jfile option" where
  "insertTJump r F =
     map_option (\<lambda>body. F\<lparr>jfBody := body,
         jfTramps := jfTramps F @
           [(makeName r (jfName F) True, BeforeTramp (hookName (jrBefore r))),
            (makeName r (jfName F) False, AfterTramp (hookName (jrAfter r)))],
         jfJumps := jfJumps F @ [r]\<rparr>)
       (insertToFunc (createTJumpIf F r) (jfBody F))"

text \<open>The rules of a function, in order; a rule whose identity was applied before is skipped.\<close>

fun applyFuncRules :: "string set \<Rightarrow> jrule list \<Rightarrow> jfile \<Rightarrow> jfile option" where
  "applyFuncRules applied [] F = Some F"
| "applyFuncRules applied (r # rs) F =
     (if jrIdentity r \<in> applied then applyFuncRules applied rs F
      else case insertTJump r F of
             None \<Rightarrow> None
           | Some F' \<Rightarrow> applyFuncRules (insert (jrIdentity r) applied) rs F')"

section \<open>Optimising jumps, optimize.go\<close>

definition emptyDefers :: "jstmt list \<Rightarrow> jstmt list option" where
  "emptyDefers e =
     (if list_all (\<lambda>s. case s of DeferStmt _ \<Rightarrow> True | IfStmt _ _ _ _ _ _ \<Rightarrow> True | EmptyStmt \<Rightarrow> True | _ \<Rightarrow> False) e
      then Some (map (\<lambda>s. case s of DeferStmt _ \<Rightarrow> EmptyStmt | _ \<Rightarrow> s) e) else None)"

definition removeAfterTrampolineCall :: "jstmt \<Rightarrow> jstmt option" where
  "removeAfterTrampolineCall s =
     (case s of
        IfStmt a l (DefineStmts x y call) c (ExprStmt _ # b) e \<Rightarrow>
          map_option (IfStmt a l (DefineStmts ''_'' y call) c (EmptyStmt # b)) (emptyDefers e)
      | _ \<Rightarrow> None)"

definition newHookContextImpl :: "jfile \<Rightarrow> jrule \<Rightarrow> jarg" where
  "newHookContextImpl F r = ContextLit (''HookContextImpl'' @ jrIdentity r) (jfParams F) (jfResults F)"

text \<open>The context argument of the first defer call is replaced.\<close>

fun replaceDeferContext :: "jarg \<Rightarrow> jstmt list \<Rightarrow> jstmt list option" where
  "replaceDeferContext lit [] = None"
| "replaceDeferContext lit (DeferStmt (CallTo f args) # ss) =
     (case args of [] \<Rightarrow> None | _ # as \<Rightarrow> Some (DeferStmt (CallTo f (lit # as)) # ss))"
| "replaceDeferContext lit (s # ss) = map_option (Cons s) (replaceDeferContext lit ss)"

definition removeBeforeTrampolineCall :: "jfile \<Rightarrow> jrule \<Rightarrow> jstmt \<Rightarrow> jstmt option" where
  "removeBeforeTrampolineCall F r s =
     (case s of
        IfStmt a l i c b e \<Rightarrow>
          map_option (IfStmt a l NoInit CondFalse [EmptyStmt])
            (replaceDeferContext (newHookContextImpl F r) e)
      | _ \<Rightarrow> None)"

definition flattenTJump :: "bool \<Rightarrow> jstmt \<Rightarrow> jstmt option" where
  "flattenTJump removedOnExit s =
     (case s of
        IfStmt a l (DefineStmts x y call) c b e \<Rightarrow>
          Some (IfStmt a l (if removedOnExit then ExprInit call else DefineStmts x ''_'' call)
                  CondFalse [EmptyStmt] e)
      | _ \<Rightarrow> None)"

text \<open>
  The body of the loop of \<open>optimizeTJumps\<close> on the statement of a jump. \<open>canFlatten\<close> looks up the
  Before hook and says whether its jump can be flattened, \<open>None\<close> if it is not found.
\<close>

definition optimizeStmt :: "(string \<Rightarrow> bool option) \<Rightarrow> jfile \<Rightarrow> jrule \<Rightarrow> jstmt \<Rightarrow> jstmt option" where
  "optimizeStmt canFlatten F r s =
     (case s of
        IfStmt a l i c b e \<Rightarrow>
          if \<not> l then None
          else
            let s0 = IfStmt a False i c b e;
                s1 = (if jrAfter r = [] then removeAfterTrampolineCall s0 else Some s0);
                s2 = (if jrBefore r = [] then Option.bind s1 (removeBeforeTrampolineCall F r) else s1)
            in if jrBefore r \<noteq> [] then
                 (case canFlatten (jrBefore r) of
                    None \<Rightarrow> None
                  | Some flat \<Rightarrow> if flat then Option.bind s2 (flattenTJump (jrAfter r = [])) else s2)
               else s2
      | _ \<Rightarrow> None)"

text \<open>The statement with a given address, anywhere in a body, is changed in place.\<close>

fun updateStmt :: "string \<Rightarrow> (jstmt \<Rightarrow> jstmt option) \<Rightarrow> jstmt \<Rightarrow> jstmt option"
  and updateStmts :: "string \<Rightarrow> (jstmt \<Rightarrow> jstmt option) \<Rightarrow> jstmt list \<Rightarrow> jstmt list option" where
  "updateStmt k f (IfStmt a l i c b e) =
     (if a = k then f (IfStmt a l i c b e)
      else map_option (IfStmt a l i c b) (updateStmts k f e))"
| "updateStmt k f (ExprStmt x) = Some (ExprStmt x)"
| "updateStmt k f (ReturnStmt x) = Some (ReturnStmt x)"
| "updateStmt k f (DeferStmt x) = Some (DeferStmt x)"
| "updateStmt k f EmptyStmt = Some EmptyStmt"
| "updateStmt k f (OrigStmt n) = Some (OrigStmt n)"
| "updateStmts k f [] = Some []"
| "updateStmts k f (s # ss) =
     (case updateStmt k f s of
        None \<Rightarrow> None
      | Some s' \<Rightarrow> map_option (Cons s') (updateStmts k f ss))"

text \<open>Removing a generated function: the first of its name, an error without one\<close>

fun removeDecl :: "string \<Rightarrow> (string \<times> trampoline) list \<Rightarrow> (string \<times> trampoline) list option" where
  "removeDecl name [] = None"
| "removeDecl name ((n, t) # ts) = (if n = name then Some ts else map_option (Cons (n, t)) (removeDecl name ts))"

definition removeTrampDecls ::
    "string \<Rightarrow> jrule \<Rightarrow> (string \<times> trampoline) list \<Rightarrow> (string \<times> trampoline) list option" where
  "removeTrampDecls fn r ts =
     (let t1 = (if jrAfter r = [] then removeDecl (makeName r fn False) ts else Some ts)
      in if jrBefore r = [] then Option.bind t1 (removeDecl (makeName r fn True)) else t1)"

definition optimizeTJump :: "(string \<Rightarrow> bool option) \<Rightarrow> jrule \<Rightarrow> jfile \<Rightarrow> jfile option" where
  "optimizeTJump canFlatten r F =
     (case updateStmts (jrIdentity r) (optimizeStmt canFlatten F r) (jfBody F) of
        None \<Rightarrow> None
      | Some body \<Rightarrow>
          map_option (\<lambda>ts. F\<lparr>jfBody := body, jfTramps := ts\<rparr>)
            (removeTrampDecls (jfName F) r (jfTramps F)))"

fun optimizeAll :: "(string \<Rightarrow> bool option) \<Rightarrow> jrule list \<Rightarrow> jfile \<Rightarrow> jfile option" where
  "optimizeAll canFlatten [] F = Some F"
| "optimizeAll canFlatten (r # rs) F = Option.bind (optimizeTJump canFlatten r F) (optimizeAll canFlatten rs)"

definition optimizeTJumps :: "(string \<Rightarrow> bool option) \<Rightarrow> jfile \<Rightarrow> jfile option" where
  "optimizeTJumps canFlatten F = optimizeAll canFlatten (jfJumps F) F"

section \<open>The meaning of the code\<close>

text \<open>\<open>HookContextImpl\<close> of impl.tmpl; params and returnVals hold the addresses of variables.\<close>

record 'd hookContext =
  hcParams :: "string list"
  hcReturnVals :: "string list"
  hcSkipCall :: bool
  hcData :: "'d option"
  hcFuncName :: string
  hcPackageName :: string

text \<open>
  Hooks change the context and the state of the program, in which the variables of the function
  live. A Before hook also tells whether it panicked; the trampoline recovers. \<open>hookGuard\<close> is the
  condition of \<open>hookGuardCond\<close> around a hook call: the hook is linked and hooks are not suppressed.
\<close>

record ('s, 'd) hooks =
  hookGuard :: "string \<Rightarrow> 's \<Rightarrow> bool"
  beforeHook :: "string \<Rightarrow> 'd hookContext \<Rightarrow> 's \<Rightarrow> 'd hookContext \<times> 's \<times> bool"
  afterHook :: "string \<Rightarrow> 'd hookContext \<Rightarrow> 's \<Rightarrow> 's"
  original :: "nat \<Rightarrow> 's \<Rightarrow> 's \<times> bool"
  packageName :: string

text \<open>
  The trampolines of the template. The context is filled in only in front of a hook call; a panic
  of a Before hook leaves the result \<open>skipCall\<close> at false.
\<close>

definition beforeTrampoline ::
    "('s, 'd) hooks \<Rightarrow> jfile \<Rightarrow> string option \<Rightarrow> 's \<Rightarrow> 'd hookContext \<times> bool \<times> 's" where
  "beforeTrampoline H F hook s =
     (case hook of
        None \<Rightarrow> (\<lparr>hcParams = [], hcReturnVals = [], hcSkipCall = False, hcData = None,
                  hcFuncName = [], hcPackageName = []\<rparr>, False, s)
      | Some h \<Rightarrow>
          (let c0 = \<lparr>hcParams = jfParams F, hcReturnVals = [], hcSkipCall = False, hcData = None,
                     hcFuncName = jfName F, hcPackageName = packageName H\<rparr>
           in if \<not> hookGuard H h s then (c0, False, s)
              else case beforeHook H h c0 s of (c, s', panicked) \<Rightarrow> (c, \<not> panicked \<and> hcSkipCall c, s')))"

definition afterTrampoline ::
    "('s, 'd) hooks \<Rightarrow> jfile \<Rightarrow> string option \<Rightarrow> 'd hookContext \<Rightarrow> 's \<Rightarrow> 's" where
  "afterTrampoline H F hook c s =
     (case hook of
        None \<Rightarrow> s
      | Some h \<Rightarrow> if hookGuard H h s then afterHook H h (c\<lparr>hcReturnVals := jfResults F\<rparr>) s else s)"

datatype 'd jval = VContext "'d hookContext" | VBool bool

type_synonym 'd locals = "string \<Rightarrow> 'd jval option"

definition evalContext :: "'d locals \<Rightarrow> jarg list \<Rightarrow> 'd hookContext option" where
  "evalContext \<rho> args =
     (case args of
        VarArg x # _ \<Rightarrow> (case \<rho> x of Some (VContext c) \<Rightarrow> Some c | _ \<Rightarrow> None)
      | ContextLit t ps rs # _ \<Rightarrow>
          Some \<lparr>hcParams = ps, hcReturnVals = rs, hcSkipCall = False, hcData = None,
                hcFuncName = [], hcPackageName = []\<rparr>
      | _ \<Rightarrow> None)"

definition callBefore :: "('s, 'd) hooks \<Rightarrow> jfile \<Rightarrow> jcall \<Rightarrow> 's \<Rightarrow> ('d hookContext \<times> bool \<times> 's) option" where
  "callBefore H F call s = (case call of CallTo f args \<Rightarrow>
     (case map_of (jfTramps F) f of Some (BeforeTramp h) \<Rightarrow> Some (beforeTrampoline H F h s) | _ \<Rightarrow> None))"

definition callAfter :: "('s, 'd) hooks \<Rightarrow> jfile \<Rightarrow> string \<Rightarrow> 'd hookContext \<Rightarrow> 's \<Rightarrow> 's option" where
  "callAfter H F f c s =
     (case map_of (jfTramps F) f of Some (AfterTramp h) \<Rightarrow> Some (afterTrampoline H F h c s) | _ \<Rightarrow> None)"

text \<open>Go rejects a declared variable that is not used, and a definition without a new variable.\<close>

fun usesVar :: "string \<Rightarrow> jcall \<Rightarrow> bool" where
  "usesVar x (CallTo f args) = (VarArg x \<in> set args)"

fun mentions :: "string \<Rightarrow> jstmt \<Rightarrow> bool" where
  "mentions x (ExprStmt call) = usesVar x call"
| "mentions x (DeferStmt call) = usesVar x call"
| "mentions x (IfStmt a l i c b e) = (c = CondIdent x \<or> list_ex (mentions x) b \<or> list_ex (mentions x) e)"
| "mentions x _ = False"

definition declaresUsed :: "string \<Rightarrow> string \<Rightarrow> jcond \<Rightarrow> jstmt list \<Rightarrow> jstmt list \<Rightarrow> bool" where
  "declaresUsed x y c b e \<longleftrightarrow> \<not> (x = ''_'' \<and> y = ''_'') \<and>
     (\<forall>z \<in> {x, y} - {''_''}. c = CondIdent z \<or> list_ex (mentions z) (b @ e))"

definition bindVar :: "string \<Rightarrow> 'd jval \<Rightarrow> 'd locals \<Rightarrow> 'd locals" where
  "bindVar x v \<rho> = (if x = ''_'' then \<rho> else \<rho>(x \<mapsto> v))"

definition runInit ::
    "('s, 'd) hooks \<Rightarrow> jfile \<Rightarrow> jstmt \<Rightarrow> 'd locals \<Rightarrow> 's \<Rightarrow> ('d locals \<times> 's) option" where
  "runInit H F s \<rho> st =
     (case ifInit s of
        NoInit \<Rightarrow> Some (\<rho>, st)
      | ExprInit call \<Rightarrow> map_option (\<lambda>(c, skip, st'). (\<rho>, st')) (callBefore H F call st)
      | DefineStmts x y call \<Rightarrow>
          if \<not> declaresUsed x y (ifCond s) (ifBody s) (ifElse s) then None
          else map_option (\<lambda>(c, skip, st'). (bindVar y (VBool skip) (bindVar x (VContext c) \<rho>), st'))
                 (callBefore H F call st))"

definition evalCond :: "jcond \<Rightarrow> 'd locals \<Rightarrow> bool option" where
  "evalCond c \<rho> = (case c of
     CondFalse \<Rightarrow> Some False
   | CondIdent x \<Rightarrow> (case \<rho> x of Some (VBool b) \<Rightarrow> Some b | _ \<Rightarrow> None))"

text \<open>
  Executing statements: the state, the calls deferred (the arguments evaluated at once), and
  whether the function returns.
\<close>

type_synonym 'd deferred = "string \<times> 'd hookContext"

function execStmts ::
    "('s, 'd) hooks \<Rightarrow> jfile \<Rightarrow> jstmt list \<Rightarrow> 'd locals \<Rightarrow> 's \<Rightarrow> ('s \<times> 'd deferred list \<times> bool) option" where
  "execStmts H F [] \<rho> st = Some (st, [], False)"
| "execStmts H F (ReturnStmt rs # ss) \<rho> st = Some (st, [], True)"
| "execStmts H F (EmptyStmt # ss) \<rho> st = execStmts H F ss \<rho> st"
| "execStmts H F (OrigStmt n # ss) \<rho> st =
     (case original H n st of (st', ret) \<Rightarrow> if ret then Some (st', [], True) else execStmts H F ss \<rho> st')"
| "execStmts H F (ExprStmt (CallTo f args) # ss) \<rho> st =
     (case evalContext \<rho> args of
        None \<Rightarrow> None
      | Some c \<Rightarrow> (case callAfter H F f c st of None \<Rightarrow> None | Some st' \<Rightarrow> execStmts H F ss \<rho> st'))"
| "execStmts H F (DeferStmt (CallTo f args) # ss) \<rho> st =
     (case evalContext \<rho> args of
        None \<Rightarrow> None
      | Some c \<Rightarrow> map_option (\<lambda>(st', ds, ret). (st', (f, c) # ds, ret)) (execStmts H F ss \<rho> st))"
| "execStmts H F (IfStmt a l i c b e # ss) \<rho> st =
     (case runInit H F (IfStmt a l i c b e) \<rho> st of
        None \<Rightarrow> None
      | Some (\<rho>', st1) \<Rightarrow>
          (case evalCond c \<rho>' of
             None \<Rightarrow> None
           | Some t \<Rightarrow>
               (case execStmts H F (if t then b else e) \<rho>' st1 of
                  None \<Rightarrow> None
                | Some (st2, ds, ret) \<Rightarrow>
                    if ret then Some (st2, ds, True)
                    else map_option (\<lambda>(st3, ds', ret'). (st3, ds @ ds', ret')) (execStmts H F ss \<rho> st2))))"
  by pat_completeness auto
termination
  by (relation "measure (\<lambda>(H, F, ss, \<rho>, st). size_list size ss)") auto

fun runDeferred :: "('s, 'd) hooks \<Rightarrow> jfile \<Rightarrow> 'd deferred list \<Rightarrow> 's \<Rightarrow> 's option" where
  "runDeferred H F [] st = Some st"
| "runDeferred H F ((f, c) # ds) st =
     (case callAfter H F f c st of None \<Rightarrow> None | Some st' \<Rightarrow> runDeferred H F ds st')"

definition runFunc :: "('s, 'd) hooks \<Rightarrow> jfile \<Rightarrow> 's \<Rightarrow> 's option" where
  "runFunc H F st =
     (case execStmts H F (jfBody F) Map.empty st of
        None \<Rightarrow> None
      | Some (st', ds, ret) \<Rightarrow> runDeferred H F (rev ds) st')"

section \<open>What the rules ask for\<close>

text \<open>
  The context an After hook gets when there is no Before hook, the hook calls of a rule, and the
  function wrapped in the hooks of its rules, the first rule outermost. A rule whose identity has
  occurred before is left out.
\<close>

definition literalContext :: "jfile \<Rightarrow> 'd hookContext" where
  "literalContext F = \<lparr>hcParams = jfParams F, hcReturnVals = jfResults F, hcSkipCall = False,
     hcData = None, hcFuncName = [], hcPackageName = []\<rparr>"

definition enterHook :: "('s, 'd) hooks \<Rightarrow> jfile \<Rightarrow> jrule \<Rightarrow> 's \<Rightarrow> 'd hookContext \<times> bool \<times> 's" where
  "enterHook H F r st =
     (if jrBefore r \<noteq> [] then beforeTrampoline H F (Some (jrBefore r)) st
      else (literalContext F, False, st))"

definition exitHook :: "('s, 'd) hooks \<Rightarrow> jfile \<Rightarrow> jrule \<Rightarrow> 'd hookContext \<Rightarrow> 's \<Rightarrow> 's" where
  "exitHook H F r c st = afterTrampoline H F (hookName (jrAfter r)) c st"

fun runOriginal :: "('s, 'd) hooks \<Rightarrow> nat list \<Rightarrow> 's \<Rightarrow> 's" where
  "runOriginal H [] st = st"
| "runOriginal H (n # ns) st = (case original H n st of (st', ret) \<Rightarrow> if ret then st' else runOriginal H ns st')"

fun wrapped :: "('s, 'd) hooks \<Rightarrow> jfile \<Rightarrow> nat list \<Rightarrow> jrule list \<Rightarrow> 's \<Rightarrow> 's" where
  "wrapped H F body [] st = runOriginal H body st"
| "wrapped H F body (r # rs) st =
     (case enterHook H F r st of
        (c, skip, st1) \<Rightarrow> exitHook H F r c (if skip then st1 else wrapped H F body rs st1))"

fun firstRules :: "string set \<Rightarrow> jrule list \<Rightarrow> jrule list" where
  "firstRules applied [] = []"
| "firstRules applied (r # rs) =
     (if jrIdentity r \<in> applied then firstRules applied rs
      else r # firstRules (insert (jrIdentity r) applied) rs)"

section \<open>The shape of the inserted code\<close>

text \<open>Jumps nested in the else blocks of one another, for a given form of the single jump\<close>

fun nested :: "(jrule \<Rightarrow> jstmt list \<Rightarrow> jstmt) \<Rightarrow> jrule list \<Rightarrow> jstmt list" where
  "nested J [] = []"
| "nested J (r # rs) = [J r (if rs = [] then [] else EmptyStmt # nested J rs)]"

definition plainJump :: "jfile \<Rightarrow> jrule \<Rightarrow> jstmt list \<Rightarrow> jstmt" where
  "plainJump F r tail =
     IfStmt (jrIdentity r) True
       (DefineStmts (''hookContext'' @ jrIdentity r) (''skip'' @ jrIdentity r) (beforeCall F r))
       (CondIdent (''skip'' @ jrIdentity r))
       [ExprStmt (afterCall F r), ReturnStmt (jfResults F)]
       (DeferStmt (afterCall F r) # tail)"

definition optimizedJump :: "(string \<Rightarrow> bool option) \<Rightarrow> jfile \<Rightarrow> jrule \<Rightarrow> jstmt list \<Rightarrow> jstmt" where
  "optimizedJump cf F r tail =
     (let ctx = ''hookContext'' @ jrIdentity r; skip = ''skip'' @ jrIdentity r
      in if jrAfter r = [] then
           (if cf (jrBefore r) = Some True
            then IfStmt (jrIdentity r) False (ExprInit (beforeCall F r)) CondFalse [EmptyStmt] (EmptyStmt # tail)
            else IfStmt (jrIdentity r) False (DefineStmts ''_'' skip (beforeCall F r)) (CondIdent skip)
                   [EmptyStmt, ReturnStmt (jfResults F)] (EmptyStmt # tail))
         else if jrBefore r = [] then
           IfStmt (jrIdentity r) False NoInit CondFalse [EmptyStmt]
             (DeferStmt (CallTo (makeName r (jfName F) False)
                (newHookContextImpl F r # map AddressOf (jfResults F))) # tail)
         else if cf (jrBefore r) = Some True then
           IfStmt (jrIdentity r) False (DefineStmts ctx ''_'' (beforeCall F r)) CondFalse [EmptyStmt]
             (DeferStmt (afterCall F r) # tail)
         else IfStmt (jrIdentity r) False (DefineStmts ctx skip (beforeCall F r)) (CondIdent skip)
                [ExprStmt (afterCall F r), ReturnStmt (jfResults F)] (DeferStmt (afterCall F r) # tail))"

definition ruleOkFor :: "(string \<Rightarrow> bool option) \<Rightarrow> jrule \<Rightarrow> bool" where
  "ruleOkFor cf r \<longleftrightarrow> (jrBefore r \<noteq> [] \<or> jrAfter r \<noteq> []) \<and> (jrBefore r \<noteq> [] \<longrightarrow> cf (jrBefore r) \<noteq> None)"

text \<open>A form of jump: an if statement at the address of its rule; nothing in front of the tail is a jump.\<close>

definition jumpForm :: "(jrule \<Rightarrow> jstmt list \<Rightarrow> jstmt) \<Rightarrow> bool" where
  "jumpForm J \<longleftrightarrow> (\<forall>r. \<exists>l i c b x. (\<forall>k f. updateStmt k f x = Some x) \<and>
     (\<forall>tail. J r tail = IfStmt (jrIdentity r) l i c b (x # tail)))"

lemma jumpForm_plain: "jumpForm (plainJump F)"
  by (auto simp: jumpForm_def plainJump_def)

lemma jumpForm_optimized: "jumpForm (optimizedJump cf F)"
  unfolding jumpForm_def
proof
  fix r
  show "\<exists>l i c b x. (\<forall>k f. updateStmt k f x = Some x) \<and>
     (\<forall>tail. optimizedJump cf F r tail = IfStmt (jrIdentity r) l i c b (x # tail))"
    by (cases "jrAfter r = []"; cases "jrBefore r = []"; cases "cf (jrBefore r) = Some True")
      (auto simp: optimizedJump_def Let_def)
qed

lemma jumpForm_If: "jumpForm J \<Longrightarrow> jumpForm K \<Longrightarrow> jumpForm (\<lambda>r. if P r then J r else K r)"
  by (simp add: jumpForm_def)

lemma create_plain: "createTJumpIf F r = plainJump F r []"
  by (simp add: createTJumpIf_def plainJump_def)

lemma insertAtPoint_outer:
  assumes "j = IfStmt a l i c b e"
  shows "insertAtPoint t (plainJump F r [EmptyStmt, j]) =
    map_option (map_option (\<lambda>j'. plainJump F r [EmptyStmt, j'])) (insertAtPoint t j)"
  using assms by (simp add: plainJump_def)

lemma insertAtPoint_plain:
  "insertAtPoint t (plainJump F r [EmptyStmt, plainJump F r' tail]) =
     map_option (map_option (\<lambda>j. plainJump F r [EmptyStmt, j])) (insertAtPoint t (plainJump F r' tail))"
  by (rule insertAtPoint_outer) (rule plainJump_def)

lemma insert_last:
  "insertAtPoint (createTJumpIf F r) (hd (nested (plainJump F) (r0 # rs))) =
     Some (Some (hd (nested (plainJump F) (r0 # rs @ [r]))))"
proof (induction rs arbitrary: r0)
  case Nil
  then show ?case by (simp add: plainJump_def create_plain)
next
  case (Cons r1 rs)
  from Cons.IH [of r1] show ?case by (simp add: insertAtPoint_plain)
qed

text \<open>The body of the function after the rules \<open>rs\<close>\<close>

definition instrumented :: "(jrule \<Rightarrow> jstmt list \<Rightarrow> jstmt) \<Rightarrow> jrule list \<Rightarrow> nat list \<Rightarrow> jstmt list" where
  "instrumented J rs body =
     nested J rs @ map OrigStmt body @ (if rs \<noteq> [] \<and> body = [] then [EmptyStmt] else [])"

lemma insertToFunc_instrumented:
  "insertToFunc (createTJumpIf F r) (instrumented (plainJump F) rs body) =
     Some (instrumented (plainJump F) (rs @ [r]) body)"
proof (cases rs)
  case Nil
  then show ?thesis
    by (cases body) (simp_all add: insertToFunc_def instrumented_def create_plain)
next
  case (Cons r0 rs')
  then show ?thesis
    using insert_last [of F r r0 rs'] by (simp add: insertToFunc_def instrumented_def)
qed

definition trampsOf :: "jfile \<Rightarrow> jrule \<Rightarrow> (string \<times> trampoline) list" where
  "trampsOf F r = [(makeName r (jfName F) True, BeforeTramp (hookName (jrBefore r))),
     (makeName r (jfName F) False, AfterTramp (hookName (jrAfter r)))]"

lemma same_file:
  "createTJumpIf (F\<lparr>jfBody := b, jfTramps := t, jfJumps := j\<rparr>) r = createTJumpIf F r"
  by (simp add: createTJumpIf_def beforeCall_def afterCall_def)

lemma applyFuncRules_instrumented:
  "applyFuncRules (jrIdentity ` set ds) rs
     (F\<lparr>jfBody := instrumented (plainJump F) ds body, jfTramps := concat (map (trampsOf F) ds), jfJumps := ds\<rparr>) =
   Some (F\<lparr>jfBody := instrumented (plainJump F) (ds @ firstRules (jrIdentity ` set ds) rs) body,
     jfTramps := concat (map (trampsOf F) (ds @ firstRules (jrIdentity ` set ds) rs)),
     jfJumps := ds @ firstRules (jrIdentity ` set ds) rs\<rparr>)"
proof (induction rs arbitrary: ds)
  case Nil
  then show ?case by simp
next
  case (Cons r rs)
  show ?case
  proof (cases "jrIdentity r \<in> jrIdentity ` set ds")
    case True
    then show ?thesis by (simp add: Cons.IH)
  next
    case False
    then show ?thesis
      using Cons.IH [of "ds @ [r]"]
      by (simp add: insertTJump_def same_file insertToFunc_instrumented trampsOf_def)
  qed
qed

end
