(* ===== verification/Trampoline_Correct.thy ===== *)
theory Trampoline_Correct
  imports Trampoline_Jump
begin

text \<open>
  The correctness of the trampoline jumps: what \<open>optimizeTJumps\<close> makes of the body and the
  trampolines that \<open>applyFuncRules\<close> has inserted, and what the result does when it is run.
\<close>

section \<open>Optimising one jump\<close>

lemma emptyDefers_defer:
  "emptyDefers tail = Some tail \<Longrightarrow> emptyDefers (DeferStmt x # tail) = Some (EmptyStmt # tail)"
  by (auto simp: emptyDefers_def split: if_splits)

lemma optimize_plain:
  assumes "ruleOkFor cf r" and "emptyDefers tail = Some tail"
  shows "optimizeStmt cf F r (plainJump F r tail) = Some (optimizedJump cf F r tail)"
proof (cases "jrBefore r = []")
  case True
  with assms show ?thesis
    by (simp add: optimizeStmt_def plainJump_def optimizedJump_def ruleOkFor_def
        removeBeforeTrampolineCall_def afterCall_def Let_def)
next
  case False
  with assms obtain b where "cf (jrBefore r) = Some b" by (auto simp: ruleOkFor_def)
  with False assms show ?thesis
    by (cases "jrAfter r = []"; cases b)
      (simp_all add: optimizeStmt_def plainJump_def optimizedJump_def removeAfterTrampolineCall_def
        flattenTJump_def emptyDefers_defer Let_def)
qed

definition tailOf :: "(jrule \<Rightarrow> jstmt list \<Rightarrow> jstmt) \<Rightarrow> jrule list \<Rightarrow> jstmt list" where
  "tailOf J rs = (if rs = [] then [] else EmptyStmt # nested J rs)"

lemma nested_Cons: "nested J (r # rs) = [J r (tailOf J rs)]"
  by (simp add: tailOf_def)

lemma jumpForm_obtain:
  assumes "jumpForm J"
  obtains l i c b x where "\<And>k f. updateStmt k f x = Some x"
    and "\<And>tail. J r tail = IfStmt (jrIdentity r) l i c b (x # tail)"
  using assms unfolding jumpForm_def by metis

lemma emptyDefers_tail:
  assumes "jumpForm J"
  shows "emptyDefers (tailOf J rs) = Some (tailOf J rs)"
proof (cases rs)
  case Nil
  then show ?thesis by (simp add: tailOf_def emptyDefers_def)
next
  case (Cons r rs')
  obtain l i c b x where "\<And>tail. J r tail = IfStmt (jrIdentity r) l i c b (x # tail)"
    using jumpForm_obtain [OF assms] by metis
  with Cons show ?thesis by (simp add: tailOf_def emptyDefers_def)
qed

section \<open>Optimising all jumps\<close>

lemma updateStmts_append:
  "updateStmts k f xs = Some xs' \<Longrightarrow> updateStmts k f ys = Some ys' \<Longrightarrow>
     updateStmts k f (xs @ ys) = Some (xs' @ ys')"
  by (induction xs arbitrary: xs') (auto split: option.splits)

lemma updateStmts_original: "updateStmts k f (map OrigStmt ns) = Some (map OrigStmt ns)"
  by (induction ns) simp_all

lemma updateStmts_other:
  assumes "jumpForm J" and "k \<notin> jrIdentity ` set rs"
  shows "updateStmts k f (nested J rs) = Some (nested J rs) \<and> updateStmts k f (tailOf J rs) = Some (tailOf J rs)"
  using assms(2)
proof (induction rs)
  case Nil
  then show ?case by (simp add: tailOf_def)
next
  case (Cons r rs)
  obtain l i c b x where x: "\<And>k f. updateStmt k f x = Some x"
    and J: "\<And>tail. J r tail = IfStmt (jrIdentity r) l i c b (x # tail)"
    using jumpForm_obtain [OF assms(1), of r] by metis
  from Cons have IH: "updateStmts k f (tailOf J rs) = Some (tailOf J rs)" and "jrIdentity r \<noteq> k" by auto
  then have "updateStmts k f (nested J (r # rs)) = Some (nested J (r # rs))"
    by (simp add: nested_Cons J x del: nested.simps)
  then show ?case by (simp add: tailOf_def del: nested.simps)
qed

lemma nested_upd: "r \<notin> set rs \<Longrightarrow> nested (J(r := K)) rs = nested J rs \<and> tailOf (J(r := K)) rs = tailOf J rs"
  by (induction rs) (auto simp: tailOf_def)

lemma updateStmts_nested:
  assumes J: "jumpForm J" and dist: "distinct (map jrIdentity rs)" and r: "r \<in> set rs"
    and f: "\<And>ts. f (J r (tailOf J ts)) = Some (K (tailOf J ts))"
  shows "updateStmts (jrIdentity r) f (nested J rs) = Some (nested (J(r := K)) rs)"
  using dist r
proof (induction rs)
  case Nil
  then show ?case by simp
next
  case (Cons q rs)
  obtain l i c b x where x: "\<And>k f. updateStmt k f x = Some x"
    and Jq: "\<And>tail. J q tail = IfStmt (jrIdentity q) l i c b (x # tail)"
    using jumpForm_obtain [OF J, of q] by metis
  show ?case
  proof (cases "q = r")
    case True
    with Cons.prems have "r \<notin> set rs" by auto
    then have "tailOf (J(r := K)) rs = tailOf J rs" using nested_upd by blast
    moreover have "updateStmt (jrIdentity r) f (J r (tailOf J rs)) = f (J r (tailOf J rs))"
      by (simp add: Jq [unfolded True])
    ultimately show ?thesis by (simp add: True nested_Cons f fun_upd_same del: nested.simps fun_upd_apply)
  next
    case False
    with Cons.prems have "r \<in> set rs" and "distinct (map jrIdentity rs)" by auto
    with Cons.IH have IH: "updateStmts (jrIdentity r) f (nested J rs) = Some (nested (J(r := K)) rs)" by blast
    have "jrIdentity q \<noteq> jrIdentity r" using Cons.prems \<open>r \<in> set rs\<close> by auto
    moreover have "updateStmts (jrIdentity r) f (tailOf J rs) = Some (tailOf (J(r := K)) rs)"
      using IH by (simp add: tailOf_def)
    moreover have "(J(r := K)) q = J q" using False by simp
    ultimately show ?thesis by (simp add: nested_Cons Jq x del: nested.simps fun_upd_apply)
  qed
qed

lemma updateStmts_instrumented:
  assumes "jumpForm J" and "distinct (map jrIdentity rs)" and "r \<in> set rs"
    and "\<And>ts. f (J r (tailOf J ts)) = Some (K (tailOf J ts))"
  shows "updateStmts (jrIdentity r) f (instrumented J rs body) = Some (instrumented (J(r := K)) rs body)"
proof -
  have "updateStmts (jrIdentity r) f (nested J rs) = Some (nested (J(r := K)) rs)"
    by (rule updateStmts_nested) (fact assms)+
  moreover have "updateStmts (jrIdentity r) f (if rs \<noteq> [] \<and> body = [] then [EmptyStmt] else []) =
      Some (if rs \<noteq> [] \<and> body = [] then [EmptyStmt] else [])"
    by simp
  ultimately show ?thesis
    unfolding instrumented_def by (intro updateStmts_append updateStmts_original)
qed

section \<open>The trampolines that stay\<close>

lemma makeName_eq: "makeName r fn b = makeName q fn c \<longleftrightarrow> b = c \<and> jrIdentity r = jrIdentity q"
  by (auto simp: makeName_def)

lemma removeDecl_middle:
  "name \<notin> fst ` set xs \<Longrightarrow> removeDecl name (xs @ (name, t) # ys) = Some (xs @ ys)"
  by (induction xs) auto

definition keptTramps :: "jfile \<Rightarrow> jrule \<Rightarrow> (string \<times> trampoline) list" where
  "keptTramps F r =
     (if jrBefore r = [] then [] else [(makeName r (jfName F) True, BeforeTramp (Some (jrBefore r)))]) @
     (if jrAfter r = [] then [] else [(makeName r (jfName F) False, AfterTramp (Some (jrAfter r)))])"

lemma keptTramps_names:
  "jrIdentity r \<notin> jrIdentity ` set ds \<Longrightarrow> makeName r (jfName F) b \<notin> fst ` set (concat (map (keptTramps F) ds))"
  by (auto simp: keptTramps_def makeName_eq split: if_splits)

lemma remove_tramps:
  fixes F :: jfile
  assumes new: "jrIdentity r \<notin> jrIdentity ` set ds"
  shows "removeTrampDecls (jfName F) r (concat (map (keptTramps F) ds) @ trampsOf F r @ ys) =
         Some (concat (map (keptTramps F) ds) @ keptTramps F r @ ys)"
proof -
  let ?xs = "concat (map (keptTramps F) ds)"
  have names: "makeName r (jfName F) b \<notin> fst ` set ?xs" for b
    by (rule keptTramps_names [OF new])
  have before: "removeDecl (makeName r (jfName F) True) (?xs @ (makeName r (jfName F) True, t) # zs) =
      Some (?xs @ zs)" for t zs
    by (rule removeDecl_middle [OF names])
  have after: "removeDecl (makeName r (jfName F) False)
      (?xs @ (makeName r (jfName F) True, t) # (makeName r (jfName F) False, u) # zs) =
      Some (?xs @ (makeName r (jfName F) True, t) # zs)" for t u zs
    using removeDecl_middle [of "makeName r (jfName F) False" "?xs @ [(makeName r (jfName F) True, t)]" u zs] names
    by (simp add: makeName_eq)
  show ?thesis
    by (cases "jrAfter r = []"; cases "jrBefore r = []")
      (simp_all only: removeTrampDecls_def trampsOf_def keptTramps_def hookName_def Let_def if_True if_False
        append.simps after before bind.bind_lunit simp_thms)
qed

section \<open>The optimised function\<close>

definition mixedJump :: "(string \<Rightarrow> bool option) \<Rightarrow> jfile \<Rightarrow> jrule list \<Rightarrow> jrule \<Rightarrow> jstmt list \<Rightarrow> jstmt" where
  "mixedJump cf F ds = (\<lambda>r. if r \<in> set ds then optimizedJump cf F r else plainJump F r)"

lemma mixedJump_form: "jumpForm (mixedJump cf F ds)"
  unfolding mixedJump_def by (intro jumpForm_If jumpForm_optimized jumpForm_plain)

lemma mixedJump_upd: "(mixedJump cf F ds)(r := optimizedJump cf F r) = mixedJump cf F (ds @ [r])"
  by (auto simp: mixedJump_def)

lemma optimizedJump_file:
  "plainJump (F\<lparr>jfBody := b, jfTramps := t, jfJumps := j\<rparr>) = plainJump F"
  "optimizedJump cf (F\<lparr>jfBody := b, jfTramps := t, jfJumps := j\<rparr>) = optimizedJump cf F"
  by (auto simp: fun_eq_iff plainJump_def optimizedJump_def beforeCall_def afterCall_def newHookContextImpl_def Let_def)

lemma optimizeAll_mixed:
  assumes "distinct (map jrIdentity (ds @ ts))" and "list_all (ruleOkFor cf) ts"
  shows "optimizeAll cf ts (F\<lparr>jfBody := instrumented (mixedJump cf F ds) (ds @ ts) body,
      jfTramps := concat (map (keptTramps F) ds) @ concat (map (trampsOf F) ts), jfJumps := js\<rparr>) =
    Some (F\<lparr>jfBody := instrumented (mixedJump cf F (ds @ ts)) (ds @ ts) body,
      jfTramps := concat (map (keptTramps F) (ds @ ts)), jfJumps := js\<rparr>)"
  using assms
proof (induction ts arbitrary: ds)
  case Nil
  then show ?case by simp
next
  case (Cons r ts)
  let ?J = "mixedJump cf F ds"
  let ?F = "F\<lparr>jfBody := instrumented ?J (ds @ r # ts) body,
      jfTramps := concat (map (keptTramps F) ds) @ concat (map (trampsOf F) (r # ts)), jfJumps := js\<rparr>"
  from Cons.prems have new: "jrIdentity r \<notin> jrIdentity ` set ds" and "r \<notin> set ds" by auto
  then have Jr: "?J r = plainJump F r" by (simp add: mixedJump_def)
  have "optimizeStmt cf ?F r (?J r (tailOf ?J q)) = Some (optimizedJump cf F r (tailOf ?J q))" for q
    using optimize_plain [OF _ emptyDefers_tail [OF mixedJump_form], of cf r ?F] Cons.prems(2)
    by (simp add: optimizedJump_file Jr)
  then have "updateStmts (jrIdentity r) (optimizeStmt cf ?F r) (instrumented ?J (ds @ r # ts) body) =
      Some (instrumented (?J(r := optimizedJump cf F r)) (ds @ r # ts) body)"
    using Cons.prems(1) by (intro updateStmts_instrumented mixedJump_form) auto
  then have "optimizeTJump cf r ?F =
     Some (F\<lparr>jfBody := instrumented (mixedJump cf F (ds @ [r])) (ds @ r # ts) body,
       jfTramps := concat (map (keptTramps F) ds) @ keptTramps F r @ concat (map (trampsOf F) ts), jfJumps := js\<rparr>)"
    using remove_tramps [OF new, of F "concat (map (trampsOf F) ts)"]
    by (simp add: optimizeTJump_def mixedJump_upd)
  then show ?case using Cons.IH [of "ds @ [r]"] Cons.prems by simp
qed

section \<open>Running the optimised function\<close>

text \<open>
  Entering the jumps: the state, the deferred calls and whether a hook made the function return.
  \<open>trampsFit\<close> says that the trampolines the rules need are declared.
\<close>

fun entering :: "('s, 'd) hooks \<Rightarrow> jfile \<Rightarrow> jrule list \<Rightarrow> 's \<Rightarrow> 's \<times> 'd deferred list \<times> bool" where
  "entering H F [] st = (st, [], False)"
| "entering H F (r # rs) st =
     (case enterHook H F r st of
        (c, skip, st1) \<Rightarrow>
          if skip then (exitHook H F r c st1, [], True)
          else (case entering H F rs st1 of
                  (st2, ds, ret) \<Rightarrow>
                    (st2, (if jrAfter r = [] then [] else [(makeName r (jfName F) False, c)]) @ ds, ret)))"

definition trampsFit :: "jfile \<Rightarrow> jrule list \<Rightarrow> bool" where
  "trampsFit F rs \<longleftrightarrow> (\<forall>r \<in> set rs.
     (jrBefore r \<noteq> [] \<longrightarrow> map_of (jfTramps F) (makeName r (jfName F) True) = Some (BeforeTramp (Some (jrBefore r)))) \<and>
     (jrAfter r \<noteq> [] \<longrightarrow> map_of (jfTramps F) (makeName r (jfName F) False) = Some (AfterTramp (Some (jrAfter r)))))"

definition flattenSound :: "(string \<Rightarrow> bool option) \<Rightarrow> ('s, 'd) hooks \<Rightarrow> bool" where
  "flattenSound cf H \<longleftrightarrow> (\<forall>h c st. cf h = Some True \<longrightarrow>
     hcSkipCall (fst (beforeHook H h c st)) = hcSkipCall c)"

lemma trampsFit_Cons: "trampsFit F (r # rs) \<Longrightarrow> trampsFit F rs"
  by (simp add: trampsFit_def)

lemma names_differ: "''hookContext'' @ x \<noteq> ''_''" "''skip'' @ x \<noteq> ''_''" "''skip'' @ x \<noteq> ''hookContext'' @ x"
  by simp_all

lemma beforeCall_runs:
  assumes "trampsFit F (r # rs)" and "jrBefore r \<noteq> []"
  shows "callBefore H F (beforeCall F r) st = Some (enterHook H F r st)"
  using assms by (simp add: trampsFit_def callBefore_def beforeCall_def enterHook_def)

lemma callAfter_runs:
  assumes "trampsFit F (r # rs)" and "jrAfter r \<noteq> []"
  shows "callAfter H F (makeName r (jfName F) False) c st = Some (exitHook H F r c st)"
  using assms by (simp add: trampsFit_def callAfter_def exitHook_def hookName_def)

lemma exitHook_none: "jrAfter r = [] \<Longrightarrow> exitHook H F r c st = st"
  by (simp add: exitHook_def afterTrampoline_def hookName_def)

lemma enterHook_flat:
  assumes "flattenSound cf H" and "cf (jrBefore r) = Some True"
  shows "fst (snd (enterHook H F r st)) = False"
proof -
  let ?c = "\<lparr>hcParams = jfParams F, hcReturnVals = [], hcSkipCall = False, hcData = None,
    hcFuncName = jfName F, hcPackageName = packageName H\<rparr>"
  have "\<not> hcSkipCall (fst (beforeHook H (jrBefore r) ?c st))"
    using assms by (simp add: flattenSound_def)
  then show ?thesis
    by (cases "beforeHook H (jrBefore r) ?c st") (simp add: enterHook_def beforeTrampoline_def literalContext_def Let_def)
qed

lemma execStmts_tail:
  "execStmts H F (tailOf J rs) \<rho> st = execStmts H F (nested J rs) \<rho> st"
  by (simp add: tailOf_def)

lemma exec_jump:
  assumes fit: "trampsFit F (r # rs)" and ok: "ruleOkFor cf r" and flat: "flattenSound cf H"
    and tail: "\<And>\<rho> st. execStmts H F tail \<rho> st = Some (entering H F rs st)"
  shows "execStmts H F (optimizedJump cf F r tail # ss) \<rho> st =
    (case entering H F (r # rs) st of
       (st2, ds, ret) \<Rightarrow>
         if ret then Some (st2, ds, True)
         else map_option (\<lambda>(st3, ds', ret'). (st3, ds @ ds', ret')) (execStmts H F ss \<rho> st2))"
proof -
  obtain c skip st1 where e: "enterHook H F r st = (c, skip, st1)" by (cases "enterHook H F r st")
  obtain st2 ds ret where t: "entering H F rs st1 = (st2, ds, ret)" by (cases "entering H F rs st1")
  have before: "jrBefore r \<noteq> [] \<Longrightarrow> callBefore H F (beforeCall F r) st = Some (c, skip, st1)"
    by (simp add: beforeCall_runs [OF fit] e)
  have after: "jrAfter r \<noteq> [] \<Longrightarrow> callAfter H F (makeName r (jfName F) False) c st' = Some (exitHook H F r c st')" for st'
    by (rule callAfter_runs [OF fit])
  note exec = optimizedJump_def Let_def runInit_def evalCond_def declaresUsed_def bindVar_def afterCall_def
    evalContext_def before after tail e t exitHook_none
  show ?thesis
  proof (cases "jrBefore r = []")
    case True
    then have "jrAfter r \<noteq> []" and "c = literalContext F" and "\<not> skip" and "st1 = st"
      using ok e by (auto simp: ruleOkFor_def enterHook_def)
    with True show ?thesis by (simp add: exec newHookContextImpl_def literalContext_def)
  next
    case False
    show ?thesis
    proof (cases "cf (jrBefore r) = Some True")
      case True
      then have "\<not> skip" using enterHook_flat [OF flat True, of F st] e by simp
      with False True show ?thesis by (cases "jrAfter r = []") (auto simp: exec)
    next
      case no: False
      with False show ?thesis by (cases "jrAfter r = []"; cases skip) (simp_all add: exec)
    qed
  qed
qed

lemma exec_nested:
  assumes "trampsFit F rs" and "list_all (ruleOkFor cf) rs" and "flattenSound cf H"
  shows "execStmts H F (nested (optimizedJump cf F) rs @ ss) \<rho> st =
    (case entering H F rs st of
       (st2, ds, ret) \<Rightarrow>
         if ret then Some (st2, ds, True)
         else map_option (\<lambda>(st3, ds', ret'). (st3, ds @ ds', ret')) (execStmts H F ss \<rho> st2))"
  using assms(1,2)
proof (induction rs arbitrary: ss \<rho> st)
  case Nil
  then show ?case by (simp add: option.map_ident split_def)
next
  case (Cons r rs)
  from Cons.prems have fit: "trampsFit F rs" and ok: "list_all (ruleOkFor cf) rs"
    using trampsFit_Cons by auto
  have "execStmts H F (tailOf (optimizedJump cf F) rs) \<rho> st = Some (entering H F rs st)" for \<rho> st
    using Cons.IH [OF fit ok, of "[]" \<rho> st] by (auto simp: execStmts_tail split: prod.splits)
  with Cons.prems assms(3) show ?case
    by (simp add: nested_Cons exec_jump del: nested.simps entering.simps)
qed

text \<open>The rest of the body is the original function, which keeps no deferred calls here.\<close>

lemma exec_original:
  "\<exists>ret. execStmts H F (map OrigStmt body @ (if b then [EmptyStmt] else [])) \<rho> st =
     Some (runOriginal H body st, [], ret)"
  by (induction body arbitrary: st) (auto split: prod.splits)

lemma runDeferred_append:
  "runDeferred H F (xs @ ys) st = Option.bind (runDeferred H F xs st) (runDeferred H F ys)"
  by (induction xs arbitrary: st) (auto split: option.splits)

lemma deferred_wrapped:
  assumes "trampsFit F rs" and "entering H F rs st = (st2, ds, ret)"
  shows "runDeferred H F (rev ds) (if ret then st2 else runOriginal H body st2) = Some (wrapped H F body rs st)"
  using assms
proof (induction rs arbitrary: st st2 ds ret)
  case Nil
  then show ?case by simp
next
  case (Cons r rs)
  obtain c skip st1 where e: "enterHook H F r st = (c, skip, st1)" by (cases "enterHook H F r st")
  obtain st2' ds' ret' where t: "entering H F rs st1 = (st2', ds', ret')" by (cases "entering H F rs st1")
  have IH: "runDeferred H F (rev ds') (if ret' then st2' else runOriginal H body st2') = Some (wrapped H F body rs st1)"
    by (rule Cons.IH [OF trampsFit_Cons t]) (rule Cons.prems(1))
  have after: "jrAfter r \<noteq> [] \<Longrightarrow> callAfter H F (makeName r (jfName F) False) c st' = Some (exitHook H F r c st')" for st'
    by (rule callAfter_runs [OF Cons.prems(1)])
  show ?case
  proof (cases skip)
    case True
    with Cons.prems(2) e show ?thesis by auto
  next
    case False
    with Cons.prems(2) e t have "st2 = st2'" "ret = ret'"
      "ds = (if jrAfter r = [] then [] else [(makeName r (jfName F) False, c)]) @ ds'" by auto
    with IH False e show ?thesis
      by (cases "jrAfter r = []") (auto simp: runDeferred_append after exitHook_none)
  qed
qed

lemma run_instrumented:
  assumes "trampsFit F rs" and "list_all (ruleOkFor cf) rs" and "flattenSound cf H"
    and "jfBody F = instrumented (optimizedJump cf F) rs body"
  shows "runFunc H F st = Some (wrapped H F body rs st)"
proof -
  let ?orig = "map OrigStmt body @ (if rs \<noteq> [] \<and> body = [] then [EmptyStmt] else [])"
  obtain st2 ds ret where e: "entering H F rs st = (st2, ds, ret)" by (cases "entering H F rs st")
  obtain ret' where o: "execStmts H F ?orig Map.empty st2 = Some (runOriginal H body st2, [], ret')"
    using exec_original [of H F body "rs \<noteq> [] \<and> body = []" Map.empty st2] by blast
  have "execStmts H F (jfBody F) Map.empty st =
      (if ret then Some (st2, ds, True) else Some (runOriginal H body st2, ds, ret'))"
    using exec_nested [OF assms(1-3), of ?orig Map.empty st] e o
    by (simp add: assms(4) instrumented_def)
  with deferred_wrapped [OF assms(1) e, of body] show ?thesis
    by (cases ret) (simp_all add: runFunc_def)
qed

section \<open>The two passes together\<close>

lemma firstRules_new: "r \<in> set (firstRules A rs) \<Longrightarrow> jrIdentity r \<notin> A"
  by (induction rs arbitrary: A) (auto split: if_splits)

lemma firstRules_distinct: "distinct (map jrIdentity (firstRules A rs))"
proof (induction rs arbitrary: A)
  case Nil
  then show ?case by simp
next
  case (Cons r rs)
  have "jrIdentity r \<notin> set (map jrIdentity (firstRules (insert (jrIdentity r) A) rs))"
  proof
    assume "jrIdentity r \<in> set (map jrIdentity (firstRules (insert (jrIdentity r) A) rs))"
    then obtain q where "q \<in> set (firstRules (insert (jrIdentity r) A) rs)" and "jrIdentity q = jrIdentity r" by auto
    with firstRules_new show False by fastforce
  qed
  then show ?case by (simp add: Cons.IH del: set_map image_iff)
qed

lemma firstRules_subset: "set (firstRules A rs) \<subseteq> set rs"
  by (induction rs arbitrary: A) (simp, fastforce split: if_splits)

lemma map_of_keptTramps:
  assumes "distinct (map jrIdentity rs)" and "r \<in> set rs"
  shows "map_of (concat (map (keptTramps F) rs)) (makeName r (jfName F) b) =
    map_of (keptTramps F r) (makeName r (jfName F) b)"
  using assms
proof (induction rs)
  case Nil
  then show ?case by simp
next
  case (Cons q rs)
  show ?case
  proof (cases "q = r")
    case True
    then have "map_of (concat (map (keptTramps F) rs)) (makeName r (jfName F) b) = None"
      using Cons.prems keptTramps_names [of r rs F b] by (auto simp: map_of_eq_None_iff)
    with True show ?thesis by (simp add: map_add_def split: option.split)
  next
    case False
    with Cons.prems have "jrIdentity q \<noteq> jrIdentity r" by auto
    then have "map_of (keptTramps F q) (makeName r (jfName F) b) = None"
      by (auto simp: keptTramps_def makeName_eq)
    with False Cons show ?thesis by (simp add: map_add_def split: option.splits)
  qed
qed

lemma trampsFit_kept:
  assumes "distinct (map jrIdentity rs)"
  shows "trampsFit (F\<lparr>jfBody := b, jfTramps := concat (map (keptTramps F) rs), jfJumps := js\<rparr>) rs"
  using map_of_keptTramps [OF assms, of _ F True] map_of_keptTramps [OF assms, of _ F False]
  by (simp add: trampsFit_def) (simp add: keptTramps_def makeName_eq)

definition pristine :: "jfile \<Rightarrow> nat list \<Rightarrow> bool" where
  "pristine F body \<longleftrightarrow> jfBody F = map OrigStmt body \<and> jfTramps F = [] \<and> jfJumps F = []"

definition usableRules :: "(string \<Rightarrow> bool option) \<Rightarrow> jrule list \<Rightarrow> bool" where
  "usableRules cf rs \<longleftrightarrow> list_all (ruleOkFor cf) rs"

lemma applyFuncRules_pristine:
  assumes "pristine F body"
  shows "applyFuncRules {} rs F = Some (F\<lparr>jfBody := instrumented (plainJump F) (firstRules {} rs) body,
     jfTramps := concat (map (trampsOf F) (firstRules {} rs)), jfJumps := firstRules {} rs\<rparr>)"
proof -
  have "F = F\<lparr>jfBody := instrumented (plainJump F) [] body, jfTramps := concat (map (trampsOf F) []), jfJumps := []\<rparr>"
    using assms by (simp add: pristine_def instrumented_def)
  then show ?thesis using applyFuncRules_instrumented [of "[]" rs F body] by simp
qed

lemma optimizeTJumps_instrumented:
  assumes "distinct (map jrIdentity rs)" and "list_all (ruleOkFor cf) rs"
  shows "optimizeTJumps cf (F\<lparr>jfBody := instrumented (plainJump F) rs body,
      jfTramps := concat (map (trampsOf F) rs), jfJumps := rs\<rparr>) =
    Some (F\<lparr>jfBody := instrumented (optimizedJump cf F) rs body,
      jfTramps := concat (map (keptTramps F) rs), jfJumps := rs\<rparr>)"
proof -
  have plain: "mixedJump cf F [] = plainJump F" by (simp add: mixedJump_def)
  have "nested (mixedJump cf F qs) rs = nested (optimizedJump cf F) rs" if "set rs \<subseteq> set qs" for qs
    using that by (induction rs) (auto simp: mixedJump_def)
  then have "instrumented (mixedJump cf F rs) rs body = instrumented (optimizedJump cf F) rs body"
    by (simp add: instrumented_def)
  with optimizeAll_mixed [where ds="[]" and ts=rs and cf=cf and F=F and body=body and js=rs] assms plain show ?thesis
    by (simp add: optimizeTJumps_def)
qed

lemma hooks_file:
  fixes F b t j
  defines "F' \<equiv> F\<lparr>jfBody := b, jfTramps := t, jfJumps := j\<rparr>"
  shows "enterHook H F' r st = enterHook H F r st" and "exitHook H F' r c st = exitHook H F r c st"
  by (simp_all add: F'_def enterHook_def exitHook_def beforeTrampoline_def afterTrampoline_def
      literalContext_def split: option.split)

lemma wrapped_file:
  "wrapped H (F\<lparr>jfBody := b, jfTramps := t, jfJumps := j\<rparr>) body rs st = wrapped H F body rs st"
  by (induction rs arbitrary: st) (simp_all add: hooks_file split: prod.split)

lemma optimized_file:
  assumes "pristine F body" and "usableRules cf rs"
  shows "Option.bind (applyFuncRules {} rs F) (optimizeTJumps cf) =
    Some (F\<lparr>jfBody := instrumented (optimizedJump cf F) (firstRules {} rs) body,
      jfTramps := concat (map (keptTramps F) (firstRules {} rs)), jfJumps := firstRules {} rs\<rparr>)"
proof -
  have "list_all (ruleOkFor cf) (firstRules {} rs)"
    using assms(2) firstRules_subset [of "{}" rs] by (auto simp: usableRules_def list_all_iff)
  then show ?thesis
    by (simp add: applyFuncRules_pristine [OF assms(1)] optimizeTJumps_instrumented firstRules_distinct)
qed

lemma instrument_and_run:
  assumes "pristine F body" and "usableRules cf rs" and "flattenSound cf H"
  shows "Option.bind (Option.bind (applyFuncRules {} rs F) (optimizeTJumps cf)) (\<lambda>F'. runFunc H F' st) =
    Some (wrapped H F body (firstRules {} rs) st)"
proof -
  let ?F = "F\<lparr>jfBody := instrumented (optimizedJump cf F) (firstRules {} rs) body,
      jfTramps := concat (map (keptTramps F) (firstRules {} rs)), jfJumps := firstRules {} rs\<rparr>"
  have "list_all (ruleOkFor cf) (firstRules {} rs)"
    using assms(2) firstRules_subset [of "{}" rs] by (auto simp: usableRules_def list_all_iff)
  then have "runFunc H ?F st = Some (wrapped H ?F body (firstRules {} rs) st)"
    using assms(3)
    by (intro run_instrumented trampsFit_kept firstRules_distinct) (simp_all add: optimizedJump_file)
  then show ?thesis by (simp add: optimized_file [OF assms(1,2)] wrapped_file)
qed

text \<open>C24: instrumenting a function and optimising its jumps succeeds, whatever the rules, and the
  result compiles and does what the rules ask for: the original function wrapped in the hooks of
  the rules, the first rule outermost, each rule identity once, a hook that sets skipCall leaving
  out everything inside it but its own After hook. The Before hooks that \<open>canFlattenTJump\<close> accepts
  are assumed not to change skipCall.\<close>

theorem instrumented_function_wraps:
  assumes "pristine F body" and "usableRules cf rs" and "flattenSound cf H"
  shows "Option.bind (Option.bind (applyFuncRules {} rs F) (optimizeTJumps cf)) (\<lambda>F'. runFunc H F' st) =
    Some (wrapped H F body (firstRules {} rs) st)"
  by (rule instrument_and_run [OF assms])

definition demoHooks :: "(string list, unit) hooks" where
  "demoHooks = \<lparr>hookGuard = (\<lambda>h s. True),
     beforeHook = (\<lambda>h c s. (c\<lparr>hcSkipCall := hcSkipCall c \<or> h = ''Skip''\<rparr>, s @ [h], False)),
     afterHook = (\<lambda>h c s. s @ [h]),
     original = (\<lambda>n s. (s @ [''original''], True)), packageName = ''p''\<rparr>"

definition demoFile :: jfile where
  "demoFile = \<lparr>jfName = ''F'', jfParams = [''a''], jfResults = [''e''], jfBody = [OrigStmt 0],
     jfTramps = [], jfJumps = []\<rparr>"

definition demoRules :: "jrule list" where
  "demoRules = [\<lparr>jrIdentity = ''1'', jrBefore = ''B'', jrAfter = ''A''\<rparr>,
     \<lparr>jrIdentity = ''2'', jrBefore = [], jrAfter = ''C''\<rparr>,
     \<lparr>jrIdentity = ''1'', jrBefore = ''B'', jrAfter = ''A''\<rparr>,
     \<lparr>jrIdentity = ''3'', jrBefore = ''Skip'', jrAfter = []\<rparr>]"

definition afterOnlyRule :: jrule where
  "afterOnlyRule = \<lparr>jrIdentity = ''2'', jrBefore = [], jrAfter = ''C''\<rparr>"

definition demoFlatten :: "string \<Rightarrow> bool option" where
  "demoFlatten h = Some (h = ''B'')"

theorem instrumented_function_wraps_witness:
  "pristine demoFile [0] \<and> usableRules demoFlatten demoRules \<and> flattenSound demoFlatten demoHooks \<and>
   Option.bind (Option.bind (applyFuncRules {} demoRules demoFile) (optimizeTJumps demoFlatten))
     (\<lambda>F'. runFunc demoHooks F' []) = Some [''B'', ''Skip'', ''C'', ''A'']"
proof -
  have 1: "pristine demoFile [0]" by (simp add: pristine_def demoFile_def)
  have 2: "usableRules demoFlatten demoRules"
    by (simp add: usableRules_def demoRules_def ruleOkFor_def demoFlatten_def)
  have 3: "flattenSound demoFlatten demoHooks" by (simp add: flattenSound_def demoFlatten_def demoHooks_def)
  have "wrapped demoHooks demoFile [0] (firstRules {} demoRules) [] = [''B'', ''Skip'', ''C'', ''A'']"
    by (simp add: demoRules_def demoHooks_def enterHook_def exitHook_def beforeTrampoline_def
        afterTrampoline_def hookName_def Let_def)
  with instrumented_function_wraps [OF 1 2 3, of "[]"] 1 2 3 show ?thesis by simp
qed

text \<open>An After hook without a Before hook is called with a context whose function and package
  names are empty, although the context of a function with a Before hook names both.\<close>

theorem after_only_context:
  assumes "pristine F body" and "usableRules cf [r]" and "flattenSound cf H"
    and "jrBefore r = []" and "\<And>st. hookGuard H (jrAfter r) st"
  shows "Option.bind (Option.bind (applyFuncRules {} [r] F) (optimizeTJumps cf)) (\<lambda>F'. runFunc H F' st) =
    Some (afterHook H (jrAfter r)
      \<lparr>hcParams = jfParams F, hcReturnVals = jfResults F, hcSkipCall = False, hcData = None,
       hcFuncName = [], hcPackageName = []\<rparr> (runOriginal H body st))"
proof -
  have "jrAfter r \<noteq> []" using assms(2,4) by (simp add: usableRules_def ruleOkFor_def)
  with instrument_and_run [OF assms(1-3), of st] assms(4,5) show ?thesis
    by (simp add: enterHook_def exitHook_def afterTrampoline_def literalContext_def hookName_def)
qed

theorem after_only_context_witness:
  "Option.bind (Option.bind (applyFuncRules {} [afterOnlyRule] demoFile) (optimizeTJumps demoFlatten))
     (\<lambda>F'. runFunc demoHooks F' []) =
   Some (afterHook demoHooks ''C''
      \<lparr>hcParams = [''a''], hcReturnVals = [''e''], hcSkipCall = False, hcData = None,
       hcFuncName = [], hcPackageName = []\<rparr> [''original''])"
proof -
  note r = afterOnlyRule_def
  let ?r = afterOnlyRule
  have 1: "pristine demoFile [0]" by (simp add: pristine_def demoFile_def)
  have 2: "usableRules demoFlatten [?r]" by (simp add: usableRules_def r ruleOkFor_def)
  have 3: "flattenSound demoFlatten demoHooks" by (simp add: flattenSound_def demoFlatten_def demoHooks_def)
  have 4: "jrBefore ?r = []" and 5: "hookGuard demoHooks (jrAfter ?r) st" for st
    by (simp_all add: r demoHooks_def)
  from after_only_context [OF 1 2 3 4 5, of "[]"] show ?thesis
    by (simp add: r demoFile_def demoHooks_def)
qed

end
