(* ===== verification/Hook_Analysis.thy ===== *)
theory Hook_Analysis
  imports Go_Syntax Goflags
begin

text \<open>
  Hook functions as the optimiser sees them (\<open>tool/internal/instrument/trampoline.go\<close> and
  \<open>optimize.go\<close>): finding the function of a hook in the package of its rule, and deciding whether
  the jump of a Before hook can be flattened.

  The tree of a function keeps identifiers and selectors apart; every other node has a kind and
  its children in the order \<open>dst.Inspect\<close> visits them. The files of a rule and their parsed form
  are parameters.

  Shown: whatever meaning the nodes of Go have, a hook that passes the check means the same for
  every SetSkipCall and every way to use the context as a value; the cache of parsed files changes
  no result.
\<close>

section \<open>The tree of a hook function\<close>

datatype hookNode =
    HIdent string
  | HSelector hookNode string
  | HNode nat "hookNode list"

text \<open>The first walk: is \<open>SetSkipCall\<close> selected on the parameter anywhere?\<close>

fun selectsOn :: "string \<Rightarrow> string \<Rightarrow> hookNode \<Rightarrow> bool" where
  "selectsOn x m (HIdent y) = False"
| "selectsOn x m (HSelector e sel) = ((e = HIdent x \<and> sel = m) \<or> selectsOn x m e)"
| "selectsOn x m (HNode k ns) = list_ex (selectsOn x m) ns"

text \<open>
  The second walk, which does not descend into a selector on the parameter. The selected name is an
  identifier node as well.
\<close>

fun escapes :: "string \<Rightarrow> hookNode \<Rightarrow> bool" where
  "escapes x (HIdent y) = (y = x)"
| "escapes x (HSelector e sel) = (if e = HIdent x then False else escapes x e \<or> sel = x)"
| "escapes x (HNode k ns) = list_ex (escapes x) ns"

text \<open>
  The parameters of the hook (\<open>None\<close> when the type or its parameter list is missing), all of the
  function, and its body.
\<close>

record hookFunc =
  hfParams :: "goField list option"
  hfAll :: hookNode
  hfBody :: hookNode

definition canFlattenTJump :: "hookFunc \<Rightarrow> bool" where
  "canFlattenTJump h =
     (case hfParams h of
        None \<Rightarrow> True
      | Some [] \<Rightarrow> True
      | Some (f # _) \<Rightarrow>
          (case fst f of
             [] \<Rightarrow> True
           | x # _ \<Rightarrow>
               if selectsOn x ''SetSkipCall'' (hfAll h) then False
               else if x = ''_'' then True
               else \<not> escapes x (hfBody h)))"

section \<open>What the check guarantees\<close>

text \<open>
  A meaning of the tree composes the meanings of its parts: of the other identifiers, of the
  context used as a value, of a method selected on the context, of other selections and of nodes.
  Nodes may get any meaning, so every semantics of Go that is compositional is one of these.
\<close>

record 'v nodeSem =
  nsIdent :: "string \<Rightarrow> 'v"
  nsContext :: 'v
  nsMethod :: "string \<Rightarrow> 'v"
  nsSelect :: "'v \<Rightarrow> string \<Rightarrow> 'v"
  nsNode :: "nat \<Rightarrow> 'v list \<Rightarrow> 'v"

fun meaning :: "'v nodeSem \<Rightarrow> string option \<Rightarrow> hookNode \<Rightarrow> 'v" where
  "meaning S x (HIdent y) = (if x = Some y then nsContext S else nsIdent S y)"
| "meaning S x (HSelector e sel) =
     (case e of
        HIdent y \<Rightarrow> if x = Some y then nsMethod S sel else nsSelect S (nsIdent S y) sel
      | _ \<Rightarrow> nsSelect S (meaning S x e) sel)"
| "meaning S x (HNode k ns) = nsNode S k (map (meaning S x) ns)"

text \<open>The name the body can use for the context, if it has one\<close>

definition contextName :: "hookFunc \<Rightarrow> string option" where
  "contextName h = (case hfParams h of
     Some (f # _) \<Rightarrow> (case fst f of x # _ \<Rightarrow> if x = ''_'' then None else Some x | [] \<Rightarrow> None)
   | _ \<Rightarrow> None)"

fun partOf :: "hookNode \<Rightarrow> hookNode \<Rightarrow> bool" where
  "partOf n (HIdent y) = (n = HIdent y)"
| "partOf n (HSelector e sel) = (n = HSelector e sel \<or> partOf n e)"
| "partOf n (HNode k ns) = (n = HNode k ns \<or> list_ex (partOf n) ns)"

lemma selectsOn_part: "partOf n t \<Longrightarrow> selectsOn x m n \<Longrightarrow> selectsOn x m t"
  by (induction t rule: hookNode.induct) (auto simp: list_ex_iff)

lemma meaning_unused:
  assumes "\<not> selectsOn x m t" and "\<not> escapes x t"
  shows "meaning (S\<lparr>nsContext := v, nsMethod := (nsMethod S)(m := f)\<rparr>) (Some x) t = meaning S (Some x) t"
  using assms
proof (induction t)
  case (HIdent y)
  then show ?case by simp
next
  case (HSelector e sel)
  then show ?case by (cases e) (auto split: if_splits)
next
  case (HNode k ns)
  then have "map (meaning (S\<lparr>nsContext := v, nsMethod := (nsMethod S)(m := f)\<rparr>) (Some x)) ns = map (meaning S (Some x)) ns"
    by (auto simp: list_ex_iff simp del: fun_upd_apply)
  then show ?case by (simp del: map_eq_conv fun_upd_apply)
qed

lemma meaning_unnamed:
  "meaning (S\<lparr>nsContext := v, nsMethod := g\<rparr>) None t = meaning S None t"
proof (induction t)
  case (HIdent y)
  then show ?case by simp
next
  case (HSelector e sel)
  then show ?case by (cases e) auto
next
  case (HNode k ns)
  then have "map (meaning (S\<lparr>nsContext := v, nsMethod := g\<rparr>) None) ns = map (meaning S None) ns"
    by auto
  then show ?case by (simp del: map_eq_conv fun_upd_apply)
qed

text \<open>C25: a hook that \<open>canFlattenTJump\<close> accepts cannot tell what SetSkipCall does nor what the context
  is as a value: in every compositional semantics its body has the same meaning for all of them.\<close>

theorem canFlatten_noninterference:
  assumes "canFlattenTJump h" and "partOf (hfBody h) (hfAll h)"
  shows "meaning (S\<lparr>nsContext := v, nsMethod := (nsMethod S)(''SetSkipCall'' := f)\<rparr>) (contextName h) (hfBody h) =
    meaning S (contextName h) (hfBody h)"
proof (cases "contextName h")
  case None
  then show ?thesis by (simp only: meaning_unnamed)
next
  case (Some x)
  then have "\<not> selectsOn x ''SetSkipCall'' (hfAll h)" and "\<not> escapes x (hfBody h)"
    using assms(1) by (auto simp: contextName_def canFlattenTJump_def split: option.splits list.splits if_splits)
  with assms(2) show ?thesis
    by (simp only: Some) (rule meaning_unused, use selectsOn_part in blast)
qed

text \<open>A hook \<open>func B(ctx HookContext, n int) { ctx.SetData(n); g(n) }\<close> and a counting meaning\<close>

definition dataHook :: hookFunc where
  "dataHook = (let body = HNode 0 [HNode 1 [HSelector (HIdent ''ctx'') ''SetData'', HIdent ''n''], HNode 1 [HIdent ''g'', HIdent ''n'']]
     in \<lparr>hfParams = Some [([''ctx''], Ident [] ''HookContext''), ([''n''], Ident [] ''int'')],
         hfAll = HNode 2 [HIdent ''B'', body], hfBody = body\<rparr>)"

definition sumSem :: "nat nodeSem" where
  "sumSem = \<lparr>nsIdent = length, nsContext = 0, nsMethod = length, nsSelect = (\<lambda>v s. v), nsNode = (\<lambda>k vs. k + sum_list vs)\<rparr>"

theorem canFlatten_noninterference_witness:
  "canFlattenTJump dataHook \<and>
   meaning (sumSem\<lparr>nsContext := 50, nsMethod := (nsMethod sumSem)(''SetSkipCall'' := 90)\<rparr>)
     (contextName dataHook) (hfBody dataHook) = 12"
proof -
  have c: "canFlattenTJump dataHook" by (simp add: canFlattenTJump_def dataHook_def Let_def)
  have p: "partOf (hfBody dataHook) (hfAll dataHook)" by (simp add: dataHook_def Let_def)
  have "meaning sumSem (contextName dataHook) (hfBody dataHook) = 12"
    by (simp add: dataHook_def Let_def contextName_def sumSem_def)
  with canFlatten_noninterference [OF c p, of sumSem 90 50] c show ?thesis by simp
qed

section \<open>Finding the function of a hook\<close>

text \<open>
  The files of the package of a rule, as \<open>util.ListFiles\<close> lists them, and the parser are
  parameters; the files parsed so far are the state.
\<close>

record hookEnv =
  heFiles :: "string list option"
  heParse :: "string \<Rightarrow> dstFile option"

datatype hookError = ListError | ParseError string | NoHookFound "string list" | HookMissing string

type_synonym hookCache = "string \<Rightarrow> dstFile option"

definition isHookDefined :: "dstFile \<Rightarrow> string \<Rightarrow> string \<Rightarrow> bool" where
  "isHookDefined root before after \<longleftrightarrow>
     (before \<noteq> [] \<longrightarrow> findFuncDeclWithoutRecv root before \<noteq> None) \<and>
     (after \<noteq> [] \<longrightarrow> findFuncDeclWithoutRecv root after \<noteq> None)"

definition parseHookFileCached :: "hookEnv \<Rightarrow> string \<Rightarrow> hookCache \<Rightarrow> (hookError + dstFile) \<times> hookCache" where
  "parseHookFileCached E path cache =
     (case cache path of
        Some root \<Rightarrow> (Inr root, cache)
      | None \<Rightarrow>
          (case heParse E path of
             None \<Rightarrow> (Inl (ParseError path), cache)
           | Some root \<Rightarrow> (Inr root, cache(path \<mapsto> root))))"

fun searchHookFiles ::
    "hookEnv \<Rightarrow> string \<Rightarrow> string \<Rightarrow> string list \<Rightarrow> hookCache \<Rightarrow> (hookError + (string \<times> dstFile) option) \<times> hookCache" where
  "searchHookFiles E before after [] cache = (Inr None, cache)"
| "searchHookFiles E before after (path # files) cache =
     (if \<not> isGoFile path then searchHookFiles E before after files cache
      else case parseHookFileCached E path cache of
             (Inl err, cache') \<Rightarrow> (Inl err, cache')
           | (Inr root, cache') \<Rightarrow>
               if isHookDefined root before after then (Inr (Some (path, root)), cache')
               else searchHookFiles E before after files cache')"

definition findHookFile ::
    "hookEnv \<Rightarrow> string \<Rightarrow> string \<Rightarrow> hookCache \<Rightarrow> (hookError + (string \<times> dstFile)) \<times> hookCache" where
  "findHookFile E before after cache =
     (case heFiles E of
        None \<Rightarrow> (Inl ListError, cache)
      | Some files \<Rightarrow>
          (case searchHookFiles E before after files cache of
             (Inl err, cache') \<Rightarrow> (Inl err, cache')
           | (Inr None, cache') \<Rightarrow> (Inl (NoHookFound files), cache')
           | (Inr (Some fr), cache') \<Rightarrow> (Inr fr, cache')))"

definition getHookFunc ::
    "hookEnv \<Rightarrow> string \<Rightarrow> string \<Rightarrow> bool \<Rightarrow> hookCache \<Rightarrow> (hookError + funcDecl) \<times> hookCache" where
  "getHookFunc E before after isBefore cache =
     (case findHookFile E before after cache of
        (Inl err, cache') \<Rightarrow> (Inl err, cache')
      | (Inr (path, root), cache') \<Rightarrow>
          (case findFuncDeclWithoutRecv root (if isBefore then before else after) of
             None \<Rightarrow> (Inl (HookMissing path), cache')
           | Some fn \<Rightarrow> (Inr fn, cache')))"

text \<open>A cache is sound when it holds only what the parser returns.\<close>

definition cacheSound :: "hookEnv \<Rightarrow> hookCache \<Rightarrow> bool" where
  "cacheSound E cache \<longleftrightarrow> (\<forall>f r. cache f = Some r \<longrightarrow> heParse E f = Some r)"

text \<open>The search without a cache: the first Go file that defines the hooks, if all before it parse\<close>

fun firstDefining :: "hookEnv \<Rightarrow> string \<Rightarrow> string \<Rightarrow> string list \<Rightarrow> hookError + (string \<times> dstFile) option" where
  "firstDefining E before after [] = Inr None"
| "firstDefining E before after (path # files) =
     (case heParse E path of
        None \<Rightarrow> Inl (ParseError path)
      | Some root \<Rightarrow>
          if isHookDefined root before after then Inr (Some (path, root)) else firstDefining E before after files)"

lemma parseHookFileCached_sound:
  assumes "cacheSound E cache"
  shows "fst (parseHookFileCached E path cache) =
      (case heParse E path of None \<Rightarrow> Inl (ParseError path) | Some root \<Rightarrow> Inr root)"
    and "cacheSound E (snd (parseHookFileCached E path cache))"
  using assms by (auto simp: parseHookFileCached_def cacheSound_def split: option.splits)

lemma searchHookFiles_sound:
  assumes "cacheSound E cache"
  shows "fst (searchHookFiles E before after files cache) = firstDefining E before after (filter isGoFile files) \<and>
    cacheSound E (snd (searchHookFiles E before after files cache))"
  using assms
proof (induction files arbitrary: cache)
  case Nil
  then show ?case by simp
next
  case (Cons path files)
  obtain r cache' where p: "parseHookFileCached E path cache = (r, cache')"
    by (cases "parseHookFileCached E path cache")
  with parseHookFileCached_sound [OF Cons.prems, of path]
  have "r = (case heParse E path of None \<Rightarrow> Inl (ParseError path) | Some root \<Rightarrow> Inr root)"
    and "cacheSound E cache'" by simp_all
  with Cons p show ?case by (cases "heParse E path") auto
qed

text \<open>With a sound cache, \<open>getHookFunc\<close> finds the hook in the first Go file of the rule's package that
  defines all hooks of the rule, and leaves the cache sound; a hook of that rule is never missing
  from the file found.\<close>

theorem getHookFunc_spec:
  assumes "cacheSound E cache" and "heFiles E = Some files"
    and "(if isBefore then before else after) \<noteq> []"
  shows "fst (getHookFunc E before after isBefore cache) =
      (case firstDefining E before after (filter isGoFile files) of
         Inl err \<Rightarrow> Inl err
       | Inr None \<Rightarrow> Inl (NoHookFound files)
       | Inr (Some (path, root)) \<Rightarrow>
           Inr (the (findFuncDeclWithoutRecv root (if isBefore then before else after)))) \<and>
    cacheSound E (snd (getHookFunc E before after isBefore cache))"
proof -
  have defined: "isHookDefined root before after"
    if "firstDefining E before after fs = Inr (Some (path, root))" for fs path root
    using that by (induction fs) (auto split: option.splits if_splits)
  obtain r cache' where s: "searchHookFiles E before after files cache = (r, cache')"
    by (cases "searchHookFiles E before after files cache")
  with searchHookFiles_sound [OF assms(1), of before after files]
  have r: "r = firstDefining E before after (filter isGoFile files)" and c: "cacheSound E cache'" by simp_all
  show ?thesis
  proof (cases r)
    case (Inl err)
    with r [symmetric] s c assms(2) show ?thesis by (simp add: getHookFunc_def findHookFile_def)
  next
    case (Inr res)
    show ?thesis
    proof (cases res)
      case None
      with Inr r [symmetric] s c assms(2) show ?thesis by (simp add: getHookFunc_def findHookFile_def)
    next
      case (Some fr)
      obtain path root where fr: "fr = (path, root)" by (cases fr)
      with Inr Some r defined have "isHookDefined root before after" by simp
      then obtain fn where "findFuncDeclWithoutRecv root (if isBefore then before else after) = Some fn"
        using assms(3) by (auto simp: isHookDefined_def split: if_splits)
      with Inr Some fr r [symmetric] s c assms(2) show ?thesis
        by (simp add: getHookFunc_def findHookFile_def)
    qed
  qed
qed

definition demoHookFile :: dstFile where
  "demoHookFile = \<lparr>fileName = ''h.go'', fileDecls = [FuncDecl \<lparr>fdName = ''B'', fdRecv = None,
      fdType = \<lparr>ftParams = None, ftResults = None\<rparr>, fdStart = []\<rparr>],
     fileImports = [], fileStart = [], fileTree = DNode OtherNode [] [] []\<rparr>"

definition demoHookEnv :: hookEnv where
  "demoHookEnv = \<lparr>heFiles = Some [''README.md'', ''h.go''],
     heParse = (\<lambda>f. if f = ''h.go'' then Some demoHookFile else None)\<rparr>"

theorem getHookFunc_spec_witness:
  "map_sum id fdName (fst (getHookFunc demoHookEnv ''B'' [] True Map.empty)) = Inr ''B''"
proof -
  have 1: "cacheSound demoHookEnv Map.empty" by (simp add: cacheSound_def)
  have 2: "heFiles demoHookEnv = Some [''README.md'', ''h.go'']" by (simp add: demoHookEnv_def)
  have f: "filter isGoFile [''README.md'', ''h.go''] = [''h.go'']" by code_simp
  have B: "findFuncDeclWithoutRecv demoHookFile ''B'' = Some \<lparr>fdName = ''B'', fdRecv = None,
      fdType = \<lparr>ftParams = None, ftResults = None\<rparr>, fdStart = []\<rparr>"
    by code_simp
  have "firstDefining demoHookEnv ''B'' [] [''h.go''] = Inr (Some (''h.go'', demoHookFile))"
    by (simp add: demoHookEnv_def isHookDefined_def B)
  with getHookFunc_spec [OF 1 2, of True "''B''" "[]"] f B show ?thesis by simp
qed

end
