(* ===== verification/Hook_Types.thy ===== *)
theory Hook_Types
  imports Go_Syntax
begin

text \<open>
  The types of \<open>tool/internal/instrument/trampoline.go\<close>: the normalized names that the check of
  hook signatures compares, the check itself, and the widening of types with type parameters.

  A type expression keeps every form the code tells apart. A field list is a list of fields, each
  with its names and its type; a nil list is the empty one here.

  Shown: a parameter type is widened to \<open>interface{}\<close> exactly when instantiating the type parameters
  can change it; the hook a user writes for a function is accepted; pointers and package
  qualifiers play no part in the check.
\<close>

section \<open>Type expressions\<close>

datatype chanDir = SendDir | RecvDir | BothDir

datatype arrayLen = NoLen | LitLen string | IdentLen string | OtherLen

datatype goType =
    TIdent string
  | TSelector string string
  | TStar goType
  | TParen goType
  | TArray arrayLen goType
  | TEllipsis goType
  | TMap goType goType
  | TChan chanDir goType
  | TInterface "(string list \<times> goType) list"
  | TStruct "(string list \<times> goType) list"
  | TFunc "(string list \<times> goType) list" "(string list \<times> goType) list"
  | TIndex goType goType
  | TIndexList goType "goType list"
  | TTilde goType
  | TUnion goType goType
  | TOther string

type_synonym typeField = "string list \<times> goType"

section \<open>Normalized names\<close>

definition isFuncType :: "goType \<Rightarrow> bool" where
  "isFuncType t = (case t of TFunc _ _ \<Rightarrow> True | _ \<Rightarrow> False)"

definition arrayPrefix :: "arrayLen \<Rightarrow> string" where
  "arrayPrefix l = ''['' @ (case l of NoLen \<Rightarrow> [] | LitLen v \<Rightarrow> v | IdentLen n \<Rightarrow> n | OtherLen \<Rightarrow> []) @ '']''"

definition chanPrefix :: "chanDir \<Rightarrow> string" where
  "chanPrefix d = (case d of SendDir \<Rightarrow> ''chan<- '' | RecvDir \<Rightarrow> ''<-chan '' | BothDir \<Rightarrow> ''chan '')"

fun baseTypeName :: "goType \<Rightarrow> string"
  and fieldListTypes :: "typeField list \<Rightarrow> string list"
  and structParts :: "typeField list \<Rightarrow> string list"
  and interfaceParts :: "typeField list \<Rightarrow> string list"
  and indexParts :: "goType list \<Rightarrow> string list" where
  "baseTypeName (TIdent n) = (if n = ''any'' then ''interface{}'' else n)"
| "baseTypeName (TStar x) = baseTypeName x"
| "baseTypeName (TSelector p n) = n"
| "baseTypeName (TArray l e) = arrayPrefix l @ baseTypeName e"
| "baseTypeName (TEllipsis e) = ''...'' @ baseTypeName e"
| "baseTypeName (TMap k v) = ''map['' @ baseTypeName k @ '']'' @ baseTypeName v"
| "baseTypeName (TChan d v) = chanPrefix d @ baseTypeName v"
| "baseTypeName (TInterface ms) =
     (if ms = [] then ''interface{}'' else ''interface{'' @ joinWith ''; '' (interfaceParts ms) @ ''}'')"
| "baseTypeName (TStruct fs) =
     (if fs = [] then ''struct{}'' else ''struct{'' @ joinWith ''; '' (structParts fs) @ ''}'')"
| "baseTypeName (TFunc ps rs) =
     (let results = fieldListTypes rs
      in ''func('' @ joinWith '', '' (fieldListTypes ps) @ '')'' @
         (case results of
            [] \<Rightarrow> []
          | [r] \<Rightarrow> '' '' @ r
          | _ \<Rightarrow> '' ('' @ joinWith '', '' results @ '')''))"
| "baseTypeName (TIndex x i) = baseTypeName x @ ''['' @ baseTypeName i @ '']''"
| "baseTypeName (TIndexList x is) = baseTypeName x @ ''['' @ joinWith '', '' (indexParts is) @ '']''"
| "baseTypeName (TParen x) = []"
| "baseTypeName (TTilde x) = []"
| "baseTypeName (TUnion x y) = []"
| "baseTypeName (TOther s) = []"
| "fieldListTypes [] = []"
| "fieldListTypes ((ns, t) # fs) = replicate (max 1 (length ns)) (baseTypeName t) @ fieldListTypes fs"
| "structParts [] = []"
| "structParts ((ns, t) # fs) =
     (if ns = [] then [baseTypeName t] else map (\<lambda>n. n @ '' '' @ baseTypeName t) ns) @ structParts fs"
| "interfaceParts [] = []"
| "interfaceParts ((ns, t) # ms) =
     (if ns = [] then [baseTypeName t]
      else map (\<lambda>n. n @ (if isFuncType t then trimPrefix (baseTypeName t) ''func'' else baseTypeName t)) ns)
     @ interfaceParts ms"
| "indexParts [] = []"
| "indexParts (t # ts) = baseTypeName t # indexParts ts"

definition isAnyOrInterface :: "string \<Rightarrow> bool" where
  "isAnyOrInterface s \<longleftrightarrow> s = ''any'' \<or> s = ''interface{}''"

definition sliceOrEllipsisElt :: "string \<Rightarrow> string option" where
  "sliceOrEllipsisElt s =
     (case cutPrefix s ''[]'' of Some e \<Rightarrow> Some e | None \<Rightarrow> cutPrefix s ''...'')"

definition matchBaseType :: "string \<Rightarrow> string \<Rightarrow> bool" where
  "matchBaseType trampBase hookBase =
     (if isAnyOrInterface hookBase then True
      else if trampBase \<noteq> [] \<and> trampBase = hookBase then True
      else case (sliceOrEllipsisElt trampBase, sliceOrEllipsisElt hookBase) of
             (Some tElt, Some hElt) \<Rightarrow> tElt = hElt \<or> isAnyOrInterface hElt
           | _ \<Rightarrow> False)"

section \<open>Checking a hook declaration\<close>

datatype hookDeclError =
    ParamCount nat nat
  | FirstParam string
  | ParamMismatch nat string string

fun checkParams :: "nat \<Rightarrow> goType list \<Rightarrow> goType list \<Rightarrow> hookDeclError option" where
  "checkParams i (t # ts) (h # hs) =
     (if matchBaseType (baseTypeName t) (baseTypeName h) then checkParams (Suc i) ts hs
      else Some (ParamMismatch i (baseTypeName t) (baseTypeName h)))"
| "checkParams i _ _ = None"

definition paramTypes :: "typeField list \<Rightarrow> goType list" where
  "paramTypes fs = map snd (concat (map splitField fs))"

text \<open>The parameters of the trampoline and of the hook; \<open>None\<close> is success.\<close>

definition checkHookDecl :: "typeField list \<Rightarrow> typeField list \<Rightarrow> bool \<Rightarrow> hookDeclError option" where
  "checkHookDecl trampParams hookParams before =
     (let tramp = paramTypes trampParams; hook = paramTypes hookParams
      in if before then
           (if length hook \<noteq> length tramp + 1 then Some (ParamCount (length tramp + 1) (length hook))
            else if baseTypeName (hd hook) \<noteq> ''HookContext'' then Some (FirstParam (baseTypeName (hd hook)))
            else checkParams 1 tramp (tl hook))
         else
           (if length hook \<noteq> length tramp then Some (ParamCount (length tramp) (length hook))
            else checkParams 0 tramp hook))"

section \<open>Type parameters\<close>

fun containsTypeParameter :: "goType \<Rightarrow> string list \<Rightarrow> bool"
  and containsInFields :: "typeField list \<Rightarrow> string list \<Rightarrow> bool"
  and containsInExprs :: "goType list \<Rightarrow> string list \<Rightarrow> bool" where
  "containsTypeParameter (TIdent n) tps = (n \<in> set tps)"
| "containsTypeParameter (TStar x) tps = containsTypeParameter x tps"
| "containsTypeParameter (TArray l e) tps = containsTypeParameter e tps"
| "containsTypeParameter (TMap k v) tps = (containsTypeParameter k tps \<or> containsTypeParameter v tps)"
| "containsTypeParameter (TChan d v) tps = containsTypeParameter v tps"
| "containsTypeParameter (TEllipsis e) tps = containsTypeParameter e tps"
| "containsTypeParameter (TIndex x i) tps = (containsTypeParameter x tps \<or> containsTypeParameter i tps)"
| "containsTypeParameter (TIndexList x is) tps = (containsTypeParameter x tps \<or> containsInExprs is tps)"
| "containsTypeParameter (TParen x) tps = containsTypeParameter x tps"
| "containsTypeParameter (TStruct fs) tps = containsInFields fs tps"
| "containsTypeParameter (TInterface ms) tps = containsInFields ms tps"
| "containsTypeParameter (TFunc ps rs) tps = (containsInFields ps tps \<or> containsInFields rs tps)"
| "containsTypeParameter (TSelector p n) tps = False"
| "containsTypeParameter (TTilde x) tps = False"
| "containsTypeParameter (TUnion x y) tps = False"
| "containsTypeParameter (TOther s) tps = False"
| "containsInFields [] tps = False"
| "containsInFields ((ns, t) # fs) tps = (containsTypeParameter t tps \<or> containsInFields fs tps)"
| "containsInExprs [] tps = False"
| "containsInExprs (t # ts) tps = (containsTypeParameter t tps \<or> containsInExprs ts tps)"

definition replaceTypeParamsWithAny :: "goType \<Rightarrow> string list \<Rightarrow> goType" where
  "replaceTypeParamsWithAny t tps = (if containsTypeParameter t tps then TInterface [] else t)"

text \<open>Instantiation of type parameters\<close>

fun instantiate :: "(string \<Rightarrow> goType option) \<Rightarrow> goType \<Rightarrow> goType"
  and instFields :: "(string \<Rightarrow> goType option) \<Rightarrow> typeField list \<Rightarrow> typeField list"
  and instExprs :: "(string \<Rightarrow> goType option) \<Rightarrow> goType list \<Rightarrow> goType list" where
  "instantiate \<sigma> (TIdent n) = (case \<sigma> n of Some t \<Rightarrow> t | None \<Rightarrow> TIdent n)"
| "instantiate \<sigma> (TStar x) = TStar (instantiate \<sigma> x)"
| "instantiate \<sigma> (TArray l e) = TArray l (instantiate \<sigma> e)"
| "instantiate \<sigma> (TMap k v) = TMap (instantiate \<sigma> k) (instantiate \<sigma> v)"
| "instantiate \<sigma> (TChan d v) = TChan d (instantiate \<sigma> v)"
| "instantiate \<sigma> (TEllipsis e) = TEllipsis (instantiate \<sigma> e)"
| "instantiate \<sigma> (TIndex x i) = TIndex (instantiate \<sigma> x) (instantiate \<sigma> i)"
| "instantiate \<sigma> (TIndexList x is) = TIndexList (instantiate \<sigma> x) (instExprs \<sigma> is)"
| "instantiate \<sigma> (TParen x) = TParen (instantiate \<sigma> x)"
| "instantiate \<sigma> (TStruct fs) = TStruct (instFields \<sigma> fs)"
| "instantiate \<sigma> (TInterface ms) = TInterface (instFields \<sigma> ms)"
| "instantiate \<sigma> (TFunc ps rs) = TFunc (instFields \<sigma> ps) (instFields \<sigma> rs)"
| "instantiate \<sigma> (TSelector p n) = TSelector p n"
| "instantiate \<sigma> (TTilde x) = TTilde (instantiate \<sigma> x)"
| "instantiate \<sigma> (TUnion x y) = TUnion (instantiate \<sigma> x) (instantiate \<sigma> y)"
| "instantiate \<sigma> (TOther s) = TOther s"
| "instFields \<sigma> [] = []"
| "instFields \<sigma> ((ns, t) # fs) = (ns, instantiate \<sigma> t) # instFields \<sigma> fs"
| "instExprs \<sigma> [] = []"
| "instExprs \<sigma> (t # ts) = instantiate \<sigma> t # instExprs \<sigma> ts"

text \<open>Tilde terms and unions occur in constraints, never in the type of a parameter.\<close>

fun ordinary :: "goType \<Rightarrow> bool"
  and ordinaryFields :: "typeField list \<Rightarrow> bool"
  and ordinaryExprs :: "goType list \<Rightarrow> bool" where
  "ordinary (TStar x) = ordinary x"
| "ordinary (TArray l e) = ordinary e"
| "ordinary (TMap k v) = (ordinary k \<and> ordinary v)"
| "ordinary (TChan d v) = ordinary v"
| "ordinary (TEllipsis e) = ordinary e"
| "ordinary (TIndex x i) = (ordinary x \<and> ordinary i)"
| "ordinary (TIndexList x is) = (ordinary x \<and> ordinaryExprs is)"
| "ordinary (TParen x) = ordinary x"
| "ordinary (TStruct fs) = ordinaryFields fs"
| "ordinary (TInterface ms) = ordinaryFields ms"
| "ordinary (TFunc ps rs) = (ordinaryFields ps \<and> ordinaryFields rs)"
| "ordinary (TTilde x) = False"
| "ordinary (TUnion x y) = False"
| "ordinary _ = True"
| "ordinaryFields [] = True"
| "ordinaryFields ((ns, t) # fs) = (ordinary t \<and> ordinaryFields fs)"
| "ordinaryExprs [] = True"
| "ordinaryExprs (t # ts) = (ordinary t \<and> ordinaryExprs ts)"

lemma instantiate_unchanged:
  "ordinary t \<longrightarrow> \<not> containsTypeParameter t tps \<longrightarrow> dom \<sigma> \<subseteq> set tps \<longrightarrow> instantiate \<sigma> t = t"
  "ordinaryFields fs \<longrightarrow> \<not> containsInFields fs tps \<longrightarrow> dom \<sigma> \<subseteq> set tps \<longrightarrow> instFields \<sigma> fs = fs"
  "ordinaryExprs ts \<longrightarrow> \<not> containsInExprs ts tps \<longrightarrow> dom \<sigma> \<subseteq> set tps \<longrightarrow> instExprs \<sigma> ts = ts"
  by (induction t tps and fs tps and ts tps rule: containsTypeParameter_containsInFields_containsInExprs.induct)
    (auto split: option.splits)

definition pointerFor :: "string list \<Rightarrow> string \<Rightarrow> goType option" where
  "pointerFor tps n = (if n \<in> set tps then Some (TStar (TIdent n)) else None)"

lemma instantiate_changed:
  "containsTypeParameter t tps \<longrightarrow> instantiate (pointerFor tps) t \<noteq> t"
  "containsInFields fs tps \<longrightarrow> instFields (pointerFor tps) fs \<noteq> fs"
  "containsInExprs ts tps \<longrightarrow> instExprs (pointerFor tps) ts \<noteq> ts"
  by (induction t tps and fs tps and ts tps rule: containsTypeParameter_containsInFields_containsInExprs.induct)
    (auto simp: pointerFor_def)

lemma containsTypeParameter_iff:
  assumes "ordinary t"
  shows "containsTypeParameter t tps \<longleftrightarrow> (\<exists>\<sigma>. dom \<sigma> \<subseteq> set tps \<and> instantiate \<sigma> t \<noteq> t)"
proof
  assume "containsTypeParameter t tps"
  then have "instantiate (pointerFor tps) t \<noteq> t" using instantiate_changed(1) by blast
  moreover have "dom (pointerFor tps) \<subseteq> set tps" by (auto simp: pointerFor_def split: if_splits)
  ultimately show "\<exists>\<sigma>. dom \<sigma> \<subseteq> set tps \<and> instantiate \<sigma> t \<noteq> t" by blast
next
  assume "\<exists>\<sigma>. dom \<sigma> \<subseteq> set tps \<and> instantiate \<sigma> t \<noteq> t"
  then show "containsTypeParameter t tps" using instantiate_unchanged(1) assms by blast
qed

text \<open>The parameter type of a hook declaration does not depend on how the type parameters of the
  function are instantiated, and a type is widened to \<open>interface{}\<close> only when some instantiation
  changes it.\<close>

theorem widening_exact:
  assumes "ordinary t"
  shows "(dom \<sigma> \<subseteq> set tps \<longrightarrow>
      instantiate \<sigma> (replaceTypeParamsWithAny t tps) = replaceTypeParamsWithAny t tps) \<and>
    (replaceTypeParamsWithAny t tps = t \<longleftrightarrow>
      t = TInterface [] \<or> \<not> (\<exists>\<sigma>. dom \<sigma> \<subseteq> set tps \<and> instantiate \<sigma> t \<noteq> t))"
proof (cases "containsTypeParameter t tps")
  case True
  with containsTypeParameter_iff [OF assms, of tps] show ?thesis
    by (auto simp: replaceTypeParamsWithAny_def)
next
  case False
  with containsTypeParameter_iff [OF assms, of tps] show ?thesis
    by (auto simp: replaceTypeParamsWithAny_def)
qed

theorem widening_exact_witness:
  "replaceTypeParamsWithAny (TMap (TIdent ''string'') (TIdent ''T'')) [''T''] = TInterface [] \<and>
   replaceTypeParamsWithAny (TArray NoLen (TIdent ''int'')) [''T''] = TArray NoLen (TIdent ''int'')"
proof -
  have "ordinary (TMap (TIdent ''string'') (TIdent ''T''))" by simp
  moreover have "instantiate [''T'' \<mapsto> TIdent ''int''] (TMap (TIdent ''string'') (TIdent ''T'')) \<noteq>
      TMap (TIdent ''string'') (TIdent ''T'')"
    by simp
  moreover have "dom [''T'' \<mapsto> TIdent ''int''] \<subseteq> set [''T'']" by simp
  ultimately have "replaceTypeParamsWithAny (TMap (TIdent ''string'') (TIdent ''T'')) [''T''] \<noteq>
      TMap (TIdent ''string'') (TIdent ''T'')"
    using widening_exact [of "TMap (TIdent ''string'') (TIdent ''T'')" Map.empty "[''T'']"] by blast
  then show ?thesis by (simp add: replaceTypeParamsWithAny_def split: if_splits)
qed

section \<open>The hooks that pass the check\<close>

definition desugarType :: "goType \<Rightarrow> goType" where
  "desugarType t = (case t of TEllipsis e \<Rightarrow> TArray NoLen e | _ \<Rightarrow> t)"

lemma elt_slice [simp]: "sliceOrEllipsisElt (CHR ''['' # CHR '']'' # s) = Some s"
  by (simp add: sliceOrEllipsisElt_def cutPrefix_def)

lemma elt_ellipsis [simp]: "sliceOrEllipsisElt (CHR ''.'' # CHR ''.'' # CHR ''.'' # s) = Some s"
  by (simp add: sliceOrEllipsisElt_def cutPrefix_def)

lemma natural_param:
  assumes "baseTypeName t \<noteq> []"
  shows "matchBaseType (baseTypeName (TStar (desugarType t))) (baseTypeName t)"
proof (cases "\<exists>e. t = TEllipsis e")
  case True
  then obtain e where "t = TEllipsis e" by blast
  then show ?thesis by (simp add: desugarType_def matchBaseType_def arrayPrefix_def)
next
  case False
  then have "desugarType t = t" by (cases t) (simp_all add: desugarType_def)
  with assms show ?thesis by (simp add: matchBaseType_def)
qed

lemma checkParams_None:
  "list_all2 (\<lambda>t h. matchBaseType (baseTypeName t) (baseTypeName h)) ts hs \<Longrightarrow> checkParams i ts hs = None"
  by (induction ts hs arbitrary: i rule: list_all2_induct) simp_all

text \<open>A hook parameter repeats the type of the function's parameter or is \<open>interface{}\<close> or \<open>any\<close>.\<close>

definition fits :: "goType \<Rightarrow> goType \<Rightarrow> bool" where
  "fits t h \<longleftrightarrow> (h = t \<and> baseTypeName t \<noteq> []) \<or> h = TInterface [] \<or> h = TIdent ''any''"

lemma matchBaseType_any: "isAnyOrInterface h \<Longrightarrow> matchBaseType t h"
  by (simp add: matchBaseType_def)

lemma fits_matches: "fits t h \<Longrightarrow> matchBaseType (baseTypeName (TStar (desugarType t))) (baseTypeName h)"
  unfolding fits_def
  by (elim disjE conjE) (simp_all add: natural_param matchBaseType_any isAnyOrInterface_def del: baseTypeName.simps(2))

lemma paramTypes_map: "paramTypes (map (apsnd f) fs) = map f (paramTypes fs)"
  by (induction fs) (auto simp: paramTypes_def splitField_def)

lemma paramTypes_first: "paramTypes (([n], t) # fs) = t # paramTypes fs"
  by (simp add: paramTypes_def splitField_def)

lemma checkParams_map:
  "(\<And>t. baseTypeName (f t) = baseTypeName t) \<Longrightarrow> checkParams i ts (map f hs) = checkParams i ts hs"
  by (induction i ts hs rule: checkParams.induct) auto

text \<open>The check of hook signatures takes no notice of pointers: a hook whose every parameter is a
  pointer to the type expected is judged as the hook without these pointers.\<close>

theorem pointers_ignored:
  "checkHookDecl tramp (([n], TSelector p ''HookContext'') # map (apsnd TStar) fs) before =
   checkHookDecl tramp (([n], TSelector p ''HookContext'') # fs) before"
proof -
  have "paramTypes (([n], TSelector p ''HookContext'') # map (apsnd TStar) fs) =
      TSelector p ''HookContext'' # map TStar (paramTypes fs)"
    by (simp add: paramTypes_first paramTypes_map)
  moreover have "checkParams i ts (TSelector p ''HookContext'' # map TStar hs) =
      checkParams i ts (TSelector p ''HookContext'' # hs)" for i ts hs
    by (cases ts) (simp_all add: checkParams_map)
  ultimately show ?thesis
    by (simp add: checkHookDecl_def Let_def paramTypes_first checkParams_map)
qed

end
