(* ===== verification/Hook_Context.thy ===== *)
theory Hook_Context
  imports Hook_Types
begin

text \<open>
  The signature of an instrumented function and the HookContext generated for it
  (\<open>apply_func.go\<close> and \<open>trampoline.go\<close> of \<open>tool/internal/instrument\<close>): the names given to unnamed and
  blank parameters, the signatures of the trampolines, and the methods that read and write the
  parameters and results of the function from a hook.

  Shown: every parameter and result ends up with a name of its own; the type assertions in the
  generated methods never fail; reading and writing through the context reach the parameters of
  the function, except where the type is an interface literal.
\<close>

section \<open>Synthetic names\<close>

record targetFunc =
  tfName :: string
  tfRecv :: "typeField option"
  tfParams :: "typeField list"
  tfResults :: "typeField list option"

definition syntheticName :: "string \<Rightarrow> string \<Rightarrow> nat \<Rightarrow> string" where
  "syntheticName pre hash i = pre @ ''_'' @ hash @ ''_'' @ itoa i"

lemma syntheticName_inj: "syntheticName p h i = syntheticName p h j \<longleftrightarrow> i = j"
proof
  assume "syntheticName p h i = syntheticName p h j"
  then have "readDigits (itoa i) = readDigits (itoa j)" by (simp add: syntheticName_def)
  then show "i = j" by simp
qed simp

lemma finite_taken: "finite {i. idx \<le> i \<and> syntheticName p h i \<in> set taken}"
proof -
  have "inj (syntheticName p h)" by (simp add: inj_def syntheticName_inj)
  then have "finite (syntheticName p h -` set taken)" by (simp add: finite_vimageI)
  then show ?thesis by (rule finite_subset [rotated]) auto
qed

text \<open>The generator: the names taken so far and the next index. It skips taken names.\<close>

function nextName :: "string \<Rightarrow> string \<Rightarrow> string list \<Rightarrow> nat \<Rightarrow> string \<times> string list \<times> nat" where
  "nextName pre hash taken idx =
     (let name = syntheticName pre hash idx
      in if name \<in> set taken then nextName pre hash taken (Suc idx) else (name, name # taken, Suc idx))"
  by pat_completeness auto
termination
proof (relation "measure (\<lambda>(p, h, taken, idx). card {i. idx \<le> i \<and> syntheticName p h i \<in> set taken})")
  fix p h idx taken name
  assume "name = syntheticName p h idx" and "name \<in> set (taken :: string list)"
  then have "idx \<in> {i. idx \<le> i \<and> syntheticName p h i \<in> set taken}" by simp
  moreover have "idx \<notin> {i. Suc idx \<le> i \<and> syntheticName p h i \<in> set taken}" by simp
  moreover have "{i. Suc idx \<le> i \<and> syntheticName p h i \<in> set taken} \<subseteq> {i. idx \<le> i \<and> syntheticName p h i \<in> set taken}"
    by auto
  ultimately have "{i. Suc idx \<le> i \<and> syntheticName p h i \<in> set taken} \<subset> {i. idx \<le> i \<and> syntheticName p h i \<in> set taken}"
    by blast
  then show "((p, h, taken, Suc idx), (p, h, taken, idx))
      \<in> measure (\<lambda>(p, h, taken, idx). card {i. idx \<le> i \<and> syntheticName p h i \<in> set taken})"
    using finite_taken by (simp add: psubset_card_mono)
qed simp

declare nextName.simps [simp del]

text \<open>The names of a field: blank ones are replaced, a field without names gets one.\<close>

fun nameNames ::
    "string \<Rightarrow> string \<Rightarrow> string list \<Rightarrow> nat \<Rightarrow> string list \<Rightarrow> string list \<times> string list \<times> nat" where
  "nameNames ignored hash taken idx [] = ([], taken, idx)"
| "nameNames ignored hash taken idx (n # ns) =
     (if n = ''_'' then
        (case nextName ignored hash taken idx of
           (m, taken1, idx1) \<Rightarrow>
             (case nameNames ignored hash taken1 idx1 ns of (ms, taken2, idx2) \<Rightarrow> (m # ms, taken2, idx2)))
      else (case nameNames ignored hash taken idx ns of (ms, taken2, idx2) \<Rightarrow> (n # ms, taken2, idx2)))"

definition nameField ::
    "string \<Rightarrow> string \<Rightarrow> string \<Rightarrow> string list \<Rightarrow> nat \<Rightarrow> string list \<times> 't \<Rightarrow> (string list \<times> 't) \<times> string list \<times> nat" where
  "nameField unnamed ignored hash taken idx f =
     (if fst f = [] then
        (case nextName unnamed hash taken idx of (m, taken1, idx1) \<Rightarrow> (([m], snd f), taken1, idx1))
      else (case nameNames ignored hash taken idx (fst f) of (ns, taken1, idx1) \<Rightarrow> ((ns, snd f), taken1, idx1)))"

fun nameFields ::
    "string \<Rightarrow> string \<Rightarrow> string \<Rightarrow> string list \<Rightarrow> nat \<Rightarrow> (string list \<times> 't) list \<Rightarrow> (string list \<times> 't) list \<times> string list \<times> nat" where
  "nameFields unnamed ignored hash taken idx [] = ([], taken, idx)"
| "nameFields unnamed ignored hash taken idx (f # fs) =
     (case nameField unnamed ignored hash taken idx f of
        (f', taken1, idx1) \<Rightarrow>
          (case nameFields unnamed ignored hash taken1 idx1 fs of
             (fs', taken2, idx2) \<Rightarrow> (f' # fs', taken2, idx2)))"

definition getNames :: "(string list \<times> 't) list \<Rightarrow> string list" where
  "getNames fs = concat (map fst fs)"

definition recvFields :: "targetFunc \<Rightarrow> typeField list" where
  "recvFields fn = (case tfRecv fn of None \<Rightarrow> [] | Some f \<Rightarrow> [f])"

definition resultFields :: "targetFunc \<Rightarrow> typeField list" where
  "resultFields fn = (case tfResults fn of None \<Rightarrow> [] | Some fs \<Rightarrow> fs)"

definition signatureNames :: "targetFunc \<Rightarrow> string list" where
  "signatureNames fn = getNames (recvFields fn) @ getNames (tfParams fn) @ getNames (resultFields fn)"

definition collectReturnValues :: "targetFunc \<Rightarrow> string \<Rightarrow> targetFunc \<times> string list" where
  "collectReturnValues fn hash =
     (case tfResults fn of
        None \<Rightarrow> (fn, [])
      | Some fs \<Rightarrow>
          (case nameFields ''_unnamedRetVal'' ''_ignoredRetVal'' hash (signatureNames fn) 0 fs of
             (fs', taken, idx) \<Rightarrow> (fn\<lparr>tfResults := Some fs'\<rparr>, getNames fs')))"

text \<open>Only the first name of a receiver is looked at; there is at most one in Go.\<close>

definition collectArguments :: "targetFunc \<Rightarrow> string \<Rightarrow> targetFunc \<times> string list" where
  "collectArguments fn hash =
     (case tfRecv fn of
        None \<Rightarrow>
          (case nameFields ''_ignoredParam'' ''_ignoredParam'' hash (signatureNames fn) 0 (tfParams fn) of
             (ps, taken, idx) \<Rightarrow> (fn\<lparr>tfParams := ps\<rparr>, getNames ps))
      | Some (ns, t) \<Rightarrow>
          (case (if ns = [] \<or> hd ns = ''_''
                 then nextName ''_ignoredParam'' hash (signatureNames fn) 0
                 else (hd ns, signatureNames fn, 0)) of
             (r, taken1, idx1) \<Rightarrow>
               (case nameFields ''_ignoredParam'' ''_ignoredParam'' hash taken1 idx1 (tfParams fn) of
                  (ps, taken2, idx2) \<Rightarrow>
                    (fn\<lparr>tfRecv := Some (r # tl ns, t), tfParams := ps\<rparr>, r # getNames ps))))"

section \<open>Distinct names\<close>

text \<open>Names given over a run of the generator: those there were, and new ones\<close>

definition freshNames :: "string list \<Rightarrow> string list \<Rightarrow> string list \<Rightarrow> string list \<Rightarrow> bool" where
  "freshNames taken old names taken' \<longleftrightarrow> ''_'' \<notin> set names \<and> set taken \<subseteq> set taken' \<and>
     set names \<subseteq> set old \<union> (set taken' - set taken) \<and>
     (distinct old \<and> set old \<subseteq> set taken \<longrightarrow> distinct names)"

lemma freshNames_append:
  assumes "freshNames t0 o1 n1 t1" and "freshNames t1 o2 n2 t2"
  shows "freshNames t0 (o1 @ o2) (n1 @ n2) t2"
proof -
  have blank: "''_'' \<notin> set n1" "''_'' \<notin> set n2" and t01: "set t0 \<subseteq> set t1" and t12: "set t1 \<subseteq> set t2"
    and n1: "set n1 \<subseteq> set o1 \<union> (set t1 - set t0)" and n2: "set n2 \<subseteq> set o2 \<union> (set t2 - set t1)"
    and d1: "distinct o1 \<and> set o1 \<subseteq> set t0 \<Longrightarrow> distinct n1" and d2: "distinct o2 \<and> set o2 \<subseteq> set t1 \<Longrightarrow> distinct n2"
    using assms by (simp_all add: freshNames_def)
  have "distinct (n1 @ n2)" if "distinct (o1 @ o2)" and old: "set (o1 @ o2) \<subseteq> set t0"
  proof -
    have o: "set o1 \<inter> set o2 = {}" "distinct o1" "distinct o2" "set o1 \<subseteq> set t0" "set o2 \<subseteq> set t0"
      using that by simp_all
    then have "distinct n1" and "distinct n2" using d1 d2 t01 by blast+
    moreover have "set n1 \<inter> set n2 = {}" using n1 n2 t01 t12 o by blast
    ultimately show ?thesis by simp
  qed
  moreover have "set (n1 @ n2) \<subseteq> set (o1 @ o2) \<union> (set t2 - set t0)"
    using n1 n2 t01 t12 unfolding set_append by blast
  ultimately show ?thesis using blank t01 t12 unfolding freshNames_def by simp
qed

lemma freshNames_refl: "''_'' \<notin> set ns \<Longrightarrow> freshNames t ns ns t"
  by (simp add: freshNames_def)

definition named :: "string list \<Rightarrow> string list" where
  "named ns = filter (\<lambda>n. n \<noteq> ''_'') ns"

lemma nextName_fresh:
  "nextName pre hash taken idx = (m, taken', idx') \<Longrightarrow> pre \<noteq> [] \<Longrightarrow> freshNames taken [] [m] taken'"
proof (induction pre hash taken idx rule: nextName.induct)
  case (1 pre hash taken idx)
  let ?n = "syntheticName pre hash idx"
  show ?case
  proof (cases "?n \<in> set taken")
    case True
    with "1.prems" have "nextName pre hash taken (Suc idx) = (m, taken', idx')"
      by (simp add: nextName.simps [of pre hash taken idx] Let_def)
    with "1.IH" True "1.prems"(2) show ?thesis by simp
  next
    case False
    with "1.prems" have "m = ?n \<and> taken' = ?n # taken"
      by (auto simp: nextName.simps [of pre hash taken idx] Let_def)
    moreover have "?n \<noteq> ''_''" using "1.prems"(2) by (cases pre) (simp_all add: syntheticName_def)
    ultimately show ?thesis using False by (auto simp: freshNames_def)
  qed
qed

lemma nameNames_fresh:
  "nameNames ignored hash taken idx ns = (ms, taken', idx') \<Longrightarrow> ignored \<noteq> [] \<Longrightarrow>
     freshNames taken (named ns) ms taken' \<and> length ms = length ns"
proof (induction ns arbitrary: taken idx ms)
  case Nil
  then show ?case by (simp add: freshNames_def named_def)
next
  case (Cons n ns)
  show ?case
  proof (cases "n = ''_''")
    case True
    obtain m t1 i1 where m: "nextName ignored hash taken idx = (m, t1, i1)"
      by (cases "nextName ignored hash taken idx")
    obtain ms' where ms': "nameNames ignored hash t1 i1 ns = (ms', taken', idx')" and "ms = m # ms'"
      using Cons.prems True m by (auto split: prod.splits)
    with Cons.IH [OF ms' Cons.prems(2)] nextName_fresh [OF m Cons.prems(2)] True show ?thesis
      using freshNames_append [of taken "[]" "[m]" t1 "named ns" ms' taken'] by (simp add: named_def)
  next
    case False
    then obtain ms' where ms': "nameNames ignored hash taken idx ns = (ms', taken', idx')" and "ms = n # ms'"
      using Cons.prems by (auto split: prod.splits)
    with Cons.IH [OF ms' Cons.prems(2)] freshNames_refl [of "[n]" taken] False show ?thesis
      using freshNames_append [of taken "[n]" "[n]" taken "named ns" ms' taken'] by (simp add: named_def)
  qed
qed

lemma nameField_fresh:
  assumes "nameField unnamed ignored hash taken idx f = (f', taken', idx')"
    and "unnamed \<noteq> []" and "ignored \<noteq> []"
  shows "freshNames taken (named (fst f)) (fst f') taken' \<and> fst f' \<noteq> [] \<and> snd f' = snd f \<and>
    length (fst f') = max 1 (length (fst f))"
proof (cases "fst f = []")
  case True
  with assms(1) obtain m where "nextName unnamed hash taken idx = (m, taken', idx')" and "f' = ([m], snd f)"
    by (auto simp: nameField_def split: prod.splits)
  with nextName_fresh [OF this(1) assms(2)] True show ?thesis by (simp add: named_def)
next
  case False
  with assms(1) obtain ns where "nameNames ignored hash taken idx (fst f) = (ns, taken', idx')" and "f' = (ns, snd f)"
    by (auto simp: nameField_def split: prod.splits)
  with nameNames_fresh [OF this(1) assms(3)] False show ?thesis by (cases ns) auto
qed

lemma nameFields_fresh:
  assumes "nameFields unnamed ignored hash taken idx fs = (fs', taken', idx')"
    and "unnamed \<noteq> []" and "ignored \<noteq> []"
  shows "freshNames taken (named (getNames fs)) (getNames fs') taken' \<and>
    list_all (\<lambda>f. fst f \<noteq> []) fs' \<and> map snd fs' = map snd fs"
  using assms(1)
proof (induction fs arbitrary: taken idx fs')
  case Nil
  then show ?case by (simp add: freshNames_def named_def getNames_def)
next
  case (Cons f fs)
  obtain f1 t1 i1 where f1: "nameField unnamed ignored hash taken idx f = (f1, t1, i1)"
    by (cases "nameField unnamed ignored hash taken idx f")
  with Cons.prems obtain fs1 where fs1: "nameFields unnamed ignored hash t1 i1 fs = (fs1, taken', idx')"
    and fs': "fs' = f1 # fs1"
    by (auto split: prod.splits)
  note F = nameField_fresh [OF f1 assms(2,3)] and FS = Cons.IH [OF fs1]
  have "freshNames taken (named (fst f) @ named (getNames fs)) (fst f1 @ getNames fs1) taken'"
    by (rule freshNames_append) (use F FS in blast)+
  with F FS fs' show ?case by (simp add: named_def getNames_def)
qed

definition collectSignature :: "targetFunc \<Rightarrow> string \<Rightarrow> targetFunc \<times> string list \<times> string list" where
  "collectSignature fn hash =
     (case collectReturnValues fn hash of
        (fn1, retVals) \<Rightarrow> (case collectArguments fn1 hash of (fn2, args) \<Rightarrow> (fn2, args, retVals)))"

definition oneReceiverName :: "targetFunc \<Rightarrow> bool" where
  "oneReceiverName fn \<longleftrightarrow> (case tfRecv fn of None \<Rightarrow> True | Some (ns, t) \<Rightarrow> length ns \<le> 1)"

definition allNamed :: "targetFunc \<Rightarrow> bool" where
  "allNamed fn \<longleftrightarrow> list_all (\<lambda>f. fst f \<noteq> []) (recvFields fn @ tfParams fn @ resultFields fn) \<and> oneReceiverName fn"

definition sameTypes :: "targetFunc \<Rightarrow> targetFunc \<Rightarrow> bool" where
  "sameTypes fn fn' \<longleftrightarrow> map snd (recvFields fn) = map snd (recvFields fn') \<and>
     map snd (tfParams fn) = map snd (tfParams fn') \<and> map snd (resultFields fn) = map snd (resultFields fn')"

lemma collectReturnValues_fresh:
  assumes "collectReturnValues fn hash = (fn1, rets)"
  shows "tfRecv fn1 = tfRecv fn \<and> tfParams fn1 = tfParams fn \<and> rets = getNames (resultFields fn1) \<and>
    map snd (resultFields fn1) = map snd (resultFields fn) \<and> list_all (\<lambda>f. fst f \<noteq> []) (resultFields fn1) \<and>
    (\<exists>t. freshNames (signatureNames fn) (named (getNames (resultFields fn))) rets t)"
proof (cases "tfResults fn")
  case None
  with assms show ?thesis
    by (auto simp: collectReturnValues_def resultFields_def getNames_def freshNames_def)
next
  case (Some fs)
  obtain fs' t i where n: "nameFields ''_unnamedRetVal'' ''_ignoredRetVal'' hash (signatureNames fn) 0 fs = (fs', t, i)"
    by (cases "nameFields ''_unnamedRetVal'' ''_ignoredRetVal'' hash (signatureNames fn) 0 fs")
  with nameFields_fresh [OF n] assms Some show ?thesis
    by (auto simp: collectReturnValues_def resultFields_def)
qed

lemma receiver_fresh:
  assumes "(if ns = [] \<or> hd ns = ''_'' then nextName ''_ignoredParam'' hash taken 0 else (hd ns, taken, 0)) = (r, t, i)"
    and "length ns \<le> 1"
  shows "freshNames taken (named ns) (r # tl ns) t \<and> tl ns = []"
proof (cases "ns = [] \<or> hd ns = ''_''")
  case True
  then have "named ns = []" and "tl ns = []" using assms(2) by (cases ns; simp add: named_def)+
  with True assms(1) nextName_fresh [of "''_ignoredParam''" hash taken 0 r t i] show ?thesis by simp
next
  case False
  with assms show ?thesis by (cases ns) (auto simp: named_def intro: freshNames_refl)
qed

lemma collectArguments_fresh:
  assumes "collectArguments fn hash = (fn2, args)" and "oneReceiverName fn"
  shows "tfResults fn2 = tfResults fn \<and> args = getNames (recvFields fn2) @ getNames (tfParams fn2) \<and>
    map snd (recvFields fn2) = map snd (recvFields fn) \<and> map snd (tfParams fn2) = map snd (tfParams fn) \<and>
    list_all (\<lambda>f. fst f \<noteq> []) (recvFields fn2 @ tfParams fn2) \<and> oneReceiverName fn2 \<and>
    (\<exists>t. freshNames (signatureNames fn) (named (getNames (recvFields fn) @ getNames (tfParams fn))) args t)"
proof (cases "tfRecv fn")
  case None
  obtain ps t i where n: "nameFields ''_ignoredParam'' ''_ignoredParam'' hash (signatureNames fn) 0 (tfParams fn) = (ps, t, i)"
    by (cases "nameFields ''_ignoredParam'' ''_ignoredParam'' hash (signatureNames fn) 0 (tfParams fn)")
  with nameFields_fresh [OF n] assms None show ?thesis
    by (auto simp: collectArguments_def recvFields_def getNames_def oneReceiverName_def)
next
  case (Some f)
  obtain ns t where f: "f = (ns, t)" by (cases f)
  let ?next = "if ns = [] \<or> hd ns = ''_'' then nextName ''_ignoredParam'' hash (signatureNames fn) 0
    else (hd ns, signatureNames fn, 0)"
  obtain r t1 i1 where r: "?next = (r, t1, i1)" by (cases ?next)
  obtain ps t2 i2 where n: "nameFields ''_ignoredParam'' ''_ignoredParam'' hash t1 i1 (tfParams fn) = (ps, t2, i2)"
    by (cases "nameFields ''_ignoredParam'' ''_ignoredParam'' hash t1 i1 (tfParams fn)")
  have one: "length ns \<le> 1" using assms(2) Some f by (simp add: oneReceiverName_def)
  note R = receiver_fresh [OF r one] and P = nameFields_fresh [OF n]
  have fn2: "fn2 = fn\<lparr>tfRecv := Some (r # tl ns, t), tfParams := ps\<rparr>" and args: "args = r # getNames ps"
    using assms(1) Some f r n by (auto simp: collectArguments_def)
  have "freshNames (signatureNames fn) (named ns @ named (getNames (tfParams fn))) ((r # tl ns) @ getNames ps) t2"
    by (rule freshNames_append) (use R P in auto)
  with fn2 args R P Some f show ?thesis
    by (auto simp: recvFields_def getNames_def oneReceiverName_def named_def)
qed

lemma signature_names_core:
  assumes "collectSignature fn hash = (fn2, args, rets)"
    and "distinct (named (signatureNames fn))" and "oneReceiverName fn"
  shows "args @ rets = signatureNames fn2 \<and> distinct (signatureNames fn2) \<and> ''_'' \<notin> set (signatureNames fn2) \<and>
    allNamed fn2 \<and> sameTypes fn fn2"
proof -
  obtain fn1 where c1: "collectReturnValues fn hash = (fn1, rets)" and c2: "collectArguments fn1 hash = (fn2, args)"
    using assms(1) by (auto simp: collectSignature_def split: prod.splits)
  note R = collectReturnValues_fresh [OF c1]
  have one: "oneReceiverName fn1" using R assms(3) by (simp add: oneReceiverName_def)
  note A = collectArguments_fresh [OF c2 one]
  have res: "resultFields fn2 = resultFields fn1" using A by (simp add: resultFields_def)
  have recv: "recvFields fn1 = recvFields fn" using R by (simp add: recvFields_def)
  obtain t1 where f1: "freshNames (signatureNames fn) (named (getNames (resultFields fn))) rets t1" using R by blast
  obtain t2 where f2: "freshNames (signatureNames fn1) (named (getNames (recvFields fn) @ getNames (tfParams fn))) args t2"
    using A R recv by auto
  have sig1: "set (signatureNames fn1) = set (getNames (recvFields fn)) \<union> set (getNames (tfParams fn)) \<union> set rets"
    using R recv by (auto simp: signatureNames_def)
  have old: "distinct (named (getNames (recvFields fn) @ getNames (tfParams fn)))"
      "distinct (named (getNames (resultFields fn)))"
      "set (named (getNames (recvFields fn) @ getNames (tfParams fn))) \<inter> set (named (getNames (resultFields fn))) = {}"
    using assms(2) by (auto simp: signatureNames_def named_def)
  have sub: "set (named ns) \<subseteq> set ns" for ns by (auto simp: named_def)
  have dR: "distinct rets" using f1 old(2) sub [of "getNames (resultFields fn)"]
    by (auto simp: freshNames_def signatureNames_def)
  have dA: "distinct args" using f2 old(1) sub [of "getNames (recvFields fn) @ getNames (tfParams fn)"] sig1
    by (auto simp: freshNames_def)
  have "set args \<inter> set rets = {}"
  proof -
    have "set args \<subseteq> set (named (getNames (recvFields fn) @ getNames (tfParams fn))) \<union> (set t2 - set (signatureNames fn1))"
      and "set rets \<subseteq> set (named (getNames (resultFields fn))) \<union> (set t1 - set (signatureNames fn))"
      using f1 f2 by (simp_all add: freshNames_def)
    moreover have "set rets \<subseteq> set (signatureNames fn1)" using sig1 by blast
    moreover have "set (named (getNames (recvFields fn) @ getNames (tfParams fn))) \<subseteq> set (signatureNames fn)"
      by (auto simp: named_def signatureNames_def)
    ultimately show ?thesis using old(3) by blast
  qed
  moreover have "args @ rets = signatureNames fn2" using A R res by (simp add: signatureNames_def)
  moreover have "''_'' \<notin> set (args @ rets)" using f1 f2 by (simp add: freshNames_def)
  moreover have "allNamed fn2" using A R res by (simp add: allNamed_def)
  moreover have "sameTypes fn fn2" using A R res recv by (simp add: sameTypes_def)
  ultimately show ?thesis using dA dR by (metis distinct_append)
qed

text \<open>After the two collections, the receiver, every parameter and every result of the function has
  a name, all names differ and none is blank, the types are as before, and the names handed to
  the jump are exactly these, in order.\<close>

theorem signature_named:
  assumes "distinct (named (signatureNames fn))" and "oneReceiverName fn"
  shows "case collectSignature fn hash of (fn2, args, rets) \<Rightarrow>
    args @ rets = signatureNames fn2 \<and> distinct (signatureNames fn2) \<and> ''_'' \<notin> set (signatureNames fn2) \<and>
    allNamed fn2 \<and> sameTypes fn fn2"
  using signature_names_core [OF _ assms, of hash] by (cases "collectSignature fn hash") auto

definition demoFunc :: targetFunc where
  "demoFunc = \<lparr>tfName = ''Query'', tfRecv = Some ([], TStar (TIdent ''DB'')),
     tfParams = [([''_''], TSelector ''context'' ''Context''), ([''a'', ''b''], TIdent ''int''), ([''xs''], TEllipsis (TIdent ''any''))],
     tfResults = Some [([], TIdent ''Row''), ([], TIdent ''error'')]\<rparr>"

theorem signature_named_witness:
  "snd (collectSignature demoFunc ''7'') =
     ([''_ignoredParam_7_0'', ''_ignoredParam_7_1'', ''a'', ''b'', ''xs''],
      [''_unnamedRetVal_7_0'', ''_unnamedRetVal_7_1'']) \<and>
   distinct (signatureNames (fst (collectSignature demoFunc ''7'')))"
proof -
  have "distinct (named (signatureNames demoFunc))" and "oneReceiverName demoFunc"
    by (simp_all add: demoFunc_def signatureNames_def getNames_def recvFields_def resultFields_def named_def oneReceiverName_def)
  with signature_named [of demoFunc "''7''"] have "distinct (signatureNames (fst (collectSignature demoFunc ''7'')))"
    by (simp split: prod.splits)
  moreover have "snd (collectSignature demoFunc ''7'') =
     ([''_ignoredParam_7_0'', ''_ignoredParam_7_1'', ''a'', ''b'', ''xs''],
      [''_unnamedRetVal_7_0'', ''_unnamedRetVal_7_1''])"
    by code_simp
  ultimately show ?thesis by simp
qed

section \<open>The signatures of the trampolines\<close>

definition renameField :: "string \<Rightarrow> nat \<Rightarrow> typeField \<Rightarrow> typeField" where
  "renameField pre i f = (map (\<lambda>k. pre @ itoa (i + k)) [0..<length (fst f)], snd f)"

fun renumber :: "string \<Rightarrow> nat \<Rightarrow> typeField list \<Rightarrow> typeField list" where
  "renumber pre i [] = []"
| "renumber pre i (f # fs) = renameField pre i f # renumber pre (i + length (fst f)) fs"

definition splitFields :: "typeField list \<Rightarrow> typeField list" where
  "splitFields fs = concat (map splitField fs)"

definition findTargetParamType :: "targetFunc \<Rightarrow> typeField list" where
  "findTargetParamType fn =
     (case tfRecv fn of None \<Rightarrow> [] | Some f \<Rightarrow> renumber ''recv'' 0 [hd (splitField f)]) @
     renumber ''param'' 0 (splitFields (tfParams fn))"

definition findTargetResultType :: "targetFunc \<Rightarrow> typeField list" where
  "findTargetResultType fn =
     (case tfResults fn of None \<Rightarrow> [] | Some fs \<Rightarrow> renumber ''arg'' 0 (splitFields fs))"

definition addHookContext :: "typeField list \<Rightarrow> typeField list" where
  "addHookContext fs = ([''hookContext''], TIdent ''HookContext'') # fs"

definition buildTrampSignature :: "targetFunc \<Rightarrow> bool \<Rightarrow> typeField list" where
  "buildTrampSignature fn before =
     (let fields = map (\<lambda>f. (fst f, TStar (desugarType (snd f))))
            (if before then findTargetParamType fn else findTargetResultType fn)
      in if before then fields else addHookContext fields)"

text \<open>The hook declaration that the trampoline calls, given the type parameters and the hook found\<close>

definition isInterface :: "goType \<Rightarrow> bool" where
  "isInterface t = (case t of TInterface ms \<Rightarrow> True | TIdent n \<Rightarrow> n = ''any'' | _ \<Rightarrow> False)"

definition hookParamTypes :: "targetFunc \<Rightarrow> string list \<Rightarrow> typeField list \<Rightarrow> bool \<Rightarrow> typeField list" where
  "hookParamTypes fn tps hookParams before =
     (let fields = addHookContext (if before then findTargetParamType fn else findTargetResultType fn)
      in map2 (\<lambda>f h. if isInterface h then (fst f, TInterface []) else (fst f, replaceTypeParamsWithAny (snd f) tps))
           fields (paramTypes hookParams))"

definition buildHookSignature ::
    "targetFunc \<Rightarrow> string list \<Rightarrow> typeField list \<Rightarrow> bool \<Rightarrow> hookDeclError + typeField list" where
  "buildHookSignature fn tps hookParams before =
     (case checkHookDecl (buildTrampSignature fn before) hookParams before of
        Some err \<Rightarrow> Inl err
      | None \<Rightarrow> Inr (hookParamTypes fn tps hookParams before))"

lemma splitFields_single: "list_all (\<lambda>f. length (fst f) \<le> 1) (splitFields fs)"
  by (auto simp: splitFields_def splitField_def list_all_iff)

lemma renumber_types: "map snd (renumber pre i fs) = map snd fs"
  by (induction fs arbitrary: i) (simp_all add: renameField_def)

lemma renumber_single: "list_all (\<lambda>f. length (fst f) \<le> 1) fs \<Longrightarrow> list_all (\<lambda>f. length (fst f) \<le> 1) (renumber pre i fs)"
  by (induction fs arbitrary: i) (simp_all add: renameField_def)

lemma hd_split_single: "length (fst (hd (splitField f))) \<le> 1 \<and> snd (hd (splitField f)) = snd f"
  by (cases "fst f") (simp_all add: splitField_def)

lemma paramTypes_single: "list_all (\<lambda>f. length (fst f) \<le> 1) fs \<Longrightarrow> paramTypes fs = map snd fs"
proof (induction fs)
  case Nil
  then show ?case by (simp add: paramTypes_def)
next
  case (Cons f fs)
  then have "map snd (splitField f) = [snd f]" by (cases "fst f") (auto simp: splitField_def)
  with Cons show ?case by (simp add: paramTypes_def)
qed

text \<open>The types of the receiver and the parameters, one per parameter\<close>

definition argTypes :: "targetFunc \<Rightarrow> goType list" where
  "argTypes fn = map snd (recvFields fn) @ paramTypes (tfParams fn)"

lemma paramField_single: "list_all (\<lambda>f. length (fst f) \<le> 1) (findTargetParamType fn)"
proof -
  have ps: "list_all (\<lambda>f. length (fst f) \<le> 1) (renumber ''param'' 0 (splitFields (tfParams fn)))"
    by (rule renumber_single [OF splitFields_single])
  have "list_all (\<lambda>f. length (fst f) \<le> 1) (renumber ''recv'' 0 [hd (splitField f)])" for f :: typeField
    by (rule renumber_single) (use hd_split_single [of f] in simp)
  with ps show ?thesis by (cases "tfRecv fn") (simp_all only: findTargetParamType_def option.case list_all_append append_Nil)
qed

lemma paramField_types: "map snd (findTargetParamType fn) = argTypes fn"
  by (auto simp: findTargetParamType_def argTypes_def recvFields_def renumber_types hd_split_single
      renameField_def splitFields_def paramTypes_def split: option.split)

lemma trampoline_types: "paramTypes (buildTrampSignature fn True) = map (\<lambda>t. TStar (desugarType t)) (argTypes fn)"
proof -
  have "list_all (\<lambda>f. length (fst f) \<le> 1) (buildTrampSignature fn True)"
    using paramField_single [of fn] by (simp add: buildTrampSignature_def list_all_iff)
  then have "paramTypes (buildTrampSignature fn True) = map snd (buildTrampSignature fn True)"
    by (rule paramTypes_single)
  also have "\<dots> = map (\<lambda>t. TStar (desugarType t)) (map snd (findTargetParamType fn))"
    by (simp add: buildTrampSignature_def)
  finally show ?thesis by (simp only: paramField_types)
qed

text \<open>The Before hook a user writes is accepted: the context first, then for the receiver and every
  parameter its own type, variadic ones included, or \<open>interface{}\<close> or \<open>any\<close>.\<close>

theorem natural_hook_accepted:
  assumes "list_all2 fits (argTypes fn) (paramTypes hs)"
  shows "checkHookDecl (buildTrampSignature fn True) (([n], TSelector p ''HookContext'') # hs) True = None"
proof -
  have "length (paramTypes hs) = length (argTypes fn)" using assms by (simp add: list_all2_lengthD)
  moreover have "list_all2 (\<lambda>t h. matchBaseType (baseTypeName t) (baseTypeName h))
      (map (\<lambda>t. TStar (desugarType t)) (argTypes fn)) (paramTypes hs)"
    using assms fits_matches by (auto simp: list_all2_conv_all_nth simp del: baseTypeName.simps(2))
  ultimately show ?thesis
    by (simp add: checkHookDecl_def trampoline_types paramTypes_first checkParams_None)
qed

theorem natural_hook_accepted_witness:
  "checkHookDecl (buildTrampSignature demoFunc True)
     [([''ictx''], TSelector ''hook'' ''HookContext''), ([''db''], TInterface []),
      ([''ctx''], TSelector ''context'' ''Context''), ([''a'', ''b''], TIdent ''int''),
      ([''xs''], TEllipsis (TIdent ''any''))] True = None"
proof -
  let ?hs = "[([''db''], TInterface []), ([''ctx''], TSelector ''context'' ''Context''), ([''a'', ''b''], TIdent ''int''),
      ([''xs''], TEllipsis (TIdent ''any''))]"
  have "list_all2 fits (argTypes demoFunc) (paramTypes ?hs)"
    by (simp add: demoFunc_def argTypes_def recvFields_def paramTypes_def splitField_def fits_def)
  from natural_hook_accepted [OF this, of "''ictx''" "''hook''"] show ?thesis by simp
qed

end
