(* ===== verification/Hook_Values.thy ===== *)
theory Hook_Values
  imports Hook_Context
begin

text \<open>
  What the methods of a generated HookContext do: the slots that the trampolines fill with the
  addresses of the function's variables, the cases that \<open>rewriteHookContextMethods\<close> generates, and
  their meaning on the variables of the function.

  Values of interface type and the zero value and type assertions of Go are parameters; a failed
  assertion or an index out of range is a panic, \<open>None\<close>.

  Shown: the accessors of parameters and of results reach the variables of the function; in front
  of an interface literal they do not.
\<close>

section \<open>The generated cases\<close>

fun fieldClauses :: "nat \<Rightarrow> typeField list \<Rightarrow> (nat \<times> goType) list" where
  "fieldClauses i [] = []"
| "fieldClauses i (f # fs) =
     map (\<lambda>k. (i + k, desugarType (snd f))) [0..<length (fst f)] @ fieldClauses (i + length (fst f)) fs"

definition rewriteParamMethods :: "targetFunc \<Rightarrow> (nat \<times> goType) list" where
  "rewriteParamMethods fn =
     (case tfRecv fn of
        None \<Rightarrow> fieldClauses 0 (tfParams fn)
      | Some f \<Rightarrow> (0, snd f) # fieldClauses 1 (tfParams fn))"

definition rewriteReturnValMethods :: "targetFunc \<Rightarrow> (nat \<times> goType) list" where
  "rewriteReturnValMethods fn = fieldClauses 0 (resultFields fn)"

section \<open>The slots\<close>

text \<open>A value held in an interface: nil, a value of a type, or the address of a variable\<close>

datatype 'v ival = NilVal | BoxVal goType 'v | AddrVal nat goType

text \<open>
  A trampoline is called with the address of variable \<open>i\<close> as argument \<open>i\<close>; \<open>populateHookContext\<close>
  puts the parameters of the trampoline, by name, into the slots.
\<close>

definition trampArgs :: "goType list \<Rightarrow> 'v ival list" where
  "trampArgs ts = map (\<lambda>i. case ts ! i of TStar t \<Rightarrow> AddrVal i t | t \<Rightarrow> NilVal) [0..<length ts]"

definition populateHookContext :: "typeField list \<Rightarrow> 'v ival list" where
  "populateHookContext tramp =
     (let names = getNames tramp; bound = map_of (zip names (trampArgs (map snd tramp)))
      in map (\<lambda>n. the (bound n)) names)"

definition paramSlots :: "targetFunc \<Rightarrow> 'v ival list" where
  "paramSlots fn = populateHookContext (buildTrampSignature fn True)"

definition resultSlots :: "targetFunc \<Rightarrow> 'v ival list" where
  "resultSlots fn = populateHookContext (tl (buildTrampSignature fn False))"

section \<open>The meaning of the accessors\<close>

record 'v valueEnv =
  assertsTo :: "goType \<Rightarrow> 'v ival \<Rightarrow> bool"
  zeroOf :: "goType \<Rightarrow> 'v ival"

definition getValue :: "goType \<Rightarrow> 'v ival list \<Rightarrow> (nat \<Rightarrow> 'v ival) \<Rightarrow> nat \<Rightarrow> 'v ival option" where
  "getValue t slots vars idx =
     (if length slots \<le> idx then None
      else if isInterface t then Some (slots ! idx)
      else case slots ! idx of
             AddrVal i u \<Rightarrow> if u = t then Some (vars i) else None
           | _ \<Rightarrow> None)"

definition setValue ::
    "'v valueEnv \<Rightarrow> goType \<Rightarrow> 'v ival list \<Rightarrow> (nat \<Rightarrow> 'v ival) \<Rightarrow> nat \<Rightarrow> 'v ival \<Rightarrow>
     ('v ival list \<times> (nat \<Rightarrow> 'v ival)) option" where
  "setValue E t slots vars idx val =
     (if length slots \<le> idx then None
      else if isInterface t then Some (slots[idx := val], vars)
      else case slots ! idx of
             AddrVal i u \<Rightarrow>
               if u \<noteq> t then None
               else if val = NilVal then Some (slots, vars(i := zeroOf E t))
               else if assertsTo E t val then Some (slots, vars(i := val))
               else None
           | _ \<Rightarrow> None)"

definition getAt :: "(nat \<times> goType) list \<Rightarrow> 'v ival list \<Rightarrow> (nat \<Rightarrow> 'v ival) \<Rightarrow> nat \<Rightarrow> 'v ival option" where
  "getAt clauses slots vars idx =
     (case map_of clauses idx of None \<Rightarrow> Some NilVal | Some t \<Rightarrow> getValue t slots vars idx)"

definition setAt ::
    "'v valueEnv \<Rightarrow> (nat \<times> goType) list \<Rightarrow> 'v ival list \<Rightarrow> (nat \<Rightarrow> 'v ival) \<Rightarrow> nat \<Rightarrow> 'v ival \<Rightarrow>
     ('v ival list \<times> (nat \<Rightarrow> 'v ival)) option" where
  "setAt E clauses slots vars idx val =
     (case map_of clauses idx of None \<Rightarrow> Some (slots, vars) | Some t \<Rightarrow> setValue E t slots vars idx val)"

text \<open>The accessors of a function; those of a generic function panic.\<close>

definition getParam :: "bool \<Rightarrow> targetFunc \<Rightarrow> 'v ival list \<Rightarrow> (nat \<Rightarrow> 'v ival) \<Rightarrow> nat \<Rightarrow> 'v ival option" where
  "getParam generic fn slots vars idx =
     (if generic then None else getAt (rewriteParamMethods fn) slots vars idx)"

definition setParam ::
    "'v valueEnv \<Rightarrow> bool \<Rightarrow> targetFunc \<Rightarrow> 'v ival list \<Rightarrow> (nat \<Rightarrow> 'v ival) \<Rightarrow> nat \<Rightarrow> 'v ival \<Rightarrow>
     ('v ival list \<times> (nat \<Rightarrow> 'v ival)) option" where
  "setParam E generic fn slots vars idx val =
     (if generic then None else setAt E (rewriteParamMethods fn) slots vars idx val)"

definition getReturnVal :: "bool \<Rightarrow> targetFunc \<Rightarrow> 'v ival list \<Rightarrow> (nat \<Rightarrow> 'v ival) \<Rightarrow> nat \<Rightarrow> 'v ival option" where
  "getReturnVal generic fn slots vars idx =
     (if generic then None else getAt (rewriteReturnValMethods fn) slots vars idx)"

definition setReturnVal ::
    "'v valueEnv \<Rightarrow> bool \<Rightarrow> targetFunc \<Rightarrow> 'v ival list \<Rightarrow> (nat \<Rightarrow> 'v ival) \<Rightarrow> nat \<Rightarrow> 'v ival \<Rightarrow>
     ('v ival list \<times> (nat \<Rightarrow> 'v ival)) option" where
  "setReturnVal E generic fn slots vars idx val =
     (if generic then None else setAt E (rewriteReturnValMethods fn) slots vars idx val)"

section \<open>Clauses and slots fit\<close>

lemma map_of_enumerate:
  "map_of (enumerate n xs) i = (if n \<le> i \<and> i < n + length xs then Some (xs ! (i - n)) else None)"
  by (induction xs arbitrary: n) (auto simp: nth_Cons' Suc_le_eq)

text \<open>
  The contract between the generated cases and the slots: case \<open>i\<close> asserts the type of variable
  \<open>i\<close>, and slot \<open>i\<close> holds its address.
\<close>

locale slot_access =
  fixes clausesOf :: "targetFunc \<Rightarrow> (nat \<times> goType) list"
    and slotsOf :: "targetFunc \<Rightarrow> 'v ival list"
    and typesOf :: "targetFunc \<Rightarrow> goType list"
    and usable :: "targetFunc \<Rightarrow> bool"
  assumes clauses: "usable fn \<Longrightarrow> clausesOf fn = enumerate 0 (typesOf fn)"
    and slots: "usable fn \<Longrightarrow> slotsOf fn = map (\<lambda>i. AddrVal i (typesOf fn ! i)) [0..<length (typesOf fn)]"
begin

lemma clause_at: "usable fn \<Longrightarrow> map_of (clausesOf fn) i = (if i < length (typesOf fn) then Some (typesOf fn ! i) else None)"
  by (simp add: clauses map_of_enumerate)

lemma get_outside: "usable fn \<Longrightarrow> length (typesOf fn) \<le> i \<Longrightarrow> getAt (clausesOf fn) (slotsOf fn) vars i = Some NilVal"
  by (simp add: getAt_def clause_at)

lemma set_outside:
  "usable fn \<Longrightarrow> length (typesOf fn) \<le> i \<Longrightarrow> setAt E (clausesOf fn) (slotsOf fn) vars i v = Some (slotsOf fn, vars)"
  by (simp add: setAt_def clause_at)

lemma get_value:
  assumes "usable fn" and "i < length (typesOf fn)" and "\<not> isInterface (typesOf fn ! i)"
  shows "getAt (clausesOf fn) (slotsOf fn) vars i = Some (vars i)"
  using assms by (simp add: getAt_def clause_at getValue_def slots)

lemma set_value:
  assumes "usable fn" and "i < length (typesOf fn)" and "\<not> isInterface (typesOf fn ! i)"
    and "v = NilVal \<or> assertsTo E (typesOf fn ! i) v"
  shows "setAt E (clausesOf fn) (slotsOf fn) vars i v =
    Some (slotsOf fn, vars(i := if v = NilVal then zeroOf E (typesOf fn ! i) else v))"
  using assms by (auto simp: setAt_def clause_at setValue_def slots)

lemma set_wrong:
  assumes "usable fn" and "i < length (typesOf fn)" and "\<not> isInterface (typesOf fn ! i)"
    and "v \<noteq> NilVal" and "\<not> assertsTo E (typesOf fn ! i) v"
  shows "setAt E (clausesOf fn) (slotsOf fn) vars i v = None"
  using assms by (auto simp: setAt_def clause_at setValue_def slots)

lemma interface_value:
  assumes "usable fn" and "i < length (typesOf fn)" and "isInterface (typesOf fn ! i)"
  shows "getAt (clausesOf fn) (slotsOf fn) vars i = Some (AddrVal i (typesOf fn ! i)) \<and>
    setAt E (clausesOf fn) (slotsOf fn) vars i v = Some ((slotsOf fn)[i := v], vars)"
  using assms by (simp add: getAt_def setAt_def clause_at getValue_def setValue_def slots)

end

text \<open>The types of the parameters as the cases see them, and those of the results\<close>

definition paramTypesOf :: "targetFunc \<Rightarrow> goType list" where
  "paramTypesOf fn = map desugarType (argTypes fn)"

definition resultTypesOf :: "targetFunc \<Rightarrow> goType list" where
  "resultTypesOf fn = map desugarType (paramTypes (resultFields fn))"

definition usableFunc :: "targetFunc \<Rightarrow> bool" where
  "usableFunc fn \<longleftrightarrow> allNamed fn \<and> (case tfRecv fn of Some (ns, TEllipsis t) \<Rightarrow> False | _ \<Rightarrow> True)"

lemma fieldClauses_enumerate:
  "list_all (\<lambda>f. fst f \<noteq> []) fs \<Longrightarrow> fieldClauses i fs = enumerate i (map desugarType (paramTypes fs))"
proof (induction fs arbitrary: i)
  case Nil
  then show ?case by (simp add: paramTypes_def)
next
  case (Cons f fs)
  then have "paramTypes (f # fs) = replicate (length (fst f)) (snd f) @ paramTypes fs"
    by (simp add: paramTypes_def splitField_def map_replicate_const comp_def)
  moreover have "map (\<lambda>k. (i + k, desugarType (snd f))) [0..<length (fst f)] =
      enumerate i (replicate (length (fst f)) (desugarType (snd f)))"
    by (auto intro!: nth_equalityI simp: nth_enumerate_eq)
  ultimately show ?case using Cons by (simp add: enumerate_append_eq)
qed

definition oneName :: "typeField \<Rightarrow> bool" where
  "oneName f \<longleftrightarrow> length (fst f) = 1"

lemma renumber_named:
  "list_all oneName fs \<Longrightarrow>
     getNames (renumber pre i fs) = map (\<lambda>k. pre @ itoa k) [i..<i + length fs]"
proof (induction fs arbitrary: i)
  case Nil
  then show ?case by (simp add: getNames_def)
next
  case (Cons f fs)
  then have "getNames (renumber pre (Suc i) fs) = map (\<lambda>k. pre @ itoa k) [Suc i..<Suc i + length fs]" by simp
  moreover have "[i..<i + length (f # fs)] = i # [Suc i..<Suc i + length fs]"
    by (simp add: upt_conv_Cons del: upt_Suc)
  moreover have "fst (renameField pre i f) = [pre @ itoa i]" using Cons.prems by (simp add: renameField_def oneName_def)
  ultimately show ?case using Cons.prems by (simp add: getNames_def oneName_def del: upt_Suc)
qed

lemma itoa_inj: "itoa i = itoa j \<longleftrightarrow> i = j"
  using readDigits_itoa by metis

lemma renumber_distinct:
  "list_all oneName fs \<Longrightarrow> distinct (getNames (renumber pre i fs))"
  by (simp add: renumber_named distinct_map inj_on_def itoa_inj)

lemma splitFields_named:
  "list_all (\<lambda>f. fst f \<noteq> []) fs \<Longrightarrow> list_all oneName (splitFields fs)"
  by (auto simp: splitFields_def splitField_def list_all_iff oneName_def)

lemma getNames_map: "getNames (map (\<lambda>f. (fst f, g f)) fs) = getNames fs"
  by (simp add: getNames_def comp_def)

lemma getNames_append: "getNames (xs @ ys) = getNames xs @ getNames ys"
  by (simp add: getNames_def)

lemma getNames_length: "list_all oneName fs \<Longrightarrow> length (getNames fs) = length fs"
  by (induction fs) (simp_all add: getNames_def oneName_def)

lemma renumber_lengths:
  "list_all oneName fs \<Longrightarrow> list_all oneName (renumber pre i fs)"
  by (induction fs arbitrary: i) (simp_all add: renameField_def oneName_def)

text \<open>With one name per field and distinct names, the slots are the arguments in order.\<close>

lemma populate_slots:
  assumes "list_all oneName fs" and "distinct (getNames fs)"
    and "map snd fs = map TStar ts"
  shows "(populateHookContext fs :: 'v ival list) = map (\<lambda>i. AddrVal i (ts ! i)) [0..<length ts]"
proof -
  have len: "length (getNames fs) = length ts"
    using getNames_length [OF assms(1)] assms(3) by (metis length_map)
  have args: "(trampArgs (map snd fs) :: 'v ival list) = map (\<lambda>i. AddrVal i (ts ! i)) [0..<length ts]"
    by (simp add: trampArgs_def assms(3))
  then have l: "length (getNames fs) = length (trampArgs (map snd fs) :: 'v ival list)" using len by simp
  then have "map (\<lambda>n. the (map_of (zip (getNames fs) (trampArgs (map snd fs) :: 'v ival list)) n)) (getNames fs) =
      trampArgs (map snd fs)"
    using assms(2) by (intro nth_equalityI) (simp_all add: map_of_zip_nth)
  then show ?thesis by (simp add: populateHookContext_def Let_def args)
qed

lemma paramFields_one:
  assumes "allNamed fn"
  shows "list_all oneName (findTargetParamType fn) \<and> distinct (getNames (findTargetParamType fn))"
proof -
  have ps: "list_all oneName (splitFields (tfParams fn))"
    using assms by (intro splitFields_named) (simp add: allNamed_def)
  show ?thesis
  proof (cases "tfRecv fn")
    case None
    with ps show ?thesis by (simp add: findTargetParamType_def renumber_distinct renumber_lengths)
  next
    case (Some f)
    then have "fst f \<noteq> []" using assms by (simp add: allNamed_def recvFields_def)
    then have r: "list_all oneName [hd (splitField f)]"
      by (cases "fst f") (simp_all add: splitField_def oneName_def)
    then have "set (getNames (renumber ''recv'' 0 [hd (splitField f)])) \<inter>
        set (getNames (renumber ''param'' 0 (splitFields (tfParams fn)))) = {}"
      using ps by (auto simp only: renumber_named set_map) auto
    with Some r ps show ?thesis
      using renumber_distinct [OF r, of "''recv''" 0] renumber_distinct [OF ps, of "''param''" 0]
        renumber_lengths [OF r, of "''recv''" 0] renumber_lengths [OF ps, of "''param''" 0]
      by (simp only: findTargetParamType_def option.case getNames_append distinct_append list_all_append simp_thms)
  qed
qed

lemma resultFields_one:
  assumes "allNamed fn"
  shows "list_all oneName (findTargetResultType fn) \<and> distinct (getNames (findTargetResultType fn))"
proof (cases "tfResults fn")
  case None
  then show ?thesis by (simp add: findTargetResultType_def getNames_def)
next
  case (Some fs)
  then have "list_all oneName (splitFields fs)"
    using assms by (intro splitFields_named) (simp add: allNamed_def resultFields_def)
  with Some show ?thesis by (simp add: findTargetResultType_def renumber_distinct renumber_lengths)
qed

lemma paramSlots_addresses:
  assumes "allNamed fn"
  shows "paramSlots fn = map (\<lambda>i. AddrVal i (paramTypesOf fn ! i)) [0..<length (paramTypesOf fn)]"
  unfolding paramSlots_def
proof (rule populate_slots)
  let ?f = "map (\<lambda>f. (fst f, TStar (desugarType (snd f)))) (findTargetParamType fn)"
  have b: "buildTrampSignature fn True = ?f" by (simp add: buildTrampSignature_def)
  show "list_all oneName (buildTrampSignature fn True)"
    using paramFields_one [OF assms] by (simp add: b list_all_iff oneName_def)
  show "distinct (getNames (buildTrampSignature fn True))"
    using paramFields_one [OF assms] by (simp add: b getNames_map)
  show "map snd (buildTrampSignature fn True) = map TStar (paramTypesOf fn)"
    using paramField_types [of fn, symmetric] by (simp add: b paramTypesOf_def)
qed

lemma resultSlots_addresses:
  assumes "allNamed fn"
  shows "resultSlots fn = map (\<lambda>i. AddrVal i (resultTypesOf fn ! i)) [0..<length (resultTypesOf fn)]"
  unfolding resultSlots_def
proof (rule populate_slots)
  let ?f = "map (\<lambda>f. (fst f, TStar (desugarType (snd f)))) (findTargetResultType fn)"
  have b: "tl (buildTrampSignature fn False) = ?f" by (simp add: buildTrampSignature_def addHookContext_def)
  show "list_all oneName (tl (buildTrampSignature fn False))"
    using resultFields_one [OF assms] by (simp add: b list_all_iff oneName_def)
  show "distinct (getNames (tl (buildTrampSignature fn False)))"
    using resultFields_one [OF assms] by (simp add: b getNames_map)
  have "map snd (findTargetResultType fn) = paramTypes (resultFields fn)"
    by (auto simp: findTargetResultType_def resultFields_def renumber_types splitFields_def paramTypes_def split: option.split)
  moreover have "map snd ?f = map TStar (map desugarType (map snd (findTargetResultType fn)))" by simp
  ultimately show "map snd (tl (buildTrampSignature fn False)) = map TStar (resultTypesOf fn)"
    by (simp only: b resultTypesOf_def)
qed

lemma rewriteParamMethods_types:
  assumes "usableFunc fn"
  shows "rewriteParamMethods fn = enumerate 0 (paramTypesOf fn)"
proof (cases "tfRecv fn")
  case None
  with assms show ?thesis
    by (simp add: rewriteParamMethods_def paramTypesOf_def argTypes_def recvFields_def fieldClauses_enumerate
        usableFunc_def allNamed_def)
next
  case (Some f)
  obtain ns t where f: "f = (ns, t)" by (cases f)
  then have "desugarType t = t" using assms Some by (cases t) (auto simp: usableFunc_def desugarType_def)
  with Some f assms show ?thesis
    by (simp add: rewriteParamMethods_def paramTypesOf_def argTypes_def recvFields_def fieldClauses_enumerate
        usableFunc_def allNamed_def)
qed

interpretation params: slot_access rewriteParamMethods paramSlots paramTypesOf usableFunc
  by unfold_locales (simp_all add: rewriteParamMethods_types paramSlots_addresses usableFunc_def)

interpretation results: slot_access rewriteReturnValMethods resultSlots resultTypesOf usableFunc
  by unfold_locales (simp_all add: rewriteReturnValMethods_def resultSlots_addresses resultTypesOf_def
      fieldClauses_enumerate usableFunc_def allNamed_def)

section \<open>Properties\<close>

text \<open>
  What a getter and a setter of variables of the types \<open>ts\<close> do with the value \<open>v\<close>. An index without
  a variable reads nil and writes nothing. In front of an interface literal or \<open>any\<close> the slot is all
  they reach: the address is read and the slot overwritten. Otherwise the variable itself is read
  and written, nil writing its zero value and a value of another type being a panic.
\<close>

definition accessorsOf ::
    "'v valueEnv \<Rightarrow> goType list \<Rightarrow> 'v ival list \<Rightarrow> (nat \<Rightarrow> 'v ival) \<Rightarrow> 'v ival \<Rightarrow>
     (nat \<Rightarrow> 'v ival option) \<Rightarrow> (nat \<Rightarrow> ('v ival list \<times> (nat \<Rightarrow> 'v ival)) option) \<Rightarrow> bool" where
  "accessorsOf E ts slots vars v get put \<longleftrightarrow> (\<forall>i.
     (length ts \<le> i \<longrightarrow> get i = Some NilVal \<and> put i = Some (slots, vars)) \<and>
     (i < length ts \<and> isInterface (ts ! i) \<longrightarrow>
        get i = Some (AddrVal i (ts ! i)) \<and> put i = Some (slots[i := v], vars)) \<and>
     (i < length ts \<and> \<not> isInterface (ts ! i) \<longrightarrow> get i = Some (vars i) \<and>
        put i = (if v = NilVal then Some (slots, vars(i := zeroOf E (ts ! i)))
                 else if assertsTo E (ts ! i) v then Some (slots, vars(i := v)) else None)))"

lemma accessorsI:
  assumes "usableFunc fn"
  shows "accessorsOf E (paramTypesOf fn) (paramSlots fn) vars v (getParam False fn (paramSlots fn) vars)
      (\<lambda>i. setParam E False fn (paramSlots fn) vars i v)"
    and "accessorsOf E (resultTypesOf fn) (resultSlots fn) vars v (getReturnVal False fn (resultSlots fn) vars)
      (\<lambda>i. setReturnVal E False fn (resultSlots fn) vars i v)"
  using assms unfolding accessorsOf_def getParam_def setParam_def getReturnVal_def setReturnVal_def
  by (auto simp: params.get_value results.get_value params.set_value results.set_value params.set_wrong results.set_wrong
      params.get_outside params.set_outside results.get_outside results.set_outside params.interface_value results.interface_value)

text \<open>C26: what the accessors of a HookContext reach. The named parameters of the function are distinct,
  its receiver has at most one name and is not variadic; its signature is collected with names for
  everything. Then \<open>GetParam\<close> and \<open>SetParam\<close> reach the variables of the receiver and the parameters,
  and \<open>GetReturnVal\<close> and \<open>SetReturnVal\<close> those of the results, as \<open>accessorsOf\<close> says: except in front of
  an interface literal or \<open>any\<close>, where the variable is out of their reach. In a generic function all
  four panic.\<close>

theorem accessors_reach_variables:
  assumes "distinct (named (signatureNames f))" and "oneReceiverName f" and "\<nexists>ns t. tfRecv f = Some (ns, TEllipsis t)"
    and "collectSignature f hash = (fn, r)"
  shows "sameTypes f fn \<and>
    accessorsOf E (paramTypesOf fn) (paramSlots fn) vars v (getParam False fn (paramSlots fn) vars)
      (\<lambda>i. setParam E False fn (paramSlots fn) vars i v) \<and>
    accessorsOf E (resultTypesOf fn) (resultSlots fn) vars v (getReturnVal False fn (resultSlots fn) vars)
      (\<lambda>i. setReturnVal E False fn (resultSlots fn) vars i v) \<and>
    getParam True fn slots vars i = None \<and> setParam E True fn slots vars i v = None \<and>
    getReturnVal True fn slots vars i = None \<and> setReturnVal E True fn slots vars i v = None"
proof -
  have named: "allNamed fn" "sameTypes f fn"
    using signature_named [OF assms(1,2), of hash] assms(4) by (auto split: prod.splits)
  have "\<nexists>ns t. tfRecv fn = Some (ns, TEllipsis t)"
    using named(2) assms(3) by (auto simp: sameTypes_def recvFields_def split: option.splits)
  then have "usableFunc fn" using named(1) by (auto simp: usableFunc_def split: option.split goType.split)
  note A = accessorsI [OF this, of E vars v]
  have panics: "getParam True fn slots vars i = None" "setParam E True fn slots vars i v = None"
    "getReturnVal True fn slots vars i = None" "setReturnVal E True fn slots vars i v = None"
    by (simp_all add: getParam_def setParam_def getReturnVal_def setReturnVal_def)
  show ?thesis by (intro conjI named(2) A panics)
qed

definition demoEnv :: "nat valueEnv" where
  "demoEnv = \<lparr>assertsTo = (\<lambda>t v. case v of BoxVal u n \<Rightarrow> u = t | _ \<Rightarrow> False), zeroOf = (\<lambda>t. BoxVal t 0)\<rparr>"

definition demoTarget :: targetFunc where
  "demoTarget = \<lparr>tfName = ''F'', tfRecv = None,
     tfParams = [([''n''], TIdent ''int''), ([''v''], TIdent ''any'')], tfResults = Some [([], TIdent ''error'')]\<rparr>"

definition demoNamed :: targetFunc where
  "demoNamed = \<lparr>tfName = ''F'', tfRecv = None,
     tfParams = [([''n''], TIdent ''int''), ([''v''], TIdent ''any'')],
     tfResults = Some [([''_unnamedRetVal_7_0''], TIdent ''error'')]\<rparr>"

lemma demoTarget_types:
  "paramTypesOf demoNamed = [TIdent ''int'', TIdent ''any'']" "resultTypesOf demoNamed = [TIdent ''error'']"
  by code_simp+

theorem accessors_reach_variables_witness:
  "map_option (\<lambda>(s, vars). vars 0)
     (setParam demoEnv False demoNamed (paramSlots demoNamed) (\<lambda>i. BoxVal (TIdent ''int'') 4) 0 (BoxVal (TIdent ''int'') 9)) =
     Some (BoxVal (TIdent ''int'') 9) \<and>
   getParam False demoNamed (paramSlots demoNamed) (\<lambda>i. BoxVal (TIdent ''int'') (4::nat)) 1 = Some (AddrVal 1 (TIdent ''any'')) \<and>
   getReturnVal False demoNamed (resultSlots demoNamed) (\<lambda>i. BoxVal (TIdent ''int'') (4::nat)) 0 = Some (BoxVal (TIdent ''int'') 4) \<and>
   getReturnVal False demoNamed (resultSlots demoNamed) (\<lambda>i. BoxVal (TIdent ''int'') (4::nat)) 1 = Some NilVal"
proof -
  have "distinct (named (signatureNames demoTarget))" "oneReceiverName demoTarget" "\<nexists>ns t. tfRecv demoTarget = Some (ns, TEllipsis t)"
    by (simp_all add: demoTarget_def signatureNames_def getNames_def recvFields_def resultFields_def named_def oneReceiverName_def)
  moreover have "fst (collectSignature demoTarget ''7'') = demoNamed" by code_simp
  then have "collectSignature demoTarget ''7'' = (demoNamed, snd (collectSignature demoTarget ''7''))" by (metis prod.collapse)
  ultimately have A: "sameTypes demoTarget demoNamed \<and>
      accessorsOf demoEnv (paramTypesOf demoNamed) (paramSlots demoNamed) (\<lambda>i. BoxVal (TIdent ''int'') 4) (BoxVal (TIdent ''int'') 9)
        (getParam False demoNamed (paramSlots demoNamed) (\<lambda>i. BoxVal (TIdent ''int'') 4))
        (\<lambda>i. setParam demoEnv False demoNamed (paramSlots demoNamed) (\<lambda>i. BoxVal (TIdent ''int'') 4) i (BoxVal (TIdent ''int'') 9)) \<and>
      accessorsOf demoEnv (resultTypesOf demoNamed) (resultSlots demoNamed) (\<lambda>i. BoxVal (TIdent ''int'') 4) (BoxVal (TIdent ''int'') 9)
        (getReturnVal False demoNamed (resultSlots demoNamed) (\<lambda>i. BoxVal (TIdent ''int'') 4))
        (\<lambda>i. setReturnVal demoEnv False demoNamed (resultSlots demoNamed) (\<lambda>i. BoxVal (TIdent ''int'') 4) i (BoxVal (TIdent ''int'') 9))"
    using accessors_reach_variables by blast
  note P = A [THEN conjunct2, THEN conjunct1, unfolded accessorsOf_def demoTarget_types]
    and R = A [THEN conjunct2, THEN conjunct2, unfolded accessorsOf_def demoTarget_types]
  from spec [OF P, of 0] spec [OF P, of 1] spec [OF R, of 0] spec [OF R, of 1] show ?thesis
    by (simp add: isInterface_def demoEnv_def)
qed

end
