(* ===== verification/Call_Template.thy ===== *)
theory Call_Template
  imports Rule_Imports Hook_Context Directives
begin

text \<open>
  Code templates of call rules: \<open>call_template.go\<close>, \<open>func_template.go\<close> and \<open>stripDynamicIdents\<close> of
  \<open>imports.go\<close> in \<open>tool/internal/instrument\<close>. A template is executed with data of the wrapped
  call and of the function around it, the text is parsed, the qualifiers of the rule are renamed,
  and placeholders are replaced by the call and its arguments.

  A template is the process that \<open>text/template\<close> runs: it writes text and asks for data until it
  is done. Parsing a template, parsing Go code and printing an expression are parameters.

  Shown: the passes over the parsed code amount to one substitution, which puts the code and the
  names of the target in as they are, and renames only what the rule wrote.
\<close>

section \<open>The function around a call\<close>

record funcTemplateData =
  fdDecl :: funcDecl
  fdDirectiveArgs :: "DirectiveArg list"
  fdImports :: "(string \<Rightarrow> string option) option"
  fdHash :: string
  fdFullArgs :: "string list option"
  fdArgs :: "string list option"
  fdRets :: "string list option"

definition newFuncTemplateData ::
    "funcDecl \<Rightarrow> DirectiveArg list \<Rightarrow> (string \<Rightarrow> string option) option \<Rightarrow> string \<Rightarrow> funcTemplateData" where
  "newFuncTemplateData f dargs imports hash =
     \<lparr>fdDecl = f, fdDirectiveArgs = dargs, fdImports = imports, fdHash = hash,
      fdFullArgs = None, fdArgs = None, fdRets = None\<rparr>"

definition fieldsOf :: "goField list option \<Rightarrow> goField list" where
  "fieldsOf l = (case l of None \<Rightarrow> [] | Some fs \<Rightarrow> fs)"

definition HasReceiver :: "funcDecl \<Rightarrow> bool" where
  "HasReceiver f \<longleftrightarrow> fieldsOf (fdRecv f) \<noteq> []"

definition takenNames :: "funcDecl \<Rightarrow> string list" where
  "takenNames f =
     getNames (fieldsOf (fdRecv f)) @ getNames (fieldsOf (ftParams (fdType f))) @ getNames (fieldsOf (ftResults (fdType f)))"

text \<open>\<open>collectArguments\<close> and \<open>collectReturnValues\<close> on a declaration: it gets the names.\<close>

definition nameReceiver :: "string \<Rightarrow> funcDecl \<Rightarrow> goField list option \<times> string list \<times> string list \<times> nat" where
  "nameReceiver hash f =
     (case fieldsOf (fdRecv f) of
        [] \<Rightarrow> (fdRecv f, [], takenNames f, 0)
      | (ns, t) # others \<Rightarrow>
          (case (if ns = [] \<or> hd ns = ''_'' then nextName ''_ignoredParam'' hash (takenNames f) 0
                 else (hd ns, takenNames f, 0)) of
             (r, taken, idx) \<Rightarrow> (Some ((r # tl ns, t) # others), [r], taken, idx)))"

definition nameArguments :: "funcDecl \<Rightarrow> string \<Rightarrow> funcDecl \<times> string list" where
  "nameArguments f hash =
     (case nameReceiver hash f of
        (recv, r, taken, idx) \<Rightarrow>
          (case nameFields ''_ignoredParam'' ''_ignoredParam'' hash taken idx (fieldsOf (ftParams (fdType f))) of
             (ps, taken', idx') \<Rightarrow>
               (f\<lparr>fdRecv := recv, fdType := (fdType f)\<lparr>ftParams := Some ps\<rparr>\<rparr>, r @ getNames ps)))"

definition nameReturns :: "funcDecl \<Rightarrow> string \<Rightarrow> funcDecl \<times> string list" where
  "nameReturns f hash =
     (case ftResults (fdType f) of
        None \<Rightarrow> (f, [])
      | Some fs \<Rightarrow>
          (case nameFields ''_unnamedRetVal'' ''_ignoredRetVal'' hash (takenNames f) 0 fs of
             (rs, taken, idx) \<Rightarrow> (f\<lparr>fdType := (fdType f)\<lparr>ftResults := Some rs\<rparr>\<rparr>, getNames rs)))"

definition fullArguments :: "funcTemplateData \<Rightarrow> string list \<times> funcTemplateData" where
  "fullArguments d =
     (case fdFullArgs d of
        Some as \<Rightarrow> (as, d)
      | None \<Rightarrow> (case nameArguments (fdDecl d) (fdHash d) of
                   (f, as) \<Rightarrow> (as, d\<lparr>fdDecl := f, fdFullArgs := Some as\<rparr>)))"

definition arguments :: "funcTemplateData \<Rightarrow> string list \<times> funcTemplateData" where
  "arguments d =
     (case fdArgs d of
        Some as \<Rightarrow> (as, d)
      | None \<Rightarrow> (case fullArguments d of
                   (as, d') \<Rightarrow>
                     let args = (if HasReceiver (fdDecl d') then tl as else as)
                     in (args, d'\<lparr>fdArgs := Some args\<rparr>)))"

definition returnNames :: "funcTemplateData \<Rightarrow> string list \<times> funcTemplateData" where
  "returnNames d =
     (case fdRets d of
        Some rs \<Rightarrow> (rs, d)
      | None \<Rightarrow> (case nameReturns (fdDecl d) (fdHash d) of
                   (f, rs) \<Rightarrow> (rs, d\<lparr>fdDecl := f, fdRets := Some rs\<rparr>)))"

datatype templateError =
    NoEnclosingFunc
  | NoReceiver string
  | OutOfRange int nat
  | BadTypeName string
  | NotACall
  | NotRendered
  | Aborted

text \<open>The name of the first field of a type; \<open>idx\<close> counts the names in front of it.\<close>

fun nameOfType ::
    "string \<Rightarrow> (string \<Rightarrow> string option) option \<Rightarrow> string list \<Rightarrow> nat \<Rightarrow> goField list \<Rightarrow> templateError + string" where
  "nameOfType typeStr imports names idx [] = Inr []"
| "nameOfType typeStr imports names idx ((ns, t) # fs) =
     (case MatchesTypeName t typeStr imports of
        Inl e \<Rightarrow> Inl (BadTypeName e)
      | Inr True \<Rightarrow> Inr (names ! idx)
      | Inr False \<Rightarrow> nameOfType typeStr imports names (idx + length ns) fs)"

definition nthName :: "int \<Rightarrow> string list \<Rightarrow> templateError + string" where
  "nthName idx names =
     (if idx < 0 \<or> idx \<ge> int (length names) then Inl (OutOfRange idx (length names)) else Inr (names ! nat idx))"

definition DirectiveArgOf :: "funcTemplateData \<Rightarrow> string \<Rightarrow> string" where
  "DirectiveArgOf d key =
     (case find (\<lambda>a. argKey a = key) (fdDirectiveArgs d) of None \<Rightarrow> [] | Some a \<Rightarrow> argValue a)"
section \<open>What a template asks for\<close>

definition dynamicIdentMarker :: string where
  "dynamicIdentMarker = ''_OTELCDYN_''"

definition markDynamicIdent :: "string \<Rightarrow> string" where
  "markDynamicIdent name = (if name = [] then name else dynamicIdentMarker @ name)"

datatype funcQuery =
    FuncName
  | FuncArgument int
  | FuncReturn int
  | FuncArgumentCount
  | FuncReturnCount
  | Receiver
  | FuncArgumentOfType string
  | FuncReturnOfType string
  | DirectiveArgAt string

datatype answer = Text string | Count nat

definition dynamicName :: "templateError + string \<Rightarrow> templateError + answer" where
  "dynamicName r = (case r of Inl e \<Rightarrow> Inl e | Inr n \<Rightarrow> Inr (Text (markDynamicIdent n)))"

text \<open>The methods of \<open>renderingFuncTemplateData\<close>\<close>

fun funcAnswer :: "funcQuery \<Rightarrow> funcTemplateData \<Rightarrow> (templateError + answer) \<times> funcTemplateData" where
  "funcAnswer FuncName d = (dynamicName (Inr (fdName (fdDecl d))), d)"
| "funcAnswer (FuncArgument idx) d = (case arguments d of (as, d') \<Rightarrow> (dynamicName (nthName idx as), d'))"
| "funcAnswer (FuncReturn idx) d = (case returnNames d of (rs, d') \<Rightarrow> (dynamicName (nthName idx rs), d'))"
| "funcAnswer FuncArgumentCount d = (case arguments d of (as, d') \<Rightarrow> (Inr (Count (length as)), d'))"
| "funcAnswer FuncReturnCount d = (case returnNames d of (rs, d') \<Rightarrow> (Inr (Count (length rs)), d'))"
| "funcAnswer Receiver d =
     (if \<not> HasReceiver (fdDecl d) then (Inl (NoReceiver (fdName (fdDecl d))), d)
      else case fullArguments d of (as, d') \<Rightarrow> (dynamicName (Inr (hd as)), d'))"
| "funcAnswer (FuncArgumentOfType typeStr) d =
     (case arguments d of (as, d') \<Rightarrow>
        (dynamicName (nameOfType typeStr (fdImports d') as 0 (fieldsOf (ftParams (fdType (fdDecl d'))))), d'))"
| "funcAnswer (FuncReturnOfType typeStr) d =
     (case returnNames d of (rs, d') \<Rightarrow>
        (dynamicName (nameOfType typeStr (fdImports d') rs 0 (fieldsOf (ftResults (fdType (fdDecl d'))))), d'))"
| "funcAnswer (DirectiveArgAt key) d = (Inr (Text (DirectiveArgOf d key)), d)"

record callTemplateData =
  cdEnclosing :: "funcTemplateData option"
  cdIsCall :: bool
  cdCallArgs :: "code list"
  cdRendered :: "nat list"

datatype callQuery = Self | OfFunc funcQuery | CallArgument int | CallArgumentCount

definition placeholderIdent :: string where
  "placeholderIdent = ''_.PLACEHOLDER_0''"

definition callArgPlaceholderIdent :: "nat \<Rightarrow> string" where
  "callArgPlaceholderIdent idx = ''_.CALLARG_'' @ itoa idx"

text \<open>The methods of \<open>renderingCallTemplateData\<close>; it has none for directive arguments.\<close>

fun callAnswer :: "(code \<Rightarrow> string option) \<Rightarrow> callQuery \<Rightarrow> callTemplateData \<Rightarrow> (templateError + answer) \<times> callTemplateData" where
  "callAnswer render Self d = (Inr (Text placeholderIdent), d)"
| "callAnswer render (OfFunc q) d =
     (case (q, cdEnclosing d) of
        (DirectiveArgAt key, _) \<Rightarrow> (Inl Aborted, d)
      | (_, None) \<Rightarrow> (Inl NoEnclosingFunc, d)
      | (_, Some f) \<Rightarrow> (case funcAnswer q f of (a, f') \<Rightarrow> (a, d\<lparr>cdEnclosing := Some f'\<rparr>)))"
| "callAnswer render (CallArgument idx) d =
     (if \<not> cdIsCall d then (Inl NotACall, d)
      else if idx < 0 \<or> idx \<ge> int (length (cdCallArgs d)) then (Inl (OutOfRange idx (length (cdCallArgs d))), d)
      else if render (cdCallArgs d ! nat idx) = None then (Inl NotRendered, d)
      else (Inr (Text (callArgPlaceholderIdent (nat idx))), d\<lparr>cdRendered := List.insert (nat idx) (cdRendered d)\<rparr>))"
| "callAnswer render CallArgumentCount d =
     (if \<not> cdIsCall d then (Inl NotACall, d) else (Inr (Count (length (cdCallArgs d))), d))"

section \<open>Running a template\<close>

datatype 'q template =
    Done
  | Abort
  | Emit string "'q template"
  | Ask 'q "answer \<Rightarrow> 'q template"

primrec runTemplate ::
    "('q \<Rightarrow> 'd \<Rightarrow> (templateError + answer) \<times> 'd) \<Rightarrow> 'q template \<Rightarrow> 'd \<Rightarrow> (templateError + string) \<times> 'd" where
  "runTemplate ask Done d = (Inr [], d)"
| "runTemplate ask Abort d = (Inl Aborted, d)"
| "runTemplate ask (Emit s t) d =
     (case runTemplate ask t d of (Inl e, d') \<Rightarrow> (Inl e, d') | (Inr r, d') \<Rightarrow> (Inr (s @ r), d'))"
| "runTemplate ask (Ask q k) d =
     (case ask q d of (Inl e, d') \<Rightarrow> (Inl e, d') | (Inr a, d') \<Rightarrow> runTemplate ask (k a) d')"
section \<open>Passes over the parsed code\<close>

text \<open>\<open>strings.ReplaceAll\<close> with nothing in place of a non-empty text\<close>

function removeAll :: "string \<Rightarrow> string \<Rightarrow> string" where
  "removeAll old [] = []"
| "removeAll old (c # s) =
     (if old \<noteq> [] \<and> hasPrefix (c # s) old then removeAll old (drop (length old) (c # s)) else c # removeAll old s)"
  by pat_completeness auto
termination by (relation "measure (\<lambda>(old, s). length s)") auto

fun stripKind :: "codeKind \<Rightarrow> codeKind" where
  "stripKind (Sel s) = Sel (trimPrefix s dynamicIdentMarker)"
| "stripKind k = k"

fun stripDynamicIdents :: "code \<Rightarrow> code" where
  "stripDynamicIdents (IdentN p n) = IdentN p (trimPrefix n dynamicIdentMarker)"
| "stripDynamicIdents (LitN v) = LitN (removeAll dynamicIdentMarker v)"
| "stripDynamicIdents (Node k cs) = Node (stripKind k) (map stripDynamicIdents cs)"

fun unwrap :: "code \<Rightarrow> code" where
  "unwrap (Node Paren [c]) = unwrap c"
| "unwrap c = c"

text \<open>\<open>dst.Clone\<close>: the same code, its nodes in no table\<close>

fun cloneKind :: "codeKind \<Rightarrow> codeKind" where
  "cloneKind (Call i e) = Call None e"
| "cloneKind (Stmt i decs k) = Stmt None decs k"
| "cloneKind k = k"

fun cloneCode :: "code \<Rightarrow> code" where
  "cloneCode (IdentN p n) = IdentN p n"
| "cloneCode (LitN v) = LitN v"
| "cloneCode (Node k cs) = Node (cloneKind k) (map cloneCode cs)"

text \<open>\<open>strconv.Atoi\<close> on the rest of an identifier, which has no sign\<close>

definition callArgIndex :: "nat \<Rightarrow> codeKind \<Rightarrow> code list \<Rightarrow> nat option" where
  "callArgIndex n k cs =
     (case (k, cs) of
        (Sel s, [IdentN p x]) \<Rightarrow>
          let digits = trimPrefix s ''CALLARG_''
          in if x = ''_'' \<and> digits \<noteq> [] \<and> list_all isAsciiDigit digits \<and> readDigits digits < n
             then Some (readDigits digits) else None
      | _ \<Rightarrow> None)"

text \<open>The code, and the indices that were replaced\<close>

fun replaceCallArgPlaceholders :: "code list \<Rightarrow> code \<Rightarrow> code \<times> nat list" where
  "replaceCallArgPlaceholders callArgs (IdentN p n) = (IdentN p n, [])"
| "replaceCallArgPlaceholders callArgs (LitN v) = (LitN v, [])"
| "replaceCallArgPlaceholders callArgs (Node k cs) =
     (case callArgIndex (length callArgs) k cs of
        Some idx \<Rightarrow> (cloneCode (callArgs ! idx), [idx])
      | None \<Rightarrow> let rs = map (replaceCallArgPlaceholders callArgs) cs
                in (Node k (map fst rs), concat (map snd rs)))"

definition isPlaceholder :: "codeKind \<Rightarrow> code list \<Rightarrow> bool" where
  "isPlaceholder k cs = (case (k, cs) of (Sel s, [IdentN p x]) \<Rightarrow> x = ''_'' \<and> s = ''PLACEHOLDER_0'' | _ \<Rightarrow> False)"

fun replacePlaceholder :: "code \<Rightarrow> code \<Rightarrow> code \<times> bool" where
  "replacePlaceholder replacement (IdentN p n) = (IdentN p n, False)"
| "replacePlaceholder replacement (LitN v) = (LitN v, False)"
| "replacePlaceholder replacement (Node k cs) =
     (if isPlaceholder k cs then (replacement, True)
      else let rs = map (replacePlaceholder replacement) cs in (Node k (map fst rs), list_ex snd rs))"

section \<open>Compiling the replacement of a call\<close>

record codeTools =
  ctTemplate :: "string \<Rightarrow> callQuery template option"
  ctSnippet :: "string \<Rightarrow> code list option"
  ctRender :: "code \<Rightarrow> string option"

datatype compileError =
    TemplateSyntax string
  | TemplateFailed templateError
  | SnippetSyntax string
  | StatementCount nat
  | NotExpression
  | ArgumentLost nat
  | PlaceholderLost

definition singleExpr :: "code list \<Rightarrow> compileError + code" where
  "singleExpr stmts =
     (case stmts of
        [Node (Stmt i decs k) [x]] \<Rightarrow> if k = PlainStmt ''ExprStmt'' then Inr x else Inl NotExpression
      | [_] \<Rightarrow> Inl NotExpression
      | _ \<Rightarrow> Inl (StatementCount (length stmts)))"

definition callDataFor ::
    "code \<Rightarrow> funcDecl option \<Rightarrow> (string \<Rightarrow> string option) option \<Rightarrow> callTemplateData" where
  "callDataFor node enclosing imports =
     (case unwrap node of
        Node (Call i e) (f # args) \<Rightarrow>
          \<lparr>cdEnclosing = map_option (\<lambda>f. newFuncTemplateData f [] imports []) enclosing,
           cdIsCall = True, cdCallArgs = args, cdRendered = []\<rparr>
      | _ \<Rightarrow>
          \<lparr>cdEnclosing = map_option (\<lambda>f. newFuncTemplateData f [] imports []) enclosing,
           cdIsCall = False, cdCallArgs = [], cdRendered = []\<rparr>)"

text \<open>The expression, and the declaration around the call with the names the template asked for\<close>

definition compileExpression ::
    "codeTools \<Rightarrow> callQuery template \<Rightarrow> code \<Rightarrow> funcDecl option \<Rightarrow> (string \<Rightarrow> string option) option \<Rightarrow>
     (string \<Rightarrow> string option) \<Rightarrow> (compileError + code) \<times> funcDecl option" where
  "compileExpression T tmpl node enclosing imports overrides =
     (case runTemplate (callAnswer (ctRender T)) tmpl (callDataFor node enclosing imports) of
        (outcome, data) \<Rightarrow>
          (case outcome of
             Inl e \<Rightarrow> Inl (TemplateFailed e)
           | Inr userResult \<Rightarrow>
               (case ctSnippet T userResult of
                  None \<Rightarrow> Inl (SnippetSyntax userResult)
                | Some stmts \<Rightarrow>
                    (case singleExpr stmts of
                       Inl e \<Rightarrow> Inl e
                     | Inr x \<Rightarrow>
                         (case replaceCallArgPlaceholders (cdCallArgs data) (stripDynamicIdents (replaceQualifierAliases overrides x)) of
                            (swappedArgs, swappedIdxs) \<Rightarrow>
                              (case find (\<lambda>idx. idx \<notin> set swappedIdxs) (cdRendered data) of
                                 Some idx \<Rightarrow> Inl (ArgumentLost idx)
                               | None \<Rightarrow>
                                   (case replacePlaceholder node swappedArgs of
                                      (result, replaced) \<Rightarrow>
                                        if contains userResult placeholderIdent \<and> \<not> replaced then Inl PlaceholderLost
                                        else Inr result))))),
           map_option fdDecl (cdEnclosing data)))"

section \<open>Expressions of a rule\<close>

definition parseGoExpression :: "codeTools \<Rightarrow> string \<Rightarrow> compileError + code" where
  "parseGoExpression T expr = (case ctSnippet T expr of None \<Rightarrow> Inl (SnippetSyntax expr) | Some stmts \<Rightarrow> singleExpr stmts)"

text \<open>The type of a value specification comes after its names.\<close>

definition parseGoTypeExpression :: "codeTools \<Rightarrow> string \<Rightarrow> compileError + code" where
  "parseGoTypeExpression T typeStr =
     (case ctSnippet T (''var _ '' @ typeStr) of
        None \<Rightarrow> Inl (SnippetSyntax typeStr)
      | Some [stmt] \<Rightarrow>
          (case stmt of
             Node (Stmt i decs DeclStmt) (Node (ValueSpecs n) cs # specs) \<Rightarrow>
               if length cs \<le> n \<or> cs ! n = nilNode then Inl NotExpression else Inr (cs ! n)
           | _ \<Rightarrow> Inl NotExpression)
      | Some stmts \<Rightarrow> Inl (StatementCount (length stmts)))"
section \<open>The substitution\<close>

text \<open>
  What a template stands for, given the call and its arguments: a placeholder is the call, the
  placeholder of an argument is the argument, a name marked as the target's is this name, and
  another name in front of a selector is renamed.
\<close>

fun fillTemplate :: "(string \<Rightarrow> string option) \<Rightarrow> code \<Rightarrow> code list \<Rightarrow> code \<Rightarrow> code" where
  "fillTemplate ov node args (IdentN p n) = IdentN p (trimPrefix n dynamicIdentMarker)"
| "fillTemplate ov node args (LitN v) = LitN (removeAll dynamicIdentMarker v)"
| "fillTemplate ov node args (Node k cs) =
     (let k' = stripKind k;
          cs' = (case (k, cs) of
                   (Sel s, [IdentN p n]) \<Rightarrow> [IdentN p (trimPrefix (renamed ov n) dynamicIdentMarker)]
                 | _ \<Rightarrow> map (fillTemplate ov node args) cs)
      in if isPlaceholder k' cs' then node
         else case callArgIndex (length args) k' cs' of
                Some idx \<Rightarrow> cloneCode (args ! idx)
              | None \<Rightarrow> Node k' cs')"

text \<open>Code of the target does not use the blank identifier as an operand.\<close>

definition validOperand :: "code \<Rightarrow> bool" where
  "validOperand c \<longleftrightarrow> (\<forall>p. c \<noteq> IdentN p ''_'') \<and> (\<forall>s p. Node (Sel s) [IdentN p ''_''] \<notin> set (subnodes c))"

definition asSel :: "codeKind \<Rightarrow> code list \<Rightarrow> (string \<times> string \<times> string) option" where
  "asSel k cs = (case (k, cs) of (Sel s, [IdentN p n]) \<Rightarrow> Some (s, p, n) | _ \<Rightarrow> None)"

lemma asSel_Some: "asSel k cs = Some (s, p, n) \<longleftrightarrow> k = Sel s \<and> cs = [IdentN p n]"
  by (auto simp: asSel_def split: codeKind.split list.split code.split)

lemma hole_sel:
  "asSel k cs = None \<Longrightarrow> \<not> isPlaceholder k cs" "asSel k cs = None \<Longrightarrow> callArgIndex m k cs = None"
  by (auto simp: asSel_def isPlaceholder_def callArgIndex_def split: codeKind.splits list.splits code.splits)

lemma hole_blank:
  "isPlaceholder (Sel s) [IdentN p n] \<Longrightarrow> n = ''_''" "callArgIndex m (Sel s) [IdentN p n] = Some i \<Longrightarrow> n = ''_''"
  by (auto simp: isPlaceholder_def callArgIndex_def Let_def split: if_splits)

lemma callArgIndex_less: "callArgIndex m k cs = Some i \<Longrightarrow> i < m"
  by (auto simp: callArgIndex_def Let_def split: codeKind.splits list.splits code.splits if_splits)

lemma placeholder_no_arg: "isPlaceholder k cs \<Longrightarrow> callArgIndex m k cs = None"
  by (auto simp: isPlaceholder_def callArgIndex_def trimPrefix_def Let_def isAsciiDigit_def
      split: codeKind.splits list.splits code.splits)

lemma subnodes_clone: "subnodes (cloneCode c) = map cloneCode (subnodes c)"
  by (induction c) (simp_all add: map_concat comp_def cong: map_cong)

lemma clone_ident: "cloneCode c = IdentN p n \<longleftrightarrow> c = IdentN p n"
  by (cases c) auto

lemma clone_sel: "cloneCode c = Node (Sel s) [IdentN p n] \<longleftrightarrow> c = Node (Sel s) [IdentN p n]"
  by (cases c; cases "case c of Node k cs \<Rightarrow> k | _ \<Rightarrow> Comp") (auto simp: clone_ident map_eq_Cons_conv)

lemma validOperand_clone: "validOperand c \<Longrightarrow> validOperand (cloneCode c)"
  by (auto simp: validOperand_def subnodes_clone clone_ident dest: sym simp: clone_sel)

lemma validOperand_sub: "validOperand c \<Longrightarrow> \<forall>s p. Node (Sel s) [IdentN p ''_''] \<notin> set (subnodes c)"
  by (simp add: validOperand_def)

lemma replacePlaceholder_none:
  "\<forall>s p. Node (Sel s) [IdentN p ''_''] \<notin> set (subnodes c) \<Longrightarrow> replacePlaceholder node c = (c, False)"
proof (induction c)
  case (Node k cs)
  have "\<not> isPlaceholder k cs"
  proof
    assume h: "isPlaceholder k cs"
    then obtain s p n where "asSel k cs = Some (s, p, n)" using hole_sel(1) by (cases "asSel k cs") auto
    with h hole_blank(1) have "k = Sel s" "cs = [IdentN p ''_'']" by (auto simp: asSel_Some)
    with Node.prems show False by simp
  qed
  moreover have "replacePlaceholder node c = (c, False)" if "c \<in> set cs" for c
    using Node that by auto
  then have "map (replacePlaceholder node) cs = map (\<lambda>c. (c, False)) cs" by simp
  ultimately show ?case by (simp add: comp_def list_ex_iff del: map_eq_conv)
qed simp_all

text \<open>The four passes are the substitution.\<close>

definition passes :: "(string \<Rightarrow> string option) \<Rightarrow> code \<Rightarrow> code list \<Rightarrow> code \<Rightarrow> code" where
  "passes ov node args x =
     fst (replacePlaceholder node (fst (replaceCallArgPlaceholders args (stripDynamicIdents (replaceQualifierAliases ov x)))))"

lemma argPass_blank:
  assumes "\<forall>a \<in> set args. validOperand a" and "fst (replaceCallArgPlaceholders args c) = IdentN p ''_''"
  shows "c = IdentN p ''_''"
proof (cases c)
  case (Node k cs)
  with assms callArgIndex_less [of "length args" k cs] show ?thesis
    by (auto simp: Let_def clone_ident validOperand_def split: option.splits)
qed (use assms in auto)

lemma stripDyn_ident: "stripDynamicIdents c = IdentN p n \<Longrightarrow> \<exists>m. c = IdentN p m"
  by (cases c) auto

lemma replaceQ_ident: "replaceQualifierAliases ov c = IdentN p n \<longleftrightarrow> c = IdentN p n"
  by (cases c) auto

lemma passes_sel:
  "passes ov node args (Node (Sel s) [IdentN p n]) = fillTemplate ov node args (Node (Sel s) [IdentN p n])"
  if "\<forall>a \<in> set args. validOperand a"
proof -
  let ?s = "trimPrefix s dynamicIdentMarker" and ?n = "trimPrefix (renamed ov n) dynamicIdentMarker"
  have q: "stripDynamicIdents (replaceQualifierAliases ov (Node (Sel s) [IdentN p n])) = Node (Sel ?s) [IdentN p ?n]"
    by (simp add: renamed_def)
  show ?thesis
  proof (cases "callArgIndex (length args) (Sel ?s) [IdentN p ?n]")
    case None
    then show ?thesis unfolding passes_def q by (simp add: Let_def)
  next
    case (Some i)
    then have np: "\<not> isPlaceholder (Sel ?s) [IdentN p ?n]" using placeholder_no_arg by fastforce
    have "validOperand (cloneCode (args ! i))"
      using that callArgIndex_less [OF Some] by (intro validOperand_clone) simp
    from replacePlaceholder_none [OF validOperand_sub [OF this]] Some np show ?thesis
      unfolding passes_def q by (simp add: Let_def)
  qed
qed
lemma passes_leaf [simp]:
  "passes ov node args (IdentN p n) = IdentN p (trimPrefix n dynamicIdentMarker)"
  "passes ov node args (LitN v) = LitN (removeAll dynamicIdentMarker v)"
  by (simp_all add: passes_def)

lemma asSel_map:
  assumes "asSel k cs = None" and "\<And>c p n. c \<in> set cs \<Longrightarrow> f c = IdentN p n \<Longrightarrow> \<exists>m. c = IdentN p m"
  shows "asSel k (map f cs) = None"
proof (rule ccontr)
  assume "asSel k (map f cs) \<noteq> None"
  then obtain s p n where k: "k = Sel s" and "map f cs = [IdentN p n]" by (auto simp: asSel_Some)
  then obtain c where "cs = [c]" "f c = IdentN p n" by (auto simp: map_eq_Cons_conv)
  with assms(2) [of c p n] assms(1) k show False by (auto simp: asSel_def)
qed

lemma replaceQ_other:
  "asSel k cs = None \<Longrightarrow> replaceQualifierAliases ov (Node k cs) = Node k (map (replaceQualifierAliases ov) cs)"
  by (auto simp: asSel_def split: codeKind.splits list.splits code.splits)

lemma asSel_strip: "asSel (stripKind k) cs = None \<longleftrightarrow> asSel k cs = None"
  by (cases k) (auto simp: asSel_def split: list.splits code.splits)

lemma fill_other:
  "asSel k cs = None \<Longrightarrow> fillTemplate ov node args (Node k cs) =
     (let k' = stripKind k; cs' = map (fillTemplate ov node args) cs
      in if isPlaceholder k' cs' then node
         else case callArgIndex (length args) k' cs' of Some idx \<Rightarrow> cloneCode (args ! idx) | None \<Rightarrow> Node k' cs')"
  by (auto simp: asSel_def split: codeKind.splits list.splits code.splits)

text \<open>A substituted child is never the blank identifier that a placeholder has.\<close>

lemma hole_ident:
  assumes "asSel k cs = None" and "\<And>c p. c \<in> set cs \<Longrightarrow> f c = IdentN p ''_'' \<Longrightarrow> \<exists>m. c = IdentN p m"
  shows "\<not> isPlaceholder k (map f cs)" and "callArgIndex m k (map f cs) = None"
proof -
  have "n \<noteq> ''_''" if sel: "asSel k (map f cs) = Some (s, p, n)" for s p n
  proof
    assume "n = ''_''"
    with sel have k: "k = Sel s" and "map f cs = [IdentN p ''_'']" by (simp_all add: asSel_Some)
    then obtain c where "cs = [c]" "f c = IdentN p ''_''" by (auto simp: map_eq_Cons_conv)
    with assms(2) [of c p] assms(1) k show False by (auto simp: asSel_def)
  qed
  then show "\<not> isPlaceholder k (map f cs)" and "callArgIndex m k (map f cs) = None"
    using hole_sel [of k "map f cs"] hole_blank by (cases "asSel k (map f cs)"; fastforce simp: asSel_Some)+
qed

lemma fill_blank:
  assumes "\<forall>a \<in> set args. validOperand a" and "validOperand node"
    and "fillTemplate ov node args c = IdentN p ''_''"
  shows "\<exists>m. c = IdentN p m"
proof (cases c)
  case (Node k cs)
  with assms callArgIndex_less show ?thesis
    by (auto simp: Let_def clone_ident validOperand_def split: option.splits if_splits simp del: stripKind.simps)
qed (use assms in auto)

lemma passes_fill:
  "\<forall>a \<in> set args. validOperand a \<Longrightarrow> validOperand node \<Longrightarrow> passes ov node args x = fillTemplate ov node args x"
proof (induction x)
  case (Node k cs)
  show ?case
  proof (cases "asSel k cs")
    case (Some sel)
    then obtain s p n where "k = Sel s" and "cs = [IdentN p n]" by (cases sel) (auto simp: asSel_Some)
    with Node.prems passes_sel show ?thesis by (simp only:)
  next
    case None
    let ?q = "\<lambda>c. stripDynamicIdents (replaceQualifierAliases ov c)"
    let ?a = "\<lambda>c. fst (replaceCallArgPlaceholders args (?q c))"
    have q: "?q (Node k cs) = Node (stripKind k) (map ?q cs)"
      unfolding replaceQ_other [OF None] by simp
    have s0: "asSel (stripKind k) cs = None" by (simp add: asSel_strip None)
    have "callArgIndex (length args) (stripKind k) (map ?q cs) = None"
      by (rule hole_ident(2) [OF s0]) (auto dest!: stripDyn_ident simp: replaceQ_ident)
    then have a: "?a (Node k cs) = Node (stripKind k) (map ?a cs)"
      unfolding q by (simp add: Let_def)
    have blank: "\<exists>m. c = IdentN p m" if "?a c = IdentN p ''_''" for c p
      using argPass_blank [OF Node.prems(1) that] by (auto dest!: stripDyn_ident simp: replaceQ_ident)
    have "\<not> isPlaceholder (stripKind k) (map ?a cs)"
      by (rule hole_ident(1) [OF s0]) (use blank in blast)
    then have p: "passes ov node args (Node k cs) = Node (stripKind k) (map (passes ov node args) cs)"
      unfolding passes_def a by (simp add: Let_def comp_def)
    have "passes ov node args c = fillTemplate ov node args c" if "c \<in> set cs" for c
      using Node that by simp
    then have m: "map (passes ov node args) cs = map (fillTemplate ov node args) cs" by simp
    have "\<not> isPlaceholder (stripKind k) (map (fillTemplate ov node args) cs)"
      and "callArgIndex (length args) (stripKind k) (map (fillTemplate ov node args) cs) = None"
      using hole_ident [OF s0, of "fillTemplate ov node args"] fill_blank [OF Node.prems] by blast+
    then show ?thesis unfolding p m fill_other [OF None] by (simp add: Let_def)
  qed
qed simp_all
section \<open>What is put in\<close>

lemma replaced_placeholder:
  "snd (replacePlaceholder node c) \<Longrightarrow> node \<in> set (subnodes (fst (replacePlaceholder node c)))"
proof (induction c)
  case (Node k cs)
  then show ?case by (cases "isPlaceholder k cs") (auto simp: list_ex_iff Let_def)
qed simp_all

lemma swapped_argument:
  assumes "\<forall>a \<in> set args. validOperand a"
  shows "idx \<in> set (snd (replaceCallArgPlaceholders args c)) \<Longrightarrow>
    cloneCode (args ! idx) \<in> set (subnodes (fst (replacePlaceholder node (fst (replaceCallArgPlaceholders args c)))))"
proof (induction c)
  case (Node k cs)
  show ?case
  proof (cases "callArgIndex (length args) k cs")
    case (Some i)
    have "validOperand (cloneCode (args ! i))"
      using assms callArgIndex_less [OF Some] by (intro validOperand_clone) simp
    from replacePlaceholder_none [OF validOperand_sub [OF this]] Some Node.prems show ?thesis by simp
  next
    case None
    let ?f = "\<lambda>c. fst (replaceCallArgPlaceholders args c)"
    obtain c where c: "c \<in> set cs" "idx \<in> set (snd (replaceCallArgPlaceholders args c))"
      using Node.prems None by (auto simp: Let_def)
    have "\<not> isPlaceholder k (map ?f cs)"
    proof
      assume h: "isPlaceholder k (map ?f cs)"
      then obtain s p n where "asSel k (map ?f cs) = Some (s, p, n)"
        using hole_sel(1) [of k "map ?f cs"] by (cases "asSel k (map ?f cs)") auto
      with h hole_blank(1) have "map ?f cs = [IdentN p ''_'']" by (auto simp: asSel_Some)
      then obtain d where "cs = [d]" "?f d = IdentN p ''_''" by (auto simp: map_eq_Cons_conv)
      with c argPass_blank [OF assms, of d p] show False by simp
    qed
    with c Node.IH [OF c(1)] show ?thesis using None by (auto simp: Let_def comp_def intro!: bexI [of _ c])
  qed
qed simp_all

lemma runTemplate_invariant:
  assumes "\<And>q d. P d \<Longrightarrow> P (snd (ask q d))"
  shows "P d \<Longrightarrow> P (snd (runTemplate ask t d))"
proof (induction t arbitrary: d)
  case (Emit s t)
  then show ?case by (auto split: prod.split sum.split) (metis snd_conv)+
next
  case (Ask q k)
  obtain a d' where a: "ask q d = (a, d')" by fastforce
  have "P d'" using assms [OF Ask.prems, of q] a by simp
  with Ask.IH a show ?case by (auto split: sum.split)
qed simp_all

lemma callAnswer_args [simp]: "cdCallArgs (snd (callAnswer render q d)) = cdCallArgs d"
  by (cases q) (auto split: funcQuery.split option.split prod.split)

section \<open>Names of the declaration\<close>

text \<open>Only missing and blank names are filled in; the types stay.\<close>

definition fieldNamed :: "string list \<times> 't \<Rightarrow> string list \<times> 't \<Rightarrow> bool" where
  "fieldNamed f f' \<longleftrightarrow> snd f' = snd f \<and> (fst f = [] \<or> list_all2 (\<lambda>n n'. n' = n \<or> n = ''_'') (fst f) (fst f'))"

definition onlyNamed :: "funcDecl \<Rightarrow> funcDecl \<Rightarrow> bool" where
  "onlyNamed f f' \<longleftrightarrow> fdName f' = fdName f \<and> fdStart f' = fdStart f \<and>
     list_all2 fieldNamed (fieldsOf (fdRecv f)) (fieldsOf (fdRecv f')) \<and>
     list_all2 fieldNamed (fieldsOf (ftParams (fdType f))) (fieldsOf (ftParams (fdType f'))) \<and>
     list_all2 fieldNamed (fieldsOf (ftResults (fdType f))) (fieldsOf (ftResults (fdType f')))"

lemma fieldNamed_refl [simp]: "fieldNamed f f"
  by (simp add: fieldNamed_def list_all2_refl)

lemma fieldsNamed_refl [simp]: "list_all2 fieldNamed fs fs"
  by (simp add: list_all2_refl)

lemma fieldNamed_trans: "fieldNamed f g \<Longrightarrow> fieldNamed g h \<Longrightarrow> fieldNamed f h"
proof -
  have "list_all2 (\<lambda>n n'. n' = n \<or> n = ''_'') as cs"
    if "list_all2 (\<lambda>n n'. n' = n \<or> n = ''_'') as bs" "list_all2 (\<lambda>n n'. n' = n \<or> n = ''_'') bs cs"
    for as bs cs :: "string list"
    by (rule list_all2_trans [OF _ that]) auto
  then show "fieldNamed f g \<Longrightarrow> fieldNamed g h \<Longrightarrow> fieldNamed f h" by (auto simp: fieldNamed_def)
qed

lemma onlyNamed_refl [simp]: "onlyNamed f f"
  by (simp add: onlyNamed_def)

lemma fieldsNamed_trans: "list_all2 fieldNamed xs ys \<Longrightarrow> list_all2 fieldNamed ys zs \<Longrightarrow> list_all2 fieldNamed xs zs"
  by (rule list_all2_trans [OF fieldNamed_trans])

lemma onlyNamed_trans: "onlyNamed f g \<Longrightarrow> onlyNamed g h \<Longrightarrow> onlyNamed f h"
  unfolding onlyNamed_def by (elim conjE, intro conjI) (simp_all, (erule (1) fieldsNamed_trans)+)

lemma nameNames_kept: "list_all2 (\<lambda>n n'. n' = n \<or> n = ''_'') ns (fst (nameNames ignored hash taken idx ns))"
proof (induction ns arbitrary: taken idx)
  case (Cons n ns)
  obtain m t1 i1 where m: "nextName ignored hash taken idx = (m, t1, i1)" by (metis prod_cases3)
  obtain ms t2 i2 where a: "nameNames ignored hash t1 i1 ns = (ms, t2, i2)" by (metis prod_cases3)
  obtain ms' t3 i3 where b: "nameNames ignored hash taken idx ns = (ms', t3, i3)" by (metis prod_cases3)
  show ?case using Cons.IH [of t1 i1] Cons.IH [of taken idx] m a b by simp
qed simp

lemma nameField_kept: "fieldNamed f (fst (nameField unnamed ignored hash taken idx f))"
  using nameNames_kept [of "fst f" ignored hash taken idx]
  by (auto simp: nameField_def fieldNamed_def split: prod.split)

lemma nameFields_kept: "list_all2 fieldNamed fs (fst (nameFields unnamed ignored hash taken idx fs))"
proof (induction fs arbitrary: taken idx)
  case (Cons f fs)
  obtain f' t1 i1 where f: "nameField unnamed ignored hash taken idx f = (f', t1, i1)" by (metis prod_cases3)
  obtain fs' t2 i2 where fs: "nameFields unnamed ignored hash t1 i1 fs = (fs', t2, i2)" by (metis prod_cases3)
  show ?case using Cons.IH [of t1 i1] nameField_kept [of f unnamed ignored hash taken idx] f fs by simp
qed simp

lemma nameReturns_named: "onlyNamed f (fst (nameReturns f hash))"
proof (cases "ftResults (fdType f)")
  case (Some fs)
  with nameFields_kept [of fs "''_unnamedRetVal''" "''_ignoredRetVal''" hash "takenNames f" 0] show ?thesis
    by (auto simp: nameReturns_def onlyNamed_def fieldsOf_def split: prod.split)
qed (simp add: nameReturns_def)

lemma nameReceiver_named: "list_all2 fieldNamed (fieldsOf (fdRecv f)) (fieldsOf (fst (nameReceiver hash f)))"
proof (cases "fieldsOf (fdRecv f)")
  case (Cons g gs)
  obtain ns t where g: "g = (ns, t)" by fastforce
  with Cons show ?thesis
    by (cases ns) (auto simp: nameReceiver_def fieldNamed_def fieldsOf_def list_all2_refl split: prod.split if_splits)
qed (simp add: nameReceiver_def)

lemma nameArguments_named: "onlyNamed f (fst (nameArguments f hash))"
proof -
  obtain recv r taken idx where r: "nameReceiver hash f = (recv, r, taken, idx)" by (metis prod_cases4)
  with nameReceiver_named [of f hash]
    nameFields_kept [of "fieldsOf (ftParams (fdType f))" "''_ignoredParam''" "''_ignoredParam''" hash taken idx]
  show ?thesis by (auto simp: nameArguments_def onlyNamed_def fieldsOf_def split: prod.split)
qed

lemma fullArguments_named: "onlyNamed (fdDecl d) (fdDecl (snd (fullArguments d)))"
  using nameArguments_named [of "fdDecl d" "fdHash d"] by (auto simp: fullArguments_def split: option.split prod.split)

lemma arguments_named: "onlyNamed (fdDecl d) (fdDecl (snd (arguments d)))"
  using fullArguments_named [of d] by (auto simp: arguments_def Let_def split: option.split prod.split)

lemma returnNames_named: "onlyNamed (fdDecl d) (fdDecl (snd (returnNames d)))"
  using nameReturns_named [of "fdDecl d" "fdHash d"] by (auto simp: returnNames_def split: option.split prod.split)

lemma funcAnswer_named: "onlyNamed (fdDecl d) (fdDecl (snd (funcAnswer q d)))"
  using fullArguments_named [of d] arguments_named [of d] returnNames_named [of d]
  by (cases q) (auto split: prod.split)

lemma callAnswer_named:
  assumes "rel_option onlyNamed f (map_option fdDecl (cdEnclosing d))"
  shows "rel_option onlyNamed f (map_option fdDecl (cdEnclosing (snd (callAnswer render q d))))"
proof (cases q)
  case (OfFunc fq)
  show ?thesis
  proof (cases "cdEnclosing d")
    case (Some e)
    with assms obtain g where "f = Some g" "onlyNamed g (fdDecl e)" by (auto simp: option_rel_Some2)
    with funcAnswer_named [of e fq] onlyNamed_trans OfFunc Some show ?thesis
      by (cases fq) (auto split: prod.split intro: onlyNamed_trans)
  qed (use assms OfFunc in \<open>auto split: funcQuery.split\<close>)
qed (use assms in auto)
lemma callDataFor_enclosing [simp]: "map_option fdDecl (cdEnclosing (callDataFor node enclosing ims)) = enclosing"
  by (cases enclosing) (auto simp: callDataFor_def newFuncTemplateData_def split: code.split codeKind.split list.split)

lemma runTemplate_named:
  "rel_option onlyNamed enclosing (map_option fdDecl (cdEnclosing
     (snd (runTemplate (callAnswer render) tmpl (callDataFor node enclosing ims)))))"
  by (rule runTemplate_invariant [where P = "\<lambda>d. rel_option onlyNamed enclosing (map_option fdDecl (cdEnclosing d))"])
    (simp_all add: callAnswer_named option.rel_refl)

lemma compileExpression_named: "rel_option onlyNamed enclosing (snd (compileExpression T tmpl node enclosing ims ov))"
  using runTemplate_named [of enclosing "ctRender T" tmpl node ims]
  by (simp add: compileExpression_def split_beta)

section \<open>Properties\<close>

definition validTarget :: "code \<Rightarrow> bool" where
  "validTarget node \<longleftrightarrow> validOperand node \<and> (\<forall>a \<in> set (cdCallArgs (callDataFor node None None)). validOperand a)"

lemma callDataFor_args: "cdCallArgs (callDataFor node enclosing imports) = cdCallArgs (callDataFor node None None)"
  by (auto simp: callDataFor_def split: code.split codeKind.split list.split)

lemma singleExpr_Inr: "singleExpr stmts = Inr x \<longleftrightarrow> (\<exists>i decs. stmts = [Node (Stmt i decs (PlainStmt ''ExprStmt'')) [x]])"
  by (auto simp: singleExpr_def split: list.splits code.splits codeKind.splits)

lemma if_Inl_Inr: "(if P then Inl a else Inr r) = Inr e \<Longrightarrow> \<not> P \<and> e = r"
  by (cases P) simp_all

lemma trim_mark: "trimPrefix (markDynamicIdent n) dynamicIdentMarker = n"
  by (simp add: markDynamicIdent_def trimPrefix_def dynamicIdentMarker_def)

text \<open>C32: the code of a rule around a call is hygienic. The compiled expression is the parsed text
  of the template with the call and its arguments put in unchanged, each placeholder that the text
  has being replaced. A name of the target is kept also where the rule uses the same name for a
  package; only names the rule wrote are renamed. The function around the call gets names for
  unnamed and blank parameters, nothing else.\<close>

theorem compileExpression_fills:
  assumes "compileExpression T tmpl node enclosing ims ov = (Inr e, enclosing')" and "validTarget node"
  shows "\<exists>rendered data x i decs.
    runTemplate (callAnswer (ctRender T)) tmpl (callDataFor node enclosing ims) = (Inr rendered, data) \<and>
    ctSnippet T rendered = Some [Node (Stmt i decs (PlainStmt ''ExprStmt'')) [x]] \<and>
    e = fillTemplate ov node (cdCallArgs data) x \<and>
    (contains rendered placeholderIdent \<longrightarrow> node \<in> set (subnodes e)) \<and>
    (\<forall>j \<in> set (cdRendered data). cloneCode (cdCallArgs data ! j) \<in> set (subnodes e)) \<and>
    (\<forall>s p n. n \<noteq> ''_'' \<and> ov (markDynamicIdent n) = None \<longrightarrow>
       fillTemplate ov node (cdCallArgs data) (Node (Sel s) [IdentN p (markDynamicIdent n)]) =
         Node (Sel (trimPrefix s dynamicIdentMarker)) [IdentN p n]) \<and>
    rel_option onlyNamed enclosing enclosing'"
proof -
  let ?ask = "callAnswer (ctRender T)" and ?d0 = "callDataFor node enclosing ims"
  obtain outcome data where run: "runTemplate ?ask tmpl ?d0 = (outcome, data)" by fastforce
  note c = assms(1) [unfolded compileExpression_def run prod.case]
  then obtain rendered where ren: "outcome = Inr rendered" by (cases outcome) auto
  then obtain stmts where stmts: "ctSnippet T rendered = Some stmts" using c by (cases "ctSnippet T rendered") auto
  then obtain x where x: "singleExpr stmts = Inr x" using c ren by (cases "singleExpr stmts") auto
  define args where "args = cdCallArgs data"
  define y where "y = stripDynamicIdents (replaceQualifierAliases ov x)"
  obtain z idxs where z: "replaceCallArgPlaceholders args y = (z, idxs)" by fastforce
  obtain r b where r: "replacePlaceholder node z = (r, b)" by fastforce
  note c1 = c [unfolded ren sum.case stmts option.case x, folded y_def args_def, unfolded z prod.case]
  have nf: "find (\<lambda>idx. idx \<notin> set idxs) (cdRendered data) = None"
    using c1 by (cases "find (\<lambda>idx. idx \<notin> set idxs) (cdRendered data)") simp_all
  then have found: "set (cdRendered data) \<subseteq> set idxs" by (auto simp: find_None_iff)
  note c2 = c1 [unfolded nf option.case r prod.case]
  have enc: "enclosing' = map_option fdDecl (cdEnclosing data)" using c2 by (simp only: prod.inject)
  have "(if contains rendered placeholderIdent \<and> \<not> b then Inl PlaceholderLost else Inr r) = Inr e"
    using c2 by (simp only: prod.inject)
  from if_Inl_Inr [OF this] have er: "e = r" "contains rendered placeholderIdent \<longrightarrow> b" by blast+
  have "cdCallArgs (snd (runTemplate ?ask tmpl ?d0)) = cdCallArgs ?d0"
    by (rule runTemplate_invariant [where P = "\<lambda>d. cdCallArgs d = cdCallArgs ?d0"]) simp_all
  then have args: "\<forall>a \<in> set args. validOperand a" and node: "validOperand node"
    using assms(2) run callDataFor_args [of node enclosing ims] by (simp_all add: args_def validTarget_def)
  have "rel_option onlyNamed enclosing enclosing'"
    using runTemplate_named [of enclosing "ctRender T" tmpl node ims] run enc by simp
  moreover have "e = fillTemplate ov node args x"
    using passes_fill [OF args node, of ov x] er(1) z r by (simp add: passes_def y_def)
  moreover have "contains rendered placeholderIdent \<longrightarrow> node \<in> set (subnodes e)"
    using replaced_placeholder [of node z] r er by simp
  moreover have "\<forall>j \<in> set (cdRendered data). cloneCode (args ! j) \<in> set (subnodes e)"
    using swapped_argument [OF args, of _ y node] found z r er(1) by auto
  moreover have "fillTemplate ov node args (Node (Sel s) [IdentN p (markDynamicIdent n)]) =
      Node (Sel (trimPrefix s dynamicIdentMarker)) [IdentN p n]"
    if "n \<noteq> ''_''" "ov (markDynamicIdent n) = None" for s p n
    using that by (simp add: renamed_def trim_mark isPlaceholder_def callArgIndex_def Let_def)
  ultimately show ?thesis using run ren stmts x by (fastforce simp: singleExpr_Inr args_def)
qed
definition sampleTarget :: funcDecl where
  "sampleTarget = \<lparr>fdName = ''fetch'', fdRecv = None,
     fdType = \<lparr>ftParams = Some [([], Ident [] ''string'')], ftResults = None\<rparr>, fdStart = []\<rparr>"

text \<open>The template \<open>wrap.Do({{ .FuncArgument 0 }}, {{ . }})\<close> around \<open>http.Get(u)\<close>\<close>

definition sampleTemplate :: "callQuery template" where
  "sampleTemplate = Emit ''wrap.Do('' (Ask (OfFunc (FuncArgument 0)) (\<lambda>a. case a of
       Count n \<Rightarrow> Abort
     | Text s \<Rightarrow> Emit (s @ '', '') (Ask Self (\<lambda>b. case b of Count n \<Rightarrow> Abort | Text u \<Rightarrow> Emit (u @ '')'') Done))))"

definition sampleGet :: code where
  "sampleGet = Node (Call (Some 7) False) [Node (Sel ''Get'') [IdentN [] ''http''], IdentN [] ''u'']"

definition sampleText :: string where
  "sampleText = ''wrap.Do(_OTELCDYN__ignoredParam__0, _.PLACEHOLDER_0)''"

definition sampleTools :: codeTools where
  "sampleTools = \<lparr>ctTemplate = (\<lambda>_. Some sampleTemplate),
     ctSnippet = (\<lambda>s. if s = sampleText then Some [Node (Stmt None [] (PlainStmt ''ExprStmt''))
       [Node (Call None False) [Node (Sel ''Do'') [IdentN [] ''wrap''],
          IdentN [] ''_OTELCDYN__ignoredParam__0'', Node (Sel ''PLACEHOLDER_0'') [IdentN [] ''_'']]]] else None),
     ctRender = (\<lambda>_. None)\<rparr>"

definition sampleOverrides :: "string \<Rightarrow> string option" where
  "sampleOverrides n = (if n = ''wrap'' then Some ''w'' else None)"

definition sampleWrapped :: code where
  "sampleWrapped = Node (Call None False) [Node (Sel ''Do'') [IdentN [] ''w''], IdentN [] ''_ignoredParam__0'', sampleGet]"

theorem compileExpression_fills_witness:
  "fst (compileExpression sampleTools sampleTemplate sampleGet (Some sampleTarget) None sampleOverrides) = Inr sampleWrapped \<and>
   sampleGet \<in> set (subnodes sampleWrapped)"
proof -
  let ?c = "compileExpression sampleTools sampleTemplate sampleGet (Some sampleTarget) None sampleOverrides"
  have c: "fst ?c = Inr sampleWrapped" by code_simp
  then obtain f where f: "?c = (Inr sampleWrapped, f)" by (metis prod.collapse)
  have v: "validTarget sampleGet"
    by (simp add: validTarget_def validOperand_def sampleGet_def callDataFor_def)
  have t: "fst (runTemplate (callAnswer (ctRender sampleTools)) sampleTemplate (callDataFor sampleGet (Some sampleTarget) None)) = Inr sampleText"
    by code_simp
  have p: "contains sampleText placeholderIdent" by code_simp
  show ?thesis using compileExpression_fills [OF f v] c t p by (elim exE conjE) simp
qed

end
