(* ===== verification/Call_Sites.thy ===== *)
theory Call_Sites
  imports Call_Template
begin

text \<open>
  Call rules: \<open>apply_call.go\<close> of \<open>tool/internal/instrument\<close> without the marked statements. Calls of
  a function or method are found in the tree of a file; arguments are appended to them, and they
  are replaced by the code of the rule around them.

  The code keys tables by the addresses of nodes. Before each search all calls and statements of
  the tree get numbers in the order of the walk; code that is made meanwhile has none. The type
  checker and the reader of archives are parameters.

  Shown: the two passes with their table are one recursion, which replaces the outermost calls
  that match and are not ignored.
\<close>

section \<open>Addresses of nodes\<close>

fun numberKind :: "nat \<Rightarrow> codeKind \<Rightarrow> codeKind" where
  "numberKind n (Call i e) = Call (Some n) e"
| "numberKind n (Stmt i decs k) = Stmt (Some n) decs k"
| "numberKind n k = k"

fun numberCode :: "nat \<Rightarrow> code \<Rightarrow> nat \<times> code"
  and numberAll :: "nat \<Rightarrow> code list \<Rightarrow> nat \<times> code list" where
  "numberCode n (IdentN p x) = (n, IdentN p x)"
| "numberCode n (LitN v) = (n, LitN v)"
| "numberCode n (Node k cs) = (case numberAll (Suc n) cs of (m, cs') \<Rightarrow> (m, Node (numberKind n k) cs'))"
| "numberAll n [] = (n, [])"
| "numberAll n (c # cs) =
     (case numberCode n c of (m, c') \<Rightarrow> (case numberAll m cs of (l, cs') \<Rightarrow> (l, c' # cs')))"

text \<open>A declaration: its head, then its body\<close>

definition numberDecl :: "nat \<Rightarrow> topDecl \<Rightarrow> nat \<times> topDecl" where
  "numberDecl n d =
     (case numberAll n (tdHead d) of
        (m, hs) \<Rightarrow>
          (case tdBody d of
             None \<Rightarrow> (m, d\<lparr>tdHead := hs\<rparr>)
           | Some bs \<Rightarrow> (case numberAll m bs of (l, bs') \<Rightarrow> (l, d\<lparr>tdHead := hs, tdBody := Some bs'\<rparr>))))"

fun numberDecls :: "nat \<Rightarrow> topDecl list \<Rightarrow> topDecl list" where
  "numberDecls n [] = []"
| "numberDecls n (d # ds) = (case numberDecl n d of (m, d') \<Rightarrow> d' # numberDecls m ds)"

definition identify :: "topDecl list \<Rightarrow> topDecl list" where
  "identify ds = numberDecls 0 ds"

definition declCode :: "topDecl \<Rightarrow> code list" where
  "declCode d = tdHead d @ (case tdBody d of None \<Rightarrow> [] | Some bs \<Rightarrow> bs)"

definition mapDecl :: "(code \<Rightarrow> code) \<Rightarrow> topDecl \<Rightarrow> topDecl" where
  "mapDecl f d = d\<lparr>tdHead := map f (tdHead d), tdBody := map_option (map f) (tdBody d)\<rparr>"

section \<open>Ignored calls\<close>

fun treeOf :: "code \<Rightarrow> dnode" where
  "treeOf (IdentN p n) = DNode OtherNode [] [] []"
| "treeOf (LitN v) = DNode OtherNode [] [] []"
| "treeOf (Node k cs) =
     (case k of
        Stmt i decs s \<Rightarrow> DNode StmtNode decs [] (map treeOf cs)
      | Call (Some i) e \<Rightarrow> DNode (CallNode i) [] [] (map treeOf cs)
      | _ \<Rightarrow> DNode OtherNode [] [] (map treeOf cs))"

definition fileOf :: "dstFile \<Rightarrow> topDecl list \<Rightarrow> dstFile" where
  "fileOf root ds = root\<lparr>fileTree := DNode OtherNode [] [] (map treeOf (concat (map declCode ds)))\<rparr>"

definition enclosingStmts :: "dstFile \<Rightarrow> topDecl list \<Rightarrow> (nat \<times> dnode) list" where
  "enclosingStmts root ds = (case callEnclosingStmts (fileOf root ds) of None \<Rightarrow> [] | Some stmts \<Rightarrow> stmts)"

definition directiveIgnore :: string where
  "directiveIgnore = ''otelc:ignore''"

definition ignoredCall :: "(nat \<times> dnode) list \<Rightarrow> nat option \<Rightarrow> bool" where
  "ignoredCall stmts i =
     (case i of None \<Rightarrow> False | Some n \<Rightarrow> hasLeadingDirective (map_of stmts n) directiveIgnore)"

section \<open>Methods of the package\<close>

type_synonym methodPosition = "string \<times> nat \<times> nat"

datatype selKind = MethodVal | OtherSelection

text \<open>The type of a receiver; a named type has the path of its package, if it has one, and may be an
  interface.\<close>

datatype receiverType =
    PointerTo receiverType
  | NamedType "string option" string bool
  | OtherReceiver

record methodSelection =
  msKind :: selKind
  msFunc :: bool
  msRecv :: "receiverType option"

type_synonym methodTable = "methodPosition \<Rightarrow> methodSelection option"

definition namedReceiver :: "bool \<Rightarrow> receiverType \<Rightarrow> (string \<times> string) option" where
  "namedReceiver pointer t =
     (case t of
        NamedType (Some path) name iface \<Rightarrow>
          if iface then None else Some (path, if pointer then CHR ''*'' # name else name)
      | _ \<Rightarrow> None)"

definition methodReceiver :: "methodTable \<Rightarrow> methodPosition \<Rightarrow> (string \<times> string) option" where
  "methodReceiver info pos =
     (case info pos of
        None \<Rightarrow> None
      | Some sel \<Rightarrow>
          if msKind sel \<noteq> MethodVal then None
          else if \<not> msFunc sel then None
          else case msRecv sel of
                 None \<Rightarrow> None
               | Some (PointerTo t) \<Rightarrow> namedReceiver True t
               | Some t \<Rightarrow> namedReceiver False t)"

text \<open>The compile step as the search for methods sees it: what it asks the type checker, and the
  table once it has been asked\<close>

record methodPhase =
  mpCompileArgs :: "string list"
  mpConfig :: importConfig
  mpLoaded :: bool
  mpInfo :: "methodTable option"

definition packageSourceFiles :: "(string \<Rightarrow> string option) \<Rightarrow> string list \<Rightarrow> string list" where
  "packageSourceFiles absolute compileArgs =
     List.map_filter (\<lambda>arg. if hasPrefix arg ''-'' \<or> \<not> isGoFile arg then None else absolute arg) compileArgs"

record methodTools =
  mtAbs :: "string \<Rightarrow> string option"
  mtCheck :: "string \<Rightarrow> string list \<Rightarrow> importConfig \<Rightarrow> methodTable option"
  mtPosition :: "code \<Rightarrow> methodPosition option"

definition ensureMethodCallInfo :: "methodTools \<Rightarrow> methodPhase \<Rightarrow> methodTable option \<times> methodPhase" where
  "ensureMethodCallInfo M ip =
     (if mpLoaded ip then (mpInfo ip, ip)
      else let info = mtCheck M (findFlagValue (mpCompileArgs ip) ''-p'')
                        (packageSourceFiles (mtAbs M) (mpCompileArgs ip)) (mpConfig ip)
           in (info, ip\<lparr>mpLoaded := True, mpInfo := info\<rparr>))"

section \<open>Which calls match\<close>

text \<open>The name of the function or method that a call selects, with the operand\<close>

definition callSelector :: "code \<Rightarrow> (string \<times> code) option" where
  "callSelector c = (case c of Node (Call i e) (Node (Sel s) [x] # args) \<Rightarrow> Some (s, x) | _ \<Rightarrow> None)"

definition matchesCallRule :: "code \<Rightarrow> InstCallRule \<Rightarrow> (string \<Rightarrow> string option) \<Rightarrow> bool" where
  "matchesCallRule call r importAliases =
     (case callSelector call of
        Some (s, IdentN path name) \<Rightarrow>
          if s \<noteq> crFuncName r then False
          else if path \<noteq> [] then path = crImportPath r
          else importAliases name = Some (crImportPath r)
      | _ \<Rightarrow> False)"

definition matchesMethodCallRule :: "methodTools \<Rightarrow> code \<Rightarrow> InstCallRule \<Rightarrow> methodPhase \<Rightarrow> bool \<times> methodPhase" where
  "matchesMethodCallRule M call r ip =
     (case callSelector call of
        None \<Rightarrow> (False, ip)
      | Some (s, x) \<Rightarrow>
          if s \<noteq> crFuncName r then (False, ip)
          else case ensureMethodCallInfo M ip of
                 (None, ip') \<Rightarrow> (False, ip')
               | (Some info, ip') \<Rightarrow>
                   (case mtPosition M call of
                      None \<Rightarrow> (False, ip')
                    | Some pos \<Rightarrow> (methodReceiver info pos = Some (crImportPath r, crRecvType r), ip')))"

definition matchesRule ::
    "methodTools \<Rightarrow> code \<Rightarrow> InstCallRule \<Rightarrow> (string \<Rightarrow> string option) \<Rightarrow> methodPhase \<Rightarrow> bool \<times> methodPhase" where
  "matchesRule M call r importAliases ip =
     (if crMethodCall r \<noteq> [] then matchesMethodCallRule M call r ip else (matchesCallRule call r importAliases, ip))"
text \<open>
  The importer of the type checker: packages read so far, each complete or not, and the archives
  of the importcfg. Reading an archive may add other packages, and yields the package or fails.
\<close>

record exportImporter =
  eiArchives :: stringMap
  eiImportMap :: stringMap
  eiPackages :: "string \<Rightarrow> (nat \<times> bool) option"

datatype importerError = NoArchive string | ReadFailed string

datatype importedPackage = Unsafe | Package nat bool

type_synonym archiveReader =
  "string \<Rightarrow> string \<Rightarrow> (string \<Rightarrow> (nat \<times> bool) option) \<Rightarrow> (nat \<times> bool) option \<times> (string \<Rightarrow> (nat \<times> bool) option)"

definition ImportFrom ::
    "archiveReader \<Rightarrow> exportImporter \<Rightarrow> string \<Rightarrow> (importerError + importedPackage) \<times> exportImporter" where
  "ImportFrom readArchive imp path =
     (if path = ''unsafe'' then (Inr Unsafe, imp)
      else case eiPackages imp path of
        Some (p, True) \<Rightarrow> (Inr (Package p True), imp)
      | _ \<Rightarrow>
          let found = (case map_of (eiArchives imp) path of
                Some archive \<Rightarrow> Some (archive, path)
              | None \<Rightarrow> Option.bind (map_of (eiImportMap imp) path)
                  (\<lambda>mapped. map_option (\<lambda>archive. (archive, mapped)) (map_of (eiArchives imp) mapped)))
          in case found of
               None \<Rightarrow> (Inl (NoArchive path), imp)
             | Some (archive, resolvedPath) \<Rightarrow>
                 (case readArchive archive resolvedPath (eiPackages imp) of
                    (None, pkgs) \<Rightarrow> (Inl (ReadFailed path), imp\<lparr>eiPackages := pkgs\<rparr>)
                  | (Some (p, done), pkgs) \<Rightarrow>
                      (Inr (Package p done), imp\<lparr>eiPackages := pkgs(path \<mapsto> (p, done))\<rparr>)))"

section \<open>Appending arguments\<close>

datatype callError =
    AppendSyntax string compileError
  | VariadicTypeMissing
  | NoArguments
  | VariadicTypeSyntax string compileError
  | Shadowed string string
  | Compile compileError

fun parseAppendArgs :: "codeTools \<Rightarrow> string list \<Rightarrow> (string \<Rightarrow> string option) \<Rightarrow> callError + code list" where
  "parseAppendArgs T [] overrides = Inr []"
| "parseAppendArgs T (arg # args) overrides =
     (case parseGoExpression T arg of
        Inl e \<Rightarrow> Inl (AppendSyntax arg e)
      | Inr x \<Rightarrow> (case parseAppendArgs T args overrides of
                    Inl e \<Rightarrow> Inl e | Inr xs \<Rightarrow> Inr (replaceQualifierAliases overrides x # xs)))"

definition fieldList :: "code list \<Rightarrow> code" where
  "fieldList fs = Node (Other ''FieldList'') fs"

definition buildEllipsisIIFE :: "code \<Rightarrow> code \<Rightarrow> code list \<Rightarrow> code" where
  "buildEllipsisIIFE spreadArg varType newArgs =
     (let param = Node (Other ''Field'') [IdentN [] ''v'', Node (Other ''Ellipsis'') [cloneCode varType]];
          returnType = Node (Other ''ArrayType'') [cloneCode varType];
          appendCall = Node (Call None False) (IdentN [] ''append'' # IdentN [] ''v'' # newArgs);
          funcLit = Node FuncLit
            [Node (Other ''FuncType'') [fieldList [param], fieldList [Node (Other ''Field'') [returnType]]],
             Node (Stmt None [] BlockStmt) [Node (Stmt None [] ReturnStmt) [appendCall]]]
      in Node (Call None True) [funcLit, spreadArg])"

text \<open>The children of a call, its arguments behind the function, after the appending\<close>

definition appendParsedCallArgs ::
    "codeTools \<Rightarrow> InstCallRule \<Rightarrow> code list \<Rightarrow> (string \<Rightarrow> string option) \<Rightarrow> bool \<Rightarrow> code list \<Rightarrow> callError + code list" where
  "appendParsedCallArgs T r newArgs overrides ellipsis cs =
     (if newArgs = [] then Inr cs
      else if \<not> ellipsis then Inr (cs @ newArgs)
      else if crVariadicType r = [] then Inl VariadicTypeMissing
      else if length cs \<le> 1 then Inl NoArguments
      else case parseGoTypeExpression T (crVariadicType r) of
             Inl e \<Rightarrow> Inl (VariadicTypeSyntax (crVariadicType r) e)
           | Inr t \<Rightarrow>
               Inr (butlast cs @ [buildEllipsisIIFE (last cs) (replaceQualifierAliases overrides t) newArgs]))"

definition callsIn :: "code list \<Rightarrow> code list" where
  "callsIn cs = filter (\<lambda>c. case c of Node (Call i e) ds \<Rightarrow> True | _ \<Rightarrow> False) (concat (map subnodes cs))"

definition callId :: "code \<Rightarrow> nat option" where
  "callId c = (case c of Node (Call i e) cs \<Rightarrow> i | _ \<Rightarrow> None)"

fun matchingCalls ::
    "methodTools \<Rightarrow> InstCallRule \<Rightarrow> (string \<Rightarrow> string option) \<Rightarrow> (nat \<times> dnode) list \<Rightarrow> code list \<Rightarrow> methodPhase \<Rightarrow>
     code list \<times> methodPhase" where
  "matchingCalls M r importAliases stmts [] ip = ([], ip)"
| "matchingCalls M r importAliases stmts (c # cs) ip =
     (case matchesRule M c r importAliases ip of
        (matched, ip1) \<Rightarrow>
          (case matchingCalls M r importAliases stmts cs ip1 of
             (found, ip2) \<Rightarrow>
               (if matched \<and> \<not> ignoredCall stmts (callId c) then (c # found, ip2) else (found, ip2))))"

text \<open>The arguments of the chosen calls change in place, those of calls inside them too.\<close>

fun appendToCalls :: "(bool \<Rightarrow> code list \<Rightarrow> code list) \<Rightarrow> nat set \<Rightarrow> code \<Rightarrow> code" where
  "appendToCalls f chosen (IdentN p n) = IdentN p n"
| "appendToCalls f chosen (LitN v) = LitN v"
| "appendToCalls f chosen (Node k cs) =
     (let cs' = map (appendToCalls f chosen) cs
      in case k of
           Call (Some i) e \<Rightarrow> Node k (if i \<in> chosen then f e cs' else cs')
         | _ \<Rightarrow> Node k cs')"

definition appendError ::
    "codeTools \<Rightarrow> InstCallRule \<Rightarrow> code list \<Rightarrow> (string \<Rightarrow> string option) \<Rightarrow> code \<Rightarrow> callError option" where
  "appendError T r newArgs overrides call =
     (case call of
        Node (Call i e) cs \<Rightarrow>
          (case appendParsedCallArgs T r newArgs overrides e cs of Inl err \<Rightarrow> Some err | Inr cs' \<Rightarrow> None)
      | _ \<Rightarrow> None)"

definition applyCallAppendArgs ::
    "codeTools \<Rightarrow> methodTools \<Rightarrow> InstCallRule \<Rightarrow> dstFile \<Rightarrow> topDecl list \<Rightarrow> (string \<Rightarrow> string option) \<Rightarrow>
     (string \<Rightarrow> string option) \<Rightarrow> methodPhase \<Rightarrow> (callError + bool \<times> topDecl list) \<times> methodPhase" where
  "applyCallAppendArgs T M r root decls importAliases overrides ip =
     (if crAppendArgs r = [] then (Inr (False, decls), ip)
      else case parseAppendArgs T (crAppendArgs r) overrides of
        Inl e \<Rightarrow> (Inl e, ip)
      | Inr newArgs \<Rightarrow>
          let ds = identify decls;
              stmts = enclosingStmts root ds
          in case matchingCalls M r importAliases stmts (callsIn (concat (map declCode ds))) ip of
               (calls, ip') \<Rightarrow>
                 (case firstSome (map (appendError T r newArgs overrides) calls) of
                    Some err \<Rightarrow> (Inl err, ip')
                  | None \<Rightarrow>
                      let add = (\<lambda>e cs. case appendParsedCallArgs T r (map cloneCode newArgs) overrides e cs of
                                          Inl err \<Rightarrow> cs | Inr cs' \<Rightarrow> cs');
                          chosen = set (List.map_filter callId calls)
                      in (Inr (calls \<noteq> [], map (mapDecl (appendToCalls add chosen)) ds), ip')))"
section \<open>Replacing calls\<close>

type_synonym wrapTable = "(nat \<times> code) list"

text \<open>What the first pass is given: the rule, its imports and their names in the file, and the
  statements around the calls\<close>

record wrapContext =
  wcTools :: codeTools
  wcMethods :: methodTools
  wcRule :: InstCallRule
  wcTemplate :: "callQuery template"
  wcImports :: "(string \<Rightarrow> string option) option"
  wcOverrides :: "string \<Rightarrow> string option"
  wcStmts :: "(nat \<times> dnode) list"

definition aliasesOf :: "(string \<Rightarrow> string option) option \<Rightarrow> string \<Rightarrow> string option" where
  "aliasesOf m = (case m of None \<Rightarrow> Map.empty | Some f \<Rightarrow> f)"

text \<open>The first pass over the calls of a declaration, with the function it declares and its body\<close>

fun wrapCalls ::
    "wrapContext \<Rightarrow> code list option \<Rightarrow> code list \<Rightarrow> funcDecl option \<Rightarrow> wrapTable \<Rightarrow> methodPhase \<Rightarrow>
     callError + funcDecl option \<times> wrapTable \<times> methodPhase" where
  "wrapCalls C body [] enclosing reps ip = Inr (enclosing, reps, ip)"
| "wrapCalls C body (call # calls) enclosing reps ip =
     (case matchesRule (wcMethods C) call (wcRule C) (aliasesOf (wcImports C)) ip of
        (matched, ip') \<Rightarrow>
          if \<not> matched then wrapCalls C body calls enclosing reps ip'
          else if ignoredCall (wcStmts C) (callId call) then wrapCalls C body calls enclosing reps ip'
          else case checkAliasOverrideShadowing (ruleImports (wcRule C)) (wcOverrides C)
                      (map_option (\<lambda>f. (f, body)) enclosing) of
                 Some (ruleAlias, fileAlias) \<Rightarrow> Inl (Shadowed ruleAlias fileAlias)
               | None \<Rightarrow>
                   (case compileExpression (wcTools C) (wcTemplate C) call enclosing (wcImports C) (wcOverrides C) of
                      (Inl e, enclosing') \<Rightarrow> Inl (Compile e)
                    | (Inr wrapped, enclosing') \<Rightarrow>
                        wrapCalls C body calls enclosing' ((the (callId call), cloneCode wrapped) # reps) ip'))"

fun walkCallsWithEnclosingFunc ::
    "wrapContext \<Rightarrow> topDecl list \<Rightarrow> wrapTable \<Rightarrow> methodPhase \<Rightarrow>
     callError + topDecl list \<times> wrapTable \<times> methodPhase" where
  "walkCallsWithEnclosingFunc C [] reps ip = Inr ([], reps, ip)"
| "walkCallsWithEnclosingFunc C (d # ds) reps ip =
     (case wrapCalls C (tdBody d) (callsIn (declCode d)) (tdFunc d) reps ip of
        Inl e \<Rightarrow> Inl e
      | Inr (f, reps1, ip1) \<Rightarrow>
          (case walkCallsWithEnclosingFunc C ds reps1 ip1 of
             Inl e \<Rightarrow> Inl e
           | Inr (ds', reps2, ip2) \<Rightarrow> Inr (d\<lparr>tdFunc := f\<rparr> # ds', reps2, ip2)))"

text \<open>The second pass: \<open>dstutil.Apply\<close> walks on below the node that was replaced, not below the code
  that was put in its place.\<close>

fun replaceCalls :: "wrapTable \<Rightarrow> code \<Rightarrow> code" where
  "replaceCalls reps (IdentN p n) = IdentN p n"
| "replaceCalls reps (LitN v) = LitN v"
| "replaceCalls reps (Node k cs) =
     (case k of
        Call (Some i) e \<Rightarrow> (case map_of reps i of Some replacement \<Rightarrow> replacement | None \<Rightarrow> Node k (map (replaceCalls reps) cs))
      | _ \<Rightarrow> Node k (map (replaceCalls reps) cs))"

definition wrapContextFor ::
    "codeTools \<Rightarrow> methodTools \<Rightarrow> InstCallRule \<Rightarrow> callQuery template \<Rightarrow> (string \<Rightarrow> string option) option \<Rightarrow>
     (string \<Rightarrow> string option) \<Rightarrow> (nat \<times> dnode) list \<Rightarrow> wrapContext" where
  "wrapContextFor T M r tmpl importAliases overrides stmts =
     \<lparr>wcTools = T, wcMethods = M, wcRule = r, wcTemplate = tmpl, wcImports = importAliases,
      wcOverrides = overrides, wcStmts = stmts\<rparr>"

definition applyCallReplace ::
    "codeTools \<Rightarrow> methodTools \<Rightarrow> InstCallRule \<Rightarrow> dstFile \<Rightarrow> topDecl list \<Rightarrow> (string \<Rightarrow> string option) option \<Rightarrow>
     (string \<Rightarrow> string option) \<Rightarrow> methodPhase \<Rightarrow> callError + (bool \<times> topDecl list) \<times> methodPhase" where
  "applyCallReplace T M r root decls importAliases overrides ip =
     (case ctTemplate T (crReplace r) of
        None \<Rightarrow> Inl (Compile (TemplateSyntax (crReplace r)))
      | Some tmpl \<Rightarrow>
          let ds = identify decls;
              C = wrapContextFor T M r tmpl importAliases overrides (enclosingStmts root ds)
          in case walkCallsWithEnclosingFunc C ds [] ip of
               Inl e \<Rightarrow> Inl e
             | Inr (ds', reps, ip') \<Rightarrow>
                 if reps = [] then Inr ((False, ds'), ip')
                 else Inr ((True, map (mapDecl (replaceCalls reps)) ds'), ip'))"

text \<open>The whole rule: the file, its code and the compile step afterwards, if the rule changed them\<close>

datatype callRuleError = CallFailed callError | ImportsFailed importError

definition applyCallRule ::
    "codeTools \<Rightarrow> methodTools \<Rightarrow> nameResolver \<Rightarrow> nameResolver \<Rightarrow> resolver \<Rightarrow> InstCallRule \<Rightarrow> dstFile \<Rightarrow> topDecl list \<Rightarrow>
     compileStep \<Rightarrow> methodPhase \<Rightarrow>
     callRuleError + bool \<times> dstFile \<times> topDecl list \<times> (compileStep \<times> (string \<times> stringMap) option) \<times> methodPhase" where
  "applyCallRule T M pkgName importNames resolve r root decls step ip =
     (case resolveImportOverrides root importNames (ruleImports r) of
        (importAliases, overrides) \<Rightarrow>
          (case applyCallAppendArgs T M r root decls (aliasesOf importAliases) overrides ip of
             (Inl e, ip1) \<Rightarrow> Inl (CallFailed e)
           | (Inr (appendModified, ds1), ip1) \<Rightarrow>
               (case (if crReplace r = [] then Inr ((False, ds1), ip1)
                      else applyCallReplace T M r root ds1 importAliases overrides ip1) of
                  Inl e \<Rightarrow> Inl (CallFailed e)
                | Inr ((replaceModified, ds2), ip2) \<Rightarrow>
                    if \<not> appendModified \<and> \<not> replaceModified then Inr (False, root, ds2, (step, None), ip2)
                    else case addRuleImports pkgName resolve step root
                                (usedRuleImports (concat (map declCode ds2)) (ruleImports r) overrides) of
                           Inl e \<Rightarrow> Inl (ImportsFailed e)
                         | Inr (root', step', out) \<Rightarrow> Inr (True, root', ds2, (step', out), ip2))))"
section \<open>Numbers of calls\<close>

lemma callsIn_simps [simp]:
  "callsIn [] = []" "callsIn (c # cs) = callsIn [c] @ callsIn cs" "callsIn (cs @ ds) = callsIn cs @ callsIn ds"
  by (simp_all add: callsIn_def)

lemma callsIn_leaf [simp]: "callsIn [IdentN p n] = []" "callsIn [LitN v] = []"
  by (simp_all add: callsIn_def)

lemma callsIn_concat: "callsIn (concat css) = concat (map callsIn css)"
  by (induction css) simp_all

lemma callsIn_Node: "callsIn [Node k cs] = (case k of Call i e \<Rightarrow> [Node k cs] | _ \<Rightarrow> []) @ callsIn cs"
  by (cases k) (simp_all add: callsIn_def)

declare callsIn_simps(2) [simp del]

text \<open>Calls with distinct numbers from an interval\<close>

definition numbered :: "nat \<Rightarrow> nat \<Rightarrow> code list \<Rightarrow> bool" where
  "numbered n m cs \<longleftrightarrow> n \<le> m \<and>
     (\<exists>ids. map callId (callsIn cs) = map Some ids \<and> distinct ids \<and> set ids \<subseteq> {n..<m})"

lemma numbered_Nil: "numbered n n []"
  by (simp add: numbered_def)

lemma numbered_append: "numbered n m xs \<Longrightarrow> numbered m l ys \<Longrightarrow> numbered n l (xs @ ys)"
proof -
  assume "numbered n m xs" and "numbered m l ys"
  then obtain ids1 ids2 where n: "n \<le> m" "m \<le> l"
    and "map callId (callsIn xs) = map Some ids1" "map callId (callsIn ys) = map Some ids2"
    and "distinct ids1" "set ids1 \<subseteq> {n..<m}" "distinct ids2" "set ids2 \<subseteq> {m..<l}"
    by (auto simp: numbered_def)
  then have "map callId (callsIn (xs @ ys)) = map Some (ids1 @ ids2)" "distinct (ids1 @ ids2)" "set (ids1 @ ids2) \<subseteq> {n..<l}"
    by fastforce+
  with n show ?thesis unfolding numbered_def by (meson le_trans)
qed

lemma numberKind_call: "(case numberKind n k of Call i e \<Rightarrow> [Node (numberKind n k) cs] | _ \<Rightarrow> []) =
    (case k of Call i e \<Rightarrow> [Node (Call (Some n) e) cs] | _ \<Rightarrow> [])"
  by (cases k) simp_all

lemma numberCode_numbered:
  "numberCode n c = (m, c') \<Longrightarrow> numbered n m [c']"
  "numberAll n cs = (m, cs') \<Longrightarrow> numbered n m cs'"
proof (induction n c and n cs arbitrary: m c' and m cs' rule: numberCode_numberAll.induct)
  case (3 n k cs)
  obtain l cs1 where a: "numberAll (Suc n) cs = (l, cs1)" by fastforce
  with 3 have c': "m = l" "c' = Node (numberKind n k) cs1" and num: "numbered (Suc n) l cs1" by auto
  obtain ids where ids: "map callId (callsIn cs1) = map Some ids" "distinct ids" "set ids \<subseteq> {Suc n..<l}" "Suc n \<le> l"
    using num by (auto simp: numbered_def)
  have calls: "callsIn [c'] = (case k of Call i e \<Rightarrow> [Node (Call (Some n) e) cs1] | _ \<Rightarrow> []) @ callsIn cs1"
    unfolding c' callsIn_Node numberKind_call by (rule refl)
  show ?case
  proof (cases "\<exists>i e. k = Call i e")
    case True
    with calls ids have "map callId (callsIn [c']) = map Some (n # ids)" by (auto simp: callId_def)
    moreover have "distinct (n # ids)" "set (n # ids) \<subseteq> {n..<m}" using ids c' by auto
    ultimately show ?thesis using ids c' unfolding numbered_def by (meson Suc_leD)
  next
    case False
    with calls have "callsIn [c'] = callsIn cs1" by (cases k) auto
    with ids c' show ?thesis unfolding numbered_def by fastforce
  qed
next
  case (5 n c cs)
  obtain l c1 where c: "numberCode n c = (l, c1)" by fastforce
  obtain k cs1 where cs: "numberAll l cs = (k, cs1)" by fastforce
  with c 5 have "numbered n l [c1]" "numbered l k cs1" by auto
  with numbered_append [of n l "[c1]" k cs1] c cs 5 show ?case by simp
qed (simp_all add: numbered_def)

lemma numberDecl_numbered: "numberDecl n d = (m, d') \<Longrightarrow> numbered n m (declCode d')"
proof -
  assume a: "numberDecl n d = (m, d')"
  obtain l hs where h: "numberAll n (tdHead d) = (l, hs)" by fastforce
  note H = numberCode_numbered(2) [OF h]
  show ?thesis
  proof (cases "tdBody d")
    case None
    with a h H show ?thesis by (auto simp: numberDecl_def declCode_def)
  next
    case (Some bs)
    obtain k bs' where b: "numberAll l bs = (k, bs')" by fastforce
    from numbered_append [OF H numberCode_numbered(2) [OF b]] a h b Some show ?thesis
      by (auto simp: numberDecl_def declCode_def)
  qed
qed

lemma identify_numbered: "\<exists>m. numbered n m (concat (map declCode (numberDecls n ds)))"
proof (induction ds arbitrary: n)
  case Nil
  show ?case using numbered_Nil by auto
next
  case (Cons d ds)
  obtain m d' where d: "numberDecl n d = (m, d')" by fastforce
  obtain l where "numbered m l (concat (map declCode (numberDecls m ds)))" using Cons.IH by blast
  from numbered_append [OF numberDecl_numbered [OF d] this] d show ?case by auto
qed
section \<open>Statements around calls\<close>

text \<open>The calls of a tree, each with the nearest statement around it\<close>

fun sitesOf :: "code option \<Rightarrow> code \<Rightarrow> (code \<times> code option) list" where
  "sitesOf outer (IdentN p n) = []"
| "sitesOf outer (LitN v) = []"
| "sitesOf outer (Node k cs) =
     (let here = (case k of Stmt i decs s \<Rightarrow> Some (Node k cs) | _ \<Rightarrow> outer)
      in (case k of Call i e \<Rightarrow> [(Node k cs, here)] | _ \<Rightarrow> []) @ concat (map (sitesOf here) cs))"

definition siteEntry :: "code \<times> code option \<Rightarrow> (nat \<times> dnode) list" where
  "siteEntry e = (case (callId (fst e), snd e) of (Some i, Some s) \<Rightarrow> [(i, treeOf s)] | _ \<Rightarrow> [])"

lemma sites_calls: "map fst (sitesOf outer c) = callsIn [c]"
proof (induction outer c rule: sitesOf.induct)
  case (3 outer k cs)
  define here where "here = (case k of Stmt i decs s \<Rightarrow> Some (Node k cs) | _ \<Rightarrow> outer)"
  have "concat (map (\<lambda>c. map fst (sitesOf here c)) ds) = callsIn ds" if "set ds \<subseteq> set cs" for ds
    using that
  proof (induction ds)
    case (Cons d ds)
    with 3 show ?case by (simp add: here_def callsIn_simps(2) [of d ds])
  qed simp
  then show ?case
    unfolding callsIn_Node sitesOf.simps Let_def here_def [symmetric]
    by (cases k) (simp_all add: map_concat comp_def)
qed simp_all

lemma siteEntry_call: "siteEntry (Node (Call i e) cs, s) = (case (i, s) of (Some j, Some d) \<Rightarrow> [(j, treeOf d)] | _ \<Rightarrow> [])"
  by (simp add: siteEntry_def callId_def)

lemma enclosed_sites: "enclosed (map_option treeOf outer) (treeOf c) = concat (map siteEntry (sitesOf outer c))"
proof (induction outer c rule: sitesOf.induct)
  case (3 outer k cs)
  define here where "here = (case k of Stmt i decs s \<Rightarrow> Some (Node k cs) | _ \<Rightarrow> outer)"
  have "map (\<lambda>c. enclosed (map_option treeOf here) (treeOf c)) cs = map (\<lambda>c. concat (map siteEntry (sitesOf here c))) cs"
    using 3 by (simp add: here_def)
  moreover have "concat (map siteEntry (concat (map (sitesOf here) cs))) = concat (map (\<lambda>c. concat (map siteEntry (sitesOf here c))) cs)"
    by (induction cs) simp_all
  ultimately have rest: "concat (map (\<lambda>c. enclosed (map_option treeOf here) (treeOf c)) cs) = concat (map siteEntry (concat (map (sitesOf here) cs)))"
    by (simp only:)
  have r: "enclosed (map_option treeOf outer) (treeOf (Node k cs)) = (case (k, here) of (Call (Some i) e, Some s) \<Rightarrow> [(i, treeOf s)] | _ \<Rightarrow> []) @
      concat (map (\<lambda>c. enclosed (map_option treeOf here) (treeOf c)) cs)"
    by (auto simp: here_def comp_def split: codeKind.split option.split)
  have s: "sitesOf outer (Node k cs) = (case k of Call i e \<Rightarrow> [(Node k cs, here)] | _ \<Rightarrow> []) @ concat (map (sitesOf here) cs)"
    by (simp only: sitesOf.simps Let_def here_def)
  show ?case unfolding r s rest map_append concat_append
    by (auto simp: siteEntry_call split: codeKind.split option.split)
qed simp_all

definition sitesIn :: "topDecl list \<Rightarrow> (code \<times> code option) list" where
  "sitesIn ds = concat (map (sitesOf None) (concat (map declCode ds)))"

lemma enclosingStmts_sites: "enclosingStmts root ds = rev (concat (map siteEntry (sitesIn ds)))"
proof -
  have "enclosed None (DNode OtherNode [] [] (map treeOf cs)) = concat (map siteEntry (concat (map (sitesOf None) cs)))" for cs
    using enclosed_sites [of None] by (induction cs) simp_all
  then show ?thesis
    by (simp add: enclosingStmts_def callEnclosingStmts_enclosed fileOf_def sitesIn_def)
qed

lemma sitesIn_calls: "map fst (sitesIn ds) = callsIn (concat (map declCode ds))"
proof -
  have "map fst (concat (map (sitesOf None) cs)) = callsIn cs" for cs
  proof (induction cs)
    case (Cons c cs)
    then show ?case by (simp add: sites_calls callsIn_simps(2) [of c cs])
  qed simp
  then show ?thesis by (simp add: sitesIn_def)
qed

lemma entry_lookup:
  assumes "distinct (map (callId \<circ> fst) sites)" and "(c, s) \<in> set sites" and "callId c = Some i"
  shows "map_of (rev (concat (map siteEntry sites))) i = map_option treeOf s"
  using assms(1,2)
proof (induction sites)
  case (Cons e sites)
  have keys: "map_of (rev (concat (map siteEntry xs))) i = None" if "callId c \<notin> set (map (callId \<circ> fst) xs)" for xs
  proof -
    have "i \<notin> fst ` set (concat (map siteEntry xs))"
      using that assms(3) by (fastforce simp: siteEntry_def split: option.splits)
    then show ?thesis by (simp add: map_of_eq_None_iff)
  qed
  show ?case
  proof (cases "e = (c, s)")
    case True
    have "siteEntry (c, s) = (case s of None \<Rightarrow> [] | Some d \<Rightarrow> [(i, treeOf d)])"
      by (simp add: siteEntry_def assms(3) split: option.split)
    with True Cons.prems(1) keys [of sites] show ?thesis by (cases s) (auto simp: map_add_def)
  next
    case False
    then have "(c, s) \<in> set sites" using Cons.prems(2) by simp
    moreover from this Cons.prems(1) have "callId (fst e) \<noteq> callId c" by force
    then have "map_of (siteEntry e) i = None" using assms(3) by (auto simp: siteEntry_def split: option.split)
    ultimately show ?thesis using Cons by (auto simp: map_add_def siteEntry_def split: option.splits)
  qed
qed simp

lemma ignored_site:
  assumes "(c, s) \<in> set (sitesIn (identify ds))"
  shows "ignoredCall (enclosingStmts root (identify ds)) (callId c) = hasLeadingDirective (map_option treeOf s) directiveIgnore"
    and "\<exists>i. callId c = Some i"
proof -
  obtain ids where ids: "map callId (callsIn (concat (map declCode (identify ds)))) = map Some ids" "distinct ids"
    using identify_numbered [of 0 ds] by (auto simp: identify_def numbered_def)
  then have all: "map (callId \<circ> fst) (sitesIn (identify ds)) = map Some ids"
    by (simp add: sitesIn_calls [symmetric])
  have "callId c \<in> set (map (callId \<circ> fst) (sitesIn (identify ds)))" using assms by force
  then obtain i where i: "callId c = Some i" by (auto simp: all)
  have "distinct (map (callId \<circ> fst) (sitesIn (identify ds)))" using ids(2) by (simp add: all distinct_map)
  from entry_lookup [OF this assms i] i
  show "ignoredCall (enclosingStmts root (identify ds)) (callId c) = hasLeadingDirective (map_option treeOf s) directiveIgnore"
    and "\<exists>i. callId c = Some i"
    by (simp_all add: ignoredCall_def enclosingStmts_sites)
qed
section \<open>The two passes\<close>

text \<open>The outermost calls for which there is a replacement are replaced.\<close>

fun replaceOuter :: "(code \<Rightarrow> code option) \<Rightarrow> code \<Rightarrow> code" where
  "replaceOuter W (IdentN p n) = IdentN p n"
| "replaceOuter W (LitN v) = LitN v"
| "replaceOuter W (Node k cs) =
     (case (case k of Call i e \<Rightarrow> W (Node k cs) | _ \<Rightarrow> None) of
        Some w \<Rightarrow> w
      | None \<Rightarrow> Node k (map (replaceOuter W) cs))"

definition lookupCall :: "wrapTable \<Rightarrow> code \<Rightarrow> code option" where
  "lookupCall reps c = Option.bind (callId c) (map_of reps)"

lemma lookupCall_Call [simp]: "lookupCall reps (Node (Call i e) cs) = Option.bind i (map_of reps)"
  by (simp add: lookupCall_def callId_def)

lemma replaceCalls_outer: "replaceCalls reps c = replaceOuter (lookupCall reps) c"
proof (induction c)
  case (Node k cs)
  then have "map (replaceCalls reps) cs = map (replaceOuter (lookupCall reps)) cs" by simp
  then show ?case
    by (cases k) (auto simp del: map_eq_conv split: option.split)
qed simp_all

definition sameMethods :: "methodTools \<Rightarrow> methodPhase \<Rightarrow> methodPhase \<Rightarrow> bool" where
  "sameMethods M ip ip' \<longleftrightarrow> fst (ensureMethodCallInfo M ip') = fst (ensureMethodCallInfo M ip)"

lemma matchesRule_same: "sameMethods M ip (snd (matchesRule M c r al ip))"
  by (auto simp: sameMethods_def matchesRule_def matchesMethodCallRule_def ensureMethodCallInfo_def Let_def
      split: option.split prod.split)

lemma matchesRule_cong: "sameMethods M ip ip' \<Longrightarrow> fst (matchesRule M c r al ip') = fst (matchesRule M c r al ip)"
  by (auto simp: sameMethods_def matchesRule_def matchesMethodCallRule_def split_beta split: option.split)

lemma sameMethods_trans: "sameMethods M a b \<Longrightarrow> sameMethods M b c \<Longrightarrow> sameMethods M a c"
  by (simp add: sameMethods_def)

lemma sameMethods_refl [simp]: "sameMethods M a a"
  by (simp add: sameMethods_def)

definition chosenCall :: "wrapContext \<Rightarrow> methodPhase \<Rightarrow> code \<Rightarrow> bool" where
  "chosenCall C ip c \<longleftrightarrow>
     fst (matchesRule (wcMethods C) c (wcRule C) (aliasesOf (wcImports C)) ip) \<and> \<not> ignoredCall (wcStmts C) (callId c)"

definition wrappedAs :: "wrapContext \<Rightarrow> funcDecl option \<Rightarrow> code \<Rightarrow> code \<Rightarrow> bool" where
  "wrappedAs C f0 c w \<longleftrightarrow>
     (\<exists>f e f'. rel_option onlyNamed f0 f \<and>
        compileExpression (wcTools C) (wcTemplate C) c f (wcImports C) (wcOverrides C) = (Inr e, f') \<and> w = cloneCode e)"

definition tableFits :: "wrapContext \<Rightarrow> methodPhase \<Rightarrow> funcDecl option \<Rightarrow> wrapTable \<Rightarrow> code \<Rightarrow> bool" where
  "tableFits C ip f reps c =
     (case map_of reps (the (callId c)) of None \<Rightarrow> \<not> chosenCall C ip c | Some w \<Rightarrow> chosenCall C ip c \<and> wrappedAs C f c w)"

lemma named_trans: "rel_option onlyNamed a b \<Longrightarrow> rel_option onlyNamed b c \<Longrightarrow> rel_option onlyNamed a c"
  by (cases a; cases b; cases c) (auto intro: onlyNamed_trans)

lemma named_refl [simp]: "rel_option onlyNamed a a"
  by (simp add: option.rel_refl)

lemma tableFits_mono:
  assumes "tableFits C ip' f' reps c" and "rel_option onlyNamed f f'" and "sameMethods (wcMethods C) ip ip'"
  shows "tableFits C ip f reps c"
  using assms named_trans [of f f'] matchesRule_cong [OF assms(3)]
  by (auto simp: tableFits_def chosenCall_def wrappedAs_def split: option.splits)

definition callKeys :: "code list \<Rightarrow> nat set" where
  "callKeys cs = (\<lambda>c. the (callId c)) ` set cs"

definition addedFor :: "wrapContext \<Rightarrow> methodPhase \<Rightarrow> funcDecl option \<Rightarrow> code list \<Rightarrow> wrapTable \<Rightarrow> bool" where
  "addedFor C ip f calls new \<longleftrightarrow> fst ` set new \<subseteq> callKeys calls \<and> (\<forall>c \<in> set calls. tableFits C ip f new c)"

lemma map_of_other: "k \<notin> fst ` set ys \<Longrightarrow> map_of (xs @ ys) k = map_of xs k"
  by (induction xs) (auto simp: map_of_eq_None_iff)

lemma wrapCalls_spec:
  "wrapCalls C body calls f0 reps ip = Inr (f1, reps1, ip1) \<Longrightarrow> distinct (map (\<lambda>c. the (callId c)) calls) \<Longrightarrow>
     rel_option onlyNamed f0 f1 \<and> sameMethods (wcMethods C) ip ip1 \<and>
     (\<exists>new. reps1 = new @ reps \<and> addedFor C ip f0 calls new)"
proof (induction calls arbitrary: f0 reps ip)
  case Nil
  then show ?case by (simp add: addedFor_def callKeys_def)
next
  case (Cons c calls)
  obtain b ip' where m: "matchesRule (wcMethods C) c (wcRule C) (aliasesOf (wcImports C)) ip = (b, ip')" by fastforce
  have same: "sameMethods (wcMethods C) ip ip'" using matchesRule_same [of "wcMethods C" ip c] m by (metis snd_conv)
  have d: "distinct (map (\<lambda>c. the (callId c)) calls)" "the (callId c) \<notin> callKeys calls"
    using Cons.prems(2) by (auto simp: callKeys_def)
  let ?ig = "ignoredCall (wcStmts C) (callId c)"
  have chosen: "chosenCall C ip c \<longleftrightarrow> b \<and> \<not> ?ig" using m by (simp add: chosenCall_def)
  show ?case
  proof (cases "b \<and> \<not> ?ig")
    case False
    then have "wrapCalls C body calls f0 reps ip' = Inr (f1, reps1, ip1)"
      using Cons.prems(1) m by (cases b; cases ?ig) simp_all
    from Cons.IH [OF this d(1)] obtain new where new: "reps1 = new @ reps" "addedFor C ip' f0 calls new"
      and r: "rel_option onlyNamed f0 f1" "sameMethods (wcMethods C) ip' ip1" by blast
    have "map_of new (the (callId c)) = None" using new(2) d(2) by (auto simp: addedFor_def map_of_eq_None_iff)
    then have "tableFits C ip f0 new c" using False chosen by (simp add: tableFits_def)
    then have "addedFor C ip f0 (c # calls) new"
      using new(2) tableFits_mono [OF _ named_refl same] by (auto simp: addedFor_def callKeys_def)
    with new(1) r sameMethods_trans [OF same] show ?thesis by blast
  next
    case True
    let ?check = "checkAliasOverrideShadowing (ruleImports (wcRule C)) (wcOverrides C) (map_option (\<lambda>f. (f, body)) f0)"
    obtain res f' where comp: "compileExpression (wcTools C) (wcTemplate C) c f0 (wcImports C) (wcOverrides C) = (res, f')"
      by fastforce
    have "?check = None" using Cons.prems(1) m True by (cases ?check) auto
    moreover obtain e where res: "res = Inr e" using Cons.prems(1) m True comp calculation by (cases res) auto
    ultimately have "wrapCalls C body calls f' ((the (callId c), cloneCode e) # reps) ip' = Inr (f1, reps1, ip1)"
      using Cons.prems(1) m True comp by simp
    from Cons.IH [OF this d(1)] obtain new where new: "reps1 = new @ (the (callId c), cloneCode e) # reps"
      "addedFor C ip' f' calls new" and r: "rel_option onlyNamed f' f1" "sameMethods (wcMethods C) ip' ip1" by blast
    let ?new = "new @ [(the (callId c), cloneCode e)]"
    have f': "rel_option onlyNamed f0 f'"
      using compileExpression_named [of f0 "wcTools C" "wcTemplate C" c "wcImports C" "wcOverrides C"] comp by simp
    have "map_of new (the (callId c)) = None" using new(2) d(2) by (auto simp: addedFor_def map_of_eq_None_iff)
    then have "map_of ?new (the (callId c)) = Some (cloneCode e)" by (simp add: map_add_def)
    moreover have "wrappedAs C f0 c (cloneCode e)" using comp res named_refl unfolding wrappedAs_def by blast
    ultimately have "tableFits C ip f0 ?new c" using True chosen by (simp add: tableFits_def)
    moreover have "tableFits C ip f0 ?new x" if x: "x \<in> set calls" for x
    proof -
      have "the (callId x) \<in> callKeys calls" using x by (simp add: callKeys_def)
      with d(2) have "the (callId x) \<notin> fst ` set [(the (callId c), cloneCode e)]" by auto
      from map_of_other [OF this] have "tableFits C ip f0 ?new x \<longleftrightarrow> tableFits C ip f0 new x" by (simp add: tableFits_def)
      with new(2) x tableFits_mono [OF _ f' same] show ?thesis by (auto simp: addedFor_def)
    qed
    moreover have "fst ` set ?new \<subseteq> callKeys (c # calls)" using new(2) by (auto simp: addedFor_def callKeys_def)
    ultimately have "addedFor C ip f0 (c # calls) ?new" by (auto simp: addedFor_def)
    moreover have "reps1 = ?new @ reps" by (simp add: new(1))
    ultimately show ?thesis using named_trans [OF f' r(1)] sameMethods_trans [OF same r(2)] by blast
  qed
qed
definition declFits :: "wrapContext \<Rightarrow> methodPhase \<Rightarrow> wrapTable \<Rightarrow> topDecl \<Rightarrow> bool" where
  "declFits C ip reps d \<longleftrightarrow> (\<forall>c \<in> set (callsIn (declCode d)). tableFits C ip (tdFunc d) reps c)"

definition sameDecl :: "topDecl \<Rightarrow> topDecl \<Rightarrow> bool" where
  "sameDecl d d' \<longleftrightarrow> (\<exists>f. d' = d\<lparr>tdFunc := f\<rparr> \<and> rel_option onlyNamed (tdFunc d) f)"

lemma declFits_cong:
  assumes "\<And>c. c \<in> set (callsIn (declCode d)) \<Longrightarrow> map_of r1 (the (callId c)) = map_of r2 (the (callId c))"
  shows "declFits C ip r1 d = declFits C ip r2 d"
  using assms by (simp add: declFits_def tableFits_def)

lemma walk_spec:
  "walkCallsWithEnclosingFunc C ds reps ip = Inr (ds', reps', ip') \<Longrightarrow>
     distinct (map (\<lambda>c. the (callId c)) (callsIn (concat (map declCode ds)))) \<Longrightarrow>
     list_all2 sameDecl ds ds' \<and> sameMethods (wcMethods C) ip ip' \<and>
     (\<exists>new. reps' = new @ reps \<and> fst ` set new \<subseteq> callKeys (callsIn (concat (map declCode ds))) \<and>
       (\<forall>d \<in> set ds. declFits C ip new d))"
proof (induction ds arbitrary: reps ip ds')
  case Nil
  then show ?case by simp
next
  case (Cons d ds)
  let ?rest = "callsIn (concat (map declCode ds))"
  obtain f reps1 ip1 where w: "wrapCalls C (tdBody d) (callsIn (declCode d)) (tdFunc d) reps ip = Inr (f, reps1, ip1)"
    using Cons.prems(1) by (auto split: sum.splits)
  obtain ds1 where walk: "walkCallsWithEnclosingFunc C ds reps1 ip1 = Inr (ds1, reps', ip')" and ds': "ds' = d\<lparr>tdFunc := f\<rparr> # ds1"
    using Cons.prems(1) w by (auto split: sum.splits)
  have d: "distinct (map (\<lambda>c. the (callId c)) (callsIn (declCode d)))" "distinct (map (\<lambda>c. the (callId c)) ?rest)"
    "callKeys (callsIn (declCode d)) \<inter> callKeys ?rest = {}"
    using Cons.prems(2) by (auto simp: callKeys_def)
  from wrapCalls_spec [OF w d(1)] obtain new1 where f: "rel_option onlyNamed (tdFunc d) f" "sameMethods (wcMethods C) ip ip1"
    and n1: "reps1 = new1 @ reps" "addedFor C ip (tdFunc d) (callsIn (declCode d)) new1" by blast
  from Cons.IH [OF walk d(2)] obtain new2 where r: "list_all2 sameDecl ds ds1" "sameMethods (wcMethods C) ip1 ip'"
    and n2: "reps' = new2 @ reps1" "fst ` set new2 \<subseteq> callKeys ?rest" "\<forall>d \<in> set ds. declFits C ip1 new2 d" by blast
  let ?new = "new2 @ new1"
  have k1: "fst ` set new1 \<subseteq> callKeys (callsIn (declCode d))" using n1(2) by (simp add: addedFor_def)
  have "declFits C ip ?new d"
  proof -
    have "map_of ?new (the (callId c)) = map_of new1 (the (callId c))" if "c \<in> set (callsIn (declCode d))" for c
    proof -
      have "the (callId c) \<notin> fst ` set new2" using that n2(2) d(3) by (auto simp: callKeys_def)
      then have "map_of new2 (the (callId c)) = None" by (simp add: map_of_eq_None_iff)
      then show ?thesis by (simp add: map_add_def split: option.split)
    qed
    from declFits_cong [of d ?new new1, OF this] n1(2) show ?thesis by (simp add: declFits_def addedFor_def)
  qed
  moreover have "declFits C ip ?new e" if e: "e \<in> set ds" for e
  proof -
    have "map_of ?new (the (callId c)) = map_of new2 (the (callId c))" if "c \<in> set (callsIn (declCode e))" for c
    proof -
      have "c \<in> set ?rest" using that e by (auto simp: callsIn_concat)
      then have "the (callId c) \<notin> fst ` set new1" using k1 d(3) by (auto simp: callKeys_def)
      then show ?thesis by (rule map_of_other)
    qed
    from declFits_cong [of e ?new new2, OF this] n2(3) e have "declFits C ip1 ?new e" by simp
    then show ?thesis using tableFits_mono [OF _ named_refl f(2)] by (simp add: declFits_def)
  qed
  moreover have "fst ` set ?new \<subseteq> callKeys (callsIn (concat (map declCode (d # ds))))"
    using k1 n2(2) by (auto simp: callKeys_def)
  moreover have "reps' = ?new @ reps" using n1(1) n2(1) by simp
  moreover have "list_all2 sameDecl (d # ds) ds'" using ds' r(1) f(1) by (auto simp: sameDecl_def)
  ultimately show ?case using sameMethods_trans [OF f(2) r(2)]
    by (intro conjI exI [of _ ?new]) (assumption | simp)+
qed

lemma identify_distinct: "distinct (map (\<lambda>c. the (callId c)) (callsIn (concat (map declCode (identify ds)))))"
proof -
  obtain ids where ids: "map callId (callsIn (concat (map declCode (identify ds)))) = map Some ids" "distinct ids"
    using identify_numbered [of 0 ds] by (auto simp: identify_def numbered_def)
  from arg_cong [OF ids(1), of "map the"] have "map (\<lambda>c. the (callId c)) (callsIn (concat (map declCode (identify ds)))) = ids"
    by (simp add: comp_def)
  with ids(2) show ?thesis by simp
qed

lemma sites_decl: "d \<in> set ds \<Longrightarrow> set (sitesIn [d]) \<subseteq> set (sitesIn ds)"
  by (auto simp: sitesIn_def)
section \<open>Properties\<close>

lemma replaceCalls_empty: "replaceCalls [] c = c"
proof (induction c)
  case (Node k cs)
  then have "map (replaceCalls []) cs = cs" by (simp add: map_idI)
  then show ?case by (cases k) (auto split: option.split)
qed simp_all

definition replacedDecl :: "(code \<Rightarrow> code option) \<Rightarrow> topDecl \<Rightarrow> topDecl \<Rightarrow> bool" where
  "replacedDecl W d d' \<longleftrightarrow> tdHead d' = map (replaceOuter W) (tdHead d) \<and>
     tdBody d' = map_option (map (replaceOuter W)) (tdBody d) \<and> rel_option onlyNamed (tdFunc d) (tdFunc d')"

lemma replacedDecl_map: "sameDecl d d' \<Longrightarrow> replacedDecl (lookupCall reps) d (mapDecl (replaceCalls reps) d')"
proof -
  have "replaceCalls reps = replaceOuter (lookupCall reps)" by (rule ext) (rule replaceCalls_outer)
  then show "sameDecl d d' \<Longrightarrow> ?thesis" by (auto simp: sameDecl_def replacedDecl_def mapDecl_def)
qed

lemma mapDecl_id: "map (mapDecl (replaceCalls [])) ds = ds"
proof -
  have "replaceCalls [] = (\<lambda>c. c)" by (rule ext) (rule replaceCalls_empty)
  then have "mapDecl (replaceCalls []) d = d" for d by (simp add: mapDecl_def option.map_ident)
  then show ?thesis by (simp add: map_idI)
qed

text \<open>C33: replacing calls is one recursion over the file. The result is the file in which the
  outermost of the chosen calls are replaced and nothing else is changed, names for unnamed
  parameters apart. Chosen are the calls that match the rule and whose nearest statement does not
  carry the ignore directive; the replacement is a copy of what the template of the rule compiles
  to for this call.\<close>

theorem applyCallReplace_outermost:
  assumes "applyCallReplace T M r root decls ims overrides ip = Inr ((changed, ds'), ip')"
  shows "\<exists>W tmpl. ctTemplate T (crReplace r) = Some tmpl \<and>
    list_all2 (replacedDecl W) (identify decls) ds' \<and>
    (changed \<longleftrightarrow> (\<exists>(c, s) \<in> set (sitesIn (identify decls)). W c \<noteq> None)) \<and>
    (\<forall>d \<in> set (identify decls). \<forall>(c, s) \<in> set (sitesIn [d]).
       (W c \<noteq> None \<longleftrightarrow> fst (matchesRule M c r (aliasesOf ims) ip) \<and> \<not> hasLeadingDirective (map_option treeOf s) directiveIgnore) \<and>
       (\<forall>w. W c = Some w \<longrightarrow> (\<exists>f e f'. rel_option onlyNamed (tdFunc d) f \<and>
          compileExpression T tmpl c f ims overrides = (Inr e, f') \<and> w = cloneCode e)))"
proof -
  obtain tmpl where tmpl: "ctTemplate T (crReplace r) = Some tmpl"
    using assms by (auto simp: applyCallReplace_def split: option.splits)
  let ?ds = "identify decls"
  define C where "C = wrapContextFor T M r tmpl ims overrides (enclosingStmts root ?ds)"
  have C: "wcTools C = T" "wcMethods C = M" "wcRule C = r" "wcTemplate C = tmpl" "wcImports C = ims"
    "wcOverrides C = overrides" "wcStmts C = enclosingStmts root ?ds"
    by (simp_all add: C_def wrapContextFor_def)
  obtain ds1 reps ip1 where walk: "walkCallsWithEnclosingFunc C ?ds [] ip = Inr (ds1, reps, ip1)"
    using assms tmpl unfolding applyCallReplace_def C_def by (auto simp: Let_def split: sum.splits)
  have ds': "ds' = map (mapDecl (replaceCalls reps)) ds1" "changed \<longleftrightarrow> reps \<noteq> []"
    using assms tmpl walk by (auto simp: applyCallReplace_def C_def Let_def mapDecl_id split: if_splits)
  from walk_spec [OF walk identify_distinct] have same: "list_all2 sameDecl ?ds ds1"
    and fits: "\<forall>d \<in> set ?ds. declFits C ip reps d"
    and keys: "fst ` set reps \<subseteq> callKeys (map fst (sitesIn ?ds))" by (auto simp: sitesIn_calls)
  let ?W = "lookupCall reps"
  have lookup: "?W c = map_of reps (the (callId c))" if "(c, s) \<in> set (sitesIn ?ds)" for c s
    using ignored_site(2) [OF that] by (auto simp: lookupCall_def)
  have "\<exists>(c, s) \<in> set (sitesIn ?ds). ?W c \<noteq> None" if some: "reps \<noteq> []"
  proof -
    obtain k where k: "k \<in> fst ` set reps" using some by (cases reps) auto
    then obtain c s where cs: "(c, s) \<in> set (sitesIn ?ds)" "k = the (callId c)" using keys by (force simp: callKeys_def)
    with k lookup [OF cs(1)] have "?W c \<noteq> None" by (simp add: map_of_eq_None_iff)
    with cs(1) show ?thesis by blast
  qed
  then have ch: "changed \<longleftrightarrow> (\<exists>(c, s) \<in> set (sitesIn ?ds). ?W c \<noteq> None)"
    using ds'(2) lookup by fastforce
  have "list_all2 (replacedDecl ?W) ?ds ds'"
    unfolding ds'(1) list_all2_map2 by (rule list_all2_mono [OF same]) (rule replacedDecl_map)
  moreover have "(?W c \<noteq> None \<longleftrightarrow> fst (matchesRule M c r (aliasesOf ims) ip) \<and> \<not> hasLeadingDirective (map_option treeOf s) directiveIgnore) \<and>
      (\<forall>w. ?W c = Some w \<longrightarrow> (\<exists>f e f'. rel_option onlyNamed (tdFunc d) f \<and>
          compileExpression T tmpl c f ims overrides = (Inr e, f') \<and> w = cloneCode e))"
    if d: "d \<in> set ?ds" and c: "(c, s) \<in> set (sitesIn [d])" for d c s
  proof -
    have cs: "(c, s) \<in> set (sitesIn ?ds)" using sites_decl [OF d] c by blast
    have "c \<in> set (map fst (sitesIn [d]))" using c by force
    then have "c \<in> set (callsIn (declCode d))" by (simp add: sitesIn_calls)
    then have "tableFits C ip (tdFunc d) reps c" using fits d by (simp add: declFits_def)
    moreover have "chosenCall C ip c \<longleftrightarrow> fst (matchesRule M c r (aliasesOf ims) ip) \<and> \<not> hasLeadingDirective (map_option treeOf s) directiveIgnore"
      using ignored_site(1) [OF cs, of root] by (simp add: chosenCall_def C)
    ultimately show ?thesis using lookup [OF cs] by (auto simp: tableFits_def wrappedAs_def C split: option.splits)
  qed
  ultimately have "list_all2 (replacedDecl ?W) ?ds ds' \<and> (\<forall>d \<in> set ?ds. \<forall>(c, s) \<in> set (sitesIn [d]).
      (?W c \<noteq> None \<longleftrightarrow> fst (matchesRule M c r (aliasesOf ims) ip) \<and> \<not> hasLeadingDirective (map_option treeOf s) directiveIgnore) \<and>
      (\<forall>w. ?W c = Some w \<longrightarrow> (\<exists>f e f'. rel_option onlyNamed (tdFunc d) f \<and>
          compileExpression T tmpl c f ims overrides = (Inr e, f') \<and> w = cloneCode e)))" by fast
  then show ?thesis using tmpl ch by blast
qed
definition sampleRule :: InstCallRule where
  "sampleRule = \<lparr>ruleName = ''r'', ruleTarget = newTarget [''app''], ruleVersion = [], ruleImports = [(''wrap'', ''x/wrap'')],
     ruleWhere = None, crFunctionCall = ''net/http.Get'', crMethodCall = [], crImportPath = ''net/http'',
     crFuncName = ''Get'', crRecvType = [], crReplace = ''t'', crAppendArgs = [], crVariadicType = []\<rparr>"

definition sampleStmt :: "string list \<Rightarrow> code \<Rightarrow> code" where
  "sampleStmt decs c = Node (Stmt None decs (PlainStmt ''ExprStmt'')) [c]"

text \<open>\<open>http.Get(http.Get(u))\<close>, then an ignored \<open>http.Get(u)\<close>\<close>

definition getOf :: "nat option \<Rightarrow> code \<Rightarrow> code" where
  "getOf i arg = Node (Call i False) [Node (Sel ''Get'') [IdentN [] ''http''], arg]"

definition sampleDecls :: "topDecl list" where
  "sampleDecls = [\<lparr>tdFunc = Some sampleTarget, tdHead = [],
     tdBody = Some [sampleStmt [] (getOf None (getOf None (IdentN [] ''u''))),
                    sampleStmt [''//otelc:ignore''] (getOf None (IdentN [] ''u''))]\<rparr>]"

definition sampleRoot :: dstFile where
  "sampleRoot = \<lparr>fileName = ''app'', fileDecls = [], fileImports = [], fileStart = [], fileTree = DNode OtherNode [] [] []\<rparr>"

definition sampleAliases :: "string \<Rightarrow> string option" where
  "sampleAliases n = (if n = ''http'' then Some ''net/http'' else None)"

definition sampleMethods :: methodTools where
  "sampleMethods = \<lparr>mtAbs = Some, mtCheck = (\<lambda>_ _ _. None), mtPosition = (\<lambda>_. None)\<rparr>"

definition samplePhase :: methodPhase where
  "samplePhase = \<lparr>mpCompileArgs = [], mpConfig = emptyConfig, mpLoaded = False, mpInfo = None\<rparr>"

definition sampleReplaced :: "callError + (bool \<times> topDecl list) \<times> methodPhase" where
  "sampleReplaced = applyCallReplace sampleTools sampleMethods sampleRule sampleRoot sampleDecls
     (Some sampleAliases) sampleOverrides samplePhase"

definition sampleResult :: "code list list" where
  "sampleResult = [[
     Node (Stmt (Some 0) [] (PlainStmt ''ExprStmt''))
       [Node (Call None False) [Node (Sel ''Do'') [IdentN [] ''w''], IdentN [] ''_ignoredParam__0'',
          getOf None (getOf None (IdentN [] ''u''))]],
     Node (Stmt (Some 5) [''//otelc:ignore''] (PlainStmt ''ExprStmt'')) [getOf (Some 6) (IdentN [] ''u'')]]]"

theorem applyCallReplace_outermost_witness:
  "\<exists>W ds'. list_all2 (replacedDecl W) (identify sampleDecls) ds' \<and> map declCode ds' = sampleResult"
proof -
  have "(case sampleReplaced of Inl e \<Rightarrow> None | Inr ((changed, ds'), ip) \<Rightarrow> Some (map declCode ds')) = Some sampleResult"
    by code_simp
  then obtain changed ds' ip' where r: "applyCallReplace sampleTools sampleMethods sampleRule sampleRoot sampleDecls
      (Some sampleAliases) sampleOverrides samplePhase = Inr ((changed, ds'), ip')"
    and "map declCode ds' = sampleResult"
    unfolding sampleReplaced_def by (auto split: sum.splits)
  then show ?thesis using applyCallReplace_outermost [OF r] by (elim exE conjE) (intro exI conjI)
qed

end
