(* ===== verification/Template_Trace.thy ===== *)
theory Template_Trace
  imports Call_Template
begin

text \<open>
  What a function template of a raw or directive rule writes. The run of a template is recorded as the
  questions it asked and the answers it got, and the answers are compared with the declaration as it
  is in the end, with names for all parameters or results that were asked about.

  Shown: every answer of a run is the one the final declaration gives.
\<close>

section \<open>Runs of a template\<close>

text \<open>A run that ends: the questions with their answers, and the text\<close>

inductive wrote :: "'q template \<Rightarrow> ('q \<times> answer) list \<Rightarrow> string \<Rightarrow> bool" where
  nothing: "wrote Done [] []"
| emit: "wrote t qas s \<Longrightarrow> wrote (Emit x t) qas (x @ s)"
| ask: "wrote (k a) qas s \<Longrightarrow> wrote (Ask q k) ((q, a) # qas) s"

inductive_cases wrote_DoneE: "wrote Done qas s"
inductive_cases wrote_EmitE: "wrote (Emit x t) qas s"
inductive_cases wrote_AskE: "wrote (Ask q k) qas s"

section \<open>What a declaration says\<close>

definition everyNamed :: "goField list \<Rightarrow> bool" where
  "everyNamed fs \<longleftrightarrow> (\<forall>(ns, t) \<in> set fs. ns \<noteq> [] \<and> ''_'' \<notin> set ns)"

definition paramsOf :: "funcDecl \<Rightarrow> goField list" where
  "paramsOf f = fieldsOf (ftParams (fdType f))"

definition resultsOf :: "funcDecl \<Rightarrow> goField list" where
  "resultsOf f = fieldsOf (ftResults (fdType f))"

text \<open>The name in position \<open>i\<close>, and the name of the first field of a type (none if there is no such field)\<close>

definition nameAt :: "int \<Rightarrow> goField list \<Rightarrow> answer \<Rightarrow> bool" where
  "nameAt i fs a \<longleftrightarrow> everyNamed fs \<and> 0 \<le> i \<and> nat i < length (concat (map fst fs)) \<and>
     a = Text (markDynamicIdent (concat (map fst fs) ! nat i))"

definition nameTyped :: "string \<Rightarrow> (string \<Rightarrow> string option) option \<Rightarrow> goField list \<Rightarrow> answer \<Rightarrow> bool" where
  "nameTyped typeStr imports fs a \<longleftrightarrow> everyNamed fs \<and>
     a = Text (case List.find (\<lambda>(ns, t). MatchesTypeName t typeStr imports = Inr True) fs of
                 None \<Rightarrow> [] | Some (ns, t) \<Rightarrow> markDynamicIdent (hd ns))"

definition namesCounted :: "goField list \<Rightarrow> answer \<Rightarrow> bool" where
  "namesCounted fs a \<longleftrightarrow> everyNamed fs \<and> a = Count (length (concat (map fst fs)))"

fun tells :: "funcDecl \<Rightarrow> DirectiveArg list \<Rightarrow> (string \<Rightarrow> string option) option \<Rightarrow> funcQuery \<Rightarrow> answer \<Rightarrow> bool" where
  "tells f dargs imports FuncName a = (a = Text (markDynamicIdent (fdName f)))"
| "tells f dargs imports (FuncArgument i) a = nameAt i (paramsOf f) a"
| "tells f dargs imports (FuncReturn i) a = nameAt i (resultsOf f) a"
| "tells f dargs imports FuncArgumentCount a = namesCounted (paramsOf f) a"
| "tells f dargs imports FuncReturnCount a = namesCounted (resultsOf f) a"
| "tells f dargs imports Receiver a = (\<exists>n ns t fs. fieldsOf (fdRecv f) = (n # ns, t) # fs \<and> n \<noteq> ''_'' \<and>
     a = Text (markDynamicIdent n))"
| "tells f dargs imports (FuncArgumentOfType typeStr) a = nameTyped typeStr imports (paramsOf f) a"
| "tells f dargs imports (FuncReturnOfType typeStr) a = nameTyped typeStr imports (resultsOf f) a"
| "tells f dargs imports (DirectiveArgAt key) a =
     (a = Text (case List.find (\<lambda>x. argKey x = key) dargs of None \<Rightarrow> [] | Some x \<Rightarrow> argValue x))"

section \<open>Naming\<close>

lemma markDynamicIdent_Nil [simp]: "markDynamicIdent [] = []"
  by (simp add: markDynamicIdent_def)

lemma nameFields_every: "unnamed \<noteq> [] \<Longrightarrow> ignored \<noteq> [] \<Longrightarrow> nameFields unnamed ignored hash taken idx fs = (fs', r) \<Longrightarrow> everyNamed fs'"
  using nameFields_fresh [of unnamed ignored hash taken idx fs fs' "fst r" "snd r"]
  by (auto simp: everyNamed_def freshNames_def getNames_def list_all_iff)

text \<open>The name of the receiver, if there is one\<close>

definition receiverNames :: "funcDecl \<Rightarrow> string list" where
  "receiverNames f = (case fieldsOf (fdRecv f) of [] \<Rightarrow> [] | (ns, t) # fs \<Rightarrow> [hd ns])"

definition receiverNamed :: "funcDecl \<Rightarrow> bool" where
  "receiverNamed f \<longleftrightarrow> (case fieldsOf (fdRecv f) of [] \<Rightarrow> True | (ns, t) # fs \<Rightarrow> ns \<noteq> [] \<and> hd ns \<noteq> ''_'')"

lemma nameReceiver_facts:
  assumes "nameReceiver hash f = (recv, r, taken, idx)"
  shows "receiverNamed (f\<lparr>fdRecv := recv\<rparr>) \<and> r = receiverNames (f\<lparr>fdRecv := recv\<rparr>) \<and> (fieldsOf recv = [] \<longleftrightarrow> fieldsOf (fdRecv f) = [])"
proof (cases "fieldsOf (fdRecv f)")
  case Nil
  then show ?thesis using assms by (auto simp: nameReceiver_def receiverNamed_def receiverNames_def)
next
  case (Cons g gs)
  obtain ns t where g: "g = (ns, t)" by fastforce
  obtain m t1 i1 where m: "nextName ''_ignoredParam'' hash (takenNames f) 0 = (m, t1, i1)" by (metis prod_cases3)
  have "m \<noteq> ''_''" using nextName_fresh [OF m] by (auto simp: freshNames_def)
  then show ?thesis using assms Cons g m
    by (auto simp: nameReceiver_def receiverNamed_def receiverNames_def fieldsOf_def split: if_splits)
qed

lemma nameArguments_facts:
  assumes "nameArguments f hash = (g, as)"
  shows "everyNamed (paramsOf g) \<and> receiverNamed g \<and> as = receiverNames g @ concat (map fst (paramsOf g)) \<and>
    resultsOf g = resultsOf f \<and> fdName g = fdName f"
proof -
  obtain recv r taken idx where r: "nameReceiver hash f = (recv, r, taken, idx)" by (metis prod_cases4)
  obtain ps t i where ps: "nameFields ''_ignoredParam'' ''_ignoredParam'' hash taken idx (fieldsOf (ftParams (fdType f))) = (ps, t, i)"
    by (metis prod_cases3)
  have "everyNamed ps" by (rule nameFields_every [OF _ _ ps]) simp_all
  then show ?thesis using assms r ps nameReceiver_facts [OF r]
    by (auto simp: nameArguments_def paramsOf_def resultsOf_def fieldsOf_def getNames_def receiverNames_def receiverNamed_def)
qed

lemma nameReturns_facts:
  assumes "nameReturns f hash = (g, rs)"
  shows "everyNamed (resultsOf g) \<and> rs = concat (map fst (resultsOf g)) \<and> paramsOf g = paramsOf f \<and> fdRecv g = fdRecv f \<and> fdName g = fdName f"
proof (cases "ftResults (fdType f)")
  case None
  then show ?thesis using assms by (auto simp: nameReturns_def resultsOf_def fieldsOf_def everyNamed_def)
next
  case (Some fs)
  obtain qs t i where qs: "nameFields ''_unnamedRetVal'' ''_ignoredRetVal'' hash (takenNames f) 0 fs = (qs, t, i)"
    by (metis prod_cases3)
  have "everyNamed qs" by (rule nameFields_every [OF _ _ qs]) simp_all
  then show ?thesis using assms Some qs by (auto simp: nameReturns_def resultsOf_def paramsOf_def fieldsOf_def getNames_def)
qed

section \<open>The data of a run\<close>

text \<open>The cached names are those of the declaration.\<close>

definition cachesFit :: "funcTemplateData \<Rightarrow> bool" where
  "cachesFit d \<longleftrightarrow>
     (\<forall>as. fdFullArgs d = Some as \<longrightarrow> everyNamed (paramsOf (fdDecl d)) \<and> receiverNamed (fdDecl d) \<and>
        as = receiverNames (fdDecl d) @ concat (map fst (paramsOf (fdDecl d)))) \<and>
     (\<forall>as. fdArgs d = Some as \<longrightarrow> fdFullArgs d \<noteq> None \<and> as = concat (map fst (paramsOf (fdDecl d)))) \<and>
     (\<forall>rs. fdRets d = Some rs \<longrightarrow> everyNamed (resultsOf (fdDecl d)) \<and> rs = concat (map fst (resultsOf (fdDecl d))))"

text \<open>Names that were asked for stay.\<close>

definition after :: "funcTemplateData \<Rightarrow> funcTemplateData \<Rightarrow> bool" where
  "after d e \<longleftrightarrow> cachesFit e \<and> fdName (fdDecl e) = fdName (fdDecl d) \<and> fdDirectiveArgs e = fdDirectiveArgs d \<and> fdImports e = fdImports d \<and>
     (fdFullArgs d \<noteq> None \<longrightarrow> fdFullArgs e \<noteq> None \<and> fdRecv (fdDecl e) = fdRecv (fdDecl d) \<and> paramsOf (fdDecl e) = paramsOf (fdDecl d)) \<and>
     (fdRets d \<noteq> None \<longrightarrow> fdRets e \<noteq> None \<and> resultsOf (fdDecl e) = resultsOf (fdDecl d))"

lemma after_refl: "cachesFit d \<Longrightarrow> after d d"
  by (simp add: after_def)

lemma after_trans: "after d e \<Longrightarrow> after e g \<Longrightarrow> after d g"
  by (auto simp: after_def)

lemma receiver_cong [simp]:
  "receiverNames (f\<lparr>fdType := t\<rparr>) = receiverNames f" "receiverNamed (f\<lparr>fdType := t\<rparr>) = receiverNamed f"
  by (simp_all add: receiverNames_def receiverNamed_def)

lemma fullArguments_after:
  assumes "cachesFit d" and "fullArguments d = (as, e)"
  shows "after d e \<and> fdFullArgs e \<noteq> None \<and> as = receiverNames (fdDecl e) @ concat (map fst (paramsOf (fdDecl e))) \<and>
    everyNamed (paramsOf (fdDecl e)) \<and> receiverNamed (fdDecl e)"
proof (cases "fdFullArgs d")
  case None
  obtain f as' where n: "nameArguments (fdDecl d) (fdHash d) = (f, as')" by fastforce
  have "fdArgs d = None" using assms(1) None by (cases "fdArgs d") (auto simp: cachesFit_def)
  have e: "e = d\<lparr>fdDecl := f, fdFullArgs := Some as'\<rparr>" "as = as'" using assms(2) None n by (auto simp: fullArguments_def)
  note N = nameArguments_facts [OF n]
  have "cachesFit e" using assms(1) N \<open>fdArgs d = None\<close> unfolding cachesFit_def e by simp
  then have "after d e" using N None unfolding after_def e by simp
  then show ?thesis using N unfolding e by simp
next
  case (Some bs)
  then show ?thesis using assms by (auto simp: fullArguments_def after_def cachesFit_def)
qed

lemma receiverNames_HasReceiver: "HasReceiver f \<longleftrightarrow> (\<exists>n. receiverNames f = [n])" "\<not> HasReceiver f \<Longrightarrow> receiverNames f = []"
  by (auto simp: HasReceiver_def receiverNames_def split: list.split)

lemma arguments_after:
  assumes "cachesFit d" and "arguments d = (as, e)"
  shows "after d e \<and> fdFullArgs e \<noteq> None \<and> as = concat (map fst (paramsOf (fdDecl e))) \<and> everyNamed (paramsOf (fdDecl e))"
proof (cases "fdArgs d")
  case None
  obtain bs e' where n: "fullArguments d = (bs, e')" by fastforce
  note F = fullArguments_after [OF assms(1) n]
  have as: "as = (if HasReceiver (fdDecl e') then tl bs else bs)" and e: "e = e'\<lparr>fdArgs := Some as\<rparr>"
    using assms(2) None n by (auto simp: arguments_def Let_def)
  have names: "as = concat (map fst (paramsOf (fdDecl e')))"
  proof (cases "HasReceiver (fdDecl e')")
    case True
    then show ?thesis using as F receiverNames_HasReceiver(1) by fastforce
  next
    case False
    then show ?thesis using as F receiverNames_HasReceiver(2) by simp
  qed
  have "cachesFit e'" using F by (simp add: after_def)
  then have "cachesFit e" using F names unfolding cachesFit_def e by simp
  then have "after d e" using F unfolding after_def e by simp
  then show ?thesis using F names unfolding e by simp
next
  case (Some bs)
  then have "bs = as" "e = d" using assms(2) by (simp_all add: arguments_def)
  then show ?thesis using assms(1) Some after_refl by (simp add: cachesFit_def) blast
qed

lemma returnNames_after:
  assumes "cachesFit d" and "returnNames d = (rs, e)"
  shows "after d e \<and> fdRets e \<noteq> None \<and> rs = concat (map fst (resultsOf (fdDecl e))) \<and> everyNamed (resultsOf (fdDecl e))"
proof (cases "fdRets d")
  case None
  obtain f rs' where n: "nameReturns (fdDecl d) (fdHash d) = (f, rs')" by fastforce
  have e: "e = d\<lparr>fdDecl := f, fdRets := Some rs'\<rparr>" "rs = rs'" using assms(2) None n by (auto simp: returnNames_def)
  note N = nameReturns_facts [OF n]
  have recv: "receiverNames f = receiverNames (fdDecl d)" "receiverNamed f = receiverNamed (fdDecl d)"
    using N by (simp_all add: receiverNames_def receiverNamed_def)
  have "cachesFit e" using assms(1) N recv unfolding cachesFit_def e by simp
  then have "after d e" using N None unfolding after_def e by simp
  then show ?thesis using N unfolding e by simp
next
  case (Some bs)
  then show ?thesis using assms by (auto simp: returnNames_def after_def cachesFit_def)
qed

section \<open>Answers\<close>

lemma nthName_Inr: "nthName i names = Inr n \<longleftrightarrow> 0 \<le> i \<and> nat i < length names \<and> n = names ! nat i"
  by (auto simp: nthName_def)

lemma nameOfType_names:
  "nameOfType typeStr imports (pre @ concat (map fst fs)) (length pre) fs = Inr n \<Longrightarrow> everyNamed fs \<Longrightarrow>
     n = (case List.find (\<lambda>(ns, t). MatchesTypeName t typeStr imports = Inr True) fs of None \<Rightarrow> [] | Some (ns, t) \<Rightarrow> hd ns)"
proof (induction fs arbitrary: pre)
  case (Cons f fs)
  obtain ns t where f: "f = (ns, t)" by fastforce
  have ns: "ns \<noteq> []" and fs: "everyNamed fs" using Cons.prems(2) f by (auto simp: everyNamed_def)
  show ?case
  proof (cases "MatchesTypeName t typeStr imports")
    case (Inl e)
    then show ?thesis using Cons.prems(1) f by simp
  next
    case (Inr b)
    show ?thesis
    proof (cases b)
      case True
      then show ?thesis using Cons.prems(1) f Inr ns by (cases ns) auto
    next
      case False
      then show ?thesis using Cons.prems(1) f Inr Cons.IH [of "pre @ ns", OF _ fs] by simp
    qed
  qed
qed simp

lemma nameOfType_typed:
  assumes "nameOfType typeStr imports (concat (map fst fs)) 0 fs = Inr n" and "everyNamed fs"
  shows "nameTyped typeStr imports fs (Text (markDynamicIdent n))"
  unfolding nameTyped_def nameOfType_names [of typeStr "imports" "[]", simplified, OF assms]
  using assms(2) by (auto split: option.split)

lemma dynamicName_Inr: "dynamicName r = Inr a \<longleftrightarrow> (\<exists>n. r = Inr n \<and> a = Text (markDynamicIdent n))"
  by (cases r) (auto simp: dynamicName_def)

text \<open>The names a question is about have been filled in.\<close>

fun asked :: "funcTemplateData \<Rightarrow> funcQuery \<Rightarrow> bool" where
  "asked d (FuncArgument i) = (fdFullArgs d \<noteq> None)"
| "asked d FuncArgumentCount = (fdFullArgs d \<noteq> None)"
| "asked d (FuncArgumentOfType t) = (fdFullArgs d \<noteq> None)"
| "asked d Receiver = (fdFullArgs d \<noteq> None)"
| "asked d (FuncReturn i) = (fdRets d \<noteq> None)"
| "asked d FuncReturnCount = (fdRets d \<noteq> None)"
| "asked d (FuncReturnOfType t) = (fdRets d \<noteq> None)"
| "asked d q = True"

definition told :: "funcTemplateData \<Rightarrow> funcQuery \<Rightarrow> answer \<Rightarrow> bool" where
  "told d q a \<longleftrightarrow> asked d q \<and> tells (fdDecl d) (fdDirectiveArgs d) (fdImports d) q a"

lemma told_after: "told d q a \<Longrightarrow> after d e \<Longrightarrow> told e q a"
  by (cases q) (auto simp: told_def after_def)

lemma receiver_told:
  assumes "HasReceiver f" and "receiverNamed f"
  shows "\<exists>n ns t fs. fieldsOf (fdRecv f) = (n # ns, t) # fs \<and> n \<noteq> ''_'' \<and> hd (receiverNames f) = n"
proof -
  obtain ns t fs where "fieldsOf (fdRecv f) = (ns, t) # fs"
    using assms(1) by (cases "fieldsOf (fdRecv f)") (auto simp: HasReceiver_def)
  then show ?thesis using assms(2) by (cases ns) (auto simp: receiverNamed_def receiverNames_def)
qed

lemma fullArguments_receiver:
  assumes "cachesFit d" and "HasReceiver (fdDecl d)" and "fullArguments d = (as, e)"
  shows "HasReceiver (fdDecl e)"
  using fullArguments_named [of d] assms(2,3) by (auto simp: HasReceiver_def onlyNamed_def)

lemma funcAnswer_told:
  assumes fit: "cachesFit d" and run: "funcAnswer q d = (Inr a, e)"
  shows "after d e \<and> told e q a"
proof -
  obtain as e1 where A: "arguments d = (as, e1)" by fastforce
  obtain rs e2 where R: "returnNames d = (rs, e2)" by fastforce
  obtain bs e3 where F: "fullArguments d = (bs, e3)" by fastforce
  note args = arguments_after [OF fit A] and rets = returnNames_after [OF fit R] and full = fullArguments_after [OF fit F]
  show ?thesis
  proof (cases q)
    case FuncName
    then show ?thesis using run fit by (auto simp: told_def dynamicName_Inr after_refl)
  next
    case (FuncArgument i)
    then show ?thesis using run A args by (auto simp: told_def dynamicName_Inr nthName_Inr nameAt_def)
  next
    case (FuncReturn i)
    then show ?thesis using run R rets by (auto simp: told_def dynamicName_Inr nthName_Inr nameAt_def)
  next
    case FuncArgumentCount
    then show ?thesis using run A args by (auto simp: told_def namesCounted_def)
  next
    case FuncReturnCount
    then show ?thesis using run R rets by (auto simp: told_def namesCounted_def)
  next
    case Receiver
    then have has: "HasReceiver (fdDecl d)" and a: "a = Text (markDynamicIdent (hd bs))" "e = e3"
      using run F by (auto simp: dynamicName_Inr split: if_splits)
    have "HasReceiver (fdDecl e3)" by (rule fullArguments_receiver [OF fit has F])
    from receiver_told [OF this] full obtain n ns t fs where
      n: "fieldsOf (fdRecv (fdDecl e3)) = (n # ns, t) # fs" "n \<noteq> ''_''" "hd (receiverNames (fdDecl e3)) = n" by blast
    have "hd bs = n" using full n(1,3) by (simp add: receiverNames_def)
    then show ?thesis using Receiver full a n(1,2) by (simp add: told_def)
  next
    case (FuncArgumentOfType ts)
    then have "dynamicName (nameOfType ts (fdImports e1) as 0 (paramsOf (fdDecl e1))) = Inr a" and e: "e = e1"
      using run A by (auto simp: paramsOf_def)
    then obtain n where n: "nameOfType ts (fdImports e1) as 0 (paramsOf (fdDecl e1)) = Inr n" and n': "a = Text (markDynamicIdent n)"
      unfolding dynamicName_Inr by blast
    note a = n' e
    have V: "as = concat (map fst (paramsOf (fdDecl e1)))" and every: "everyNamed (paramsOf (fdDecl e1))" using args by blast+
    have "nameTyped ts (fdImports e1) (paramsOf (fdDecl e1)) a"
      unfolding a by (rule nameOfType_typed [OF n [unfolded V] every])
    then have "told e q a" using args unfolding FuncArgumentOfType told_def a by simp
    then show ?thesis using args unfolding a by blast
  next
    case (FuncReturnOfType ts)
    then have "dynamicName (nameOfType ts (fdImports e2) rs 0 (resultsOf (fdDecl e2))) = Inr a" and e: "e = e2"
      using run R by (auto simp: resultsOf_def)
    then obtain n where n: "nameOfType ts (fdImports e2) rs 0 (resultsOf (fdDecl e2)) = Inr n" and n': "a = Text (markDynamicIdent n)"
      unfolding dynamicName_Inr by blast
    note a = n' e
    have V: "rs = concat (map fst (resultsOf (fdDecl e2)))" and every: "everyNamed (resultsOf (fdDecl e2))" using rets by blast+
    have "nameTyped ts (fdImports e2) (resultsOf (fdDecl e2)) a"
      unfolding a by (rule nameOfType_typed [OF n [unfolded V] every])
    then have "told e q a" using rets unfolding FuncReturnOfType told_def a by simp
    then show ?thesis using rets unfolding a by blast
  next
    case (DirectiveArgAt key)
    then show ?thesis using run fit by (auto simp: told_def DirectiveArgOf_def after_refl)
  qed
qed

lemma runTemplate_told:
  "runTemplate funcAnswer tmpl d = (Inr s, e) \<Longrightarrow> cachesFit d \<Longrightarrow>
     after d e \<and> (\<exists>qas. wrote tmpl qas s \<and> (\<forall>(q, a) \<in> set qas. told e q a))"
proof (induction tmpl arbitrary: d s)
  case Done
  then show ?case by (auto intro: wrote.nothing after_refl)
next
  case (Emit x t)
  then obtain r where r: "runTemplate funcAnswer t d = (Inr r, e)" "s = x @ r"
    by (auto split: prod.splits sum.splits)
  with Emit.IH [OF r(1) Emit.prems(2)] show ?case by (auto intro: wrote.emit)
next
  case (Ask q k)
  then obtain a d' where a: "funcAnswer q d = (Inr a, d')" and r: "runTemplate funcAnswer (k a) d' = (Inr s, e)"
    by (auto split: prod.splits sum.splits)
  note one = funcAnswer_told [OF Ask.prems(2) a]
  have "cachesFit d'" using one by (simp add: after_def)
  from Ask.IH [OF rangeI r this] obtain qas where
    w: "after d' e" "wrote (k a) qas s" "\<forall>(q, a) \<in> set qas. told e q a" by blast
  have "told e q a" using one w(1) told_after by blast
  with w(3) have "\<forall>(q', a') \<in> set ((q, a) # qas). told e q' a'" by simp
  with wrote.ask [of k a qas s q] w(2) after_trans one w(1) show ?case by blast
qed simp

text \<open>
  A run for a declaration: every answer is the one that the declaration in the end gives.
\<close>

lemma renders_told:
  assumes "runTemplate funcAnswer tmpl (newFuncTemplateData f dargs imports hash) = (Inr s, e)"
  shows "\<exists>qas. wrote tmpl qas s \<and> (\<forall>(q, a) \<in> set qas. tells (fdDecl e) dargs imports q a)"
proof -
  have "cachesFit (newFuncTemplateData f dargs imports hash)" by (simp add: cachesFit_def newFuncTemplateData_def)
  from runTemplate_told [OF assms this] obtain qas where "wrote tmpl qas s" "\<forall>(q, a) \<in> set qas. told e q a"
    and "fdDirectiveArgs e = dargs" "fdImports e = imports"
    by (auto simp: after_def newFuncTemplateData_def)
  then show ?thesis by (auto simp: told_def)
qed

end
