(* ===== verification/Code_Rules.thy ===== *)
theory Code_Rules
  imports Call_Sites Rule_Rules Template_Trace
begin

text \<open>
  Rules that put code into functions and declarations: raw rules (\<open>apply_raw.go\<close>), directive rules
  (\<open>apply_directive.go\<close>) and declaration rules (\<open>apply_decl.go\<close>) of \<open>tool/internal/instrument\<close>.
  The Go parser and printer, the template engine and regular expressions are parameters, collected
  in \<open>ruleTools\<close>.

  The top declarations of a file come with their code in the same order as in the file. The
  code of a rule is parsed to statements, names of imports are replaced by those of the file, and
  the statements are put in front of a body or beside a statement.

  Shown: which functions a rule changes, where its statements go, and that the rest of the file stays.
\<close>

record ruleTools =
  rtCode :: codeTools
  rtFunc :: "string \<Rightarrow> funcQuery template option"
  rtRegexp :: "string \<Rightarrow> (string \<Rightarrow> bool) option"
  rtSource :: "string \<Rightarrow> topDecl list option"
  rtRestore :: "topDecl list \<Rightarrow> bool"
  rtPkgName :: nameResolver
  rtImportNames :: nameResolver
  rtResolve :: resolver

datatype codeError =
    NoSuchFunc string
  | NoBody string
  | FindFailed string
  | Shadowed "string \<times> string"
  | FuncTemplateSyntax string
  | FuncTemplateFailed templateError
  | CodeSyntax string
  | RestoreFailed
  | BadPattern string
  | NoStatement string
  | BadDirective argError
  | NoSuchDecl string
  | NotAValue string
  | ValueSyntax string
  | DeclArity nat nat
  | NoInitializer
  | WrapFailed compileError
  | RuleImportsFailed importError
  | NothingToSet

section \<open>The statements of a rule\<close>

fun nameUnnamed :: "nat \<Rightarrow> goField list \<Rightarrow> goField list" where
  "nameUnnamed idx [] = []"
| "nameUnnamed idx ((ns, t) # fs) =
     (if ns = [] then ([''_unnamedRetVal'' @ itoa idx], t) # nameUnnamed (Suc idx) fs
      else (ns, t) # nameUnnamed idx fs)"

definition renameReturnValues :: "funcDecl \<Rightarrow> funcDecl" where
  "renameReturnValues f = f\<lparr>fdType := (fdType f)\<lparr>ftResults := map_option (nameUnnamed 0) (ftResults (fdType f))\<rparr>\<rparr>"

text \<open>Rendering names the parameters and results the template asks for: the declaration changes.\<close>

definition renderTemplate ::
    "funcQuery template \<Rightarrow> funcTemplateData \<Rightarrow> (codeError + string) \<times> funcDecl" where
  "renderTemplate tmpl d =
     (case runTemplate funcAnswer tmpl d of
        (Inl e, d') \<Rightarrow> (Inl (FuncTemplateFailed e), fdDecl d')
      | (Inr s, d') \<Rightarrow> (Inr s, fdDecl d'))"

definition renderRawCode ::
    "ruleTools \<Rightarrow> string \<Rightarrow> funcDecl \<Rightarrow> (string \<Rightarrow> string option) option \<Rightarrow> string \<Rightarrow> (codeError + string) \<times> funcDecl" where
  "renderRawCode T raw f imports hash =
     (if \<not> contains raw ''{{'' then (Inr raw, f)
      else case rtFunc T raw of
             None \<Rightarrow> (Inl (FuncTemplateSyntax raw), f)
           | Some tmpl \<Rightarrow> renderTemplate tmpl (newFuncTemplateData f [] imports hash))"

text \<open>The text of a rule as statements of the file\<close>

definition ruleStmts :: "ruleTools \<Rightarrow> (string \<Rightarrow> string option) \<Rightarrow> string \<Rightarrow> codeError + code list" where
  "ruleStmts T overrides snippet =
     (case ctSnippet (rtCode T) snippet of
        None \<Rightarrow> Inl (CodeSyntax snippet)
      | Some stmts \<Rightarrow> Inr (map (stripDynamicIdents \<circ> replaceQualifierAliases overrides) stmts))"

section \<open>Inserting at a pattern\<close>

definition isStmt :: "code \<Rightarrow> bool" where
  "isStmt c = (case c of Node (Stmt i decs k) cs \<Rightarrow> True | _ \<Rightarrow> False)"

definition isBlock :: "codeKind \<Rightarrow> bool" where
  "isBlock k = (case k of Stmt i decs BlockStmt \<Rightarrow> True | _ \<Rightarrow> False)"

text \<open>
  \<open>dstutil.Apply\<close> with the callback of \<open>insertRawAtPattern\<close>: the first statement of a block that
  \<open>hit\<close> accepts is replaced by \<open>put\<close> of it, \<open>None\<close> if there is none.
\<close>

fun insertIn :: "(code \<Rightarrow> bool) \<Rightarrow> (code \<Rightarrow> code list) \<Rightarrow> bool \<Rightarrow> code list \<Rightarrow> code list option"
  and insertUnder :: "(code \<Rightarrow> bool) \<Rightarrow> (code \<Rightarrow> code list) \<Rightarrow> code \<Rightarrow> code option" where
  "insertIn hit put inBlock [] = None"
| "insertIn hit put inBlock (c # cs) =
     (if inBlock \<and> isStmt c \<and> hit c then Some (put c @ cs)
      else case insertUnder hit put c of
             Some c' \<Rightarrow> Some (c' # cs)
           | None \<Rightarrow> map_option (Cons c) (insertIn hit put inBlock cs))"
| "insertUnder hit put (IdentN p n) = None"
| "insertUnder hit put (LitN v) = None"
| "insertUnder hit put (Node k cs) = map_option (Node k) (insertIn hit put (isBlock k) cs)"

definition insertRawAtPattern ::
    "(code \<Rightarrow> string option) \<Rightarrow> (string \<Rightarrow> bool) \<Rightarrow> string \<Rightarrow> code list \<Rightarrow> code list \<Rightarrow> code list option" where
  "insertRawAtPattern renderNode pattern placement body stmts =
     insertIn (\<lambda>c. case renderNode c of None \<Rightarrow> False | Some s \<Rightarrow> pattern s)
       (\<lambda>c. if placement = ''after'' then c # stmts else stmts @ [c]) True body"

section \<open>Raw rules\<close>

text \<open>The declaration and its body afterwards\<close>

definition insertRaw ::
    "ruleTools \<Rightarrow> string \<Rightarrow> InstRawRule \<Rightarrow> funcDecl \<Rightarrow> code list \<Rightarrow> topDecl list \<Rightarrow> (string \<Rightarrow> string option) option \<Rightarrow>
     (string \<Rightarrow> string option) \<Rightarrow> codeError + funcDecl \<times> code list" where
  "insertRaw T identity r f body decls imports overrides =
     (case renderRawCode T (rrRaw r) (renameReturnValues f) imports identity of
        (Inl e, f') \<Rightarrow> Inl e
      | (Inr raw, f') \<Rightarrow>
          (case ruleStmts T overrides raw of
             Inl e \<Rightarrow> Inl e
           | Inr stmts \<Rightarrow>
               if rrPattern r = [] then Inr (f', stmts @ body)
               else if \<not> rtRestore T decls then Inl RestoreFailed
               else case rtRegexp T (rrPattern r) of
                      None \<Rightarrow> Inl (BadPattern (rrPattern r))
                    | Some pattern \<Rightarrow>
                        (case insertRawAtPattern (ctRender (rtCode T)) pattern (rrPlacement r) body stmts of
                           None \<Rightarrow> Inl (NoStatement (rrPattern r))
                         | Some body' \<Rightarrow> Inr (f', body'))))"

text \<open>The first declaration of \<open>f\<close>, changed\<close>

fun updateDecl :: "funcDecl \<Rightarrow> funcDecl \<times> code list \<Rightarrow> topDecl list \<Rightarrow> topDecl list" where
  "updateDecl f fb [] = []"
| "updateDecl f fb (d # ds) =
     (if tdFunc d = Some f then d\<lparr>tdFunc := Some (fst fb), tdBody := Some (snd fb)\<rparr> # ds else d # updateDecl f fb ds)"

text \<open>The declarations of a file after those of its code changed\<close>

fun refreshFuncs :: "decl list \<Rightarrow> funcDecl list \<Rightarrow> decl list" where
  "refreshFuncs (FuncDecl f # ds) (g # gs) = FuncDecl g # refreshFuncs ds gs"
| "refreshFuncs (GenDecl t specs # ds) gs = GenDecl t specs # refreshFuncs ds gs"
| "refreshFuncs ds gs = ds"

definition funcsOf :: "topDecl list \<Rightarrow> funcDecl list" where
  "funcsOf decls = List.map_filter tdFunc decls"

definition refresh :: "dstFile \<Rightarrow> topDecl list \<Rightarrow> dstFile" where
  "refresh root decls = root\<lparr>fileDecls := refreshFuncs (fileDecls root) (funcsOf decls)\<rparr>"

definition bodyOf :: "funcDecl \<Rightarrow> topDecl list \<Rightarrow> code list option" where
  "bodyOf f decls = Option.bind (List.find (\<lambda>d. tdFunc d = Some f) decls) tdBody"

text \<open>The imports of a rule that its code still needs are added at the end.\<close>

definition finishRule ::
    "ruleTools \<Rightarrow> (string \<times> string) list \<Rightarrow> (string \<Rightarrow> string option) \<Rightarrow> dstFile \<Rightarrow> topDecl list \<Rightarrow> compileStep \<Rightarrow>
     codeError + dstFile \<times> topDecl list \<times> compileStep \<times> (string \<times> stringMap) option" where
  "finishRule T imps overrides root decls step =
     (case addRuleImports (rtPkgName T) (rtResolve T) step root
             (usedRuleImports (concat (map declCode decls)) imps overrides) of
        Inl e \<Rightarrow> Inl (RuleImportsFailed e)
      | Inr (root', step', out) \<Rightarrow> Inr (root', decls, step', out))"

text \<open>A function without a body ends the process.\<close>

definition applyRawRule ::
    "ruleTools \<Rightarrow> (string \<Rightarrow> string) \<Rightarrow> InstRawRule \<Rightarrow> dstFile \<Rightarrow> topDecl list \<Rightarrow> compileStep \<Rightarrow>
     codeError + dstFile \<times> topDecl list \<times> compileStep \<times> (string \<times> stringMap) option" where
  "applyRawRule T crc32 r root decls step =
     (case FindFuncDecl root (SelectRaw r) (rtImportNames T) of
        Inl e \<Rightarrow> Inl (FindFailed e)
      | Inr None \<Rightarrow> Inl (NoSuchFunc (rrFunc r))
      | Inr (Some f) \<Rightarrow>
          (case resolveImportOverrides root (rtImportNames T) (ruleImports r) of
             (imports, overrides) \<Rightarrow>
               (case checkAliasOverrideShadowing (ruleImports r) overrides (Some (f, bodyOf f decls)) of
                  Some clash \<Rightarrow> Inl (Shadowed clash)
                | None \<Rightarrow>
                    (case bodyOf f decls of
                       None \<Rightarrow> Inl (NoBody (rrFunc r))
                     | Some body \<Rightarrow>
                         (case insertRaw T (rawIdentity crc32 r) r f body decls imports overrides of
                            Inl e \<Rightarrow> Inl e
                          | Inr (f', body') \<Rightarrow>
                              let decls' = updateDecl f (f', body') decls
                              in finishRule T (ruleImports r) overrides (refresh root decls') decls' step)))))"

section \<open>Directive rules\<close>

definition injectInto ::
    "ruleTools \<Rightarrow> string \<Rightarrow> InstDirectiveRule \<Rightarrow> funcQuery template \<Rightarrow> (string \<Rightarrow> string option) option \<Rightarrow>
     (string \<Rightarrow> string option) \<Rightarrow> funcDecl \<Rightarrow> DirectiveArg list \<Rightarrow> code list option \<Rightarrow> codeError + funcDecl \<times> code list" where
  "injectInto T identity r tmpl imports overrides f args bodyOpt =
     (case bodyOpt of
        None \<Rightarrow> Inl (NoBody (fdName f))
      | Some body \<Rightarrow>
          (case checkAliasOverrideShadowing (ruleImports r) overrides (Some (f, Some body)) of
             Some clash \<Rightarrow> Inl (Shadowed clash)
           | None \<Rightarrow>
               (case renderTemplate tmpl (newFuncTemplateData f args imports identity) of
                  (Inl e, f') \<Rightarrow> Inl e
                | (Inr snippet, f') \<Rightarrow> map_sum id (\<lambda>stmts. (f', stmts @ body)) (ruleStmts T overrides snippet))))"

text \<open>The directive of a function: the first of its leading comments that fits\<close>

definition directiveOf :: "string \<Rightarrow> topDecl \<Rightarrow> (funcDecl \<times> string) option" where
  "directiveOf directive d =
     Option.bind (tdFunc d) (\<lambda>f. map_option (Pair f) (List.find (\<lambda>dec. matchDirective dec directive \<noteq> None) (fdStart f)))"

fun injectAll ::
    "(funcDecl \<Rightarrow> DirectiveArg list \<Rightarrow> code list option \<Rightarrow> codeError + funcDecl \<times> code list) \<Rightarrow> string \<Rightarrow> topDecl list \<Rightarrow>
     codeError + topDecl list" where
  "injectAll inject directive [] = Inr []"
| "injectAll inject directive (d # ds) =
     (case directiveOf directive d of
        None \<Rightarrow> map_sum id (Cons d) (injectAll inject directive ds)
      | Some (f, dec) \<Rightarrow>
          (case parseDirectiveArgs dec directive of
             Inl e \<Rightarrow> Inl (BadDirective e)
           | Inr args \<Rightarrow>
               (case inject f args (tdBody d) of
                  Inl e \<Rightarrow> Inl e
                | Inr (f', body') \<Rightarrow>
                    map_sum id (Cons (d\<lparr>tdFunc := Some f', tdBody := Some body'\<rparr>)) (injectAll inject directive ds))))"

definition applyDirectiveRule ::
    "ruleTools \<Rightarrow> (string \<Rightarrow> string) \<Rightarrow> InstDirectiveRule \<Rightarrow> dstFile \<Rightarrow> topDecl list \<Rightarrow> compileStep \<Rightarrow>
     codeError + bool \<times> dstFile \<times> topDecl list \<times> compileStep \<times> (string \<times> stringMap) option" where
  "applyDirectiveRule T crc32 r root decls step =
     (case findFuncsByDirective (funcsOf decls) (dirDirective r) of
        Inl e \<Rightarrow> Inl (BadDirective e)
      | Inr matches \<Rightarrow>
          if matches = [] then Inr (False, root, decls, step, None)
          else case rtFunc T (dirTemplate r) of
                 None \<Rightarrow> Inl (FuncTemplateSyntax (dirTemplate r))
               | Some tmpl \<Rightarrow>
                   (case resolveImportOverrides root (rtImportNames T) (ruleImports r) of
                      (imports, overrides) \<Rightarrow>
                        (case injectAll (injectInto T (directiveIdentity crc32 r) r tmpl imports overrides) (dirDirective r) decls of
                           Inl e \<Rightarrow> Inl e
                         | Inr decls' \<Rightarrow>
                             map_sum id (Pair True) (finishRule T (ruleImports r) overrides (refresh root decls') decls' step))))"

section \<open>Declaration rules\<close>

definition parseValueExpr :: "ruleTools \<Rightarrow> string \<Rightarrow> codeError + code" where
  "parseValueExpr T exprSource =
     (case rtSource T (''package main'' @ [CHR 0x0A] @ ''var _ = '' @ exprSource) of
        Some (d # _) \<Rightarrow>
          (case tdHead d of
             Node (ValueSpecs n) cs # _ \<Rightarrow>
               (case drop (Suc n) cs of [x] \<Rightarrow> Inr x | _ \<Rightarrow> Inl (ValueSyntax exprSource))
           | _ \<Rightarrow> Inl (ValueSyntax exprSource))
      | _ \<Rightarrow> Inl (ValueSyntax exprSource))"

text \<open>Both get the number of names, the names with the type, the values, and the index of the name.\<close>

definition replaceDeclValue ::
    "ruleTools \<Rightarrow> string \<Rightarrow> (string \<Rightarrow> string option) \<Rightarrow> nat \<Rightarrow> code list \<Rightarrow> nat \<Rightarrow> codeError + code list" where
  "replaceDeclValue T replace overrides n values nameIdx =
     (case parseValueExpr T replace of
        Inl e \<Rightarrow> Inl e
      | Inr x \<Rightarrow>
          let expr = cloneCode (replaceQualifierAliases overrides x)
          in if length values = n then Inr (values[nameIdx := expr])
             else if n = 1 \<and> values = [] then Inr [expr]
             else Inl (DeclArity n (length values)))"

definition wrapDeclValue ::
    "ruleTools \<Rightarrow> string \<Rightarrow> (string \<Rightarrow> string option) \<Rightarrow> nat \<Rightarrow> code list \<Rightarrow> nat \<Rightarrow> codeError + code list" where
  "wrapDeclValue T templateStr overrides n values nameIdx =
     (if values = [] then Inl NoInitializer
      else if length values \<noteq> n then Inl (DeclArity n (length values))
      else case ctTemplate (rtCode T) templateStr of
             None \<Rightarrow> Inl (WrapFailed (TemplateSyntax templateStr))
           | Some tmpl \<Rightarrow>
               (case fst (compileExpression (rtCode T) tmpl (values ! nameIdx) None None overrides) of
                  Inl e \<Rightarrow> Inl (WrapFailed e)
                | Inr wrapped \<Rightarrow> Inr (values[nameIdx := cloneCode wrapped])))"

definition changeSpec ::
    "(nat \<Rightarrow> code list \<Rightarrow> nat \<Rightarrow> codeError + code list) \<Rightarrow> string \<Rightarrow> code \<Rightarrow> codeError + code" where
  "changeSpec change name c =
     (case c of
        Node (ValueSpecs n) cs \<Rightarrow>
          (case indexWhere (\<lambda>x. case x of IdentN p m \<Rightarrow> m = name | _ \<Rightarrow> False) (take n cs) of
             None \<Rightarrow> Inl (NoSuchDecl name)
           | Some nameIdx \<Rightarrow>
               map_sum id (\<lambda>values. Node (ValueSpecs n) (take (Suc n) cs @ values)) (change n (drop (Suc n) cs) nameIdx))
      | _ \<Rightarrow> Inl (NoSuchDecl name))"

text \<open>The specification \<open>findValueDecl\<close> finds, changed in the code of its declaration\<close>

fun changeValue :: "(code \<Rightarrow> codeError + code) \<Rightarrow> declToken \<Rightarrow> string \<Rightarrow> decl list \<Rightarrow> topDecl list \<Rightarrow> codeError + topDecl list" where
  "changeValue change tok name (GenDecl t specs # gs) (d # ds) =
     (case (if t = tok then indexWhere (specNamed name) specs else None) of
        None \<Rightarrow> map_sum id (Cons d) (changeValue change tok name gs ds)
      | Some i \<Rightarrow> map_sum id (\<lambda>c. d\<lparr>tdHead := (tdHead d)[i := c]\<rparr> # ds) (change (tdHead d ! i)))"
| "changeValue change tok name (FuncDecl f # gs) (d # ds) = map_sum id (Cons d) (changeValue change tok name gs ds)"
| "changeValue change tok name gs ds = Inl (NoSuchDecl name)"

definition applyDeclRule ::
    "ruleTools \<Rightarrow> InstDeclRule \<Rightarrow> dstFile \<Rightarrow> topDecl list \<Rightarrow> compileStep \<Rightarrow>
     codeError + dstFile \<times> topDecl list \<times> compileStep \<times> (string \<times> stringMap) option" where
  "applyDeclRule T r root decls step =
     (if drReplace r = [] \<and> drWrap r = [] then Inl NothingToSet
      else case findNamedDecl root (drIdentifier r) (drKind r) of
        None \<Rightarrow> Inl (NoSuchDecl (drIdentifier r))
      | Some (FoundValue spec) \<Rightarrow>
          (case resolveImportOverrides root (rtImportNames T) (ruleImports r) of
             (imports, overrides) \<Rightarrow>
               let tok = (if drKind r = ''const'' \<or> drKind r \<noteq> ''var'' \<and> findVarDecl root (drIdentifier r) = None
                          then ConstTok else VarTok);
                   change = (if drWrap r \<noteq> [] then wrapDeclValue T (drWrap r) overrides
                             else replaceDeclValue T (drReplace r) overrides)
               in case changeValue (changeSpec change (drIdentifier r)) tok (drIdentifier r) (fileDecls root) decls of
                    Inl e \<Rightarrow> Inl e
                  | Inr decls' \<Rightarrow> finishRule T (ruleImports r) overrides root decls' step)
      | Some _ \<Rightarrow> Inl (NotAValue (drIdentifier r)))"

section \<open>Where statements go\<close>

text \<open>The statements that stand in a block, in the order of the walk\<close>

fun blockStmts :: "bool \<Rightarrow> code list \<Rightarrow> code list"
  and stmtsUnder :: "code \<Rightarrow> code list" where
  "blockStmts inBlock [] = []"
| "blockStmts inBlock (c # cs) = (if inBlock \<and> isStmt c then [c] else []) @ stmtsUnder c @ blockStmts inBlock cs"
| "stmtsUnder (IdentN p n) = []"
| "stmtsUnder (LitN v) = []"
| "stmtsUnder (Node k cs) = blockStmts (isBlock k) cs"

text \<open>Code with a gap between the statements of a block\<close>

inductive stmtGap :: "bool \<Rightarrow> (code list \<Rightarrow> code list) \<Rightarrow> bool" where
  here: "stmtGap True (\<lambda>x. as @ x @ bs)"
| under: "stmtGap (isBlock k) F \<Longrightarrow> stmtGap b (\<lambda>x. as @ Node k (F x) # bs)"

lemma insert_None:
  "insertIn hit put b cs = None \<longleftrightarrow> (\<forall>c \<in> set (blockStmts b cs). \<not> hit c)"
  "insertUnder hit put c = None \<longleftrightarrow> (\<forall>s \<in> set (stmtsUnder c). \<not> hit s)"
  by (induction hit put b cs and hit put c rule: insertIn_insertUnder.induct) (auto split: option.splits)

text \<open>The gap is at the first statement that fits.\<close>

definition firstHit :: "(code \<Rightarrow> bool) \<Rightarrow> code list \<Rightarrow> code \<Rightarrow> bool" where
  "firstHit hit ss s \<longleftrightarrow> hit s \<and> (\<exists>pre post. ss = pre @ s # post \<and> (\<forall>x \<in> set pre. \<not> hit x))"

lemma firstHit_skip: "firstHit hit ss s \<Longrightarrow> \<forall>x \<in> set pre. \<not> hit x \<Longrightarrow> firstHit hit (pre @ ss @ post) s"
  unfolding firstHit_def by (elim conjE exE, intro conjI, assumption) (metis Un_iff append.assoc append_Cons set_append)

lemma insert_Some:
  "insertIn hit put b cs = Some cs' \<Longrightarrow>
     \<exists>F s. stmtGap b F \<and> cs = F [s] \<and> cs' = F (put s) \<and> firstHit hit (blockStmts b cs) s"
  "insertUnder hit put c = Some c' \<Longrightarrow>
     \<exists>k F s. stmtGap (isBlock k) F \<and> c = Node k (F [s]) \<and> c' = Node k (F (put s)) \<and> firstHit hit (stmtsUnder c) s"
proof (induction hit put b cs and hit put c arbitrary: cs' and c' rule: insertIn_insertUnder.induct)
  case (2 hit put b c cs)
  show ?case
  proof (cases "b \<and> isStmt c \<and> hit c")
    case True
    have "stmtGap True (\<lambda>x. [] @ x @ cs)" by (rule stmtGap.here)
    moreover have "firstHit hit (blockStmts b (c # cs)) c" using True unfolding firstHit_def by (intro conjI exI [of _ "[]"] exI [of _ "stmtsUnder c @ blockStmts b cs"]) auto
    ultimately show ?thesis using 2(3) True by (intro exI [of _ "\<lambda>x. x @ cs"] exI [of _ c]) auto
  next
    case False
    let ?here = "if b \<and> isStmt c then [c] else []"
    have here: "\<forall>x \<in> set ?here. \<not> hit x" using False by auto
    show ?thesis
    proof (cases "insertUnder hit put c")
      case (Some c1)
      then obtain k F s where F: "stmtGap (isBlock k) F" "c = Node k (F [s])" "c1 = Node k (F (put s))" "firstHit hit (stmtsUnder c) s"
        using 2(1) [OF False] by blast
      have "stmtGap b (\<lambda>x. [] @ Node k (F x) # cs)" by (rule stmtGap.under [OF F(1)])
      moreover have "firstHit hit (blockStmts b (c # cs)) s" using firstHit_skip [OF F(4) here] by simp
      ultimately show ?thesis
        using 2(3) False Some F(2,3) by (intro exI [of _ "\<lambda>x. Node k (F x) # cs"] exI [of _ s]) auto
    next
      case None
      then obtain cs1 where cs1: "insertIn hit put b cs = Some cs1" "cs' = c # cs1" using 2(3) False by auto
      then obtain F s where F: "stmtGap b F" "cs = F [s]" "cs1 = F (put s)" "firstHit hit (blockStmts b cs) s"
        using 2(2) [OF False None] by blast
      have "stmtGap b (\<lambda>x. c # F x)"
        using F(1)
      proof cases
        case (here as bs)
        then show ?thesis using stmtGap.here [of "c # as" bs] by simp
      next
        case (under k G as bs)
        then show ?thesis using stmtGap.under [of k G b "c # as" bs] by simp
      qed
      moreover have "firstHit hit ((?here @ stmtsUnder c) @ blockStmts b cs @ []) s"
      proof (rule firstHit_skip [OF F(4)])
        have "\<forall>x \<in> set (stmtsUnder c). \<not> hit x" using None unfolding insert_None .
        then show "\<forall>x \<in> set (?here @ stmtsUnder c). \<not> hit x" using here by auto
      qed
      ultimately show ?thesis using F(2,3) cs1(2) by (intro exI [of _ "\<lambda>x. c # F x"] exI [of _ s]) simp
    qed
  qed
next
  case (5 hit put k cs)
  then obtain cs1 where cs1: "insertIn hit put (isBlock k) cs = Some cs1" "c' = Node k cs1" by auto
  with 5(1) show ?case by fastforce
qed simp_all

section \<open>What a rule does to the declaration\<close>

lemma renameReturnValues_named: "onlyNamed f (renameReturnValues f)"
proof -
  have "list_all2 fieldNamed fs (nameUnnamed idx fs)" for idx fs
    by (induction idx fs rule: nameUnnamed.induct) (auto simp: fieldNamed_def list_all2_refl)
  then show ?thesis
    by (cases "ftResults (fdType f)") (auto simp: renameReturnValues_def onlyNamed_def fieldsOf_def)
qed

lemma renderTemplate_named: "onlyNamed (fdDecl d) (snd (renderTemplate tmpl d))"
proof -
  have "onlyNamed (fdDecl d) (fdDecl (snd (runTemplate funcAnswer tmpl d)))"
    by (rule runTemplate_invariant [where P = "\<lambda>e. onlyNamed (fdDecl d) (fdDecl e)"])
      (auto intro: onlyNamed_trans funcAnswer_named)
  then show ?thesis by (auto simp: renderTemplate_def split: prod.split sum.split)
qed

lemma renderRawCode_named: "onlyNamed f (snd (renderRawCode T raw f imports hash))"
  using renderTemplate_named [of "newFuncTemplateData f [] imports hash"]
  by (auto simp: renderRawCode_def newFuncTemplateData_def split: option.split)

lemma updateDecl_changes:
  assumes "bodyOf f decls = Some body"
  shows "\<exists>pre d post. decls = pre @ d # post \<and> tdFunc d = Some f \<and> tdBody d = Some body \<and>
    updateDecl f fb decls = pre @ d\<lparr>tdFunc := Some (fst fb), tdBody := Some (snd fb)\<rparr> # post"
  using assms
proof (induction decls)
  case (Cons d ds)
  show ?case
  proof (cases "tdFunc d = Some f")
    case True
    then show ?thesis using Cons.prems by (intro exI [of _ "[]"]) (simp add: bodyOf_def)
  next
    case False
    then obtain pre e post where "ds = pre @ e # post" "tdFunc e = Some f" "tdBody e = Some body"
      "updateDecl f fb ds = pre @ e\<lparr>tdFunc := Some (fst fb), tdBody := Some (snd fb)\<rparr> # post"
      using Cons by (auto simp: bodyOf_def)
    then show ?thesis using False by (intro exI [of _ "d # pre"]) simp
  qed
qed (simp add: bodyOf_def)

text \<open>What a raw rule makes of a body\<close>

definition placed ::
    "(code \<Rightarrow> string option) \<Rightarrow> (string \<Rightarrow> (string \<Rightarrow> bool) option) \<Rightarrow> InstRawRule \<Rightarrow> code list \<Rightarrow> code list \<Rightarrow> code list \<Rightarrow> bool" where
  "placed renderNode regexp r stmts body body' \<longleftrightarrow>
     (if rrPattern r = [] then body' = stmts @ body
      else \<exists>pattern F s. regexp (rrPattern r) = Some pattern \<and> stmtGap True F \<and> body = F [s] \<and>
        body' = F (if rrPlacement r = ''after'' then s # stmts else stmts @ [s]) \<and>
        firstHit (\<lambda>c. \<exists>t. renderNode c = Some t \<and> pattern t) (blockStmts True body) s)"

lemma insertRaw_placed:
  assumes "insertRaw T identity r f body decls ims overrides = Inr (f', body')"
  shows "\<exists>raw stmts. renderRawCode T (rrRaw r) (renameReturnValues f) ims identity = (Inr raw, f') \<and>
    ruleStmts T overrides raw = Inr stmts \<and> placed (ctRender (rtCode T)) (rtRegexp T) r stmts body body'"
proof -
  obtain raw where raw: "renderRawCode T (rrRaw r) (renameReturnValues f) ims identity = (Inr raw, f')"
    using assms by (auto simp: insertRaw_def split: prod.splits sum.splits if_splits option.splits)
  obtain stmts where stmts: "ruleStmts T overrides raw = Inr stmts"
    using assms raw by (auto simp: insertRaw_def split: sum.splits)
  have "placed (ctRender (rtCode T)) (rtRegexp T) r stmts body body'"
  proof (cases "rrPattern r = []")
    case True
    then show ?thesis using assms raw stmts by (simp add: insertRaw_def placed_def)
  next
    case False
    let ?hit = "\<lambda>pattern c. case ctRender (rtCode T) c of None \<Rightarrow> False | Some s \<Rightarrow> pattern s"
    obtain pattern where p: "rtRegexp T (rrPattern r) = Some pattern"
      and "insertRawAtPattern (ctRender (rtCode T)) pattern (rrPlacement r) body stmts = Some body'"
      using assms raw stmts False by (auto simp: insertRaw_def split: if_splits option.splits)
    from insert_Some(1) [OF this(2) [unfolded insertRawAtPattern_def]]
    obtain F s where F: "stmtGap True F" "body = F [s]"
        "body' = F (if rrPlacement r = ''after'' then s # stmts else stmts @ [s])"
        "firstHit (?hit pattern) (blockStmts True body) s" by blast
    have "?hit pattern = (\<lambda>c. \<exists>t. ctRender (rtCode T) c = Some t \<and> pattern t)"
      by (auto simp: fun_eq_iff split: option.split)
    then show ?thesis unfolding placed_def using False p F by auto
  qed
  then show ?thesis using raw stmts by blast
qed

lemma finishRule_decls: "finishRule T imps overrides root decls step = Inr (root', decls', r) \<Longrightarrow> decls' = decls"
  by (cases r) (auto simp: finishRule_def split: sum.splits)

text \<open>The results of a function when the unnamed ones are numbered\<close>

definition numberedResults :: "goField list \<Rightarrow> goField list" where
  "numberedResults fs = map (\<lambda>i.
     if fst (fs ! i) = [] then ([''_unnamedRetVal'' @ itoa (length (filter (\<lambda>g. fst g = []) (take i fs)))], snd (fs ! i))
     else fs ! i) [0..<length fs]"

definition withNumberedResults :: "funcDecl \<Rightarrow> funcDecl" where
  "withNumberedResults f = f\<lparr>fdType := (fdType f)\<lparr>ftResults := map_option numberedResults (ftResults (fdType f))\<rparr>\<rparr>"

lemma nameUnnamed_nth:
  "length (nameUnnamed k fs) = length fs \<and> (i < length fs \<longrightarrow> nameUnnamed k fs ! i =
     (if fst (fs ! i) = [] then ([''_unnamedRetVal'' @ itoa (k + length (filter (\<lambda>g. fst g = []) (take i fs)))], snd (fs ! i))
      else fs ! i))"
proof (induction k fs arbitrary: i rule: nameUnnamed.induct)
  case (2 k ns t fs)
  then show ?case by (cases i) auto
qed simp

lemma nameUnnamed_numbered: "nameUnnamed 0 fs = numberedResults fs"
  by (rule nth_equalityI) (use nameUnnamed_nth [of 0 fs] in \<open>simp_all add: numberedResults_def\<close>)

lemma renameReturnValues_numbered: "renameReturnValues f = withNumberedResults f"
  by (simp add: renameReturnValues_def withNumberedResults_def nameUnnamed_numbered cong: map_option_cong)

text \<open>
  The text of a raw rule for a function \<open>g\<close>, and the function afterwards. Without an action the text is
  the rule's own. Otherwise it is what the template writes, where every question is answered with the
  name, or the number of names, that the function has in the end.
\<close>

definition rawText ::
    "ruleTools \<Rightarrow> (string \<Rightarrow> string option) option \<Rightarrow> string \<Rightarrow> funcDecl \<Rightarrow> funcDecl \<Rightarrow> string \<Rightarrow> bool" where
  "rawText T ims raw g f' s \<longleftrightarrow>
     (if \<exists>a b. raw = a @ ''{{'' @ b
      then \<exists>tmpl qas. rtFunc T raw = Some tmpl \<and> wrote tmpl qas s \<and> onlyNamed g f' \<and>
        (\<forall>(q, a) \<in> set qas. tells f' [] ims q a)
      else s = raw \<and> f' = g)"

lemma renderRawCode_text:
  assumes "renderRawCode T raw g ims hash = (Inr s, f')"
  shows "rawText T ims raw g f' s"
proof (cases "\<exists>a b. raw = a @ ''{{'' @ b")
  case True
  then have "contains raw ''{{''" by (simp add: sublist_def)
  then obtain tmpl e where t: "rtFunc T raw = Some tmpl"
    and run: "runTemplate funcAnswer tmpl (newFuncTemplateData g [] ims hash) = (Inr s, e)" "f' = fdDecl e"
    using assms by (auto simp: renderRawCode_def renderTemplate_def split: option.splits prod.splits sum.splits)
  from renders_told [OF run(1)] obtain qas where "wrote tmpl qas s" "\<forall>(q, a) \<in> set qas. tells (fdDecl e) [] ims q a" by blast
  moreover have "onlyNamed g f'" using renderRawCode_named [of g T raw ims hash] assms by simp
  ultimately show ?thesis using True t run(2) unfolding rawText_def by auto
next
  case False
  then have "\<not> contains raw ''{{''" by (simp add: sublist_def)
  then show ?thesis using assms False unfolding rawText_def renderRawCode_def by simp
qed

text \<open>
  C13: a raw rule changes one function of the file, the one it names. Its unnamed results are
  numbered. The text of the rule is rendered for it: a template gets the names of its parameters,
  results and receiver, and those it asks about have all been given names. The text is parsed; the
  aliases of imports are replaced in the parsed statements and the marks taken off the names, and
  these statements are put in front of the body - or, with a pattern, right beside the first statement
  of a block whose text the pattern matches. No name in the declaration is replaced but blank ones,
  and the other declarations stay as they are; the imports of the rule that the code of the file now
  uses are added to it.
\<close>

theorem raw_rule_effect:
  assumes "applyRawRule T crc32 r root decls step = Inr (root', decls', step', out)"
  shows "\<exists>f f' pre d post body body' ims overrides s code.
    FindFuncDecl root (SelectRaw r) (rtImportNames T) = Inr (Some f) \<and>
    decls = pre @ d # post \<and> tdFunc d = Some f \<and> tdBody d = Some body \<and>
    decls' = pre @ d\<lparr>tdFunc := Some f', tdBody := Some body'\<rparr> # post \<and> onlyNamed f f' \<and>
    resolveImportOverrides root (rtImportNames T) (ruleImports r) = (ims, overrides) \<and>
    rawText T ims (rrRaw r) (withNumberedResults f) f' s \<and> ctSnippet (rtCode T) s = Some code \<and>
    placed (ctRender (rtCode T)) (rtRegexp T) r
      (map (\<lambda>c. stripDynamicIdents (replaceQualifierAliases overrides c)) code) body body' \<and>
    addRuleImports (rtPkgName T) (rtResolve T) step (refresh root decls')
      (usedRuleImports (concat (map declCode decls')) (ruleImports r) overrides) = Inr (root', step', out)"
proof -
  obtain f where f: "FindFuncDecl root (SelectRaw r) (rtImportNames T) = Inr (Some f)"
    using assms by (auto simp: applyRawRule_def split: sum.splits option.splits)
  obtain ims overrides where o: "resolveImportOverrides root (rtImportNames T) (ruleImports r) = (ims, overrides)"
    by fastforce
  obtain body f' body' where body: "bodyOf f decls = Some body"
    and ins: "insertRaw T (rawIdentity crc32 r) r f body decls ims overrides = Inr (f', body')"
    and fin: "finishRule T (ruleImports r) overrides (refresh root (updateDecl f (f', body') decls)) (updateDecl f (f', body') decls) step =
      Inr (root', decls', step', out)"
    using assms f o by (auto simp: applyRawRule_def Let_def split: option.splits sum.splits prod.splits)
  obtain raw stmts where raw: "renderRawCode T (rrRaw r) (renameReturnValues f) ims (rawIdentity crc32 r) = (Inr raw, f')"
    and stmts: "ruleStmts T overrides raw = Inr stmts"
    and placed: "placed (ctRender (rtCode T)) (rtRegexp T) r stmts body body'"
    using insertRaw_placed [OF ins] by blast
  have t: "rawText T ims (rrRaw r) (withNumberedResults f) f' raw"
    using renderRawCode_text [OF raw] by (simp add: renameReturnValues_numbered)
  obtain code where code: "ctSnippet (rtCode T) raw = Some code"
    and "stmts = map (\<lambda>c. stripDynamicIdents (replaceQualifierAliases overrides c)) code"
    using stmts by (auto simp: ruleStmts_def split: option.splits)
  note placed' = placed [unfolded this(2)]
  have named: "onlyNamed f f'"
    using onlyNamed_trans [OF renameReturnValues_named renderRawCode_named, of f T "rrRaw r" ims "rawIdentity crc32 r"] raw by simp
  have decls': "decls' = updateDecl f (f', body') decls" using fin by (auto simp: finishRule_def split: sum.splits)
  have added: "addRuleImports (rtPkgName T) (rtResolve T) step (refresh root decls')
      (usedRuleImports (concat (map declCode decls')) (ruleImports r) overrides) = Inr (root', step', out)"
    using fin unfolding decls' by (auto simp: finishRule_def split: sum.splits)
  obtain pre d post where "decls = pre @ d # post" "tdFunc d = Some f" "tdBody d = Some body"
    "decls' = pre @ d\<lparr>tdFunc := Some f', tdBody := Some body'\<rparr> # post"
    using updateDecl_changes [OF body, of "(f', body')"] decls' by auto
  with f named o t code placed' added show ?thesis by blast
qed

text \<open>
  C14: a directive rule changes exactly the functions that carry its directive as a leading comment:
  each gets the statements of its rendered template in front of its body, rendered with the
  arguments of its own comment. Without such a function nothing changes, no import is added, and the
  rule reports so.
\<close>

theorem directive_rule_effect:
  assumes "applyDirectiveRule T crc32 r root decls step = Inr (changed, root', decls', step', out)"
  shows "(changed \<longleftrightarrow> (\<exists>d \<in> set decls. directiveOf (dirDirective r) d \<noteq> None)) \<and>
    (\<not> changed \<longrightarrow> root' = root \<and> decls' = decls \<and> step' = step \<and> out = None) \<and>
    list_all2 (\<lambda>d d'. case directiveOf (dirDirective r) d of
        None \<Rightarrow> d' = d
      | Some (f, dec) \<Rightarrow> \<exists>args snippet stmts body f'.
          parseDirectiveArgs dec (dirDirective r) = Inr args \<and> tdBody d = Some body \<and>
          renderTemplate (the (rtFunc T (dirTemplate r)))
            (newFuncTemplateData f args (fst (resolveImportOverrides root (rtImportNames T) (ruleImports r))) (directiveIdentity crc32 r)) =
            (Inr snippet, f') \<and>
          ruleStmts T (snd (resolveImportOverrides root (rtImportNames T) (ruleImports r))) snippet = Inr stmts \<and>
          onlyNamed f f' \<and> d' = d\<lparr>tdFunc := Some f', tdBody := Some (stmts @ body)\<rparr>) decls decls'"
    (is "?when \<and> ?none \<and> list_all2 ?changed decls decls'")
proof -
  have matches: "findFuncsByDirective (funcsOf ds) directive = Inr ms \<Longrightarrow> ms = [] \<longleftrightarrow> (\<forall>d \<in> set ds. directiveOf directive d = None)"
    for ds directive ms
    by (induction ds arbitrary: ms) (auto simp: funcsOf_def directiveOf_def map_filter_simps split: option.splits sum.splits)
  obtain ms where ms: "findFuncsByDirective (funcsOf decls) (dirDirective r) = Inr ms"
    using assms by (auto simp: applyDirectiveRule_def split: sum.splits)
  show ?thesis
  proof (cases "ms = []")
    case True
    have "list_all2 ?changed decls decls"
    proof (rule list_all2_all_nthI)
      fix n assume "n < length decls"
      then have "directiveOf (dirDirective r) (decls ! n) = None" using matches [OF ms] True by simp
      then show "?changed (decls ! n) (decls ! n)" by simp
    qed simp
    then show ?thesis using assms ms True matches [OF ms] by (simp add: applyDirectiveRule_def)
  next
    case False
    obtain tmpl where tmpl: "rtFunc T (dirTemplate r) = Some tmpl"
      using assms ms False by (auto simp: applyDirectiveRule_def split: option.splits)
    obtain ims overrides where o: "resolveImportOverrides root (rtImportNames T) (ruleImports r) = (ims, overrides)" by fastforce
    let ?inject = "injectInto T (directiveIdentity crc32 r) r tmpl ims overrides"
    obtain ds where ds: "injectAll ?inject (dirDirective r) decls = Inr ds"
      and run: "map_sum id (Pair True) (finishRule T (ruleImports r) overrides (refresh root ds) ds step) =
        Inr (changed, root', decls', step', out)"
      using assms ms False tmpl o by (auto simp: applyDirectiveRule_def split: sum.splits)
    have fin: "changed" "decls' = ds"
      using run finishRule_decls by (auto simp: map_sum_Inr)
    have one: "onlyNamed f f' \<and> (\<exists>snippet stmts body. bodyOpt = Some body \<and> body' = stmts @ body \<and>
        renderTemplate tmpl (newFuncTemplateData f args ims (directiveIdentity crc32 r)) = (Inr snippet, f') \<and>
        ruleStmts T overrides snippet = Inr stmts)"
      if "?inject f args bodyOpt = Inr (f', body')" for f args bodyOpt f' body'
      using that renderTemplate_named [of "newFuncTemplateData f args ims (directiveIdentity crc32 r)" tmpl]
      by (auto simp: injectInto_def newFuncTemplateData_def split: option.splits prod.splits sum.splits)
    have "injectAll ?inject (dirDirective r) xs = Inr ys \<Longrightarrow> list_all2 ?changed xs ys" for xs ys
    proof (induction xs arbitrary: ys)
      case (Cons d xs)
      show ?case
      proof (cases "directiveOf (dirDirective r) d")
        case None
        then show ?thesis using Cons by auto
      next
        case (Some fd)
        obtain f dec where fd: "fd = (f, dec)" by fastforce
        obtain args f' body' zs where parsed: "parseDirectiveArgs dec (dirDirective r) = Inr args"
          and inj: "?inject f args (tdBody d) = Inr (f', body')"
          and zs: "injectAll ?inject (dirDirective r) xs = Inr zs" "ys = d\<lparr>tdFunc := Some f', tdBody := Some body'\<rparr> # zs"
          using Cons.prems Some fd by (auto split: sum.splits)
        have "?changed d (d\<lparr>tdFunc := Some f', tdBody := Some body'\<rparr>)"
          using one [OF inj] parsed Some fd tmpl o by fastforce
        then show ?thesis using Cons.IH [OF zs(1)] zs(2) by simp
      qed
    qed simp
    from this [OF ds] show ?thesis using False fin matches [OF ms] by auto
  qed
qed
section \<open>An example\<close>

definition probeTarget :: funcDecl where
  "probeTarget = \<lparr>fdName = ''fetch'', fdRecv = None,
     fdType = \<lparr>ftParams = Some [([], Ident [] ''string'')], ftResults = Some [([], Ident [] ''error'')]\<rparr>,
     fdStart = [''//otelc:span kind:client'']\<rparr>"

definition callStmt :: "string \<Rightarrow> code" where
  "callStmt f = Node (Stmt None [] (PlainStmt ''ExprStmt'')) [Node (Call None False) [IdentN [] f]]"

text \<open>\<open>fetch\<close> runs \<open>open\<close>, then in a block \<open>get\<close> and \<open>get\<close> again.\<close>

definition probeBody :: "code list" where
  "probeBody = [callStmt ''open'', Node (Stmt None [] BlockStmt) [callStmt ''get'', callStmt ''get'']]"

definition probeDecls :: "topDecl list" where
  "probeDecls = [\<lparr>tdFunc = Some probeTarget, tdHead = [], tdBody = Some probeBody\<rparr>]"

definition probeRoot :: dstFile where
  "probeRoot = \<lparr>fileName = ''app'', fileDecls = [FuncDecl probeTarget], fileImports = [], fileStart = [],
     fileTree = DNode OtherNode [] [] []\<rparr>"

definition probeTools :: ruleTools where
  "probeTools = \<lparr>
     rtCode = \<lparr>ctTemplate = (\<lambda>_. None), ctSnippet = (\<lambda>s. if s = ''probe()'' then Some [callStmt ''probe''] else None),
       ctRender = (\<lambda>c. if c = callStmt ''get'' then Some ''get()'' else Some ''open()'')\<rparr>,
     rtFunc = (\<lambda>s. Some (Ask (FuncArgument 0) (\<lambda>a. Emit ''probe()'' Done))), rtRegexp = (\<lambda>p. Some (\<lambda>s. s = p)), rtSource = (\<lambda>_. None),
     rtRestore = (\<lambda>_. True), rtPkgName = (\<lambda>_. None), rtImportNames = (\<lambda>_. None), rtResolve = (\<lambda>_ _. None)\<rparr>"

definition probeRule :: InstRawRule where
  "probeRule = \<lparr>ruleName = ''r'', ruleTarget = newTarget [''app''], ruleVersion = [], ruleImports = [], ruleWhere = None,
     rrFunc = ''fetch'', rrRecv = [], rrRaw = ''probe()'', rrPattern = ''get()'', rrPlacement = ''after''\<rparr>"

definition probeStep :: compileStep where
  "probeStep = \<lparr>csPackage = ''app'', csConfigPath = [], csConfig = emptyConfig, csEnv = None\<rparr>"

definition probedBody :: "code list" where
  "probedBody = [callStmt ''open'', Node (Stmt None [] BlockStmt) [callStmt ''get'', callStmt ''probe'', callStmt ''get'']]"

definition decidedBodies :: "codeError + dstFile \<times> topDecl list \<times> compileStep \<times> (string \<times> stringMap) option \<Rightarrow> code list option list" where
  "decidedBodies r = (case r of Inl e \<Rightarrow> [] | Inr (root, decls, step, out) \<Rightarrow> map tdBody decls)"

theorem raw_rule_effect_witness:
  "placed (ctRender (rtCode probeTools)) (rtRegexp probeTools) probeRule [callStmt ''probe''] probeBody probedBody"
proof -
  have "decidedBodies (applyRawRule probeTools id probeRule probeRoot probeDecls probeStep) = [Some probedBody]"
    by code_simp
  then obtain root decls step out where run: "applyRawRule probeTools id probeRule probeRoot probeDecls probeStep = Inr (root, decls, step, out)"
    and bodies: "map tdBody decls = [Some probedBody]"
    by (auto simp: decidedBodies_def split: sum.splits)
  have plain: "\<nexists>a b. rrRaw probeRule = a @ ''{{'' @ b" by (simp add: probeRule_def Cons_eq_append_conv)
  let ?ov = "snd (resolveImportOverrides probeRoot (rtImportNames probeTools) (ruleImports probeRule))"
  have stmts: "ctSnippet (rtCode probeTools) (rrRaw probeRule) = Some [callStmt ''probe'']"
    "map (\<lambda>c. stripDynamicIdents (replaceQualifierAliases ?ov c)) [callStmt ''probe''] = [callStmt ''probe'']"
    by code_simp+
  from raw_rule_effect [OF run] obtain f f' pre d post body body' ims overrides s code where
    eff: "probeDecls = pre @ d # post" "tdBody d = Some body" "decls = pre @ d\<lparr>tdFunc := Some f', tdBody := Some body'\<rparr> # post"
      "resolveImportOverrides probeRoot (rtImportNames probeTools) (ruleImports probeRule) = (ims, overrides)"
    and t: "rawText probeTools ims (rrRaw probeRule) (withNumberedResults f) f' s"
    and c: "ctSnippet (rtCode probeTools) s = Some code"
    and placed: "placed (ctRender (rtCode probeTools)) (rtRegexp probeTools) probeRule
        (map (\<lambda>c. stripDynamicIdents (replaceQualifierAliases overrides c)) code) body body'"
    by blast
  have "s = rrRaw probeRule" using t plain unfolding rawText_def by simp
  then have "code = [callStmt ''probe'']" using c stmts(1) by simp
  moreover have "overrides = ?ov" using eff(4) by simp
  moreover have "pre = []" using eff(1) by (auto simp: probeDecls_def Cons_eq_append_conv)
  then have "body = probeBody" "body' = probedBody" using eff(1-3) bodies by (auto simp: probeDecls_def)
  ultimately show ?thesis using placed stmts(2) by simp
qed

definition spanRule :: InstDirectiveRule where
  "spanRule = \<lparr>ruleName = ''s'', ruleTarget = newTarget [''app''], ruleVersion = [], ruleImports = [], ruleWhere = None,
     dirDirective = ''otelc:span'', dirTemplate = ''probe()''\<rparr>"

definition spannedBodies :: "codeError + bool \<times> dstFile \<times> topDecl list \<times> compileStep \<times> (string \<times> stringMap) option \<Rightarrow> bool \<times> code list option list" where
  "spannedBodies r = (case r of Inl e \<Rightarrow> (False, []) | Inr (changed, root, decls, step, out) \<Rightarrow> (changed, map tdBody decls))"

theorem directive_rule_effect_witness:
  "\<exists>args snippet f'. parseDirectiveArgs ''//otelc:span kind:client'' ''otelc:span'' = Inr args \<and>
     renderTemplate (the (rtFunc probeTools ''probe()''))
       (newFuncTemplateData probeTarget args (fst (resolveImportOverrides probeRoot (rtImportNames probeTools) [])) (directiveIdentity id spanRule)) =
       (Inr snippet, f') \<and>
     ruleStmts probeTools (snd (resolveImportOverrides probeRoot (rtImportNames probeTools) [])) snippet = Inr [callStmt ''probe''] \<and>
     onlyNamed probeTarget f'"
proof -
  have "spannedBodies (applyDirectiveRule probeTools id spanRule probeRoot probeDecls probeStep) = (True, [Some (callStmt ''probe'' # probeBody)])"
    by code_simp
  then obtain root decls step out where run: "applyDirectiveRule probeTools id spanRule probeRoot probeDecls probeStep = Inr (True, root, decls, step, out)"
    and bodies: "map tdBody decls = [Some (callStmt ''probe'' # probeBody)]"
    by (auto simp: spannedBodies_def split: sum.splits)
  have dir: "directiveOf ''otelc:span'' (hd probeDecls) = Some (probeTarget, ''//otelc:span kind:client'')" by code_simp
  have spec: "dirDirective spanRule = ''otelc:span''" "dirTemplate spanRule = ''probe()''" "ruleImports spanRule = []"
    by (simp_all add: spanRule_def)
  from directive_rule_effect [OF run] bodies dir show ?thesis
    unfolding spec by (auto simp: probeDecls_def list_all2_Cons1)
qed

section \<open>Constants that repeat\<close>

text \<open>In a group of constants a specification without a value has that of the one before it.\<close>

fun constValues :: "code list \<Rightarrow> code list \<Rightarrow> code list list" where
  "constValues before [] = []"
| "constValues before (Node (ValueSpecs n) cs # specs) =
     (let own = (if drop (Suc n) cs = [] then before else drop (Suc n) cs) in own # constValues own specs)"
| "constValues before (c # specs) = constValues before specs"

definition countedConsts :: "code list" where
  "countedConsts = [Node (ValueSpecs 1) [IdentN [] ''A'', nilNode, IdentN [] ''iota''],
     Node (ValueSpecs 1) [IdentN [] ''B'', nilNode], Node (ValueSpecs 1) [IdentN [] ''C'', nilNode]]"

text \<open>
  \<open>replaceDeclValue\<close> gives a name without a value one of its own. For a constant it had one, that of
  the constant before it, and the next constant repeats the new one: to replace \<open>B\<close> of
  \<open>const (A = iota; B; C)\<close> also gives \<open>C\<close> another value.
\<close>

lemma next_constant_changes:
  assumes "parseValueExpr T v = Inr x"
  shows "\<exists>c. changeSpec (replaceDeclValue T v overrides) ''B'' (countedConsts ! 1) = Inr c \<and>
    constValues [] countedConsts = [[IdentN [] ''iota''], [IdentN [] ''iota''], [IdentN [] ''iota'']] \<and>
    constValues [] (countedConsts[1 := c]) =
      [[IdentN [] ''iota''], [cloneCode (replaceQualifierAliases overrides x)], [cloneCode (replaceQualifierAliases overrides x)]]"
  using assms by (auto simp: countedConsts_def changeSpec_def replaceDeclValue_def Let_def)

end
