(* ===== verification/Literal_Rules.thy ===== *)
theory Literal_Rules
  imports Call_Sites
begin

text \<open>
  Rules that set fields of composite literals: \<open>apply_lit.go\<close> of \<open>tool/internal/instrument\<close>. A field
  that a literal assigns is wrapped or overridden in place, one that it omits is put in front.

  The code collects the literals of a file, an outer one before those inside it, and changes them
  in the reverse order. Here a literal is changed after its parts, the last part first.

  Shown: what a literal assigns to each of its fields afterwards.
\<close>

section \<open>Setters\<close>

record litFieldSetter =
  lsName :: string
  lsValue :: "code option"
  lsWrap :: "callQuery template option"

datatype litError =
    NoInstruction string
  | BadValue string compileError
  | BadWrap string
  | WrapFailed string compileError
  | LitShadowed string string
  | LitImports importError

fun newLitFieldSetters ::
    "codeTools \<Rightarrow> InstLitField list \<Rightarrow> (string \<Rightarrow> string option) \<Rightarrow> litError + litFieldSetter list" where
  "newLitFieldSetters T [] overrides = Inr []"
| "newLitFieldSetters T (f # fs) overrides =
     (case (if lfValue f = [] then Inr None else map_sum id Some (parseGoExpression T (lfValue f))) of
        Inl e \<Rightarrow> Inl (BadValue (lfName f) e)
      | Inr value \<Rightarrow>
          (case (if lfWrap f = [] then Some None else map_option Some (ctTemplate T (lfWrap f))) of
             None \<Rightarrow> Inl (BadWrap (lfName f))
           | Some wrap \<Rightarrow>
               (case newLitFieldSetters T fs overrides of
                  Inl e \<Rightarrow> Inl e
                | Inr setters \<Rightarrow>
                    Inr (\<lparr>lsName = lfName f, lsValue = map_option (replaceQualifierAliases overrides) value, lsWrap = wrap\<rparr>
                         # setters))))"

section \<open>Which literals\<close>

definition matchesLitRule :: "code \<Rightarrow> InstLitRule \<Rightarrow> (string \<Rightarrow> string option) \<Rightarrow> bool" where
  "matchesLitRule lit r importAliases =
     (case lit of
        Node Comp (Node (Sel s) [IdentN path name] # elts) \<Rightarrow>
          if s \<noteq> lrTypeName r then False
          else if path \<noteq> [] then path = lrImportPath r
          else importAliases name = Some (lrImportPath r)
      | _ \<Rightarrow> False)"

definition isKeyed :: "code \<Rightarrow> bool" where
  "isKeyed c = (case c of Node KeyValue cs \<Rightarrow> True | _ \<Rightarrow> False)"

definition hasPositionalElements :: "code list \<Rightarrow> bool" where
  "hasPositionalElements elts \<longleftrightarrow> list_ex (\<lambda>c. \<not> isKeyed c) elts"

text \<open>The field that an element assigns\<close>

definition elementKey :: "code \<Rightarrow> string option" where
  "elementKey c = (case c of Node KeyValue [IdentN p n, v] \<Rightarrow> Some n | _ \<Rightarrow> None)"

definition elementValue :: "code \<Rightarrow> code" where
  "elementValue c = (case c of Node KeyValue [k, v] \<Rightarrow> v | _ \<Rightarrow> c)"

definition setValueOf :: "code \<Rightarrow> code \<Rightarrow> code" where
  "setValueOf v c = (case c of Node KeyValue [k, old] \<Rightarrow> Node KeyValue [k, v] | _ \<Rightarrow> c)"

text \<open>\<open>findKeyedElement\<close>: the elements in front of it, the element, those behind it\<close>

fun findKeyedElement :: "code list \<Rightarrow> string \<Rightarrow> (code list \<times> code \<times> code list) option" where
  "findKeyedElement [] name = None"
| "findKeyedElement (c # cs) name =
     (if elementKey c = Some name then Some ([], c, cs)
      else map_option (\<lambda>(xs, d, ys). (c # xs, d, ys)) (findKeyedElement cs name))"

section \<open>Setting fields\<close>

text \<open>The elements, the new ones in front of them, whether there was a change, and the declaration
  around the literal\<close>

record litState =
  liElts :: "code list"
  liPrepend :: "code list"
  liChanged :: bool
  liEnclosing :: "funcDecl option"

text \<open>A setter with neither value nor wrap fails an assertion.\<close>

definition setField ::
    "codeTools \<Rightarrow> (string \<Rightarrow> string option) \<Rightarrow> litFieldSetter \<Rightarrow> litState \<Rightarrow> litError + litState" where
  "setField T overrides setter st =
     (if lsValue setter = None \<and> lsWrap setter = None then Inl (NoInstruction (lsName setter))
      else case findKeyedElement (liElts st) (lsName setter) of
        Some (xs, existing, ys) \<Rightarrow>
          (case lsWrap setter of
             None \<Rightarrow>
               Inr (st\<lparr>liElts := xs @ setValueOf (cloneCode (the (lsValue setter))) existing # ys, liChanged := True\<rparr>)
           | Some tmpl \<Rightarrow>
               (case compileExpression T tmpl (elementValue existing) (liEnclosing st) None overrides of
                  (Inl e, enclosing) \<Rightarrow> Inl (WrapFailed (lsName setter) e)
                | (Inr wrapped, enclosing) \<Rightarrow>
                    Inr (st\<lparr>liElts := xs @ setValueOf wrapped existing # ys, liChanged := True, liEnclosing := enclosing\<rparr>)))
      | None \<Rightarrow>
          (case lsValue setter of
             None \<Rightarrow> Inr st
           | Some v \<Rightarrow> Inr (st\<lparr>liPrepend := liPrepend st @ [Node KeyValue [IdentN [] (lsName setter), cloneCode v]]\<rparr>)))"

fun setAllFields ::
    "codeTools \<Rightarrow> (string \<Rightarrow> string option) \<Rightarrow> litFieldSetter list \<Rightarrow> litState \<Rightarrow> litError + litState" where
  "setAllFields T overrides [] st = Inr st"
| "setAllFields T overrides (s # ss) st =
     (case setField T overrides s st of Inl e \<Rightarrow> Inl e | Inr st' \<Rightarrow> setAllFields T overrides ss st')"

text \<open>Whether the literal changed, its elements, and the declaration around it\<close>

definition setLitFields ::
    "codeTools \<Rightarrow> (string \<Rightarrow> string option) \<Rightarrow> litFieldSetter list \<Rightarrow> code list \<Rightarrow> funcDecl option \<Rightarrow>
     litError + bool \<times> code list \<times> funcDecl option" where
  "setLitFields T overrides setters elts enclosing =
     (case setAllFields T overrides setters
             \<lparr>liElts = elts, liPrepend = [], liChanged = False, liEnclosing = enclosing\<rparr> of
        Inl e \<Rightarrow> Inl e
      | Inr st \<Rightarrow> Inr (liChanged st \<or> liPrepend st \<noteq> [], liPrepend st @ liElts st, liEnclosing st))"

section \<open>A file\<close>

record litContext =
  lcTools :: codeTools
  lcRule :: InstLitRule
  lcAliases :: "string \<Rightarrow> string option"
  lcOverrides :: "string \<Rightarrow> string option"
  lcSetters :: "litFieldSetter list"

text \<open>One literal of the list: it is skipped when it does not match or is positional.\<close>

definition changeLiteral ::
    "litContext \<Rightarrow> code list option \<Rightarrow> code \<Rightarrow> bool \<times> funcDecl option \<Rightarrow> litError + code \<times> bool \<times> funcDecl option" where
  "changeLiteral C body c st =
     (case (c, st) of
        (Node Comp (t # elts), (modified, enclosing)) \<Rightarrow>
          if \<not> matchesLitRule c (lcRule C) (lcAliases C) \<or> hasPositionalElements elts then Inr (c, st)
          else case checkAliasOverrideShadowing (ruleImports (lcRule C)) (lcOverrides C)
                      (map_option (\<lambda>f. (f, body)) enclosing) of
                 Some (ruleAlias, fileAlias) \<Rightarrow> Inl (LitShadowed ruleAlias fileAlias)
               | None \<Rightarrow>
                   (case setLitFields (lcTools C) (lcOverrides C) (lcSetters C) elts enclosing of
                      Inl e \<Rightarrow> Inl e
                    | Inr (changed, elts', enclosing') \<Rightarrow> Inr (Node Comp (t # elts'), modified \<or> changed, enclosing'))
      | _ \<Rightarrow> Inr (c, st))"

fun changeLits ::
    "litContext \<Rightarrow> code list option \<Rightarrow> code \<Rightarrow> bool \<times> funcDecl option \<Rightarrow> litError + code \<times> bool \<times> funcDecl option"
  and changeAllLits ::
    "litContext \<Rightarrow> code list option \<Rightarrow> code list \<Rightarrow> bool \<times> funcDecl option \<Rightarrow>
     litError + code list \<times> bool \<times> funcDecl option" where
  "changeLits C body (IdentN p n) st = Inr (IdentN p n, st)"
| "changeLits C body (LitN v) st = Inr (LitN v, st)"
| "changeLits C body (Node k cs) st =
     (case changeAllLits C body cs st of
        Inl e \<Rightarrow> Inl e
      | Inr (cs', st') \<Rightarrow> changeLiteral C body (Node k cs') st')"
| "changeAllLits C body [] st = Inr ([], st)"
| "changeAllLits C body (c # cs) st =
     (case changeAllLits C body cs st of
        Inl e \<Rightarrow> Inl e
      | Inr (cs', st1) \<Rightarrow>
          (case changeLits C body c st1 of
             Inl e \<Rightarrow> Inl e
           | Inr (c', st2) \<Rightarrow> Inr (c' # cs', st2)))"

text \<open>A declaration: its body is behind its head.\<close>

definition changeDecl :: "litContext \<Rightarrow> topDecl \<Rightarrow> bool \<Rightarrow> litError + topDecl \<times> bool" where
  "changeDecl C d modified =
     (case (case tdBody d of
              None \<Rightarrow> Inr (None, modified, tdFunc d)
            | Some stmts \<Rightarrow> map_sum id (apfst Some) (changeAllLits C (tdBody d) stmts (modified, tdFunc d))) of
        Inl e \<Rightarrow> Inl e
      | Inr (body, st1) \<Rightarrow>
          (case changeAllLits C (tdBody d) (tdHead d) st1 of
             Inl e \<Rightarrow> Inl e
           | Inr (hs, modified', f) \<Rightarrow> Inr (d\<lparr>tdFunc := f, tdHead := hs, tdBody := body\<rparr>, modified')))"

fun changeDecls :: "litContext \<Rightarrow> topDecl list \<Rightarrow> bool \<Rightarrow> litError + topDecl list \<times> bool" where
  "changeDecls C [] modified = Inr ([], modified)"
| "changeDecls C (d # ds) modified =
     (case changeDecls C ds modified of
        Inl e \<Rightarrow> Inl e
      | Inr (ds', m1) \<Rightarrow>
          (case changeDecl C d m1 of
             Inl e \<Rightarrow> Inl e
           | Inr (d', m2) \<Rightarrow> Inr (d' # ds', m2)))"

definition applyLitRule ::
    "codeTools \<Rightarrow> nameResolver \<Rightarrow> nameResolver \<Rightarrow> resolver \<Rightarrow> InstLitRule \<Rightarrow> dstFile \<Rightarrow> topDecl list \<Rightarrow> compileStep \<Rightarrow>
     litError + bool \<times> dstFile \<times> topDecl list \<times> compileStep \<times> (string \<times> stringMap) option" where
  "applyLitRule T pkgName importNames resolve r root decls step =
     (case resolveImportOverrides root importNames (ruleImports r) of
        (importAliases, overrides) \<Rightarrow>
          (case newLitFieldSetters T (lrField r) overrides of
             Inl e \<Rightarrow> Inl e
           | Inr setters \<Rightarrow>
               (case changeDecls \<lparr>lcTools = T, lcRule = r, lcAliases = aliasesOf importAliases, lcOverrides = overrides,
                                  lcSetters = setters\<rparr> decls False of
                  Inl e \<Rightarrow> Inl e
                | Inr (ds, modified) \<Rightarrow>
                    if \<not> modified then Inr (False, root, ds, step, None)
                    else case addRuleImports pkgName resolve step root
                                (usedRuleImports (concat (map declCode ds)) (ruleImports r) overrides) of
                           Inl e \<Rightarrow> Inl (LitImports e)
                         | Inr (root', step', out) \<Rightarrow> Inr (True, root', ds, step', out))))"
section \<open>What becomes of the elements\<close>

text \<open>The setter of a field of a rule\<close>

definition setterOf :: "codeTools \<Rightarrow> (string \<Rightarrow> string option) \<Rightarrow> InstLitField \<Rightarrow> litFieldSetter \<Rightarrow> bool" where
  "setterOf T overrides f s \<longleftrightarrow> lsName s = lfName f \<and>
     (if lfValue f = [] then lsValue s = None
      else \<exists>x. parseGoExpression T (lfValue f) = Inr x \<and> lsValue s = Some (replaceQualifierAliases overrides x)) \<and>
     (if lfWrap f = [] then lsWrap s = None else \<exists>tmpl. ctTemplate T (lfWrap f) = Some tmpl \<and> lsWrap s = Some tmpl)"

text \<open>The element in position \<open>i\<close> is the first one with this key.\<close>

definition firstKeyed :: "string \<Rightarrow> code list \<Rightarrow> nat \<Rightarrow> bool" where
  "firstKeyed n cs i \<longleftrightarrow> i < length cs \<and> elementKey (cs ! i) = Some n \<and> (\<forall>j < i. elementKey (cs ! j) \<noteq> Some n)"

text \<open>
  An element that a setter changes, \<open>docs/rules.md\<close>, rule 8: it keeps its key, and its value is the
  wrapped old value, or the new value if there is no wrap template.
\<close>

definition valueSet ::
    "codeTools \<Rightarrow> (string \<Rightarrow> string option) \<Rightarrow> funcDecl option \<Rightarrow> litFieldSetter \<Rightarrow> code \<Rightarrow> code \<Rightarrow> bool" where
  "valueSet T overrides enclosing s c c' \<longleftrightarrow> (\<exists>p x y.
     c = Node KeyValue [IdentN p (lsName s), x] \<and> c' = Node KeyValue [IdentN p (lsName s), y] \<and>
     (case lsWrap s of
        None \<Rightarrow> \<exists>v. lsValue s = Some v \<and> y = cloneCode v
      | Some tmpl \<Rightarrow> \<exists>f f'. rel_option onlyNamed enclosing f \<and>
          compileExpression T tmpl x f None overrides = (Inr y, f')))"

definition elementsSet ::
    "codeTools \<Rightarrow> (string \<Rightarrow> string option) \<Rightarrow> funcDecl option \<Rightarrow> litFieldSetter list \<Rightarrow> code list \<Rightarrow> code list \<Rightarrow> bool" where
  "elementsSet T overrides enclosing setters elts kept \<longleftrightarrow> length kept = length elts \<and> (\<forall>i < length elts.
     (\<forall>s \<in> set setters. firstKeyed (lsName s) elts i \<longrightarrow> valueSet T overrides enclosing s (elts ! i) (kept ! i)) \<and>
     ((\<forall>s \<in> set setters. \<not> firstKeyed (lsName s) elts i) \<longrightarrow> kept ! i = elts ! i))"

text \<open>The fields that a literal omits and that have a value\<close>

definition newElements :: "litFieldSetter list \<Rightarrow> code list \<Rightarrow> code list" where
  "newElements setters elts =
     map (\<lambda>s. Node KeyValue [IdentN [] (lsName s), cloneCode (the (lsValue s))])
       (filter (\<lambda>s. lsValue s \<noteq> None \<and> Some (lsName s) \<notin> elementKey ` set elts) setters)"

lemma findKeyedElement_Some:
  "findKeyedElement cs n = Some (xs, e, ys) \<Longrightarrow> cs = xs @ e # ys \<and> elementKey e = Some n \<and> Some n \<notin> elementKey ` set xs"
  by (induction cs arbitrary: xs) (auto split: if_splits)

lemma findKeyedElement_None: "findKeyedElement cs n = None \<longleftrightarrow> Some n \<notin> elementKey ` set cs"
  by (induction cs) (auto split: if_splits)

lemma findKeyedElement_first:
  assumes "findKeyedElement cs n = Some (xs, e, ys)"
  shows "firstKeyed n cs (length xs)"
proof -
  have "elementKey ((xs @ e # ys) ! j) \<noteq> Some n" if "j < length xs" for j
    using findKeyedElement_Some [OF assms] that by (metis image_eqI nth_append nth_mem)
  then show ?thesis using findKeyedElement_Some [OF assms] by (simp add: firstKeyed_def)
qed

lemma firstKeyed_unique: "firstKeyed n cs i \<Longrightarrow> firstKeyed n cs j \<Longrightarrow> i = j"
  unfolding firstKeyed_def by (metis linorder_neqE_nat)

lemma firstKeyed_name: "firstKeyed n cs i \<Longrightarrow> firstKeyed m cs i \<Longrightarrow> n = m"
  by (simp add: firstKeyed_def)

lemma firstKeyed_keys: "map elementKey cs = map elementKey ds \<Longrightarrow> firstKeyed n cs i = firstKeyed n ds i"
proof -
  assume e: "map elementKey cs = map elementKey ds"
  then have l: "length cs = length ds" by (rule map_eq_imp_length_eq)
  have "elementKey (cs ! k) = elementKey (ds ! k)" if "k < length cs" for k
    using e l that by (metis nth_map)
  then show ?thesis using l unfolding firstKeyed_def by (metis order_less_trans)
qed

lemma elementKey_Some: "elementKey c = Some n \<longleftrightarrow> (\<exists>p v. c = Node KeyValue [IdentN p n, v])"
  by (auto simp: elementKey_def split: code.splits codeKind.splits list.splits)

lemma setValueOf_key [simp]: "elementKey (setValueOf v c) = elementKey c"
  by (auto simp: elementKey_def setValueOf_def split: code.splits codeKind.splits list.splits)

lemma setValueOf_set:
  assumes "elementKey c = Some (lsName s)"
    and "case lsWrap s of
        None \<Rightarrow> \<exists>v. lsValue s = Some v \<and> y = cloneCode v
      | Some tmpl \<Rightarrow> \<exists>f f'. rel_option onlyNamed enclosing f \<and>
          compileExpression T tmpl (elementValue c) f None overrides = (Inr y, f')"
  shows "valueSet T overrides enclosing s c (setValueOf y c)"
proof -
  from assms(1) obtain p x where c: "c = Node KeyValue [IdentN p (lsName s), x]" by (auto simp: elementKey_Some)
  then have x: "elementValue c = x" and y: "setValueOf y c = Node KeyValue [IdentN p (lsName s), y]"
    by (simp_all add: elementValue_def setValueOf_def)
  show ?thesis unfolding valueSet_def by (intro exI conjI, rule c, rule y, rule assms(2) [unfolded x])
qed

text \<open>The state when the setters \<open>ss\<close> are done\<close>

definition fieldsDone ::
    "codeTools \<Rightarrow> (string \<Rightarrow> string option) \<Rightarrow> funcDecl option \<Rightarrow> code list \<Rightarrow> litFieldSetter list \<Rightarrow> litState \<Rightarrow> bool" where
  "fieldsDone T overrides enclosing elts ss st \<longleftrightarrow>
     liPrepend st = newElements ss elts \<and> map elementKey (liElts st) = map elementKey elts \<and>
     elementsSet T overrides enclosing ss elts (liElts st) \<and>
     (liChanged st \<longleftrightarrow> (\<exists>s \<in> set ss. Some (lsName s) \<in> elementKey ` set elts)) \<and>
     rel_option onlyNamed enclosing (liEnclosing st)"

text \<open>A setter that finds its field puts a new value behind the key.\<close>

lemma fieldsDone_present:
  assumes inv: "fieldsDone T overrides enclosing elts ss st" and new: "lsName s \<notin> lsName ` set ss"
    and found: "findKeyedElement (liElts st) (lsName s) = Some (xs, e, ys)"
    and f: "rel_option onlyNamed enclosing f"
    and y: "\<And>i. i < length elts \<Longrightarrow> elts ! i = e \<Longrightarrow> valueSet T overrides enclosing s e (setValueOf y e)"
  shows "fieldsDone T overrides enclosing elts (ss @ [s])
    (st\<lparr>liElts := xs @ setValueOf y e # ys, liChanged := True, liEnclosing := f\<rparr>)"
proof -
  let ?i = "length xs" let ?es = "xs @ setValueOf y e # ys"
  note parts = findKeyedElement_Some [OF found]
  have keys: "map elementKey (liElts st) = map elementKey elts" and set: "elementsSet T overrides enclosing ss elts (liElts st)"
    and len: "length (liElts st) = length elts"
    using inv by (auto simp: fieldsDone_def elementsSet_def)
  have first: "firstKeyed (lsName s) elts ?i"
    using findKeyedElement_first [OF found] firstKeyed_keys [OF keys] by simp
  then have i: "?i < length elts" by (simp add: firstKeyed_def)
  have others: "\<not> firstKeyed (lsName x) elts ?i" if "x \<in> set ss" for x
    using firstKeyed_name [OF first] new that by (metis image_eqI)
  have "liElts st ! ?i = elts ! ?i" using set i others unfolding elementsSet_def by blast
  then have e: "elts ! ?i = e" using parts by (simp add: nth_append)
  have at: "?es ! j = (if j = ?i then setValueOf y e else liElts st ! j)" for j
    using parts by (auto simp: nth_append nth_Cons' not_less_iff_gr_or_eq)
  have "elementsSet T overrides enclosing (ss @ [s]) elts ?es"
    unfolding elementsSet_def
  proof (intro conjI allI impI ballI)
    show "length ?es = length elts" using len parts by simp
  next
    fix j x
    assume j: "j < length elts" "x \<in> set (ss @ [s])" "firstKeyed (lsName x) elts j"
    show "valueSet T overrides enclosing x (elts ! j) (?es ! j)"
    proof (cases "x \<in> set ss")
      case True
      then have "j \<noteq> ?i" using others j(3) by blast
      then show ?thesis using set True j by (simp add: at elementsSet_def)
    next
      case False
      then have x: "x = s" using j(2) by simp
      then have "j = ?i" using firstKeyed_unique [OF first] j(3) by simp
      then show ?thesis using y [OF i e] e x by (simp add: at)
    qed
  next
    fix j
    assume j: "j < length elts" "\<forall>x \<in> set (ss @ [s]). \<not> firstKeyed (lsName x) elts j"
    then have "j \<noteq> ?i" using first by auto
    then show "?es ! j = elts ! j" using set j by (simp add: at elementsSet_def)
  qed
  moreover have "map elementKey ?es = map elementKey elts" using keys parts by simp
  moreover have present: "Some (lsName s) \<in> elementKey ` set elts"
    using first unfolding firstKeyed_def by (metis image_eqI nth_mem)
  moreover have "newElements (ss @ [s]) elts = newElements ss elts" using present by (simp add: newElements_def)
  ultimately show ?thesis using inv f by (simp add: fieldsDone_def)
qed

lemma fieldsDone_absent:
  assumes inv: "fieldsDone T overrides enclosing elts ss st"
    and none: "findKeyedElement (liElts st) (lsName s) = None"
    and st': "st' = (case lsValue s of None \<Rightarrow> st
      | Some v \<Rightarrow> st\<lparr>liPrepend := liPrepend st @ [Node KeyValue [IdentN [] (lsName s), cloneCode v]]\<rparr>)"
  shows "fieldsDone T overrides enclosing elts (ss @ [s]) st'"
proof -
  have "elementKey ` set (liElts st) = elementKey ` set elts"
    using inv unfolding fieldsDone_def by (metis set_map)
  then have absent: "Some (lsName s) \<notin> elementKey ` set elts" using none by (simp add: findKeyedElement_None)
  then have no: "\<not> firstKeyed (lsName s) elts i" for i
    unfolding firstKeyed_def by (metis image_eqI nth_mem)
  have "elementsSet T overrides enclosing (ss @ [s]) elts (liElts st)"
    using inv no by (simp add: fieldsDone_def elementsSet_def)
  moreover have "newElements (ss @ [s]) elts = newElements ss elts @
      (case lsValue s of None \<Rightarrow> [] | Some v \<Rightarrow> [Node KeyValue [IdentN [] (lsName s), cloneCode v]])"
    using absent by (simp add: newElements_def split: option.split)
  ultimately show ?thesis using inv absent by (simp add: fieldsDone_def st' split: option.split)
qed

lemma setField_done:
  assumes run: "setField T overrides s st = Inr st'" and inv: "fieldsDone T overrides enclosing elts ss st"
    and new: "lsName s \<notin> lsName ` set ss"
  shows "fieldsDone T overrides enclosing elts (ss @ [s]) st'"
proof (cases "findKeyedElement (liElts st) (lsName s)")
  case None
  then have "st' = (case lsValue s of None \<Rightarrow> st
      | Some v \<Rightarrow> st\<lparr>liPrepend := liPrepend st @ [Node KeyValue [IdentN [] (lsName s), cloneCode v]]\<rparr>)"
    using run by (auto simp: setField_def split: if_splits option.splits)
  with fieldsDone_absent [OF inv None] show ?thesis .
next
  case (Some found)
  then obtain xs e ys where f: "findKeyedElement (liElts st) (lsName s) = Some (xs, e, ys)" by (metis prod_cases3)
  have key: "elementKey e = Some (lsName s)" using findKeyedElement_Some [OF f] by simp
  have n: "rel_option onlyNamed enclosing (liEnclosing st)" using inv by (simp add: fieldsDone_def)
  show ?thesis
  proof (cases "lsWrap s")
    case None
    then obtain v where v: "lsValue s = Some v" using run by (cases "lsValue s") (auto simp: setField_def)
    have st': "st' = st\<lparr>liElts := xs @ setValueOf (cloneCode v) e # ys, liChanged := True, liEnclosing := liEnclosing st\<rparr>"
      using run f None v by (auto simp: setField_def)
    show ?thesis unfolding st'
      by (rule fieldsDone_present [OF inv new f n]) (rule setValueOf_set [OF key], simp add: None v)
  next
    case (Some tmpl)
    obtain res f' where c: "compileExpression T tmpl (elementValue e) (liEnclosing st) None overrides = (res, f')" by fastforce
    with run f Some obtain w where w: "res = Inr w"
      and st': "st' = st\<lparr>liElts := xs @ setValueOf w e # ys, liChanged := True, liEnclosing := f'\<rparr>"
      by (auto simp: setField_def split: sum.splits)
    have "rel_option onlyNamed (liEnclosing st) f'"
      using compileExpression_named [of "liEnclosing st" T tmpl "elementValue e" None overrides] c by simp
    then have n': "rel_option onlyNamed enclosing f'" using n named_trans by blast
    show ?thesis unfolding st'
      by (rule fieldsDone_present [OF inv new f n']) (rule setValueOf_set [OF key], use Some c w n in auto)
  qed
qed

lemma setAllFields_done:
  "setAllFields T overrides ss st = Inr st' \<Longrightarrow> fieldsDone T overrides enclosing elts before st \<Longrightarrow>
     distinct (map lsName (before @ ss)) \<Longrightarrow> fieldsDone T overrides enclosing elts (before @ ss) st'"
proof (induction ss arbitrary: before st)
  case (Cons s ss)
  from Cons.prems(1) obtain st1 where step: "setField T overrides s st = Inr st1"
    and rest: "setAllFields T overrides ss st1 = Inr st'" by (auto split: sum.splits)
  have "lsName s \<notin> lsName ` set before" using Cons.prems(3) by auto
  from Cons.IH [OF rest setField_done [OF step Cons.prems(2) this]] Cons.prems(3) show ?case by simp
qed simp

lemma newLitFieldSetters_of: "newLitFieldSetters T fs overrides = Inr setters \<Longrightarrow> list_all2 (setterOf T overrides) fs setters"
proof (induction fs arbitrary: setters)
  case (Cons f fs)
  from Cons.prems obtain s ss where setters: "setters = s # ss" and rest: "newLitFieldSetters T fs overrides = Inr ss"
    by (auto split: sum.splits option.splits)
  have "setterOf T overrides f s"
    unfolding setterOf_def using Cons.prems setters
    by (cases "parseGoExpression T (lfValue f)") (auto split: sum.splits option.splits if_splits)
  then show ?case using Cons.IH [OF rest] setters by simp
qed simp

lemma setters_names: "list_all2 (setterOf T overrides) fs setters \<Longrightarrow> map lsName setters = map lfName fs"
  by (induction rule: list_all2_induct) (simp_all add: setterOf_def)

lemma elementsSet_keyed:
  assumes "elementsSet T overrides enclosing ss elts kept" and "list_all isKeyed elts"
  shows "list_all isKeyed kept"
  unfolding list_all_length
proof (intro allI impI)
  fix i assume i: "i < length kept"
  then have l: "i < length elts" using assms(1) by (simp add: elementsSet_def)
  show "isKeyed (kept ! i)"
  proof (cases "\<exists>s \<in> set ss. firstKeyed (lsName s) elts i")
    case True
    then obtain s where "valueSet T overrides enclosing s (elts ! i) (kept ! i)"
      using assms(1) l unfolding elementsSet_def by blast
    then show ?thesis by (auto simp: valueSet_def isKeyed_def)
  next
    case False
    then have "kept ! i = elts ! i" using assms(1) l unfolding elementsSet_def by blast
    then show ?thesis using assms(2) l by (simp add: list_all_length)
  qed
qed

text \<open>
  C35: setting the fields of a literal, for a rule whose fields are distinct (as validation demands) and
  a literal that the rule accepts. Every field of the rule has its setter, with the parsed value and
  the template. The literal afterwards has new elements in front, in the order of the rule: one for
  each field with a value that the literal omits. Behind them are the elements it had, in place: the
  first with the key of a field of the rule keeps its key and gets the value of the table in
  \<open>docs/rules.md\<close>, the old value wrapped, or the new value if the field has no template; all others
  are untouched. A template runs in the function around the literal, where only missing and blank
  names may have been filled in. The literal counts as changed when a field was present or had a
  value, and it has no positional element.
\<close>

theorem setLitFields_table:
  assumes "newLitFieldSetters T (lrField r) overrides = Inr setters" and "distinct (map lfName (lrField r))"
    and "\<not> hasPositionalElements elts"
    and "setLitFields T overrides setters elts enclosing = Inr (changed, elts', enclosing')"
  shows "list_all2 (setterOf T overrides) (lrField r) setters \<and>
     (\<exists>kept. elts' = newElements setters elts @ kept \<and> elementsSet T overrides enclosing setters elts kept) \<and>
     (changed \<longleftrightarrow> (\<exists>s \<in> set setters. lsValue s \<noteq> None \<or> Some (lsName s) \<in> elementKey ` set elts)) \<and>
     \<not> hasPositionalElements elts' \<and> rel_option onlyNamed enclosing enclosing'"
proof -
  let ?st = "\<lparr>liElts = elts, liPrepend = [], liChanged = False, liEnclosing = enclosing\<rparr>"
  obtain st' where run: "setAllFields T overrides setters ?st = Inr st'"
    and st': "elts' = liPrepend st' @ liElts st'" "enclosing' = liEnclosing st'" "changed \<longleftrightarrow> liChanged st' \<or> liPrepend st' \<noteq> []"
    using assms(4) by (auto simp: setLitFields_def split: sum.splits)
  have each: "list_all2 (setterOf T overrides) (lrField r) setters" by (rule newLitFieldSetters_of [OF assms(1)])
  have "fieldsDone T overrides enclosing elts [] ?st"
    by (simp add: fieldsDone_def newElements_def elementsSet_def)
  from setAllFields_done [OF run this] have inv: "fieldsDone T overrides enclosing elts setters st'"
    using setters_names [OF each] assms(2) by simp
  have keyed: "hasPositionalElements cs \<longleftrightarrow> \<not> list_all isKeyed cs" for cs
    by (simp add: hasPositionalElements_def list_all_iff list_ex_iff)
  have kept: "elementsSet T overrides enclosing setters elts (liElts st')" and new: "liPrepend st' = newElements setters elts"
    using inv by (simp_all add: fieldsDone_def)
  have "list_all isKeyed (newElements setters elts)" by (auto simp: newElements_def list_all_iff isKeyed_def)
  then have pos: "\<not> hasPositionalElements elts'"
    using elementsSet_keyed [OF kept] assms(3) by (simp add: keyed st'(1) new)
  have "newElements setters elts \<noteq> [] \<longleftrightarrow> (\<exists>s \<in> set setters. lsValue s \<noteq> None \<and> Some (lsName s) \<notin> elementKey ` set elts)"
    by (simp add: newElements_def filter_empty_conv)
  then have "changed \<longleftrightarrow> (\<exists>s \<in> set setters. lsValue s \<noteq> None \<or> Some (lsName s) \<in> elementKey ` set elts)"
    using inv unfolding st'(3) new fieldsDone_def by blast
  moreover have "\<exists>kept. elts' = newElements setters elts @ kept \<and> elementsSet T overrides enclosing setters elts kept"
    using st'(1) new kept by blast
  moreover have "rel_option onlyNamed enclosing enclosing'" using inv st'(2) by (simp add: fieldsDone_def)
  ultimately show ?thesis using each pos by blast
qed

text \<open>\<open>&http.Transport{A: x, B: y}\<close> with \<open>A\<close> wrapped, \<open>B\<close> overridden and \<open>C\<close> set\<close>

definition litTools :: codeTools where
  "litTools = \<lparr>ctTemplate = (\<lambda>s. if s = ''w({{ . }})'' then
       Some (Emit ''w('' (Ask Self (\<lambda>b. case b of Count n \<Rightarrow> Abort | Text u \<Rightarrow> Emit (u @ '')'') Done))) else None),
     ctSnippet = (\<lambda>s. if s = ''w(_.PLACEHOLDER_0)'' then Some [Node (Stmt None [] (PlainStmt ''ExprStmt''))
         [Node (Call None False) [IdentN [] ''w'', Node (Sel ''PLACEHOLDER_0'') [IdentN [] ''_'']]]]
       else Some [Node (Stmt None [] (PlainStmt ''ExprStmt'')) [LitN s]]),
     ctRender = (\<lambda>_. None)\<rparr>"

definition litRule :: InstLitRule where
  "litRule = \<lparr>ruleName = ''mark'', ruleTarget = newTarget [''main''], ruleVersion = [], ruleImports = [], ruleWhere = None,
     lrStructLiteral = ''net/http.Transport'', lrImportPath = ''net/http'', lrTypeName = ''Transport'', lrField =
       [\<lparr>lfName = ''A'', lfValue = [], lfWrap = ''w({{ . }})''\<rparr>, \<lparr>lfName = ''B'', lfValue = ''1'', lfWrap = []\<rparr>,
        \<lparr>lfName = ''C'', lfValue = ''2'', lfWrap = []\<rparr>]\<rparr>"

definition litElements :: "code list" where
  "litElements = [Node KeyValue [IdentN [] ''A'', LitN ''x''], Node KeyValue [IdentN [] ''D'', LitN ''z''],
     Node KeyValue [IdentN [] ''B'', LitN ''y'']]"

definition litResult :: "code list" where
  "litResult = [Node KeyValue [IdentN [] ''C'', LitN ''2''],
     Node KeyValue [IdentN [] ''A'', Node (Call None False) [IdentN [] ''w'', LitN ''x'']],
     Node KeyValue [IdentN [] ''D'', LitN ''z''], Node KeyValue [IdentN [] ''B'', LitN ''1'']]"

theorem setLitFields_table_witness:
  "map_sum id (\<lambda>ss. setLitFields litTools (\<lambda>_. None) ss litElements None)
     (newLitFieldSetters litTools (lrField litRule) (\<lambda>_. None)) = Inr (Inr (True, litResult, None)) \<and>
   (\<exists>ss kept. litResult = newElements ss litElements @ kept \<and> elementsSet litTools (\<lambda>_. None) None ss litElements kept) \<and>
   \<not> hasPositionalElements litResult"
proof -
  have run: "map_sum id (\<lambda>ss. setLitFields litTools (\<lambda>_. None) ss litElements None)
     (newLitFieldSetters litTools (lrField litRule) (\<lambda>_. None)) = Inr (Inr (True, litResult, None))"
    by code_simp
  then obtain ss where ss: "newLitFieldSetters litTools (lrField litRule) (\<lambda>_. None) = Inr ss"
    "setLitFields litTools (\<lambda>_. None) ss litElements None = Inr (True, litResult, None)"
    by (cases "newLitFieldSetters litTools (lrField litRule) (\<lambda>_. None)") auto
  have d: "distinct (map lfName (lrField litRule))" "\<not> hasPositionalElements litElements"
    by (simp_all add: litRule_def litElements_def hasPositionalElements_def isKeyed_def)
  show ?thesis using setLitFields_table [OF ss(1) d(1,2) ss(2)] run by blast
qed

end
