(* ===== verification/Ignored_Calls.thy ===== *)
theory Ignored_Calls
  imports Call_Sites
begin

text \<open>
  Calls under an ignore directive: \<open>applyIgnoredCallSites\<close> of \<open>apply_call.go\<close> in
  \<open>tool/internal/instrument\<close>. A statement that carries the directive above a call is put between
  calls that switch hooks off and on again for the running goroutine; a deferred call switches them
  on if the statement panics. The counter is in \<open>instrumentation/runtime/runtime_gls.go\<close>.

  Shown: hooks are off while a marked statement runs, on again for the statements after it, and
  the counter is what it was when the function is left, by a panic too.
\<close>

section \<open>Generated statements\<close>

definition suppressHooksPackage :: string where
  "suppressHooksPackage = ''runtime''"

definition suppressHooksCall :: "string \<Rightarrow> bool \<Rightarrow> code" where
  "suppressHooksCall funcName selfPackage =
     Node (Call None False)
       [if selfPackage then IdentN [] funcName else Node (Sel funcName) [IdentN [] suppressHooksPackage]]"

definition exprStmt :: "code \<Rightarrow> code" where
  "exprStmt x = Node (Stmt None [] (PlainStmt ''ExprStmt'')) [x]"

definition blockOf :: "code list \<Rightarrow> code" where
  "blockOf stmts = Node (Stmt None [] BlockStmt) stmts"

definition guardName :: "nat \<Rightarrow> string" where
  "guardName n = ''otelcIgnoreDone'' @ itoa n"

definition deferFallback :: "bool \<Rightarrow> string \<Rightarrow> code" where
  "deferFallback selfPackage flag =
     Node (Stmt None [] (PlainStmt ''DeferStmt''))
       [Node (Call None False)
          [Node FuncLit
             [Node (Other ''FuncType'') [fieldList []],
              blockOf [Node (Stmt None [] (PlainStmt ''IfStmt''))
                [Node (Other ''!'') [IdentN [] flag],
                 blockOf [exprStmt (suppressHooksCall ''UnsuppressHooks'' selfPackage)]]]]]]"

definition defineFlag :: "string \<Rightarrow> code" where
  "defineFlag flag = Node (Stmt None [] (DefineStmt 1)) [IdentN [] flag, LitN ''false'']"

definition setFlag :: "string \<Rightarrow> code" where
  "setFlag flag = Node (Stmt None [] (PlainStmt ''AssignStmt'')) [IdentN [] flag, LitN ''true'']"

definition suppressHooksStmts :: "bool \<Rightarrow> nat \<Rightarrow> code list \<times> code list" where
  "suppressHooksStmts selfPackage n =
     (let flag = guardName n
      in ([exprStmt (suppressHooksCall ''SuppressHooks'' selfPackage), defineFlag flag, deferFallback selfPackage flag],
          [setFlag flag, exprStmt (suppressHooksCall ''UnsuppressHooks'' selfPackage)]))"

section \<open>Which statements\<close>

fun hasEscapingControlFlow :: "code \<Rightarrow> bool" where
  "hasEscapingControlFlow (IdentN p n) = False"
| "hasEscapingControlFlow (LitN v) = False"
| "hasEscapingControlFlow (Node k cs) =
     (case k of
        FuncLit \<Rightarrow> False
      | Stmt i decs ReturnStmt \<Rightarrow> True
      | Stmt i decs BranchStmt \<Rightarrow> True
      | _ \<Rightarrow> list_ex hasEscapingControlFlow cs)"

fun callCount :: "code \<Rightarrow> nat" where
  "callCount (IdentN p n) = 0"
| "callCount (LitN v) = 0"
| "callCount (Node k cs) =
     (case k of FuncLit \<Rightarrow> 0 | Call i e \<Rightarrow> Suc (sum_list (map callCount cs)) | _ \<Rightarrow> sum_list (map callCount cs))"

definition hasMultipleCalls :: "code \<Rightarrow> bool" where
  "hasMultipleCalls stmt \<longleftrightarrow> callCount stmt > 1"

definition stmtId :: "code \<Rightarrow> nat option" where
  "stmtId c = (case c of Node (Stmt i decs k) cs \<Rightarrow> i | _ \<Rightarrow> None)"

definition markedIgnoredStmts :: "topDecl list \<Rightarrow> nat list" where
  "markedIgnoredStmts ds =
     List.map_filter (\<lambda>(c, s). if hasLeadingDirective (map_option treeOf s) directiveIgnore
                                then Option.bind s stmtId else None) (sitesIn ds)"

definition isMarked :: "nat list \<Rightarrow> code \<Rightarrow> bool" where
  "isMarked marked stmt = (case stmtId stmt of None \<Rightarrow> False | Some i \<Rightarrow> i \<in> set marked)"

section \<open>Bracketing\<close>

datatype ignoreError = EscapingStatement | SeveralCalls | SuppressImport importError

text \<open>The number of each marked statement of a list, and the next number\<close>

fun guardNumbers :: "(code \<Rightarrow> bool) \<Rightarrow> code list \<Rightarrow> nat \<Rightarrow> ignoreError + nat option list \<times> nat" where
  "guardNumbers marked [] n = Inr ([], n)"
| "guardNumbers marked (s # ss) n =
     (if \<not> marked s then map_sum id (apfst (Cons None)) (guardNumbers marked ss n)
      else if hasEscapingControlFlow s then Inl EscapingStatement
      else if hasMultipleCalls s then Inl SeveralCalls
      else map_sum id (apfst (Cons (Some n))) (guardNumbers marked ss (Suc n)))"

fun bracketWith :: "bool \<Rightarrow> nat option list \<Rightarrow> code list \<Rightarrow> code list" where
  "bracketWith selfPackage (Some n # ns) (s # ss) =
     (case suppressHooksStmts selfPackage n of
        (before, after) \<Rightarrow> before @ s # after @ bracketWith selfPackage ns ss)"
| "bracketWith selfPackage (None # ns) (s # ss) = s # bracketWith selfPackage ns ss"
| "bracketWith selfPackage ns ss = ss"

definition bracketMarkedStmts :: "(code \<Rightarrow> bool) \<Rightarrow> bool \<Rightarrow> code list \<Rightarrow> nat \<Rightarrow> ignoreError + code list \<times> nat" where
  "bracketMarkedStmts marked selfPackage stmts nextFlag =
     (case guardNumbers marked stmts nextFlag of
        Inl e \<Rightarrow> Inl e
      | Inr (ns, n) \<Rightarrow> Inr (bracketWith selfPackage ns stmts, n))"

text \<open>
  \<open>findStmtLists\<close> with the loop over its lists: a block, a case and a communication clause have a
  list, which is taken before the lists inside its statements.
\<close>

definition stmtListOf :: "codeKind \<Rightarrow> code list \<Rightarrow> code list \<times> code list option" where
  "stmtListOf k cs =
     (case k of
        Stmt i decs BlockStmt \<Rightarrow> ([], Some cs)
      | Stmt i decs (CaseClause n) \<Rightarrow> (take n cs, Some (drop n cs))
      | Stmt i decs (CommClause n) \<Rightarrow> (take n cs, Some (drop n cs))
      | _ \<Rightarrow> (cs, None))"

definition listNumbers :: "(code \<Rightarrow> bool) \<Rightarrow> codeKind \<Rightarrow> code list \<Rightarrow> nat \<Rightarrow> ignoreError + nat option list \<times> nat" where
  "listNumbers marked k cs n = (case snd (stmtListOf k cs) of None \<Rightarrow> Inr ([], n) | Some stmts \<Rightarrow> guardNumbers marked stmts n)"

definition putBack :: "bool \<Rightarrow> codeKind \<Rightarrow> nat option list \<Rightarrow> code list \<Rightarrow> code list" where
  "putBack selfPackage k ns cs =
     (case stmtListOf k cs of
        (head, None) \<Rightarrow> head
      | (head, Some stmts) \<Rightarrow> head @ bracketWith selfPackage ns stmts)"

fun bracketCode :: "(code \<Rightarrow> bool) \<Rightarrow> bool \<Rightarrow> code \<Rightarrow> nat \<Rightarrow> ignoreError + code \<times> nat"
  and bracketAll :: "(code \<Rightarrow> bool) \<Rightarrow> bool \<Rightarrow> code list \<Rightarrow> nat \<Rightarrow> ignoreError + code list \<times> nat" where
  "bracketCode marked selfPackage (IdentN p x) n = Inr (IdentN p x, n)"
| "bracketCode marked selfPackage (LitN v) n = Inr (LitN v, n)"
| "bracketCode marked selfPackage (Node k cs) n =
     (case listNumbers marked k cs n of
        Inl e \<Rightarrow> Inl e
      | Inr (ns, n1) \<Rightarrow>
          (case bracketAll marked selfPackage cs n1 of
             Inl e \<Rightarrow> Inl e
           | Inr (cs', n2) \<Rightarrow> Inr (Node k (putBack selfPackage k ns cs'), n2)))"
| "bracketAll marked selfPackage [] n = Inr ([], n)"
| "bracketAll marked selfPackage (c # cs) n =
     (case bracketCode marked selfPackage c n of
        Inl e \<Rightarrow> Inl e
      | Inr (c', n1) \<Rightarrow>
          (case bracketAll marked selfPackage cs n1 of
             Inl e \<Rightarrow> Inl e
           | Inr (cs', n2) \<Rightarrow> Inr (c' # cs', n2)))"

text \<open>A declaration; the body of a function is a block.\<close>

definition bracketDecl :: "(code \<Rightarrow> bool) \<Rightarrow> bool \<Rightarrow> topDecl \<Rightarrow> nat \<Rightarrow> ignoreError + topDecl \<times> nat" where
  "bracketDecl marked selfPackage d n =
     (case bracketAll marked selfPackage (tdHead d) n of
        Inl e \<Rightarrow> Inl e
      | Inr (hs, n1) \<Rightarrow>
          (case tdBody d of
             None \<Rightarrow> Inr (d\<lparr>tdHead := hs\<rparr>, n1)
           | Some stmts \<Rightarrow>
               (case guardNumbers marked stmts n1 of
                  Inl e \<Rightarrow> Inl e
                | Inr (ns, n2) \<Rightarrow>
                    (case bracketAll marked selfPackage stmts n2 of
                       Inl e \<Rightarrow> Inl e
                     | Inr (stmts', n3) \<Rightarrow>
                         Inr (d\<lparr>tdHead := hs, tdBody := Some (bracketWith selfPackage ns stmts')\<rparr>, n3)))))"

fun bracketDecls :: "(code \<Rightarrow> bool) \<Rightarrow> bool \<Rightarrow> topDecl list \<Rightarrow> nat \<Rightarrow> ignoreError + topDecl list \<times> nat" where
  "bracketDecls marked selfPackage [] n = Inr ([], n)"
| "bracketDecls marked selfPackage (d # ds) n =
     (case bracketDecl marked selfPackage d n of
        Inl e \<Rightarrow> Inl e
      | Inr (d', n1) \<Rightarrow>
          (case bracketDecls marked selfPackage ds n1 of
             Inl e \<Rightarrow> Inl e
           | Inr (ds', n2) \<Rightarrow> Inr (d' # ds', n2)))"

definition applyIgnoredCallSites ::
    "nameResolver \<Rightarrow> resolver \<Rightarrow> string list \<Rightarrow> dstFile \<Rightarrow> topDecl list \<Rightarrow> compileStep \<Rightarrow>
     ignoreError + bool \<times> dstFile \<times> topDecl list \<times> compileStep \<times> (string \<times> stringMap) option" where
  "applyIgnoredCallSites pkgName resolve compileArgs root decls step =
     (let ds = identify decls;
          marked = markedIgnoredStmts ds;
          selfPackage = (findFlagValue compileArgs ''-p'' = suppressHooksPackage)
      in if marked = [] then Inr (False, root, decls, step, None)
         else case bracketDecls (isMarked marked) selfPackage ds 0 of
                Inl e \<Rightarrow> Inl e
              | Inr (ds', n) \<Rightarrow>
                  if n = 0 then Inr (False, root, decls, step, None)
                  else if selfPackage then Inr (True, root, ds', step, None)
                  else case addRuleImports pkgName resolve step root [(suppressHooksPackage, suppressHooksPackage)] of
                         Inl e \<Rightarrow> Inl (SuppressImport e)
                       | Inr (root', step', out) \<Rightarrow> Inr (True, root', ds', step', out))"
section \<open>Running a list\<close>

text \<open>
  The goroutine's counter, the variables of the running function by address, the addresses of the
  names in scope, and the flags that its deferred fallbacks look at, the last one first
\<close>

record callFrame =
  cfCount :: int
  cfVars :: "nat \<Rightarrow> bool"
  cfFresh :: nat
  cfEnv :: "string \<Rightarrow> nat"
  cfDeferred :: "nat list"

definition HooksSuppressed :: "int \<Rightarrow> bool" where
  "HooksSuppressed n \<longleftrightarrow> n > 0"

datatype hookStep =
    SuppressHooks
  | UnsuppressHooks
  | Declare string
  | SetDone string
  | DeferUnless string

fun doStep :: "hookStep \<Rightarrow> callFrame \<Rightarrow> callFrame" where
  "doStep SuppressHooks f = f\<lparr>cfCount := cfCount f + 1\<rparr>"
| "doStep UnsuppressHooks f = f\<lparr>cfCount := cfCount f - 1\<rparr>"
| "doStep (Declare x) f =
     f\<lparr>cfVars := (cfVars f)(cfFresh f := False), cfEnv := (cfEnv f)(x := cfFresh f), cfFresh := Suc (cfFresh f)\<rparr>"
| "doStep (SetDone x) f = f\<lparr>cfVars := (cfVars f)(cfEnv f x := True)\<rparr>"
| "doStep (DeferUnless x) f = f\<lparr>cfDeferred := cfEnv f x # cfDeferred f\<rparr>"

text \<open>What a generated statement does; a statement of the file has an address and is none.\<close>

definition meaningOf :: "bool \<Rightarrow> code \<Rightarrow> hookStep option" where
  "meaningOf selfPackage c =
     (if stmtId c \<noteq> None then None
      else if c = exprStmt (suppressHooksCall ''SuppressHooks'' selfPackage) then Some SuppressHooks
      else if c = exprStmt (suppressHooksCall ''UnsuppressHooks'' selfPackage) then Some UnsuppressHooks
      else case c of
        Node k [IdentN p x, v] \<Rightarrow>
          if c = defineFlag x then Some (Declare x) else if c = setFlag x then Some (SetDone x) else None
      | Node k [Node (Call i e) [Node FuncLit [t, Node b [Node s [Node op [IdentN p x], t']]]]] \<Rightarrow>
          if c = deferFallback selfPackage x then Some (DeferUnless x) else None
      | _ \<Rightarrow> None)"

datatype outcome = Finished | Abandoned

text \<open>
  A list is run; the statements of the file with the counter when each starts are recorded.
  A statement that panics, returns or jumps abandons the list.
\<close>

type_synonym runner = "code \<Rightarrow> callFrame \<Rightarrow> outcome \<times> callFrame"

fun runList :: "bool \<Rightarrow> runner \<Rightarrow> code list \<Rightarrow> callFrame \<Rightarrow> outcome \<times> callFrame \<times> (code \<times> int) list" where
  "runList selfPackage out [] f = (Finished, f, [])"
| "runList selfPackage out (s # ss) f =
     (case meaningOf selfPackage s of
        Some step \<Rightarrow> runList selfPackage out ss (doStep step f)
      | None \<Rightarrow>
          (case out s f of
             (Abandoned, f') \<Rightarrow> (Abandoned, f', [(s, cfCount f)])
           | (Finished, f') \<Rightarrow>
               (case runList selfPackage out ss f' of (r, f'', trail) \<Rightarrow> (r, f'', (s, cfCount f) # trail))))"

text \<open>The names of a block go out of scope at its end.\<close>

definition runBlock :: "bool \<Rightarrow> runner \<Rightarrow> code list \<Rightarrow> callFrame \<Rightarrow> outcome \<times> callFrame \<times> (code \<times> int) list" where
  "runBlock selfPackage out ss f =
     (case runList selfPackage out ss f of (r, f', trail) \<Rightarrow> (r, f'\<lparr>cfEnv := cfEnv f\<rparr>, trail))"

text \<open>When the function is left, the deferred fallbacks run.\<close>

definition leaveFunction :: "callFrame \<Rightarrow> callFrame" where
  "leaveFunction f =
     (foldl (\<lambda>f a. if \<not> cfVars f a then f\<lparr>cfCount := cfCount f - 1\<rparr> else f) f (cfDeferred f))\<lparr>cfDeferred := []\<rparr>"

section \<open>Balance\<close>

definition unset :: "(nat \<Rightarrow> bool) \<Rightarrow> nat list \<Rightarrow> int" where
  "unset vars as = int (length (filter (\<lambda>a. \<not> vars a) as))"

definition dueCount :: "callFrame \<Rightarrow> int" where
  "dueCount f = cfCount f - unset (cfVars f) (cfDeferred f)"

definition validFrame :: "callFrame \<Rightarrow> bool" where
  "validFrame f \<longleftrightarrow> set (cfDeferred f) \<subseteq> {..<cfFresh f}"

text \<open>What the statements of a program do to the frame: they leave the variables there are alone,
  and owe the counter only what their own fallbacks pay back.\<close>

definition balanced :: "callFrame \<Rightarrow> outcome \<Rightarrow> callFrame \<Rightarrow> bool" where
  "balanced f r f' \<longleftrightarrow> cfFresh f \<le> cfFresh f' \<and> (\<forall>a < cfFresh f. cfVars f' a = cfVars f a) \<and>
     (\<exists>new. cfDeferred f' = new @ cfDeferred f \<and> set new \<subseteq> {cfFresh f..<cfFresh f'}) \<and>
     dueCount f' = dueCount f \<and> (r = Finished \<longrightarrow> cfCount f' = cfCount f)"

definition steady :: "callFrame \<Rightarrow> outcome \<Rightarrow> callFrame \<Rightarrow> bool" where
  "steady f r f' \<longleftrightarrow> balanced f r f' \<and> cfEnv f' = cfEnv f"

definition steadyRunner :: "runner \<Rightarrow> bool" where
  "steadyRunner out \<longleftrightarrow> (\<forall>s f. validFrame f \<longrightarrow> (case out s f of (r, f') \<Rightarrow> steady f r f'))"

lemma unset_simps [simp]:
  "unset vars [] = 0" "unset vars (a # as) = (if vars a then 0 else 1) + unset vars as"
  "unset vars (as @ bs) = unset vars as + unset vars bs"
  by (simp_all add: unset_def)

lemma unset_cong: "(\<And>a. a \<in> set as \<Longrightarrow> v a = w a) \<Longrightarrow> unset v as = unset w as"
  by (simp add: unset_def cong: filter_cong)

lemma leaveFunction_due: "cfCount (leaveFunction f) = dueCount f"
proof -
  let ?g = "\<lambda>f a. if \<not> cfVars f a then f\<lparr>cfCount := cfCount f - 1\<rparr> else f"
  have "cfVars (foldl ?g f as) = cfVars f \<and> cfCount (foldl ?g f as) = cfCount f - unset (cfVars f) as" for as
    by (induction as arbitrary: f) auto
  then show ?thesis by (simp add: leaveFunction_def dueCount_def)
qed

lemma balanced_valid:
  assumes "balanced f r f'" and "validFrame f"
  shows "validFrame f'"
proof -
  obtain new where "cfDeferred f' = new @ cfDeferred f" "set new \<subseteq> {cfFresh f..<cfFresh f'}" "cfFresh f \<le> cfFresh f'"
    using assms(1) by (auto simp: balanced_def)
  with assms(2) show ?thesis unfolding validFrame_def by fastforce
qed

lemma balanced_refl: "balanced f Finished f"
  by (simp add: balanced_def)

lemma balanced_trans:
  assumes "balanced f Finished g" and "balanced g r h"
  shows "balanced f r h"
proof -
  obtain new1 new2 where "cfDeferred g = new1 @ cfDeferred f" "set new1 \<subseteq> {cfFresh f..<cfFresh g}"
    and "cfDeferred h = new2 @ cfDeferred g" "set new2 \<subseteq> {cfFresh g..<cfFresh h}"
    and "cfFresh f \<le> cfFresh g" "cfFresh g \<le> cfFresh h"
    using assms by (auto simp: balanced_def)
  then have "cfDeferred h = (new2 @ new1) @ cfDeferred f \<and> set (new2 @ new1) \<subseteq> {cfFresh f..<cfFresh h}"
    by fastforce
  then show ?thesis using assms unfolding balanced_def by auto
qed

text \<open>The statements put around a marked one\<close>

lemma meaning_generated:
  "meaningOf selfPackage (exprStmt (suppressHooksCall ''SuppressHooks'' selfPackage)) = Some SuppressHooks"
  "meaningOf selfPackage (exprStmt (suppressHooksCall ''UnsuppressHooks'' selfPackage)) = Some UnsuppressHooks"
  "meaningOf selfPackage (defineFlag x) = Some (Declare x)"
  "meaningOf selfPackage (setFlag x) = Some (SetDone x)"
  "meaningOf selfPackage (deferFallback selfPackage x) = Some (DeferUnless x)"
  by (simp_all add: meaningOf_def stmtId_def exprStmt_def suppressHooksCall_def defineFlag_def setFlag_def
      deferFallback_def blockOf_def)

lemma meaning_file: "stmtId s \<noteq> None \<Longrightarrow> meaningOf selfPackage s = None"
  by (simp add: meaningOf_def)

definition enterMarked :: "string \<Rightarrow> callFrame \<Rightarrow> callFrame" where
  "enterMarked x f = doStep (DeferUnless x) (doStep (Declare x) (doStep SuppressHooks f))"

definition exitMarked :: "string \<Rightarrow> callFrame \<Rightarrow> callFrame" where
  "exitMarked x f = doStep UnsuppressHooks (doStep (SetDone x) f)"

lemma run_marked:
  assumes "suppressHooksStmts selfPackage n = (before, after)" and "stmtId s \<noteq> None"
  shows "runList selfPackage out (before @ s # after @ rest) f =
    (case out s (enterMarked (guardName n) f) of
       (Abandoned, g) \<Rightarrow> (Abandoned, g, [(s, cfCount f + 1)])
     | (Finished, g) \<Rightarrow>
         (case runList selfPackage out rest (exitMarked (guardName n) g) of
            (r, h, trail) \<Rightarrow> (r, h, (s, cfCount f + 1) # trail)))"
  using assms(1) meaning_file [OF assms(2), of selfPackage]
  by (auto simp: suppressHooksStmts_def Let_def meaning_generated enterMarked_def exitMarked_def
      split: prod.split outcome.split)

lemma enterMarked_frame:
  "cfCount (enterMarked x f) = cfCount f + 1" "cfFresh (enterMarked x f) = Suc (cfFresh f)"
  "cfVars (enterMarked x f) = (cfVars f)(cfFresh f := False)" "cfDeferred (enterMarked x f) = cfFresh f # cfDeferred f"
  "cfEnv (enterMarked x f) = (cfEnv f)(x := cfFresh f)"
  by (simp_all add: enterMarked_def)

lemma enterMarked_valid: "validFrame f \<Longrightarrow> validFrame (enterMarked x f)"
  by (auto simp: validFrame_def enterMarked_frame)

text \<open>A marked statement, abandoned or not\<close>

lemma marked_balanced:
  assumes "validFrame f" and "steady (enterMarked x f) r g"
  shows "balanced f Abandoned g" and "r = Finished \<Longrightarrow> balanced f Finished (exitMarked x g)"
proof -
  let ?e = "enterMarked x f"
  obtain new where new: "cfDeferred g = new @ cfFresh f # cfDeferred f" "set new \<subseteq> {Suc (cfFresh f)..<cfFresh g}"
    and fresh: "Suc (cfFresh f) \<le> cfFresh g"
    and vars: "\<forall>a < Suc (cfFresh f). cfVars g a = ((cfVars f)(cfFresh f := False)) a"
    and due: "dueCount g = dueCount ?e" and env: "cfEnv g x = cfFresh f" and fin: "r = Finished \<longrightarrow> cfCount g = cfCount f + 1"
    using assms(2) by (auto simp: steady_def balanced_def enterMarked_frame)
  have old: "unset ((cfVars f)(cfFresh f := False)) (cfDeferred f) = unset (cfVars f) (cfDeferred f)"
    by (rule unset_cong) (use assms(1) in \<open>auto simp: validFrame_def\<close>)
  have "dueCount ?e = dueCount f" by (simp add: dueCount_def enterMarked_frame old)
  with due have due_f: "dueCount g = dueCount f" by simp
  have new': "set (new @ [cfFresh f]) \<subseteq> {cfFresh f..<cfFresh g}" using new(2) fresh by fastforce
  show "balanced f Abandoned g" unfolding balanced_def
    using due_f fresh vars new(1) new' by (auto intro!: exI [of _ "new @ [cfFresh f]"])
  assume "r = Finished"
  then have count: "cfCount g = cfCount f + 1" using fin by simp
  let ?h = "exitMarked x g"
  have h: "cfCount ?h = cfCount f" "cfFresh ?h = cfFresh g" "cfDeferred ?h = cfDeferred g"
    "cfVars ?h = (cfVars g)(cfFresh f := True)"
    by (simp_all add: exitMarked_def count env)
  have u: "unset (cfVars ?h) new = unset (cfVars g) new"
    by (rule unset_cong) (use new(2) in \<open>auto simp: h\<close>)
  have v: "unset (cfVars ?h) (cfDeferred f) = unset (cfVars g) (cfDeferred f)"
    by (rule unset_cong) (use assms(1) in \<open>auto simp: h validFrame_def\<close>)
  have "dueCount ?h = dueCount g"
    using vars by (simp add: dueCount_def h(1,3) new(1) u v count) (simp add: h(4))
  then show "balanced f Finished ?h" unfolding balanced_def
    using due_f fresh vars new(1) new' h by (auto intro!: exI [of _ "new @ [cfFresh f]"])
qed

text \<open>A statement and the counter it starts with\<close>

definition startCount :: "int \<Rightarrow> code \<times> nat option \<Rightarrow> code \<times> int" where
  "startCount c e = (fst e, if snd e = None then c else c + 1)"

lemma startCount_simps [simp]: "startCount c (s, None) = (s, c)" "startCount c (s, Some i) = (s, c + 1)"
  by (simp_all add: startCount_def)

lemma bracketed_list:
  "length ns = length ss \<Longrightarrow> \<forall>s \<in> set ss. stmtId s \<noteq> None \<Longrightarrow> validFrame f \<Longrightarrow> steadyRunner out \<Longrightarrow>
     runList selfPackage out (bracketWith selfPackage ns ss) f = (r, f', trail) \<Longrightarrow>
     balanced f r f' \<and> trail = map (startCount (cfCount f)) (take (length trail) (zip ss ns)) \<and>
     (r = Finished \<longrightarrow> length trail = length ss)"
proof (induction ns ss arbitrary: f trail rule: list_induct2)
  case Nil
  then show ?case by (simp add: balanced_refl)
next
  case (Cons n ns s ss)
  have ids: "\<forall>s \<in> set ss. stmtId s \<noteq> None" using Cons.prems(1) by simp
  have out: "steady g r' g'" if "validFrame g" "out s g = (r', g')" for g r' g'
  proof -
    have "case out s g of (r', g') \<Rightarrow> steady g r' g'" using Cons.prems(3) that(1) by (simp add: steadyRunner_def)
    then show ?thesis by (simp add: that(2))
  qed
  show ?case
  proof (cases n)
    case None
    then have m: "meaningOf selfPackage s = None" using meaning_file Cons.prems(1) by simp
    obtain r1 g where o: "out s f = (r1, g)" by fastforce
    note st = out [OF Cons.prems(2) o]
    show ?thesis
    proof (cases r1)
      case Abandoned
      with Cons.prems(4) None m o st show ?thesis by (auto simp: steady_def balanced_def)
    next
      case Finished
      obtain trail1 where h: "runList selfPackage out (bracketWith selfPackage ns ss) g = (r, f', trail1)"
        and eq: "trail = (s, cfCount f) # trail1"
        using Cons.prems(4) None m o Finished by (auto split: prod.splits)
      have b: "balanced f Finished g" using st Finished by (simp add: steady_def)
      with Cons.IH [OF ids balanced_valid [OF b Cons.prems(2)] Cons.prems(3) h]
      have "balanced g r f' \<and> trail1 = map (startCount (cfCount g)) (take (length trail1) (zip ss ns)) \<and>
          (r = Finished \<longrightarrow> length trail1 = length ss)" by simp
      with balanced_trans [OF b] b eq None show ?thesis by (simp add: balanced_def [of f Finished])
    qed
  next
    case (Some i)
    obtain before after where ba: "suppressHooksStmts selfPackage i = (before, after)" by fastforce
    let ?e = "enterMarked (guardName i) f"
    obtain r1 g where o: "out s ?e = (r1, g)" by fastforce
    note st = out [OF enterMarked_valid [OF Cons.prems(2)] o]
    have run: "runList selfPackage out (before @ s # after @ bracketWith selfPackage ns ss) f = (r, f', trail)"
      using Cons.prems(4) Some ba by simp
    note run1 = run [unfolded run_marked [OF ba, of s, OF bspec [OF Cons.prems(1) list.set_intros(1)]] o prod.case]
    show ?thesis
    proof (cases r1)
      case Abandoned
      with run1 have "r = Abandoned" "f' = g" "trail = [(s, cfCount f + 1)]" by auto
      with marked_balanced(1) [OF Cons.prems(2) st] Some show ?thesis by simp
    next
      case Finished
      let ?x = "exitMarked (guardName i) g"
      obtain trail1 where h: "runList selfPackage out (bracketWith selfPackage ns ss) ?x = (r, f', trail1)"
        and eq: "trail = (s, cfCount f + 1) # trail1"
        using run1 Finished by (auto split: prod.splits)
      note b = marked_balanced(2) [OF Cons.prems(2) st Finished]
      with Cons.IH [OF ids balanced_valid [OF b Cons.prems(2)] Cons.prems(3) h]
      have "balanced ?x r f' \<and> trail1 = map (startCount (cfCount ?x)) (take (length trail1) (zip ss ns)) \<and>
          (r = Finished \<longrightarrow> length trail1 = length ss)" by simp
      with balanced_trans [OF b] b eq Some show ?thesis by (simp add: balanced_def [of f Finished])
    qed
  qed
qed
section \<open>Properties\<close>

lemma guardNumbers_marks:
  "guardNumbers marked ss n = Inr (ns, m) \<Longrightarrow> list_all2 (\<lambda>s x. x \<noteq> None \<longleftrightarrow> marked s) ss ns"
proof (induction ss arbitrary: n ns)
  case (Cons s ss)
  then show ?case by (cases "guardNumbers marked ss n"; cases "guardNumbers marked ss (Suc n)") (auto split: if_splits)
qed simp

lemma runBlock_balanced: "balanced f r g \<Longrightarrow> steady f r (g\<lparr>cfEnv := cfEnv f\<rparr>)"
  by (simp add: steady_def balanced_def dueCount_def)

text \<open>C34: the brackets switch hooks off for exactly the marked statements. When a list of statements
  runs after the bracketing, each marked one starts with hooks suppressed and every other one with
  the counter the list started with; the statements run in their order. When the function is left,
  the counter is what it would have been at the start of the list, also when a statement panics.
  So a list is itself a statement that keeps the balance its own statements need.\<close>

theorem bracketed_suppression:
  assumes "bracketMarkedStmts marked selfPackage stmts n = Inr (stmts', m)"
    and "\<forall>s \<in> set stmts. stmtId s \<noteq> None" and "steadyRunner out" and "validFrame f" and "0 \<le> cfCount f"
    and "runBlock selfPackage out stmts' f = (r, f', trail)"
  shows "steady f r f' \<and> cfCount (leaveFunction f') = cfCount (leaveFunction f) \<and>
    map fst trail = take (length trail) stmts \<and>
    (r = Finished \<longrightarrow> length trail = length stmts) \<and>
    (\<forall>(s, c) \<in> set trail. if marked s then HooksSuppressed c else c = cfCount f)"
proof -
  obtain ns where ns: "guardNumbers marked stmts n = Inr (ns, m)" and stmts': "stmts' = bracketWith selfPackage ns stmts"
    using assms(1) by (auto simp: bracketMarkedStmts_def split: sum.splits)
  note marks = guardNumbers_marks [OF ns]
  then have len: "length ns = length stmts" by (simp add: list_all2_lengthD)
  obtain g where g: "runList selfPackage out stmts' f = (r, g, trail)" and f': "f' = g\<lparr>cfEnv := cfEnv f\<rparr>"
    using assms(6) by (auto simp: runBlock_def split: prod.splits)
  from bracketed_list [OF len assms(2,4,3) g [unfolded stmts']]
  have b: "balanced f r g" and trail: "trail = map (startCount (cfCount f)) (take (length trail) (zip stmts ns))"
    and fin: "r = Finished \<longrightarrow> length trail = length stmts" by auto
  have st: "steady f r f'" unfolding f' by (rule runBlock_balanced [OF b])
  then have "dueCount f' = dueCount f" by (simp add: steady_def balanced_def)
  then have leave: "cfCount (leaveFunction f') = cfCount (leaveFunction f)" by (simp add: leaveFunction_due)
  have "map fst (map (startCount (cfCount f)) (take (length trail) (zip stmts ns))) = take (length trail) stmts"
    using len by (simp add: startCount_def comp_def take_map [symmetric])
  with trail have order: "map fst trail = take (length trail) stmts" by simp
  have "if marked s then HooksSuppressed c else c = cfCount f" if sc: "(s, c) \<in> set trail" for s c
  proof -
    have "(s, c) \<in> startCount (cfCount f) ` set (take (length trail) (zip stmts ns))"
      using sc trail by (metis set_map)
    then obtain x where x: "(s, x) \<in> set (zip stmts ns)" and c: "(s, c) = startCount (cfCount f) (s, x)"
      by (auto simp: startCount_def dest: in_set_takeD)
    from x marks have "x \<noteq> None \<longleftrightarrow> marked s" by (auto simp: list_all2_iff)
    with c assms(5) show ?thesis by (cases x) (auto simp: HooksSuppressed_def)
  qed
  with st leave order fin show ?thesis by auto
qed

definition panicRunner :: runner where
  "panicRunner s f = (if stmtId s = Some 2 then Abandoned else Finished, f)"

definition plainStmt :: "nat \<Rightarrow> code" where
  "plainStmt i = Node (Stmt (Some i) [] (PlainStmt ''ExprStmt'')) [Node (Call (Some (i + 10)) False) [IdentN [] ''f'']]"

definition markSecond :: "code \<Rightarrow> bool" where
  "markSecond s \<longleftrightarrow> stmtId s = Some 2"

definition startFrame :: callFrame where
  "startFrame = \<lparr>cfCount = 0, cfVars = (\<lambda>_. False), cfFresh = 0, cfEnv = (\<lambda>_. 0), cfDeferred = []\<rparr>"

definition sampleBlock :: "code list" where
  "sampleBlock = bracketWith False [None, Some 0, None] [plainStmt 1, plainStmt 2, plainStmt 3]"

theorem bracketed_suppression_witness:
  "snd (snd (runBlock False panicRunner sampleBlock startFrame)) = [(plainStmt 1, 0), (plainStmt 2, 1)] \<and>
   cfCount (leaveFunction (fst (snd (runBlock False panicRunner sampleBlock startFrame)))) = 0"
proof -
  have b: "bracketMarkedStmts markSecond False [plainStmt 1, plainStmt 2, plainStmt 3] 0 = Inr (sampleBlock, 1)"
    by code_simp
  have s: "steadyRunner panicRunner"
    by (simp add: steadyRunner_def panicRunner_def steady_def balanced_def)
  obtain r f' trail where r: "runBlock False panicRunner sampleBlock startFrame = (r, f', trail)" by (metis prod_cases3)
  have t: "snd (snd (runBlock False panicRunner sampleBlock startFrame)) = [(plainStmt 1, 0), (plainStmt 2, 1)]" by code_simp
  have i: "\<forall>s \<in> set [plainStmt 1, plainStmt 2, plainStmt 3]. stmtId s \<noteq> None" by (simp add: stmtId_def plainStmt_def)
  have v: "validFrame startFrame" "0 \<le> cfCount startFrame" "cfCount (leaveFunction startFrame) = 0"
    by (simp_all add: validFrame_def startFrame_def leaveFunction_def)
  from bracketed_suppression [OF b i s v(1,2) r] r t v(3) show ?thesis by simp
qed

end
