(* ===== verification/Instrument_Package.thy ===== *)
theory Instrument_Package
  imports Code_Rules Literal_Rules Ignored_Calls Match_Deps
begin

text \<open>
  The compile step of an instrumented package: \<open>instrument.go\<close>, \<open>match.go\<close> and \<open>apply_file.go\<close> of
  \<open>tool/internal/instrument\<close>, with \<open>applyFuncRule\<close> and the writing of files of \<open>apply_func.go\<close> and
  \<open>interceptCompile\<close> of \<open>toolexec.go\<close>.

  The rules of the package are grouped by file, each file is parsed, its rules are applied one after
  the other, and a file that a rule changed is written to the working directory and takes the place
  of the original in the compile command.

  Raw, directive, declaration, call and literal rules and ignored calls are those of the other
  theories. Building a trampoline, its optimisation and struct rules work on other views of a file;
  they are parameters here, as are the file system and the parser.
\<close>

section \<open>The state of a compile step\<close>

type_synonym sourceFile = "dstFile \<times> topDecl list"

datatype written = CopyOf string | Instrumented sourceFile | Added dstFile | Globals string "topDecl list"

text \<open>
  \<open>'j\<close> is what trampolines keep: jumps to optimise, declarations for the globals file, hook files.
  The lists of files written and of tracked imports are in the order of writing.
\<close>

record 'j packagePhase =
  ppWorkDir :: string
  ppArgs :: "string list"
  ppStep :: compileStep
  ppLoaded :: bool
  ppInfo :: "methodTable option"
  ppApplied :: "string list"
  ppUsesIgnore :: bool
  ppTrampolines :: 'j
  ppWritten :: "(string \<times> written) list"
  ppTracked :: "(string \<times> stringMap) list"

record 'j packageTools =
  ptRules :: ruleTools
  ptMethods :: methodTools
  ptCrc32 :: "string \<Rightarrow> string"
  ptRead :: "string \<Rightarrow> string option"
  ptParse :: "(string \<times> written) list \<Rightarrow> string \<Rightarrow> sourceFile option"
  ptParseSource :: "string \<Rightarrow> dstFile option"
  ptWritable :: "string \<Rightarrow> bool"
  ptStruct :: "InstStructRule \<Rightarrow> sourceFile \<Rightarrow> compileStep \<Rightarrow> codeError + dstFile \<times> topDecl list \<times> compileStep \<times> (string \<times> stringMap) option"
  ptStart :: "sourceFile \<Rightarrow> 'j \<Rightarrow> 'j"
  ptInsertTJump :: "InstFuncRule \<Rightarrow> funcDecl \<Rightarrow> sourceFile \<Rightarrow> 'j \<Rightarrow> (sourceFile \<times> 'j) option"
  ptOptimize :: "sourceFile \<Rightarrow> 'j \<Rightarrow> (sourceFile \<times> 'j) option"
  ptVarDecls :: "'j \<Rightarrow> topDecl list"
  ptTemplateAPI :: string

datatype phaseError =
    ParseFailed string
  | LookupFailed string
  | FuncNotFound string
  | FuncImports importError
  | TrampolineFailed string
  | CodeFailed codeError
  | CallRuleFailed callRuleError
  | LitRuleFailed litError
  | IgnoreFailed ignoreError
  | Unreachable
  | OptimizeFailed string
  | WriteFailed string
  | NoAbsolute string
  | NotReplaced string string
  | RuleFileMissing string
  | RuleFileSyntax string
  | FileImports importError
  | GlobalsFailed string
  | MissingFlag string
  | ConfigUnreadable string
  | NoRules string
  | RulesUnreadable string
  | RulesSyntax
  | NamesUnreadable string
  | NamesSyntax

definition isSuppressHooksPackage :: "'j packagePhase \<Rightarrow> bool" where
  "isSuppressHooksPackage ip \<longleftrightarrow> findFlagValue (ppArgs ip) ''-p'' = suppressHooksPackage"

text \<open>The step after its imports were updated\<close>

definition putStep :: "compileStep \<Rightarrow> (string \<times> stringMap) option \<Rightarrow> 'j packagePhase \<Rightarrow> 'j packagePhase" where
  "putStep step out ip =
     ip\<lparr>ppStep := step, ppTracked := ppTracked ip @ (case out of None \<Rightarrow> [] | Some t \<Rightarrow> [t])\<rparr>"

section \<open>Grouping rules by file\<close>

text \<open>
  The entries of the maps of a rule set are in the order in which the loop visits them. A file
  without rules has an entry if it has ignored calls.
\<close>

definition placeOf :: "(string \<times> string) list \<Rightarrow> string \<Rightarrow> string \<Rightarrow> string" where
  "placeOf cgoMap workDir path =
     (case map_of cgoMap path of Some cgoBase \<Rightarrow> pathJoin [workDir, cgoBase] | None \<Rightarrow> path)"

definition addRulesToMap ::
    "('r \<Rightarrow> InstRule) \<Rightarrow> (string \<times> string) list \<Rightarrow> string \<Rightarrow> 'r rulesMap \<Rightarrow> InstRule rulesMap \<Rightarrow> InstRule rulesMap" where
  "addRulesToMap inst cgoMap workDir source file2rules =
     foldl (\<lambda>m (path, rules). foldl (\<lambda>m r. appendRule (placeOf cgoMap workDir path) (inst r) m) m rules) file2rules source"

definition addIgnoredCallFilesToMap ::
    "(string \<times> string) list \<Rightarrow> string \<Rightarrow> string list \<Rightarrow> InstRule rulesMap \<Rightarrow> InstRule rulesMap" where
  "addIgnoredCallFilesToMap cgoMap workDir paths file2rules =
     foldl (\<lambda>m path. let f = placeOf cgoMap workDir path in if map_of m f = None then m @ [(f, [])] else m) file2rules paths"

definition groupRules :: "string \<Rightarrow> InstRuleSet \<Rightarrow> InstRule rulesMap \<times> string list" where
  "groupRules workDir rset =
     (let cgo = rsCgoFileMap rset;
          m1 = addRulesToMap FuncRule cgo workDir (rsFuncRules rset) [];
          m2 = addRulesToMap StructRule cgo workDir (rsStructRules rset) m1;
          m3 = addRulesToMap RawRule cgo workDir (rsRawRules rset) m2;
          m4 = addRulesToMap CallRule cgo workDir (rsCallRules rset) m3;
          m5 = addRulesToMap LitRule cgo workDir (rsLitRules rset) m4;
          m6 = addRulesToMap DirectiveRule cgo workDir (rsDirectiveRules rset) m5;
          m7 = addRulesToMap DeclRule cgo workDir (rsDeclRules rset) m6;
          file2rules = addIgnoredCallFilesToMap cgo workDir (rsIgnoredCallFiles rset) m7
      in (file2rules, sort (map fst file2rules)))"

section \<open>Applying a rule\<close>

definition applyFuncRule ::
    "'j packageTools \<Rightarrow> InstFuncRule \<Rightarrow> funcDecl option \<Rightarrow> sourceFile \<Rightarrow> 'j packagePhase \<Rightarrow>
     phaseError + bool \<times> sourceFile \<times> 'j packagePhase" where
  "applyFuncRule T r target src ip =
     (let (root, decls) = src; pkgName = rtPkgName (ptRules T); resolve = rtResolve (ptRules T)
      in case target of
           None \<Rightarrow> Inl (FuncNotFound (frFunc r))
         | Some f \<Rightarrow>
             if funcLeadHasDirective f directiveIgnore then Inr (False, (root, decls), ip)
             else case addRuleImports pkgName resolve (ppStep ip) root
                         (usedRuleImports (concat (map declCode decls)) (ruleImports r) (\<lambda>_. None)) of
               Inl e \<Rightarrow> Inl (FuncImports e)
             | Inr (root1, step1, out1) \<Rightarrow>
                 (case (if ppUsesIgnore ip \<and> \<not> isSuppressHooksPackage ip
                        then addRuleImports pkgName resolve step1 root1 [(suppressHooksPackage, suppressHooksPackage)]
                        else Inr (root1, step1, None)) of
                    Inl e \<Rightarrow> Inl (FuncImports e)
                  | Inr (root2, step2, out2) \<Rightarrow>
                      let ip2 = putStep step2 out2 (putStep step1 out1 ip); ident = funcIdentity (ptCrc32 T) r
                      in if ident \<in> set (ppApplied ip2) then Inr (True, (root2, decls), ip2)
                         else case ptInsertTJump T r f (root2, decls) (ppTrampolines ip2) of
                           None \<Rightarrow> Inl (TrampolineFailed (frFunc r))
                         | Some (src, jumps) \<Rightarrow>
                             Inr (True, src, ip2\<lparr>ppTrampolines := jumps, ppApplied := ident # ppApplied ip2\<rparr>)))"

record ruleResult =
  resNeedsGlobals :: bool
  resModified :: bool

text \<open>The method calls a rule asks about are those of the package as the command has it at first use.\<close>

definition callPhase :: "'j packagePhase \<Rightarrow> methodPhase" where
  "callPhase ip = \<lparr>mpCompileArgs = ppArgs ip, mpConfig = csConfig (ppStep ip), mpLoaded = ppLoaded ip, mpInfo = ppInfo ip\<rparr>"

definition changedBy ::
    "bool \<Rightarrow> bool \<Rightarrow> 'j packagePhase \<Rightarrow> dstFile \<times> topDecl list \<times> compileStep \<times> (string \<times> stringMap) option \<Rightarrow>
     ruleResult \<times> sourceFile \<times> 'j packagePhase" where
  "changedBy needsGlobals modified ip = (\<lambda>(root, decls, step, out).
     (\<lparr>resNeedsGlobals = needsGlobals, resModified = modified\<rparr>, (root, decls), putStep step out ip))"

fun applyOneRule ::
    "'j packageTools \<Rightarrow> InstRule \<Rightarrow> funcDecl option \<Rightarrow> sourceFile \<Rightarrow> 'j packagePhase \<Rightarrow>
     phaseError + ruleResult \<times> sourceFile \<times> 'j packagePhase" where
  "applyOneRule T (FuncRule r) target src ip =
     map_sum id (\<lambda>(modified, rest). (\<lparr>resNeedsGlobals = modified, resModified = modified\<rparr>, rest)) (applyFuncRule T r target src ip)"
| "applyOneRule T (StructRule r) target src ip =
     map_sum CodeFailed (changedBy False True ip) (ptStruct T r src (ppStep ip))"
| "applyOneRule T (DeclRule r) target src ip =
     map_sum CodeFailed (changedBy False True ip) (applyDeclRule (ptRules T) r (fst src) (snd src) (ppStep ip))"
| "applyOneRule T (RawRule r) target src ip =
     map_sum CodeFailed (changedBy True True ip) (applyRawRule (ptRules T) (ptCrc32 T) r (fst src) (snd src) (ppStep ip))"
| "applyOneRule T (CallRule r) target src ip =
     map_sum CallRuleFailed (\<lambda>(modified, root, decls, (step, out), calls).
         changedBy False modified (ip\<lparr>ppLoaded := mpLoaded calls, ppInfo := mpInfo calls\<rparr>) (root, decls, step, out))
       (applyCallRule (rtCode (ptRules T)) (ptMethods T) (rtPkgName (ptRules T)) (rtImportNames (ptRules T))
          (rtResolve (ptRules T)) r (fst src) (snd src) (ppStep ip) (callPhase ip))"
| "applyOneRule T (LitRule r) target src ip =
     map_sum LitRuleFailed (\<lambda>(modified, res). changedBy False modified ip res)
       (applyLitRule (rtCode (ptRules T)) (rtPkgName (ptRules T)) (rtImportNames (ptRules T)) (rtResolve (ptRules T))
          r (fst src) (snd src) (ppStep ip))"
| "applyOneRule T (DirectiveRule r) target src ip =
     map_sum CodeFailed (\<lambda>(needsGlobals, res). changedBy needsGlobals True ip res)
       (applyDirectiveRule (ptRules T) (ptCrc32 T) r (fst src) (snd src) (ppStep ip))"
| "applyOneRule T (FileRule r) target src ip = Inl Unreachable"

definition directiveInstrument :: string where
  "directiveInstrument = ''otelc:instrument''"

fun skipRuleForFileIgnore :: "InstRule \<Rightarrow> funcDecl option \<Rightarrow> bool" where
  "skipRuleForFileIgnore (FuncRule r) target =
     (case target of None \<Rightarrow> True | Some f \<Rightarrow> \<not> funcLeadHasDirective f directiveInstrument)"
| "skipRuleForFileIgnore r target = True"

definition rsetHasMethodCallRule :: "InstRuleSet \<Rightarrow> bool" where
  "rsetHasMethodCallRule rset \<longleftrightarrow> list_ex (\<lambda>(path, rules). list_ex (\<lambda>r. crMethodCall r \<noteq> []) rules) (rsCallRules rset)"

section \<open>A file\<close>

fun replaceArg :: "(string \<Rightarrow> string option) \<Rightarrow> string \<Rightarrow> string \<Rightarrow> string list \<Rightarrow> phaseError + string list" where
  "replaceArg absolute oldFile newFile [] = Inl (NotReplaced oldFile newFile)"
| "replaceArg absolute oldFile newFile (arg # args) =
     (case absolute arg of
        None \<Rightarrow> Inl (NoAbsolute arg)
      | Some p \<Rightarrow> if p = oldFile then Inr (newFile # args)
                  else map_sum id (Cons arg) (replaceArg absolute oldFile newFile args))"

definition newFileFor :: "'j packagePhase \<Rightarrow> string \<Rightarrow> string" where
  "newFileFor ip oldFile = pathJoin [ppWorkDir ip, pathBase oldFile]"

definition writeFile :: "'j packageTools \<Rightarrow> string \<Rightarrow> written \<Rightarrow> 'j packagePhase \<Rightarrow> phaseError + 'j packagePhase" where
  "writeFile T path content ip =
     (if ptWritable T path then Inr (ip\<lparr>ppWritten := ppWritten ip @ [(path, content)]\<rparr>) else Inl (WriteFailed path))"

definition writeInstrumented :: "'j packageTools \<Rightarrow> sourceFile \<Rightarrow> string \<Rightarrow> 'j packagePhase \<Rightarrow> phaseError + 'j packagePhase" where
  "writeInstrumented T src oldFile ip =
     (let newFile = newFileFor ip oldFile
      in case (if hasSuffix oldFile ''.cgo1.go'' then writeFile T (cgoVetSourcePath oldFile) (CopyOf oldFile) ip else Inr ip) of
           Inl e \<Rightarrow> Inl e
         | Inr ip1 \<Rightarrow>
             (case writeFile T newFile (Instrumented src) ip1 of
                Inl e \<Rightarrow> Inl e
              | Inr ip2 \<Rightarrow>
                  map_sum id (\<lambda>args. ip2\<lparr>ppArgs := args\<rparr>) (replaceArg (mtAbs (ptMethods T)) oldFile newFile (ppArgs ip2))))"

definition parseFileOf :: "'j packageTools \<Rightarrow> string \<Rightarrow> 'j packagePhase \<Rightarrow> phaseError + sourceFile \<times> 'j packagePhase" where
  "parseFileOf T path ip =
     (case ptParse T (ppWritten ip) path of
        None \<Rightarrow> Inl (ParseFailed path)
      | Some src \<Rightarrow> Inr (src, ip\<lparr>ppTrampolines := ptStart T src (ppTrampolines ip)\<rparr>))"

text \<open>What the loop over the rules of a file carries\<close>

record 'j filePhase =
  fpHasFuncRule :: bool
  fpModified :: bool
  fpSource :: sourceFile
  fpPhase :: "'j packagePhase"

definition lookupFor :: "'j packageTools \<Rightarrow> InstRule \<Rightarrow> dstFile \<Rightarrow> string + funcDecl option" where
  "lookupFor T r root =
     (case r of FuncRule fr \<Rightarrow> FindFuncDecl root (SelectFunc fr) (rtImportNames (ptRules T)) | _ \<Rightarrow> Inr None)"

definition fileStep :: "'j packageTools \<Rightarrow> bool \<Rightarrow> InstRule \<Rightarrow> 'j filePhase \<Rightarrow> phaseError + 'j filePhase" where
  "fileStep T fileIgnored r fp =
     (case lookupFor T r (fst (fpSource fp)) of
        Inl e \<Rightarrow> Inl (LookupFailed e)
      | Inr target \<Rightarrow>
          if fileIgnored \<and> skipRuleForFileIgnore r target then Inr fp
          else map_sum id (\<lambda>(res, src, ip).
                 \<lparr>fpHasFuncRule = (fpHasFuncRule fp \<or> resNeedsGlobals res), fpModified = (fpModified fp \<or> resModified res),
                  fpSource = src, fpPhase = ip\<rparr>)
                 (applyOneRule T r target (fpSource fp) (fpPhase fp)))"

definition instrumentFile ::
    "'j packageTools \<Rightarrow> string \<Rightarrow> InstRule list \<Rightarrow> 'j packagePhase \<Rightarrow> phaseError + bool \<times> 'j packagePhase" where
  "instrumentFile T path rules ip0 =
     (case parseFileOf T path ip0 of
        Inl e \<Rightarrow> Inl e
      | Inr (src, ip1) \<Rightarrow>
          (case foldOK (fileStep T (fileHasLeadingDirective (fst src) directiveIgnore)) rules
                  \<lparr>fpHasFuncRule = False, fpModified = False, fpSource = src, fpPhase = ip1\<rparr> of
             Inl e \<Rightarrow> Inl e
           | Inr fp \<Rightarrow>
               (case applyIgnoredCallSites (rtPkgName (ptRules T)) (rtResolve (ptRules T)) (ppArgs (fpPhase fp))
                       (fst (fpSource fp)) (snd (fpSource fp)) (ppStep (fpPhase fp)) of
                  Inl e \<Rightarrow> Inl (IgnoreFailed e)
                | Inr (sitesModified, root, decls, step, out) \<Rightarrow>
                    let ip2 = putStep step out (fpPhase fp)
                    in if \<not> fpModified fp \<and> \<not> sitesModified then Inr (fpHasFuncRule fp, ip2)
                       else case ptOptimize T (root, decls) (ppTrampolines ip2) of
                         None \<Rightarrow> Inl (OptimizeFailed path)
                       | Some (src', jumps) \<Rightarrow>
                           map_sum id (Pair (fpHasFuncRule fp)) (writeInstrumented T src' path (ip2\<lparr>ppTrampolines := jumps\<rparr>)))))"

section \<open>File rules and the globals file\<close>

text \<open>\<open>constraint.IsGoBuild\<close> of the standard library\<close>

definition isGoBuild :: "string \<Rightarrow> bool" where
  "isGoBuild line =
     (let l = (if line \<noteq> [] \<and> last line = CHR 0x0A then butlast line else line);
          rest = drop (length ''//go:build'') (trimSpace l)
      in CHR 0x0A \<notin> set l \<and> hasPrefix l ''//go:build'' \<and> (rest = [] \<or> length rest \<noteq> length (trimSpace rest)))"

definition stripBuildIgnoreTag :: "string \<Rightarrow> string" where
  "stripBuildIgnoreTag content =
     joinWith [CHR 0x0A] (map (\<lambda>line. if isGoBuild line then [] else line) (splitOn (CHR 0x0A) content))"

definition fileRuleTarget :: "'j packagePhase \<Rightarrow> InstFileRule \<Rightarrow> string" where
  "fileRuleTarget ip r =
     (let base = pathBase (flFile r) in pathJoin [ppWorkDir ip, ''otelc.'' @ trimSuffix base (pathExt base) @ ''.go''])"

definition addCompileArg :: "string \<Rightarrow> 'j packagePhase \<Rightarrow> 'j packagePhase" where
  "addCompileArg newArg ip = ip\<lparr>ppArgs := ppArgs ip @ [newArg]\<rparr>"

definition applyFileRule :: "'j packageTools \<Rightarrow> string \<Rightarrow> InstFileRule \<Rightarrow> 'j packagePhase \<Rightarrow> phaseError + 'j packagePhase" where
  "applyFileRule T pkgName r ip =
     (let path = pathJoin [flResolvedPath r, flFile r]
      in case ptRead T path of
           None \<Rightarrow> Inl (RuleFileMissing path)
         | Some data \<Rightarrow>
             (case ptParseSource T (stripBuildIgnoreTag data) of
                None \<Rightarrow> Inl (RuleFileSyntax path)
              | Some parsed \<Rightarrow>
                  let root = parsed\<lparr>fileName := pkgName\<rparr>; newFile = fileRuleTarget ip r
                  in case updateImportConfigForFile (rtPkgName (ptRules T)) (rtResolve (ptRules T)) (ppStep ip) root of
                       Inl e \<Rightarrow> Inl (FileImports e)
                     | Inr (step, out) \<Rightarrow>
                         map_sum id (addCompileArg newFile) (writeFile T newFile (Added root) (putStep step out ip))))"

definition otelcGlobalsFile :: string where
  "otelcGlobalsFile = ''otelc.globals.go''"

definition globalsPath :: "'j packagePhase \<Rightarrow> string" where
  "globalsPath ip = pathJoin [ppWorkDir ip, otelcGlobalsFile]"

definition writeGlobals :: "'j packageTools \<Rightarrow> string \<Rightarrow> 'j packagePhase \<Rightarrow> phaseError + 'j packagePhase" where
  "writeGlobals T pkgName ip =
     (case ptParseSource T (''package '' @ pkgName) of
        None \<Rightarrow> Inl (GlobalsFailed pkgName)
      | Some header \<Rightarrow>
          (case rtSource (ptRules T) (ptTemplateAPI T) of
             None \<Rightarrow> Inl (GlobalsFailed pkgName)
           | Some api \<Rightarrow>
               map_sum id (addCompileArg (globalsPath ip))
                 (writeFile T (globalsPath ip) (Globals (fileName header) (ptVarDecls T (ppTrampolines ip) @ api)) ip)))"

section \<open>The package\<close>

definition ensurePhase :: "'j packageTools \<Rightarrow> 'j packagePhase \<Rightarrow> 'j packagePhase" where
  "ensurePhase T ip =
     (let calls = snd (ensureMethodCallInfo (ptMethods T) (callPhase ip)) in ip\<lparr>ppLoaded := mpLoaded calls, ppInfo := mpInfo calls\<rparr>)"

definition instrumentNext ::
    "'j packageTools \<Rightarrow> InstRule rulesMap \<Rightarrow> string \<Rightarrow> bool \<times> 'j packagePhase \<Rightarrow> phaseError + bool \<times> 'j packagePhase" where
  "instrumentNext T file2rules path st =
     (case instrumentFile T path (rulesAt file2rules path) (snd st) of
        Inl e \<Rightarrow> Inl e
      | Inr (fileHasFuncRule, ip) \<Rightarrow> Inr (fst st \<or> fileHasFuncRule, ip))"

definition instrument :: "'j packageTools \<Rightarrow> InstRuleSet \<Rightarrow> 'j packagePhase \<Rightarrow> phaseError + 'j packagePhase" where
  "instrument T rset ip =
     (case foldOK (applyFileRule T (rsPackageName rset)) (rsFileRules rset) ip of
        Inl e \<Rightarrow> Inl e
      | Inr ip1 \<Rightarrow>
          let ip2 = (if rsetHasMethodCallRule rset then ensurePhase T ip1 else ip1);
              (file2rules, paths) = groupRules (ppWorkDir ip2) rset
          in case foldOK (instrumentNext T file2rules) paths (False, ip2) of
               Inl e \<Rightarrow> Inl e
             | Inr (hasFuncRule, ip3) \<Rightarrow> if hasFuncRule then writeGlobals T (rsPackageName rset) ip3 else Inr ip3)"

section \<open>The compile command\<close>

datatype loadedFile = Missing | Unreadable | Content string

definition load :: "(string \<Rightarrow> InstRuleSet list option) \<Rightarrow> string \<Rightarrow> loadedFile \<Rightarrow> phaseError + InstRuleSet list" where
  "load unmarshal path f =
     (case f of
        Missing \<Rightarrow> Inl (NoRules path)
      | Unreadable \<Rightarrow> Inl (RulesUnreadable path)
      | Content c \<Rightarrow> (case unmarshal c of None \<Rightarrow> Inl RulesSyntax | Some sets \<Rightarrow> Inr sets))"

definition loadImportNames :: "(string \<Rightarrow> stringMap option) \<Rightarrow> string \<Rightarrow> loadedFile \<Rightarrow> phaseError + stringMap" where
  "loadImportNames unmarshal path f =
     (case f of
        Missing \<Rightarrow> Inr []
      | Unreadable \<Rightarrow> Inl (NamesUnreadable path)
      | Content c \<Rightarrow> (case unmarshal c of None \<Rightarrow> Inl NamesSyntax | Some names \<Rightarrow> Inr names))"

definition anyRuleSetHasIgnoredCallFiles :: "InstRuleSet list \<Rightarrow> bool" where
  "anyRuleSetHasIgnoredCallFiles allSet \<longleftrightarrow> list_ex (\<lambda>rset. rsIgnoredCallFiles rset \<noteq> []) allSet"

definition matchSet :: "InstRuleSet list \<Rightarrow> string list \<Rightarrow> phaseError + InstRuleSet option" where
  "matchSet allSet args =
     (let importPath = findFlagValue args ''-p''
      in if importPath = [] then Inl (MissingFlag ''-p'')
         else Inr (List.find (\<lambda>rset. rsModulePath rset = importPath) allSet))"

text \<open>
  The environment of the process: the configuration read from a path, the rules and the table of
  names of the setup, and the chain of nested builds.
\<close>

record 'j compileEnv =
  ceConfig :: "string \<Rightarrow> importConfig option"
  ceRules :: loadedFile
  ceRulesPath :: string
  ceUnmarshalRules :: "string \<Rightarrow> InstRuleSet list option"
  ceNames :: loadedFile
  ceNamesPath :: string
  ceUnmarshalNames :: "string \<Rightarrow> stringMap option"
  ceChain :: "string option"
  ceTrampolines :: 'j

definition withNames :: "stringMap \<Rightarrow> 'j packageTools \<Rightarrow> 'j packageTools" where
  "withNames names T = T\<lparr>ptRules := (ptRules T)\<lparr>rtImportNames := map_of names\<rparr>\<rparr>"

definition newPhase :: "'j compileEnv \<Rightarrow> string list \<Rightarrow> phaseError + 'j packagePhase" where
  "newPhase E args =
     (let target = findFlagValue args ''-o''; importCfgPath = findFlagValue args ''-importcfg'';
          phase = (\<lambda>config. \<lparr>ppWorkDir = pathDir target, ppArgs = args,
            ppStep = \<lparr>csPackage = findFlagValue args ''-p'', csConfigPath = importCfgPath, csConfig = config, csEnv = ceChain E\<rparr>,
            ppLoaded = False, ppInfo = None, ppApplied = [], ppUsesIgnore = False, ppTrampolines = ceTrampolines E,
            ppWritten = [], ppTracked = []\<rparr>)
      in if target = [] then Inl (MissingFlag ''-o'')
         else if importCfgPath = [] then Inr (phase emptyConfig)
         else case ceConfig E importCfgPath of None \<Rightarrow> Inl (ConfigUnreadable importCfgPath) | Some config \<Rightarrow> Inr (phase config))"

definition interceptCompile ::
    "'j packageTools \<Rightarrow> 'j compileEnv \<Rightarrow> string list \<Rightarrow> phaseError + string list \<times> 'j packagePhase" where
  "interceptCompile T E args =
     (case newPhase E args of
        Inl e \<Rightarrow> Inl e
      | Inr ip \<Rightarrow>
          (case load (ceUnmarshalRules E) (ceRulesPath E) (ceRules E) of
             Inl e \<Rightarrow> Inl e
           | Inr allSet \<Rightarrow>
               let ip1 = ip\<lparr>ppUsesIgnore := anyRuleSetHasIgnoredCallFiles allSet\<rparr>
               in case loadImportNames (ceUnmarshalNames E) (ceNamesPath E) (ceNames E) of
                    Inl e \<Rightarrow> Inl e
                  | Inr names \<Rightarrow>
                      (case matchSet allSet args of
                         Inl e \<Rightarrow> Inl e
                       | Inr matched \<Rightarrow>
                           if ruleSetIsEmpty matched then Inr (ppArgs ip1, ip1)
                           else map_sum id (\<lambda>ip2. (stripCompleteFlag (ppArgs ip2), ip2))
                                  (instrument (withNames names T) (the matched) ip1))))"

section \<open>What the command becomes\<close>

definition sameFiles :: "'j packagePhase \<Rightarrow> 'j packagePhase \<Rightarrow> bool" where
  "sameFiles ip ip' \<longleftrightarrow> ppWorkDir ip' = ppWorkDir ip \<and> ppArgs ip' = ppArgs ip \<and> ppWritten ip' = ppWritten ip"

lemma sameFiles_refl [simp]: "sameFiles ip ip"
  by (simp add: sameFiles_def)

lemma sameFiles_trans: "sameFiles a b \<Longrightarrow> sameFiles b c \<Longrightarrow> sameFiles a c"
  by (simp add: sameFiles_def)

lemma sameFiles_update [simp]:
  "sameFiles ip (putStep step out ip') \<longleftrightarrow> sameFiles ip ip'"
  "sameFiles ip (ip'\<lparr>ppTrampolines := j\<rparr>) \<longleftrightarrow> sameFiles ip ip'"
  "sameFiles ip (ip'\<lparr>ppApplied := a\<rparr>) \<longleftrightarrow> sameFiles ip ip'"
  "sameFiles ip (ip'\<lparr>ppLoaded := l\<rparr>) \<longleftrightarrow> sameFiles ip ip'"
  "sameFiles ip (ip'\<lparr>ppInfo := i\<rparr>) \<longleftrightarrow> sameFiles ip ip'"
  by (simp_all add: sameFiles_def putStep_def)

text \<open>The rules whose code needs the globals file\<close>

fun injects :: "InstRule \<Rightarrow> bool" where
  "injects (FuncRule r) = True"
| "injects (RawRule r) = True"
| "injects (DirectiveRule r) = True"
| "injects r = False"

lemma map_sum_InrE: "map_sum f g x = Inr y \<longleftrightarrow> (\<exists>z. x = Inr z \<and> y = g z)"
  by (cases x) auto

lemma applyFuncRule_same: "applyFuncRule T r target src ip = Inr (m, src', ip') \<Longrightarrow> sameFiles ip ip'"
  by (auto simp: applyFuncRule_def Let_def split: option.splits sum.splits if_splits prod.splits)

lemma applyOneRule_same:
  "applyOneRule T r target src ip = Inr (res, src', ip') \<Longrightarrow> sameFiles ip ip' \<and> (resNeedsGlobals res \<longrightarrow> injects r)"
  by (cases r) (auto simp: map_sum_InrE changedBy_def applyFuncRule_same split: prod.splits)

lemma fileStep_same:
  "fileStep T ign r fp = Inr fp' \<Longrightarrow>
     sameFiles (fpPhase fp) (fpPhase fp') \<and> (fpHasFuncRule fp' \<longrightarrow> fpHasFuncRule fp \<or> injects r)"
  by (auto simp: fileStep_def map_sum_Inr split: sum.splits if_splits dest: applyOneRule_same)

lemma fileSteps_same:
  "foldOK (fileStep T ign) rules fp = Inr fp' \<Longrightarrow>
     sameFiles (fpPhase fp) (fpPhase fp') \<and> (fpHasFuncRule fp' \<longrightarrow> fpHasFuncRule fp \<or> (\<exists>r \<in> set rules. injects r))"
proof (induction rules arbitrary: fp)
  case (Cons r rules)
  then obtain fp1 where "fileStep T ign r fp = Inr fp1" "foldOK (fileStep T ign) rules fp1 = Inr fp'"
    by (auto split: sum.splits)
  with Cons.IH [of fp1] fileStep_same [of T ign r fp fp1] show ?case by (auto intro: sameFiles_trans)
qed simp

text \<open>The first argument that names a file, replaced\<close>

fun swapFirst :: "(string \<Rightarrow> string option) \<Rightarrow> string \<Rightarrow> string \<Rightarrow> string list \<Rightarrow> string list" where
  "swapFirst absolute old new [] = []"
| "swapFirst absolute old new (a # as) = (if absolute a = Some old then new # as else a # swapFirst absolute old new as)"

lemma replaceArg_swap:
  "replaceArg absolute old new args = Inr args' \<Longrightarrow> args' = swapFirst absolute old new args \<and> Some old \<in> absolute ` set args"
  by (induction args arbitrary: args') (auto simp: map_sum_Inr split: option.splits if_splits)

definition instrumentedPaths :: "(string \<times> written) list \<Rightarrow> string list" where
  "instrumentedPaths ws = map fst (filter (\<lambda>(p, w). case w of Instrumented src \<Rightarrow> True | _ \<Rightarrow> False) ws)"

lemma instrumentedPaths_simps [simp]:
  "instrumentedPaths [] = []"
  "instrumentedPaths (xs @ ys) = instrumentedPaths xs @ instrumentedPaths ys"
  "instrumentedPaths [(p, Instrumented src)] = [p]"
  "instrumentedPaths [(p, CopyOf q)] = []"
  "instrumentedPaths [(p, Added root)] = []"
  "instrumentedPaths [(p, Globals pkg ds)] = []"
  by (simp_all add: instrumentedPaths_def)

lemma writeFile_Inr:
  "writeFile T path content ip = Inr ip' \<longleftrightarrow> ptWritable T path \<and> ip' = ip\<lparr>ppWritten := ppWritten ip @ [(path, content)]\<rparr>"
  by (auto simp: writeFile_def)

definition swapAll :: "(string \<Rightarrow> string option) \<Rightarrow> 'j packagePhase \<Rightarrow> string list \<Rightarrow> string list \<Rightarrow> string list" where
  "swapAll absolute ip paths args = foldl (\<lambda>as p. swapFirst absolute p (newFileFor ip p) as) args paths"

lemma writeInstrumented_swaps:
  assumes "writeInstrumented T src path ip = Inr ip'"
  shows "ppWorkDir ip' = ppWorkDir ip \<and> ppArgs ip' = swapAll (mtAbs (ptMethods T)) ip [path] (ppArgs ip) \<and>
    instrumentedPaths (ppWritten ip') = instrumentedPaths (ppWritten ip) @ [newFileFor ip path]"
proof -
  obtain ip1 where ip1: "(if hasSuffix path ''.cgo1.go'' then writeFile T (cgoVetSourcePath path) (CopyOf path) ip else Inr ip) = Inr ip1"
    using assms by (auto simp: writeInstrumented_def Let_def split: sum.splits)
  then have same: "ppWorkDir ip1 = ppWorkDir ip" "ppArgs ip1 = ppArgs ip"
      "instrumentedPaths (ppWritten ip1) = instrumentedPaths (ppWritten ip)"
    by (auto simp: writeFile_Inr split: if_splits)
  obtain ip2 args where ip2: "writeFile T (newFileFor ip path) (Instrumented src) ip1 = Inr ip2"
    and args: "replaceArg (mtAbs (ptMethods T)) path (newFileFor ip path) (ppArgs ip2) = Inr args" "ip' = ip2\<lparr>ppArgs := args\<rparr>"
    using assms ip1 by (auto simp: writeInstrumented_def Let_def map_sum_Inr split: sum.splits)
  show ?thesis
    using ip2 args(2) same replaceArg_swap [OF args(1)] by (auto simp: writeFile_Inr swapAll_def)
qed

lemma instrumentFile_effect:
  assumes "instrumentFile T path rules ip = Inr (needs, ip')"
  shows "ppWorkDir ip' = ppWorkDir ip \<and> (needs \<longrightarrow> (\<exists>r \<in> set rules. injects r)) \<and>
    (\<exists>ws. (ws = [] \<or> ws = [path]) \<and> ppArgs ip' = swapAll (mtAbs (ptMethods T)) ip ws (ppArgs ip) \<and>
      instrumentedPaths (ppWritten ip') = instrumentedPaths (ppWritten ip) @ map (newFileFor ip) ws)"
proof -
  obtain src ip1 where parsed: "parseFileOf T path ip = Inr (src, ip1)"
    using assms by (auto simp: instrumentFile_def split: sum.splits)
  have ip1: "sameFiles ip ip1"
    using parsed by (auto simp: parseFileOf_def split: option.splits)
  let ?fold = "foldOK (fileStep T (fileHasLeadingDirective (fst src) directiveIgnore)) rules
      \<lparr>fpHasFuncRule = False, fpModified = False, fpSource = src, fpPhase = ip1\<rparr>"
  obtain fp where fold: "?fold = Inr fp"
    using assms parsed by (cases ?fold) (simp_all add: instrumentFile_def)
  then have fp: "sameFiles ip (fpPhase fp)" "fpHasFuncRule fp \<longrightarrow> (\<exists>r \<in> set rules. injects r)"
    using fileSteps_same [OF fold] ip1 by (auto intro: sameFiles_trans)
  obtain sites root decls step out where calls: "applyIgnoredCallSites (rtPkgName (ptRules T)) (rtResolve (ptRules T)) (ppArgs (fpPhase fp))
      (fst (fpSource fp)) (snd (fpSource fp)) (ppStep (fpPhase fp)) = Inr (sites, root, decls, step, out)"
    using assms parsed fold by (auto simp: instrumentFile_def split: sum.splits)
  let ?ip2 = "putStep step out (fpPhase fp)"
  show ?thesis
  proof (cases "\<not> fpModified fp \<and> \<not> sites")
    case True
    then have "needs = fpHasFuncRule fp" "ip' = ?ip2"
      using assms parsed fold calls by (auto simp: instrumentFile_def Let_def)
    moreover have "sameFiles ip ?ip2" using fp(1) by simp
    ultimately show ?thesis using fp(2) by (auto simp: sameFiles_def swapAll_def)
  next
    case False
    then obtain src' jumps where w: "writeInstrumented T src' path (?ip2\<lparr>ppTrampolines := jumps\<rparr>) = Inr ip'" "needs = fpHasFuncRule fp"
      using assms parsed fold calls
      by (auto simp: instrumentFile_def Let_def map_sum_Inr split: option.splits if_splits)
    have "sameFiles ip (?ip2\<lparr>ppTrampolines := jumps\<rparr>)" using fp(1) by simp
    then show ?thesis
      using writeInstrumented_swaps [OF w(1)] w(2) fp(2) unfolding sameFiles_def swapAll_def newFileFor_def
      by (intro conjI exI [of _ "[path]"]) auto
  qed
qed

lemma swapAll_cong: "ppWorkDir ip' = ppWorkDir ip \<Longrightarrow> swapAll ab ip' ws = swapAll ab ip ws"
  by (simp add: swapAll_def newFileFor_def fun_eq_iff)

lemma newFileFor_cong: "ppWorkDir ip' = ppWorkDir ip \<Longrightarrow> newFileFor ip' = newFileFor ip"
  by (simp add: newFileFor_def fun_eq_iff)

lemma fileRuleTarget_cong: "ppWorkDir ip' = ppWorkDir ip \<Longrightarrow> fileRuleTarget ip' = fileRuleTarget ip"
  by (simp add: fileRuleTarget_def fun_eq_iff)

lemma swapAll_append: "swapAll ab ip (vs @ ws) as = swapAll ab ip ws (swapAll ab ip vs as)"
  by (simp add: swapAll_def)

lemma instrumentNext_Inr:
  "instrumentNext T m p st = Inr st' \<longleftrightarrow>
     (\<exists>has ip. instrumentFile T p (rulesAt m p) (snd st) = Inr (has, ip) \<and> st' = (fst st \<or> has, ip))"
  by (auto simp: instrumentNext_def split: sum.splits)

lemma files_effect:
  "foldOK (instrumentNext T m) paths (b, ip) = Inr (needs, ip') \<Longrightarrow>
    ppWorkDir ip' = ppWorkDir ip \<and> (needs \<longrightarrow> b \<or> (\<exists>p \<in> set paths. \<exists>r \<in> set (rulesAt m p). injects r)) \<and>
    (\<exists>ws. subseq ws paths \<and> ppArgs ip' = swapAll (mtAbs (ptMethods T)) ip ws (ppArgs ip) \<and>
      instrumentedPaths (ppWritten ip') = instrumentedPaths (ppWritten ip) @ map (newFileFor ip) ws)"
proof (induction paths arbitrary: b ip)
  case (Cons p paths)
  then obtain st1 where st1: "instrumentNext T m p (b, ip) = Inr st1" "foldOK (instrumentNext T m) paths st1 = Inr (needs, ip')"
    by (auto split: sum.splits)
  then obtain has ip1 where step: "instrumentFile T p (rulesAt m p) ip = Inr (has, ip1)"
    and rest: "foldOK (instrumentNext T m) paths (b \<or> has, ip1) = Inr (needs, ip')"
    by (auto simp: instrumentNext_Inr)
  let ?ab = "mtAbs (ptMethods T)"
  obtain vs where vs: "vs = [] \<or> vs = [p]" "ppArgs ip1 = swapAll ?ab ip vs (ppArgs ip)"
      "instrumentedPaths (ppWritten ip1) = instrumentedPaths (ppWritten ip) @ map (newFileFor ip) vs"
    and dir: "ppWorkDir ip1 = ppWorkDir ip" and has: "has \<longrightarrow> (\<exists>r \<in> set (rulesAt m p). injects r)"
    using instrumentFile_effect [OF step] by blast
  obtain ws where ws: "subseq ws paths" "ppArgs ip' = swapAll ?ab ip1 ws (ppArgs ip1)"
      "instrumentedPaths (ppWritten ip') = instrumentedPaths (ppWritten ip1) @ map (newFileFor ip1) ws"
    and dir': "ppWorkDir ip' = ppWorkDir ip1"
    and needs: "needs \<longrightarrow> b \<or> has \<or> (\<exists>q \<in> set paths. \<exists>r \<in> set (rulesAt m q). injects r)"
    using Cons.IH [OF rest] by blast
  have "subseq (vs @ ws) (p # paths)" using vs(1) ws(1) by auto
  then show ?case
    using dir dir' has needs vs(2,3) ws(2,3) swapAll_cong [OF dir, of ?ab ws] newFileFor_cong [OF dir]
    by (intro conjI exI [of _ "vs @ ws"]) (auto simp: swapAll_append)
qed (auto simp: swapAll_def)

lemma fileRules_effect:
  "foldOK (applyFileRule T pkgName) rules ip = Inr ip' \<Longrightarrow>
     ppWorkDir ip' = ppWorkDir ip \<and> ppArgs ip' = ppArgs ip @ map (fileRuleTarget ip) rules \<and>
     instrumentedPaths (ppWritten ip') = instrumentedPaths (ppWritten ip)"
proof (induction rules arbitrary: ip)
  case (Cons r rules)
  then obtain ip1 where ip1: "applyFileRule T pkgName r ip = Inr ip1" "foldOK (applyFileRule T pkgName) rules ip1 = Inr ip'"
    by (auto split: sum.splits)
  then have "ppWorkDir ip1 = ppWorkDir ip" "ppArgs ip1 = ppArgs ip @ [fileRuleTarget ip r]"
      "instrumentedPaths (ppWritten ip1) = instrumentedPaths (ppWritten ip)"
    by (auto simp: applyFileRule_def addCompileArg_def putStep_def Let_def writeFile_Inr split: option.splits sum.splits)
  then show ?case using Cons.IH [OF ip1(2)] fileRuleTarget_cong [of ip1 ip] by simp
qed simp

lemma ensurePhase_same: "sameFiles ip (ensurePhase T ip)"
  by (simp add: ensurePhase_def Let_def)

lemma writeGlobals_effect:
  "writeGlobals T pkgName ip = Inr ip' \<Longrightarrow> ppArgs ip' = ppArgs ip @ [globalsPath ip] \<and>
     instrumentedPaths (ppWritten ip') = instrumentedPaths (ppWritten ip)"
  by (auto simp: writeGlobals_def addCompileArg_def writeFile_Inr split: option.splits)

text \<open>The rules of a set whose code needs the globals file, by the file they are for\<close>

definition commandAfter ::
    "'j packageTools \<Rightarrow> InstRuleSet \<Rightarrow> 'j packagePhase \<Rightarrow> string list \<Rightarrow> bool \<Rightarrow> string list" where
  "commandAfter T rset ip ws needs =
     swapAll (mtAbs (ptMethods T)) ip ws (ppArgs ip @ map (fileRuleTarget ip) (rsFileRules rset)) @
     (if needs then [globalsPath ip] else [])"

lemma instrument_command:
  assumes "instrument T rset ip = Inr ip'"
  shows "\<exists>ws needs. subseq ws (snd (groupRules (ppWorkDir ip) rset)) \<and> ppArgs ip' = commandAfter T rset ip ws needs \<and>
    instrumentedPaths (ppWritten ip') = instrumentedPaths (ppWritten ip) @ map (newFileFor ip) ws \<and>
    (needs \<longrightarrow> (\<exists>p. \<exists>r \<in> set (rulesAt (fst (groupRules (ppWorkDir ip) rset)) p). injects r))"
proof -
  obtain ip1 where ip1: "foldOK (applyFileRule T (rsPackageName rset)) (rsFileRules rset) ip = Inr ip1"
    using assms by (auto simp: instrument_def split: sum.splits)
  define ip2 where "ip2 = (if rsetHasMethodCallRule rset then ensurePhase T ip1 else ip1)"
  have "sameFiles ip1 ip2" by (simp add: ip2_def ensurePhase_same)
  with fileRules_effect [OF ip1] have dir: "ppWorkDir ip2 = ppWorkDir ip"
    and args: "ppArgs ip2 = ppArgs ip @ map (fileRuleTarget ip) (rsFileRules rset)"
    and written: "instrumentedPaths (ppWritten ip2) = instrumentedPaths (ppWritten ip)"
    by (simp_all add: sameFiles_def)
  obtain m paths where g: "groupRules (ppWorkDir ip2) rset = (m, paths)" by fastforce
  obtain needs ip3 where fold: "foldOK (instrumentNext T m) paths (False, ip2) = Inr (needs, ip3)"
    and fin: "(if needs then writeGlobals T (rsPackageName rset) ip3 else Inr ip3) = Inr ip'"
    using assms ip1 g unfolding instrument_def by (auto simp: Let_def ip2_def split: sum.splits)
  obtain ws where ws: "subseq ws paths" "ppArgs ip3 = swapAll (mtAbs (ptMethods T)) ip2 ws (ppArgs ip2)"
      "instrumentedPaths (ppWritten ip3) = instrumentedPaths (ppWritten ip2) @ map (newFileFor ip2) ws"
      "ppWorkDir ip3 = ppWorkDir ip2" "needs \<longrightarrow> (\<exists>p \<in> set paths. \<exists>r \<in> set (rulesAt m p). injects r)"
    using files_effect [OF fold] by blast
  have "globalsPath ip3 = globalsPath ip" using ws(4) dir by (simp add: globalsPath_def)
  then have "ppArgs ip' = commandAfter T rset ip ws needs"
      "instrumentedPaths (ppWritten ip') = instrumentedPaths (ppWritten ip3)"
    using fin ws(2) args swapAll_cong [OF dir] writeGlobals_effect [of T "rsPackageName rset" ip3 ip']
    by (auto simp: commandAfter_def split: if_splits)
  then show ?thesis
    using ws(1,3,5) written newFileFor_cong [OF dir] g dir by (intro exI [of _ ws] exI [of _ needs]) auto
qed

text \<open>
  C15: the command that a compile step runs. Without rules for the package it is the command as it
  came. Otherwise exactly the files that were rewritten, in the order of their paths and each one a
  file of the rule set, are replaced by the new files of the working directory, each at its first
  occurrence; then come the files of the file rules in their order, and the globals file only if some rule of
  the set injects code that needs it; at last the first \<open>-complete\<close> is dropped. Nothing else changes.
\<close>

theorem compile_command:
  assumes "interceptCompile T E args = Inr (args', ip')"
  shows "\<exists>allSet ip. load (ceUnmarshalRules E) (ceRulesPath E) (ceRules E) = Inr allSet \<and> newPhase E args = Inr ip \<and> ppArgs ip = args \<and>
    (case List.find (\<lambda>rset. rsModulePath rset = findFlagValue args ''-p'') allSet of
       None \<Rightarrow> args' = args
     | Some rset \<Rightarrow>
         if ruleSetIsEmpty (Some rset) then args' = args
         else \<exists>ws needs. subseq ws (snd (groupRules (ppWorkDir ip) rset)) \<and>
           instrumentedPaths (ppWritten ip') = map (newFileFor ip) ws \<and>
           args' = stripCompleteFlag (commandAfter T rset ip ws needs) \<and>
           (needs \<longrightarrow> (\<exists>p. \<exists>r \<in> set (rulesAt (fst (groupRules (ppWorkDir ip) rset)) p). injects r)))"
proof -
  obtain ip where ip: "newPhase E args = Inr ip"
    using assms by (auto simp: interceptCompile_def split: sum.splits)
  obtain allSet where all: "load (ceUnmarshalRules E) (ceRulesPath E) (ceRules E) = Inr allSet"
    using assms ip by (auto simp: interceptCompile_def split: sum.splits)
  obtain names where names: "loadImportNames (ceUnmarshalNames E) (ceNamesPath E) (ceNames E) = Inr names"
    using assms ip all by (auto simp: interceptCompile_def Let_def split: sum.splits)
  obtain matched where m: "matchSet allSet args = Inr matched"
      "matched = List.find (\<lambda>rset. rsModulePath rset = findFlagValue args ''-p'') allSet"
    using assms ip all names by (cases "matchSet allSet args") (auto simp: interceptCompile_def Let_def matchSet_def split: if_splits)
  have start: "ppArgs ip = args" "ppWritten ip = []"
    using ip by (auto simp: newPhase_def Let_def split: if_splits option.splits)
  let ?ip1 = "ip\<lparr>ppUsesIgnore := anyRuleSetHasIgnoredCallFiles allSet\<rparr>"
  have run: "(if ruleSetIsEmpty matched then Inr (ppArgs ?ip1, ?ip1)
      else map_sum id (\<lambda>ip2. (stripCompleteFlag (ppArgs ip2), ip2)) (instrument (withNames names T) (the matched) ?ip1)) = Inr (args', ip')"
    using assms ip all names m(1) unfolding interceptCompile_def Let_def by simp
  show ?thesis
  proof (cases matched)
    case None
    then show ?thesis using run start all ip m(2) by (auto simp: ruleSetIsEmpty_def)
  next
    case (Some rset)
    have found: "List.find (\<lambda>rset. rsModulePath rset = findFlagValue args ''-p'') allSet = Some rset"
      using m(2) Some by simp
    show ?thesis
    proof (cases "ruleSetIsEmpty (Some rset)")
      case True
      then show ?thesis using run start all ip found Some by (intro exI [of _ allSet] exI [of _ ip]) simp
    next
      case False
      then have i: "instrument (withNames names T) rset ?ip1 = Inr ip'" "args' = stripCompleteFlag (ppArgs ip')"
        using run Some by auto
      have same: "newFileFor ?ip1 = newFileFor ip" "fileRuleTarget ?ip1 = fileRuleTarget ip" "ppWorkDir ?ip1 = ppWorkDir ip"
        by ((rule newFileFor_cong fileRuleTarget_cong)?, simp)+
      then have after: "commandAfter (withNames names T) rset ?ip1 = commandAfter T rset ip"
        by (intro ext) (simp add: commandAfter_def withNames_def swapAll_def globalsPath_def)
      obtain ws needs where "subseq ws (snd (groupRules (ppWorkDir ip) rset))" "ppArgs ip' = commandAfter T rset ip ws needs"
          "instrumentedPaths (ppWritten ip') = instrumentedPaths (ppWritten ?ip1) @ map (newFileFor ip) ws"
          "needs \<longrightarrow> (\<exists>p. \<exists>r \<in> set (rulesAt (fst (groupRules (ppWorkDir ip) rset)) p). injects r)"
        using instrument_command [OF i(1)] unfolding same after by blast
      then show ?thesis
        using False start all ip found i(2) by (intro exI [of _ allSet] exI [of _ ip]) auto
    qed
  qed
qed

section \<open>The groups do not depend on the order of maps\<close>

lemma rulesAt_addInner:
  "rulesAt (foldl (\<lambda>m r. appendRule g (inst r) m) m rules) f = rulesAt m f @ (if g = f then map inst rules else [])"
  by (induction rules arbitrary: m) auto

lemma keys_addInner:
  "fst ` set (foldl (\<lambda>m r. appendRule g (inst r) m) m rules) = fst ` set m \<union> (if rules = [] then {} else {g})"
  by (induction rules arbitrary: m) (auto simp: keys_appendRule)

lemma distinct_addInner:
  "distinct (map fst m) \<Longrightarrow> distinct (map fst (foldl (\<lambda>m r. appendRule g (inst r) m) m rules))"
  by (induction rules arbitrary: m) (auto simp: distinct_appendRule)

lemma rulesAt_addRulesToMap:
  "rulesAt (addRulesToMap inst cgo wd source m) f =
     rulesAt m f @ concat (map (\<lambda>(p, rules). if placeOf cgo wd p = f then map inst rules else []) source)"
  unfolding addRulesToMap_def by (induction source arbitrary: m) (auto simp: rulesAt_addInner)

text \<open>The files with rules of one kind\<close>

definition filesIn :: "'r rulesMap \<Rightarrow> string set" where
  "filesIn source = set (map fst (filter (\<lambda>e. snd e \<noteq> []) source))"

lemma filesIn_simps [simp]:
  "filesIn [] = {}"
  "filesIn ((p, rules) # source) = (if rules = [] then {} else {p}) \<union> filesIn source"
  by (simp_all add: filesIn_def)

lemma keys_addRulesToMap:
  "fst ` set (addRulesToMap inst cgo wd source m) = fst ` set m \<union> placeOf cgo wd ` filesIn source"
  unfolding addRulesToMap_def
proof (induction source arbitrary: m)
  case (Cons e source)
  then show ?case by (cases e) (auto simp: keys_addInner)
qed simp

lemma distinct_addRulesToMap:
  "distinct (map fst m) \<Longrightarrow> distinct (map fst (addRulesToMap inst cgo wd source m))"
  unfolding addRulesToMap_def by (induction source arbitrary: m) (auto simp: distinct_addInner)

lemma rulesAt_none: "map_of m f = None \<Longrightarrow> rulesAt m f = []"
  by (simp add: rulesAt_def)

lemma addIgnored:
  "rulesAt (addIgnoredCallFilesToMap cgo wd paths m) f = rulesAt m f"
  "fst ` set (addIgnoredCallFilesToMap cgo wd paths m) = fst ` set m \<union> placeOf cgo wd ` set paths"
  "distinct (map fst m) \<Longrightarrow> distinct (map fst (addIgnoredCallFilesToMap cgo wd paths m))"
  unfolding addIgnoredCallFilesToMap_def
proof (induction paths arbitrary: m)
  case (Cons p paths)
  { case 1 then show ?case using Cons.IH(1) by (auto simp: Let_def rulesAt_def map_add_def split: option.split) }
  { case 2 then show ?case using Cons.IH(2) by (auto simp: Let_def map_of_eq_None_iff) }
  { case 3 then show ?case using Cons.IH(3) by (auto simp: Let_def map_of_eq_None_iff) }
qed simp_all

text \<open>All files of a rule set, and the rules it has for one, kind by kind\<close>

definition ruleFiles :: "InstRuleSet \<Rightarrow> string set" where
  "ruleFiles rset = filesIn (rsFuncRules rset) \<union> filesIn (rsStructRules rset) \<union> filesIn (rsRawRules rset) \<union>
     filesIn (rsCallRules rset) \<union> filesIn (rsLitRules rset) \<union> filesIn (rsDirectiveRules rset) \<union>
     filesIn (rsDeclRules rset) \<union> set (rsIgnoredCallFiles rset)"

definition rulesOfFile :: "InstRuleSet \<Rightarrow> string \<Rightarrow> InstRule list" where
  "rulesOfFile rset p =
     map FuncRule (rulesAt (rsFuncRules rset) p) @ map StructRule (rulesAt (rsStructRules rset) p) @
     map RawRule (rulesAt (rsRawRules rset) p) @ map CallRule (rulesAt (rsCallRules rset) p) @
     map LitRule (rulesAt (rsLitRules rset) p) @ map DirectiveRule (rulesAt (rsDirectiveRules rset) p) @
     map DeclRule (rulesAt (rsDeclRules rset) p)"

definition goMaps :: "InstRuleSet \<Rightarrow> bool" where
  "goMaps rset \<longleftrightarrow> distinct (map fst (rsFuncRules rset)) \<and> distinct (map fst (rsStructRules rset)) \<and>
     distinct (map fst (rsRawRules rset)) \<and> distinct (map fst (rsCallRules rset)) \<and> distinct (map fst (rsLitRules rset)) \<and>
     distinct (map fst (rsDirectiveRules rset)) \<and> distinct (map fst (rsDeclRules rset))"

lemma placed_rules:
  assumes "distinct (map fst source)" and "inj_on (placeOf cgo wd) (insert p (filesIn source))"
  shows "concat (map (\<lambda>(q, rules). if placeOf cgo wd q = placeOf cgo wd p then map inst rules else []) source) =
    map inst (rulesAt source p)"
  using assms
proof (induction source)
  case (Cons e source)
  obtain q rules where e: "e = (q, rules)" by fastforce
  have "inj_on (placeOf cgo wd) (insert p (filesIn source))"
    by (rule inj_on_subset [OF Cons.prems(2)]) (auto simp: e)
  then have IH: "concat (map (\<lambda>(q, rules). if placeOf cgo wd q = placeOf cgo wd p then map inst rules else []) source) =
      map inst (rulesAt source p)"
    using Cons by simp
  show ?case
  proof (cases "q = p")
    case True
    then have "map_of source p = None" using Cons.prems(1) e by (simp add: map_of_eq_None_iff)
    then show ?thesis using IH e True by (simp add: rulesAt_none) (simp add: rulesAt_def)
  next
    case False
    then have "rules \<noteq> [] \<Longrightarrow> placeOf cgo wd q \<noteq> placeOf cgo wd p"
      using inj_onD [OF Cons.prems(2), of q p] e by auto
    then show ?thesis using IH e False by (auto simp: rulesAt_def)
  qed
qed simp

lemma groupRules_keys:
  "fst ` set (fst (groupRules wd rset)) = placeOf (rsCgoFileMap rset) wd ` ruleFiles rset"
  "distinct (map fst (fst (groupRules wd rset)))"
  by (simp_all add: groupRules_def Let_def addIgnored keys_addRulesToMap distinct_addRulesToMap ruleFiles_def image_Un Un_assoc)

lemma groupRules_paths:
  "snd (groupRules wd rset) = sorted_list_of_set (placeOf (rsCgoFileMap rset) wd ` ruleFiles rset)"
proof -
  have "snd (groupRules wd rset) = sort (map fst (fst (groupRules wd rset)))" by (simp add: groupRules_def Let_def)
  also have "\<dots> = sorted_list_of_set (set (map fst (fst (groupRules wd rset))))"
    by (simp only: sorted_list_of_set_sort_remdups distinct_remdups_id [OF groupRules_keys(2)])
  finally show ?thesis by (simp add: groupRules_keys(1))
qed

lemma groupRules_rules:
  assumes "goMaps rset" and "p \<in> ruleFiles rset" and "inj_on (placeOf (rsCgoFileMap rset) wd) (ruleFiles rset)"
  shows "rulesAt (fst (groupRules wd rset)) (placeOf (rsCgoFileMap rset) wd p) = rulesOfFile rset p"
proof -
  have inj: "inj_on (placeOf (rsCgoFileMap rset) wd) (insert p (filesIn source))" if "filesIn source \<subseteq> ruleFiles rset"
    for source :: "'r rulesMap"
    by (rule inj_on_subset [OF assms(3)]) (use assms(2) that in auto)
  have kind: "concat (map (\<lambda>(q, rules). if placeOf (rsCgoFileMap rset) wd q = placeOf (rsCgoFileMap rset) wd p then map inst rules else []) source) =
      map inst (rulesAt source p)"
    if "distinct (map fst source)" "filesIn source \<subseteq> ruleFiles rset" for source :: "'r rulesMap" and inst
    by (rule placed_rules [OF that(1) inj [OF that(2)]])
  show ?thesis
    using assms(1) unfolding goMaps_def
    by (simp add: groupRules_def Let_def addIgnored rulesAt_addRulesToMap rulesOfFile_def kind ruleFiles_def le_supI1 le_supI2)
qed

text \<open>The same maps, their entries in another order\<close>

definition reordered :: "InstRuleSet \<Rightarrow> InstRuleSet \<Rightarrow> bool" where
  "reordered rset rset' \<longleftrightarrow> rsCgoFileMap rset' = rsCgoFileMap rset \<and> set (rsFuncRules rset') = set (rsFuncRules rset) \<and>
     set (rsStructRules rset') = set (rsStructRules rset) \<and> set (rsRawRules rset') = set (rsRawRules rset) \<and>
     set (rsCallRules rset') = set (rsCallRules rset) \<and> set (rsLitRules rset') = set (rsLitRules rset) \<and>
     set (rsDirectiveRules rset') = set (rsDirectiveRules rset) \<and> set (rsDeclRules rset') = set (rsDeclRules rset) \<and>
     set (rsIgnoredCallFiles rset') = set (rsIgnoredCallFiles rset)"

lemma filesIn_cong: "set source' = set source \<Longrightarrow> filesIn source' = filesIn source"
  by (simp add: filesIn_def)

lemma rulesAt_cong:
  assumes "set source' = set source" and "distinct (map fst source)" and "distinct (map fst source')"
  shows "rulesAt source' p = rulesAt source p"
  using map_of_inject_set [OF assms(3,2)] assms(1) by (simp add: rulesAt_def)

lemma reordered_files:
  assumes "reordered rset rset'"
  shows "ruleFiles rset' = ruleFiles rset"
  unfolding ruleFiles_def using assms [unfolded reordered_def]
  by (intro arg_cong2 [where f = union]) (rule filesIn_cong | simp only:)+

lemma reordered_rules:
  assumes "reordered rset rset'" and "goMaps rset" and "goMaps rset'"
  shows "rulesOfFile rset' p = rulesOfFile rset p"
proof -
  note same = assms(1) [unfolded reordered_def] and maps = assms(2,3) [unfolded goMaps_def]
  have "rulesAt (rsFuncRules rset') p = rulesAt (rsFuncRules rset) p" "rulesAt (rsStructRules rset') p = rulesAt (rsStructRules rset) p"
    "rulesAt (rsRawRules rset') p = rulesAt (rsRawRules rset) p" "rulesAt (rsCallRules rset') p = rulesAt (rsCallRules rset) p"
    "rulesAt (rsLitRules rset') p = rulesAt (rsLitRules rset) p"
    "rulesAt (rsDirectiveRules rset') p = rulesAt (rsDirectiveRules rset) p"
    "rulesAt (rsDeclRules rset') p = rulesAt (rsDeclRules rset) p"
    using same maps by - (rule rulesAt_cong; elim conjE; assumption)+
  then show ?thesis by (simp only: rulesOfFile_def)
qed

text \<open>
  C16: the files of a rule set are handled in the order of their paths, and each gets its rules kind by
  kind: function, struct, raw, call, literal, directive and declaration rules, each kind in the order
  of the rule set. Go visits the maps of a rule set in any order; the outcome is the same in all.
  A cgo file is replaced by the file cgo generated for it, which must not be that of two files.
\<close>

theorem groupRules_by_file:
  assumes "goMaps rset" and "goMaps rset'" and "reordered rset rset'" and "p \<in> ruleFiles rset"
    and "inj_on (placeOf (rsCgoFileMap rset) wd) (ruleFiles rset)"
  shows "snd (groupRules wd rset') = snd (groupRules wd rset) \<and>
    snd (groupRules wd rset) = sorted_list_of_set (placeOf (rsCgoFileMap rset) wd ` ruleFiles rset) \<and>
    rulesAt (fst (groupRules wd rset')) (placeOf (rsCgoFileMap rset) wd p) = rulesOfFile rset p"
proof -
  have same: "rsCgoFileMap rset' = rsCgoFileMap rset" using assms(3) unfolding reordered_def by (rule conjunct1)
  note files = reordered_files [OF assms(3)] and rules = reordered_rules [OF assms(3,1,2), of p]
  have "rulesAt (fst (groupRules wd rset')) (placeOf (rsCgoFileMap rset') wd p) = rulesOfFile rset' p"
    by (rule groupRules_rules) (simp_all only: assms(2,4,5) same files)
  then show ?thesis by (simp only: groupRules_paths same files rules)
qed

section \<open>Ignored files\<close>

lemma FindFuncDecl_declared:
  assumes "FindFuncDecl root r names = Inr (Some f)"
  shows "f \<in> set (listFuncDecls root)"
proof -
  have "firstOf xs = Some f \<Longrightarrow> f \<in> set xs" for xs by (cases xs) (auto simp: firstOf_def)
  then have "findFuncDecl root n recv = Some f \<Longrightarrow> f \<in> set (listFuncDecls root)" for n recv
    unfolding findFuncDecl_def findFuncDecls_def by fastforce
  then show ?thesis
    using assms by (auto simp: FindFuncDecl_def Let_def split: funcSelector.splits option.splits sum.splits if_splits)
qed

lemma ignored_steps:
  assumes "\<And>f. f \<in> set (listFuncDecls (fst (fpSource fp))) \<Longrightarrow> \<not> funcLeadHasDirective f directiveInstrument"
    and "foldOK (fileStep T True) rules fp = Inr fp'"
  shows "fp' = fp"
  using assms(2)
proof (induction rules)
  case (Cons r rules)
  have "fileStep T True r fp = Inr fp1 \<Longrightarrow> fp1 = fp" for fp1
    using assms(1) FindFuncDecl_declared [of "fst (fpSource fp)"]
    by (cases r) (auto simp: fileStep_def lookupFor_def split: sum.splits option.splits if_splits)
  with Cons show ?case by (auto split: sum.splits)
qed simp

text \<open>
  C17: in a file marked \<open>//otelc:ignore\<close>, when no function opts back in with \<open>//otelc:instrument\<close>, the
  rules of the file do nothing, whatever their kind: the outcome is that of no rules at all, so only
  calls with their own ignore comment are bracketed, and no globals file is asked for.
\<close>

theorem ignored_file_untouched:
  assumes "instrumentFile T path rules ip = Inr (needs, ip')" and "ptParse T (ppWritten ip) path = Some src"
    and "fileHasLeadingDirective (fst src) directiveIgnore"
    and "\<And>f. f \<in> set (listFuncDecls (fst src)) \<Longrightarrow> \<not> funcLeadHasDirective f directiveInstrument"
  shows "instrumentFile T path [] ip = Inr (needs, ip') \<and> \<not> needs"
proof -
  let ?ip = "ip\<lparr>ppTrampolines := ptStart T src (ppTrampolines ip)\<rparr>"
  let ?fp = "\<lparr>fpHasFuncRule = False, fpModified = False, fpSource = src, fpPhase = ?ip\<rparr>"
  have parsed: "parseFileOf T path ip = Inr (src, ?ip)"
    using assms(2) by (simp add: parseFileOf_def)
  obtain fp where fold: "foldOK (fileStep T True) rules ?fp = Inr fp"
    using assms(1,3) parsed by (cases "foldOK (fileStep T True) rules ?fp") (simp_all add: instrumentFile_def)
  have fp: "fp = ?fp" by (rule ignored_steps [OF _ fold]) (use assms(4) in simp)
  have "instrumentFile T path [] ip = instrumentFile T path rules ip"
    using fold assms(3) by (simp add: instrumentFile_def parsed fp)
  moreover have "\<not> needs" using instrumentFile_effect [of T path "[]" ip needs ip'] calculation assms(1) by auto
  ultimately show ?thesis using assms(1) by simp
qed

section \<open>Functions that share an identity\<close>

text \<open>
  \<open>appliedFuncIdentities\<close> lasts for the package, but Go allows several functions \<open>init\<close> in one
  package. The rule for the second file is taken for a duplicate: it reports success and leaves
  the function as it is.
\<close>

lemma second_init_skipped:
  assumes "funcIdentity (ptCrc32 T) r \<in> set (ppApplied ip)" and "\<not> funcLeadHasDirective f directiveIgnore"
    and "ruleImports r = []" and "\<not> ppUsesIgnore ip"
  shows "\<exists>ip'. applyFuncRule T r (Some f) src ip = Inr (True, src, ip')"
  using assms by (auto simp: applyFuncRule_def Let_def usedRuleImports_def addRuleImports_def putStep_def split: prod.split)

section \<open>An example\<close>

definition packTools :: "unit packageTools" where
  "packTools = \<lparr>ptRules = probeTools\<lparr>rtSource := \<lambda>_. Some []\<rparr>,
     ptMethods = \<lparr>mtAbs = (\<lambda>p. Some (pathJoin [''/app'', p])), mtCheck = (\<lambda>_ _ _. None), mtPosition = (\<lambda>_. None)\<rparr>, ptCrc32 = id,
     ptRead = (\<lambda>_. None), ptParse = (\<lambda>_ p. Some (probeRoot, if p = ''/app/b.go'' then probeDecls else [])),
     ptParseSource = (\<lambda>_. Some probeRoot), ptWritable = (\<lambda>_. True), ptStruct = (\<lambda>_ _ _. Inl RestoreFailed),
     ptStart = (\<lambda>_ _. ()), ptInsertTJump = (\<lambda>_ _ _ _. None), ptOptimize = (\<lambda>src j. Some (src, j)), ptVarDecls = (\<lambda>_. []),
     ptTemplateAPI = []\<rparr>"

text \<open>A raw rule for \<open>b.go\<close>, and an ignored call, by mistake, in \<open>a.go\<close>\<close>

definition packSet :: InstRuleSet where
  "packSet = (newInstRuleSet ''app'')\<lparr>rsPackageName := ''app'', rsRawRules := [(''/app/b.go'', [probeRule])],
     rsIgnoredCallFiles := [''/app/a.go'']\<rparr>"

definition packEnv :: "unit compileEnv" where
  "packEnv = \<lparr>ceConfig = (\<lambda>_. None), ceRules = Content ''rules'', ceRulesPath = ''rules.json'', ceUnmarshalRules = (\<lambda>_. Some [packSet]),
     ceNames = Missing, ceNamesPath = ''names.json'', ceUnmarshalNames = (\<lambda>_. None), ceChain = None, ceTrampolines = ()\<rparr>"

definition packArgs :: "string list" where
  "packArgs = [''compile'', ''-o'', ''/tmp/b001/p.a'', ''-p'', ''app'', ''-complete'', ''a.go'', ''b.go'']"

definition packResult :: "string list" where
  "packResult = [''compile'', ''-o'', ''/tmp/b001/p.a'', ''-p'', ''app'', ''a.go'', ''/tmp/b001/b.go'', ''/tmp/b001/otelc.globals.go'']"

definition commandOf :: "phaseError + string list \<times> unit packagePhase \<Rightarrow> string list" where
  "commandOf r = (case r of Inl e \<Rightarrow> [] | Inr (args, ip) \<Rightarrow> args)"

lemma packed: "commandOf (interceptCompile packTools packEnv packArgs) = packResult"
  by code_simp

theorem compile_command_witness:
  "\<exists>ip ws needs. ppArgs ip = packArgs \<and> subseq ws (snd (groupRules (ppWorkDir ip) packSet)) \<and>
     packResult = stripCompleteFlag (commandAfter packTools packSet ip ws needs)"
proof -
  obtain args' ip' where run: "interceptCompile packTools packEnv packArgs = Inr (args', ip')" and "args' = packResult"
    using packed by (auto simp: commandOf_def packResult_def split: sum.splits)
  have flag: "findFlagValue packArgs ''-p'' = ''app''" by code_simp
  show ?thesis
    using compile_command [OF run] \<open>args' = packResult\<close>
    by (auto simp: flag load_def packEnv_def packSet_def newInstRuleSet_def ruleSetIsEmpty_def)
qed

theorem groupRules_by_file_witness:
  "snd (groupRules ''/tmp'' packSet) = [''/app/a.go'', ''/app/b.go''] \<and>
     rulesAt (fst (groupRules ''/tmp'' packSet)) (placeOf [] ''/tmp'' ''/app/b.go'') = [RawRule probeRule]"
proof -
  have "goMaps packSet" "reordered packSet packSet" by (simp_all add: goMaps_def reordered_def packSet_def newInstRuleSet_def)
  moreover have files: "ruleFiles packSet = {''/app/a.go'', ''/app/b.go''}"
    by (auto simp: ruleFiles_def packSet_def newInstRuleSet_def)
  moreover have "rsCgoFileMap packSet = []" "placeOf [] ''/tmp'' = id" by (auto simp: packSet_def newInstRuleSet_def placeOf_def fun_eq_iff)
  moreover have "rulesOfFile packSet ''/app/b.go'' = [RawRule probeRule]"
    by (simp add: rulesOfFile_def packSet_def newInstRuleSet_def rulesAt_def)
  moreover have "sorted_list_of_set {''/app/a.go'', ''/app/b.go''} = [''/app/a.go'', ''/app/b.go'']" by code_simp
  ultimately show ?thesis using groupRules_by_file [of packSet packSet "''/app/b.go''" "''/tmp''"] by (simp add: files)
qed

definition ignoredTools :: "unit packageTools" where
  "ignoredTools = packTools\<lparr>ptParse := \<lambda>_ p. Some (probeRoot\<lparr>fileStart := [''//otelc:ignore'']\<rparr>, probeDecls)\<rparr>"

definition packPhase :: "unit packagePhase" where
  "packPhase = \<lparr>ppWorkDir = ''/tmp'', ppArgs = packArgs, ppStep = probeStep, ppLoaded = False, ppInfo = None, ppApplied = [],
     ppUsesIgnore = False, ppTrampolines = (), ppWritten = [], ppTracked = []\<rparr>"

definition outcomeOf :: "phaseError + bool \<times> unit packagePhase \<Rightarrow> (bool \<times> string list) option" where
  "outcomeOf r = (case r of Inl e \<Rightarrow> None | Inr (needs, ip) \<Rightarrow> Some (needs, ppArgs ip))"

theorem ignored_file_untouched_witness:
  "\<exists>ip'. instrumentFile ignoredTools ''/app/b.go'' [] packPhase = Inr (False, ip') \<and> ppArgs ip' = packArgs"
proof -
  have "outcomeOf (instrumentFile ignoredTools ''/app/b.go'' [RawRule probeRule] packPhase) = Some (False, packArgs)"
    by code_simp
  then obtain needs ip' where run: "instrumentFile ignoredTools ''/app/b.go'' [RawRule probeRule] packPhase = Inr (needs, ip')"
    and out: "ppArgs ip' = packArgs"
    by (auto simp: outcomeOf_def split: sum.splits)
  let ?src = "(probeRoot\<lparr>fileStart := [''//otelc:ignore'']\<rparr>, probeDecls)"
  have parse: "ptParse ignoredTools (ppWritten packPhase) ''/app/b.go'' = Some ?src" by (simp add: ignoredTools_def)
  have ign: "fileHasLeadingDirective (fst ?src) directiveIgnore" by code_simp
  have funs: "listFuncDecls (fst ?src) = [probeTarget]" by code_simp
  have none: "funcLeadHasDirective probeTarget directiveInstrument = False" by code_simp
  show ?thesis using ignored_file_untouched [OF run parse ign] out none unfolding funs by auto
qed

end
