(* ===== verification/Span_Stack.thy ===== *)
theory Span_Stack
  imports Go_Prelude "HOL-Library.Word"
begin

text \<open>
  Implicit propagation of spans (\<open>instrumentation/go.opentelemetry.io/otel/sdk/trace\<close>): each
  goroutine has a stack of the spans it has started, kept in its \<open>g\<close>; a new goroutine inherits the
  innermost live span (\<open>instrumentation/runtime\<close>). Whether a span has ended is a flag that all
  copies share, found through a bounded table of the live spans.

  A flag and an element of the eviction list are addresses. The linked list of a stack belongs to
  one goroutine, the table is locked, and flags only ever become true, so operations are steps.

  Shown: the stacks, flags and the table implement lists of live spans; a span that has ended is
  the parent of nothing, on any goroutine; both limits hold.
\<close>

declare split_paired_All [simp del] split_paired_Ex [simp del]

section \<open>State\<close>

record goSpan =
  spTraceID :: "128 word"
  spSpanID :: "64 word"
  spObject :: nat

type_synonym spanKey = "128 word \<times> 64 word"

definition keyOf :: "goSpan \<Rightarrow> spanKey" where
  "keyOf sp = (spTraceID sp, spSpanID sp)"

definition validSpan :: "goSpan \<Rightarrow> bool" where
  "validSpan sp \<longleftrightarrow> spTraceID sp \<noteq> 0 \<and> spSpanID sp \<noteq> 0"

text \<open>A wrapper is a span with the address of its flag; the first of a stack is the innermost.\<close>

type_synonym wrapper = "goSpan \<times> nat"

record traceContext =
  tcStack :: "wrapper list"
  tcN :: int
  tcLcs :: "goSpan option"

definition emptyContext :: traceContext where
  "emptyContext = \<lparr>tcStack = [], tcN = 0, tcLcs = None\<rparr>"

text \<open>The flags, the next address, the table of flags with their elements, the eviction list, oldest
  first, and the contexts of the goroutines\<close>

record glsState =
  glEnded :: "nat \<Rightarrow> bool"
  glFresh :: nat
  glStates :: "spanKey \<Rightarrow> (nat \<times> nat) option"
  glSize :: nat
  glOrder :: "(nat \<times> spanKey) list"
  glContexts :: "nat \<Rightarrow> traceContext option"

section \<open>The table\<close>

definition evictOldest :: "glsState \<Rightarrow> glsState" where
  "evictOldest s =
     (case glOrder s of
        [] \<Rightarrow> s
      | (e, key) # rest \<Rightarrow>
          (case glStates s key of
             None \<Rightarrow> s\<lparr>glOrder := rest\<rparr>
           | Some (f, e') \<Rightarrow>
               s\<lparr>glEnded := (glEnded s)(f := True), glStates := (glStates s)(key := None),
                 glSize := glSize s - 1, glOrder := rest\<rparr>))"

definition newFlag :: "glsState \<Rightarrow> nat \<times> glsState" where
  "newFlag s = (glFresh s, s\<lparr>glEnded := (glEnded s)(glFresh s := False), glFresh := Suc (glFresh s)\<rparr>)"

definition stateForSpan :: "nat \<Rightarrow> goSpan \<Rightarrow> glsState \<Rightarrow> nat \<times> glsState" where
  "stateForSpan maxSpanStates span s =
     (if \<not> validSpan span then newFlag s
      else case glStates s (keyOf span) of
             Some (f, e) \<Rightarrow> (f, s)
           | None \<Rightarrow>
               let s1 = (if glSize s \<ge> maxSpanStates then evictOldest s else s);
                   (f, s2) = newFlag s1;
                   e = glFresh s2
               in (f, s2\<lparr>glFresh := Suc e, glOrder := glOrder s2 @ [(e, keyOf span)],
                        glStates := (glStates s2)(keyOf span \<mapsto> (f, e)), glSize := Suc (glSize s2)\<rparr>))"

definition markSpanEnded :: "goSpan \<Rightarrow> glsState \<Rightarrow> glsState" where
  "markSpanEnded span s =
     (if \<not> validSpan span then s
      else case glStates s (keyOf span) of
             None \<Rightarrow> s
           | Some (f, e) \<Rightarrow>
               s\<lparr>glEnded := (glEnded s)(f := True), glStates := (glStates s)(keyOf span := None),
                 glSize := glSize s - 1, glOrder := filter (\<lambda>(e', k). e' \<noteq> e) (glOrder s)\<rparr>)"

section \<open>The stack of a goroutine\<close>

definition bottomSpan :: "wrapper list \<Rightarrow> goSpan option" where
  "bottomSpan ws = (if ws = [] then None else Some (fst (last ws)))"

fun compactList :: "(nat \<Rightarrow> bool) \<Rightarrow> wrapper list \<Rightarrow> int \<Rightarrow> wrapper list \<times> int" where
  "compactList ended [] n = ([], n)"
| "compactList ended (w # ws) n =
     (if ended (snd w) then compactList ended ws (n - 1)
      else case compactList ended ws n of (ws', n') \<Rightarrow> (w # ws', n'))"

definition compact :: "(nat \<Rightarrow> bool) \<Rightarrow> traceContext \<Rightarrow> traceContext" where
  "compact ended tc =
     (case compactList ended (tcStack tc) (tcN tc) of
        (ws, n) \<Rightarrow> \<lparr>tcStack = ws, tcN = n, tcLcs = bottomSpan ws\<rparr>)"

text \<open>Adding a span: the context, and whether the span is on the stack\<close>

definition addSpan :: "nat \<Rightarrow> nat \<Rightarrow> goSpan \<Rightarrow> traceContext \<Rightarrow> glsState \<Rightarrow> bool \<times> traceContext \<times> glsState" where
  "addSpan maxSpans maxSpanStates span tc s =
     (let tc1 = (if tcN tc \<ge> int maxSpans then compact (glEnded s) tc else tc)
      in if tcN tc1 \<ge> int maxSpans then (False, tc1, s)
         else case stateForSpan maxSpanStates span s of
                (f, s') \<Rightarrow>
                  (True, \<lparr>tcStack = (span, f) # tcStack tc1, tcN = tcN tc1 + 1,
                          tcLcs = (if tcN tc1 = 0 then Some span else tcLcs tc1)\<rparr>, s'))"

fun popEnded :: "(nat \<Rightarrow> bool) \<Rightarrow> wrapper list \<Rightarrow> int \<Rightarrow> wrapper list \<times> int" where
  "popEnded ended [] n = ([], n)"
| "popEnded ended (w # ws) n = (if ended (snd w) then popEnded ended ws (n - 1) else (w # ws, n))"

definition tailSpan :: "(nat \<Rightarrow> bool) \<Rightarrow> traceContext \<Rightarrow> goSpan option \<times> traceContext" where
  "tailSpan ended tc =
     (case popEnded ended (tcStack tc) (tcN tc) of
        ([], n) \<Rightarrow> (None, \<lparr>tcStack = [], tcN = n, tcLcs = None\<rparr>)
      | (w # ws, n) \<Rightarrow> (Some (fst w), \<lparr>tcStack = w # ws, tcN = n, tcLcs = tcLcs tc\<rparr>))"

definition localRootSpan :: "traceContext \<Rightarrow> goSpan option" where
  "localRootSpan tc = (if tcN tc = 0 then None else tcLcs tc)"

text \<open>The wrappers in front of the first one for the span, this one, and those behind it\<close>

fun splitAtSpan :: "spanKey \<Rightarrow> wrapper list \<Rightarrow> (wrapper list \<times> wrapper \<times> wrapper list) option" where
  "splitAtSpan key [] = None"
| "splitAtSpan key (w # ws) =
     (if keyOf (fst w) = key then Some ([], w, ws)
      else map_option (\<lambda>(xs, v, ys). (w # xs, v, ys)) (splitAtSpan key ws))"

definition delSpan :: "goSpan \<Rightarrow> traceContext \<Rightarrow> (nat \<Rightarrow> bool) \<Rightarrow> traceContext \<times> (nat \<Rightarrow> bool)" where
  "delSpan span tc ended =
     (if tcN tc = 0 then (tc, ended)
      else case splitAtSpan (keyOf span) (tcStack tc) of
             None \<Rightarrow> (tc, ended)
           | Some (xs, (sp, f), ys) \<Rightarrow>
               (\<lparr>tcStack = xs @ ys, tcN = tcN tc - 1,
                 tcLcs = (if ys = [] then bottomSpan (xs @ ys) else tcLcs tc)\<rparr>, ended(f := True)))"

definition cloneContext :: "(nat \<Rightarrow> bool) \<Rightarrow> traceContext \<Rightarrow> traceContext \<times> traceContext" where
  "cloneContext ended tc =
     (case tailSpan ended tc of
        (None, tc') \<Rightarrow> (emptyContext, tc')
      | (Some sp, tc') \<Rightarrow> (\<lparr>tcStack = [(sp, snd (hd (tcStack tc')))], tcN = 1, tcLcs = None\<rparr>, tc'))"

section \<open>What goroutines do\<close>

definition contextOf :: "nat \<Rightarrow> glsState \<Rightarrow> traceContext" where
  "contextOf g s = (case glContexts s g of None \<Rightarrow> emptyContext | Some tc \<Rightarrow> tc)"

definition setContext :: "nat \<Rightarrow> traceContext \<Rightarrow> glsState \<Rightarrow> glsState" where
  "setContext g tc s = s\<lparr>glContexts := (glContexts s)(g \<mapsto> tc)\<rparr>"

definition traceContextAddSpan :: "nat \<Rightarrow> nat \<Rightarrow> nat \<Rightarrow> goSpan \<Rightarrow> glsState \<Rightarrow> glsState" where
  "traceContextAddSpan maxSpans maxSpanStates g span s =
     (case addSpan maxSpans maxSpanStates span (contextOf g s) s of (ok, tc, s') \<Rightarrow> setContext g tc s')"

definition traceContextDelSpan :: "nat \<Rightarrow> goSpan \<Rightarrow> glsState \<Rightarrow> glsState" where
  "traceContextDelSpan g span s =
     (let s1 = markSpanEnded span s
      in case glContexts s1 g of
           None \<Rightarrow> s1
         | Some tc \<Rightarrow>
             (case delSpan span tc (glEnded s1) of (tc', ended') \<Rightarrow> setContext g tc' (s1\<lparr>glEnded := ended'\<rparr>)))"

definition spanFromGLS :: "nat \<Rightarrow> glsState \<Rightarrow> goSpan option \<times> glsState" where
  "spanFromGLS g s =
     (case glContexts s g of
        None \<Rightarrow> (None, s)
      | Some tc \<Rightarrow> (case tailSpan (glEnded s) tc of (sp, tc') \<Rightarrow> (sp, setContext g tc' s)))"

text \<open>The hook behind \<open>SpanFromContext\<close>: the span of the context, if it is valid\<close>

definition afterSpanFromContext :: "nat \<Rightarrow> goSpan \<Rightarrow> glsState \<Rightarrow> goSpan \<times> glsState" where
  "afterSpanFromContext g span s =
     (if validSpan span then (span, s)
      else case spanFromGLS g s of (None, s') \<Rightarrow> (span, s') | (Some sp, s') \<Rightarrow> (sp, s'))"

definition ClearTraceContext :: "nat \<Rightarrow> glsState \<Rightarrow> glsState" where
  "ClearTraceContext g s = setContext g emptyContext s"

text \<open>A new goroutine: \<open>propagateOtelContext\<close> in \<open>newproc1\<close>, run by the caller\<close>

definition spawnGoroutine :: "nat \<Rightarrow> nat \<Rightarrow> glsState \<Rightarrow> glsState" where
  "spawnGoroutine g child s =
     (case glContexts s g of
        None \<Rightarrow> s\<lparr>glContexts := (glContexts s)(child := None)\<rparr>
      | Some tc \<Rightarrow> (case cloneContext (glEnded s) tc of (ctx, tc') \<Rightarrow> setContext child ctx (setContext g tc' s)))"

text \<open>Limits from the environment: a positive decimal number that fits an \<open>int\<close>\<close>

definition positiveIntEnv :: "string \<Rightarrow> nat option" where
  "positiveIntEnv v =
     (let digits = (if v \<noteq> [] \<and> hd v = CHR ''+'' then tl v else v)
      in if digits = [] \<or> \<not> list_all isAsciiDigit digits then None
         else if readDigits digits \<ge> 2 ^ 63 \<or> readDigits digits = 0 then None
         else Some (readDigits digits))"

definition limitFrom :: "nat \<Rightarrow> string \<Rightarrow> nat" where
  "limitFrom standard v = (case positiveIntEnv v of Some n \<Rightarrow> n | None \<Rightarrow> standard)"

datatype glsOp =
    StartSpan nat goSpan
  | EndSpan nat goSpan
  | CurrentSpan nat
  | Spawn nat nat
  | Clear nat

text \<open>An operation and the span it finds, if it looks for one\<close>

fun glsStep :: "nat \<Rightarrow> nat \<Rightarrow> glsOp \<Rightarrow> glsState \<Rightarrow> goSpan option \<times> glsState" where
  "glsStep maxSpans maxStates (StartSpan g sp) s = (None, traceContextAddSpan maxSpans maxStates g sp s)"
| "glsStep maxSpans maxStates (EndSpan g sp) s = (None, traceContextDelSpan g sp s)"
| "glsStep maxSpans maxStates (CurrentSpan g) s = spanFromGLS g s"
| "glsStep maxSpans maxStates (Spawn g child) s = (None, spawnGoroutine g child s)"
| "glsStep maxSpans maxStates (Clear g) s = (None, ClearTraceContext g s)"

definition emptyGls :: glsState where
  "emptyGls = \<lparr>glEnded = (\<lambda>_. False), glFresh = 0, glStates = Map.empty, glSize = 0, glOrder = [],
     glContexts = Map.empty\<rparr>"

fun glsRun :: "nat \<Rightarrow> nat \<Rightarrow> glsOp list \<Rightarrow> glsState \<Rightarrow> goSpan option list \<times> glsState" where
  "glsRun maxSpans maxStates [] s = ([], s)"
| "glsRun maxSpans maxStates (op # ops) s =
     (case glsStep maxSpans maxStates op s of
        (r, s') \<Rightarrow> (case glsRun maxSpans maxStates ops s' of (rs, s'') \<Rightarrow> (r # rs, s'')))"
section \<open>Lists of live spans\<close>

text \<open>What the stacks stand for: the live spans of each goroutine, innermost first, and the keys of
  all tracked spans, oldest first\<close>

record liveState =
  lvSpans :: "nat \<Rightarrow> goSpan list"
  lvTracked :: "spanKey list"

definition endKey :: "spanKey \<Rightarrow> liveState \<Rightarrow> liveState" where
  "endKey k a = \<lparr>lvSpans = (\<lambda>g. filter (\<lambda>sp. keyOf sp \<noteq> k) (lvSpans a g)), lvTracked = filter (\<lambda>j. j \<noteq> k) (lvTracked a)\<rparr>"

definition trackKey :: "nat \<Rightarrow> spanKey \<Rightarrow> liveState \<Rightarrow> liveState" where
  "trackKey maxStates k a =
     (if k \<in> set (lvTracked a) then a
      else let b = (if length (lvTracked a) \<ge> maxStates then endKey (hd (lvTracked a)) a else a)
           in b\<lparr>lvTracked := lvTracked b @ [k]\<rparr>)"

fun liveStep :: "nat \<Rightarrow> nat \<Rightarrow> glsOp \<Rightarrow> liveState \<Rightarrow> goSpan option \<times> liveState" where
  "liveStep maxSpans maxStates (StartSpan g sp) a =
     (None, if length (lvSpans a g) \<ge> maxSpans then a
            else let b = trackKey maxStates (keyOf sp) a in b\<lparr>lvSpans := (lvSpans b)(g := sp # lvSpans b g)\<rparr>)"
| "liveStep maxSpans maxStates (EndSpan g sp) a = (None, endKey (keyOf sp) a)"
| "liveStep maxSpans maxStates (CurrentSpan g) a = (case lvSpans a g of [] \<Rightarrow> None | sp # _ \<Rightarrow> Some sp, a)"
| "liveStep maxSpans maxStates (Spawn g child) a = (None, a\<lparr>lvSpans := (lvSpans a)(child := take 1 (lvSpans a g))\<rparr>)"
| "liveStep maxSpans maxStates (Clear g) a = (None, a\<lparr>lvSpans := (lvSpans a)(g := [])\<rparr>)"

fun liveRun :: "nat \<Rightarrow> nat \<Rightarrow> glsOp list \<Rightarrow> liveState \<Rightarrow> goSpan option list \<times> liveState" where
  "liveRun maxSpans maxStates [] a = ([], a)"
| "liveRun maxSpans maxStates (op # ops) a =
     (case liveStep maxSpans maxStates op a of
        (r, a') \<Rightarrow> (case liveRun maxSpans maxStates ops a' of (rs, a'') \<Rightarrow> (r # rs, a'')))"

definition liveOf :: "(nat \<Rightarrow> bool) \<Rightarrow> wrapper list \<Rightarrow> goSpan list" where
  "liveOf ended ws = map fst (filter (\<lambda>w. \<not> ended (snd w)) ws)"

definition absGls :: "glsState \<Rightarrow> liveState" where
  "absGls s = \<lparr>lvSpans = (\<lambda>g. liveOf (glEnded s) (tcStack (contextOf g s))), lvTracked = map snd (glOrder s)\<rparr>"

section \<open>Invariant\<close>

text \<open>A live flag of a stack is the flag of its key in the table, and no two keys share a flag.\<close>

definition wfTable :: "nat \<Rightarrow> glsState \<Rightarrow> bool" where
  "wfTable maxStates s \<longleftrightarrow>
     (\<forall>k f e. glStates s k = Some (f, e) \<longrightarrow> \<not> glEnded s f \<and> f < glFresh s \<and> e < glFresh s \<and> (e, k) \<in> set (glOrder s)) \<and>
     (\<forall>e k. (e, k) \<in> set (glOrder s) \<longrightarrow> (\<exists>f. glStates s k = Some (f, e))) \<and>
     (\<forall>k k' f e e'. glStates s k = Some (f, e) \<longrightarrow> glStates s k' = Some (f, e') \<longrightarrow> k = k') \<and>
     distinct (map fst (glOrder s)) \<and> distinct (map snd (glOrder s)) \<and>
     glSize s = length (glOrder s) \<and> length (glOrder s) \<le> maxStates"

definition wfWrapper :: "glsState \<Rightarrow> wrapper \<Rightarrow> bool" where
  "wfWrapper s w \<longleftrightarrow> snd w < glFresh s \<and>
     (\<not> glEnded s (snd w) \<longrightarrow> (\<exists>e. glStates s (keyOf (fst w)) = Some (snd w, e))) \<and>
     (\<forall>k e. glStates s k = Some (snd w, e) \<longrightarrow> k = keyOf (fst w))"

definition wfContext :: "nat \<Rightarrow> glsState \<Rightarrow> traceContext \<Rightarrow> bool" where
  "wfContext maxSpans s tc \<longleftrightarrow> tcN tc = int (length (tcStack tc)) \<and> length (tcStack tc) \<le> maxSpans \<and>
     tcLcs tc \<in> {None, bottomSpan (tcStack tc)} \<and> list_all (wfWrapper s) (tcStack tc)"

definition wfGls :: "nat \<Rightarrow> nat \<Rightarrow> glsState \<Rightarrow> bool" where
  "wfGls maxSpans maxStates s \<longleftrightarrow> wfTable maxStates s \<and> (\<forall>g. wfContext maxSpans s (contextOf g s))"

lemma wrapperD:
  assumes "wfWrapper s w"
  shows "snd w < glFresh s"
    and "\<not> glEnded s (snd w) \<Longrightarrow> \<exists>e. glStates s (keyOf (fst w)) = Some (snd w, e)"
    and "glStates s k = Some (snd w, e) \<Longrightarrow> k = keyOf (fst w)"
  using assms unfolding wfWrapper_def by blast+

lemma wf_empty: "wfGls maxSpans maxStates emptyGls"
  by (simp add: wfGls_def wfTable_def wfContext_def emptyGls_def contextOf_def emptyContext_def)

section \<open>The table keeps the invariant\<close>

lemma tableD:
  assumes "wfTable maxStates s"
  shows "glStates s k = Some (f, e) \<Longrightarrow> \<not> glEnded s f \<and> f < glFresh s \<and> e < glFresh s \<and> (e, k) \<in> set (glOrder s)"
    and "(e, k) \<in> set (glOrder s) \<Longrightarrow> \<exists>f. glStates s k = Some (f, e)"
    and "glStates s k = Some (f, e) \<Longrightarrow> glStates s k' = Some (f, e') \<Longrightarrow> k = k'"
    and "distinct (map fst (glOrder s))" and "distinct (map snd (glOrder s))"
    and "glSize s = length (glOrder s)" and "length (glOrder s) \<le> maxStates"
  using assms unfolding wfTable_def by blast+

lemma tableI:
  assumes "\<And>k f e. glStates s k = Some (f, e) \<Longrightarrow> \<not> glEnded s f \<and> f < glFresh s \<and> e < glFresh s \<and> (e, k) \<in> set (glOrder s)"
    and "\<And>e k. (e, k) \<in> set (glOrder s) \<Longrightarrow> \<exists>f. glStates s k = Some (f, e)"
    and "\<And>k k' f e e'. glStates s k = Some (f, e) \<Longrightarrow> glStates s k' = Some (f, e') \<Longrightarrow> k = k'"
    and "distinct (map fst (glOrder s))" and "distinct (map snd (glOrder s))"
    and "glSize s = length (glOrder s)" and "length (glOrder s) \<le> maxStates"
  shows "wfTable maxStates s"
  unfolding wfTable_def using assms by blast

definition endFlag :: "spanKey \<Rightarrow> nat \<Rightarrow> nat \<Rightarrow> glsState \<Rightarrow> glsState" where
  "endFlag k f e s = s\<lparr>glEnded := (glEnded s)(f := True), glStates := (glStates s)(k := None),
     glSize := glSize s - 1, glOrder := filter (\<lambda>(e', k). e' \<noteq> e) (glOrder s)\<rparr>"

lemma filter_elem:
  "distinct (map fst xs) \<Longrightarrow> distinct (map snd xs) \<Longrightarrow> (e, k) \<in> set xs \<Longrightarrow>
     map snd (filter (\<lambda>(e', k). e' \<noteq> e) xs) = filter (\<lambda>j. j \<noteq> k) (map snd xs) \<and>
     Suc (length (filter (\<lambda>(e', k). e' \<noteq> e) xs)) = length xs"
proof (induction xs)
  case Nil
  then show ?case by simp
next
  case (Cons x xs)
  obtain e1 k1 where x: "x = (e1, k1)" by (cases x)
  show ?case
  proof (cases "e1 = e")
    case True
    then have "k1 = k" using Cons.prems x by (auto simp: rev_image_eqI)
    moreover have "filter (\<lambda>(e', k). e' \<noteq> e) xs = xs" using Cons.prems x True by (auto simp: filter_id_conv rev_image_eqI)
    moreover have "filter (\<lambda>j. j \<noteq> k) (map snd xs) = map snd xs"
      using Cons.prems x \<open>k1 = k\<close> by (auto simp: filter_id_conv)
    ultimately show ?thesis using x True by simp
  next
    case False
    then have "(e, k) \<in> set xs" and "k1 \<noteq> k" using Cons.prems x by (auto simp: rev_image_eqI)
    with Cons x False show ?thesis by auto
  qed
qed

lemma endFlag_wf:
  assumes "wfGls maxSpans maxStates s" and "glStates s k = Some (f, e)"
  shows "wfGls maxSpans maxStates (endFlag k f e s)" and "absGls (endFlag k f e s) = endKey k (absGls s)"
    and "glStates (endFlag k f e s) k = None" and "length (glOrder (endFlag k f e s)) < length (glOrder s)"
proof -
  let ?s = "endFlag k f e s"
  have t: "wfTable maxStates s" and c: "wfContext maxSpans s (contextOf g s)" for g
    using assms(1) by (auto simp: wfGls_def)
  note D = tableD [OF t]
  have ek: "(e, k) \<in> set (glOrder s)" using D(1) [OF assms(2)] by blast
  note order = filter_elem [OF D(4,5) ek]
  have other: "f' \<noteq> f" if "glStates s k' = Some (f', e')" "k' \<noteq> k" for k' f' e'
    using D(3) [OF assms(2)] that by blast
  have elem: "e' \<noteq> e" if "(e', k') \<in> set (glOrder s)" "k' \<noteq> k" for e' k'
    using eq_key_imp_eq_value [OF D(4) ek] that by blast
  have states: "glStates ?s k' = Some (f', e') \<longleftrightarrow> k' \<noteq> k \<and> glStates s k' = Some (f', e')" for k' f' e'
    by (simp add: endFlag_def)
  have in_order: "(e', k') \<in> set (glOrder ?s) \<longleftrightarrow> (e', k') \<in> set (glOrder s) \<and> e' \<noteq> e" for e' k'
    by (simp add: endFlag_def)
  have "wfTable maxStates ?s"
  proof (rule tableI)
    fix k' f' e'
    assume "glStates ?s k' = Some (f', e')"
    then have k': "k' \<noteq> k" "glStates s k' = Some (f', e')" by (simp_all add: states)
    moreover from this have "e' \<noteq> e" using D(1) [OF k'(2)] elem by blast
    ultimately show "\<not> glEnded ?s f' \<and> f' < glFresh ?s \<and> e' < glFresh ?s \<and> (e', k') \<in> set (glOrder ?s)"
      unfolding in_order using D(1) [OF k'(2)] other [OF k'(2,1)] by (simp add: endFlag_def)
  next
    fix e' k'
    assume "(e', k') \<in> set (glOrder ?s)"
    then have "e' \<noteq> e" and o: "(e', k') \<in> set (glOrder s)" by (simp_all add: in_order)
    moreover obtain f' where f': "glStates s k' = Some (f', e')" using D(2) [OF o] by blast
    ultimately have "k' \<noteq> k" using assms(2) by auto
    with f' show "\<exists>f. glStates ?s k' = Some (f, e')" by (simp add: states)
  next
    show "k' = k''" if "glStates ?s k' = Some (f', e')" "glStates ?s k'' = Some (f', e'')" for k' k'' f' e' e''
      using that D(3) unfolding states by blast
  qed (use D(4-7) order in \<open>auto simp: endFlag_def distinct_map_filter\<close>)
  moreover have w: "wfWrapper ?s w" if "wfWrapper s w" for w
    using that assms(2) unfolding wfWrapper_def by (auto simp: endFlag_def)
  moreover have ctx: "contextOf g ?s = contextOf g s" for g by (simp add: contextOf_def endFlag_def)
  ultimately show "wfGls maxSpans maxStates ?s"
    using c unfolding wfGls_def wfContext_def by (auto simp: list_all_iff)
  have "liveOf ((glEnded s)(f := True)) ws = filter (\<lambda>sp. keyOf sp \<noteq> k) (liveOf (glEnded s) ws)"
    if "list_all (wfWrapper s) ws" for ws
  proof -
    have "\<not> ((glEnded s)(f := True)) (snd w) \<longleftrightarrow> \<not> glEnded s (snd w) \<and> keyOf (fst w) \<noteq> k" if "wfWrapper s w" for w
    proof -
      have "k = keyOf (fst w)" if "snd w = f"
        using wrapperD(3) [OF \<open>wfWrapper s w\<close>, of k e] assms(2) that by simp
      moreover have "snd w = f" if "\<not> glEnded s (snd w)" "keyOf (fst w) = k"
        using wrapperD(2) [OF \<open>wfWrapper s w\<close> that(1)] assms(2) that(2) by simp
      ultimately show ?thesis by auto
    qed
    with that show ?thesis by (induction ws) (simp_all add: liveOf_def del: fun_upd_apply)
  qed
  then show "absGls ?s = endKey k (absGls s)"
    using c order by (auto simp: absGls_def endKey_def ctx wfContext_def) (auto simp: endFlag_def)
  show "glStates ?s k = None" and "length (glOrder ?s) < length (glOrder s)"
    using order by (simp_all add: endFlag_def)
qed
definition registerKey :: "spanKey \<Rightarrow> glsState \<Rightarrow> glsState" where
  "registerKey k s = s\<lparr>glEnded := (glEnded s)(glFresh s := False), glFresh := Suc (Suc (glFresh s)),
     glOrder := glOrder s @ [(Suc (glFresh s), k)], glStates := (glStates s)(k \<mapsto> (glFresh s, Suc (glFresh s))),
     glSize := Suc (glSize s)\<rparr>"

lemma registerKey_wf:
  assumes "wfGls maxSpans maxStates s" and "glStates s k = None" and "length (glOrder s) < maxStates"
  shows "wfGls maxSpans maxStates (registerKey k s)"
    and "absGls (registerKey k s) = (absGls s)\<lparr>lvTracked := lvTracked (absGls s) @ [k]\<rparr>"
    and "k \<notin> set (lvTracked (absGls s))"
proof -
  let ?s = "registerKey k s"
  have t: "wfTable maxStates s" and c: "wfContext maxSpans s (contextOf g s)" for g
    using assms(1) by (auto simp: wfGls_def)
  note D = tableD [OF t]
  have new: "(e, k) \<notin> set (glOrder s)" for e using D(2) assms(2) by fastforce
  have old: "e < glFresh s" if "(e, k') \<in> set (glOrder s)" for e k' using D(1,2) that by blast
  then have fresh: "Suc (glFresh s) \<notin> fst ` set (glOrder s)" by force
  show k: "k \<notin> set (lvTracked (absGls s))" using new by (auto simp: absGls_def)
  have states: "glStates ?s k' = Some (f', e') \<longleftrightarrow>
      (if k' = k then f' = glFresh s \<and> e' = Suc (glFresh s) else glStates s k' = Some (f', e'))" for k' f' e'
    by (auto simp: registerKey_def)
  have "wfTable maxStates ?s"
  proof (rule tableI)
    show "\<not> glEnded ?s f' \<and> f' < glFresh ?s \<and> e' < glFresh ?s \<and> (e', k') \<in> set (glOrder ?s)"
      if "glStates ?s k' = Some (f', e')" for k' f' e'
      using that D(1) unfolding states by (fastforce simp: registerKey_def split: if_splits)
    show "\<exists>f. glStates ?s k' = Some (f, e')" if "(e', k') \<in> set (glOrder ?s)" for k' e'
    proof (cases "k' = k")
      case True
      with that new show ?thesis unfolding states by (auto simp: registerKey_def)
    next
      case False
      with that have "(e', k') \<in> set (glOrder s)" by (auto simp: registerKey_def)
      from D(2) [OF this] False show ?thesis unfolding states by simp
    qed
    show "k' = k''" if "glStates ?s k' = Some (f', e')" "glStates ?s k'' = Some (f', e'')" for k' k'' f' e' e''
    proof -
      have "f \<noteq> glFresh s" if "glStates s j = Some (f, e)" for j f e using D(1) [OF that] by simp
      then show ?thesis using that D(3) unfolding states by (metis (full_types))
    qed
    show "distinct (map fst (glOrder ?s))" and "distinct (map snd (glOrder ?s))"
      using D(4,5) fresh k by (auto simp: registerKey_def absGls_def)
    show "glSize ?s = length (glOrder ?s)" and "length (glOrder ?s) \<le> maxStates"
      using D(6) assms(3) by (simp_all add: registerKey_def)
  qed
  moreover have w: "wfWrapper ?s w" if "wfWrapper s w" for w
  proof -
    note W = wrapperD [OF that]
    have f: "snd w \<noteq> glFresh s" using W(1) by simp
    then have e: "glEnded ?s (snd w) = glEnded s (snd w)" by (simp add: registerKey_def)
    have "k' = keyOf (fst w)" if "glStates ?s k' = Some (snd w, e)" for k' e
      using that W(3) f unfolding states by (auto split: if_splits)
    moreover have "\<exists>e. glStates ?s (keyOf (fst w)) = Some (snd w, e)" if "\<not> glEnded s (snd w)"
      using W(2) [OF that] assms(2) unfolding states by auto
    ultimately show ?thesis using W(1) unfolding wfWrapper_def e by (auto simp: registerKey_def)
  qed
  moreover have ctx: "contextOf g ?s = contextOf g s" for g by (simp add: contextOf_def registerKey_def)
  ultimately show "wfGls maxSpans maxStates ?s"
    using c unfolding wfGls_def wfContext_def by (auto simp: list_all_iff)
  have "liveOf (glEnded ?s) ws = liveOf (glEnded s) ws" if "list_all (wfWrapper s) ws" for ws
    using that by (induction ws) (auto simp: liveOf_def registerKey_def dest: wrapperD(1))
  then show "absGls ?s = (absGls s)\<lparr>lvTracked := lvTracked (absGls s) @ [k]\<rparr>"
    using c by (auto simp: absGls_def ctx wfContext_def) (auto simp: registerKey_def)
qed

lemma evictOldest_wf:
  assumes "wfGls maxSpans maxStates s" and "glOrder s \<noteq> []"
  defines "k \<equiv> snd (hd (glOrder s))"
  shows "wfGls maxSpans maxStates (evictOldest s)" and "absGls (evictOldest s) = endKey k (absGls s)"
    and "length (glOrder (evictOldest s)) < length (glOrder s)" and "glContexts (evictOldest s) = glContexts s"
    and "glStates s j = None \<Longrightarrow> glStates (evictOldest s) j = None"
proof -
  obtain e rest where o: "glOrder s = (e, k) # rest"
    using assms(2) by (cases "glOrder s") (auto simp: k_def)
  have t: "wfTable maxStates s" using assms(1) by (simp add: wfGls_def)
  note D = tableD [OF t]
  obtain f where f: "glStates s k = Some (f, e)" using D(2) [of e k] o by auto
  have "filter (\<lambda>(e', k). e' \<noteq> e) rest = rest" using D(4) o by (auto simp: filter_id_conv rev_image_eqI)
  then have "evictOldest s = endFlag k f e s" using o f by (simp add: evictOldest_def endFlag_def)
  then show "wfGls maxSpans maxStates (evictOldest s)" and "absGls (evictOldest s) = endKey k (absGls s)"
    and "length (glOrder (evictOldest s)) < length (glOrder s)" and "glContexts (evictOldest s) = glContexts s"
    and "glStates s j = None \<Longrightarrow> glStates (evictOldest s) j = None"
    using endFlag_wf [OF assms(1) f] by (simp_all add: endFlag_def)
qed

lemma stateForSpan_wf:
  assumes "wfGls maxSpans maxStates s" and "validSpan sp" and "0 < maxStates" and "stateForSpan maxStates sp s = (f, s')"
  shows "wfGls maxSpans maxStates s'" and "absGls s' = trackKey maxStates (keyOf sp) (absGls s)"
    and "\<exists>e. glStates s' (keyOf sp) = Some (f, e)" and "glContexts s' = glContexts s"
proof -
  let ?k = "keyOf sp"
  have D: "wfTable maxStates s" using assms(1) by (simp add: wfGls_def)
  have "wfGls maxSpans maxStates s' \<and> absGls s' = trackKey maxStates ?k (absGls s) \<and>
    (\<exists>e. glStates s' ?k = Some (f, e)) \<and> glContexts s' = glContexts s"
  proof (cases "glStates s ?k")
    case (Some fe)
    with assms(2,4) have s': "s' = s" "\<exists>e. glStates s ?k = Some (f, e)"
      by (cases fe, auto simp: stateForSpan_def)+
    moreover from this obtain e where "glStates s ?k = Some (f, e)" by blast
    from tableD(1) [OF D this] have "?k \<in> set (lvTracked (absGls s))"
      by (auto simp: absGls_def intro: rev_image_eqI)
    ultimately show ?thesis using assms(1) by (simp add: trackKey_def)
  next
    case None
    define s1 where "s1 = (if glSize s \<ge> maxStates then evictOldest s else s)"
    have s': "s' = registerKey ?k s1" "f = glFresh s1"
      using None assms(2,4) by (auto simp: stateForSpan_def newFlag_def Let_def registerKey_def s1_def)
    have size: "glSize s = length (glOrder s)" using tableD(6) [OF D] .
    have full: "wfGls maxSpans maxStates s1 \<and> glStates s1 ?k = None \<and> length (glOrder s1) < maxStates \<and>
      glContexts s1 = glContexts s \<and>
      absGls s1 = (if length (glOrder s) \<ge> maxStates then endKey (hd (lvTracked (absGls s))) (absGls s) else absGls s)"
    proof (cases "glSize s \<ge> maxStates")
      case True
      then have o: "glOrder s \<noteq> []" using size assms(3) by auto
      then have "hd (lvTracked (absGls s)) = snd (hd (glOrder s))" by (simp add: absGls_def hd_map)
      with True evictOldest_wf [OF assms(1) o] None tableD(7) [OF D] size show ?thesis by (auto simp: s1_def)
    next
      case False
      with None assms(1) size show ?thesis by (simp add: s1_def)
    qed
    then have R: "wfGls maxSpans maxStates s1" "glStates s1 ?k = None" "length (glOrder s1) < maxStates" by blast+
    have "?k \<notin> set (lvTracked (absGls s))"
      using tableD(2) [OF D] None by (force simp: absGls_def)
    moreover have "length (lvTracked (absGls s)) = length (glOrder s)" by (simp add: absGls_def)
    ultimately show ?thesis
      using registerKey_wf [OF R] full s' by (auto simp: trackKey_def Let_def) (simp_all add: registerKey_def)
  qed
  then show "wfGls maxSpans maxStates s'" and "absGls s' = trackKey maxStates (keyOf sp) (absGls s)"
    and "\<exists>e. glStates s' (keyOf sp) = Some (f, e)" and "glContexts s' = glContexts s" by blast+
qed
section \<open>Stacks keep the invariant\<close>

lemma compactList_filter:
  "compactList ended ws n = (filter (\<lambda>w. \<not> ended (snd w)) ws, n - int (length (filter (\<lambda>w. ended (snd w)) ws)))"
  by (induction ws arbitrary: n) auto

lemma popEnded_drop:
  "popEnded ended ws n = (dropWhile (\<lambda>w. ended (snd w)) ws, n - int (length (takeWhile (\<lambda>w. ended (snd w)) ws)))"
  by (induction ws arbitrary: n) auto

lemma liveOf_simps [simp]:
  "liveOf ended [] = []"
  "liveOf ended (w # ws) = (if ended (snd w) then liveOf ended ws else fst w # liveOf ended ws)"
  "liveOf ended (ws @ vs) = liveOf ended ws @ liveOf ended vs"
  by (simp_all add: liveOf_def)

lemma liveOf_length: "length (liveOf ended ws) \<le> length ws"
  by (simp add: liveOf_def)

lemma liveOf_dropWhile [simp]: "liveOf ended (dropWhile (\<lambda>w. ended (snd w)) ws) = liveOf ended ws"
  by (induction ws) auto

lemma bottomSpan_Cons: "ws \<noteq> [] \<Longrightarrow> bottomSpan (w # ws) = bottomSpan ws"
  by (simp add: bottomSpan_def)

lemma bottomSpan_dropWhile: "dropWhile P ws \<noteq> [] \<Longrightarrow> bottomSpan (dropWhile P ws) = bottomSpan ws"
  by (induction ws) (auto simp: bottomSpan_def split: if_splits)

lemma filter_partition_length: "length (filter P xs) + length (filter (\<lambda>x. \<not> P x) xs) = length xs"
  by (rule sum_length_filter_compl)

lemma wfContext_part:
  assumes "wfContext maxSpans s tc" and "set ws \<subseteq> set (tcStack tc)" and "length ws \<le> maxSpans"
    and "l \<in> {None, bottomSpan ws}"
  shows "wfContext maxSpans s \<lparr>tcStack = ws, tcN = int (length ws), tcLcs = l\<rparr>"
  using assms by (auto simp: wfContext_def list_all_iff)

lemma compact_wf:
  assumes "wfContext maxSpans s tc"
  shows "wfContext maxSpans s (compact (glEnded s) tc)"
    and "liveOf (glEnded s) (tcStack (compact (glEnded s) tc)) = liveOf (glEnded s) (tcStack tc)"
    and "tcN (compact (glEnded s) tc) = int (length (liveOf (glEnded s) (tcStack tc)))"
proof -
  let ?live = "filter (\<lambda>w. \<not> glEnded s (snd w)) (tcStack tc)"
  have n: "tcN tc = int (length (tcStack tc))" and max: "length (tcStack tc) \<le> maxSpans"
    using assms by (simp_all add: wfContext_def)
  have "tcN tc - int (length (filter (\<lambda>w. glEnded s (snd w)) (tcStack tc))) = int (length ?live)"
    using filter_partition_length [of "\<lambda>w. glEnded s (snd w)" "tcStack tc"] n by simp
  then have c: "compact (glEnded s) tc = \<lparr>tcStack = ?live, tcN = int (length ?live), tcLcs = bottomSpan ?live\<rparr>"
    by (simp add: compact_def compactList_filter)
  have "length ?live \<le> maxSpans" using max length_filter_le le_trans by blast
  then show "wfContext maxSpans s (compact (glEnded s) tc)"
    unfolding c by (intro wfContext_part [OF assms]) auto
  show "liveOf (glEnded s) (tcStack (compact (glEnded s) tc)) = liveOf (glEnded s) (tcStack tc)"
    and "tcN (compact (glEnded s) tc) = int (length (liveOf (glEnded s) (tcStack tc)))"
    by (simp_all add: c liveOf_def)
qed

lemma tail_wf:
  assumes "wfContext maxSpans s tc" and "tailSpan (glEnded s) tc = (r, tc')"
  shows "wfContext maxSpans s tc'" and "liveOf (glEnded s) (tcStack tc') = liveOf (glEnded s) (tcStack tc)"
    and "r = (case liveOf (glEnded s) (tcStack tc) of [] \<Rightarrow> None | sp # _ \<Rightarrow> Some sp)"
    and "r = None \<Longrightarrow> tcStack tc' = []"
    and "r = Some sp \<Longrightarrow> \<exists>f ws. tcStack tc' = (sp, f) # ws \<and> \<not> glEnded s f"
proof -
  let ?ended = "\<lambda>w. glEnded s (snd w)"
  define ws where "ws = dropWhile ?ended (tcStack tc)"
  have n: "tcN tc = int (length (tcStack tc))" and max: "length (tcStack tc) \<le> maxSpans"
    and lcs: "tcLcs tc \<in> {None, bottomSpan (tcStack tc)}" using assms(1) by (simp_all add: wfContext_def)
  have "length (takeWhile ?ended (tcStack tc)) + length ws = length (tcStack tc)"
    unfolding ws_def by (metis length_append takeWhile_dropWhile_id)
  then have c: "tcN tc - int (length (takeWhile ?ended (tcStack tc))) = int (length ws)" using n by simp
  have tc': "tc' = \<lparr>tcStack = ws, tcN = int (length ws), tcLcs = (if ws = [] then None else tcLcs tc)\<rparr>"
    and r: "r = (case ws of [] \<Rightarrow> None | w # _ \<Rightarrow> Some (fst w))"
    using assms(2) c
    by (cases ws; auto simp: tailSpan_def popEnded_drop ws_def [symmetric])+
  have "length ws \<le> maxSpans" unfolding ws_def using max length_dropWhile_le le_trans by blast
  then show "wfContext maxSpans s tc'"
    unfolding tc' using lcs bottomSpan_dropWhile [of ?ended "tcStack tc"] set_dropWhileD
    by (intro wfContext_part [OF assms(1)]) (auto simp: ws_def [symmetric], auto simp: ws_def dest: set_dropWhileD)
  show live: "liveOf (glEnded s) (tcStack tc') = liveOf (glEnded s) (tcStack tc)" by (simp add: tc' ws_def)
  have head: "\<not> glEnded s f" if "ws = (sp, f) # vs" for sp f vs
    using hd_dropWhile [of ?ended "tcStack tc"] that by (simp add: ws_def [symmetric])
  show "r = (case liveOf (glEnded s) (tcStack tc) of [] \<Rightarrow> None | sp # _ \<Rightarrow> Some sp)"
    unfolding live [symmetric] using head by (cases ws) (auto simp: tc' r)
  show "r = None \<Longrightarrow> tcStack tc' = []" using r by (auto simp: tc' split: list.splits)
  show "r = Some sp \<Longrightarrow> \<exists>f ws. tcStack tc' = (sp, f) # ws \<and> \<not> glEnded s f"
    using r head by (cases ws) (auto simp: tc')
qed

lemma wfContext_contexts [simp]: "wfContext maxSpans (s\<lparr>glContexts := c\<rparr>) = wfContext maxSpans s"
proof -
  have "wfWrapper (s\<lparr>glContexts := c\<rparr>) = wfWrapper s" by (intro ext) (simp add: wfWrapper_def)
  then show ?thesis by (intro ext) (simp add: wfContext_def)
qed

lemma wfTable_contexts [simp]: "wfTable maxStates (s\<lparr>glContexts := c\<rparr>) = wfTable maxStates s"
  by (simp add: wfTable_def)

lemma setContext_wf:
  assumes "wfGls maxSpans maxStates s" and "wfContext maxSpans s tc"
  shows "wfGls maxSpans maxStates (setContext g tc s)"
    and "absGls (setContext g tc s) = (absGls s)\<lparr>lvSpans := (lvSpans (absGls s))(g := liveOf (glEnded s) (tcStack tc))\<rparr>"
proof -
  have "contextOf h (setContext g tc s) = (if h = g then tc else contextOf h s)" for h
    by (simp add: contextOf_def setContext_def)
  with assms show "wfGls maxSpans maxStates (setContext g tc s)"
    and "absGls (setContext g tc s) = (absGls s)\<lparr>lvSpans := (lvSpans (absGls s))(g := liveOf (glEnded s) (tcStack tc))\<rparr>"
    by (auto simp: wfGls_def absGls_def fun_eq_iff) (simp_all add: setContext_def)
qed

lemma setContext_same:
  assumes "wfGls maxSpans maxStates s" and "wfContext maxSpans s tc"
    and "liveOf (glEnded s) (tcStack tc) = liveOf (glEnded s) (tcStack (contextOf g s))"
  shows "absGls (setContext g tc s) = absGls s"
  using setContext_wf(2) [OF assms(1,2), of g] assms(3) by (simp add: absGls_def fun_upd_idem)

lemma stateForSpan_contexts:
  "stateForSpan m sp (s\<lparr>glContexts := c\<rparr>) = (case stateForSpan m sp s of (f, s') \<Rightarrow> (f, s'\<lparr>glContexts := c\<rparr>))"
  by (auto simp: stateForSpan_def newFlag_def evictOldest_def Let_def split: option.splits list.splits prod.splits)
section \<open>Operations refine the lists\<close>

lemma start_refines:
  assumes "wfGls maxSpans maxStates s" and "validSpan sp" and "0 < maxStates"
  shows "wfGls maxSpans maxStates (traceContextAddSpan maxSpans maxStates g sp s) \<and>
    absGls (traceContextAddSpan maxSpans maxStates g sp s) = snd (liveStep maxSpans maxStates (StartSpan g sp) (absGls s))"
proof -
  let ?tc = "contextOf g s"
  have tc: "wfContext maxSpans s ?tc" using assms(1) by (simp add: wfGls_def)
  define tc1 where "tc1 = (if tcN ?tc \<ge> int maxSpans then compact (glEnded s) ?tc else ?tc)"
  have tc1: "wfContext maxSpans s tc1" "liveOf (glEnded s) (tcStack tc1) = liveOf (glEnded s) (tcStack ?tc)"
    using tc compact_wf [OF tc] by (simp_all add: tc1_def)
  have live: "lvSpans (absGls s) g = liveOf (glEnded s) (tcStack ?tc)" by (simp add: absGls_def)
  have full: "tcN tc1 \<ge> int maxSpans \<longleftrightarrow> length (lvSpans (absGls s) g) \<ge> maxSpans"
    using tc compact_wf(3) [OF tc] liveOf_length [of "glEnded s" "tcStack ?tc"]
    by (auto simp: tc1_def live wfContext_def)
  define sA where "sA = setContext g tc1 s"
  have sA: "wfGls maxSpans maxStates sA" "absGls sA = absGls s" "contextOf g sA = tc1" "glEnded sA = glEnded s"
    using setContext_wf(1) [OF assms(1) tc1(1)] setContext_same [OF assms(1) tc1]
    by (simp_all add: sA_def) (simp_all add: contextOf_def setContext_def)
  show ?thesis
  proof (cases "tcN tc1 \<ge> int maxSpans")
    case True
    then have "traceContextAddSpan maxSpans maxStates g sp s = sA"
      by (simp add: traceContextAddSpan_def addSpan_def tc1_def [symmetric] sA_def)
    with sA full True show ?thesis by simp
  next
    case False
    obtain f s' where f: "stateForSpan maxStates sp s = (f, s')" by fastforce
    define tc2 where "tc2 = \<lparr>tcStack = (sp, f) # tcStack tc1, tcN = tcN tc1 + 1,
      tcLcs = (if tcN tc1 = 0 then Some sp else tcLcs tc1)\<rparr>"
    have add: "traceContextAddSpan maxSpans maxStates g sp s = setContext g tc2 s'"
      using False f by (simp add: traceContextAddSpan_def addSpan_def tc1_def [symmetric] tc2_def)
    define sB where "sB = s'\<lparr>glContexts := glContexts sA\<rparr>"
    have "stateForSpan maxStates sp sA = (f, sB)"
      using stateForSpan_contexts [where m = maxStates and sp = sp and s = s and c = "glContexts sA"] f by (simp add: sA_def sB_def setContext_def)
    from stateForSpan_wf [OF sA(1) assms(2,3) this]
    have sB: "wfGls maxSpans maxStates sB" "absGls sB = trackKey maxStates (keyOf sp) (absGls s)"
      and st: "\<exists>e. glStates sB (keyOf sp) = Some (f, e)" using sA(2) by auto
    have D: "wfTable maxStates sB" using sB(1) by (simp add: wfGls_def)
    have ctx: "contextOf g sB = tc1" using sA(3) by (simp add: contextOf_def sB_def)
    have tc1B: "wfContext maxSpans sB tc1" using sB(1) ctx unfolding wfGls_def by metis
    have w: "wfWrapper sB (sp, f)"
      using st tableD(1,3) [OF D] unfolding wfWrapper_def by (metis fst_conv snd_conv)
    have nf: "\<not> glEnded sB f" using st tableD(1) [OF D] by blast
    have "tcLcs tc2 \<in> {None, bottomSpan (tcStack tc2)}"
      using tc1B bottomSpan_Cons [of "tcStack tc1" "(sp, f)"] by (auto simp: tc2_def wfContext_def bottomSpan_def)
    then have tc2: "wfContext maxSpans sB tc2" using tc1B w False by (auto simp: wfContext_def tc2_def)
    have "setContext g tc2 s' = setContext g tc2 sB"
      using stateForSpan_wf(4) [OF assms(1-3) f] by (simp add: setContext_def sB_def sA_def)
    with add have r: "traceContextAddSpan maxSpans maxStates g sp s = setContext g tc2 sB" by simp
    have "liveOf (glEnded sB) (tcStack tc2) = sp # lvSpans (absGls sB) g"
      using nf ctx by (simp add: tc2_def absGls_def)
    with r setContext_wf [OF sB(1) tc2, of g] sB(2) full False show ?thesis by (simp add: Let_def)
  qed
qed

lemma mark_refines:
  assumes "wfGls maxSpans maxStates s" and "validSpan sp"
  shows "wfGls maxSpans maxStates (markSpanEnded sp s)" and "absGls (markSpanEnded sp s) = endKey (keyOf sp) (absGls s)"
    and "glStates (markSpanEnded sp s) (keyOf sp) = None"
proof -
  let ?k = "keyOf sp"
  have D: "wfTable maxStates s" and C: "wfContext maxSpans s (contextOf g s)" for g
    using assms(1) by (simp_all add: wfGls_def)
  have "wfGls maxSpans maxStates (markSpanEnded sp s) \<and> absGls (markSpanEnded sp s) = endKey ?k (absGls s) \<and>
    glStates (markSpanEnded sp s) ?k = None"
  proof (cases "glStates s ?k")
    case (Some fe)
    obtain f e where fe: "fe = (f, e)" by (cases fe)
    with Some assms(2) have "markSpanEnded sp s = endFlag ?k f e s" by (simp add: markSpanEnded_def endFlag_def)
    with endFlag_wf [OF assms(1)] Some fe show ?thesis by simp
  next
    case None
    then have same: "markSpanEnded sp s = s" using assms(2) by (simp add: markSpanEnded_def)
    have "keyOf (fst w) \<noteq> ?k" if "wfWrapper s w" "\<not> glEnded s (snd w)" for w
      using wrapperD(2) [OF that] None by auto
    then have "filter (\<lambda>sp'. keyOf sp' \<noteq> ?k) (liveOf (glEnded s) ws) = liveOf (glEnded s) ws"
      if "list_all (wfWrapper s) ws" for ws
      using that by (induction ws) auto
    then have "lvSpans (endKey ?k (absGls s)) = lvSpans (absGls s)"
      using C by (auto simp: endKey_def absGls_def wfContext_def)
    moreover have "j \<noteq> ?k" if "(e, j) \<in> set (glOrder s)" for e j using tableD(2) [OF D that] None by auto
    then have "lvTracked (endKey ?k (absGls s)) = lvTracked (absGls s)"
      by (force simp: endKey_def absGls_def filter_id_conv)
    ultimately have "endKey ?k (absGls s) = absGls s" by (rule liveState.equality) simp
    with same None assms(1) show ?thesis by simp
  qed
  then show "wfGls maxSpans maxStates (markSpanEnded sp s)" and "absGls (markSpanEnded sp s) = endKey (keyOf sp) (absGls s)"
    and "glStates (markSpanEnded sp s) (keyOf sp) = None" by blast+
qed

lemma splitAtSpan_parts:
  "splitAtSpan k ws = Some (xs, w, ys) \<Longrightarrow> ws = xs @ w # ys \<and> keyOf (fst w) = k"
  by (induction k ws arbitrary: xs rule: splitAtSpan.induct) (auto split: if_splits)

lemma end_refines:
  assumes "wfGls maxSpans maxStates s" and "validSpan sp"
  shows "wfGls maxSpans maxStates (traceContextDelSpan g sp s) \<and>
    absGls (traceContextDelSpan g sp s) = snd (liveStep maxSpans maxStates (EndSpan g sp) (absGls s))"
proof -
  define s1 where "s1 = markSpanEnded sp s"
  note M = mark_refines [OF assms, folded s1_def]
  show ?thesis
  proof (cases "glContexts s1 g")
    case None
    with M show ?thesis by (simp add: traceContextDelSpan_def s1_def [symmetric])
  next
    case (Some tc)
    then have ctx: "contextOf g s1 = tc" by (simp add: contextOf_def)
    then have tc: "wfContext maxSpans s1 tc" using M(1) unfolding wfGls_def by metis
    obtain tc' ended' where del: "delSpan sp tc (glEnded s1) = (tc', ended')" by fastforce
    have r: "traceContextDelSpan g sp s = setContext g tc' (s1\<lparr>glEnded := ended'\<rparr>)"
      using Some del by (simp add: traceContextDelSpan_def s1_def [symmetric])
    have "ended' = glEnded s1 \<and> wfContext maxSpans s1 tc' \<and> liveOf (glEnded s1) (tcStack tc') = liveOf (glEnded s1) (tcStack tc)"
    proof (cases "tcN tc = 0 \<or> splitAtSpan (keyOf sp) (tcStack tc) = None")
      case True
      then have "delSpan sp tc (glEnded s1) = (tc, glEnded s1)" by (auto simp: delSpan_def)
      with del tc show ?thesis by simp
    next
      case False
      then obtain xs sp' f ys where split: "splitAtSpan (keyOf sp) (tcStack tc) = Some (xs, (sp', f), ys)" by auto
      from splitAtSpan_parts [OF split] have stack: "tcStack tc = xs @ (sp', f) # ys" and k: "keyOf sp' = keyOf sp"
        by auto
      have "wfWrapper s1 (sp', f)" using tc stack by (simp add: wfContext_def)
      from wrapperD(2) [OF this] M(3) k have f: "glEnded s1 f" by auto
      have res: "tc' = \<lparr>tcStack = xs @ ys, tcN = int (length (xs @ ys)),
          tcLcs = (if ys = [] then bottomSpan (xs @ ys) else tcLcs tc)\<rparr>" "ended' = glEnded s1"
        using del False split tc stack f by (auto simp: delSpan_def wfContext_def fun_upd_idem)
      have "bottomSpan (xs @ (sp', f) # ys) = bottomSpan (xs @ ys)" if "ys \<noteq> []"
        using that by (simp add: bottomSpan_def)
      then have "wfContext maxSpans s1 tc'"
        unfolding res using tc stack by (intro wfContext_part [OF tc]) (auto simp: wfContext_def)
      then show ?thesis using res f stack by simp
    qed
    then have "setContext g tc' (s1\<lparr>glEnded := ended'\<rparr>) = setContext g tc' s1" and "wfContext maxSpans s1 tc'"
      and "liveOf (glEnded s1) (tcStack tc') = liveOf (glEnded s1) (tcStack (contextOf g s1))"
      using ctx by auto
    with r M setContext_wf(1) [OF M(1), of tc' g] setContext_same [OF M(1), of tc' g] show ?thesis by simp
  qed
qed
fun validOp :: "glsOp \<Rightarrow> bool" where
  "validOp (StartSpan g sp) = validSpan sp"
| "validOp (EndSpan g sp) = validSpan sp"
| "validOp (CurrentSpan g) = True"
| "validOp (Spawn g child) = True"
| "validOp (Clear g) = True"

lemma context_wf: "wfGls maxSpans maxStates s \<Longrightarrow> wfContext maxSpans s (contextOf g s)"
  by (simp add: wfGls_def)

lemma emptyContext_wf [simp]: "wfContext maxSpans s emptyContext"
  by (simp add: wfContext_def emptyContext_def)

lemma current_refines:
  assumes "wfGls maxSpans maxStates s" and "spanFromGLS g s = (r, s')"
  shows "wfGls maxSpans maxStates s' \<and> absGls s' = absGls s \<and> r = fst (liveStep maxSpans maxStates (CurrentSpan g) (absGls s))"
proof (cases "glContexts s g")
  case None
  then have "lvSpans (absGls s) g = []" by (simp add: absGls_def contextOf_def emptyContext_def)
  with None assms show ?thesis by (simp add: spanFromGLS_def)
next
  case (Some tc)
  then have ctx: "contextOf g s = tc" by (simp add: contextOf_def)
  obtain tc' where t: "tailSpan (glEnded s) tc = (r, tc')" and s': "s' = setContext g tc' s"
    using assms(2) Some by (auto simp: spanFromGLS_def split: prod.splits)
  note T = tail_wf [OF context_wf [OF assms(1), of g, unfolded ctx] t]
  have "lvSpans (absGls s) g = liveOf (glEnded s) (tcStack tc)" by (simp add: absGls_def ctx)
  with T(3) setContext_wf(1) [OF assms(1) T(1)] setContext_same [OF assms(1) T(1), of g] T(2) ctx s'
  show ?thesis by simp
qed

lemma spawn_refines:
  assumes "wfGls maxSpans maxStates s" and "0 < maxSpans"
  shows "wfGls maxSpans maxStates (spawnGoroutine g child s) \<and>
    absGls (spawnGoroutine g child s) = snd (liveStep maxSpans maxStates (Spawn g child) (absGls s))"
proof (cases "glContexts s g")
  case None
  then have "lvSpans (absGls s) g = []" by (simp add: absGls_def contextOf_def emptyContext_def)
  moreover have "spawnGoroutine g child s = s\<lparr>glContexts := (glContexts s)(child := None)\<rparr>"
    using None by (simp add: spawnGoroutine_def)
  moreover have "contextOf h (s\<lparr>glContexts := (glContexts s)(child := None)\<rparr>) = (if h = child then emptyContext else contextOf h s)" for h
    by (simp add: contextOf_def)
  ultimately show ?thesis
    using assms(1) by (auto simp: wfGls_def absGls_def fun_eq_iff emptyContext_def [THEN arg_cong [where f = tcStack]])
next
  case (Some tc)
  then have ctx: "contextOf g s = tc" by (simp add: contextOf_def)
  obtain r tc' where t: "tailSpan (glEnded s) tc = (r, tc')" by fastforce
  note T = tail_wf [OF context_wf [OF assms(1), of g, unfolded ctx] t]
  define s1 where "s1 = setContext g tc' s"
  have s1: "wfGls maxSpans maxStates s1" "absGls s1 = absGls s"
    using setContext_wf(1) [OF assms(1) T(1), of g] setContext_same [OF assms(1) T(1), of g] T(2) ctx
    by (simp_all add: s1_def)
  have live: "lvSpans (absGls s) g = liveOf (glEnded s) (tcStack tc)" by (simp add: absGls_def ctx)
  define new where "new = fst (cloneContext (glEnded s) tc)"
  have r: "spawnGoroutine g child s = setContext child new s1"
    using Some t by (simp add: spawnGoroutine_def cloneContext_def new_def s1_def split: option.split)
  have "wfContext maxSpans s new \<and> liveOf (glEnded s) (tcStack new) = take 1 (liveOf (glEnded s) (tcStack tc))"
  proof (cases r)
    case None
    then have "new = emptyContext" and "liveOf (glEnded s) (tcStack tc) = []"
      using t T(3) by (auto simp: new_def cloneContext_def split: list.splits)
    then show ?thesis by simp (simp add: emptyContext_def)
  next
    case (Some sp)
    with T(5) obtain f ws where ws: "tcStack tc' = (sp, f) # ws" "\<not> glEnded s f" by blast
    then have new: "new = \<lparr>tcStack = [(sp, f)], tcN = int (length [(sp, f)]), tcLcs = None\<rparr>"
      using Some t by (simp add: new_def cloneContext_def)
    have "wfContext maxSpans s new" unfolding new
      using assms(2) ws by (intro wfContext_part [OF T(1)]) auto
    moreover have "take 1 (liveOf (glEnded s) (tcStack tc)) = [sp]" using T(3) Some by (auto split: list.splits)
    ultimately show ?thesis using new ws(2) by simp
  qed
  moreover have "wfContext maxSpans s1 = wfContext maxSpans s" and "glEnded s1 = glEnded s"
    by (simp_all add: s1_def setContext_def)
  ultimately show ?thesis using setContext_wf [OF s1(1), of new child] r s1(2) live by simp
qed

lemma step_refines:
  assumes "wfGls maxSpans maxStates s" and "validOp op" and "0 < maxSpans" and "0 < maxStates"
    and "glsStep maxSpans maxStates op s = (r, s')"
  shows "wfGls maxSpans maxStates s' \<and> liveStep maxSpans maxStates op (absGls s) = (r, absGls s')"
proof (cases op)
  case (StartSpan g sp)
  with start_refines [OF assms(1), of sp g] assms show ?thesis by (simp add: prod_eq_iff)
next
  case (EndSpan g sp)
  with end_refines [OF assms(1), of sp g] assms show ?thesis by (simp add: prod_eq_iff)
next
  case (CurrentSpan g)
  with current_refines [OF assms(1), of g r s'] assms show ?thesis by (simp add: prod_eq_iff)
next
  case (Spawn g child)
  with spawn_refines [OF assms(1,3), of g child] assms show ?thesis by (simp add: prod_eq_iff)
next
  case (Clear g)
  have "wfContext maxSpans s emptyContext" by simp
  from setContext_wf [OF assms(1) this, of g] Clear assms(5) show ?thesis
    by (auto simp: ClearTraceContext_def emptyContext_def)
qed

lemma run_refines:
  "wfGls maxSpans maxStates s \<Longrightarrow> list_all validOp ops \<Longrightarrow> 0 < maxSpans \<Longrightarrow> 0 < maxStates \<Longrightarrow>
     glsRun maxSpans maxStates ops s = (rs, s') \<Longrightarrow>
     wfGls maxSpans maxStates s' \<and> liveRun maxSpans maxStates ops (absGls s) = (rs, absGls s')"
proof (induction ops arbitrary: s rs)
  case Nil
  then show ?case by simp
next
  case (Cons op ops)
  obtain r s1 where r: "glsStep maxSpans maxStates op s = (r, s1)" by fastforce
  obtain rs1 where rs: "glsRun maxSpans maxStates ops s1 = (rs1, s')" "rs = r # rs1"
    using Cons.prems(5) r by (auto split: prod.splits)
  from step_refines [OF Cons.prems(1) _ Cons.prems(3,4) r] Cons.prems(2)
  have "wfGls maxSpans maxStates s1 \<and> liveStep maxSpans maxStates op (absGls s) = (r, absGls s1)" by simp
  with Cons.IH [of s1 rs1] Cons.prems rs show ?case by simp
qed

definition emptyLive :: liveState where
  "emptyLive = \<lparr>lvSpans = (\<lambda>_. []), lvTracked = []\<rparr>"

lemma abs_empty: "absGls emptyGls = emptyLive"
  by (simp add: absGls_def emptyGls_def emptyLive_def contextOf_def emptyContext_def)

text \<open>C31: stacks, flags and the table implement lists of live spans. Whatever valid spans any
  goroutines start, end, look up and pass on to new goroutines, in any order, each look-up finds
  the innermost span that is live on its goroutine according to the lists, and neither limit is
  exceeded.\<close>

theorem gls_refines_lists:
  assumes "list_all validOp ops" and "0 < maxSpans" and "0 < maxStates"
    and "glsRun maxSpans maxStates ops emptyGls = (rs, s)"
  shows "liveRun maxSpans maxStates ops emptyLive = (rs, absGls s) \<and>
    (\<forall>g. tcN (contextOf g s) = int (length (tcStack (contextOf g s))) \<and> tcN (contextOf g s) \<le> int maxSpans) \<and>
    glSize s = length (glOrder s) \<and> glSize s \<le> maxStates"
proof -
  note R = run_refines [OF wf_empty assms]
  then have "wfContext maxSpans s (contextOf g s)" for g by (simp add: wfGls_def)
  then have "tcN (contextOf g s) = int (length (tcStack (contextOf g s))) \<and> tcN (contextOf g s) \<le> int maxSpans" for g
    by (simp add: wfContext_def)
  moreover have "wfTable maxStates s" using R by (simp add: wfGls_def)
  then have "glSize s = length (glOrder s) \<and> glSize s \<le> maxStates" using tableD(6,7) by metis
  moreover have "liveRun maxSpans maxStates ops emptyLive = (rs, absGls s)" using R by (simp add: abs_empty)
  ultimately show ?thesis by blast
qed

definition sampleSpan :: "nat \<Rightarrow> goSpan" where
  "sampleSpan i = \<lparr>spTraceID = 1, spSpanID = of_nat i, spObject = i\<rparr>"

definition sampleOps :: "glsOp list" where
  "sampleOps = [StartSpan 0 (sampleSpan 1), Spawn 0 1, StartSpan 1 (sampleSpan 2), CurrentSpan 1,
     EndSpan 0 (sampleSpan 1), CurrentSpan 0, EndSpan 1 (sampleSpan 2), CurrentSpan 1]"

theorem gls_refines_lists_witness:
  "fst (liveRun 10 10 sampleOps emptyLive) =
     [None, None, None, Some (sampleSpan 2), None, None, None, None] \<and>
   glSize (snd (glsRun 10 10 sampleOps emptyGls)) \<le> 10"
proof -
  obtain rs s where r: "glsRun 10 10 sampleOps emptyGls = (rs, s)" by fastforce
  have v: "list_all validOp sampleOps" by (simp add: sampleOps_def sampleSpan_def validSpan_def)
  have rs: "fst (glsRun 10 10 sampleOps emptyGls) = [None, None, None, Some (sampleSpan 2), None, None, None, None]"
    by code_simp
  from gls_refines_lists [OF v _ _ r] r rs show ?thesis by simp
qed

definition keyAbsent :: "spanKey \<Rightarrow> liveState \<Rightarrow> bool" where
  "keyAbsent k a \<longleftrightarrow> (\<forall>g. k \<notin> keyOf ` set (lvSpans a g))"

lemma keyAbsent_end [simp]: "keyAbsent k a \<Longrightarrow> keyAbsent k (endKey j a)" "keyAbsent k (endKey k a)"
  by (auto simp: keyAbsent_def endKey_def)

lemma keyAbsent_track [simp]: "keyAbsent k a \<Longrightarrow> keyAbsent k (trackKey m j a)"
  using keyAbsent_end(1) [of k a "hd (lvTracked a)"] by (auto simp: trackKey_def Let_def keyAbsent_def)

lemma keyAbsent_update:
  "keyAbsent k a \<Longrightarrow> k \<notin> keyOf ` set xs \<Longrightarrow> keyAbsent k (a\<lparr>lvSpans := (lvSpans a)(g := xs)\<rparr>)"
  by (simp add: keyAbsent_def)

lemma liveStep_absent:
  assumes "keyAbsent k a" and "\<And>g sp. op = StartSpan g sp \<Longrightarrow> keyOf sp \<noteq> k"
    and "liveStep maxSpans maxStates op a = (r, a')"
  shows "keyAbsent k a' \<and> (\<forall>sp. r = Some sp \<longrightarrow> keyOf sp \<noteq> k)"
proof (cases op)
  case (StartSpan g sp)
  let ?b = "trackKey maxStates (keyOf sp) a"
  have b: "keyAbsent k ?b" using assms(1) by simp
  have "k \<notin> keyOf ` set (sp # lvSpans ?b g)" using b assms(2) [OF StartSpan] by (auto simp: keyAbsent_def)
  from keyAbsent_update [OF b this, of g] assms(1,3) StartSpan show ?thesis by (auto simp: Let_def split: if_splits)
next
  case (CurrentSpan g)
  with assms(1,3) show ?thesis by (cases "lvSpans a g") (auto simp: keyAbsent_def dest: spec [of _ g])
next
  case (Spawn g child)
  have "k \<notin> keyOf ` set (take 1 (lvSpans a g))"
    using assms(1) set_take_subset [of 1 "lvSpans a g"] by (auto simp: keyAbsent_def)
  with keyAbsent_update [OF assms(1), of "take 1 (lvSpans a g)" child] assms(3) Spawn show ?thesis by auto
next
  case (Clear g)
  with keyAbsent_update [OF assms(1), of "[]" g] assms(3) show ?thesis by auto
qed (use assms in auto)

lemma liveRun_absent:
  "keyAbsent k a \<Longrightarrow> \<forall>g sp. StartSpan g sp \<in> set ops \<longrightarrow> keyOf sp \<noteq> k \<Longrightarrow>
     \<forall>sp. Some sp \<in> set (fst (liveRun maxSpans maxStates ops a)) \<longrightarrow> keyOf sp \<noteq> k"
proof (induction ops arbitrary: a)
  case Nil
  then show ?case by simp
next
  case (Cons op ops)
  obtain r a' where r: "liveStep maxSpans maxStates op a = (r, a')" by fastforce
  have "keyAbsent k a' \<and> (\<forall>sp. r = Some sp \<longrightarrow> keyOf sp \<noteq> k)"
    by (rule liveStep_absent [OF Cons.prems(1) _ r]) (use Cons.prems(2) in auto)
  with Cons.IH [of a'] Cons.prems(2) r show ?case by (auto split: prod.split)
qed

lemma liveRun_append:
  "liveRun m n (xs @ ys) a = (case liveRun m n xs a of (r, b) \<Rightarrow> (case liveRun m n ys b of (r', c) \<Rightarrow> (r @ r', c)))"
  by (induction xs arbitrary: a) (auto split: prod.splits)

lemma liveRun_length: "length (fst (liveRun m n xs a)) = length xs"
proof (induction xs arbitrary: a)
  case (Cons x xs)
  obtain r b where "liveStep m n x a = (r, b)" by fastforce
  with Cons.IH [of b] show ?case by (simp add: split_beta)
qed simp

text \<open>A span that has ended is the parent of nothing. After its end, on whichever goroutine,
  no look-up on any goroutine finds it, as long as it is not started again.\<close>

theorem ended_span_not_found:
  assumes "list_all validOp (before @ EndSpan g sp # later)" and "0 < maxSpans" and "0 < maxStates"
    and "\<forall>h sp'. StartSpan h sp' \<in> set later \<longrightarrow> keyOf sp' \<noteq> keyOf sp"
  shows "\<forall>sp'. Some sp' \<in> set (drop (length before)
      (fst (glsRun maxSpans maxStates (before @ EndSpan g sp # later) emptyGls))) \<longrightarrow> keyOf sp' \<noteq> keyOf sp"
proof -
  obtain rs s where r: "glsRun maxSpans maxStates (before @ EndSpan g sp # later) emptyGls = (rs, s)" by fastforce
  note R = run_refines [OF wf_empty assms(1-3) r, unfolded abs_empty]
  obtain rs1 a where a: "liveRun maxSpans maxStates before emptyLive = (rs1, a)" by fastforce
  let ?b = "endKey (keyOf sp) a"
  have rs: "rs = rs1 @ None # fst (liveRun maxSpans maxStates later ?b)"
    using R a by (auto simp: liveRun_append split: prod.splits)
  have "length rs1 = length before" using liveRun_length [of maxSpans maxStates before emptyLive] a by simp
  then have "drop (length before) rs = None # fst (liveRun maxSpans maxStates later ?b)" by (simp add: rs)
  moreover from liveRun_absent [OF keyAbsent_end(2), of later "keyOf sp" maxSpans maxStates a] assms(4)
  have "\<forall>sp'. Some sp' \<in> set (fst (liveRun maxSpans maxStates later ?b)) \<longrightarrow> keyOf sp' \<noteq> keyOf sp" by blast
  ultimately show ?thesis by (simp add: r)
qed

theorem ended_span_not_found_witness:
  "(1, 1) \<notin> keyOf ` {sp'. Some sp' \<in> set (drop 2 (fst (glsRun 10 10
      [StartSpan 0 (sampleSpan 1), Spawn 0 1, EndSpan 0 (sampleSpan 1), CurrentSpan 1] emptyGls)))}"
proof -
  have v: "list_all validOp ([StartSpan 0 (sampleSpan 1), Spawn 0 1] @ EndSpan 0 (sampleSpan 1) # [CurrentSpan 1])"
    by (simp add: sampleSpan_def validSpan_def)
  from ended_span_not_found [OF v, of 10 10] show ?thesis by (auto simp: keyOf_def sampleSpan_def numeral_2_eq_2)
qed

end
