(* ===== verification/Go_Url.thy ===== *)
theory Go_Url
  imports Go_Syntax
begin

text \<open>
  \<open>url.Parse\<close> of Go's \<open>net/url\<close>, as far as data source names need it: the scheme, the host, the
  path and the query of a URL, and \<open>Hostname\<close>, \<open>Port\<close>, \<open>Query\<close>. \<open>net.JoinHostPort\<close> and
  \<open>net.SplitHostPort\<close> come with it.

  What is in brackets in a host must be an IPv6 address; this check is a parameter. A bracket that
  is not the first character of the host is rejected, as the current releases do.

  Shown: how a URL with user information is taken apart, and that a host and a port that were
  joined are split again.
\<close>

section \<open>Escapes\<close>

datatype escapeMode = EncHost | EncZone | EncPath | EncUser | EncQuery | EncFragment

definition isAlnum :: "char \<Rightarrow> bool" where
  "isAlnum c = (let n = of_char c :: nat in
     48 \<le> n \<and> n \<le> 57 \<or> 65 \<le> n \<and> n \<le> 90 \<or> 97 \<le> n \<and> n \<le> 122)"

text \<open>\<open>shouldEscape\<close> in a host or a zone\<close>

definition hostEscapes :: "char \<Rightarrow> bool" where
  "hostEscapes c \<longleftrightarrow> \<not> isAlnum c \<and> c \<notin> set ''!$&()*+,;=:[]<>-_.~'' \<and> c \<noteq> CHR 0x27 \<and> c \<noteq> CHR 0x22"

definition isAscii :: "char \<Rightarrow> bool" where
  "isAscii c \<longleftrightarrow> (of_char c :: nat) < 0x80"

text \<open>The two characters after a percent sign\<close>

definition badEscape :: "escapeMode \<Rightarrow> char \<Rightarrow> char \<Rightarrow> nat \<Rightarrow> nat \<Rightarrow> bool" where
  "badEscape m a b x y \<longleftrightarrow> [a, b] \<noteq> ''25'' \<and>
     (m = EncHost \<and> x < 8 \<or>
      m = EncZone \<and> 16 * x + y \<noteq> 32 \<and> hostEscapes (char_of (16 * x + y)))"

fun urlUnescape :: "escapeMode \<Rightarrow> string \<Rightarrow> string option" where
  "urlUnescape m [] = Some []"
| "urlUnescape m (c # s) =
     (if c = CHR ''%'' then
        (case s of
           a # b # t \<Rightarrow>
             (case (hexValue a, hexValue b) of
                (Some x, Some y) \<Rightarrow>
                  if badEscape m a b x y then None
                  else map_option (Cons (char_of (16 * x + y))) (urlUnescape m t)
              | _ \<Rightarrow> None)
         | _ \<Rightarrow> None)
      else if c = CHR ''+'' \<and> m = EncQuery then map_option (Cons (CHR '' '')) (urlUnescape m s)
      else if (m = EncHost \<or> m = EncZone) \<and> isAscii c \<and> hostEscapes c then None
      else map_option (Cons c) (urlUnescape m s))"

section \<open>Parts of a URL\<close>

text \<open>The scheme and the rest; \<open>None\<close> is an error.\<close>

fun schemeFrom :: "bool \<Rightarrow> string \<Rightarrow> string \<Rightarrow> (string \<times> string) option option" where
  "schemeFrom first acc [] = Some None"
| "schemeFrom first acc (c # s) =
     (let n = of_char c :: nat in
      if 97 \<le> n \<and> n \<le> 122 \<or> 65 \<le> n \<and> n \<le> 90 then schemeFrom False (acc @ [c]) s
      else if 48 \<le> n \<and> n \<le> 57 \<or> c \<in> set ''+-.'' then
        (if first then Some None else schemeFrom False (acc @ [c]) s)
      else if c = CHR '':'' then (if first then None else Some (Some (acc, s)))
      else Some None)"

definition getScheme :: "string \<Rightarrow> (string \<times> string) option" where
  "getScheme rawURL = map_option (\<lambda>r. case r of None \<Rightarrow> ([], rawURL) | Some p \<Rightarrow> p) (schemeFrom True [] rawURL)"

definition validOptionalPort :: "string \<Rightarrow> bool" where
  "validOptionalPort port = (case port of [] \<Rightarrow> True | c # ds \<Rightarrow> c = CHR '':'' \<and> list_all isAsciiDigit ds)"

definition validUserinfo :: "string \<Rightarrow> bool" where
  "validUserinfo s \<longleftrightarrow> list_all (\<lambda>c. isAlnum c \<or> c \<in> set ''-._:~!$&()*+,;=%@'' \<or> c = CHR 0x27) s"

text \<open>The position of ''%25'', where the zone of an address begins\<close>

fun zoneSplit :: "string \<Rightarrow> (string \<times> string) option" where
  "zoneSplit [] = None"
| "zoneSplit (c # s) =
     (if prefix ''%25'' (c # s) then Some ([], c # s)
      else map_option (\<lambda>(a, b). (c # a, b)) (zoneSplit s))"

definition parseHost :: "(string \<Rightarrow> bool) \<Rightarrow> string \<Rightarrow> string option" where
  "parseHost validIP6 host =
     (case lastIndexByte host (CHR ''['') of
        Some (Suc i) \<Rightarrow> None
      | Some 0 \<Rightarrow>
          (case lastIndexByte host (CHR '']'') of
             None \<Rightarrow> None
           | Some j \<Rightarrow>
               if \<not> validOptionalPort (drop (Suc j) host) then None
               else let name = drop 1 (take j host);
                        unescaped = (case zoneSplit name of
                            None \<Rightarrow> urlUnescape EncHost name
                          | Some (a, z) \<Rightarrow>
                              (case (urlUnescape EncHost a, urlUnescape EncZone z) of
                                 (Some a', Some z') \<Rightarrow> Some (a' @ z') | _ \<Rightarrow> None))
                    in case unescaped of
                         None \<Rightarrow> None
                       | Some n \<Rightarrow>
                           if validIP6 n then Some (CHR ''['' # n @ CHR '']'' # drop (Suc j) host) else None)
      | None \<Rightarrow>
          (case lastIndexByte host (CHR '':'') of
             Some i \<Rightarrow> if validOptionalPort (drop i host) then urlUnescape EncHost host else None
           | None \<Rightarrow> urlUnescape EncHost host))"

text \<open>The user information is only checked: nothing here reads it.\<close>

definition userinfoOK :: "string \<Rightarrow> bool" where
  "userinfoOK s \<longleftrightarrow> validUserinfo s \<and>
     (case strCut s (CHR '':'') of (user, password, found) \<Rightarrow>
        urlUnescape EncUser user \<noteq> None \<and> urlUnescape EncUser password \<noteq> None)"

definition parseAuthority :: "(string \<Rightarrow> bool) \<Rightarrow> string \<Rightarrow> string option" where
  "parseAuthority validIP6 authority =
     (case lastIndexByte authority (CHR ''@'') of
        None \<Rightarrow> parseHost validIP6 authority
      | Some i \<Rightarrow>
          (case parseHost validIP6 (drop (Suc i) authority) of
             None \<Rightarrow> None
           | Some host \<Rightarrow> if userinfoOK (take i authority) then Some host else None))"

section \<open>URLs\<close>

record url =
  uScheme :: string
  uHost :: string
  uPath :: string
  uRawQuery :: string

definition isCTL :: "char \<Rightarrow> bool" where
  "isCTL c \<longleftrightarrow> (of_char c :: nat) < 0x20 \<or> of_char c = (0x7F :: nat)"

definition withPath :: "url \<Rightarrow> string \<Rightarrow> url option" where
  "withPath u p = map_option (\<lambda>path. u\<lparr>uPath := path\<rparr>) (urlUnescape EncPath p)"

text \<open>What follows the scheme, without the query\<close>

definition parseRest :: "(string \<Rightarrow> bool) \<Rightarrow> url \<Rightarrow> string \<Rightarrow> url option" where
  "parseRest validIP6 u rest =
     (if \<not> prefix ''/'' rest \<and> uScheme u \<noteq> [] then Some u
      else if \<not> prefix ''/'' rest \<and> CHR '':'' \<in> set (fst (strCut rest (CHR ''/''))) then None
      else if prefix ''//'' rest \<and> (uScheme u \<noteq> [] \<or> \<not> prefix ''///'' rest) then
        (let authority = takeWhile (\<lambda>c. c \<noteq> CHR ''/'') (drop 2 rest);
             path = dropWhile (\<lambda>c. c \<noteq> CHR ''/'') (drop 2 rest)
         in Option.bind (parseAuthority validIP6 authority) (\<lambda>host. withPath (u\<lparr>uHost := host\<rparr>) path))
      else withPath u rest)"

definition parseNoFragment :: "(string \<Rightarrow> bool) \<Rightarrow> string \<Rightarrow> url option" where
  "parseNoFragment validIP6 rawURL =
     (if list_ex isCTL rawURL then None
      else if rawURL = ''*'' then Some \<lparr>uScheme = [], uHost = [], uPath = ''*'', uRawQuery = []\<rparr>
      else case getScheme rawURL of
             None \<Rightarrow> None
           | Some (scheme, rest) \<Rightarrow>
               (case strCut rest (CHR ''?'') of
                  (rest', query, found) \<Rightarrow>
                    parseRest validIP6 \<lparr>uScheme = map lowerByte scheme, uHost = [], uPath = [], uRawQuery = query\<rparr> rest'))"

definition urlParse :: "(string \<Rightarrow> bool) \<Rightarrow> string \<Rightarrow> url option" where
  "urlParse validIP6 rawURL =
     (case strCut rawURL (CHR ''#'') of
        (u, frag, found) \<Rightarrow>
          (case parseNoFragment validIP6 u of
             None \<Rightarrow> None
           | Some parsed \<Rightarrow> if urlUnescape EncFragment frag = None then None else Some parsed))"

section \<open>Reading a URL\<close>

definition urlSplitHostPort :: "string \<Rightarrow> string \<times> string" where
  "urlSplitHostPort hostPort =
     (case (case lastIndexByte hostPort (CHR '':'') of
              Some colon \<Rightarrow>
                if validOptionalPort (drop colon hostPort) then (take colon hostPort, drop (Suc colon) hostPort)
                else (hostPort, [])
            | None \<Rightarrow> (hostPort, [])) of
        (host, port) \<Rightarrow>
          (if prefix ''['' host \<and> suffix '']'' host then take (length host - 2) (drop 1 host) else host, port))"

definition urlHostname :: "url \<Rightarrow> string" where
  "urlHostname u = fst (urlSplitHostPort (uHost u))"

definition urlPort :: "url \<Rightarrow> string" where
  "urlPort u = snd (urlSplitHostPort (uHost u))"

text \<open>\<open>Query().Get(key)\<close>: the first value; pairs with a semicolon or a bad escape are skipped.\<close>

definition queryPair :: "string \<Rightarrow> (string \<times> string) option" where
  "queryPair pair =
     (if CHR '';'' \<in> set pair \<or> pair = [] then None
      else case strCut pair (CHR ''='') of
             (key, value, found) \<Rightarrow>
               (case (urlUnescape EncQuery key, urlUnescape EncQuery value) of
                  (Some k, Some v) \<Rightarrow> Some (k, v) | _ \<Rightarrow> None))"

definition queryGet :: "url \<Rightarrow> string \<Rightarrow> string" where
  "queryGet u key =
     (case map_of (List.map_filter queryPair (splitOn (CHR ''&'') (uRawQuery u))) key of
        None \<Rightarrow> [] | Some v \<Rightarrow> v)"

section \<open>Hosts and ports\<close>

definition joinHostPort :: "string \<Rightarrow> string \<Rightarrow> string" where
  "joinHostPort host port =
     (if CHR '':'' \<in> set host then CHR ''['' # host @ '']:'' @ port else host @ CHR '':'' # port)"

text \<open>\<open>net.SplitHostPort\<close>; \<open>None\<close> is an error.\<close>

definition splitHostPort :: "string \<Rightarrow> (string \<times> string) option" where
  "splitHostPort hostport =
     (case lastIndexByte hostport (CHR '':'') of
        None \<Rightarrow> None
      | Some i \<Rightarrow>
          if prefix ''['' hostport then
            (case indexByte hostport (CHR '']'') of
               None \<Rightarrow> None
             | Some j \<Rightarrow>
                 if Suc j = i \<and> CHR ''['' \<notin> set (drop 1 hostport) \<and> CHR '']'' \<notin> set (drop (Suc j) hostport)
                 then Some (drop 1 (take j hostport), drop (Suc i) hostport) else None)
          else if CHR '':'' \<in> set (take i hostport) then None
          else if CHR ''['' \<in> set hostport \<or> CHR '']'' \<in> set hostport then None
          else Some (take i hostport, drop (Suc i) hostport))"

lemma split_join_hostPort:
  assumes "CHR ''['' \<notin> set host" "CHR '']'' \<notin> set host"
    and "CHR ''['' \<notin> set port" "CHR '']'' \<notin> set port" "CHR '':'' \<notin> set port"
  shows "splitHostPort (joinHostPort host port) = Some (host, port)"
proof (cases "CHR '':'' \<in> set host")
  case True
  have j: "joinHostPort host port = (CHR ''['' # host) @ CHR '']'' # CHR '':'' # port"
    using True by (simp add: joinHostPort_def)
  have i: "lastIndexByte (joinHostPort host port) (CHR '':'') = Some (Suc (Suc (length host)))"
    using lastIndexByte_append [of "CHR '':''" port "CHR ''['' # host @ '']''"] assms(5) by (simp add: j)
  have k: "indexByte (joinHostPort host port) (CHR '']'') = Some (Suc (length host))"
    unfolding j by (subst indexByte_append) (use assms in simp_all)
  show ?thesis unfolding splitHostPort_def i k using assms by (simp add: j)
next
  case False
  have i: "lastIndexByte (joinHostPort host port) (CHR '':'') = Some (length host)"
    using lastIndexByte_append [of "CHR '':''" port host] assms(5) False by (simp add: joinHostPort_def)
  have "\<not> prefix ''['' (joinHostPort host port)"
    using False assms(1) by (cases host) (auto simp: joinHostPort_def)
  then show ?thesis unfolding splitHostPort_def i using assms False by (auto simp: joinHostPort_def)
qed
section \<open>Taking a URL apart\<close>

text \<open>Characters that stand for themselves in a host, and in a path\<close>

definition plainHost :: "string \<Rightarrow> bool" where
  "plainHost h \<longleftrightarrow> list_all (\<lambda>c. isAscii c \<and> \<not> hostEscapes c \<and> c \<notin> set ''[]:'') h"

definition plainUrlPath :: "string \<Rightarrow> bool" where
  "plainUrlPath p \<longleftrightarrow> list_all (\<lambda>c. \<not> isCTL c \<and> c \<notin> set ''%?#'') p"

definition plainScheme :: "string \<Rightarrow> bool" where
  "plainScheme s \<longleftrightarrow> s \<noteq> [] \<and> list_all (\<lambda>c. let n = of_char c :: nat in 97 \<le> n \<and> n \<le> 122) s"

definition authorityChars :: "string \<Rightarrow> bool" where
  "authorityChars a \<longleftrightarrow> list_all (\<lambda>c. \<not> isCTL c \<and> c \<notin> set ''/?#'') a"

lemma urlUnescape_plain:
  "CHR ''%'' \<notin> set s \<Longrightarrow> m \<noteq> EncQuery \<Longrightarrow>
   (m = EncHost \<or> m = EncZone \<Longrightarrow> list_all (\<lambda>c. isAscii c \<longrightarrow> \<not> hostEscapes c) s) \<Longrightarrow> urlUnescape m s = Some s"
  by (induction s) auto

lemma plainHost_char: "plainHost h \<Longrightarrow> c \<in> set h \<Longrightarrow> isAscii c \<and> \<not> hostEscapes c \<and> c \<notin> set ''[]:''"
  unfolding plainHost_def list_all_iff by (rule bspec)

lemma escaped_chars: "hostEscapes (CHR ''%'')" "hostEscapes (CHR ''@'')"
  by (simp_all add: hostEscapes_def isAlnum_def)

lemma plainHost_facts:
  assumes "plainHost h"
  shows "CHR '':'' \<notin> set h" "CHR ''['' \<notin> set h" "CHR '']'' \<notin> set h" "CHR ''%'' \<notin> set h" "CHR ''@'' \<notin> set h"
    "list_all (\<lambda>c. isAscii c \<longrightarrow> \<not> hostEscapes c) h"
  using plainHost_char [OF assms] escaped_chars by (force, force, force, blast, blast, simp add: list_all_iff)

lemma hostEscapes_range: "hostEscapes c \<Longrightarrow> \<not> isAlnum c" by (simp add: hostEscapes_def)

lemma not_isCTL: "isAlnum c \<Longrightarrow> \<not> isCTL c" by (auto simp: isAlnum_def isCTL_def Let_def)

lemma plainHost_authority: "plainHost h \<Longrightarrow> authorityChars h"
proof -
  have "\<not> isCTL c \<and> c \<notin> set ''/?#''" if "\<not> hostEscapes c" for c
  proof (cases "isAlnum c")
    case True
    then show ?thesis using not_isCTL by (auto simp: isAlnum_def)
  next
    case False
    with that have "c \<in> set ''!$&()*+,;=:[]<>-_.~'' \<union> {CHR 0x27, CHR 0x22}" by (auto simp: hostEscapes_def)
    then show ?thesis by (auto simp: isCTL_def)
  qed
  then show "plainHost h \<Longrightarrow> authorityChars h" by (auto simp: plainHost_def authorityChars_def list_all_iff)
qed

lemma digit_facts: "isAsciiDigit c \<Longrightarrow> isAlnum c \<and> isAscii c \<and> c \<notin> set ''%:/?#@[]''"
  by (auto simp: isAsciiDigit_def isAlnum_def isAscii_def Let_def)

lemma userinfo_authority: "validUserinfo s \<Longrightarrow> authorityChars s"
proof -
  have "\<not> isCTL c \<and> c \<notin> set ''/?#''" if "isAlnum c \<or> c \<in> set ''-._:~!$&()*+,;=%@'' \<or> c = CHR 0x27" for c
    using that not_isCTL by (auto simp: isAlnum_def isCTL_def)
  then show "validUserinfo s \<Longrightarrow> authorityChars s" by (auto simp: validUserinfo_def authorityChars_def list_all_iff)
qed

lemma parseHost_port:
  assumes "plainHost h" "list_all isAsciiDigit port"
  shows "parseHost V (h @ CHR '':'' # port) = Some (h @ CHR '':'' # port)"
proof -
  note h = plainHost_facts [OF assms(1)]
  have p: "CHR '':'' \<notin> set port" "CHR ''['' \<notin> set port" "CHR ''%'' \<notin> set port" "list_all (\<lambda>c. isAscii c \<longrightarrow> \<not> hostEscapes c) port"
    using assms(2) digit_facts by (fastforce simp: list_all_iff hostEscapes_def)+
  have i: "lastIndexByte (h @ CHR '':'' # port) (CHR '':'') = Some (length h)"
    using lastIndexByte_append [of "CHR '':''" port h] p(1) by simp
  have "lastIndexByte (h @ CHR '':'' # port) (CHR ''['') = None" using h(2) p(2) by simp
  moreover have "urlUnescape EncHost (h @ CHR '':'' # port) = Some (h @ CHR '':'' # port)"
    by (rule urlUnescape_plain) (use h p in \<open>auto simp: hostEscapes_def\<close>)
  ultimately show ?thesis using i assms(2) by (simp add: parseHost_def validOptionalPort_def)
qed

lemma parseHost_name: "plainHost h \<Longrightarrow> parseHost V h = Some h"
  using plainHost_facts [of h] urlUnescape_plain [of h EncHost] by (simp add: parseHost_def)

lemma parseAuthority_user:
  "CHR ''@'' \<notin> set hp \<Longrightarrow> userinfoOK ui \<Longrightarrow> parseAuthority V (ui @ CHR ''@'' # hp) = parseHost V hp"
  by (simp add: parseAuthority_def split: option.split)

lemma parseAuthority_plain: "CHR ''@'' \<notin> set hp \<Longrightarrow> parseAuthority V hp = parseHost V hp"
  by (simp add: parseAuthority_def)

lemma schemeFrom_plain:
  "list_all (\<lambda>c. let n = of_char c :: nat in 97 \<le> n \<and> n \<le> 122) s \<Longrightarrow> s \<noteq> [] \<or> \<not> first \<Longrightarrow>
   schemeFrom first acc (s @ CHR '':'' # t) = Some (Some (acc @ s, t))"
proof (induction s arbitrary: first acc)
  case (Cons c s)
  then have "schemeFrom first acc ((c # s) @ CHR '':'' # t) = schemeFrom False (acc @ [c]) (s @ CHR '':'' # t)"
    by (simp add: Let_def)
  also have "\<dots> = Some (Some (acc @ c # s, t))" using Cons.IH [of False "acc @ [c]"] Cons.prems by simp
  finally show ?case .
qed simp

lemma getScheme_plain: "plainScheme s \<Longrightarrow> getScheme (s @ CHR '':'' # t) = Some (s, t)"
  using schemeFrom_plain [of s True "[]" t] by (simp add: getScheme_def plainScheme_def)

lemma lower_plain: "plainScheme s \<Longrightarrow> map lowerByte s = s"
  by (auto simp: plainScheme_def lowerByte_def list_all_iff Let_def intro!: map_idI)

lemma plainScheme_chars: "plainScheme s \<Longrightarrow> c \<in> set s \<Longrightarrow> \<not> isCTL c \<and> c \<notin> set ''#?*:/''"
  by (auto simp: plainScheme_def list_all_iff isCTL_def Let_def dest!: bspec)

text \<open>A scheme, an authority, a path that is empty or begins with a slash, and perhaps a query\<close>

definition showUrl :: "string \<Rightarrow> string \<Rightarrow> string \<Rightarrow> string option \<Rightarrow> string" where
  "showUrl scheme authority path query =
     scheme @ ''://'' @ authority @ path @ (case query of None \<Rightarrow> [] | Some q \<Rightarrow> CHR ''?'' # q)"

definition queryText :: "string option \<Rightarrow> string" where
  "queryText query = (case query of None \<Rightarrow> [] | Some q \<Rightarrow> q)"

lemma urlParse_show:
  assumes scheme: "plainScheme scheme" and auth: "authorityChars authority"
    and path: "plainUrlPath path" "path = [] \<or> hd path = CHR ''/''"
    and query: "list_all (\<lambda>c. \<not> isCTL c \<and> c \<noteq> CHR ''#'') (queryText query)"
    and host: "parseAuthority V authority = Some h"
  shows "urlParse V (showUrl scheme authority path query) =
     Some \<lparr>uScheme = scheme, uHost = h, uPath = path, uRawQuery = queryText query\<rparr>"
proof -
  let ?u = "showUrl scheme authority path query"
  let ?front = "scheme @ CHR '':'' # CHR ''/'' # CHR ''/'' # authority @ path"
  have chars: "\<not> isCTL c \<and> c \<noteq> CHR ''#''" if "c \<in> set ?u" for c
  proof -
    note c = that
    consider "c \<in> set scheme" | "c \<in> set authority" | "c \<in> set path" | "c \<in> set (queryText query)" | "c \<in> set '':/?''"
      using c by (cases query) (auto simp: showUrl_def queryText_def)
    then show ?thesis
    proof cases
      case 1
      then show ?thesis using plainScheme_chars [OF scheme] by auto
    next
      case 2
      then show ?thesis using auth by (auto simp: authorityChars_def list_all_iff)
    next
      case 3
      then show ?thesis using path(1) by (auto simp: plainUrlPath_def list_all_iff)
    next
      case 4
      then show ?thesis using query by (auto simp: list_all_iff)
    next
      case 5
      then show ?thesis by (auto simp: isCTL_def)
    qed
  qed
  have "CHR ''#'' \<notin> set ?u" using chars by blast
  then have frag: "strCut ?u (CHR ''#'') = (?u, [], False)" by simp
  have ctl: "\<not> list_ex isCTL ?u" using chars by (auto simp: list_ex_iff)
  have star: "?u \<noteq> ''*''" by (simp add: showUrl_def append_eq_Cons_conv)
  have "CHR ''?'' \<notin> set authority" "CHR ''?'' \<notin> set path"
    using auth path(1) by (auto simp: authorityChars_def plainUrlPath_def list_all_iff)
  then have q: "CHR ''?'' \<notin> set (CHR ''/'' # CHR ''/'' # authority @ path)" by simp
  let ?rest = "CHR ''/'' # CHR ''/'' # authority @ path"
  have s: "getScheme ?u = Some (scheme, ?rest @ (case query of None \<Rightarrow> [] | Some q \<Rightarrow> CHR ''?'' # q))"
    using getScheme_plain [OF scheme] by (simp add: showUrl_def)
  have c: "\<exists>f. strCut (?rest @ (case query of None \<Rightarrow> [] | Some q \<Rightarrow> CHR ''?'' # q)) (CHR ''?'') = (?rest, queryText query, f)"
    using q strCut_found [OF q] by (cases query) (auto simp: queryText_def)
  have slash: "CHR ''/'' \<notin> set authority" using auth by (auto simp: authorityChars_def list_all_iff)
  then have tw: "takeWhile (\<lambda>c. c \<noteq> CHR ''/'') (authority @ path) = authority"
    "dropWhile (\<lambda>c. c \<noteq> CHR ''/'') (authority @ path) = path"
    using path(2) by (cases path; auto simp: takeWhile_append2 dropWhile_append2)+
  have un: "urlUnescape EncPath path = Some path"
    by (rule urlUnescape_plain) (use path(1) in \<open>auto simp: plainUrlPath_def list_all_iff\<close>)
  have "parseRest V \<lparr>uScheme = scheme, uHost = [], uPath = [], uRawQuery = queryText query\<rparr> ?rest =
      Some \<lparr>uScheme = scheme, uHost = h, uPath = path, uRawQuery = queryText query\<rparr>"
    using scheme by (simp add: parseRest_def tw host un withPath_def plainScheme_def)
  then have "parseNoFragment V ?u = Some \<lparr>uScheme = scheme, uHost = h, uPath = path, uRawQuery = queryText query\<rparr>"
    using c by (auto simp: parseNoFragment_def ctl star s lower_plain [OF scheme])
  then show ?thesis by (simp add: urlParse_def frag)
qed

lemma hostname_port:
  assumes "plainHost h" "list_all isAsciiDigit port"
  shows "urlSplitHostPort (h @ CHR '':'' # port) = (h, port)"
proof -
  have p: "CHR '':'' \<notin> set port" using assms(2) digit_facts by (auto simp: list_all_iff)
  have i: "lastIndexByte (h @ CHR '':'' # port) (CHR '':'') = Some (length h)"
    using lastIndexByte_append [of "CHR '':''" port h] p by simp
  have "\<not> prefix ''['' h" using plainHost_facts [OF assms(1)] by (cases h) auto
  then show ?thesis using i assms(2) by (simp add: urlSplitHostPort_def validOptionalPort_def)
qed

lemma hostname_only: "plainHost h \<Longrightarrow> urlSplitHostPort h = (h, [])"
  using plainHost_facts [of h] by (cases h) (auto simp: urlSplitHostPort_def)

end
