(* ===== verification/Spec2Isabelle.thy ===== *)
theory Spec2Isabelle
  imports Args Goflags Build_Args Build_State Build_Lock Match_Deps
    Injected_Deps Find_Deps Pin Trampoline_Correct Hook_Analysis Hook_Values Instrument_Package Span_Stack Sql_Hooks
begin

text \<open>
  Compile-time instrumentation of Go programs (otelc), a model of \<open>tool/\<close> with its correctness
  properties.

  \<^bold>\<open>The program.\<close> \<open>otelc setup\<close> loads rules, finds the dependencies of the build and decides which
  rule applies to which source file (\<open>tool/internal/setup\<close>, \<open>tool/internal/rule\<close>). The go command
  then runs otelc in place of each compiler and linker command (\<open>tool/internal/instrument\<close>): a
  compile step parses the files the rules name, changes them and hands the changed files to the
  compiler; the link step sees the packages that were added. What is changed outside the build
  directory is tracked and restored by \<open>otelc cleanup\<close>.

  \<^bold>\<open>Theories, in the order of the code.\<close>

  \<^item> \<open>Go_Prelude\<close>, \<open>Codec\<close>, \<open>Go_Path\<close>: strings, paths and maps of Go as the code uses them, and the
    interface of an encoder and a decoder, interpreted by every pair of functions that has one.
  \<^item> \<open>Args\<close> (\<open>setup/args.go\<close>), \<open>Goflags\<close> (\<open>util/go.go\<close>), \<open>Build_Args\<close> (\<open>setup/vendor.go\<close>, \<open>setup.go\<close>):
    classifying a go command line, splitting tool command lines and GOFLAGS, module mode.
  \<^item> \<open>Build_State\<close> (\<open>setup/state.go\<close>, \<open>cleanup.go\<close>), \<open>Build_Lock\<close> (\<open>setup/lock.go\<close>): files tracked, reverted
    and cleaned up over a file map with faults; the lock protocol as a step relation.
  \<^item> \<open>Rule_Target\<close>, \<open>Rule_Types\<close>, \<open>Rule_Normalize\<close>, \<open>Version_Range\<close>, \<open>Rule_Rules\<close> (\<open>tool/internal/rule\<close>): the
    data of rules, from the structured form to checked rules.
  \<^item> \<open>Go_Syntax\<close>, \<open>Type_Names\<close>, \<open>Directives\<close> (\<open>tool/internal/ast\<close>): declarations, type names, imports and
    directive comments; \<open>Rule_Match\<close>, \<open>Match_Deps\<close> (\<open>setup/filter.go\<close>, \<open>match.go\<close>): which rules match.
  \<^item> \<open>File_Tree\<close>, \<open>Package_Load\<close>, \<open>Tool_Files\<close>, \<open>Pin\<close>, \<open>Find_Deps\<close>, \<open>Injected_Deps\<close> (\<open>setup/match.go\<close>,
    \<open>pkgload/pkgload.go\<close>, \<open>setup/setup.go\<close>, \<open>config.go\<close>, \<open>pin.go\<close>, \<open>find.go\<close>, \<open>inject.go\<close>): where the rules come
    from - directories of rule files, packages that config files import, the files that pinning
    writes -, the dependencies that the build plan lists, and the packages that the hooks of matched
    rules bring into the build, which are matched in turn.
  \<^item> \<open>Trampoline_Jump\<close>, \<open>Trampoline_Correct\<close> (\<open>instrument/apply_func.go\<close>, \<open>optimize.go\<close>, \<open>impl.tmpl\<close>): jumps into
    trampolines, their optimisation and their meaning; \<open>Hook_Analysis\<close>, \<open>Hook_Types\<close>, \<open>Hook_Context\<close>,
    \<open>Hook_Values\<close> (\<open>instrument/trampoline.go\<close>): the hooks they call and the context these get.
  \<^item> \<open>Import_Config\<close> (\<open>imports/importcfg.go\<close>), \<open>Toolexec\<close> (\<open>instrument/toolexec.go\<close>), \<open>Go_Code\<close>, \<open>Rule_Imports\<close>
    (\<open>imports/imports.go\<close>, \<open>instrument/imports.go\<close>): importcfg files, nested builds, imports of rules.
  \<^item> \<open>Code_Rules\<close> (\<open>instrument/apply_raw.go\<close>, \<open>apply_directive.go\<close>, \<open>apply_decl.go\<close>): rules that put
    statements into functions and values into declarations.
  \<^item> \<open>Call_Template\<close>, \<open>Template_Trace\<close> (\<open>instrument/call_template.go\<close>, \<open>func_template.go\<close>), \<open>Call_Sites\<close>,
    \<open>Ignored_Calls\<close> (\<open>instrument/apply_call.go\<close>): the code that rules put around calls, which calls are changed, and the
    brackets around calls that are to be ignored; \<open>Literal_Rules\<close> (\<open>instrument/apply_lit.go\<close>): fields that
    rules set in composite literals.
  \<^item> \<open>Instrument_Package\<close> (\<open>instrument/instrument.go\<close>, \<open>match.go\<close>, \<open>apply_file.go\<close>, \<open>apply_func.go\<close>,
    \<open>toolexec.go\<close>): the compile step of a package, which applies the rules of the theories above file by
    file and builds the command that is run.
  \<^item> \<open>Span_Stack\<close> (\<open>instrumentation/go.opentelemetry.io/otel/sdk/trace\<close>, \<open>instrumentation/runtime\<close>): the
    spans that goroutines inherit implicitly.
  \<^item> \<open>Go_Url\<close>, \<open>Dsn_Parse\<close>, \<open>Sql_Hooks\<close> (\<open>instrumentation/database/sql\<close>): \<open>url.Parse\<close>, the parsers of data source
    names, and the hooks that carry what they found through connections, transactions and
    statements to the spans of their calls.

  \<^bold>\<open>What is shown.\<close> Codecs read back what they wrote; each check accepts exactly the well-formed
  inputs; matching selects a rule exactly when target, version and filters agree; loading visits
  every config file and package that is reached, once, and ends; pinning imports every module that
  setup could use and is idempotent; an instrumented
  function is its original wrapped in the hooks, and the hooks reach its variables except in front of
  interface literals and in generic functions; code of rules names the packages the rule meant and
  the parameters and results of the function it is put in; literals get exactly the fields of a rule;
  the compile command names exactly the files that were rewritten or added;
  nested builds end; state and lock keep their invariants under faults and interleavings.

  \<^bold>\<open>Parameters and bounds.\<close> The go command, the module cache, hash functions, the template engine and
  the Go parser are parameters; what is relied on is a named hypothesis. So are the export files
  of packages for the importcfg (as \<open>Package_Load\<close> resolves them) and the creation of trampolines,
  which is taken to succeed. File paths are those of a Unix system. Chains of nested builds
  have at most 32 entries, lines of importcfg files fewer than 10 MiB, as in the code. Every
  recursion is structural or terminates by the length of what is left; no fuel is used.

  \<^bold>\<open>Not modelled.\<close> The command-line front end, logging, profiling, the running of processes, rules that
  add fields to structs, the source text of trampolines, synchronising go.mod, the hooks of other
  libraries under \<open>instrumentation/\<close> and demo and test programs.
\<close>

end
